(* ===== verification/Prelude.thy ===== *)
theory Prelude
  imports "HOL-Library.Word"
begin

text \<open>
  Shared vocabulary of the development: the result type of Rust operations that
  can return an error or panic, the integer operations of the Rust standard
  library that the code relies on (checked, saturating, little-endian), slices,
  and the lemma collections the component theories extend.

  Conventions. A \<open>u8\<close>, \<open>u16\<close>, \<open>u32\<close>, \<open>u64\<close> is a word of that
  width.  A \<open>usize\<close> is a natural number; the targets are 64-bit, so
  \<open>usize::checked_add\<close> fails at \<open>2 ^ 64\<close>.  A plain \<open>+\<close> on
  \<open>usize\<close> offsets that index a slice is the sum of naturals: a Rust slice is
  shorter than \<open>2 ^ 63\<close> bytes, so such a sum never reaches the width.
\<close>

unbundle bit_operations_syntax

type_synonym u8 = "8 word"
type_synonym u16 = "16 word"
type_synonym u32 = "32 word"
type_synonym u64 = "64 word"

text \<open>A Rust \<open>String\<close> or \<open>str\<close> is the list of its Unicode scalar values.\<close>

type_synonym rust_string = "u32 list"

named_theorems outcome_simps \<open>equations of the result type\<close>
named_theorems panic_intros \<open>rules that show an operation does not panic\<close>
named_theorems eval_simps \<open>definitions unfolded to evaluate a concrete input\<close>
named_theorems arith_word \<open>values of the checked integer operations\<close>

section \<open>Results\<close>

text \<open>
  \<open>Ok\<close> and \<open>Err\<close> are the constructors of \<open>Result\<close>; \<open>Panic\<close> is a Rust
  panic (an index out of range, an arithmetic overflow in a checked build).
\<close>

datatype ('e, 'a) outcome = Ok 'a | Err 'e | Panic

text \<open>The \<open>?\<close> operator.\<close>

fun obind :: "('e, 'a) outcome \<Rightarrow> ('a \<Rightarrow> ('e, 'b) outcome) \<Rightarrow> ('e, 'b) outcome" where
  "obind (Ok x) f = f x"
| "obind (Err e) f = Err e"
| "obind Panic f = Panic"

definition ok_or :: "'a option \<Rightarrow> 'e \<Rightarrow> ('e, 'a) outcome" where
  "ok_or x e = (case x of Some a \<Rightarrow> Ok a | None \<Rightarrow> Err e)"

fun map_err :: "('e \<Rightarrow> 'f) \<Rightarrow> ('e, 'a) outcome \<Rightarrow> ('f, 'a) outcome" where
  "map_err f (Ok x) = Ok x"
| "map_err f (Err e) = Err (f e)"
| "map_err f Panic = Panic"

fun is_ok :: "('e, 'a) outcome \<Rightarrow> bool" where
  "is_ok (Ok _) = True"
| "is_ok _ = False"

lemma obind_cong [fundef_cong]:
  "m = m' \<Longrightarrow> (\<And>x. m' = Ok x \<Longrightarrow> f x = f' x) \<Longrightarrow> obind m f = obind m' f'"
  by (cases m') auto

text \<open>Evaluation order for concrete inputs: the first operation before the rest of the block.\<close>

lemma obind_weak_cong: "m = m' \<Longrightarrow> obind m f = obind m' f"
  by simp

lemma obind_Ok_iff [outcome_simps]: "obind m f = Ok y \<longleftrightarrow> (\<exists>x. m = Ok x \<and> f x = Ok y)"
  by (cases m) auto

lemma obind_Err_iff: "obind m f = Err e \<longleftrightarrow> m = Err e \<or> (\<exists>x. m = Ok x \<and> f x = Err e)"
  by (cases m) auto

lemma obind_Panic_iff [outcome_simps]: "obind m f = Panic \<longleftrightarrow> m = Panic \<or> (\<exists>x. m = Ok x \<and> f x = Panic)"
  by (cases m) auto

lemma ok_or_simps [simp]: "ok_or (Some a) e = Ok a" "ok_or None e = Err e"
  by (simp_all add: ok_or_def)

lemma ok_or_Ok_iff [outcome_simps]: "ok_or x e = Ok a \<longleftrightarrow> x = Some a"
  by (simp add: ok_or_def split: option.splits)

lemma ok_or_Err_iff: "ok_or x e = Err d \<longleftrightarrow> x = None \<and> d = e"
  by (auto simp: ok_or_def split: option.splits)

lemma ok_or_not_Panic [simp]: "ok_or x e \<noteq> Panic"
  by (simp add: ok_or_def split: option.splits)

lemma ok_or_not_Panic' [simp]: "ok_or x e = Panic \<longleftrightarrow> False"
  by simp

lemma map_err_Ok_iff [outcome_simps]: "map_err f m = Ok x \<longleftrightarrow> m = Ok x"
  by (cases m) auto

lemma map_err_Panic_iff [simp]: "map_err f m = Panic \<longleftrightarrow> m = Panic"
  by (cases m) auto

lemma is_ok_iff: "is_ok m \<longleftrightarrow> (\<exists>x. m = Ok x)"
  by (cases m) auto

text \<open>Inversion of a successful run, one step of the code at a time.\<close>

lemma obind_OkE:
  assumes "obind m f = Ok y"
  obtains x where "m = Ok x" and "f x = Ok y"
  using assms by (auto simp: obind_Ok_iff)

lemma guard_OkE:
  assumes "(if c then Err e else m) = Ok y"
  obtains "\<not> c" and "m = Ok y"
  using assms by (auto split: if_splits)

lemma ok_or_OkE:
  assumes "ok_or x e = Ok a"
  obtains "x = Some a"
  using assms by (simp add: ok_or_Ok_iff)

lemmas run_elims = obind_OkE guard_OkE ok_or_OkE

lemma if_OkE:
  assumes "(if c then a else b) = Ok y"
  obtains "c" and "a = Ok y" | "\<not> c" and "b = Ok y"
  using assms by (auto split: if_splits)

lemma not_panic_if [panic_intros]:
  "(c \<Longrightarrow> a \<noteq> Panic) \<Longrightarrow> (\<not> c \<Longrightarrow> b \<noteq> Panic) \<Longrightarrow> (if c then a else b) \<noteq> Panic"
  by simp

lemma not_panic_results [panic_intros]: "Ok x \<noteq> Panic" "Err e \<noteq> Panic"
  by simp_all

lemma not_panic_ok_or [panic_intros]: "ok_or x e \<noteq> Panic"
  by simp

lemma not_panic_map_err [panic_intros]: "m \<noteq> Panic \<Longrightarrow> map_err f m \<noteq> Panic"
  by simp

lemma not_panic_bind [panic_intros]:
  "m \<noteq> Panic \<Longrightarrow> (\<And>x. m = Ok x \<Longrightarrow> f x \<noteq> Panic) \<Longrightarrow> obind m f \<noteq> Panic"
  by (cases m) auto

section \<open>Integers\<close>

definition usize_checked_add :: "nat \<Rightarrow> nat \<Rightarrow> nat option" where
  "usize_checked_add a b = (if a + b < 2 ^ 64 then Some (a + b) else None)"

definition usize_checked_mul :: "nat \<Rightarrow> nat \<Rightarrow> nat option" where
  "usize_checked_mul a b = (if a * b < 2 ^ 64 then Some (a * b) else None)"

definition usize_checked_sub :: "nat \<Rightarrow> nat \<Rightarrow> nat option" where
  "usize_checked_sub a b = (if b \<le> a then Some (a - b) else None)"

definition checked_add :: "'a::len word \<Rightarrow> 'a word \<Rightarrow> 'a word option" where
  "checked_add a b = (if unat a + unat b < 2 ^ LENGTH('a) then Some (a + b) else None)"

definition checked_mul :: "'a::len word \<Rightarrow> 'a word \<Rightarrow> 'a word option" where
  "checked_mul a b = (if unat a * unat b < 2 ^ LENGTH('a) then Some (a * b) else None)"

definition checked_sub :: "'a::len word \<Rightarrow> 'a word \<Rightarrow> 'a word option" where
  "checked_sub a b = (if b \<le> a then Some (a - b) else None)"

definition saturating_add :: "'a::len word \<Rightarrow> 'a word \<Rightarrow> 'a word" where
  "saturating_add a b = (if unat a + unat b < 2 ^ LENGTH('a) then a + b else - 1)"

definition saturating_sub :: "'a::len word \<Rightarrow> 'a word \<Rightarrow> 'a word" where
  "saturating_sub a b = (if b \<le> a then a - b else 0)"

text \<open>A plain \<open>-\<close> on an unsigned word: it panics below zero.\<close>

definition minus_or_panic :: "'a::len word \<Rightarrow> 'a word \<Rightarrow> ('e, 'a word) outcome" where
  "minus_or_panic a b = (if b \<le> a then Ok (a - b) else Panic)"

text \<open>\<open>/\<close> and \<open>%\<close> on an unsigned word: they panic on a zero divisor.\<close>

definition div_or_panic :: "'a::len word \<Rightarrow> 'a word \<Rightarrow> ('e, 'a word) outcome" where
  "div_or_panic a b = (if b = 0 then Panic else Ok (a div b))"

definition rem_or_panic :: "'a::len word \<Rightarrow> 'a word \<Rightarrow> ('e, 'a word) outcome" where
  "rem_or_panic a b = (if b = 0 then Panic else Ok (a mod b))"

lemma div_or_panic_nz [simp]: "b \<noteq> 0 \<Longrightarrow> div_or_panic a b = Ok (a div b)"
  and rem_or_panic_nz [simp]: "b \<noteq> 0 \<Longrightarrow> rem_or_panic a b = Ok (a mod b)"
  by (simp_all add: div_or_panic_def rem_or_panic_def)

lemma minus_or_panic_Ok [outcome_simps]: "minus_or_panic a b = Ok c \<longleftrightarrow> b \<le> a \<and> c = a - b"
  by (auto simp: minus_or_panic_def)

lemma not_panic_minus [panic_intros]: "b \<le> a \<Longrightarrow> minus_or_panic a b \<noteq> Panic"
  by (simp add: minus_or_panic_def)

lemma not_panic_div [panic_intros]: "b \<noteq> 0 \<Longrightarrow> div_or_panic a b \<noteq> Panic"
  and not_panic_rem [panic_intros]: "b \<noteq> 0 \<Longrightarrow> rem_or_panic a b \<noteq> Panic"
  by simp_all

lemma div_or_panic_Ok [outcome_simps]: "div_or_panic a b = Ok c \<longleftrightarrow> b \<noteq> 0 \<and> c = a div b"
  and rem_or_panic_Ok [outcome_simps]: "rem_or_panic a b = Ok c \<longleftrightarrow> b \<noteq> 0 \<and> c = a mod b"
  by (auto simp: div_or_panic_def rem_or_panic_def)

text \<open>An \<open>i64\<close> is an integer in range; the checked addition fails outside it.\<close>

definition i64_range :: "int \<Rightarrow> bool" where
  "i64_range i \<longleftrightarrow> - (2 ^ 63) \<le> i \<and> i < 2 ^ 63"

definition i64_checked_add :: "int \<Rightarrow> int \<Rightarrow> int option" where
  "i64_checked_add a b = (if i64_range (a + b) then Some (a + b) else None)"

text \<open>\<open>u64::try_from\<close> of an \<open>i64\<close>.\<close>

definition u64_of_i64 :: "int \<Rightarrow> u64 option" where
  "u64_of_i64 i = (if 0 \<le> i then Some (of_int i) else None)"

lemma i64_checked_add_Some [arith_word]:
  "i64_checked_add a b = Some c \<longleftrightarrow> i64_range (a + b) \<and> c = a + b"
  by (auto simp: i64_checked_add_def)

lemma u64_of_i64_Some [arith_word]: "u64_of_i64 i = Some w \<longleftrightarrow> 0 \<le> i \<and> w = of_int i"
  by (auto simp: u64_of_i64_def)

lemma usize_checked_add_Some [arith_word]:
  "usize_checked_add a b = Some c \<longleftrightarrow> a + b < 2 ^ 64 \<and> c = a + b"
  by (auto simp: usize_checked_add_def)

lemma usize_checked_mul_Some [arith_word]:
  "usize_checked_mul a b = Some c \<longleftrightarrow> a * b < 2 ^ 64 \<and> c = a * b"
  by (auto simp: usize_checked_mul_def)

lemma usize_checked_sub_Some [arith_word]:
  "usize_checked_sub a b = Some c \<longleftrightarrow> b \<le> a \<and> c = a - b"
  by (auto simp: usize_checked_sub_def)

lemma unat_add_no_overflow:
  "unat a + unat b < 2 ^ LENGTH('a) \<Longrightarrow> unat (a + b) = unat a + unat b" for a b :: "'a::len word"
  by (simp add: unat_word_ariths)

lemma unat_mult_no_overflow:
  "unat a * unat b < 2 ^ LENGTH('a) \<Longrightarrow> unat (a * b) = unat a * unat b" for a b :: "'a::len word"
  by (simp add: unat_word_ariths)

lemma unat_minus_le: "b \<le> a \<Longrightarrow> unat (a - b) = unat a - unat b" for a b :: "'a::len word"
  by (simp add: unat_sub)

lemma word_eq_unat_iff: "a = b \<longleftrightarrow> unat a = unat b" for a b :: "'a::len word"
  by (simp add: word_unat_eq_iff)

lemma checked_add_Some [arith_word]:
  "checked_add a b = Some c \<longleftrightarrow> unat a + unat b < 2 ^ LENGTH('a) \<and> unat c = unat a + unat b"
  for a b c :: "'a::len word"
  by (auto simp: checked_add_def unat_add_no_overflow word_eq_unat_iff)

lemma checked_mul_Some [arith_word]:
  "checked_mul a b = Some c \<longleftrightarrow> unat a * unat b < 2 ^ LENGTH('a) \<and> unat c = unat a * unat b"
  for a b c :: "'a::len word"
  by (auto simp: checked_mul_def unat_mult_no_overflow word_eq_unat_iff)

lemma checked_sub_Some [arith_word]:
  "checked_sub a b = Some c \<longleftrightarrow> unat b \<le> unat a \<and> unat c = unat a - unat b"
  for a b c :: "'a::len word"
  by (auto simp: checked_sub_def unat_minus_le word_eq_unat_iff word_le_nat_alt)

lemma checked_add_None: "checked_add a b = None \<longleftrightarrow> 2 ^ LENGTH('a) \<le> unat a + unat b"
  for a b :: "'a::len word"
  by (auto simp: checked_add_def)

lemma unat_saturating_add [arith_word]:
  "unat (saturating_add a b) = min (unat a + unat b) (2 ^ LENGTH('a) - 1)" for a b :: "'a::len word"
  by (auto simp: saturating_add_def unat_add_no_overflow unsigned_minus_1_eq_mask mask_eq_exp_minus_1)

lemma unat_saturating_sub [arith_word]: "unat (saturating_sub a b) = unat a - unat b"
  for a b :: "'a::len word"
  by (auto simp: saturating_sub_def unat_minus_le word_le_nat_alt)

lemma unat_ucast_up:
  assumes "LENGTH('a) \<le> LENGTH('b)"
  shows "unat (ucast (w :: 'a::len word) :: 'b::len word) = unat w"
proof -
  have "unat w < 2 ^ LENGTH('a)" by (rule unsigned_less)
  also have "\<dots> \<le> 2 ^ LENGTH('b)" using assms by (simp add: power_increasing)
  finally show ?thesis by (simp add: unsigned_ucast_eq take_bit_nat_eq_self)
qed

fun is_power_of_two :: "nat \<Rightarrow> bool" where
  "is_power_of_two n = (if n = 0 then False else if n = 1 then True
     else even n \<and> is_power_of_two (n div 2))"

declare is_power_of_two.simps [simp del]

lemma is_power_of_two_iff: "is_power_of_two n \<longleftrightarrow> (\<exists>k. n = 2 ^ k)"
proof (induction n rule: is_power_of_two.induct)
  case (1 n)
  consider "n = 0" | "n = 1" | "n \<noteq> 0" "n \<noteq> 1" by blast
  then show ?case
  proof cases
    case 1 then show ?thesis by (subst is_power_of_two.simps) simp
  next
    case 2 then show ?thesis by (subst is_power_of_two.simps) (auto intro: exI [of _ 0])
  next
    case 3
    have "(even n \<and> (\<exists>k. n div 2 = 2 ^ k)) \<longleftrightarrow> (\<exists>k. n = 2 ^ k)"
    proof
      assume "even n \<and> (\<exists>k. n div 2 = 2 ^ k)"
      then obtain k where "even n" "n div 2 = 2 ^ k" by blast
      then have "n = 2 ^ Suc k" by (auto elim: evenE)
      then show "\<exists>k. n = 2 ^ k" ..
    next
      assume "\<exists>k. n = 2 ^ k"
      then obtain k where k: "n = 2 ^ k" ..
      with 3 obtain j where "k = Suc j" by (cases k) auto
      with k show "even n \<and> (\<exists>k. n div 2 = 2 ^ k)" by auto
    qed
    then show ?thesis using 1 3 by (simp add: is_power_of_two.simps [of n])
  qed
qed

section \<open>Slices\<close>

text \<open>\<open>get(a..b)\<close>, \<open>get(i)\<close>, indexing and slicing with a panic.\<close>

definition slice :: "'a list \<Rightarrow> nat \<Rightarrow> nat \<Rightarrow> 'a list option" where
  "slice xs a b = (if a \<le> b \<and> b \<le> length xs then Some (take (b - a) (drop a xs)) else None)"

definition get_at :: "'a list \<Rightarrow> nat \<Rightarrow> 'a option" where
  "get_at xs i = (if i < length xs then Some (xs ! i) else None)"

definition idx :: "'a list \<Rightarrow> nat \<Rightarrow> ('e, 'a) outcome" where
  "idx xs i = (if i < length xs then Ok (xs ! i) else Panic)"

definition sub_slice :: "'a list \<Rightarrow> nat \<Rightarrow> nat \<Rightarrow> ('e, 'a list) outcome" where
  "sub_slice xs a b = (case slice xs a b of Some ys \<Rightarrow> Ok ys | None \<Rightarrow> Panic)"

lemma slice_Some [outcome_simps]:
  "slice xs a b = Some ys \<longleftrightarrow> a \<le> b \<and> b \<le> length xs \<and> ys = take (b - a) (drop a xs)"
  by (auto simp: slice_def)

lemma get_at_Some [outcome_simps]: "get_at xs i = Some x \<longleftrightarrow> i < length xs \<and> x = xs ! i"
  by (auto simp: get_at_def)

lemma slice_None: "slice xs a b = None \<longleftrightarrow> b < a \<or> length xs < b"
  by (auto simp: slice_def)

lemma slice_length: "slice xs a b = Some ys \<Longrightarrow> length ys = b - a"
  by (auto simp: slice_def split: if_splits)

lemma idx_Ok [outcome_simps]: "idx xs i = Ok x \<longleftrightarrow> i < length xs \<and> x = xs ! i"
  by (auto simp: idx_def)

lemma not_panic_idx [panic_intros]: "i < length xs \<Longrightarrow> idx xs i \<noteq> Panic"
  by (simp add: idx_def)

lemma not_panic_sub_slice [panic_intros]: "a \<le> b \<Longrightarrow> b \<le> length xs \<Longrightarrow> sub_slice xs a b \<noteq> Panic"
  by (simp add: sub_slice_def slice_def)

lemma idx_in: "i < length xs \<Longrightarrow> idx xs i = Ok (xs ! i)"
  by (simp add: idx_def)

lemma idx_not_Panic [simp]: "idx xs i \<noteq> Panic \<longleftrightarrow> i < length xs"
  by (simp add: idx_def)

lemma idx_not_Err [simp]: "idx xs i \<noteq> Err e"
  by (simp add: idx_def)

lemma sub_slice_Ok [outcome_simps]:
  "sub_slice xs a b = Ok ys \<longleftrightarrow> a \<le> b \<and> b \<le> length xs \<and> ys = take (b - a) (drop a xs)"
  by (auto simp: sub_slice_def slice_def)

lemma sub_slice_Panic: "sub_slice xs a b = Panic \<longleftrightarrow> b < a \<or> length xs < b"
  by (auto simp: sub_slice_def slice_def)

lemma sub_slice_in: "a \<le> b \<Longrightarrow> b \<le> length xs \<Longrightarrow> sub_slice xs a b = Ok (take (b - a) (drop a xs))"
  by (simp add: sub_slice_def slice_def)

section \<open>Little-endian integers\<close>

text \<open>\<open>from_le_bytes\<close> and \<open>to_le_bytes\<close>, at any width.\<close>

primrec le_word :: "u8 list \<Rightarrow> 'a::len word" where
  "le_word [] = 0"
| "le_word (b # bs) = ucast b OR push_bit 8 (le_word bs)"

definition le_bytes :: "nat \<Rightarrow> 'a::len word \<Rightarrow> u8 list" where
  "le_bytes n w = map (\<lambda>i. ucast (drop_bit (8 * i) w)) [0..<n]"

text \<open>\<open>chunks_exact(2)\<close> read as \<open>u16::from_le_bytes\<close>, and back.\<close>

fun u16_units :: "u8 list \<Rightarrow> u16 list" where
  "u16_units (a # b # rest) = le_word [a, b] # u16_units rest"
| "u16_units _ = []"

definition u16_unit_bytes :: "u16 list \<Rightarrow> u8 list" where
  "u16_unit_bytes us = concat (map (le_bytes 2) us)"

lemma byte_bit_high: "8 \<le> n \<Longrightarrow> \<not> bit (b :: u8) n"
  using bit_imp_le_length [of b n] by auto

lemma bit_le_word:
  "bit (le_word bs :: 'a::len word) n \<longleftrightarrow>
     n < LENGTH('a) \<and> n div 8 < length bs \<and> bit (bs ! (n div 8)) (n mod 8)"
proof (induction bs arbitrary: n)
  case Nil
  then show ?case by simp
next
  case (Cons b bs)
  show ?case
  proof (cases "n < 8")
    case True
    then show ?thesis by (auto simp: bit_or_iff bit_push_bit_iff bit_ucast_iff)
  next
    case False
    then have d: "n div 8 = Suc ((n - 8) div 8)" "(n - 8) mod 8 = n mod 8"
      by (simp_all add: le_div_geq le_mod_geq)
    with False show ?thesis
      by (auto simp: bit_or_iff bit_push_bit_iff bit_ucast_iff Cons.IH byte_bit_high)
  qed
qed

lemma length_le_bytes [simp]: "length (le_bytes n w) = n"
  by (simp add: le_bytes_def)

lemma le_word_le_bytes_take: "le_word (le_bytes n w) = (take_bit (8 * n) w :: 'a::len word)"
proof (rule bit_word_eqI)
  fix i assume i: "i < LENGTH('a)"
  have e: "8 * (i div 8) + i mod 8 = i" by simp
  have "i div 8 < n \<longleftrightarrow> i < 8 * n" by linarith
  then show "bit (le_word (le_bytes n w) :: 'a word) i = bit (take_bit (8 * n) w) i"
    using i by (auto simp: bit_le_word le_bytes_def bit_ucast_iff bit_drop_bit_eq bit_take_bit_iff e)
qed

lemma le_word_le_bytes [simp]:
  fixes w :: "'a::len word"
  assumes "LENGTH('a) \<le> 8 * n"
  shows "le_word (le_bytes n w) = w"
proof -
  have "take_bit (8 * n) w = w"
    by (rule bit_word_eqI) (use assms in \<open>auto simp: bit_take_bit_iff\<close>)
  then show ?thesis by (simp add: le_word_le_bytes_take)
qed

lemma le_bytes_le_word [simp]:
  assumes "length bs = n" and "8 * n \<le> LENGTH('a)"
  shows "le_bytes n (le_word bs :: 'a::len word) = bs"
proof (rule nth_equalityI)
  show "length (le_bytes n (le_word bs :: 'a word)) = length bs" using assms by simp
next
  fix i assume "i < length (le_bytes n (le_word bs :: 'a word))"
  then have i: "i < n" by simp
  show "le_bytes n (le_word bs :: 'a word) ! i = bs ! i"
  proof (rule bit_word_eqI)
    fix j assume j: "j < LENGTH(8)"
    then have j8: "j < 8" by simp
    with i assms have "8 * i + j < LENGTH('a)" by linarith
    moreover have "(8 * i + j) div 8 = i" "(8 * i + j) mod 8 = j" using j8 by auto
    ultimately show "bit (le_bytes n (le_word bs :: 'a word) ! i) j = bit (bs ! i) j"
      using i j8 assms(1) by (simp add: le_bytes_def bit_ucast_iff bit_drop_bit_eq bit_le_word)
  qed
qed

lemma u16_unit_bytes_simps [simp]:
  "u16_unit_bytes [] = []"
  "u16_unit_bytes (u # us) = le_bytes 2 u @ u16_unit_bytes us"
  by (simp_all add: u16_unit_bytes_def)

lemma le_bytes_2: "le_bytes 2 w = [ucast w, ucast (drop_bit 8 w)]"
  by (simp add: le_bytes_def upt_rec)

lemma u16_units_bytes [simp]: "u16_units (u16_unit_bytes us) = us"
proof (induction us)
  case (Cons u us)
  have "le_word [ucast u, ucast (drop_bit 8 u)] = u"
    using le_word_le_bytes [of 2 u] by (simp only: le_bytes_2) simp
  with Cons show ?case
    by (simp only: u16_unit_bytes_simps le_bytes_2 append.simps u16_units.simps)
qed simp

lemma length_u16_unit_bytes [simp]: "length (u16_unit_bytes us) = 2 * length us"
  by (induction us) simp_all

lemma length_u16_units [simp]: "length (u16_units bs) = length bs div 2"
  by (induction bs rule: u16_units.induct) auto

lemma u16_unit_bytes_units: "even (length bs) \<Longrightarrow> u16_unit_bytes (u16_units bs) = bs"
proof (induction bs rule: u16_units.induct)
  case (1 a b rest)
  have e: "le_bytes 2 (le_word [a, b] :: u16) = [a, b]" by (rule le_bytes_le_word) simp_all
  from 1 have "u16_unit_bytes (u16_units rest) = rest" by simp
  then show ?case by (simp only: u16_units.simps u16_unit_bytes_simps e append.simps)
qed simp_all

section \<open>Strings\<close>

text \<open>Text written in the source: the code points of an ASCII literal.\<close>

definition ascii :: "string \<Rightarrow> rust_string" where
  "ascii s = map (\<lambda>c. of_nat (of_char c)) s"

definition is_ascii_uppercase :: "u32 \<Rightarrow> bool" where
  "is_ascii_uppercase c \<longleftrightarrow> 0x41 \<le> c \<and> c \<le> 0x5A"

definition to_ascii_lowercase :: "u32 \<Rightarrow> u32" where
  "to_ascii_lowercase c = (if is_ascii_uppercase c then c + 0x20 else c)"

definition is_ascii_alphabetic :: "u32 \<Rightarrow> bool" where
  "is_ascii_alphabetic c \<longleftrightarrow> is_ascii_uppercase c \<or> (0x61 \<le> c \<and> c \<le> 0x7A)"

text \<open>\<open>split(sep)\<close>, which yields one empty piece for the empty string, and \<open>join\<close>.\<close>

fun split_on :: "'a \<Rightarrow> 'a list \<Rightarrow> 'a list list" where
  "split_on sep [] = [[]]"
| "split_on sep (c # cs) =
     (if c = sep then [] # split_on sep cs
      else case split_on sep cs of [] \<Rightarrow> [[c]] | piece # pieces \<Rightarrow> (c # piece) # pieces)"

fun join_with :: "'a \<Rightarrow> 'a list list \<Rightarrow> 'a list" where
  "join_with sep [] = []"
| "join_with sep [piece] = piece"
| "join_with sep (piece # pieces) = piece @ sep # join_with sep pieces"

lemma split_on_nonempty [simp]: "split_on sep cs \<noteq> []"
  by (induction cs) (auto split: list.split)

lemma split_on_pieces: "piece \<in> set (split_on sep cs) \<Longrightarrow> sep \<notin> set piece \<and> set piece \<subseteq> set cs"
proof (induction cs arbitrary: piece)
  case (Cons c cs)
  then show ?case by (cases "split_on sep cs") (fastforce split: if_splits)+
qed simp

lemma join_split [simp]: "join_with sep (split_on sep cs) = cs"
proof (induction cs)
  case (Cons c cs)
  obtain p ps where "split_on sep cs = p # ps" by (meson neq_Nil_conv split_on_nonempty)
  with Cons show ?case by (cases ps) auto
qed simp

lemma split_on_single: "sep \<notin> set piece \<Longrightarrow> split_on sep piece = [piece]"
  by (induction piece) auto

lemma split_on_append: "sep \<notin> set piece \<Longrightarrow> split_on sep (piece @ sep # cs) = piece # split_on sep cs"
  by (induction piece) auto

lemma split_join:
  "pieces \<noteq> [] \<Longrightarrow> \<forall>piece\<in>set pieces. sep \<notin> set piece \<Longrightarrow> split_on sep (join_with sep pieces) = pieces"
  by (induction sep pieces rule: join_with.induct) (simp_all add: split_on_single split_on_append)

lemma set_join_with: "c \<in> set (join_with sep pieces) \<Longrightarrow> c = sep \<or> (\<exists>piece\<in>set pieces. c \<in> set piece)"
  by (induction sep pieces rule: join_with.induct) auto

lemmas prelude_eval [eval_simps] =
  get_at_def slice_def sub_slice_def idx_def le_bytes_def upt_rec
  usize_checked_add_def usize_checked_mul_def usize_checked_sub_def
  checked_add_def checked_mul_def checked_sub_def saturating_add_def saturating_sub_def
  i64_checked_add_def i64_range_def u64_of_i64_def is_power_of_two.simps

end
