(* ===== verification/NtfsBytes.thy ===== *)
theory NtfsBytes
  imports Prelude
begin

text \<open>
  \<open>ferail-ntfs/src/error.rs\<close> and \<open>reader.rs\<close>: the parser's error value, the
  \<open>ByteReader\<close> trait as a record of its two required operations, and
  \<open>SliceReader\<close>.  What every reader promises its clients is the locale
  \<open>byte_source\<close> (a successful read returns exactly the requested bytes of one
  fixed content and never invents any) and, for readers without holes,
  \<open>total_source\<close>.
\<close>

section \<open>Errors\<close>

datatype error_kind =
    Cancelled | SourceIo | Truncated | InvalidSignature | InvalidGeometry | InvalidProtocol
  | InvalidFixup | InvalidAttribute | InvalidRunlist | Overflow | LimitExceeded

record ntfs_error =
  err_kind :: error_kind
  err_offset :: u64
  err_context :: string

definition NtfsError_new :: "error_kind \<Rightarrow> u64 \<Rightarrow> string \<Rightarrow> ntfs_error" where
  "NtfsError_new kind off ctx = \<lparr>err_kind = kind, err_offset = off, err_context = ctx\<rparr>"

definition NtfsError_source :: "u64 \<Rightarrow> string \<Rightarrow> ntfs_error" where
  "NtfsError_source off ctx = NtfsError_new SourceIo off ctx"

definition NtfsError_cancelled :: "string \<Rightarrow> ntfs_error" where
  "NtfsError_cancelled ctx = NtfsError_new Cancelled 0 ctx"

type_synonym 'a ntfs_result = "(ntfs_error, 'a) outcome"

lemma err_kind_new [simp]: "err_kind (NtfsError_new k off ctx) = k"
  by (simp add: NtfsError_new_def)

section \<open>Readers\<close>

text \<open>
  \<open>read_exact_at(offset, destination)\<close> takes the destination's length and returns
  its new contents.
\<close>

record byte_reader =
  rd_len :: u64
  rd_read_exact_at :: "u64 \<Rightarrow> nat \<Rightarrow> u8 list ntfs_result"

definition rd_is_empty :: "byte_reader \<Rightarrow> bool" where
  "rd_is_empty r \<longleftrightarrow> rd_len r = 0"

definition slice_read_exact_at :: "u8 list \<Rightarrow> u64 \<Rightarrow> nat \<Rightarrow> u8 list ntfs_result" where
  "slice_read_exact_at bytes off n =
     (let start = unat off in
      obind (ok_or (usize_checked_add start n) (NtfsError_new Overflow off ''reader range overflow''))
        (\<lambda>stop. ok_or (slice bytes start stop)
           (NtfsError_new Truncated off ''read extends beyond source'')))"

definition slice_reader :: "u8 list \<Rightarrow> byte_reader" where
  "slice_reader bytes =
     \<lparr>rd_len = of_nat (length bytes), rd_read_exact_at = slice_read_exact_at bytes\<rparr>"

section \<open>What a reader promises\<close>

locale byte_source =
  fixes r :: byte_reader
    and content :: "nat \<Rightarrow> u8"
    and size :: nat
  assumes read_content: "rd_read_exact_at r off n = Ok bs \<Longrightarrow> bs = map content [unat off..<unat off + n]"
    and read_in_range: "rd_read_exact_at r off n = Ok bs \<Longrightarrow> n \<noteq> 0 \<Longrightarrow> unat off + n \<le> size"
    and read_no_panic: "rd_read_exact_at r off n \<noteq> Panic"
    and len_size: "unat (rd_len r) \<le> size"
begin

lemma read_length: "rd_read_exact_at r off n = Ok bs \<Longrightarrow> length bs = n"
  by (auto dest: read_content)

lemma read_nth: "rd_read_exact_at r off n = Ok bs \<Longrightarrow> i < n \<Longrightarrow> bs ! i = content (unat off + i)"
  by (auto dest: read_content)

lemma read_bytes_agree:
  assumes "rd_read_exact_at r a m = Ok xs" and "rd_read_exact_at r b n = Ok ys"
    and "unat a + i = unat b + j" and "i < m" and "j < n"
  shows "xs ! i = ys ! j"
  using assms by (simp add: read_nth)

end

locale total_source = byte_source +
  assumes read_total: "unat off + n \<le> unat (rd_len r) \<Longrightarrow> \<exists>bs. rd_read_exact_at r off n = Ok bs"
begin

lemma read_inside:
  "unat off + n \<le> unat (rd_len r) \<Longrightarrow>
     rd_read_exact_at r off n = Ok (map content [unat off..<unat off + n])"
  using read_total read_content by blast

end

lemma slice_read_Ok:
  "slice_read_exact_at bytes off n = Ok bs \<longleftrightarrow>
     unat off + n < 2 ^ 64 \<and> unat off + n \<le> length bytes \<and> bs = take n (drop (unat off) bytes)"
  by (auto simp: slice_read_exact_at_def Let_def outcome_simps arith_word)

lemma take_drop_as_map:
  "a + n \<le> length xs \<Longrightarrow> take n (drop a xs) = map (\<lambda>i. xs ! i) [a..<a + n]"
  by (rule nth_equalityI) auto

lemma slice_read_no_panic: "slice_read_exact_at bytes off n \<noteq> Panic"
  by (simp add: slice_read_exact_at_def Let_def not_panic_bind)

interpretation slice_src: total_source "slice_reader bytes" "\<lambda>i. bytes ! i" "length bytes"
  for bytes
proof
  fix off :: u64 and n bs
  assume "rd_read_exact_at (slice_reader bytes) off n = Ok bs"
  then have "slice_read_exact_at bytes off n = Ok bs" by (simp add: slice_reader_def)
  then show "bs = map (\<lambda>i. bytes ! i) [unat off..<unat off + n]" and "unat off + n \<le> length bytes"
    by (auto simp: slice_read_Ok take_drop_as_map)
next
  fix off :: u64 and n
  show "rd_read_exact_at (slice_reader bytes) off n \<noteq> Panic"
    by (simp add: slice_reader_def slice_read_no_panic)
next
  have "unat (of_nat (length bytes) :: u64) \<le> length bytes"
    by (simp add: unat_of_nat take_bit_nat_less_eq_self)
  then show "unat (rd_len (slice_reader bytes)) \<le> length bytes" by (simp add: slice_reader_def)
next
  fix off :: u64 and n
  assume "unat off + n \<le> unat (rd_len (slice_reader bytes))"
  then have le: "unat off + n \<le> unat (of_nat (length bytes) :: u64)" by (simp add: slice_reader_def)
  moreover have "unat (of_nat (length bytes) :: u64) \<le> length bytes"
    by (simp add: unat_of_nat take_bit_nat_less_eq_self)
  moreover have "unat (of_nat (length bytes) :: u64) < 2 ^ 64"
    using unsigned_less [of "of_nat (length bytes) :: u64"] by simp
  ultimately have "slice_read_exact_at bytes off n = Ok (take n (drop (unat off) bytes))"
    unfolding slice_read_Ok by (intro conjI refl) linarith+
  then show "\<exists>bs. rd_read_exact_at (slice_reader bytes) off n = Ok bs"
    by (auto simp: slice_reader_def)
qed

end
