(* ===== verification/NtfsBoot.thy ===== *)
theory NtfsBoot
  imports NtfsBytes
begin

text \<open>
  \<open>ferail-ntfs/src/boot.rs\<close>: the volume geometry read from the boot sector.
  Every size, cluster number and byte offset the later stages multiply is
  validated here; \<open>geometry_ok\<close> collects what a successful parse guarantees.
\<close>

unbundle bit_operations_syntax

record ntfs_geometry =
  bytes_per_sector :: u32
  sectors_per_cluster :: u32
  bytes_per_cluster :: u32
  bytes_per_file_record :: u32
  total_sectors :: u64
  mft_start_lcn :: u64
  mft_mirror_lcn :: u64
  volume_serial :: u64

definition BOOT_SECTOR_PREFIX :: nat where
  "BOOT_SECTOR_PREFIX = 512"

text \<open>The byte string \<open>"NTFS    "\<close>.\<close>

definition NTFS_OEM_ID :: "u8 list" where
  "NTFS_OEM_ID = [0x4E, 0x54, 0x46, 0x53, 0x20, 0x20, 0x20, 0x20]"

definition boot_u16_at :: "u8 list \<Rightarrow> nat \<Rightarrow> u16 ntfs_result" where
  "boot_u16_at bytes off =
     obind (idx bytes off) (\<lambda>a. obind (idx bytes (off + 1)) (\<lambda>b. Ok (le_word [a, b])))"

definition boot_u64_at :: "u8 list \<Rightarrow> nat \<Rightarrow> u64 ntfs_result" where
  "boot_u64_at bytes off = obind (sub_slice bytes off (off + 8)) (\<lambda>field. Ok (le_word field))"

text \<open>\<open>1u32.checked_shl(n)\<close>.\<close>

definition checked_shl_1 :: "nat \<Rightarrow> u32 option" where
  "checked_shl_1 n = (if n < 32 then Some (push_bit n 1) else None)"

text \<open>The file-record size code: a signed byte, clusters when positive, a power of two when negative.\<close>

definition record_size :: "u8 \<Rightarrow> u32 \<Rightarrow> u32 \<Rightarrow> u32 option" where
  "record_size raw cluster sector =
     (let record_code = sint raw;
          size = (if 1 \<le> record_code \<and> record_code \<le> 127
                    then checked_mul cluster (of_int record_code)
                  else if -31 \<le> record_code \<and> record_code \<le> -1
                    then checked_shl_1 (nat (- record_code))
                  else None)
      in case size of None \<Rightarrow> None
         | Some value \<Rightarrow> if sector \<le> value \<and> is_power_of_two (unat value) then Some value else None)"

definition parse_boot_sector :: "byte_reader \<Rightarrow> ntfs_geometry ntfs_result" where
  "parse_boot_sector reader =
     obind (rd_read_exact_at reader 0 BOOT_SECTOR_PREFIX) (\<lambda>bytes.
     obind (sub_slice bytes 3 11) (\<lambda>oem.
     obind (sub_slice bytes 510 512) (\<lambda>signature.
     if oem \<noteq> NTFS_OEM_ID \<or> signature \<noteq> [0x55, 0xAA] then
       Err (NtfsError_new InvalidSignature 3 ''NTFS OEM id or boot signature'')
     else
     obind (boot_u16_at bytes 11) (\<lambda>sector_raw.
     obind (idx bytes 13) (\<lambda>spc_raw.
     let sector = ucast sector_raw :: u32; spc = ucast spc_raw :: u32 in
     if \<not> (512 \<le> sector \<and> sector \<le> 4096) \<or> \<not> is_power_of_two (unat sector) then
       Err (NtfsError_new InvalidGeometry 11 ''bytes per sector'')
     else if spc = 0 \<or> \<not> is_power_of_two (unat spc) then
       Err (NtfsError_new InvalidGeometry 13 ''sectors per cluster'')
     else
     obind (ok_or (case checked_mul sector spc of
                     Some value \<Rightarrow> if value \<le> 2 * 1024 * 1024 then Some value else None
                   | None \<Rightarrow> None)
              (NtfsError_new InvalidGeometry 13 ''cluster byte size overflow or unsupported size''))
       (\<lambda>cluster.
     obind (boot_u64_at bytes 40) (\<lambda>total.
     obind (boot_u64_at bytes 48) (\<lambda>mft.
     obind (boot_u64_at bytes 56) (\<lambda>mirror.
     if total = 0 then
       Err (NtfsError_new InvalidGeometry 40 ''zero total sectors'')
     else
     let total_clusters = total div ucast spc in
     if total_clusters = 0 \<or> total_clusters \<le> mft \<or> total_clusters \<le> mirror then
       Err (NtfsError_new InvalidGeometry 48 ''MFT LCN outside volume'')
     else
     obind (idx bytes 64) (\<lambda>code.
     obind (ok_or (record_size code cluster sector)
              (NtfsError_new InvalidGeometry 64 ''file record size code'')) (\<lambda>record_bytes.
     obind (ok_or (checked_mul total (ucast sector))
              (NtfsError_new Overflow 40 ''volume byte length overflow'')) (\<lambda>volume_bytes.
     obind (ok_or (checked_mul mft (ucast cluster))
              (NtfsError_new Overflow 48 ''MFT offset overflow'')) (\<lambda>mft_offset.
     if volume_bytes \<le> mft_offset then
       Err (NtfsError_new InvalidGeometry 48 ''MFT byte offset outside volume'')
     else
     obind (boot_u64_at bytes 72) (\<lambda>serial.
     Ok \<lparr>bytes_per_sector = sector, sectors_per_cluster = spc, bytes_per_cluster = cluster,
         bytes_per_file_record = record_bytes, total_sectors = total, mft_start_lcn = mft,
         mft_mirror_lcn = mirror, volume_serial = serial\<rparr>))))))))))))))"

text \<open>What every later stage may assume of a geometry.\<close>

definition geometry_ok :: "ntfs_geometry \<Rightarrow> bool" where
  "geometry_ok g \<longleftrightarrow>
     unat (bytes_per_sector g) \<in> {512, 1024, 2048, 4096} \<and>
     is_power_of_two (unat (sectors_per_cluster g)) \<and>
     unat (bytes_per_cluster g) = unat (bytes_per_sector g) * unat (sectors_per_cluster g) \<and>
     unat (bytes_per_cluster g) \<le> 2 * 1024 * 1024 \<and>
     is_power_of_two (unat (bytes_per_file_record g)) \<and>
     unat (bytes_per_sector g) \<le> unat (bytes_per_file_record g) \<and>
     unat (total_sectors g) * unat (bytes_per_sector g) < 2 ^ 64 \<and>
     unat (mft_start_lcn g) * unat (bytes_per_cluster g)
       < unat (total_sectors g) * unat (bytes_per_sector g) \<and>
     unat (mft_mirror_lcn g) < unat (total_sectors g) div unat (sectors_per_cluster g)"

section \<open>Facts about the pieces\<close>

lemma sector_power_of_two:
  assumes "512 \<le> n" "n \<le> 4096" "is_power_of_two n"
  shows "n \<in> {512, 1024, 2048, 4096}"
proof -
  from assms(3) obtain k where k: "n = 2 ^ k" by (auto simp: is_power_of_two_iff)
  have "k < 13"
  proof (rule ccontr)
    assume "\<not> k < 13"
    then have "(2::nat) ^ 13 \<le> 2 ^ k" by (intro power_increasing) auto
    with k assms(2) show False by simp
  qed
  moreover have "8 < k"
  proof (rule ccontr)
    assume "\<not> 8 < k"
    then have "(2::nat) ^ k \<le> 2 ^ 8" by (intro power_increasing) auto
    with k assms(1) show False by simp
  qed
  ultimately have "k \<in> {9, 10, 11, 12}" by auto
  with k show ?thesis by auto
qed

lemma record_size_Some:
  "record_size raw cluster sector = Some v \<Longrightarrow> sector \<le> v \<and> is_power_of_two (unat v)"
  by (auto simp: record_size_def Let_def split: option.splits if_splits)

lemma boot_u16_at_no_panic: "off + 1 < length bytes \<Longrightarrow> boot_u16_at bytes off \<noteq> Panic"
  by (simp add: boot_u16_at_def idx_in)

lemma boot_u64_at_no_panic: "off + 8 \<le> length bytes \<Longrightarrow> boot_u64_at bytes off \<noteq> Panic"
  by (simp add: boot_u64_at_def sub_slice_in)

lemma total_clusters_bound:
  fixes total mft mirror :: u64 and spc sector cluster :: u32
  assumes "\<not> (total div ucast spc \<le> mft)" and "unat cluster = unat sector * unat spc"
    and "sector \<noteq> 0" and "unat total * unat sector < 2 ^ 64"
  shows "unat mft * unat cluster < unat total * unat sector"
proof -
  have spc: "unat (ucast spc :: u64) = unat spc" by (rule unat_ucast_up) simp
  from assms(1) have "unat mft < unat total div unat spc"
    by (simp add: word_less_nat_alt not_le unat_div spc)
  then have "Suc (unat mft) * unat spc \<le> unat total div unat spc * unat spc"
    by (intro mult_le_mono1) simp
  also have "\<dots> \<le> unat total" by simp
  finally have "Suc (unat mft) * unat spc \<le> unat total" .
  moreover have "0 < unat spc" using \<open>unat mft < unat total div unat spc\<close> by (cases "unat spc") auto
  ultimately have "unat mft * unat spc < unat total" by simp
  moreover have "0 < unat sector" using assms(3) by (simp add: unat_gt_0)
  ultimately have "unat mft * unat spc * unat sector < unat total * unat sector"
    by (rule mult_less_mono1)
  moreover have "unat mft * unat cluster = unat mft * unat spc * unat sector"
    by (simp only: assms(2) mult.assoc mult.commute [of "unat sector"])
  ultimately show ?thesis by (simp only:)
qed

text \<open>The parser against any lawful reader: it never indexes outside the prefix it read.\<close>

context byte_source
begin

lemma parse_boot_sector_no_panic: "parse_boot_sector r \<noteq> Panic"
  unfolding parse_boot_sector_def Let_def
  by (intro panic_intros read_no_panic boot_u16_at_no_panic boot_u64_at_no_panic)
    (simp_all add: BOOT_SECTOR_PREFIX_def read_length)

end

section \<open>Correctness\<close>

text \<open>C6. Every geometry the boot-sector parser accepts is consistent: the sector size is one of
  the four legal powers of two, the cluster and file-record sizes are powers of two in bounds, no
  product of the fields overflows 64 bits, and both copies of the MFT start inside the volume.\<close>

theorem parse_boot_sector_geometry_ok:
  "parse_boot_sector reader = Ok g \<Longrightarrow> geometry_ok g"
proof -
  assume ok: "parse_boot_sector reader = Ok g"
  then obtain sector spc cluster total mft mirror code record_bytes volume_bytes mft_offset serial where
      g: "g = \<lparr>bytes_per_sector = sector, sectors_per_cluster = spc, bytes_per_cluster = cluster,
         bytes_per_file_record = record_bytes, total_sectors = total, mft_start_lcn = mft,
         mft_mirror_lcn = mirror, volume_serial = serial\<rparr>"
    and sector: "512 \<le> sector" "sector \<le> 4096" "is_power_of_two (unat sector)"
    and spc: "spc \<noteq> 0" "is_power_of_two (unat spc)"
    and cluster: "checked_mul sector spc = Some cluster" "cluster \<le> 2 * 1024 * 1024"
    and lcn: "\<not> total div ucast spc \<le> mft" "\<not> total div ucast spc \<le> mirror"
    and rec: "record_size code cluster sector = Some record_bytes"
    and vol: "checked_mul total (ucast sector) = Some volume_bytes"
    unfolding parse_boot_sector_def Let_def
    by (elim run_elims) (auto split: option.splits if_splits)
  have sec: "unat sector \<in> {512, 1024, 2048, 4096}"
    using sector by (intro sector_power_of_two) (simp_all add: word_le_nat_alt)
  have clu: "unat cluster = unat sector * unat spc" and clu_le: "unat cluster \<le> 2 * 1024 * 1024"
    using cluster by (simp_all add: arith_word word_le_nat_alt)
  have up: "unat (ucast sector :: u64) = unat sector" "unat (ucast spc :: u64) = unat spc"
    by (simp_all add: unat_ucast_up)
  have tot: "unat total * unat sector < 2 ^ 64" using vol by (simp add: arith_word up)
  have mft: "unat mft * unat cluster < unat total * unat sector"
    using lcn(1) clu sec tot by (intro total_clusters_bound) auto
  have mir: "unat mirror < unat total div unat spc"
    using lcn(2) by (simp add: word_less_nat_alt not_le unat_div up)
  show "geometry_ok g"
    using sec spc(2) clu clu_le record_size_Some [OF rec] tot mft mir
    by (simp add: g geometry_ok_def word_le_nat_alt)
qed
text \<open>The boot sector of a 2,000,000-sector volume with 4 KiB clusters and 1 KiB file records.\<close>

definition sample_boot_sector :: "u8 list" where
  "sample_boot_sector = replicate 3 0 @ NTFS_OEM_ID @ le_bytes 2 (512 :: u16) @ [8] @ replicate 26 0
     @ le_bytes 8 (2000000 :: u64) @ le_bytes 8 (4 :: u64) @ le_bytes 8 (8 :: u64) @ [0xF6]
     @ replicate 7 0 @ le_bytes 8 (0x1122334455667788 :: u64) @ replicate 430 0 @ [0x55, 0xAA]"

lemma sample_boot_sector_fields:
  "length sample_boot_sector = 512"
  "sub_slice sample_boot_sector 3 11 = Ok NTFS_OEM_ID"
  "sub_slice sample_boot_sector 510 512 = Ok [0x55, 0xAA]"
  "boot_u16_at sample_boot_sector 11 = Ok 512"
  "idx sample_boot_sector 13 = Ok 8" "idx sample_boot_sector 64 = Ok 0xF6"
  "boot_u64_at sample_boot_sector 40 = Ok 2000000" "boot_u64_at sample_boot_sector 48 = Ok 4"
  "boot_u64_at sample_boot_sector 56 = Ok 8" "boot_u64_at sample_boot_sector 72 = Ok 0x1122334455667788"
  by (simp_all add: sample_boot_sector_def NTFS_OEM_ID_def boot_u16_at_def boot_u64_at_def eval_simps
      nth_append cong: obind_weak_cong)

lemma sample_boot_sector_read:
  "rd_read_exact_at (slice_reader sample_boot_sector) 0 BOOT_SECTOR_PREFIX = Ok sample_boot_sector"
  by (simp add: slice_reader_def slice_read_Ok BOOT_SECTOR_PREFIX_def sample_boot_sector_fields(1))

theorem parse_boot_sector_geometry_ok_witness:
  "geometry_ok \<lparr>bytes_per_sector = 512, sectors_per_cluster = 8, bytes_per_cluster = 4096,
     bytes_per_file_record = 1024, total_sectors = 2000000, mft_start_lcn = 4, mft_mirror_lcn = 8,
     volume_serial = 0x1122334455667788\<rparr>"
  by (rule parse_boot_sector_geometry_ok [of "slice_reader sample_boot_sector"])
    (simp add: parse_boot_sector_def sample_boot_sector_read sample_boot_sector_fields
      record_size_def checked_shl_1_def checked_mul_def is_power_of_two.simps cong: obind_weak_cong)

text \<open>Parsing a boot sector out of any byte string, of any length, never panics.\<close>

theorem parse_boot_sector_slice_no_panic: "parse_boot_sector (slice_reader bytes) \<noteq> Panic"
  by (rule slice_src.parse_boot_sector_no_panic)

end
