(* ===== verification/NtfsRunlist.thy ===== *)
theory NtfsRunlist
  imports NtfsBytes
begin

text \<open>
  \<open>ferail-ntfs/src/runlist.rs\<close>: the mapping pairs of a non-resident attribute.
  The decoder is a loop over variable-width little-endian fields; the lemmas give
  its field arithmetic a meaning (\<open>decode_valueeq\<close>, \<open>decode_signed_eq\<close>),
  the shape every accepted run list has (\<open>runs_chain\<close>), and the inverse:
  every well-formed list of runs, at every field width that can hold it, is decoded
  to exactly itself.
\<close>

unbundle bit_operations_syntax

record data_run =
  run_vcn :: u64
  run_cluster_count :: u64
  run_lcn :: "u64 option"

definition decode_unsigned :: "u8 list \<Rightarrow> u64" where
  "decode_unsigned bytes =
     fold (\<lambda>(shift, byte) value. value OR push_bit (shift * 8) (ucast byte)) (enumerate 0 bytes) 0"

definition decode_signed :: "u8 list \<Rightarrow> int" where
  "decode_signed bytes =
     (let value = decode_unsigned bytes; bits = length bytes * 8 in
      if bits = 64 \<or> value AND push_bit (bits - 1) 1 = 0 then sint value
      else sint (value OR push_bit bits (NOT 0)))"

text \<open>The LCN of one pair: sparse without an offset field, otherwise the previous LCN plus the delta.\<close>

definition pair_lcn :: "u8 list \<Rightarrow> nat \<Rightarrow> nat \<Rightarrow> nat \<Rightarrow> int \<Rightarrow> (int \<times> u64 option) ntfs_result" where
  "pair_lcn pair length_bytes offset_bytes cursor previous_lcn =
     (if offset_bytes = 0 then Ok (previous_lcn, None)
      else
      obind (sub_slice pair length_bytes (length pair)) (\<lambda>delta_field.
      obind (ok_or (i64_checked_add previous_lcn (decode_signed delta_field))
               (NtfsError_new Overflow (of_nat cursor) ''LCN delta overflow'')) (\<lambda>absolute.
      obind (ok_or (u64_of_i64 absolute)
               (NtfsError_new InvalidRunlist (of_nat cursor) ''negative absolute LCN'')) (\<lambda>lcn.
      Ok (absolute, Some lcn)))))"

text \<open>
  The body of the loop.  \<open>None\<close> is the terminator; otherwise the decoded run, the
  next cursor, the next VCN and the LCN the next delta is relative to.
\<close>

definition mapping_pair ::
    "u8 list \<Rightarrow> nat \<Rightarrow> u64 \<Rightarrow> int \<Rightarrow> (data_run \<times> nat \<times> u64 \<times> int) option ntfs_result" where
  "mapping_pair bytes cursor0 vcn previous_lcn =
     obind (ok_or (get_at bytes cursor0)
              (NtfsError_new Truncated (of_nat cursor0) ''runlist terminator'')) (\<lambda>header.
     let cursor = cursor0 + 1 in
     if header = 0 then Ok None
     else
     let length_bytes = unat (header AND 0x0F); offset_bytes = unat (drop_bit 4 header) in
     if length_bytes = 0 \<or> 8 < length_bytes \<or> 8 < offset_bytes then
       Err (NtfsError_new InvalidRunlist (of_nat (cursor - 1)) ''mapping-pair field width'')
     else
     obind (ok_or (case usize_checked_add cursor length_bytes of
                     Some value \<Rightarrow> usize_checked_add value offset_bytes | None \<Rightarrow> None)
              (NtfsError_new Overflow (of_nat cursor) ''mapping-pair cursor overflow'')) (\<lambda>stop.
     obind (ok_or (slice bytes cursor stop)
              (NtfsError_new Truncated (of_nat cursor) ''mapping-pair payload'')) (\<lambda>pair.
     obind (sub_slice pair 0 length_bytes) (\<lambda>count_field.
     let cluster_count = decode_unsigned count_field in
     if cluster_count = 0 then
       Err (NtfsError_new InvalidRunlist (of_nat cursor) ''zero-length run'')
     else
     obind (pair_lcn pair length_bytes offset_bytes cursor previous_lcn) (\<lambda>(previous, lcn).
     obind (ok_or (checked_add vcn cluster_count)
              (NtfsError_new Overflow (of_nat cursor) ''VCN overflow'')) (\<lambda>next_vcn.
     Ok (Some (\<lparr>run_vcn = vcn, run_cluster_count = cluster_count, run_lcn = lcn\<rparr>,
               stop, next_vcn, previous))))))))"

lemma mapping_pair_progress:
  "mapping_pair bytes cursor vcn prev = Ok (Some (run, stop, nxt, prev'))
     \<Longrightarrow> cursor < stop \<and> stop \<le> length bytes"
  unfolding mapping_pair_def Let_def
  by (elim run_elims) (auto simp: outcome_simps arith_word split: if_splits option.splits prod.splits elim!: run_elims)

text \<open>The loop; \<open>runs\<close> is the vector built so far.\<close>

function mapping_pairs_loop ::
    "u8 list \<Rightarrow> nat \<Rightarrow> u64 \<Rightarrow> int \<Rightarrow> data_run list \<Rightarrow> data_run list ntfs_result" where
  "mapping_pairs_loop bytes cursor vcn previous_lcn runs =
     obind (mapping_pair bytes cursor vcn previous_lcn) (\<lambda>step.
     case step of
       None \<Rightarrow> Ok runs
     | Some (run, stop, next_vcn, previous) \<Rightarrow>
         mapping_pairs_loop bytes stop next_vcn previous (runs @ [run]))"
  by pat_completeness auto
termination
  by (relation "measure (\<lambda>(bytes, cursor, _). length bytes - cursor)")
    (auto dest!: mapping_pair_progress)

declare mapping_pairs_loop.simps [simp del]

definition parse_mapping_pairs :: "u8 list \<Rightarrow> u64 \<Rightarrow> data_run list ntfs_result" where
  "parse_mapping_pairs bytes start_vcn = mapping_pairs_loop bytes 0 start_vcn 0 []"

section \<open>What the field arithmetic means\<close>

lemma decode_unsigned_fold:
  "fold (\<lambda>(shift, byte) value. value OR push_bit (shift * 8) (ucast byte)) (enumerate k bytes) acc
     = (acc OR push_bit (k * 8) (le_word bytes) :: u64)"
proof (induction bytes arbitrary: k acc)
  case Nil
  then show ?case by simp
next
  case (Cons b bytes)
  show ?case
    by (simp only: enumerate_simps fold_simps split_conv Cons.IH le_word.simps push_bit_or
        push_bit_push_bit or.assoc mult_Suc add.commute [of 8 "k * 8"])
qed

lemma decode_unsigned_eq: "decode_unsigned bytes = le_word bytes"
  by (simp only: decode_unsigned_def decode_unsigned_fold) simp

lemma decode_signed_eq:
  assumes "bytes \<noteq> []" and "length bytes \<le> 8"
  shows "decode_signed bytes = signed_take_bit (8 * length bytes - 1) (uint (le_word bytes :: u64))"
proof (rule bit_eqI)
  let ?w = "le_word bytes :: u64"
  let ?b = "8 * length bytes"
  have b: "8 \<le> ?b" "?b \<le> 64" using assms by (cases bytes; simp)+
  have high: "\<not> bit ?w n" if "?b \<le> n" for n using that by (auto simp: bit_le_word)
  have top: "?w AND push_bit (?b - 1) 1 = 0 \<longleftrightarrow> \<not> bit ?w (?b - 1)"
    by (simp only: push_bit_of_1 and_exp_eq_0_iff_not_bit)
  fix n
  show "bit (decode_signed bytes) n = bit (signed_take_bit (?b - 1) (uint ?w)) n"
  proof (cases "length bytes = 8")
    case True
    then have "bit (decode_signed bytes) n \<longleftrightarrow> 64 \<le> n \<and> bit ?w 63 \<or> bit ?w n"
      by (simp add: decode_signed_def Let_def decode_unsigned_eq bit_sint_iff)
    moreover have "64 \<le> n \<longrightarrow> \<not> bit ?w n" using high [of n] True by simp
    moreover have "bit (signed_take_bit 63 (uint ?w)) n \<longleftrightarrow> bit ?w (min 63 n)"
      by (simp add: bit_signed_take_bit_iff bit_uint_iff min_less_iff_disj)
    ultimately show ?thesis using True by (cases "n < 63"; cases "n = 63") (simp_all add: min_def)
  next
    case False
    with b have b64: "?b < 64" by linarith
    have eq: "decode_signed bytes =
        (if bit ?w (?b - 1) then sint (?w OR push_bit ?b (NOT 0)) else sint ?w)"
      using top b64 by (simp add: decode_signed_def Let_def decode_unsigned_eq mult.commute)
    have fill: "bit (NOT (mask ?b) :: u64) i \<longleftrightarrow> ?b \<le> i \<and> i < 64" for i
      by (auto simp: bit_simps)
    have "bit (decode_signed bytes) n \<longleftrightarrow> (if bit ?w (?b - 1) then bit ?w n \<or> ?b \<le> n else bit ?w n)"
      using high [of 63] b64 by (auto simp: eq bit_sint_iff bit_or_iff fill)
    moreover have "bit (signed_take_bit (?b - 1) (uint ?w)) n \<longleftrightarrow> bit ?w (min (?b - 1) n)"
      using b64 by (auto simp: bit_signed_take_bit_iff bit_uint_iff min_less_iff_disj)
    moreover have "?b \<le> n \<longrightarrow> \<not> bit ?w n" using high [of n] by blast
    ultimately show ?thesis using b
      by (cases "n < ?b - 1"; cases "n = ?b - 1") (auto simp: min_def)
  qed
qed

lemma decode_unsigned_le_bytes:
  assumes "unat w < 2 ^ (8 * n)"
  shows "decode_unsigned (le_bytes n w) = (w :: u64)"
proof -
  have "unat (take_bit (8 * n) w) = unat w"
    using assms by (simp add: unsigned_take_bit_eq take_bit_nat_eq_self)
  then show ?thesis by (simp add: decode_unsigned_eq le_word_le_bytes_take word_eq_unat_iff)
qed

lemma decode_signed_le_bytes:
  assumes "0 < n" "n \<le> 8" and "- (2 ^ (8 * n - 1)) \<le> v" "v < 2 ^ (8 * n - 1)"
  shows "decode_signed (le_bytes n (of_int v :: u64)) = v"
proof -
  have "le_bytes n (of_int v :: u64) \<noteq> []" using assms(1) by (auto simp: le_bytes_def)
  then have "decode_signed (le_bytes n (of_int v :: u64))
      = signed_take_bit (8 * n - 1) (uint (take_bit (8 * n) (of_int v :: u64)))"
    using assms(2) by (simp add: decode_signed_eq le_word_le_bytes_take)
  also have "uint (take_bit (8 * n) (of_int v :: u64)) = take_bit (8 * n) v"
    using assms(2) by (simp add: unsigned_take_bit_eq unsigned_of_int min_def)
  also have "signed_take_bit (8 * n - 1) (take_bit (8 * n) v) = signed_take_bit (8 * n - 1) v"
    using assms(1) by (auto simp: signed_take_bit_take_bit)
  also have "\<dots> = v" using assms(3,4) by (simp add: signed_take_bit_int_eq_self)
  finally show ?thesis .
qed

section \<open>The shape of an accepted run list\<close>

fun runs_chain :: "u64 \<Rightarrow> data_run list \<Rightarrow> bool" where
  "runs_chain vcn [] = True"
| "runs_chain vcn (run # runs) =
     (run_vcn run = vcn \<and> run_cluster_count run \<noteq> 0 \<and>
      unat vcn + unat (run_cluster_count run) < 2 ^ 64 \<and>
      (\<forall>lcn. run_lcn run = Some lcn \<longrightarrow> unat lcn < 2 ^ 63) \<and>
      runs_chain (vcn + run_cluster_count run) runs)"

fun chain_end :: "u64 \<Rightarrow> data_run list \<Rightarrow> u64" where
  "chain_end vcn [] = vcn"
| "chain_end vcn (run # runs) = chain_end (vcn + run_cluster_count run) runs"

lemma runs_chain_append:
  "runs_chain vcn (xs @ ys) \<longleftrightarrow> runs_chain vcn xs \<and> runs_chain (chain_end vcn xs) ys"
  by (induction xs arbitrary: vcn) auto

lemma chain_end_append: "chain_end vcn (xs @ ys) = chain_end (chain_end vcn xs) ys"
  by (induction xs arbitrary: vcn) auto

lemma u64_of_i64_small: "i64_range i \<Longrightarrow> u64_of_i64 i = Some w \<Longrightarrow> unat w < 2 ^ 63"
proof -
  assume r: "i64_range i" and "u64_of_i64 i = Some w"
  then have w: "w = of_int i" and i: "0 \<le> i" "i < 2 ^ 63" by (auto simp: arith_word i64_range_def)
  then have "uint w = i" by (simp add: unsigned_of_int take_bit_int_eq_self)
  with i show ?thesis by (simp add: unat_eq_nat_uint nat_less_iff)
qed

lemma pair_lcn_small:
  "pair_lcn pair lb ob cursor prev = Ok (prev', Some lcn) \<Longrightarrow> unat lcn < 2 ^ 63"
  unfolding pair_lcn_def
  by (auto simp: outcome_simps i64_checked_add_def split: if_splits
      intro: u64_of_i64_small [simplified])

lemma mapping_pair_run:
  assumes "mapping_pair bytes cursor vcn prev = Ok (Some (run, stop, nxt, prev'))"
  shows "runs_chain vcn [run] \<and> nxt = vcn + run_cluster_count run"
  using assms unfolding mapping_pair_def Let_def
  by (elim run_elims)
    (auto split: if_splits prod.splits elim!: run_elims dest!: pair_lcn_small
      simp: arith_word unat_add_no_overflow word_eq_unat_iff)

lemma mapping_pairs_loop_chain:
  assumes "mapping_pairs_loop bytes cursor vcn prev runs = Ok out"
    and "runs_chain start runs" and "chain_end start runs = vcn"
  shows "runs_chain start out"
  using assms
proof (induction bytes cursor vcn prev runs rule: mapping_pairs_loop.induct)
  case (1 bytes cursor vcn prev runs)
  from "1.prems"(1) obtain step where step: "mapping_pair bytes cursor vcn prev = Ok step"
    and rest: "(case step of None \<Rightarrow> Ok runs
       | Some (run, stop, nxt, prev') \<Rightarrow> mapping_pairs_loop bytes stop nxt prev' (runs @ [run])) = Ok out"
    by (subst (asm) mapping_pairs_loop.simps) (auto simp: outcome_simps)
  show ?case
  proof (cases step)
    case None
    with rest "1.prems" show ?thesis by simp
  next
    case (Some s)
    then obtain run stop nxt prev' where s: "step = Some (run, stop, nxt, prev')" by (cases s) auto
    with step have run: "runs_chain vcn [run]" "nxt = vcn + run_cluster_count run"
      using mapping_pair_run by blast+
    have "runs_chain start (runs @ [run])" "chain_end start (runs @ [run]) = nxt"
      using run "1.prems"(2,3) by (simp_all add: runs_chain_append chain_end_append)
    with rest s step show ?thesis using "1.IH" by simp
  qed
qed

section \<open>Panic freedom\<close>

lemma pair_lcn_no_panic: "lb \<le> length pair \<Longrightarrow> pair_lcn pair lb ob cursor prev \<noteq> Panic"
  unfolding pair_lcn_def by (intro panic_intros) auto

lemma mapping_pair_no_panic: "mapping_pair bytes cursor vcn prev \<noteq> Panic"
  unfolding mapping_pair_def Let_def
  by (intro panic_intros pair_lcn_no_panic)
    (auto simp: outcome_simps arith_word split: prod.splits option.splits intro!: panic_intros pair_lcn_no_panic)

lemma mapping_pairs_loop_no_panic: "mapping_pairs_loop bytes cursor vcn prev runs \<noteq> Panic"
proof (induction bytes cursor vcn prev runs rule: mapping_pairs_loop.induct)
  case (1 bytes cursor vcn prev runs)
  then show ?case
    by (subst mapping_pairs_loop.simps)
      (simp add: obind_Panic_iff mapping_pair_no_panic split: option.splits prod.splits)
qed

section \<open>Every legal run list is decoded\<close>

text \<open>
  The on-disk format, as a relation between runs and bytes: each run is written with a count
  field of \<open>lw\<close> bytes and an offset field of \<open>ow\<close> bytes, any widths that hold the values.
\<close>

type_synonym wide_run = "nat \<times> nat \<times> data_run"

definition next_lcn :: "int \<Rightarrow> data_run \<Rightarrow> int" where
  "next_lcn prev run = (case run_lcn run of None \<Rightarrow> prev | Some l \<Rightarrow> int (unat l))"

fun pair_bytes :: "int \<Rightarrow> wide_run \<Rightarrow> u8 list" where
  "pair_bytes prev (lw, ow, run) =
     of_nat (lw + 16 * ow) # le_bytes lw (run_cluster_count run) @
       (if ow = 0 then [] else le_bytes ow (of_int (next_lcn prev run - prev) :: u64))"

fun pair_fits :: "int \<Rightarrow> wide_run \<Rightarrow> bool" where
  "pair_fits prev (lw, ow, run) \<longleftrightarrow>
     0 < lw \<and> lw \<le> 8 \<and> ow \<le> 8 \<and> run_cluster_count run \<noteq> 0 \<and>
     unat (run_cluster_count run) < 2 ^ (8 * lw) \<and>
     (case run_lcn run of None \<Rightarrow> ow = 0
      | Some l \<Rightarrow> 0 < ow \<and> unat l < 2 ^ 63 \<and>
          - (2 ^ (8 * ow - 1)) \<le> int (unat l) - prev \<and> int (unat l) - prev < 2 ^ (8 * ow - 1))"

fun encode_pairs :: "int \<Rightarrow> wide_run list \<Rightarrow> u8 list" where
  "encode_pairs prev [] = [0]"
| "encode_pairs prev (w # ws) = pair_bytes prev w @ encode_pairs (next_lcn prev (snd (snd w))) ws"

fun encodable :: "u64 \<Rightarrow> int \<Rightarrow> wide_run list \<Rightarrow> bool" where
  "encodable vcn prev [] = True"
| "encodable vcn prev (w # ws) =
     (let run = snd (snd w) in
      run_vcn run = vcn \<and> pair_fits prev w \<and>
      unat vcn + unat (run_cluster_count run) < 2 ^ 64 \<and>
      encodable (vcn + run_cluster_count run) (next_lcn prev run) ws)"

lemma nibbles: "unat (w AND 15) = unat w mod 16" "unat (drop_bit 4 w) = unat w div 16" for w :: u8
proof -
  have "w AND 15 = take_bit 4 w" by (simp add: take_bit_eq_mask mask_eq_exp_minus_1)
  also have "\<dots> = w mod 16" by (simp add: take_bit_eq_mod)
  finally show "unat (w AND 15) = unat w mod 16" by (simp only: unat_mod) simp
  show "unat (drop_bit 4 w) = unat w div 16" by (simp add: drop_bit_eq_div unat_div)
qed

lemma header_fields:
  assumes "lw < 16" "ow < 16"
  shows "unat (of_nat (lw + 16 * ow) AND 15 :: u8) = lw"
    and "unat (drop_bit 4 (of_nat (lw + 16 * ow)) :: u8) = ow"
proof -
  have u: "unat (of_nat (lw + 16 * ow) :: u8) = lw + 16 * ow"
    using assms by (simp only: unat_of_nat) (simp add: take_bit_nat_eq_self)
  show "unat (of_nat (lw + 16 * ow) AND 15 :: u8) = lw"
    using assms by (simp add: nibbles u del: of_nat_add)
  show "unat (drop_bit 4 (of_nat (lw + 16 * ow)) :: u8) = ow"
    using assms by (simp add: nibbles u del: of_nat_add)
qed

lemma i64_range_unat: "unat l < 2 ^ 63 \<Longrightarrow> i64_range (int (unat l))" for l :: u64
proof -
  assume "unat l < 2 ^ 63"
  then have "int (unat l) < int (2 ^ 63)" by (subst of_nat_less_iff)
  then have "int (unat l) < 2 ^ 63" by (simp only: of_nat_power of_nat_numeral)
  moreover have "0 \<le> int (unat l)" by simp
  ultimately show ?thesis unfolding i64_range_def by linarith
qed

lemma pair_lcn_encoded:
  assumes "pair_fits prev (lw, ow, run)" and "length xs = lw" and "i64_range prev"
  shows "pair_lcn (xs @ (if ow = 0 then [] else le_bytes ow (of_int (next_lcn prev run - prev) :: u64)))
           lw ow cursor prev = Ok (next_lcn prev run, run_lcn run)"
proof (cases "run_lcn run")
  case None
  with assms(1) show ?thesis by (simp add: pair_lcn_def next_lcn_def)
next
  case (Some l)
  with assms(1) have ow: "0 < ow" "ow \<le> 8" and l: "unat l < 2 ^ 63"
    and d: "- (2 ^ (8 * ow - 1)) \<le> int (unat l) - prev" "int (unat l) - prev < 2 ^ (8 * ow - 1)"
    by simp_all
  have "decode_signed (le_bytes ow (of_int (int (unat l) - prev) :: u64)) = int (unat l) - prev"
    using ow d by (intro decode_signed_le_bytes)
  moreover have "i64_range (int (unat l))" using l by (rule i64_range_unat)
  ultimately show ?thesis
    using Some ow assms(2)
    by (simp add: pair_lcn_def next_lcn_def sub_slice_in i64_checked_add_def u64_of_i64_def)
qed

lemma mapping_pair_encoded:
  assumes fits: "pair_fits prev (lw, ow, run)" and v: "run_vcn run = vcn"
    and sum: "unat vcn + unat (run_cluster_count run) < 2 ^ 64" and prev: "i64_range prev"
    and len: "length pre + 1 + lw + ow < 2 ^ 64"
  shows "mapping_pair (pre @ pair_bytes prev (lw, ow, run) @ rest) (length pre) vcn prev
    = Ok (Some (run, length pre + 1 + lw + ow, vcn + run_cluster_count run, next_lcn prev run))"
proof -
  define tail where "tail = (if ow = 0 then [] else le_bytes ow (of_int (next_lcn prev run - prev) :: u64))"
  define count where "count = le_bytes lw (run_cluster_count run)"
  define h where "h = (of_nat (lw + 16 * ow) :: u8)"
  let ?bytes = "pre @ (h # count @ tail) @ rest"
  have lens: "length count = lw" "length tail = ow" by (simp_all add: count_def tail_def)
  have w: "lw < 16" "ow < 16" "lw \<noteq> 0" using fits by simp_all
  have widths: "(lw = 0 \<or> 8 < lw \<or> 8 < ow) = False" using fits by simp
  have h: "unat (h AND 0x0F) = lw" "unat (drop_bit 4 h) = ow"
    unfolding h_def by (rule header_fields [OF w(1,2)])+
  have h0: "(h = 0) = False" using h(1) w(3) by auto
  have n0: "(run_cluster_count run = 0) = False" using fits by simp
  have c: "decode_unsigned count = run_cluster_count run"
    using fits by (simp add: count_def decode_unsigned_le_bytes)
  have p: "pair_lcn (count @ tail) lw ow (length pre + 1) prev = Ok (next_lcn prev run, run_lcn run)"
    using pair_lcn_encoded [OF fits lens(1) prev] by (simp add: tail_def)
  have get: "get_at ?bytes (length pre) = Some h" by (simp add: get_at_def)
  have sl: "slice ?bytes (length pre + 1) (length pre + 1 + lw + ow) = Some (count @ tail)"
    using lens by (simp add: slice_def)
  have stop: "(case usize_checked_add (length pre + 1) lw of
      Some value \<Rightarrow> usize_checked_add value ow | None \<Rightarrow> None) = Some (length pre + 1 + lw + ow)"
    using len by (simp add: usize_checked_add_def)
  have sub: "sub_slice (count @ tail) 0 lw = Ok count" using lens by (simp add: sub_slice_in)
  have add: "checked_add vcn (run_cluster_count run) = Some (vcn + run_cluster_count run)"
    using sum by (simp add: checked_add_def)
  have run: "\<lparr>run_vcn = vcn, run_cluster_count = run_cluster_count run, run_lcn = run_lcn run\<rparr> = run"
    using v by (cases run) simp
  have bytes: "pair_bytes prev (lw, ow, run) = h # count @ tail"
    by (simp add: count_def tail_def h_def)
  show ?thesis
    by (simp only: bytes mapping_pair_def Let_def get ok_or_simps obind.simps h h0 if_False widths
        stop sl sub c n0 p split_conv add run)
qed

lemma mapping_pairs_loop_encoded:
  assumes "encodable vcn prev ws" and "i64_range prev"
    and "length pre + length (encode_pairs prev ws) < 2 ^ 64"
  shows "mapping_pairs_loop (pre @ encode_pairs prev ws @ rest) (length pre) vcn prev runs
    = Ok (runs @ map (snd \<circ> snd) ws)"
  using assms
proof (induction ws arbitrary: vcn prev pre runs)
  case Nil
  then show ?case
    by (subst mapping_pairs_loop.simps) (simp add: mapping_pair_def get_at_def)
next
  case (Cons w ws)
  obtain lw ow run where w: "w = (lw, ow, run)" by (cases w)
  let ?pre = "pre @ pair_bytes prev w"
  have fits: "pair_fits prev (lw, ow, run)" using Cons.prems(1) w by (simp add: Let_def)
  have len: "length ?pre = length pre + 1 + lw + ow"
    using fits w by (auto split: option.splits)
  have range: "i64_range (next_lcn prev run)"
    using fits Cons.prems(2) by (auto simp: next_lcn_def simp del: of_nat_unat intro: i64_range_unat split: option.splits)
  have step: "mapping_pair (pre @ pair_bytes prev (lw, ow, run) @ encode_pairs (next_lcn prev run) ws @ rest)
      (length pre) vcn prev
    = Ok (Some (run, length ?pre, vcn + run_cluster_count run, next_lcn prev run))"
    unfolding len
    using Cons.prems w fits len by (intro mapping_pair_encoded) (simp_all add: Let_def)
  have "mapping_pairs_loop (?pre @ encode_pairs (next_lcn prev run) ws @ rest) (length ?pre)
      (vcn + run_cluster_count run) (next_lcn prev run) (runs @ [run])
    = Ok ((runs @ [run]) @ map (snd \<circ> snd) ws)"
    using Cons.prems w range by (intro Cons.IH) (simp_all add: Let_def)
  then show ?case
    by (subst mapping_pairs_loop.simps) (simp add: w step del: pair_bytes.simps)
qed

section \<open>Properties\<close>

lemmas runlist_eval [eval_simps] =
  parse_mapping_pairs_def mapping_pairs_loop.simps mapping_pair_def pair_lcn_def next_lcn_def
  decode_signed_eq decode_unsigned_eq

text \<open>C3. Every run list written in the NTFS mapping-pair format is decoded to exactly its runs:
  contiguous VCNs, absolute LCNs recovered from signed deltas, sparse runs without an LCN, at any
  field widths that hold the values and whatever bytes follow the terminator.\<close>

theorem parse_mapping_pairs_complete:
  assumes "encodable start 0 ws" and "length (encode_pairs 0 ws) < 2 ^ 64"
  shows "parse_mapping_pairs (encode_pairs 0 ws @ rest) start = Ok (map (snd \<circ> snd) ws)"
  using mapping_pairs_loop_encoded [of start 0 ws "[]" rest "[]"] assms
  by (simp add: parse_mapping_pairs_def i64_range_def)

text \<open>A fragmented file: three clusters at 100, two at 96 (a negative delta), five sparse.\<close>

theorem parse_mapping_pairs_complete_witness:
  "parse_mapping_pairs ([0x11, 3, 100, 0x11, 2, 0xFC, 0x01, 5, 0] @ [7]) 0 =
     Ok [\<lparr>run_vcn = 0, run_cluster_count = 3, run_lcn = Some 100\<rparr>,
         \<lparr>run_vcn = 3, run_cluster_count = 2, run_lcn = Some 96\<rparr>,
         \<lparr>run_vcn = 5, run_cluster_count = 5, run_lcn = None\<rparr>]"
proof -
  let ?ws = "[(1, 1, \<lparr>run_vcn = 0, run_cluster_count = 3, run_lcn = Some 100\<rparr>),
         (1, 1, \<lparr>run_vcn = 3, run_cluster_count = 2, run_lcn = Some 96\<rparr>),
         (1, 0, \<lparr>run_vcn = 5, run_cluster_count = 5, run_lcn = None\<rparr>)] :: wide_run list"
  have bytes: "encode_pairs 0 ?ws = [0x11, 3, 100, 0x11, 2, 0xFC, 0x01, 5, 0]"
    by (simp add: eval_simps)
  have "encodable 0 0 ?ws" by (simp add: eval_simps)
  from parse_mapping_pairs_complete [OF this, of "[7]"] show ?thesis
    unfolding bytes by simp
qed

text \<open>The runs of an accepted run list are a chain from the starting VCN: each begins where
  the one before it ends, none is empty, no VCN overflows, and every LCN fits an \<open>i64\<close>.\<close>

theorem parse_mapping_pairs_chain:
  "parse_mapping_pairs bytes start = Ok runs \<Longrightarrow> runs_chain start runs"
  unfolding parse_mapping_pairs_def by (erule mapping_pairs_loop_chain) simp_all

theorem parse_mapping_pairs_chain_witness:
  "runs_chain 7 [\<lparr>run_vcn = 7, run_cluster_count = 3, run_lcn = Some 100\<rparr>]"
  by (rule parse_mapping_pairs_chain [of "[0x11, 3, 100, 0]"])
    (simp add: eval_simps cong: obind_weak_cong)

text \<open>No byte string makes the mapping-pair decoder panic, and it always terminates.\<close>

theorem parse_mapping_pairs_no_panic: "parse_mapping_pairs bytes start \<noteq> Panic"
  unfolding parse_mapping_pairs_def by (rule mapping_pairs_loop_no_panic)

end
