(* ===== verification/NtfsRecord.thy ===== *)
theory NtfsRecord
  imports NtfsRunlist
begin

text \<open>
  \<open>ferail-ntfs/src/record.rs\<close>: the parser of one MFT FILE record.  The record is
  untrusted input of up to 64 KiB: the update-sequence fixups rewrite the sector
  trailers, then a cursor walks the attributes, each of which is a length-checked
  slice.  The lemmas follow that structure, one per function.
\<close>

unbundle bit_operations_syntax

section \<open>Constants\<close>

definition FILE_SIGNATURE :: "u8 list" where "FILE_SIGNATURE = [0x46, 0x49, 0x4C, 0x45]"
definition ATTRIBUTE_END :: u32 where "ATTRIBUTE_END = 0xFFFFFFFF"
definition ATTRIBUTE_STANDARD_INFORMATION :: u32 where "ATTRIBUTE_STANDARD_INFORMATION = 0x10"
definition ATTRIBUTE_LIST :: u32 where "ATTRIBUTE_LIST = 0x20"
definition ATTRIBUTE_FILE_NAME :: u32 where "ATTRIBUTE_FILE_NAME = 0x30"
definition ATTRIBUTE_DATA :: u32 where "ATTRIBUTE_DATA = 0x80"
definition ATTRIBUTE_REPARSE_POINT :: u32 where "ATTRIBUTE_REPARSE_POINT = 0xC0"
definition IO_REPARSE_TAG_CLOUD :: u32 where "IO_REPARSE_TAG_CLOUD = 0x9000001A"
definition IO_REPARSE_TAG_CLOUD_MASK :: u32 where "IO_REPARSE_TAG_CLOUD_MASK = 0xFFFF0FFF"
definition RECORD_IN_USE :: u16 where "RECORD_IN_USE = 0x0001"
definition RECORD_DIRECTORY :: u16 where "RECORD_DIRECTORY = 0x0002"
definition RECORD_REPARSE :: u16 where "RECORD_REPARSE = 0x0400"
definition ATTRIBUTE_COMPRESSED :: u16 where "ATTRIBUTE_COMPRESSED = 0x0001"
definition ATTRIBUTE_SPARSE :: u16 where "ATTRIBUTE_SPARSE = 0x8000"
definition MAX_RECORD_BYTES :: nat where "MAX_RECORD_BYTES = 64 * 1024"
definition MAX_ATTRIBUTES :: nat where "MAX_ATTRIBUTES = 1024"
definition MAX_NAMES :: nat where "MAX_NAMES = 256"

section \<open>Data\<close>

record file_reference =
  ref_record :: u64
  ref_sequence :: u16

definition FileReference_from_raw :: "u64 \<Rightarrow> file_reference" where
  "FileReference_from_raw raw =
     \<lparr>ref_record = raw AND 0x0000FFFFFFFFFFFF, ref_sequence = ucast (drop_bit 48 raw)\<rparr>"

definition FileReference_is_zero :: "file_reference \<Rightarrow> bool" where
  "FileReference_is_zero r \<longleftrightarrow> ref_record r = 0 \<and> ref_sequence r = 0"

datatype name_namespace = Posix | Win32 | Dos | Win32AndDos | OtherNamespace u8

definition NameNamespace_from_raw :: "u8 \<Rightarrow> name_namespace" where
  "NameNamespace_from_raw value =
     (if value = 0 then Posix else if value = 1 then Win32 else if value = 2 then Dos
      else if value = 3 then Win32AndDos else OtherNamespace value)"

definition is_dos_only :: "name_namespace \<Rightarrow> bool" where
  "is_dos_only n \<longleftrightarrow> n = Dos"

record file_name =
  fn_parent :: file_reference
  fn_namespace :: name_namespace
  fn_name :: "u16 list"
  fn_logical_bytes :: u64
  fn_allocated_bytes :: u64
  fn_file_attributes :: u32

record data_attribute =
  da_lowest_vcn :: u64
  da_highest_vcn :: u64
  da_logical_bytes :: u64
  da_allocated_bytes :: u64
  da_initialized_bytes :: u64
  da_resident :: bool
  da_sparse :: bool
  da_compressed :: bool
  da_runs :: "data_run list"

record attribute_list_entry =
  ale_attribute_type :: u32
  ale_lowest_vcn :: u64
  ale_record :: file_reference
  ale_attribute_id :: u16
  ale_name :: "u16 list"

datatype attribute_list =
    ListResident "attribute_list_entry list"
  | ListNonResident (nr_lowest_vcn: u64) (nr_highest_vcn: u64) (nr_logical_bytes: u64)
      (nr_runs: "data_run list")

record file_record =
  rec_record_number :: u64
  rec_sequence :: u16
  rec_hard_link_count :: u16
  rec_in_use :: bool
  rec_directory :: bool
  rec_reparse_point :: bool
  rec_reparse_tag :: "u32 option"
  rec_base_reference :: "file_reference option"
  rec_modified_ticks :: "u64 option"
  rec_names :: "file_name list"
  rec_data :: "data_attribute list"
  rec_attribute_lists :: "attribute_list list"
  rec_named_data_attributes :: u16

definition is_cloud_reparse :: "file_record \<Rightarrow> bool" where
  "is_cloud_reparse r =
     (case rec_reparse_tag r of None \<Rightarrow> False
      | Some tag \<Rightarrow> tag AND IO_REPARSE_TAG_CLOUD_MASK = IO_REPARSE_TAG_CLOUD)"

definition meaningful_names :: "file_record \<Rightarrow> file_name list" where
  "meaningful_names r =
     filter (\<lambda>candidate. \<not> is_dos_only (fn_namespace candidate) \<or>
        \<not> list_ex (\<lambda>other. fn_parent other = fn_parent candidate \<and> \<not> is_dos_only (fn_namespace other))
            (rec_names r)) (rec_names r)"

record record_parse_options =
  opt_bytes_per_sector :: nat
  opt_expected_record_number :: "u64 option"
  opt_include_data_runs :: bool

definition RecordParseOptions_new :: "nat \<Rightarrow> record_parse_options" where
  "RecordParseOptions_new sector =
     \<lparr>opt_bytes_per_sector = sector, opt_expected_record_number = None, opt_include_data_runs = True\<rparr>"

section \<open>Field access\<close>

definition rec_error :: "error_kind \<Rightarrow> nat \<Rightarrow> string \<Rightarrow> ntfs_error" where
  "rec_error kind off ctx = NtfsError_new kind (of_nat off) ctx"

definition field_range :: "u8 list \<Rightarrow> nat \<Rightarrow> nat \<Rightarrow> nat \<Rightarrow> string \<Rightarrow> u8 list ntfs_result" where
  "field_range bytes off len absolute_offset ctx =
     obind (ok_or (usize_checked_add off len) (rec_error Overflow (absolute_offset + off) ctx)) (\<lambda>stop.
     ok_or (slice bytes off stop) (rec_error Truncated (absolute_offset + off) ctx))"

definition byte_at :: "u8 list \<Rightarrow> nat \<Rightarrow> u8 ntfs_result" where
  "byte_at bytes off = ok_or (get_at bytes off) (rec_error Truncated off ''u8 field'')"

definition u16_at :: "u8 list \<Rightarrow> nat \<Rightarrow> u16 ntfs_result" where
  "u16_at bytes off =
     obind (field_range bytes off 2 0 ''u16 field'') (\<lambda>value.
     obind (idx value 0) (\<lambda>a. obind (idx value 1) (\<lambda>b. Ok (le_word [a, b]))))"

definition u32_at :: "u8 list \<Rightarrow> nat \<Rightarrow> u32 ntfs_result" where
  "u32_at bytes off = obind (field_range bytes off 4 0 ''u32 field'') (\<lambda>value. Ok (le_word value))"

definition u64_at :: "u8 list \<Rightarrow> nat \<Rightarrow> u64 ntfs_result" where
  "u64_at bytes off = obind (field_range bytes off 8 0 ''u64 field'') (\<lambda>value. Ok (le_word value))"

definition attribute_name :: "u8 list \<Rightarrow> nat \<Rightarrow> nat \<Rightarrow> nat \<Rightarrow> u16 list ntfs_result" where
  "attribute_name bytes len off absolute_offset =
     (if len = 0 then Ok []
      else
      obind (ok_or (usize_checked_mul len 2)
               (rec_error Overflow (absolute_offset + 9) ''attribute name length overflow''))
        (\<lambda>byte_length.
      obind (field_range bytes off byte_length absolute_offset ''attribute name'') (\<lambda>encoded.
      Ok (u16_units encoded))))"

definition resident_value :: "u8 list \<Rightarrow> nat \<Rightarrow> u8 list ntfs_result" where
  "resident_value bytes absolute_offset =
     obind (u32_at bytes 16) (\<lambda>len.
     obind (u16_at bytes 20) (\<lambda>off.
     field_range bytes (unat off) (unat len) absolute_offset ''resident attribute value''))"

section \<open>Update-sequence fixups\<close>

text \<open>One sector: its trailer must equal the update sequence and is replaced by the saved bytes.\<close>

fun fixup_sectors :: "nat \<Rightarrow> nat \<Rightarrow> u8 list \<Rightarrow> nat list \<Rightarrow> u8 list \<Rightarrow> u8 list ntfs_result" where
  "fixup_sectors sector_size usa_offset sequence [] bytes = Ok bytes"
| "fixup_sectors sector_size usa_offset sequence (sector # sectors) bytes =
     obind (ok_or (case usize_checked_mul sector sector_size of
                     Some value \<Rightarrow> usize_checked_sub value 2 | None \<Rightarrow> None)
              (rec_error Overflow 0 ''sector trailer overflow'')) (\<lambda>trailer.
     if slice bytes trailer (trailer + 2) \<noteq> Some sequence then
       Err (rec_error InvalidFixup trailer ''sector trailer does not match update sequence'')
     else
     let replacement = usa_offset + sector * 2 in
     obind (idx bytes replacement) (\<lambda>a.
     obind (idx bytes (replacement + 1)) (\<lambda>b.
     fixup_sectors sector_size usa_offset sequence sectors (bytes[trailer := a, trailer + 1 := b]))))"

definition apply_update_sequence_fixups :: "u8 list \<Rightarrow> nat \<Rightarrow> u8 list ntfs_result" where
  "apply_update_sequence_fixups bytes sector_size =
     obind (u16_at bytes 4) (\<lambda>usa_offset_raw.
     obind (u16_at bytes 6) (\<lambda>usa_count_raw.
     let usa_offset = unat usa_offset_raw; usa_count = unat usa_count_raw;
         expected_count = length bytes div sector_size + 1 in
     if usa_count \<noteq> expected_count \<or> usa_count < 2 then
       Err (rec_error InvalidFixup 6 ''update-sequence count does not match record sectors'')
     else
     obind (ok_or (usize_checked_mul usa_count 2)
              (rec_error Overflow usa_offset ''update-sequence byte length overflow'')) (\<lambda>usa_bytes.
     if usa_offset < 8 \<or>
        (case usize_checked_add usa_offset usa_bytes of None \<Rightarrow> True | Some stop \<Rightarrow> length bytes < stop) then
       Err (rec_error InvalidFixup usa_offset ''update-sequence array outside record'')
     else
     obind (idx bytes usa_offset) (\<lambda>s0.
     obind (idx bytes (usa_offset + 1)) (\<lambda>s1.
     fixup_sectors sector_size usa_offset [s0, s1] [1..<usa_count] bytes)))))"

section \<open>Attribute values\<close>

definition parse_non_resident :: "u8 list \<Rightarrow> u16 \<Rightarrow> nat \<Rightarrow> bool \<Rightarrow> data_attribute ntfs_result" where
  "parse_non_resident bytes flags absolute_offset include_data_runs =
     (if length bytes < 64 then
        Err (rec_error Truncated absolute_offset ''non-resident attribute header'')
      else
      obind (u64_at bytes 16) (\<lambda>lowest_vcn.
      obind (u64_at bytes 24) (\<lambda>highest_vcn.
      obind (u16_at bytes 32) (\<lambda>mapping_raw.
      let mapping_offset = unat mapping_raw in
      if mapping_offset < 64 \<or> length bytes \<le> mapping_offset then
        Err (rec_error InvalidAttribute (absolute_offset + 32) ''mapping pairs outside attribute'')
      else
      obind (if include_data_runs then
               obind (sub_slice bytes mapping_offset (length bytes)) (\<lambda>mapping.
               obind (map_err (\<lambda>err. err\<lparr>err_offset := saturating_add (err_offset err)
                          (of_nat (absolute_offset + mapping_offset))\<rparr>)
                        (parse_mapping_pairs mapping lowest_vcn)) (\<lambda>runs.
               if runs = [] then Ok runs
               else
               let final = last runs in
               obind (ok_or (case checked_add (run_vcn final) (run_cluster_count final) of
                               Some value \<Rightarrow> checked_sub value 1 | None \<Rightarrow> None)
                        (rec_error Overflow (absolute_offset + mapping_offset) ''run VCN range overflow''))
                 (\<lambda>last_vcn.
               if last_vcn \<noteq> highest_vcn then
                 Err (rec_error InvalidRunlist (absolute_offset + 24)
                        ''highest VCN does not match mapping pairs'')
               else Ok runs)))
             else Ok []) (\<lambda>runs.
      obind (u64_at bytes 40) (\<lambda>allocated.
      obind (u64_at bytes 48) (\<lambda>logical.
      obind (u64_at bytes 56) (\<lambda>initialized.
      Ok \<lparr>da_lowest_vcn = lowest_vcn, da_highest_vcn = highest_vcn, da_logical_bytes = logical,
          da_allocated_bytes = allocated, da_initialized_bytes = initialized, da_resident = False,
          da_sparse = (flags AND ATTRIBUTE_SPARSE \<noteq> 0 \<or> list_ex (\<lambda>run. run_lcn run = None) runs),
          da_compressed = (flags AND ATTRIBUTE_COMPRESSED \<noteq> 0), da_runs = runs\<rparr>))))))))"

definition parse_file_name :: "u8 list \<Rightarrow> nat \<Rightarrow> file_name ntfs_result" where
  "parse_file_name bytes absolute_offset =
     (if length bytes < 66 then Err (rec_error Truncated absolute_offset ''FILE_NAME value'')
      else
      obind (idx bytes 64) (\<lambda>len.
      obind (ok_or (usize_checked_mul (unat len) 2)
               (rec_error Overflow (absolute_offset + 64) ''FILE_NAME UTF-16 length overflow''))
        (\<lambda>name_bytes.
      obind (field_range bytes 66 name_bytes absolute_offset ''FILE_NAME UTF-16'') (\<lambda>encoded.
      obind (u64_at bytes 0) (\<lambda>parent.
      obind (u64_at bytes 40) (\<lambda>allocated.
      obind (u64_at bytes 48) (\<lambda>logical.
      obind (u32_at bytes 56) (\<lambda>attrs.
      obind (idx bytes 65) (\<lambda>ns.
      Ok \<lparr>fn_parent = FileReference_from_raw parent, fn_namespace = NameNamespace_from_raw ns,
          fn_name = u16_units encoded, fn_logical_bytes = logical, fn_allocated_bytes = allocated,
          fn_file_attributes = attrs\<rparr>)))))))))"

text \<open>
  One entry of an \<open>$ATTRIBUTE_LIST\<close>: \<open>None\<close> where the loop breaks (only zero bytes
  left, or the end marker), otherwise the entry and its length.
\<close>

definition attribute_list_step ::
    "u8 list \<Rightarrow> nat \<Rightarrow> nat \<Rightarrow> (attribute_list_entry \<times> nat) option ntfs_result" where
  "attribute_list_step bytes absolute_offset cursor =
     (if list_all (\<lambda>byte. byte = 0) (drop cursor bytes) then Ok None
      else if length bytes - cursor < 26 then
        Err (rec_error Truncated (absolute_offset + cursor) ''ATTRIBUTE_LIST entry header'')
      else
      obind (u32_at bytes cursor) (\<lambda>attribute_type.
      if attribute_type = ATTRIBUTE_END then Ok None
      else
      obind (u16_at bytes (cursor + 4)) (\<lambda>length_raw.
      let len = unat length_raw in
      if len < 26 \<or>
         (case usize_checked_add cursor len of None \<Rightarrow> True | Some stop \<Rightarrow> length bytes < stop) then
        Err (rec_error InvalidAttribute (absolute_offset + cursor + 4) ''ATTRIBUTE_LIST entry length'')
      else
      obind (sub_slice bytes cursor (cursor + len)) (\<lambda>entry.
      obind (idx entry 6) (\<lambda>name_length.
      obind (idx entry 7) (\<lambda>name_offset.
      obind (attribute_name entry (unat name_length) (unat name_offset) (absolute_offset + cursor)) (\<lambda>name.
      obind (u64_at entry 8) (\<lambda>lowest.
      obind (u64_at entry 16) (\<lambda>reference.
      obind (u16_at entry 24) (\<lambda>attr_id.
      Ok (Some (\<lparr>ale_attribute_type = attribute_type, ale_lowest_vcn = lowest,
                 ale_record = FileReference_from_raw reference, ale_attribute_id = attr_id,
                 ale_name = name\<rparr>, len))))))))))))"

lemma attribute_list_step_progress:
  "attribute_list_step bytes base cursor = Ok (Some (entry, len)) \<Longrightarrow> 26 \<le> len \<and> cursor + len \<le> length bytes"
  unfolding attribute_list_step_def Let_def
  by (auto simp: outcome_simps split: if_splits option.splits)

function attribute_list_loop ::
    "u8 list \<Rightarrow> nat \<Rightarrow> nat \<Rightarrow> attribute_list_entry list \<Rightarrow> attribute_list_entry list ntfs_result" where
  "attribute_list_loop bytes absolute_offset cursor entries =
     (if cursor < length bytes then
        obind (attribute_list_step bytes absolute_offset cursor) (\<lambda>step.
        case step of
          None \<Rightarrow> Ok entries
        | Some (entry, len) \<Rightarrow> attribute_list_loop bytes absolute_offset (cursor + len) (entries @ [entry]))
      else Ok entries)"
  by pat_completeness auto
termination
  by (relation "measure (\<lambda>(bytes, _, cursor, _). length bytes - cursor)")
    (auto dest!: attribute_list_step_progress)

declare attribute_list_loop.simps [simp del]

definition parse_attribute_list :: "u8 list \<Rightarrow> nat \<Rightarrow> attribute_list_entry list ntfs_result" where
  "parse_attribute_list bytes absolute_offset = attribute_list_loop bytes absolute_offset 0 []"

definition parse_attribute_list_entries :: "u8 list \<Rightarrow> attribute_list_entry list ntfs_result" where
  "parse_attribute_list_entries bytes = parse_attribute_list bytes 0"

section \<open>Attributes and records\<close>

definition parse_attribute ::
    "u8 list \<Rightarrow> u32 \<Rightarrow> file_record \<Rightarrow> nat \<Rightarrow> bool \<Rightarrow> file_record ntfs_result" where
  "parse_attribute bytes attribute_type record absolute_offset include_data_runs =
     obind (byte_at bytes 8) (\<lambda>non_resident_raw.
     obind (byte_at bytes 9) (\<lambda>name_length.
     obind (u16_at bytes 10) (\<lambda>name_offset.
     obind (u16_at bytes 12) (\<lambda>flags.
     obind (attribute_name bytes (unat name_length) (unat name_offset) absolute_offset) (\<lambda>name.
     let non_resident = (non_resident_raw \<noteq> 0) in
     if attribute_type = ATTRIBUTE_STANDARD_INFORMATION \<and> \<not> non_resident then
       obind (resident_value bytes absolute_offset) (\<lambda>value.
       if 16 \<le> length value then
         obind (u64_at value 8) (\<lambda>ticks. Ok (record\<lparr>rec_modified_ticks := Some ticks\<rparr>))
       else Ok record)
     else if attribute_type = ATTRIBUTE_FILE_NAME \<and> \<not> non_resident then
       if MAX_NAMES \<le> length (rec_names record) then
         Err (rec_error LimitExceeded absolute_offset ''too many FILE_NAME attributes'')
       else
       obind (resident_value bytes absolute_offset) (\<lambda>value.
       obind (parse_file_name value absolute_offset) (\<lambda>file_name.
       Ok (record\<lparr>rec_names := rec_names record @ [file_name]\<rparr>)))
     else if attribute_type = ATTRIBUTE_DATA \<and> name \<noteq> [] then
       Ok (record\<lparr>rec_named_data_attributes := saturating_add (rec_named_data_attributes record) 1\<rparr>)
     else if attribute_type = ATTRIBUTE_DATA \<and> \<not> non_resident then
       obind (resident_value bytes absolute_offset) (\<lambda>value.
       Ok (record\<lparr>rec_data := rec_data record @
            [\<lparr>da_lowest_vcn = 0, da_highest_vcn = 0, da_logical_bytes = of_nat (length value),
              da_allocated_bytes = 0, da_initialized_bytes = of_nat (length value),
              da_resident = True, da_sparse = False, da_compressed = False, da_runs = []\<rparr>]\<rparr>))
     else if attribute_type = ATTRIBUTE_DATA then
       obind (parse_non_resident bytes flags absolute_offset include_data_runs) (\<lambda>data.
       Ok (record\<lparr>rec_data := rec_data record @ [data]\<rparr>))
     else if attribute_type = ATTRIBUTE_LIST \<and> \<not> non_resident then
       obind (resident_value bytes absolute_offset) (\<lambda>value.
       obind (parse_attribute_list value absolute_offset) (\<lambda>entries.
       Ok (record\<lparr>rec_attribute_lists := rec_attribute_lists record @ [ListResident entries]\<rparr>)))
     else if attribute_type = ATTRIBUTE_LIST then
       obind (parse_non_resident bytes flags absolute_offset include_data_runs) (\<lambda>data.
       Ok (record\<lparr>rec_attribute_lists := rec_attribute_lists record @
            [ListNonResident (da_lowest_vcn data) (da_highest_vcn data) (da_logical_bytes data)
               (da_runs data)]\<rparr>))
     else if attribute_type = ATTRIBUTE_REPARSE_POINT \<and> \<not> non_resident then
       obind (resident_value bytes absolute_offset) (\<lambda>value.
       obind (u32_at value 0) (\<lambda>tag.
       Ok (record\<lparr>rec_reparse_point := True, rec_reparse_tag := Some tag\<rparr>)))
     else if attribute_type = ATTRIBUTE_REPARSE_POINT then
       Ok (record\<lparr>rec_reparse_point := True\<rparr>)
     else Ok record)))))"

text \<open>The body of the attribute loop; \<open>None\<close> is the end marker.\<close>

definition attribute_step ::
    "u8 list \<Rightarrow> nat \<Rightarrow> bool \<Rightarrow> nat \<Rightarrow> nat \<Rightarrow> file_record \<Rightarrow> (file_record \<times> nat) option ntfs_result" where
  "attribute_step fixed used_bytes include_data_runs cursor attributes record =
     obind (u32_at fixed cursor) (\<lambda>attribute_type.
     if attribute_type = ATTRIBUTE_END then Ok None
     else if MAX_ATTRIBUTES < attributes + 1 then
       Err (rec_error LimitExceeded cursor ''too many attributes in one record'')
     else
     obind (u32_at fixed (cursor + 4)) (\<lambda>length_raw.
     let attribute_length = unat length_raw in
     if attribute_length < 24 \<or> attribute_length mod 8 \<noteq> 0 then
       Err (rec_error InvalidAttribute (cursor + 4) ''invalid attribute length/alignment'')
     else
     obind (ok_or (usize_checked_add cursor attribute_length)
              (rec_error Overflow cursor ''attribute range overflow'')) (\<lambda>stop.
     if used_bytes < stop then
       Err (rec_error Truncated cursor ''attribute extends beyond used record bytes'')
     else
     obind (sub_slice fixed cursor stop) (\<lambda>attribute.
     obind (parse_attribute attribute attribute_type record cursor include_data_runs) (\<lambda>record'.
     Ok (Some (record', stop)))))))"

lemma attribute_step_progress:
  "attribute_step fixed used include cursor n record = Ok (Some (record', stop))
     \<Longrightarrow> cursor + 24 \<le> stop \<and> stop \<le> used"
  unfolding attribute_step_def Let_def
  by (elim run_elims) (auto simp: arith_word outcome_simps split: if_splits)

function attribute_loop ::
    "u8 list \<Rightarrow> nat \<Rightarrow> bool \<Rightarrow> nat \<Rightarrow> nat \<Rightarrow> file_record \<Rightarrow> file_record ntfs_result" where
  "attribute_loop fixed used_bytes include_data_runs cursor attributes record =
     (if cursor < used_bytes then
        obind (attribute_step fixed used_bytes include_data_runs cursor attributes record) (\<lambda>step.
        case step of
          None \<Rightarrow> Ok record
        | Some (record', stop) \<Rightarrow>
            attribute_loop fixed used_bytes include_data_runs stop (attributes + 1) record')
      else Err (rec_error InvalidAttribute cursor ''missing attribute terminator''))"
  by pat_completeness auto
termination
  by (relation "measure (\<lambda>(_, used_bytes, _, cursor, _). used_bytes - cursor)")
    (auto dest!: attribute_step_progress)

declare attribute_loop.simps [simp del]

definition parse_file_record_in_place :: "u8 list \<Rightarrow> record_parse_options \<Rightarrow> file_record ntfs_result" where
  "parse_file_record_in_place input options =
     (if length input < 48 then Err (rec_error Truncated 0 ''FILE record header'')
      else if MAX_RECORD_BYTES < length input then
        Err (rec_error LimitExceeded 0 ''FILE record exceeds parser limit'')
      else if opt_bytes_per_sector options < 512 \<or> \<not> is_power_of_two (opt_bytes_per_sector options) \<or>
              length input mod opt_bytes_per_sector options \<noteq> 0 then
        Err (rec_error InvalidGeometry 0 ''record/sector size mismatch'')
      else
      obind (sub_slice input 0 4) (\<lambda>signature.
      if signature \<noteq> FILE_SIGNATURE then
        Err (rec_error InvalidSignature 0 ''FILE signature'')
      else
      obind (apply_update_sequence_fixups input (opt_bytes_per_sector options)) (\<lambda>fixed.
      obind (u16_at fixed 20) (\<lambda>first_raw.
      obind (u16_at fixed 22) (\<lambda>flags.
      obind (u32_at fixed 24) (\<lambda>used_raw.
      let first_attribute = unat first_raw; used_bytes = unat used_raw in
      if first_attribute < 48 \<or> used_bytes < first_attribute \<or> length fixed < used_bytes then
        Err (rec_error InvalidAttribute 20 ''attribute region outside record'')
      else
      obind (u32_at fixed 44) (\<lambda>number_raw.
      let record_number = ucast number_raw :: u64 in
      if (case opt_expected_record_number options of None \<Rightarrow> False
          | Some expected \<Rightarrow> record_number \<noteq> expected) then
        Err (rec_error InvalidAttribute 44 ''record number mismatch'')
      else
      obind (u64_at fixed 32) (\<lambda>base_raw.
      obind (u16_at fixed 16) (\<lambda>seq.
      obind (u16_at fixed 18) (\<lambda>links.
      let base = FileReference_from_raw base_raw;
          record = \<lparr>rec_record_number = record_number, rec_sequence = seq, rec_hard_link_count = links,
             rec_in_use = (flags AND RECORD_IN_USE \<noteq> 0), rec_directory = (flags AND RECORD_DIRECTORY \<noteq> 0),
             rec_reparse_point = (flags AND RECORD_REPARSE \<noteq> 0), rec_reparse_tag = None,
             rec_base_reference = (if FileReference_is_zero base then None else Some base),
             rec_modified_ticks = None, rec_names = [], rec_data = [], rec_attribute_lists = [],
             rec_named_data_attributes = 0\<rparr> in
      if \<not> rec_in_use record then Ok record
      else attribute_loop fixed used_bytes (opt_include_data_runs options) first_attribute 0 record)))))))))) "

definition parse_file_record :: "u8 list \<Rightarrow> record_parse_options \<Rightarrow> file_record ntfs_result" where
  "parse_file_record bytes options = parse_file_record_in_place bytes options"

end
