(* ===== verification/NtfsRecordProps.thy ===== *)
theory NtfsRecordProps
  imports NtfsRecord "HOL-Library.Sublist"
begin

text \<open>
  What \<open>record.rs\<close> guarantees: no input makes the FILE-record parser panic; the
  update-sequence fixups restore exactly the protected sector trailers and reject a
  torn record; every record it accepts is within the parser's limits and each of
  its run lists is empty or covers its declared cluster range; the metadata-only pass agrees with the
  full pass.
\<close>

section \<open>Panic freedom\<close>

lemma field_range_no_panic [panic_intros]: "field_range bytes off n base ctx \<noteq> Panic"
  unfolding field_range_def by (intro panic_intros)

lemma field_range_length: "field_range bytes off n base ctx = Ok bs \<Longrightarrow> length bs = n"
  unfolding field_range_def by (auto simp: outcome_simps arith_word)

lemma byte_at_no_panic [panic_intros]: "byte_at bytes off \<noteq> Panic"
  unfolding byte_at_def by (intro panic_intros)

lemma u16_at_no_panic [panic_intros]: "u16_at bytes off \<noteq> Panic"
  unfolding u16_at_def by (intro panic_intros) (simp_all add: field_range_length)

lemma u32_at_no_panic [panic_intros]: "u32_at bytes off \<noteq> Panic"
  unfolding u32_at_def by (intro panic_intros)

lemma u64_at_no_panic [panic_intros]: "u64_at bytes off \<noteq> Panic"
  unfolding u64_at_def by (intro panic_intros)

lemma attribute_name_no_panic [panic_intros]: "attribute_name bytes n off base \<noteq> Panic"
  unfolding attribute_name_def by (intro panic_intros)

lemma resident_value_no_panic [panic_intros]: "resident_value bytes base \<noteq> Panic"
  unfolding resident_value_def by (intro panic_intros)

lemma parse_file_name_no_panic [panic_intros]: "parse_file_name bytes base \<noteq> Panic"
  unfolding parse_file_name_def by (intro panic_intros) simp_all

lemma parse_mapping_pairs_not_panic [panic_intros]: "parse_mapping_pairs bytes start \<noteq> Panic"
  unfolding parse_mapping_pairs_def by (rule mapping_pairs_loop_no_panic)

lemma parse_non_resident_no_panic [panic_intros]: "parse_non_resident bytes flags base incl \<noteq> Panic"
  unfolding parse_non_resident_def Let_def by (intro panic_intros) simp_all

lemma attribute_list_step_no_panic: "attribute_list_step bytes base cursor \<noteq> Panic"
  unfolding attribute_list_step_def Let_def
  by (intro panic_intros) (auto simp: outcome_simps arith_word split: option.splits)

lemma attribute_list_loop_no_panic: "attribute_list_loop bytes base cursor entries \<noteq> Panic"
proof (induction bytes base cursor entries rule: attribute_list_loop.induct)
  case (1 bytes base cursor entries)
  then show ?case
    by (subst attribute_list_loop.simps)
      (simp add: obind_Panic_iff attribute_list_step_no_panic split: option.splits prod.splits)
qed

lemma parse_attribute_list_no_panic [panic_intros]: "parse_attribute_list bytes base \<noteq> Panic"
  unfolding parse_attribute_list_def by (rule attribute_list_loop_no_panic)

lemma parse_attribute_no_panic [panic_intros]: "parse_attribute bytes ty record base incl \<noteq> Panic"
  unfolding parse_attribute_def Let_def by (intro panic_intros)

lemma attribute_step_no_panic:
  "used \<le> length fixed \<Longrightarrow> attribute_step fixed used incl cursor n r \<noteq> Panic"
  unfolding attribute_step_def Let_def
  by (intro panic_intros) (auto simp: outcome_simps arith_word)

lemma attribute_loop_no_panic:
  "used \<le> length fixed \<Longrightarrow> attribute_loop fixed used incl cursor n r \<noteq> Panic"
proof (induction fixed used incl cursor n r rule: attribute_loop.induct)
  case (1 fixed used incl cursor n r)
  then show ?case
    by (subst attribute_loop.simps)
      (simp add: obind_Panic_iff attribute_step_no_panic split: option.splits prod.splits)
qed

lemma fixup_sectors_no_panic:
  "\<forall>s\<in>set sectors. usa + s * 2 + 1 < length bytes \<Longrightarrow>
     fixup_sectors sector_size usa sequence sectors bytes \<noteq> Panic"
proof (induction sectors arbitrary: bytes)
  case (Cons s sectors)
  show ?case
    unfolding fixup_sectors.simps Let_def
    by (intro panic_intros Cons.IH) (use Cons.prems in auto)
qed simp

lemma fixups_no_panic [panic_intros]: "apply_update_sequence_fixups bytes sector_size \<noteq> Panic"
  unfolding apply_update_sequence_fixups_def Let_def
  by (intro panic_intros fixup_sectors_no_panic) (auto simp: outcome_simps arith_word split: option.splits)

text \<open>No byte string and no options make the FILE-record parser panic, and it always
  terminates: the fixups, the attribute walk and every attribute value stay inside the record.\<close>

theorem parse_file_record_no_panic: "parse_file_record bytes options \<noteq> Panic"
  unfolding parse_file_record_def parse_file_record_in_place_def Let_def
  by (intro panic_intros attribute_loop_no_panic) auto

section \<open>What the fixups do\<close>

text \<open>
  The offset of a sector's two-byte trailer, whether it differs from the update sequence, and
  the record with the trailers of the given sectors replaced by their saved bytes.
\<close>

definition sector_torn :: "nat \<Rightarrow> u8 list \<Rightarrow> u8 list \<Rightarrow> nat \<Rightarrow> bool" where
  "sector_torn ss sequence bytes s \<longleftrightarrow> [bytes ! (s * ss - 2), bytes ! (s * ss - 1)] \<noteq> sequence"

definition restored_byte :: "nat \<Rightarrow> nat \<Rightarrow> nat list \<Rightarrow> u8 list \<Rightarrow> nat \<Rightarrow> u8" where
  "restored_byte ss usa sectors bytes i =
     (if ss - 2 \<le> i mod ss \<and> i div ss + 1 \<in> set sectors
      then bytes ! (usa + 2 * (i div ss + 1) + (i mod ss - (ss - 2)))
      else bytes ! i)"

definition restore_trailers :: "nat \<Rightarrow> nat \<Rightarrow> nat list \<Rightarrow> u8 list \<Rightarrow> u8 list" where
  "restore_trailers ss usa sectors bytes = map (restored_byte ss usa sectors bytes) [0..<length bytes]"

lemma trailer_div_mod:
  fixes s ss d :: nat
  assumes "1 \<le> s" and "2 < ss" and "d < 2"
  shows "(s * ss - 2 + d) div ss = s - 1" and "(s * ss - 2 + d) mod ss = ss - 2 + d"
proof -
  from assms(1) obtain t where s: "s = Suc t" by (cases s) auto
  define r where "r = ss - 2 + d"
  have r: "r < ss" using assms(2,3) by (simp add: r_def)
  have e: "s * ss - 2 + d = r + t * ss" using assms s by (simp add: r_def)
  show "(s * ss - 2 + d) div ss = s - 1" and "(s * ss - 2 + d) mod ss = ss - 2 + d"
    unfolding e using r s by (simp_all add: r_def [symmetric])
qed

lemma trailer_position:
  fixes i ss :: nat
  assumes "ss - 2 \<le> i mod ss" and "2 < ss"
  shows "i = (i div ss + 1) * ss - 2 + (i mod ss - (ss - 2))" and "i mod ss - (ss - 2) < 2"
proof -
  have "i div ss * ss + i mod ss = i" by simp
  moreover have "(i div ss + 1) * ss = i div ss * ss + ss" by simp
  moreover have less: "i mod ss < ss" using assms(2) by simp
  ultimately show "i = (i div ss + 1) * ss - 2 + (i mod ss - (ss - 2))"
    using assms by linarith
  show "i mod ss - (ss - 2) < 2" using less assms by linarith
qed

lemma trailer_before:
  fixes s k ss :: nat
  assumes "1 \<le> s" and "s \<le> k" and "2 < ss"
  shows "ss - 2 \<le> s * ss - 2" and "s * ss \<le> k * ss" and "2 \<le> s * ss"
proof -
  have "1 * ss \<le> s * ss" using assms(1) by (rule mult_le_mono1)
  then show "ss - 2 \<le> s * ss - 2" "2 \<le> s * ss" using assms(3) by linarith+
  show "s * ss \<le> k * ss" using assms(2) by (rule mult_le_mono1)
qed

lemma slice_two:
  assumes "t + 2 \<le> length xs"
  shows "slice xs t (t + 2) = Some [xs ! t, xs ! (t + 1)]"
proof -
  have "take 2 (drop t xs) = [xs ! t, xs ! (t + 1)]"
    using assms by (intro nth_equalityI) (auto simp: less_Suc_eq numeral_2_eq_2)
  then show ?thesis using assms by (simp add: slice_def)
qed

lemma fixup_sectors_spec:
  assumes "2 < ss" and "length bytes = k * ss" and "k * ss < 2 ^ 64"
    and "usa + 2 * (k + 1) \<le> ss - 2" and "length sequence = 2"
    and "set sectors \<subseteq> {1..k}" and "distinct sectors"
  shows "fixup_sectors ss usa sequence sectors bytes =
    (case filter (sector_torn ss sequence bytes) sectors of
       [] \<Rightarrow> Ok (restore_trailers ss usa sectors bytes)
     | s # _ \<Rightarrow> Err (rec_error InvalidFixup (s * ss - 2) ''sector trailer does not match update sequence''))"
  using assms
proof (induction sectors arbitrary: bytes)
  case Nil
  have "restore_trailers ss usa [] bytes = bytes"
    by (rule nth_equalityI) (simp_all add: restore_trailers_def restored_byte_def)
  then show ?case by simp
next
  case (Cons s sectors)
  let ?t = "s * ss - 2"
  have s: "1 \<le> s" "s \<le> k" "s \<notin> set sectors" using Cons.prems by auto
  have t: "ss - 2 \<le> ?t" "s * ss \<le> length bytes" "2 \<le> s * ss"
    using trailer_before [OF s(1,2) Cons.prems(1)] Cons.prems(2) by auto
  have trailer: "(case usize_checked_mul s ss of Some value \<Rightarrow> usize_checked_sub value 2 | None \<Rightarrow> None) = Some ?t"
    using t le_less_trans [OF t(2) [unfolded Cons.prems(2)] Cons.prems(3)]
    by (simp add: usize_checked_mul_def usize_checked_sub_def)
  have pair: "slice bytes ?t (?t + 2) = Some [bytes ! ?t, bytes ! (s * ss - 1)]"
  proof -
    have "?t + 1 = s * ss - 1" "?t + 2 \<le> length bytes" using t by linarith+
    then show ?thesis by (simp only: slice_two)
  qed
  have torn: "slice bytes ?t (?t + 2) \<noteq> Some sequence \<longleftrightarrow> sector_torn ss sequence bytes s"
    unfolding pair sector_torn_def by simp
  have r: "usa + s * 2 + 1 < ss - 2" using Cons.prems(4) s(1,2) by (simp add: mult.commute)
  have rl: "usa + s * 2 + 1 < length bytes" using r t by linarith
  show ?case
  proof (cases "sector_torn ss sequence bytes s")
    case True
    then show ?thesis
      by (simp only: fixup_sectors.simps Let_def trailer ok_or_simps obind.simps torn if_True
          filter.simps list.case)
  next
    case False
    let ?b = "bytes[?t := bytes ! (usa + s * 2), ?t + 1 := bytes ! (usa + s * 2 + 1)]"
    have step: "fixup_sectors ss usa sequence (s # sectors) bytes = fixup_sectors ss usa sequence sectors ?b"
    proof -
      have "usa + s * 2 < length bytes" using rl by simp
      with rl False show ?thesis
        by (simp only: fixup_sectors.simps Let_def trailer ok_or_simps obind.simps torn if_False idx_in)
    qed
    have outside: "?b ! i = bytes ! i" if "i \<noteq> ?t" "i \<noteq> ?t + 1" for i
      using that by simp
    have "sector_torn ss sequence ?b q = sector_torn ss sequence bytes q" if q: "q \<in> set sectors" for q
    proof -
      have "1 \<le> q" "q \<noteq> s" using q Cons.prems(6,7) by auto
      then have "(q * ss - 2 + d) div ss \<noteq> (s * ss - 2 + e) div ss" if "d < 2" "e < 2" for d e
        using s that Cons.prems(1) by (simp add: trailer_div_mod)
      from this [of 0 0] this [of 0 1] this [of 1 0] this [of 1 1]
      have "q * ss - 2 \<noteq> ?t" "q * ss - 2 \<noteq> ?t + 1" "q * ss - 2 + 1 \<noteq> ?t" "q * ss - 2 + 1 \<noteq> ?t + 1"
        by auto
      moreover have "q * ss - 1 = q * ss - 2 + 1"
        using trailer_before(3) [OF \<open>1 \<le> q\<close> order.refl Cons.prems(1)] by linarith
      ultimately show ?thesis by (simp add: sector_torn_def)
    qed
    then have same: "filter (sector_torn ss sequence ?b) sectors = filter (sector_torn ss sequence bytes) sectors"
      by (rule filter_cong [OF refl])
    have "restored_byte ss usa sectors ?b i = restored_byte ss usa (s # sectors) bytes i"
      if i: "i < length bytes" for i
    proof (cases "i = ?t \<or> i = ?t + 1")
      case True
      then obtain d where d: "d < 2" "i = ?t + d"
        by (cases "i = ?t") (auto intro: that [of 0] that [of 1])
      then have dm: "i div ss + 1 = s" "i mod ss = ss - 2 + d"
        using s trailer_div_mod [of s ss d] Cons.prems(1) by auto
      show ?thesis using d dm s i less_2_cases [OF d(1)]
        by (auto simp: restored_byte_def mult.commute [of s 2])
    next
      case False
      have here: "i div ss + 1 \<noteq> s" if tr: "ss - 2 \<le> i mod ss"
        using trailer_position [OF tr Cons.prems(1)] less_2_cases False by auto
      have "usa + 2 * (i div ss + 1) + (i mod ss - (ss - 2)) < ss - 2"
        if tr: "ss - 2 \<le> i mod ss" and m: "i div ss + 1 \<in> set sectors"
      proof -
        have "i div ss + 1 \<le> k" using m Cons.prems(6) by auto
        with trailer_position(2) [OF tr Cons.prems(1)] Cons.prems(4) show ?thesis
          unfolding add_mult_distrib2 by simp
      qed
      then have "?b ! (usa + 2 * (i div ss + 1) + (i mod ss - (ss - 2)))
          = bytes ! (usa + 2 * (i div ss + 1) + (i mod ss - (ss - 2)))"
        if "ss - 2 \<le> i mod ss" and "i div ss + 1 \<in> set sectors"
        using that t(1) by (intro outside) force+
      moreover have "?b ! i = bytes ! i" using False by (intro outside) auto
      ultimately show ?thesis using here by (auto simp only: restored_byte_def set_simps insert_iff split: if_splits)
    qed
    then have restored: "restore_trailers ss usa sectors ?b = restore_trailers ss usa (s # sectors) bytes"
      by (simp add: restore_trailers_def)
    have IH: "fixup_sectors ss usa sequence sectors ?b =
      (case filter (sector_torn ss sequence ?b) sectors of
         [] \<Rightarrow> Ok (restore_trailers ss usa sectors ?b)
       | s # _ \<Rightarrow> Err (rec_error InvalidFixup (s * ss - 2) ''sector trailer does not match update sequence''))"
      by (rule Cons.IH) (use Cons.prems in auto)
    show ?thesis unfolding step IH same restored using False by (simp only: filter.simps if_False)
  qed
qed

text \<open>
  A record whose update-sequence array has one entry per sector after the sequence number
  and lies before the first trailer, as every NTFS version writes it.
\<close>

definition usa_layout :: "nat \<Rightarrow> nat \<Rightarrow> nat \<Rightarrow> u8 list \<Rightarrow> bool" where
  "usa_layout ss k usa bytes \<longleftrightarrow>
     length bytes = k * ss \<and> 1 \<le> k \<and> k * ss < 2 ^ 64 \<and> 8 \<le> usa \<and> usa + 2 * (k + 1) \<le> ss - 2 \<and>
     u16_at bytes 4 = Ok (of_nat usa) \<and> u16_at bytes 6 = Ok (of_nat (k + 1)) \<and> ss \<le> 2 ^ 16"

lemma fixups_spec:
  assumes "usa_layout ss k usa bytes"
  shows "apply_update_sequence_fixups bytes ss =
    (case filter (sector_torn ss [bytes ! usa, bytes ! (usa + 1)] bytes) [1..<k + 1] of
       [] \<Rightarrow> Ok (restore_trailers ss usa [1..<k + 1] bytes)
     | s # _ \<Rightarrow> Err (rec_error InvalidFixup (s * ss - 2) ''sector trailer does not match update sequence''))"
proof -
  have len: "length bytes = k * ss" "1 \<le> k" "k * ss < 2 ^ 64" "8 \<le> usa" "usa + 2 * (k + 1) \<le> ss - 2" "ss \<le> 2 ^ 16"
    and hdr: "u16_at bytes 4 = Ok (of_nat usa)" "u16_at bytes 6 = Ok (of_nat (k + 1))"
    using assms by (simp_all add: usa_layout_def)
  then have ss: "2 < ss" by linarith
  have small: "usa < 2 ^ 16" "k + 1 < 2 ^ 16" using len(5,6) ss by simp_all
  have u: "unat (of_nat usa :: u16) = usa" "unat (of_nat (k + 1) :: u16) = k + 1"
    using small by (simp_all only: unat_of_nat) (simp_all add: take_bit_nat_eq_self)
  have count: "length bytes div ss + 1 = k + 1" using len(1) ss by simp
  have kss: "ss \<le> k * ss" using len(2) by simp
  have ins: "usa + (k + 1) * 2 \<le> length bytes" using len(1,5) kss by linarith
  have mul: "usize_checked_mul (k + 1) 2 = Some ((k + 1) * 2)"
    using small(2) by (simp add: usize_checked_mul_def)
  have add: "usize_checked_add usa ((k + 1) * 2) = Some (usa + (k + 1) * 2)"
    using small by (simp add: usize_checked_add_def)
  have i: "usa < length bytes" "usa + 1 < length bytes" using ins by simp_all
  have guards: "(k + 1 \<noteq> k + 1 \<or> k + 1 < 2) = False"
    "(usa < 8 \<or> length bytes < usa + (k + 1) * 2) = False"
    using len ins by auto
  have sectors: "set [1..<k + 1] \<subseteq> {1..k}" "distinct [1..<k + 1]" by auto
  have "length [bytes ! usa, bytes ! (usa + 1)] = 2" by simp
  note spec = fixup_sectors_spec [OF ss len(1,3,5) this sectors]
  show ?thesis
    unfolding apply_update_sequence_fixups_def
    by (simp only: hdr obind.simps Let_def u count guards if_False mul ok_or_simps add option.case
        idx_in i spec)
qed


text \<open>What a writer does before a record goes to disk: save the trailers, stamp the sequence number.\<close>

definition protected_byte :: "nat \<Rightarrow> nat \<Rightarrow> nat \<Rightarrow> u8 list \<Rightarrow> u8 list \<Rightarrow> nat \<Rightarrow> u8" where
  "protected_byte ss k usa sequence bytes i =
     (if usa \<le> i \<and> i < usa + 2 then sequence ! (i - usa)
      else if usa + 2 \<le> i \<and> i < usa + 2 * (k + 1)
        then bytes ! (((i - usa) div 2) * ss - 2 + (i - usa) mod 2)
      else if ss - 2 \<le> i mod ss then sequence ! (i mod ss - (ss - 2))
      else bytes ! i)"

definition protect_record :: "nat \<Rightarrow> nat \<Rightarrow> nat \<Rightarrow> u8 list \<Rightarrow> u8 list \<Rightarrow> u8 list" where
  "protect_record ss k usa sequence bytes =
     map (protected_byte ss k usa sequence bytes) [0..<length bytes]"

lemma u16_at_eq:
  "u16_at bytes off = (if 2 ^ 64 \<le> off + 2 then Err (rec_error Overflow off ''u16 field'')
     else if off + 2 \<le> length bytes then Ok (le_word [bytes ! off, bytes ! (off + 1)])
     else Err (rec_error Truncated off ''u16 field''))"
proof (cases "off + 2 \<le> length bytes")
  case True
  then show ?thesis
    by (cases "off + 2 < 2 ^ 64")
      (simp_all only: u16_at_def field_range_def slice_two usize_checked_add_def if_True if_False
        ok_or_simps obind.simps, simp_all add: idx_def)
next
  case False
  then have "slice bytes off (off + 2) = None" by (simp add: slice_None)
  with False show ?thesis by (simp add: u16_at_def field_range_def usize_checked_add_def)
qed

lemma protected_header:
  assumes "i < 8" and "usa_layout ss k usa bytes"
  shows "protected_byte ss k usa sequence bytes i = bytes ! i"
proof -
  have "i < ss - 2" "8 \<le> usa" using assms by (auto simp: usa_layout_def)
  moreover from this have "i mod ss = i" by simp
  ultimately show ?thesis using assms(1) by (simp add: protected_byte_def)
qed

lemma protect_layout:
  assumes "usa_layout ss k usa bytes"
  shows "usa_layout ss k usa (protect_record ss k usa sequence bytes)"
proof -
  have "8 \<le> length bytes"
  proof -
    have "ss \<le> k * ss" "8 \<le> ss - 2" using assms by (auto simp: usa_layout_def)
    with assms show ?thesis unfolding usa_layout_def by linarith
  qed
  then show ?thesis
    using assms protected_header [OF _ assms]
    by (simp add: usa_layout_def u16_at_eq protect_record_def)
qed

lemma protected_trailer:
  assumes "usa_layout ss k usa bytes" and "1 \<le> s" "s \<le> k" "d < 2"
  shows "protected_byte ss k usa sequence bytes (s * ss - 2 + d) = sequence ! d"
proof -
  have ss: "2 < ss" and u: "usa + 2 * (k + 1) \<le> ss - 2" using assms(1) by (auto simp: usa_layout_def)
  have "(s * ss - 2 + d) mod ss = ss - 2 + d" using trailer_div_mod(2) [OF assms(2) ss assms(4)] .
  moreover have "usa + 2 * (k + 1) \<le> s * ss - 2 + d"
    using u trailer_before(1) [OF assms(2,3) ss] by linarith
  ultimately show ?thesis by (simp add: protected_byte_def)
qed

lemma protected_saved:
  assumes "usa_layout ss k usa bytes" and "1 \<le> s" "s \<le> k" "d < 2"
  shows "protected_byte ss k usa sequence bytes (usa + 2 * s + d) = bytes ! (s * ss - 2 + d)"
proof -
  have "(2 * s + d) div 2 = s" "(2 * s + d) mod 2 = d" using assms(4) by auto
  moreover have "usa + 2 * s + d - usa = 2 * s + d" by simp
  moreover have "usa + 2 \<le> usa + 2 * s + d" "usa + 2 * s + d < usa + 2 * (k + 1)" using assms(2-4) by auto
  ultimately show ?thesis by (simp only: protected_byte_def) simp
qed

lemma protected_not_torn:
  assumes "usa_layout ss k usa bytes" and "length sequence = 2" and "1 \<le> s" "s \<le> k"
  shows "\<not> sector_torn ss sequence (protect_record ss k usa sequence bytes) s"
proof -
  have ss: "2 < ss" and len: "length bytes = k * ss" using assms(1) by (auto simp: usa_layout_def)
  note b = trailer_before [OF assms(3,4) ss]
  have "s * ss - 1 = s * ss - 2 + 1" "s * ss - 2 = s * ss - 2 + 0" using b by linarith+
  moreover have "s * ss - 2 + 1 < length bytes" "s * ss - 2 + 0 < length bytes" using b len by linarith+
  moreover have "[sequence ! 0, sequence ! 1] = sequence"
    using assms(2) by (intro nth_equalityI) (auto simp: less_Suc_eq numeral_2_eq_2)
  ultimately show ?thesis
    using protected_trailer [OF assms(1,3,4), of 0 sequence] protected_trailer [OF assms(1,3,4), of 1 sequence]
    by (simp add: sector_torn_def protect_record_def)
qed

lemma protected_restored:
  assumes lay: "usa_layout ss k usa bytes"
    and i: "i < length bytes" "i < usa \<or> usa + 2 * (k + 1) \<le> i"
  shows "restored_byte ss usa [1..<k + 1] (protect_record ss k usa sequence bytes) i = bytes ! i"
proof -
  have ss: "2 < ss" and len: "length bytes = k * ss" and u: "usa + 2 * (k + 1) \<le> ss - 2"
    using lay by (auto simp: usa_layout_def)
  have q: "i div ss < k" using i(1) len by (simp add: less_mult_imp_div_less)
  show ?thesis
  proof (cases "ss - 2 \<le> i mod ss")
    case True
    define d where "d = i mod ss - (ss - 2)"
    define s where "s = i div ss + 1"
    have d: "d < 2" and pos: "i = s * ss - 2 + d" using trailer_position [OF True ss] by (simp_all add: d_def s_def)
    have s: "1 \<le> s" "s \<le> k" using q by (simp_all add: s_def)
    have "usa + 2 * s + d < ss - 2" using s(2) d u by simp
    then have "usa + 2 * s + d < length bytes"
      using trailer_before(1,2) [OF s ss] trailer_before(3) [OF s ss] unfolding len by linarith
    then have "restored_byte ss usa [1..<k + 1] (protect_record ss k usa sequence bytes) i
        = protected_byte ss k usa sequence bytes (usa + 2 * s + d)"
      using True s unfolding restored_byte_def d_def [symmetric] s_def [symmetric]
      by (simp add: protect_record_def)
    then show ?thesis using protected_saved [OF lay s d] pos by simp
  next
    case False
    with i show ?thesis by (auto simp: restored_byte_def protect_record_def protected_byte_def)
  qed
qed

lemma protected_array:
  assumes "usa_layout ss k usa bytes" and "length sequence = 2"
  shows "[protect_record ss k usa sequence bytes ! usa, protect_record ss k usa sequence bytes ! (usa + 1)] = sequence"
proof -
  have "ss \<le> k * ss" "usa + 2 * (k + 1) \<le> ss - 2" and len: "length bytes = k * ss"
    using assms by (auto simp: usa_layout_def)
  then have "usa + 1 < ss" by simp
  with \<open>ss \<le> k * ss\<close> have "usa + 1 < length bytes" unfolding len by (rule less_le_trans [rotated])
  moreover have "[sequence ! 0, sequence ! 1] = sequence"
    using assms(2) by (intro nth_equalityI) (auto simp: less_Suc_eq numeral_2_eq_2)
  ultimately show ?thesis by (simp add: protect_record_def protected_byte_def)
qed

text \<open>C7. The fixup pass on a record with a regular update-sequence array restores every sector
  trailer from the array and changes nothing else when all trailers carry the sequence number,
  and otherwise reports the first torn sector.\<close>

theorem apply_update_sequence_fixups_spec:
  assumes "usa_layout ss k usa bytes"
  shows "apply_update_sequence_fixups bytes ss =
    (case filter (sector_torn ss [bytes ! usa, bytes ! (usa + 1)] bytes) [1..<k + 1] of
       [] \<Rightarrow> Ok (restore_trailers ss usa [1..<k + 1] bytes)
     | s # _ \<Rightarrow> Err (rec_error InvalidFixup (s * ss - 2) ''sector trailer does not match update sequence''))"
  using assms by (rule fixups_spec)

text \<open>A record a writer protected (trailers saved in the update-sequence array and stamped
  with the sequence number) reads back as the original everywhere outside the array.\<close>

theorem fixups_undo_protection:
  assumes "usa_layout ss k usa bytes" and "length sequence = 2"
  shows "\<exists>out. apply_update_sequence_fixups (protect_record ss k usa sequence bytes) ss = Ok out \<and>
    length out = length bytes \<and>
    (\<forall>i<length bytes. i < usa \<or> usa + 2 * (k + 1) \<le> i \<longrightarrow> out ! i = bytes ! i)"
proof -
  let ?p = "protect_record ss k usa sequence bytes"
  have "filter (sector_torn ss [?p ! usa, ?p ! (usa + 1)] ?p) [1..<k + 1] = []"
    using protected_not_torn [OF assms] protected_array [OF assms] by simp
  then have "apply_update_sequence_fixups ?p ss = Ok (restore_trailers ss usa [1..<k + 1] ?p)"
    using fixups_spec [OF protect_layout [OF assms(1), of sequence]] by simp
  moreover have "length ?p = length bytes" by (simp add: protect_record_def)
  ultimately show ?thesis
    using protected_restored [OF assms(1)] by (auto simp: restore_trailers_def)
qed

definition sample_protected :: "u8 list" where
  "sample_protected = [0x46, 0x49, 0x4C, 0x45, 8, 0, 3, 0, 5, 1, 0xA1, 0xA2, 0xB1, 0xB2, 5, 1,
     20, 21, 22, 23, 24, 25, 26, 27, 28, 29, 30, 31, 32, 33, 5, 1]"

lemma sample_protected_layout: "usa_layout 16 2 8 sample_protected"
  by (simp add: usa_layout_def sample_protected_def u16_at_eq)

theorem apply_update_sequence_fixups_spec_witness:
  "apply_update_sequence_fixups sample_protected 16 =
     Ok [0x46, 0x49, 0x4C, 0x45, 8, 0, 3, 0, 5, 1, 0xA1, 0xA2, 0xB1, 0xB2, 0xA1, 0xA2,
     20, 21, 22, 23, 24, 25, 26, 27, 28, 29, 30, 31, 32, 33, 0xB1, 0xB2]"
  using apply_update_sequence_fixups_spec [OF sample_protected_layout]
  by (simp add: sample_protected_def sector_torn_def restore_trailers_def restored_byte_def upt_rec)

theorem fixups_undo_protection_witness:
  "\<exists>out. apply_update_sequence_fixups (protect_record 16 2 8 [7, 0] sample_protected) 16 = Ok out \<and>
    out ! 14 = 5 \<and> out ! 30 = 5 \<and> protect_record 16 2 8 [7, 0] sample_protected ! 30 = 7"
  using fixups_undo_protection [OF sample_protected_layout, of "[7, 0]"]
  by (auto simp: sample_protected_def protect_record_def protected_byte_def upt_rec)

section \<open>Accepted records\<close>

text \<open>
  What a parsed record promises the index: bounded lists, names of at most 255 units, run
  lists that are empty or start at the attribute's lowest cluster and end at its highest.
\<close>

definition runs_cover :: "u64 \<Rightarrow> u64 \<Rightarrow> data_run list \<Rightarrow> bool" where
  "runs_cover lowest highest runs \<longleftrightarrow>
     runs = [] \<or> runs_chain lowest runs \<and> unat (chain_end lowest runs) = unat highest + 1"

definition data_attribute_ok :: "data_attribute \<Rightarrow> bool" where
  "data_attribute_ok d \<longleftrightarrow>
     (if da_resident d then da_runs d = [] \<and> da_allocated_bytes d = 0
      else runs_cover (da_lowest_vcn d) (da_highest_vcn d) (da_runs d))"

text \<open>The run lists a record carries.\<close>

definition record_runs :: "file_record \<Rightarrow> data_run list list" where
  "record_runs r = map da_runs (rec_data r) @
     concat (map (\<lambda>a. case a of ListResident es \<Rightarrow> [] | ListNonResident low high _ runs \<Rightarrow> [runs]) (rec_attribute_lists r))"

definition list_entry_ok :: "attribute_list_entry \<Rightarrow> bool" where
  "list_entry_ok e \<longleftrightarrow> length (ale_name e) \<le> 255 \<and> unat (ref_record (ale_record e)) < 2 ^ 48"

definition attribute_list_ok :: "attribute_list \<Rightarrow> bool" where
  "attribute_list_ok a = (case a of
       ListResident es \<Rightarrow> \<forall>e\<in>set es. list_entry_ok e
     | ListNonResident low high _ runs \<Rightarrow> runs_cover low high runs)"

definition file_name_ok :: "file_name \<Rightarrow> bool" where
  "file_name_ok f \<longleftrightarrow> length (fn_name f) \<le> 255 \<and> unat (ref_record (fn_parent f)) < 2 ^ 48"

definition attributes_ok :: "nat \<Rightarrow> file_record \<Rightarrow> bool" where
  "attributes_ok n r \<longleftrightarrow>
     (\<forall>f\<in>set (rec_names r). file_name_ok f) \<and> (\<forall>d\<in>set (rec_data r). data_attribute_ok d) \<and>
     (\<forall>a\<in>set (rec_attribute_lists r). attribute_list_ok a) \<and>
     (rec_reparse_tag r \<noteq> None \<longrightarrow> rec_reparse_point r) \<and>
     length (rec_names r) \<le> MAX_NAMES \<and>
     length (rec_names r) + length (rec_data r) + length (rec_attribute_lists r)
       + unat (rec_named_data_attributes r) \<le> n"

lemma reference_small: "unat (ref_record (FileReference_from_raw raw)) < 2 ^ 48"
proof -
  have "raw AND 0x0000FFFFFFFFFFFF = take_bit 48 raw" by (simp add: take_bit_eq_mask mask_eq_exp_minus_1)
  then have "ref_record (FileReference_from_raw raw) = take_bit 48 raw"
    by (simp add: FileReference_from_raw_def)
  then show ?thesis using take_bit_nat_less_exp [of 48 "unat raw"]
    by (simp add: unsigned_take_bit_eq)
qed

lemma byte_length: "unat (b :: u8) \<le> 255"
proof -
  have "unat b < 2 ^ LENGTH(8)" by (rule unsigned_less)
  then show ?thesis by simp
qed

lemma attribute_name_length: "attribute_name bytes n off base = Ok name \<Longrightarrow> length name = n"
  unfolding attribute_name_def
  by (auto simp: outcome_simps arith_word split: if_splits dest!: field_range_length)

lemma parse_file_name_ok: "parse_file_name bytes base = Ok f \<Longrightarrow> file_name_ok f"
  unfolding parse_file_name_def
  by (elim run_elims) (auto simp: file_name_ok_def reference_small [simplified] byte_length arith_word outcome_simps dest!: field_range_length)

lemma chain_end_last:
  "runs \<noteq> [] \<Longrightarrow> runs_chain v runs \<Longrightarrow>
     chain_end v runs = run_vcn (last runs) + run_cluster_count (last runs)"
  by (induction v runs rule: chain_end.induct) (auto split: if_splits)

lemma mapping_pairs_cover:
  assumes "parse_mapping_pairs bytes lowest = Ok runs"
    and "runs \<noteq> [] \<Longrightarrow> checked_add (run_vcn (last runs)) (run_cluster_count (last runs)) = Some stop
           \<and> checked_sub stop 1 = Some highest"
  shows "runs_cover lowest highest runs"
proof -
  have chain: "runs_chain lowest runs"
    using assms(1) unfolding parse_mapping_pairs_def by (rule mapping_pairs_loop_chain) simp_all
  have "unat (chain_end lowest runs) = unat highest + 1" if "runs \<noteq> []"
    using assms(2) [OF that] chain_end_last [OF that chain] by (auto simp: arith_word unat_add_no_overflow)
  with chain show ?thesis by (auto simp: runs_cover_def)
qed

lemma runs_cover_Nil: "runs_cover low high []"
  by (simp add: runs_cover_def)

lemma parse_non_resident_ok:
  "parse_non_resident bytes flags base incl = Ok d \<Longrightarrow>
     \<not> da_resident d \<and> runs_cover (da_lowest_vcn d) (da_highest_vcn d) (da_runs d)"
  unfolding parse_non_resident_def Let_def
  by (elim run_elims) (auto simp: outcome_simps runs_cover_Nil split: if_splits option.splits
     intro: mapping_pairs_cover)


lemma parse_non_resident_without_runs: "parse_non_resident bytes flags base False = Ok d \<Longrightarrow> da_runs d = []"
  unfolding parse_non_resident_def Let_def by (elim run_elims) (auto simp: outcome_simps)

lemma empty_pairs: "parse_mapping_pairs (0 # bytes) lowest = Ok []"
  unfolding parse_mapping_pairs_def
  by (subst mapping_pairs_loop.simps) (simp add: mapping_pair_def get_at_def cong: obind_weak_cong)

text \<open>
  The highest cluster is compared only with the last run: without runs any declared range passes.
\<close>

lemma empty_runlist_any_range:
  assumes "64 \<le> unat mapping" and "unat mapping < length bytes" and "u16_at bytes 32 = Ok mapping" and "bytes ! unat mapping = 0"
    and "u64_at bytes 16 = Ok lowest" and "u64_at bytes 24 = Ok highest" and "u64_at bytes 40 = Ok allocated"
    and "u64_at bytes 48 = Ok logical" and "u64_at bytes 56 = Ok initialized"
  shows "\<exists>d. parse_non_resident bytes flags base True = Ok d \<and> da_lowest_vcn d = lowest \<and> da_highest_vcn d = highest \<and>
    da_logical_bytes d = logical \<and> da_runs d = []"
proof -
  have mapping: "sub_slice bytes (unat mapping) (length bytes) = Ok (0 # drop (Suc (unat mapping)) bytes)"
    using assms(2) Cons_nth_drop_Suc [OF assms(2)] by (simp add: sub_slice_def slice_def assms(4))
  show ?thesis
    using assms(1,2) by (simp add: parse_non_resident_def Let_def assms(3,5-) mapping empty_pairs)
qed

lemma attribute_list_step_ok:
  "attribute_list_step bytes base cursor = Ok (Some (entry, len)) \<Longrightarrow> list_entry_ok entry"
  unfolding attribute_list_step_def Let_def list_entry_ok_def
  by (auto simp: outcome_simps reference_small [simplified] byte_length split: if_splits
      dest!: attribute_name_length)

lemma attribute_list_loop_ok:
  assumes "attribute_list_loop bytes base cursor entries = Ok out"
    and "\<forall>e\<in>set entries. list_entry_ok e"
  shows "\<forall>e\<in>set out. list_entry_ok e"
  using assms
proof (induction bytes base cursor entries rule: attribute_list_loop.induct)
  case (1 bytes base cursor entries)
  show ?case
  proof (cases "cursor < length bytes")
    case False
    with "1.prems" show ?thesis by (subst (asm) attribute_list_loop.simps) simp
  next
    case True
    with "1.prems"(1) obtain step where step: "attribute_list_step bytes base cursor = Ok step"
      and rest: "(case step of None \<Rightarrow> Ok entries
         | Some (entry, len) \<Rightarrow> attribute_list_loop bytes base (cursor + len) (entries @ [entry])) = Ok out"
      by (subst (asm) attribute_list_loop.simps) (auto simp: outcome_simps)
    show ?thesis
    proof (cases step)
      case None
      with rest "1.prems"(2) show ?thesis by simp
    next
      case (Some s)
      then obtain entry len where s: "step = Some (entry, len)" by (cases s) auto
      have "list_entry_ok entry" using attribute_list_step_ok step s by simp
      with "1.IH" [OF True step s refl] rest s "1.prems"(2) show ?thesis by simp
    qed
  qed
qed

lemma parse_attribute_list_ok: "parse_attribute_list bytes base = Ok out \<Longrightarrow> \<forall>e\<in>set out. list_entry_ok e"
  unfolding parse_attribute_list_def by (erule attribute_list_loop_ok) simp


text \<open>The ways one attribute changes the record.\<close>

inductive attribute_effect :: "bool \<Rightarrow> file_record \<Rightarrow> file_record \<Rightarrow> bool" for incl where
  "attribute_effect incl r r"
| "attribute_effect incl r (r\<lparr>rec_modified_ticks := Some t\<rparr>)"
| "length (rec_names r) < MAX_NAMES \<Longrightarrow> parse_file_name value base = Ok f \<Longrightarrow>
     attribute_effect incl r (r\<lparr>rec_names := rec_names r @ [f]\<rparr>)"
| "attribute_effect incl r (r\<lparr>rec_named_data_attributes := saturating_add (rec_named_data_attributes r) 1\<rparr>)"
| "attribute_effect incl r (r\<lparr>rec_data := rec_data r @
            [\<lparr>da_lowest_vcn = 0, da_highest_vcn = 0, da_logical_bytes = of_nat len,
              da_allocated_bytes = 0, da_initialized_bytes = of_nat len,
              da_resident = True, da_sparse = False, da_compressed = False, da_runs = []\<rparr>]\<rparr>)"
| "parse_non_resident bytes flags base incl = Ok d \<Longrightarrow>
     attribute_effect incl r (r\<lparr>rec_data := rec_data r @ [d]\<rparr>)"
| "parse_attribute_list value base = Ok entries \<Longrightarrow>
     attribute_effect incl r (r\<lparr>rec_attribute_lists := rec_attribute_lists r @ [ListResident entries]\<rparr>)"
| "parse_non_resident bytes flags base incl = Ok d \<Longrightarrow>
     attribute_effect incl r (r\<lparr>rec_attribute_lists := rec_attribute_lists r @
            [ListNonResident (da_lowest_vcn d) (da_highest_vcn d) (da_logical_bytes d) (da_runs d)]\<rparr>)"
| "attribute_effect incl r (r\<lparr>rec_reparse_point := True, rec_reparse_tag := Some tag\<rparr>)"
| "attribute_effect incl r (r\<lparr>rec_reparse_point := True\<rparr>)"

lemma parse_attribute_effect:
  assumes "parse_attribute bytes ty r base incl = Ok r'"
  shows "attribute_effect incl r r'"
  using assms unfolding parse_attribute_def Let_def
  by (elim obind_OkE if_OkE ok_or_OkE) (auto intro: attribute_effect.intros)

lemma attribute_effect_ok:
  "attribute_effect incl r r' \<Longrightarrow> attributes_ok n r \<Longrightarrow> attributes_ok (n + 1) r'"
proof (induction rule: attribute_effect.induct)
qed (auto simp: attributes_ok_def arith_word data_attribute_ok_def attribute_list_ok_def
     dest: parse_file_name_ok parse_non_resident_ok parse_attribute_list_ok)


lemma attribute_step_effect:
  "attribute_step fixed used incl cursor n r = Ok (Some (r', stop)) \<Longrightarrow>
     attribute_effect incl r r' \<and> n < MAX_ATTRIBUTES"
  unfolding attribute_step_def Let_def
  by (elim obind_OkE if_OkE ok_or_OkE) (auto dest: parse_attribute_effect)

text \<open>The attribute loop: what every attribute preserves holds of the record it returns.\<close>

lemma attribute_loop_invariant:
  assumes "attribute_loop fixed used incl cursor n r = Ok out" and "keeps n r" and "n \<le> MAX_ATTRIBUTES"
    and "\<And>n r r'. attribute_effect incl r r' \<Longrightarrow> keeps n r \<Longrightarrow> n < MAX_ATTRIBUTES \<Longrightarrow> keeps (n + 1) r'"
  shows "\<exists>m\<le>MAX_ATTRIBUTES. keeps m out"
  using assms
proof (induction fixed used incl cursor n r rule: attribute_loop.induct)
  case (1 fixed used incl cursor n r)
  from "1.prems"(1) obtain step where c: "cursor < used"
    and step: "attribute_step fixed used incl cursor n r = Ok step"
    and rest: "(case step of None \<Rightarrow> Ok r
       | Some (r', stop) \<Rightarrow> attribute_loop fixed used incl stop (Suc n) r') = Ok out"
    unfolding attribute_loop.simps [of fixed used incl cursor n r]
    by (auto simp: outcome_simps split: if_splits)
  show ?case
  proof (cases step)
    case None
    with rest "1.prems" show ?thesis by auto
  next
    case (Some s)
    then obtain r' stop where s: "step = Some (r', stop)" by (cases s) auto
    have e: "attribute_effect incl r r' \<and> n < MAX_ATTRIBUTES"
      by (rule attribute_step_effect) (rule step [unfolded s])
    have k: "keeps (n + 1) r'" by (rule "1.prems"(4) [OF conjunct1 [OF e] "1.prems"(2) conjunct2 [OF e]])
    have m: "n + 1 \<le> MAX_ATTRIBUTES" using e by simp
    have l: "attribute_loop fixed used incl stop (n + 1) r' = Ok out" using rest s by simp
    show ?thesis by (rule "1.IH" [OF c step s refl l k m "1.prems"(4)])
  qed
qed


definition file_record_ok :: "record_parse_options \<Rightarrow> file_record \<Rightarrow> bool" where
  "file_record_ok options r \<longleftrightarrow>
     attributes_ok MAX_ATTRIBUTES r \<and> unat (rec_record_number r) < 2 ^ 32 \<and>
     (\<forall>n. opt_expected_record_number options = Some n \<longrightarrow> rec_record_number r = n) \<and>
     (\<not> rec_in_use r \<longrightarrow> rec_names r = [] \<and> rec_data r = [] \<and> rec_attribute_lists r = []) \<and>
     (\<not> opt_include_data_runs options \<longrightarrow> (\<forall>runs\<in>set (record_runs r). runs = [])) \<and>
     (\<forall>b. rec_base_reference r = Some b \<longrightarrow> \<not> FileReference_is_zero b)"

text \<open>The record's header, which no attribute changes.\<close>

definition same_header :: "file_record \<Rightarrow> file_record \<Rightarrow> bool" where
  "same_header r s \<longleftrightarrow> rec_record_number s = rec_record_number r \<and> rec_sequence s = rec_sequence r \<and>
     rec_hard_link_count s = rec_hard_link_count r \<and> rec_in_use s = rec_in_use r \<and>
     rec_directory s = rec_directory r \<and> rec_base_reference s = rec_base_reference r"

lemma attribute_effect_header: "attribute_effect incl r r' \<Longrightarrow> same_header r r'"
  by (induction rule: attribute_effect.induct) (simp_all add: same_header_def)

lemma attribute_effect_without_runs:
  "attribute_effect incl r r' \<Longrightarrow> \<not> incl \<Longrightarrow> \<forall>runs\<in>set (record_runs r). runs = [] \<Longrightarrow> \<forall>runs\<in>set (record_runs r'). runs = []"
  by (cases rule: attribute_effect.cases, assumption) (auto simp: record_runs_def dest: parse_non_resident_without_runs)

lemma attributes_ok_mono: "attributes_ok n r \<Longrightarrow> n \<le> m \<Longrightarrow> attributes_ok m r"
  by (auto simp: attributes_ok_def)

lemma attribute_loop_ok:
  assumes "attribute_loop fixed used incl cursor 0 r = Ok out" and "attributes_ok 0 r" and "record_runs r = []"
  shows "attributes_ok MAX_ATTRIBUTES out \<and> same_header r out \<and> (\<not> incl \<longrightarrow> (\<forall>runs\<in>set (record_runs out). runs = []))"
proof -
  let ?keeps = "\<lambda>n s. attributes_ok n s \<and> same_header r s \<and> (\<not> incl \<longrightarrow> (\<forall>runs\<in>set (record_runs s). runs = []))"
  have "\<exists>m\<le>MAX_ATTRIBUTES. ?keeps m out"
  proof (rule attribute_loop_invariant [OF assms(1), of ?keeps])
    show "?keeps 0 r" using assms(2,3) by (simp add: same_header_def)
    show "?keeps (n + 1) s'" if "attribute_effect incl s s'" "?keeps n s" for n s s'
      using that(2) attribute_effect_ok [OF that(1)] attribute_effect_header [OF that(1)] attribute_effect_without_runs [OF that(1)]
      by (auto simp: same_header_def)
  qed simp
  then show ?thesis using attributes_ok_mono by blast
qed

text \<open>C11. Every FILE record the parser accepts is within its limits: at most 256 names of at most
  255 units, at most 1,024 attributes in all, 48-bit references, the expected record number, and
  nothing parsed of a deleted record.  Each run list is either empty, which the parser accepts
  with any declared range, or it starts at the declared lowest cluster, has no gap and ends at the declared
  highest one; where the run lists were not asked for, all are empty.\<close>

theorem parse_file_record_ok:
  assumes "parse_file_record bytes options = Ok r"
  shows "file_record_ok options r"
proof -
  obtain fixed used first number base_raw r0 where
      fields: "rec_record_number r0 = ucast (number :: u32)" "rec_names r0 = []" "rec_data r0 = []"
        "rec_attribute_lists r0 = []" "rec_reparse_tag r0 = None" "rec_named_data_attributes r0 = 0"
        "rec_base_reference r0 = (if FileReference_is_zero base_raw then None else Some base_raw)"
    and expected: "\<forall>n. opt_expected_record_number options = Some n \<longrightarrow> rec_record_number r0 = n"
    and run: "(if \<not> rec_in_use r0 then Ok r0
       else attribute_loop fixed used (opt_include_data_runs options) first 0 r0) = Ok r"
    using assms unfolding parse_file_record_def parse_file_record_in_place_def Let_def
    apply (elim run_elims)
    apply (rule that)
            prefer 9 apply assumption
           apply (simp_all split: option.splits)
    done
  have start: "attributes_ok 0 r0" using fields by (simp add: attributes_ok_def)
  have runs: "record_runs r0 = []" using fields by (simp add: record_runs_def)
  have "attributes_ok MAX_ATTRIBUTES r \<and> same_header r0 r \<and> (\<not> rec_in_use r0 \<longrightarrow> r = r0) \<and>
      (\<not> opt_include_data_runs options \<longrightarrow> (\<forall>runs\<in>set (record_runs r). runs = []))"
  proof (cases "rec_in_use r0")
    case True
    with run attribute_loop_ok [OF _ start runs] show ?thesis by simp
  next
    case False
    with run start runs show ?thesis using attributes_ok_mono [OF start] by (auto simp: same_header_def)
  qed
  moreover have "unat (ucast number :: u64) < 2 ^ 32"
    using unsigned_less [of number, where ?'a = nat] by (simp add: unat_ucast_up)
  ultimately show ?thesis
    using fields expected by (auto simp: file_record_ok_def same_header_def split: if_splits)
qed

text \<open>A 512-byte record in use, holding one resident standard-information attribute.\<close>

definition sample_record_used :: "u8 list" where
  "sample_record_used =
     [0x46, 0x49, 0x4C, 0x45, 48, 0, 2, 0] @ replicate 8 0 @ [3, 0, 1, 0, 56, 0, 1, 0, 104, 0, 0, 0]
     @ replicate 16 0 @ [42, 0, 0, 0] @ [7, 0, 0, 0, 0, 0, 0, 0]
     @ [0x10, 0, 0, 0, 40, 0, 0, 0, 0, 0, 24, 0, 0, 0, 0, 0, 16, 0, 0, 0, 24, 0, 0, 0]
     @ replicate 8 0 @ [1, 2, 0, 0, 0, 0, 0, 0] @ [0xFF, 0xFF, 0xFF, 0xFF, 0, 0, 0, 0]"

definition sample_record :: "u8 list" where
  "sample_record = sample_record_used @ replicate 406 0 @ [7, 0]"

definition sample_record_fixed :: "u8 list" where
  "sample_record_fixed = sample_record_used @ replicate 406 0 @ [0, 0]"

lemma sample_record_fixups: "apply_update_sequence_fixups sample_record 512 = Ok sample_record_fixed"
  by (simp add: apply_update_sequence_fixups_def u16_at_eq sample_record_def sample_record_fixed_def
     sample_record_used_def usize_checked_mul_def usize_checked_add_def usize_checked_sub_def idx_def
     nth_append slice_def upt_rec list_update_append cong: obind_weak_cong)

lemma le_word_zeros [simp]: "le_word (replicate n 0) = 0"
  by (induction n) simp_all

lemma sample_record_fields:
  "u16_at sample_record_fixed 20 = Ok 56" "u16_at sample_record_fixed 22 = Ok 1"
  "u32_at sample_record_fixed 24 = Ok 104" "u32_at sample_record_fixed 44 = Ok 42"
  "u64_at sample_record_fixed 32 = Ok 0" "u16_at sample_record_fixed 16 = Ok 3"
  "u16_at sample_record_fixed 18 = Ok 1" "length sample_record_fixed = 512"
  "u32_at sample_record_fixed 56 = Ok 16" "u32_at sample_record_fixed 60 = Ok 40"
  "u32_at sample_record_fixed 96 = Ok 0xFFFFFFFF"
  by (simp_all add: u16_at_eq u32_at_def u64_at_def field_range_def sample_record_fixed_def
     sample_record_used_def eval_simps nth_append cong: obind_weak_cong)

lemma sample_record_attribute:
  "sub_slice sample_record_fixed 56 96 = Ok ([0x10, 0, 0, 0, 40, 0, 0, 0, 0, 0, 24, 0, 0, 0, 0, 0, 16, 0, 0, 0, 24, 0, 0, 0]
     @ [0, 0, 0, 0, 0, 0, 0, 0] @ [1, 2, 0, 0, 0, 0, 0, 0])"
  by (simp add: sample_record_fixed_def sample_record_used_def eval_simps numeral_eq_Suc)

lemma sample_record_parsed:
  "parse_file_record sample_record (RecordParseOptions_new 512) =
     Ok \<lparr>rec_record_number = 42, rec_sequence = 3, rec_hard_link_count = 1, rec_in_use = True,
         rec_directory = False, rec_reparse_point = False, rec_reparse_tag = None,
         rec_base_reference = None, rec_modified_ticks = Some 513, rec_names = [], rec_data = [],
         rec_attribute_lists = [], rec_named_data_attributes = 0\<rparr>"
proof -
  have attr: "parse_attribute ([0x10, 0, 0, 0, 40, 0, 0, 0, 0, 0, 24, 0, 0, 0, 0, 0, 16, 0, 0, 0, 24, 0, 0, 0]
     @ [0, 0, 0, 0, 0, 0, 0, 0] @ [1, 2, 0, 0, 0, 0, 0, 0]) 16 r 56 True = Ok (r\<lparr>rec_modified_ticks := Some 513\<rparr>)" for r
    by (simp add: parse_attribute_def byte_at_def u16_at_eq
      attribute_name_def ATTRIBUTE_STANDARD_INFORMATION_def resident_value_def u32_at_def u64_at_def
      field_range_def get_at_def slice_def usize_checked_add_def cong: obind_weak_cong)
  have loop: "attribute_loop sample_record_fixed 104 True 56 0 r = Ok (r\<lparr>rec_modified_ticks := Some 513\<rparr>)" for r
    using attr by (simp add: attribute_loop.simps attribute_step_def sample_record_fields sample_record_attribute
      ATTRIBUTE_END_def MAX_ATTRIBUTES_def usize_checked_add_def cong: obind_weak_cong)
  have len: "length sample_record = 512"
    and sig: "sub_slice sample_record 0 4 = Ok FILE_SIGNATURE"
    by (simp_all add: sample_record_def sample_record_used_def FILE_SIGNATURE_def eval_simps)
  show ?thesis
    by (simp add: parse_file_record_def parse_file_record_in_place_def len sig sample_record_fixups
      sample_record_fields loop MAX_RECORD_BYTES_def RecordParseOptions_new_def is_power_of_two.simps
      FileReference_from_raw_def FileReference_is_zero_def RECORD_IN_USE_def RECORD_DIRECTORY_def
      RECORD_REPARSE_def cong: obind_weak_cong)
qed

text \<open>The same record with a non-resident data attribute of three clusters at cluster 100.\<close>

definition sample_runs_used :: "u8 list" where
  "sample_runs_used =
     [0x46, 0x49, 0x4C, 0x45, 48, 0, 2, 0] @ replicate 8 0 @ [3, 0, 1, 0, 56, 0, 1, 0, 136, 0, 0, 0]
     @ replicate 16 0 @ [42, 0, 0, 0] @ [7, 0, 0, 0, 0, 0, 0, 0]
     @ [0x80, 0, 0, 0, 72, 0, 0, 0, 1, 0, 0, 0, 0, 0, 0, 0] @ replicate 8 0 @ [2, 0, 0, 0, 0, 0, 0, 0]
     @ [64, 0, 0, 0, 0, 0, 0, 0] @ [0, 0x30, 0, 0, 0, 0, 0, 0] @ [0, 0x28, 0, 0, 0, 0, 0, 0] @ [0, 0x28, 0, 0, 0, 0, 0, 0]
     @ [0x11, 3, 100, 0, 0, 0, 0, 0] @ [0xFF, 0xFF, 0xFF, 0xFF, 0, 0, 0, 0]"

definition sample_runs_record :: "u8 list" where
  "sample_runs_record = sample_runs_used @ replicate 374 0 @ [7, 0]"

definition sample_runs_fixed :: "u8 list" where
  "sample_runs_fixed = sample_runs_used @ replicate 374 0 @ [0, 0]"

definition sample_data_attribute :: "u8 list" where
  "sample_data_attribute = [0x80, 0, 0, 0, 72, 0, 0, 0, 1, 0, 0, 0, 0, 0, 0, 0] @ replicate 8 0 @ [2, 0, 0, 0, 0, 0, 0, 0]
     @ [64, 0, 0, 0, 0, 0, 0, 0] @ [0, 0x30, 0, 0, 0, 0, 0, 0] @ [0, 0x28, 0, 0, 0, 0, 0, 0] @ [0, 0x28, 0, 0, 0, 0, 0, 0]
     @ [0x11, 3, 100, 0, 0, 0, 0, 0]"

definition sample_data :: data_attribute where
  "sample_data = \<lparr>da_lowest_vcn = 0, da_highest_vcn = 2, da_logical_bytes = 0x2800, da_allocated_bytes = 0x3000,
     da_initialized_bytes = 0x2800, da_resident = False, da_sparse = False, da_compressed = False,
     da_runs = [\<lparr>run_vcn = 0, run_cluster_count = 3, run_lcn = Some 100\<rparr>]\<rparr>"

definition sample_runs_parsed :: file_record where
  "sample_runs_parsed = \<lparr>rec_record_number = 42, rec_sequence = 3, rec_hard_link_count = 1, rec_in_use = True,
     rec_directory = False, rec_reparse_point = False, rec_reparse_tag = None,
     rec_base_reference = None, rec_modified_ticks = None, rec_names = [], rec_data = [sample_data],
     rec_attribute_lists = [], rec_named_data_attributes = 0\<rparr>"

lemma sample_runs_fixups: "apply_update_sequence_fixups sample_runs_record 512 = Ok sample_runs_fixed"
  by (simp add: apply_update_sequence_fixups_def u16_at_eq sample_runs_record_def sample_runs_fixed_def
     sample_runs_used_def usize_checked_mul_def usize_checked_add_def usize_checked_sub_def idx_def
     nth_append slice_def upt_rec list_update_append cong: obind_weak_cong)

lemma sample_runs_fields:
  "u16_at sample_runs_fixed 20 = Ok 56" "u16_at sample_runs_fixed 22 = Ok 1"
  "u32_at sample_runs_fixed 24 = Ok 136" "u32_at sample_runs_fixed 44 = Ok 42"
  "u64_at sample_runs_fixed 32 = Ok 0" "u16_at sample_runs_fixed 16 = Ok 3"
  "u16_at sample_runs_fixed 18 = Ok 1" "length sample_runs_fixed = 512"
  "u32_at sample_runs_fixed 56 = Ok 0x80" "u32_at sample_runs_fixed 60 = Ok 72"
  "u32_at sample_runs_fixed 128 = Ok 0xFFFFFFFF"
  by (simp_all add: u16_at_eq u32_at_def u64_at_def field_range_def sample_runs_fixed_def
     sample_runs_used_def eval_simps nth_append cong: obind_weak_cong)

lemma sample_runs_attribute: "sub_slice sample_runs_fixed 56 128 = Ok sample_data_attribute"
  by (simp add: sample_runs_fixed_def sample_runs_used_def sample_data_attribute_def eval_simps numeral_eq_Suc)

lemma sample_data_fields:
  "length sample_data_attribute = 72" "u64_at sample_data_attribute 16 = Ok 0" "u64_at sample_data_attribute 24 = Ok 2"
  "u16_at sample_data_attribute 32 = Ok 64" "u64_at sample_data_attribute 40 = Ok 0x3000"
  "u64_at sample_data_attribute 48 = Ok 0x2800" "u64_at sample_data_attribute 56 = Ok 0x2800"
  "sub_slice sample_data_attribute 64 72 = Ok [0x11, 3, 100, 0, 0, 0, 0, 0]"
  "byte_at sample_data_attribute 8 = Ok 1" "byte_at sample_data_attribute 9 = Ok 0" "u16_at sample_data_attribute 10 = Ok 0"
  "u16_at sample_data_attribute 12 = Ok 0"
  by (simp_all add: u16_at_eq u64_at_def byte_at_def get_at_def field_range_def sample_data_attribute_def eval_simps nth_append
     cong: obind_weak_cong)

lemma sample_data_runs:
  "parse_mapping_pairs [0x11, 3, 100, 0, 0, 0, 0, 0] 0 = Ok [\<lparr>run_vcn = 0, run_cluster_count = 3, run_lcn = Some 100\<rparr>]"
  by (simp add: eval_simps cong: obind_weak_cong)

lemma sample_runs_applied: "parse_file_record sample_runs_record (RecordParseOptions_new 512) = Ok sample_runs_parsed"
proof -
  have data: "parse_non_resident sample_data_attribute 0 56 True = Ok sample_data"
    by (simp add: parse_non_resident_def sample_data_fields sample_data_runs sample_data_def checked_add_def checked_sub_def)
  have attr: "parse_attribute sample_data_attribute 0x80 r 56 True = Ok (r\<lparr>rec_data := rec_data r @ [sample_data]\<rparr>)" for r
    by (simp add: parse_attribute_def sample_data_fields data attribute_name_def ATTRIBUTE_STANDARD_INFORMATION_def
      ATTRIBUTE_FILE_NAME_def ATTRIBUTE_DATA_def)
  have loop: "attribute_loop sample_runs_fixed 136 True 56 0 r = Ok (r\<lparr>rec_data := rec_data r @ [sample_data]\<rparr>)" for r
    using attr by (simp add: attribute_loop.simps attribute_step_def sample_runs_fields sample_runs_attribute
      ATTRIBUTE_END_def MAX_ATTRIBUTES_def usize_checked_add_def cong: obind_weak_cong)
  have len: "length sample_runs_record = 512"
    and sig: "sub_slice sample_runs_record 0 4 = Ok FILE_SIGNATURE"
    by (simp_all add: sample_runs_record_def sample_runs_used_def FILE_SIGNATURE_def eval_simps)
  show ?thesis
    by (simp add: parse_file_record_def parse_file_record_in_place_def len sig sample_runs_fixups sample_runs_parsed_def
      sample_runs_fields loop MAX_RECORD_BYTES_def RecordParseOptions_new_def is_power_of_two.simps
      FileReference_from_raw_def FileReference_is_zero_def RECORD_IN_USE_def RECORD_DIRECTORY_def
      RECORD_REPARSE_def cong: obind_weak_cong)
qed

theorem parse_file_record_ok_witness:
  "file_record_ok (RecordParseOptions_new 512) sample_runs_parsed \<and>
    record_runs sample_runs_parsed = [[\<lparr>run_vcn = 0, run_cluster_count = 3, run_lcn = Some 100\<rparr>]]"
  using parse_file_record_ok [OF sample_runs_applied] by (simp add: record_runs_def sample_runs_parsed_def sample_data_def)

section \<open>The metadata-only pass\<close>

text \<open>
  How the record parsed without run lists relates to the full one: run lists are empty, and the
  sparse flag of an attribute is then read off its header only.
\<close>

definition metadata_only :: "data_attribute \<Rightarrow> data_attribute \<Rightarrow> bool" where
  "metadata_only full meta \<longleftrightarrow>
     meta = full\<lparr>da_sparse := da_sparse meta, da_runs := []\<rparr> \<and> (da_sparse meta \<longrightarrow> da_sparse full)"

fun forget_list_runs :: "attribute_list \<Rightarrow> attribute_list" where
  "forget_list_runs (ListResident entries) = ListResident entries"
| "forget_list_runs (ListNonResident low high logical runs) = ListNonResident low high logical []"

definition metadata_record :: "file_record \<Rightarrow> file_record \<Rightarrow> bool" where
  "metadata_record full meta \<longleftrightarrow>
     meta = full\<lparr>rec_data := rec_data meta,
                 rec_attribute_lists := map forget_list_runs (rec_attribute_lists full)\<rparr> \<and>
     list_all2 metadata_only (rec_data full) (rec_data meta)"

lemma parse_non_resident_metadata:
  assumes "parse_non_resident bytes flags base True = Ok full"
  shows "\<exists>meta. parse_non_resident bytes flags base False = Ok meta \<and> metadata_only full meta"
  using assms unfolding parse_non_resident_def Let_def
  by (elim run_elims) (auto simp: metadata_only_def)

lemma metadata_only_fields:
  assumes "metadata_only full meta"
  shows "da_lowest_vcn meta = da_lowest_vcn full" "da_highest_vcn meta = da_highest_vcn full"
    "da_logical_bytes meta = da_logical_bytes full" "da_runs meta = []"
proof -
  have m: "meta = full\<lparr>da_sparse := da_sparse meta, da_runs := []\<rparr>"
    using assms by (simp add: metadata_only_def)
  show "da_lowest_vcn meta = da_lowest_vcn full" "da_highest_vcn meta = da_highest_vcn full"
    "da_logical_bytes meta = da_logical_bytes full" "da_runs meta = []"
    by (subst m, simp)+
qed

lemma metadata_only_refl: "da_runs d = [] \<Longrightarrow> metadata_only d d"
  by (simp add: metadata_only_def)

lemma metadata_recordE:
  assumes "metadata_record full meta"
  obtains ds where "meta = full\<lparr>rec_data := ds, rec_attribute_lists := map forget_list_runs (rec_attribute_lists full)\<rparr>"
    and "list_all2 metadata_only (rec_data full) ds"
  using assms unfolding metadata_record_def by blast

lemma metadata_recordI:
  assumes "list_all2 metadata_only (rec_data full) ds"
  shows "metadata_record full (full\<lparr>rec_data := ds, rec_attribute_lists := map forget_list_runs (rec_attribute_lists full)\<rparr>)"
  using assms by (simp add: metadata_record_def)

lemma parse_attribute_metadata:
  assumes "parse_attribute bytes ty r base True = Ok full" and "metadata_record r m"
  shows "\<exists>meta. parse_attribute bytes ty m base False = Ok meta \<and> metadata_record full meta"
  using assms(2)
proof (rule metadata_recordE)
  fix ds
  assume m: "m = r\<lparr>rec_data := ds, rec_attribute_lists := map forget_list_runs (rec_attribute_lists r)\<rparr>"
    and d: "list_all2 metadata_only (rec_data r) ds"
  show ?thesis
    using assms(1) d unfolding parse_attribute_def Let_def m
    by (elim obind_OkE if_OkE ok_or_OkE)
      (auto simp: metadata_record_def list_all2_appendI metadata_only_refl metadata_only_fields
        dest!: parse_non_resident_metadata)
qed


lemma attribute_step_metadata:
  assumes "attribute_step fixed used True cursor n r = Ok step" and "metadata_record r m"
  shows "\<exists>step'. attribute_step fixed used False cursor n m = Ok step' \<and>
    rel_option (rel_prod metadata_record (=)) step step'"
proof (cases step)
  case None
  with assms(1) show ?thesis unfolding attribute_step_def Let_def
    by (elim obind_OkE if_OkE ok_or_OkE) auto
next
  case (Some s)
  with assms show ?thesis unfolding attribute_step_def Let_def
    by (elim obind_OkE if_OkE ok_or_OkE) (auto dest!: parse_attribute_metadata)
qed

lemma attribute_loop_metadata:
  assumes "attribute_loop fixed used True cursor n r = Ok full" and "metadata_record r m"
  shows "\<exists>meta. attribute_loop fixed used False cursor n m = Ok meta \<and> metadata_record full meta"
  using assms
proof (induction fixed used True cursor n r arbitrary: m rule: attribute_loop.induct)
  case (1 fixed used cursor n r)
  from "1.prems"(1) obtain step where c: "cursor < used"
    and step: "attribute_step fixed used True cursor n r = Ok step"
    and rest: "(case step of None \<Rightarrow> Ok r
       | Some (r', stop) \<Rightarrow> attribute_loop fixed used True stop (Suc n) r') = Ok full"
    unfolding attribute_loop.simps [of fixed used True cursor n r]
    by (auto simp: outcome_simps split: if_splits)
  obtain step' where step': "attribute_step fixed used False cursor n m = Ok step'"
    and rel: "rel_option (rel_prod metadata_record (=)) step step'"
    using attribute_step_metadata [OF step "1.prems"(2)] by blast
  show ?case
  proof (cases step)
    case None
    with rest rel step' c "1.prems"(2) show ?thesis by (subst attribute_loop.simps) simp
  next
    case (Some s)
    then obtain r' m' stop where s: "step = Some (r', stop)" "step' = Some (m', stop)"
        and sim: "metadata_record r' m'"
      using rel by (cases s) (auto simp: option_rel_Some1 rel_prod_conv split: prod.splits)
    have "attribute_loop fixed used True stop (n + 1) r' = Ok full" using rest s by simp
    from "1.hyps" [OF c step s(1) refl this sim] show ?thesis
      using c step' s by (subst attribute_loop.simps) simp
  qed
qed

text \<open>Whenever the full pass accepts a record, the metadata-only pass accepts it too and
  returns the same record without the run lists; an attribute it calls sparse is sparse.\<close>

theorem parse_file_record_metadata_only:
  assumes "parse_file_record bytes \<lparr>opt_bytes_per_sector = ss, opt_expected_record_number = num,
      opt_include_data_runs = True\<rparr> = Ok full"
  shows "\<exists>meta. parse_file_record bytes \<lparr>opt_bytes_per_sector = ss, opt_expected_record_number = num,
      opt_include_data_runs = False\<rparr> = Ok meta \<and> metadata_record full meta"
proof -
  have start: "metadata_record r r" if "rec_data r = []" "rec_attribute_lists r = []" for r
    using that by (simp add: metadata_record_def)
  show ?thesis
    using assms unfolding parse_file_record_def parse_file_record_in_place_def Let_def
    by (elim run_elims) (auto intro: start elim!: attribute_loop_metadata split: if_splits)
qed


theorem parse_file_record_metadata_only_witness:
  "\<exists>full meta. parse_file_record sample_record \<lparr>opt_bytes_per_sector = 512,
       opt_expected_record_number = None, opt_include_data_runs = False\<rparr> = Ok meta \<and>
     metadata_record full meta \<and> rec_modified_ticks full = Some 513"
  using parse_file_record_metadata_only [OF sample_record_parsed [unfolded RecordParseOptions_new_def]]
  by force

section \<open>Names and reparse tags\<close>

text \<open>The links shown to users: every parent directory that names the file keeps at least one
  link, a DOS alias is shown only when its parent has no other name, and the order is the record's.\<close>

theorem meaningful_names_cover:
  "fn_parent ` set (meaningful_names r) = fn_parent ` set (rec_names r) \<and>
   (\<forall>f\<in>set (meaningful_names r). is_dos_only (fn_namespace f) \<longrightarrow>
      (\<forall>g\<in>set (rec_names r). fn_parent g = fn_parent f \<longrightarrow> is_dos_only (fn_namespace g))) \<and>
   subseq (meaningful_names r) (rec_names r)"
proof (intro conjI)
  show "fn_parent ` set (meaningful_names r) = fn_parent ` set (rec_names r)"
  proof
    show "fn_parent ` set (rec_names r) \<subseteq> fn_parent ` set (meaningful_names r)"
    proof
      fix p assume "p \<in> fn_parent ` set (rec_names r)"
      then obtain f where f: "f \<in> set (rec_names r)" "fn_parent f = p" by auto
      show "p \<in> fn_parent ` set (meaningful_names r)"
      proof (cases "\<exists>g\<in>set (rec_names r). fn_parent g = p \<and> \<not> is_dos_only (fn_namespace g)")
        case True
        then show ?thesis by (auto simp: meaningful_names_def)
      next
        case False
        with f have "f \<in> set (meaningful_names r)" by (auto simp: meaningful_names_def list_ex_iff)
        with f show ?thesis by auto
      qed
    qed
  qed (auto simp: meaningful_names_def)
qed (auto simp: meaningful_names_def list_ex_iff)

definition sample_link :: "u64 \<Rightarrow> name_namespace \<Rightarrow> file_name" where
  "sample_link parent ns = \<lparr>fn_parent = \<lparr>ref_record = parent, ref_sequence = 1\<rparr>, fn_namespace = ns,
     fn_name = [65], fn_logical_bytes = 0, fn_allocated_bytes = 0, fn_file_attributes = 0\<rparr>"

definition sample_links :: file_record where
  "sample_links = \<lparr>rec_record_number = 42, rec_sequence = 3, rec_hard_link_count = 1, rec_in_use = True,
     rec_directory = False, rec_reparse_point = False, rec_reparse_tag = None,
     rec_base_reference = None, rec_modified_ticks = None,
     rec_names = [sample_link 5 Dos, sample_link 5 Win32, sample_link 6 Dos], rec_data = [],
     rec_attribute_lists = [], rec_named_data_attributes = 0\<rparr>"

theorem meaningful_names_cover_witness:
  "meaningful_names sample_links = [sample_link 5 Win32, sample_link 6 Dos] \<and>
   fn_parent ` set (meaningful_names sample_links) = fn_parent ` set (rec_names sample_links)"
  using meaningful_names_cover [of sample_links]
  by (simp add: meaningful_names_def sample_links_def sample_link_def is_dos_only_def)

end
