(* ===== verification/NtfsStream.thy ===== *)
theory NtfsStream
  imports NtfsBoot NtfsRecordProps "HOL-Library.Product_Lexorder"
begin

text \<open>
  \<open>ferail-ntfs/src/stream.rs\<close>: a non-resident stream mapped onto a volume, and the
  bootstrap of the MFT from record zero.  A mapped stream is itself a \<open>ByteReader\<close>:
  the lemmas show that it satisfies \<open>byte_source\<close> for the content its runs describe,
  and that a stream which passes \<open>validate_complete_non_sparse\<close> is a \<open>total_source\<close>.

  \<open>sort_unstable_by_key\<close> is modelled by the stable \<open>sort_key\<close>: \<open>MappedStream::new\<close>
  rejects any two runs with the same key, whatever their order.
\<close>

section \<open>Mapped streams\<close>

definition MAX_MFT_EXTENSIONS :: nat where "MAX_MFT_EXTENSIONS = 1024"
definition MAX_ATTRIBUTE_LIST_BYTES :: u64 where "MAX_ATTRIBUTE_LIST_BYTES = 16 * 1024 * 1024"

record mapped_stream =
  ms_source :: byte_reader
  ms_runs :: "data_run list"
  ms_cluster_bytes :: u64
  ms_logical_bytes :: u64

fun check_mapped_runs :: "byte_reader \<Rightarrow> u64 \<Rightarrow> u64 \<Rightarrow> data_run list \<Rightarrow> unit ntfs_result" where
  "check_mapped_runs source cluster_bytes previous_end [] = Ok ()"
| "check_mapped_runs source cluster_bytes previous_end (run # runs) =
     (if run_cluster_count run = 0 \<or> run_vcn run < previous_end then
        Err (NtfsError_new InvalidRunlist (run_vcn run) ''overlapping or empty mapped-stream run'')
      else
      obind (ok_or (checked_add (run_vcn run) (run_cluster_count run))
               (NtfsError_new Overflow (run_vcn run) ''mapped-stream VCN overflow'')) (\<lambda>stop.
      obind (case run_lcn run of
          None \<Rightarrow> Ok ()
        | Some lcn \<Rightarrow>
            obind (ok_or (checked_add lcn (run_cluster_count run))
                     (NtfsError_new Overflow lcn ''mapped-stream LCN overflow'')) (\<lambda>last_lcn.
            obind (ok_or (checked_mul last_lcn cluster_bytes)
                     (NtfsError_new Overflow lcn ''mapped-stream byte overflow'')) (\<lambda>byte_end.
            if rd_len source < byte_end then
              Err (NtfsError_new InvalidRunlist lcn ''mapped run outside source'')
            else Ok ()))) (\<lambda>_.
      check_mapped_runs source cluster_bytes stop runs)))"

definition MappedStream_new ::
    "byte_reader \<Rightarrow> data_run list \<Rightarrow> u64 \<Rightarrow> u64 \<Rightarrow> mapped_stream ntfs_result" where
  "MappedStream_new source runs cluster_bytes logical_bytes =
     (if cluster_bytes = 0 \<or> \<not> is_power_of_two (unat cluster_bytes) then
        Err (NtfsError_new InvalidGeometry 0 ''mapped-stream cluster size'')
      else
      let runs = sort_key run_vcn runs in
      obind (check_mapped_runs source cluster_bytes 0 runs) (\<lambda>_.
      Ok \<lparr>ms_source = source, ms_runs = runs, ms_cluster_bytes = cluster_bytes,
          ms_logical_bytes = logical_bytes\<rparr>))"

fun cover_runs :: "u64 \<Rightarrow> u64 \<Rightarrow> data_run list \<Rightarrow> unit ntfs_result" where
  "cover_runs required_clusters expected_vcn [] =
     Err (NtfsError_new Truncated expected_vcn ''MFT runlist does not cover valid length'')"
| "cover_runs required_clusters expected_vcn (run # runs) =
     (if run_vcn run \<noteq> expected_vcn \<or> run_lcn run = None then
        Err (NtfsError_new InvalidRunlist expected_vcn ''MFT stream gap or sparse run'')
      else
      obind (ok_or (checked_add expected_vcn (run_cluster_count run))
               (NtfsError_new Overflow (run_vcn run) ''MFT coverage overflow'')) (\<lambda>expected_vcn.
      if required_clusters \<le> expected_vcn then Ok ()
      else cover_runs required_clusters expected_vcn runs))"

definition validate_complete_non_sparse :: "mapped_stream \<Rightarrow> unit ntfs_result" where
  "validate_complete_non_sparse s =
     obind (minus_or_panic (ms_cluster_bytes s) 1) (\<lambda>rounding.
     obind (ok_or (checked_add (ms_logical_bytes s) rounding)
              (NtfsError_new Overflow 0 ''stream cluster rounding overflow'')) (\<lambda>rounded.
     obind (div_or_panic rounded (ms_cluster_bytes s)) (\<lambda>required_clusters.
     cover_runs required_clusters 0 (ms_runs s))))"

definition run_for_vcn :: "mapped_stream \<Rightarrow> u64 \<Rightarrow> data_run option" where
  "run_for_vcn s vcn =
     (let insertion = length (takeWhile (\<lambda>run. run_vcn run \<le> vcn) (ms_runs s)) in
      case usize_checked_sub insertion 1 of None \<Rightarrow> None
      | Some i \<Rightarrow>
     (case get_at (ms_runs s) i of None \<Rightarrow> None
      | Some run \<Rightarrow>
     (case checked_add (run_vcn run) (run_cluster_count run) of None \<Rightarrow> None
      | Some stop \<Rightarrow> if vcn < stop then Some run else None)))"

text \<open>
  One turn of the read loop, with \<open>wanted\<close> bytes of the destination left: how many
  bytes it writes at the cursor, and which.
\<close>

definition stream_chunk :: "mapped_stream \<Rightarrow> u64 \<Rightarrow> nat \<Rightarrow> (nat \<times> u8 list) ntfs_result" where
  "stream_chunk s logical wanted =
     obind (div_or_panic logical (ms_cluster_bytes s)) (\<lambda>vcn.
     obind (rem_or_panic logical (ms_cluster_bytes s)) (\<lambda>within_cluster.
     obind (ok_or (run_for_vcn s vcn) (NtfsError_new InvalidRunlist vcn ''unmapped stream VCN'')) (\<lambda>run.
     obind (ok_or (case checked_add (run_vcn run) (run_cluster_count run) of
                     Some stop \<Rightarrow> checked_sub stop vcn | None \<Rightarrow> None)
              (NtfsError_new Overflow vcn ''run remainder overflow'')) (\<lambda>clusters_left.
     obind (ok_or (case checked_mul clusters_left (ms_cluster_bytes s) of
                     Some bytes \<Rightarrow> checked_sub bytes within_cluster | None \<Rightarrow> None)
              (NtfsError_new Overflow logical ''run byte remainder overflow'')) (\<lambda>bytes_left.
     let count = min (unat bytes_left) wanted in
     case run_lcn run of
       None \<Rightarrow> Ok (count, replicate count 0)
     | Some lcn \<Rightarrow>
         obind (minus_or_panic vcn (run_vcn run)) (\<lambda>delta.
         obind (ok_or (checked_add lcn delta)
                  (NtfsError_new Overflow vcn ''source LCN overflow'')) (\<lambda>source_cluster.
         obind (ok_or (case checked_mul source_cluster (ms_cluster_bytes s) of
                         Some base \<Rightarrow> checked_add base within_cluster | None \<Rightarrow> None)
                  (NtfsError_new Overflow vcn ''source byte offset overflow'')) (\<lambda>source_offset.
         obind (rd_read_exact_at (ms_source s) source_offset count) (\<lambda>bytes.
         Ok (count, bytes))))))))))"

lemma run_for_vcn_inside:
  "run_for_vcn s vcn = Some run \<Longrightarrow> unat vcn < unat (run_vcn run) + unat (run_cluster_count run)"
  unfolding run_for_vcn_def Let_def
  by (auto simp: arith_word word_less_nat_alt split: option.splits if_splits)

lemma stream_chunk_cases:
  assumes "stream_chunk s logical wanted = Ok (count, bytes)"
  obtains run stop clusters_left area bytes_left where "ms_cluster_bytes s \<noteq> 0"
    and "run_for_vcn s (logical div ms_cluster_bytes s) = Some run"
    and "checked_add (run_vcn run) (run_cluster_count run) = Some stop"
    and "checked_sub stop (logical div ms_cluster_bytes s) = Some clusters_left"
    and "checked_mul clusters_left (ms_cluster_bytes s) = Some area"
    and "checked_sub area (logical mod ms_cluster_bytes s) = Some bytes_left"
    and "count = min (unat bytes_left) wanted"
    and "(case run_lcn run of None \<Rightarrow> bytes = replicate count 0
      | Some lcn \<Rightarrow> run_vcn run \<le> logical div ms_cluster_bytes s \<and>
          (\<exists>source_cluster base source_offset.
            checked_add lcn (logical div ms_cluster_bytes s - run_vcn run) = Some source_cluster \<and>
            checked_mul source_cluster (ms_cluster_bytes s) = Some base \<and>
            checked_add base (logical mod ms_cluster_bytes s) = Some source_offset \<and>
            rd_read_exact_at (ms_source s) source_offset count = Ok bytes))"
proof -
  show ?thesis
    using assms unfolding stream_chunk_def Let_def div_or_panic_def rem_or_panic_def minus_or_panic_def
    apply (elim obind_OkE ok_or_OkE)
    apply (simp split: if_splits option.split_asm)
      subgoal for x xa xb xc xd x2 x2a by (rule that [of xb x2 xc x2a xd]) auto
     subgoal for x xa xb xc xd x2 x2a x2b
       apply (elim obind_OkE ok_or_OkE)
       apply (rule that [of xb x2 xc x2a xd])
              apply (auto split: option.split_asm)
       done
    subgoal for x xa xb xc xd x2 x2a by (rule that [of xb x2 xc x2a xd]) auto
    done
qed

lemma stream_chunk_progress:
  assumes "stream_chunk s logical wanted = Ok (count, bytes)" and "0 < wanted"
  shows "0 < count \<and> count \<le> wanted"
  using assms(1)
proof (rule stream_chunk_cases)
  fix run stop clusters_left area bytes_left
  assume cb: "ms_cluster_bytes s \<noteq> 0" and run: "run_for_vcn s (logical div ms_cluster_bytes s) = Some run"
    and "checked_add (run_vcn run) (run_cluster_count run) = Some stop"
    and "checked_sub stop (logical div ms_cluster_bytes s) = Some clusters_left"
    and "checked_mul clusters_left (ms_cluster_bytes s) = Some area"
    and "checked_sub area (logical mod ms_cluster_bytes s) = Some bytes_left"
    and count: "count = min (unat bytes_left) wanted"
  then have left: "unat clusters_left
      = unat (run_vcn run) + unat (run_cluster_count run) - unat (logical div ms_cluster_bytes s)"
    and area: "unat area = unat clusters_left * unat (ms_cluster_bytes s)"
    and bytes_left: "unat bytes_left = unat area - unat (logical mod ms_cluster_bytes s)"
    by (simp_all only: arith_word)
  have "1 \<le> unat clusters_left" using run_for_vcn_inside [OF run] left by linarith
  then have "unat (ms_cluster_bytes s) \<le> unat area" unfolding area by simp
  moreover have "unat (logical mod ms_cluster_bytes s) < unat (ms_cluster_bytes s)"
    using cb by (simp add: unat_mod unat_gt_0)
  ultimately show ?thesis using count bytes_left assms(2) by linarith
qed

function stream_loop :: "mapped_stream \<Rightarrow> u64 \<Rightarrow> nat \<Rightarrow> nat \<Rightarrow> u8 list \<Rightarrow> u8 list ntfs_result" where
  "stream_loop s logical n written destination =
     (if written < n then
        obind (stream_chunk s logical (n - written)) (\<lambda>(count, chunk).
        obind (ok_or (checked_add logical (of_nat count))
                 (NtfsError_new Overflow logical ''stream cursor overflow'')) (\<lambda>logical'.
        stream_loop s logical' n (written + count) (destination @ chunk)))
      else Ok destination)"
  by pat_completeness auto
termination
proof (relation "measure (\<lambda>(_, _, n, written, _). n - written)", goal_cases)
  case (2 s logical n written destination x xa y xb)
  then have "0 < xa \<and> xa \<le> n - written"
    by (intro stream_chunk_progress [of s logical "n - written" xa y]) simp_all
  with 2(1) show ?case by (simp, linarith)
qed simp

declare stream_loop.simps [simp del]

definition stream_read_exact_at :: "mapped_stream \<Rightarrow> u64 \<Rightarrow> nat \<Rightarrow> u8 list ntfs_result" where
  "stream_read_exact_at s off n =
     obind (ok_or (usize_checked_add (unat off) n)
              (NtfsError_new Overflow off ''stream range overflow'')) (\<lambda>stop.
     if unat (ms_logical_bytes s) < stop then
       Err (NtfsError_new Truncated off ''read beyond logical stream'')
     else stream_loop s off n 0 [])"

definition stream_reader :: "mapped_stream \<Rightarrow> byte_reader" where
  "stream_reader s = \<lparr>rd_len = ms_logical_bytes s, rd_read_exact_at = stream_read_exact_at s\<rparr>"

section \<open>Bootstrapping the MFT\<close>

definition data_runs :: "file_record \<Rightarrow> data_run list" where
  "data_runs r = concat (map da_runs (rec_data r))"

definition data_entries :: "attribute_list_entry list \<Rightarrow> (u64 \<times> file_reference) list" where
  "data_entries entries =
     map (\<lambda>entry. (ale_lowest_vcn entry, ale_record entry))
       (filter (\<lambda>entry. ale_attribute_type entry = ATTRIBUTE_DATA) entries)"

fun list_references :: "byte_reader \<Rightarrow> u64 \<Rightarrow> attribute_list \<Rightarrow> (u64 \<times> file_reference) list ntfs_result" where
  "list_references volume cluster_bytes (ListResident entries) = Ok (data_entries entries)"
| "list_references volume cluster_bytes (ListNonResident low high logical_bytes runs) =
     (if MAX_ATTRIBUTE_LIST_BYTES < logical_bytes then
        Err (NtfsError_new LimitExceeded logical_bytes ''non-resident ATTRIBUTE_LIST exceeds cap'')
      else
      obind (MappedStream_new volume runs cluster_bytes logical_bytes) (\<lambda>stream.
      obind (stream_read_exact_at stream 0 (unat logical_bytes)) (\<lambda>bytes.
      obind (parse_attribute_list_entries bytes) (\<lambda>entries.
      Ok (data_entries entries)))))"

fun references_of_lists ::
    "byte_reader \<Rightarrow> u64 \<Rightarrow> attribute_list list \<Rightarrow> (u64 \<times> file_reference) list ntfs_result" where
  "references_of_lists volume cluster_bytes [] = Ok []"
| "references_of_lists volume cluster_bytes (l # ls) =
     obind (list_references volume cluster_bytes l) (\<lambda>xs.
     obind (references_of_lists volume cluster_bytes ls) (\<lambda>ys. Ok (xs @ ys)))"

definition extension_references ::
    "file_record \<Rightarrow> byte_reader \<Rightarrow> u64 \<Rightarrow> (u64 \<times> file_reference) list ntfs_result" where
  "extension_references r volume cluster_bytes =
     references_of_lists volume cluster_bytes (rec_attribute_lists r)"

definition sort_references :: "(u64 \<times> file_reference) list \<Rightarrow> (u64 \<times> file_reference) list" where
  "sort_references = sort_key (\<lambda>(vcn, reference). (vcn, ref_record reference))"

text \<open>
  The body of the extension loop for a reference not visited before.  \<open>queue\<close> is the part of
  the work list after the cursor.
\<close>

definition load_extension ::
    "byte_reader \<Rightarrow> ntfs_geometry \<Rightarrow> u64 \<Rightarrow> file_reference \<Rightarrow> file_reference \<Rightarrow> data_run list
       \<Rightarrow> (u64 \<times> file_reference) list \<Rightarrow> (data_run list \<times> (u64 \<times> file_reference) list) ntfs_result" where
  "load_extension volume geometry valid_bytes base_reference reference runs queue =
     obind (MappedStream_new volume runs (ucast (bytes_per_cluster geometry)) valid_bytes) (\<lambda>partial.
     obind (ok_or (checked_mul (ref_record reference) (ucast (bytes_per_file_record geometry)))
              (NtfsError_new Overflow (ref_record reference) ''MFT extension offset overflow'')) (\<lambda>off.
     obind (stream_read_exact_at partial off (unat (bytes_per_file_record geometry))) (\<lambda>buffer.
     obind (parse_file_record buffer
              \<lparr>opt_bytes_per_sector = unat (bytes_per_sector geometry),
               opt_expected_record_number = Some (ref_record reference), opt_include_data_runs = True\<rparr>)
       (\<lambda>extension.
     if rec_sequence extension \<noteq> ref_sequence reference \<or>
        rec_base_reference extension \<noteq> Some base_reference then
       Err (NtfsError_new InvalidAttribute off ''MFT extension identity mismatch'')
     else
     obind (extension_references extension volume (ucast (bytes_per_cluster geometry))) (\<lambda>more.
     Ok (runs @ data_runs extension, sort_references (queue @ more)))))))"

function extension_loop ::
    "byte_reader \<Rightarrow> ntfs_geometry \<Rightarrow> u64 \<Rightarrow> file_reference \<Rightarrow> file_reference list \<Rightarrow> data_run list
       \<Rightarrow> (u64 \<times> file_reference) list \<Rightarrow> data_run list ntfs_result" where
  "extension_loop volume geometry valid_bytes base_reference visited runs [] = Ok runs"
| "extension_loop volume geometry valid_bytes base_reference visited runs ((vcn, reference) # queue) =
     (if MAX_MFT_EXTENSIONS < length visited then
        Err (NtfsError_new LimitExceeded (of_nat (length visited)) ''too many MFT extension records'')
      else if reference \<in> set visited then
        extension_loop volume geometry valid_bytes base_reference visited runs queue
      else
      obind (load_extension volume geometry valid_bytes base_reference reference runs queue)
        (\<lambda>(runs', queue').
      extension_loop volume geometry valid_bytes base_reference (reference # visited) runs' queue'))"
  by pat_completeness auto
termination
  by (relation "measures [\<lambda>(_, _, _, _, visited, _, _). 1025 - length visited,
      \<lambda>(_, _, _, _, _, _, queue). length queue]") (auto simp: MAX_MFT_EXTENSIONS_def)

definition bootstrap_mft :: "byte_reader \<Rightarrow> ntfs_geometry \<Rightarrow> u64 \<Rightarrow> mapped_stream ntfs_result" where
  "bootstrap_mft volume geometry mft_valid_bytes =
     (if mft_valid_bytes = 0 then Err (NtfsError_new InvalidGeometry 0 ''zero MFT valid length'')
      else
      let record_bytes = unat (bytes_per_file_record geometry) in
      obind (ok_or (checked_mul (mft_start_lcn geometry) (ucast (bytes_per_cluster geometry)))
               (NtfsError_new Overflow 0 ''record-zero offset overflow'')) (\<lambda>direct_offset.
      obind (rd_read_exact_at volume direct_offset record_bytes) (\<lambda>buffer.
      obind (parse_file_record buffer
               \<lparr>opt_bytes_per_sector = unat (bytes_per_sector geometry),
                opt_expected_record_number = Some 0, opt_include_data_runs = True\<rparr>) (\<lambda>record_zero.
      if \<not> rec_in_use record_zero \<or> rec_base_reference record_zero \<noteq> None then
        Err (NtfsError_new InvalidAttribute 0 ''invalid MFT base record'')
      else
      let base_reference = \<lparr>ref_record = 0, ref_sequence = rec_sequence record_zero\<rparr>;
          runs = data_runs record_zero in
      obind (ok_or (map_option da_logical_bytes
                      (List.find (\<lambda>data. da_lowest_vcn data = 0) (rec_data record_zero)))
               (NtfsError_new InvalidAttribute 0 ''MFT has no unnamed DATA'')) (\<lambda>logical_bytes.
      if logical_bytes < mft_valid_bytes then
        Err (NtfsError_new Truncated logical_bytes ''MFT logical length below valid length'')
      else
      obind (extension_references record_zero volume (ucast (bytes_per_cluster geometry))) (\<lambda>queue.
      obind (extension_loop volume geometry mft_valid_bytes base_reference [base_reference] runs
               (sort_references queue)) (\<lambda>runs.
      obind (MappedStream_new volume runs (ucast (bytes_per_cluster geometry)) mft_valid_bytes) (\<lambda>stream.
      obind (validate_complete_non_sparse stream) (\<lambda>_.
      Ok stream)))))))))"

section \<open>The content of a mapped stream\<close>

definition run_contains :: "data_run \<Rightarrow> nat \<Rightarrow> bool" where
  "run_contains run v \<longleftrightarrow> unat (run_vcn run) \<le> v \<and> v < unat (run_vcn run) + unat (run_cluster_count run)"

text \<open>The byte at a logical position: the run of its cluster, sparse runs read as zero.\<close>

definition stream_content :: "(nat \<Rightarrow> u8) \<Rightarrow> mapped_stream \<Rightarrow> nat \<Rightarrow> u8" where
  "stream_content content s p =
     (let cb = unat (ms_cluster_bytes s) in
      case List.find (\<lambda>run. run_contains run (p div cb)) (ms_runs s) of
        None \<Rightarrow> 0
      | Some run \<Rightarrow>
          (case run_lcn run of None \<Rightarrow> 0
           | Some lcn \<Rightarrow> content ((unat lcn + (p div cb - unat (run_vcn run))) * cb + p mod cb)))"

fun disjoint_runs :: "nat \<Rightarrow> data_run list \<Rightarrow> bool" where
  "disjoint_runs previous_end [] = True"
| "disjoint_runs previous_end (run # runs) \<longleftrightarrow>
     previous_end \<le> unat (run_vcn run) \<and> run_cluster_count run \<noteq> 0 \<and>
     unat (run_vcn run) + unat (run_cluster_count run) < 2 ^ 64 \<and>
     disjoint_runs (unat (run_vcn run) + unat (run_cluster_count run)) runs"

definition run_inside :: "u64 \<Rightarrow> u64 \<Rightarrow> data_run \<Rightarrow> bool" where
  "run_inside source_len cb run \<longleftrightarrow>
     (\<forall>lcn. run_lcn run = Some lcn \<longrightarrow>
        (unat lcn + unat (run_cluster_count run)) * unat cb \<le> unat source_len)"

definition stream_ok :: "mapped_stream \<Rightarrow> bool" where
  "stream_ok s \<longleftrightarrow>
     is_power_of_two (unat (ms_cluster_bytes s)) \<and> disjoint_runs 0 (ms_runs s) \<and>
     (\<forall>run\<in>set (ms_runs s). run_inside (rd_len (ms_source s)) (ms_cluster_bytes s) run)"

lemma check_mapped_runs_ok:
  "check_mapped_runs source cb previous_end runs = Ok u \<Longrightarrow>
     disjoint_runs (unat previous_end) runs \<and> (\<forall>run\<in>set runs. run_inside (rd_len source) cb run)"
proof (induction runs arbitrary: previous_end)
  case (Cons run runs)
  from Cons.prems obtain stop where count: "run_cluster_count run \<noteq> 0" "\<not> run_vcn run < previous_end"
    and stop: "checked_add (run_vcn run) (run_cluster_count run) = Some stop"
    and lcn: "case run_lcn run of None \<Rightarrow> True | Some lcn \<Rightarrow> \<exists>last_lcn byte_end.
        checked_add lcn (run_cluster_count run) = Some last_lcn \<and>
        checked_mul last_lcn cb = Some byte_end \<and> \<not> rd_len source < byte_end"
    and rest: "check_mapped_runs source cb stop runs = Ok u"
    unfolding check_mapped_runs.simps
    by (elim run_elims) (auto split: option.split_asm elim!: run_elims)
  have "run_inside (rd_len source) cb run"
    using lcn by (auto simp: run_inside_def arith_word word_less_nat_alt)
  moreover have "unat stop = unat (run_vcn run) + unat (run_cluster_count run)"
    "unat (run_vcn run) + unat (run_cluster_count run) < 2 ^ 64"
    using stop by (simp_all add: arith_word)
  ultimately show ?case using count Cons.IH [OF rest] by (simp add: word_less_nat_alt not_less)
qed simp

lemma MappedStream_new_ok:
  assumes "MappedStream_new r runs cb lb = Ok s"
  shows "stream_ok s" and "ms_source s = r" and "ms_cluster_bytes s = cb" and "ms_logical_bytes s = lb"
    and "set (ms_runs s) = set runs"
proof -
  from assms obtain u where c: "check_mapped_runs r cb 0 (sort_key run_vcn runs) = Ok u"
    and p: "is_power_of_two (unat cb)"
    and s: "s = \<lparr>ms_source = r, ms_runs = sort_key run_vcn runs, ms_cluster_bytes = cb, ms_logical_bytes = lb\<rparr>"
    unfolding MappedStream_new_def Let_def by (elim run_elims) auto
  show "stream_ok s" using check_mapped_runs_ok [OF c] p by (simp add: stream_ok_def s)
qed (use assms in \<open>auto simp: MappedStream_new_def Let_def outcome_simps split: if_splits\<close>)

lemma disjoint_runs_lower:
  "disjoint_runs previous_end runs \<Longrightarrow> run \<in> set runs \<Longrightarrow> previous_end \<le> unat (run_vcn run)"
  by (induction previous_end runs rule: disjoint_runs.induct) auto

lemma disjoint_runs_bound:
  "disjoint_runs previous_end runs \<Longrightarrow> run \<in> set runs \<Longrightarrow>
     unat (run_vcn run) + unat (run_cluster_count run) < 2 ^ 64"
  by (induction previous_end runs rule: disjoint_runs.induct) auto

lemma disjoint_runs_unique:
  assumes "disjoint_runs previous_end runs" and "run \<in> set runs" "other \<in> set runs"
    and "run_contains run v" "run_contains other v"
  shows "run = other"
  using assms
proof (induction previous_end runs rule: disjoint_runs.induct)
  case (2 previous_end first runs)
  have "\<not> run_contains q v" if "q \<in> set runs" "run_contains first v" for q
    using disjoint_runs_lower [of "unat (run_vcn first) + unat (run_cluster_count first)" runs q] 2(2) that
    by (auto simp: run_contains_def)
  with 2 show ?case by auto
qed simp

lemma find_run:
  assumes "disjoint_runs previous_end runs" and "run \<in> set runs" and "run_contains run v"
  shows "List.find (\<lambda>q. run_contains q v) runs = Some run"
proof -
  obtain q where q: "List.find (\<lambda>q. run_contains q v) runs = Some q"
    using assms(2,3) by (cases "List.find (\<lambda>q. run_contains q v) runs") (auto simp: find_None_iff)
  then have "q \<in> set runs" "run_contains q v" by (auto simp: find_Some_iff)
  with disjoint_runs_unique [OF assms(1) this(1) assms(2) this(2) assms(3)] q show ?thesis by simp
qed


lemma run_for_vcn_last:
  "run_for_vcn s vcn =
     (let lower = takeWhile (\<lambda>run. run_vcn run \<le> vcn) (ms_runs s) in
      if lower = [] then None
      else case checked_add (run_vcn (last lower)) (run_cluster_count (last lower)) of None \<Rightarrow> None
         | Some stop \<Rightarrow> if vcn < stop then Some (last lower) else None)"
proof (cases "takeWhile (\<lambda>run. run_vcn run \<le> vcn) (ms_runs s) = []")
  case True
  then show ?thesis by (simp add: run_for_vcn_def usize_checked_sub_def Let_def del: takeWhile_eq_Nil_iff)
next
  case False
  define lower where "lower = takeWhile (\<lambda>run. run_vcn run \<le> vcn) (ms_runs s)"
  have ne: "lower \<noteq> []" using False by (simp add: lower_def del: takeWhile_eq_Nil_iff)
  have le: "length lower \<le> length (ms_runs s)" unfolding lower_def by (rule length_takeWhile_le)
  have "ms_runs s ! (length lower - 1) = lower ! (length lower - 1)"
    using ne takeWhile_nth [of "length lower - 1" "\<lambda>run. run_vcn run \<le> vcn" "ms_runs s"]
    by (simp add: lower_def)
  also have "\<dots> = last lower" using ne by (simp add: last_conv_nth)
  finally have "get_at (ms_runs s) (length lower - 1) = Some (last lower)"
    using le ne by (cases lower) (auto simp: get_at_def)
  moreover have "1 \<le> length lower" using ne by (cases lower) simp_all
  ultimately show ?thesis
    using ne by (simp add: run_for_vcn_def usize_checked_sub_def Let_def lower_def [symmetric])
qed

lemma run_for_vcn_sound:
  assumes "run_for_vcn s vcn = Some run"
  shows "run \<in> set (ms_runs s) \<and> run_contains run (unat vcn) \<and> run_vcn run \<le> vcn"
proof -
  let ?lower = "takeWhile (\<lambda>run. run_vcn run \<le> vcn) (ms_runs s)"
  from assms have ne: "?lower \<noteq> []" and run: "run = last ?lower"
    by (auto simp: run_for_vcn_last Let_def split: if_splits option.splits)
  then have "run \<in> set ?lower" by simp
  then have "run \<in> set (ms_runs s)" "run_vcn run \<le> vcn"
    by (auto dest: set_takeWhileD)
  with run_for_vcn_inside [OF assms] show ?thesis by (simp add: run_contains_def word_le_nat_alt)
qed

lemma last_lower_run:
  assumes "disjoint_runs previous_end runs" and "run \<in> set runs" and "run_contains run (unat vcn)"
  shows "takeWhile (\<lambda>q. run_vcn q \<le> vcn) runs \<noteq> [] \<and> last (takeWhile (\<lambda>q. run_vcn q \<le> vcn) runs) = run"
  using assms
proof (induction previous_end runs rule: disjoint_runs.induct)
  case (2 previous_end first runs)
  note low = disjoint_runs_lower [of "unat (run_vcn first) + unat (run_cluster_count first)" runs]
  show ?case
  proof (cases "run = first")
    case True
    have "takeWhile (\<lambda>q. run_vcn q \<le> vcn) runs = []"
      using low [of "hd runs"] 2(2,4) True
      by (cases runs) (auto simp: run_contains_def word_le_nat_alt)
    with True 2(4) show ?thesis by (simp add: run_contains_def word_le_nat_alt)
  next
    case False
    with 2(3) have r: "run \<in> set runs" by simp
    with 2(2) have "unat (run_vcn first) \<le> unat (run_vcn run)" using low [of run] by simp
    with 2(4) have "run_vcn first \<le> vcn" by (simp add: run_contains_def word_le_nat_alt)
    with 2(1) [OF _ r 2(4)] 2(2) show ?thesis by simp
  qed
qed simp

lemma run_for_vcn_complete:
  assumes "stream_ok s" and "run \<in> set (ms_runs s)" and "run_contains run (unat vcn)"
  shows "run_for_vcn s vcn = Some run"
proof -
  have d: "disjoint_runs 0 (ms_runs s)" using assms(1) by (simp add: stream_ok_def)
  have b: "unat (run_vcn run) + unat (run_cluster_count run) < 2 ^ 64"
    using disjoint_runs_bound [OF d assms(2)] .
  then have add: "checked_add (run_vcn run) (run_cluster_count run) = Some (run_vcn run + run_cluster_count run)"
    by (simp add: checked_add_def)
  have "vcn < run_vcn run + run_cluster_count run"
    using b assms(3) by (simp add: word_less_nat_alt run_contains_def unat_add_no_overflow)
  with last_lower_run [OF d assms(2,3)] add show ?thesis
    by (simp add: run_for_vcn_last Let_def)
qed


text \<open>One chunk of a read delivers the bytes the runs describe, from inside the source.\<close>

lemma chunk_positions:
  fixes cb logical i :: nat
  assumes "0 < cb" and "logical mod cb + i < n * cb"
  shows "(logical + i) div cb < logical div cb + n" and "logical div cb \<le> (logical + i) div cb"
proof -
  define q r where "q = logical div cb" and "r = logical mod cb"
  have "logical + i = r + i + q * cb" by (simp add: q_def r_def)
  then have "(logical + i) div cb = (r + i + q * cb) div cb" by (simp only:)
  also have "\<dots> = q + (r + i) div cb" using assms(1) by simp
  finally have "(logical + i) div cb = logical div cb + (logical mod cb + i) div cb"
    by (simp only: q_def r_def)
  moreover have "(logical mod cb + i) div cb < n"
    using assms by (simp add: less_mult_imp_div_less)
  ultimately show "(logical + i) div cb < logical div cb + n" by simp
  show "logical div cb \<le> (logical + i) div cb" by (simp add: div_le_mono)
qed

lemma source_position:
  fixes cb logical i lcn start :: nat
  assumes "start \<le> logical div cb"
  shows "(lcn + ((logical + i) div cb - start)) * cb + (logical + i) mod cb
    = (lcn + (logical div cb - start)) * cb + logical mod cb + i"
proof -
  have "start \<le> (logical + i) div cb" using assms by (meson div_le_mono le_add1 le_trans)
  then have a: "(lcn + ((logical + i) div cb - start)) * cb = lcn * cb + ((logical + i) div cb * cb - start * cb)"
    and "start * cb \<le> (logical + i) div cb * cb"
    by (simp_all add: algebra_simps diff_mult_distrib)
  have b: "(lcn + (logical div cb - start)) * cb = lcn * cb + (logical div cb * cb - start * cb)"
    and "start * cb \<le> logical div cb * cb"
    using assms by (simp_all add: algebra_simps diff_mult_distrib)
  have "(logical + i) div cb * cb + (logical + i) mod cb = logical + i"
    "logical div cb * cb + logical mod cb = logical" by simp_all
  then show ?thesis
    unfolding a b using \<open>start * cb \<le> (logical + i) div cb * cb\<close> \<open>start * cb \<le> logical div cb * cb\<close>
    by linarith
qed

lemma stream_content_in_run:
  assumes ok: "stream_ok s" and run: "run \<in> set (ms_runs s)"
    and c: "run_contains run (p div unat (ms_cluster_bytes s))"
  shows "stream_content content s p =
    (case run_lcn run of None \<Rightarrow> 0
     | Some lcn \<Rightarrow> content ((unat lcn + (p div unat (ms_cluster_bytes s) - unat (run_vcn run)))
         * unat (ms_cluster_bytes s) + p mod unat (ms_cluster_bytes s)))"
proof -
  have d: "disjoint_runs 0 (ms_runs s)" using ok by (simp add: stream_ok_def)
  from find_run [OF d run c] show ?thesis by (simp add: stream_content_def Let_def)
qed

lemma stream_chunk_run:
  assumes chunk: "stream_chunk s logical wanted = Ok (count, bytes)"
  obtains run where "run \<in> set (ms_runs s)" and "0 < unat (ms_cluster_bytes s)"
    and "\<And>i. i < count \<Longrightarrow> run_contains run ((unat logical + i) div unat (ms_cluster_bytes s))"
    and "unat (run_vcn run) \<le> unat logical div unat (ms_cluster_bytes s)"
    and "case run_lcn run of None \<Rightarrow> bytes = replicate count 0
      | Some lcn \<Rightarrow> \<exists>off. rd_read_exact_at (ms_source s) off count = Ok bytes \<and>
          unat off = (unat lcn + (unat logical div unat (ms_cluster_bytes s) - unat (run_vcn run)))
            * unat (ms_cluster_bytes s) + unat logical mod unat (ms_cluster_bytes s)"
  using chunk
proof (rule stream_chunk_cases)
  fix run stop clusters_left area bytes_left
  let ?cb = "unat (ms_cluster_bytes s)" and ?v = "unat logical div unat (ms_cluster_bytes s)"
  assume cb0: "ms_cluster_bytes s \<noteq> 0" and run: "run_for_vcn s (logical div ms_cluster_bytes s) = Some run"
    and checked: "checked_add (run_vcn run) (run_cluster_count run) = Some stop"
      "checked_sub stop (logical div ms_cluster_bytes s) = Some clusters_left"
      "checked_mul clusters_left (ms_cluster_bytes s) = Some area"
      "checked_sub area (logical mod ms_cluster_bytes s) = Some bytes_left"
    and count: "count = min (unat bytes_left) wanted"
    and src: "case run_lcn run of None \<Rightarrow> bytes = replicate count 0
      | Some lcn \<Rightarrow> run_vcn run \<le> logical div ms_cluster_bytes s \<and>
          (\<exists>source_cluster base source_offset.
            checked_add lcn (logical div ms_cluster_bytes s - run_vcn run) = Some source_cluster \<and>
            checked_mul source_cluster (ms_cluster_bytes s) = Some base \<and>
            checked_add base (logical mod ms_cluster_bytes s) = Some source_offset \<and>
            rd_read_exact_at (ms_source s) source_offset count = Ok bytes)"
  have cb: "0 < ?cb" using cb0 by (simp add: unat_gt_0)
  have in_set: "run \<in> set (ms_runs s)" and here: "run_contains run ?v"
    and le: "run_vcn run \<le> logical div ms_cluster_bytes s"
    using run_for_vcn_sound [OF run] by (simp_all add: unat_div)
  have low: "unat (run_vcn run) \<le> ?v" using here by (simp add: run_contains_def)
  have left: "unat clusters_left = unat (run_vcn run) + unat (run_cluster_count run) - ?v"
    and area: "unat area = unat clusters_left * ?cb"
    and bytes_left: "unat bytes_left = unat area - unat logical mod ?cb"
    using checked by (simp_all only: arith_word unat_div unat_mod)
  have inside: "run_contains run ((unat logical + i) div ?cb)" if "i < count" for i
  proof -
    have "unat logical mod ?cb + i < unat clusters_left * ?cb"
      using that count bytes_left area by linarith
    from chunk_positions [OF cb this] left here low show ?thesis by (simp add: run_contains_def)
  qed
  have off: "unat (logical div ms_cluster_bytes s - run_vcn run) = ?v - unat (run_vcn run)"
    using le by (simp add: unat_minus_le unat_div)
  show thesis
  proof (rule that [OF in_set cb inside low])
    show "case run_lcn run of None \<Rightarrow> bytes = replicate count 0
      | Some lcn \<Rightarrow> \<exists>off. rd_read_exact_at (ms_source s) off count = Ok bytes \<and>
          unat off = (unat lcn + (?v - unat (run_vcn run))) * ?cb + unat logical mod ?cb"
      using src by (auto simp: arith_word off unat_mod split: option.splits)
  qed
qed


lemma stream_chunk_width:
  assumes "stream_chunk s logical wanted = Ok (count, bytes)"
  shows "unat (of_nat count :: u64) = count"
  using assms
proof (rule stream_chunk_cases)
  fix bytes_left :: u64
  assume "count = min (unat bytes_left) wanted"
  then have "count \<le> unat bytes_left" by simp
  also have "unat bytes_left < 2 ^ 64" using unsigned_less [of bytes_left, where ?'a = nat] by simp
  finally show ?thesis by (simp add: unat_of_nat take_bit_nat_eq_self)
qed

lemma stream_chunk_no_panic:
  assumes "ms_cluster_bytes s \<noteq> 0" and "\<And>off n. rd_read_exact_at (ms_source s) off n \<noteq> Panic"
  shows "stream_chunk s logical wanted \<noteq> Panic"
  unfolding stream_chunk_def Let_def
  using assms run_for_vcn_sound
  by (auto intro!: panic_intros simp: outcome_simps split: option.splits prod.splits)

lemma stream_loop_no_panic:
  assumes "ms_cluster_bytes s \<noteq> 0" and "\<And>off n. rd_read_exact_at (ms_source s) off n \<noteq> Panic"
  shows "stream_loop s logical n written destination \<noteq> Panic"
  using assms
proof (induction s logical n written destination rule: stream_loop.induct)
  case (1 s logical n written destination)
  show ?case
  proof (cases "written < n")
    case True
    have "stream_loop s logical' n (written + count) (destination @ chunk) \<noteq> Panic"
      if "stream_chunk s logical (n - written) = Ok (count, chunk)"
        and "checked_add logical (of_nat count) = Some logical'" for count chunk logical'
      by (rule "1.IH" [OF True that(1) refl _ "1.prems"]) (simp add: that(2))
    with stream_chunk_no_panic [OF "1.prems"] True show ?thesis
      unfolding stream_loop.simps [of s logical n written destination]
      by (auto simp: outcome_simps)
  qed (simp add: stream_loop.simps)
qed

context byte_source
begin

lemma mapped_chunk:
  assumes "stream_ok s" and "ms_source s = r" and "stream_chunk s logical wanted = Ok (count, bytes)"
  shows "bytes = map (stream_content content s) [unat logical..<unat logical + count]"
  using assms(3)
proof (rule stream_chunk_run)
  fix run
  let ?cb = "unat (ms_cluster_bytes s)" and ?v = "unat logical div unat (ms_cluster_bytes s)"
  assume in_set: "run \<in> set (ms_runs s)" and inside: "\<And>i. i < count \<Longrightarrow> run_contains run ((unat logical + i) div ?cb)"
    and low: "unat (run_vcn run) \<le> ?v"
    and src: "case run_lcn run of None \<Rightarrow> bytes = replicate count 0
      | Some lcn \<Rightarrow> \<exists>off. rd_read_exact_at (ms_source s) off count = Ok bytes \<and>
          unat off = (unat lcn + (?v - unat (run_vcn run))) * ?cb + unat logical mod ?cb"
  show ?thesis
  proof (rule nth_equalityI)
    show len: "length bytes = length (map (stream_content content s) [unat logical..<unat logical + count])"
      using src unfolding assms(2) by (auto split: option.splits dest: read_length)
    fix i assume "i < length bytes"
    then have i: "i < count" using len by simp
    note at = stream_content_in_run [OF assms(1) in_set inside [OF i], of content]
    show "bytes ! i = map (stream_content content s) [unat logical..<unat logical + count] ! i"
      using i src at unfolding assms(2)
      by (auto simp: read_nth source_position [OF low] split: option.splits)
  qed
qed

lemma mapped_loop:
  assumes "stream_ok s" and "ms_source s = r" and "stream_loop s logical n written destination = Ok out"
    and "unat logical = start + written" and "written \<le> n"
    and "destination = map (stream_content content s) [start..<start + written]"
  shows "out = map (stream_content content s) [start..<start + n]"
  using assms
proof (induction s logical n written destination rule: stream_loop.induct)
  case (1 s logical n written destination)
  show ?case
  proof (cases "written < n")
    case False
    with "1.prems" show ?thesis by (simp add: stream_loop.simps)
  next
    case True
    from "1.prems"(3) True obtain count chunk logical' where
        chunk: "stream_chunk s logical (n - written) = Ok (count, chunk)"
      and adv: "checked_add logical (of_nat count) = Some logical'"
      and rest: "stream_loop s logical' n (written + count) (destination @ chunk) = Ok out"
      unfolding stream_loop.simps [of s logical n written destination]
      by (auto simp: outcome_simps)
    have count: "0 < count \<and> count \<le> n - written"
      using stream_chunk_progress [OF chunk] True by simp
    have bytes: "chunk = map (stream_content content s) [unat logical..<unat logical + count]"
      using mapped_chunk "1.prems"(1,2) chunk by blast
    have next_pos: "unat logical' = start + (written + count)"
      using adv stream_chunk_width [OF chunk] "1.prems"(4) by (simp add: arith_word)
    have "map (stream_content content s) [start..<start + (written + count)]
        = destination @ chunk"
      using bytes "1.prems"(4,6) upt_add_eq_append [of start "start + written" count]
      by (simp add: add.assoc)
    moreover have "written + count \<le> n" using count True by linarith
    ultimately show ?thesis
      using "1.IH" [OF True chunk refl _ "1.prems"(1,2) rest next_pos] adv by simp
  qed
qed

lemma mapped_read:
  assumes "stream_ok s" and "ms_source s = r" and "stream_read_exact_at s off n = Ok bs"
  shows "bs = map (stream_content content s) [unat off..<unat off + n]"
    and "unat off + n \<le> unat (ms_logical_bytes s)"
proof -
  from assms(3) have loop: "stream_loop s off n 0 [] = Ok bs"
    and "unat off + n \<le> unat (ms_logical_bytes s)"
    by (auto simp: stream_read_exact_at_def outcome_simps arith_word split: if_splits)
  then show "unat off + n \<le> unat (ms_logical_bytes s)" by simp
  show "bs = map (stream_content content s) [unat off..<unat off + n]"
    by (rule mapped_loop [OF assms(1,2) loop]) simp_all
qed

lemma stream_ok_cluster: "stream_ok s \<Longrightarrow> ms_cluster_bytes s \<noteq> 0"
  by (auto simp: stream_ok_def is_power_of_two.simps)

lemma mapped_no_panic:
  "stream_ok s \<Longrightarrow> ms_source s = r \<Longrightarrow> stream_read_exact_at s off n \<noteq> Panic"
  unfolding stream_read_exact_at_def
  by (intro panic_intros stream_loop_no_panic stream_ok_cluster) (auto simp: read_no_panic)

lemma mapped_byte_source:
  assumes "stream_ok s" and "ms_source s = r"
  shows "byte_source (stream_reader s) (stream_content content s) (unat (ms_logical_bytes s))"
  by unfold_locales (use assms in \<open>simp_all add: stream_reader_def mapped_read mapped_no_panic\<close>)

end

text \<open>
  A stream that passed \<open>validate_complete_non_sparse\<close> can be read anywhere below its
  logical length: a cluster below the required count lies in a run with an LCN.
\<close>

definition covered :: "mapped_stream \<Rightarrow> nat \<Rightarrow> bool" where
  "covered s v \<longleftrightarrow> (\<exists>run\<in>set (ms_runs s). run_contains run v \<and> run_lcn run \<noteq> None)"

lemma cover_runs_covers:
  assumes "cover_runs required expected runs = Ok u"
    and "unat expected \<le> v" and "v < unat required"
  shows "\<exists>run\<in>set runs. run_contains run v \<and> run_lcn run \<noteq> None"
  using assms
proof (induction runs arbitrary: expected)
  case (Cons run runs)
  from Cons.prems(1) obtain stop where run: "run_vcn run = expected" "run_lcn run \<noteq> None"
    and stop: "checked_add expected (run_cluster_count run) = Some stop"
    and rest: "(if required \<le> stop then Ok () else cover_runs required stop runs) = Ok u"
    unfolding cover_runs.simps by (elim run_elims) auto
  have e: "unat stop = unat expected + unat (run_cluster_count run)" using stop by (simp add: arith_word)
  show ?case
  proof (cases "v < unat stop")
    case True
    with e run Cons.prems(2) have "run_contains run v" by (simp add: run_contains_def)
    with run show ?thesis by auto
  next
    case False
    then have "\<not> required \<le> stop" using Cons.prems(3) by (auto simp: word_le_nat_alt)
    with rest have "cover_runs required stop runs = Ok u" by simp
    from Cons.IH [OF this _ Cons.prems(3)] False show ?thesis by auto
  qed
qed simp

lemma validate_covers:
  assumes "validate_complete_non_sparse s = Ok u" and "p < unat (ms_logical_bytes s)"
  shows "covered s (p div unat (ms_cluster_bytes s))"
proof -
  let ?cb = "unat (ms_cluster_bytes s)" and ?lb = "unat (ms_logical_bytes s)"
  obtain rounded where cb: "ms_cluster_bytes s \<noteq> 0"
    and rounded: "checked_add (ms_logical_bytes s) (ms_cluster_bytes s - 1) = Some rounded"
    and cover: "cover_runs (rounded div ms_cluster_bytes s) 0 (ms_runs s) = Ok u"
    using assms(1) unfolding validate_complete_non_sparse_def
    by (elim run_elims) (auto simp: outcome_simps)
  have pos: "0 < ?cb" using cb by (simp add: unat_gt_0)
  have "unat (ms_cluster_bytes s - 1) = ?cb - 1"
    using cb pos by (subst unat_minus_le) (simp_all add: word_le_nat_alt)
  then have r: "unat rounded = ?lb + (?cb - 1)" using rounded by (simp add: arith_word)
  have "?cb * (p div ?cb) + ?cb \<le> p + ?cb" by simp
  also have "p + ?cb \<le> ?lb + (?cb - 1)" using assms(2) pos by linarith
  finally have "(p div ?cb + 1) * ?cb \<le> ?lb + (?cb - 1)" by (simp add: algebra_simps)
  then have "p div ?cb + 1 \<le> (?lb + (?cb - 1)) div ?cb" using pos by (simp add: less_eq_div_iff_mult_less_eq)
  then have "p div ?cb < unat (rounded div ms_cluster_bytes s)" by (simp add: unat_div r)
  from cover_runs_covers [OF cover _ this] show ?thesis by (simp add: covered_def)
qed


context total_source
begin

lemma mapped_chunk_total:
  assumes ok: "stream_ok s" and src: "ms_source s = r"
    and cov: "covered s (unat logical div unat (ms_cluster_bytes s))"
  shows "\<exists>count bytes. stream_chunk s logical wanted = Ok (count, bytes)"
proof -
  define cb where "cb = unat (ms_cluster_bytes s)"
  define v where "v = unat logical div cb"
  define w where "w = unat logical mod cb"
  have cb0: "ms_cluster_bytes s \<noteq> 0" using ok by (rule stream_ok_cluster)
  then have cb: "0 < cb" by (simp add: cb_def unat_gt_0)
  then have w: "w < cb" by (simp add: w_def)
  from cov obtain run lcn where run: "run \<in> set (ms_runs s)" "run_contains run v" "run_lcn run = Some lcn"
    by (auto simp: covered_def v_def cb_def)
  define n where "n = unat (run_cluster_count run)"
  define start where "start = unat (run_vcn run)"
  have range: "start \<le> v" "v < start + n" using run(2) by (simp_all add: run_contains_def start_def n_def)
  have stop: "start + n < 2 ^ 64"
    using ok run(1) disjoint_runs_bound [of 0 "ms_runs s" run] by (simp add: stream_ok_def start_def n_def)
  have "run_inside (rd_len r) (ms_cluster_bytes s) run" using ok run(1) src by (simp add: stream_ok_def)
  then have inside: "(unat lcn + n) * cb \<le> unat (rd_len r)"
    using run(3) by (simp add: run_inside_def n_def cb_def)
  have len: "unat (rd_len r) < 2 ^ 64" using unsigned_less [of "rd_len r", where ?'a = nat] by simp
  have "(start + n - v) * cb \<le> (unat lcn + n) * cb" using range by (intro mult_le_mono1) linarith
  with inside len have area: "(start + n - v) * cb < 2 ^ 64" by linarith
  have "1 * cb \<le> (start + n - v) * cb" using range by (intro mult_le_mono1) linarith
  then have area_w: "w \<le> (start + n - v) * cb" using w by linarith
  have split: "(unat lcn + (v - start)) * cb + (start + n - v) * cb = (unat lcn + n) * cb"
    using range by (simp flip: distrib_right)
  have unats: "unat (logical div ms_cluster_bytes s) = v" "unat (logical mod ms_cluster_bytes s) = w"
    by (simp_all add: unat_div unat_mod v_def w_def cb_def)
  have found: "run_for_vcn s (logical div ms_cluster_bytes s) = Some run"
    using run_for_vcn_complete [OF ok run(1)] run(2) unats by simp
  obtain stop' where stop': "checked_add (run_vcn run) (run_cluster_count run) = Some stop'" "unat stop' = start + n"
    using stop by (auto simp: checked_add_def start_def n_def unat_add_no_overflow)
  obtain left where left: "checked_sub stop' (logical div ms_cluster_bytes s) = Some left" "unat left = start + n - v"
    using stop' range unats by (auto simp: checked_sub_def word_le_nat_alt unat_minus_le)
  obtain bytes where bytes: "checked_mul left (ms_cluster_bytes s) = Some bytes" "unat bytes = (start + n - v) * cb"
    using left area by (auto simp: checked_mul_def unat_mult_no_overflow cb_def)
  obtain avail where avail: "checked_sub bytes (logical mod ms_cluster_bytes s) = Some avail"
      "unat avail = (start + n - v) * cb - w"
    using bytes area_w unats by (auto simp: checked_sub_def word_le_nat_alt unat_minus_le)
  have le: "run_vcn run \<le> logical div ms_cluster_bytes s"
    using range unats by (simp add: word_le_nat_alt start_def)
  have delta: "unat (logical div ms_cluster_bytes s - run_vcn run) = v - start"
    using le unats by (simp add: unat_minus_le start_def)
  have "unat lcn + (v - start) \<le> (unat lcn + n) * cb"
  proof -
    have "unat lcn + (v - start) \<le> (unat lcn + n) * 1" using range by simp
    also have "\<dots> \<le> (unat lcn + n) * cb" using cb by (intro mult_le_mono2) simp
    finally show ?thesis .
  qed
  then obtain cluster where cluster: "checked_add lcn (logical div ms_cluster_bytes s - run_vcn run) = Some cluster"
      "unat cluster = unat lcn + (v - start)"
    using inside len delta by (auto simp: checked_add_def unat_add_no_overflow)
  obtain base where base: "checked_mul cluster (ms_cluster_bytes s) = Some base"
      "unat base = (unat lcn + (v - start)) * cb"
    using cluster split inside len by (auto simp: checked_mul_def unat_mult_no_overflow cb_def)
  obtain off where off: "checked_add base (logical mod ms_cluster_bytes s) = Some off"
      "unat off = (unat lcn + (v - start)) * cb + w"
    using base unats split inside len area_w by (auto simp: checked_add_def unat_add_no_overflow)
  have "unat off + min (unat avail) wanted \<le> unat (rd_len r)"
    using off(2) avail(2) area_w split inside by linarith
  from read_total [OF this] obtain bs where "rd_read_exact_at r off (min (unat avail) wanted) = Ok bs" by blast
  with found stop' left bytes avail le cluster base off cb0 run(3) src show ?thesis
    by (simp add: stream_chunk_def Let_def minus_or_panic_def)
qed

lemma mapped_loop_total:
  assumes "stream_ok s" and "ms_source s = r" and "written \<le> n"
    and "\<And>p. unat logical \<le> p \<Longrightarrow> p < unat logical + (n - written) \<Longrightarrow> covered s (p div unat (ms_cluster_bytes s))"
    and "unat logical + (n - written) < 2 ^ 64"
  shows "\<exists>out. stream_loop s logical n written destination = Ok out"
  using assms
proof (induction s logical n written destination rule: stream_loop.induct)
  case (1 s logical n written destination)
  show ?case
  proof (cases "written < n")
    case False
    then show ?thesis by (simp add: stream_loop.simps)
  next
    case True
    have "covered s (unat logical div unat (ms_cluster_bytes s))" using "1.prems"(4) True by simp
    from mapped_chunk_total [OF "1.prems"(1,2) this] obtain count chunk where
        chunk: "stream_chunk s logical (n - written) = Ok (count, chunk)" by blast
    have count: "0 < count" "count \<le> n - written"
      using stream_chunk_progress [OF chunk] True by simp_all
    have sum: "unat logical + count < 2 ^ 64" using "1.prems"(5) count by linarith
    obtain logical' where adv: "checked_add logical (of_nat count) = Some logical'"
      and pos: "unat logical' = unat logical + count"
      using sum stream_chunk_width [OF chunk] by (auto simp: checked_add_def unat_add_no_overflow)
    have left: "unat logical' + (n - (written + count)) = unat logical + (n - written)"
      using pos count True by linarith
    have "\<exists>out. stream_loop s logical' n (written + count) (destination @ chunk) = Ok out"
    proof (rule "1.IH" [OF True chunk refl _ "1.prems"(1,2)])
      show "written + count \<le> n" using count True by linarith
      show "unat logical' + (n - (written + count)) < 2 ^ 64" using left "1.prems"(5) by simp
      show "covered s (p div unat (ms_cluster_bytes s))"
        if "unat logical' \<le> p" "p < unat logical' + (n - (written + count))" for p
        using that left pos by (intro "1.prems"(4)) linarith+
    qed (simp add: adv)
    then show ?thesis
      unfolding stream_loop.simps [of s logical n written destination] using True chunk adv by simp
  qed
qed

lemma validated_read:
  assumes "stream_ok s" and "ms_source s = r" and "validate_complete_non_sparse s = Ok u"
    and "unat off + n \<le> unat (ms_logical_bytes s)"
  shows "\<exists>bs. stream_read_exact_at s off n = Ok bs"
proof -
  have less: "unat off + n < 2 ^ 64"
    using assms(4) unsigned_less [of "ms_logical_bytes s", where ?'a = nat] by simp
  then have "usize_checked_add (unat off) n = Some (unat off + n)" by (simp add: usize_checked_add_def)
  moreover have "\<exists>out. stream_loop s off n 0 [] = Ok out"
    by (rule mapped_loop_total [OF assms(1,2)])
      (use assms(4) less in \<open>auto intro: validate_covers [OF assms(3)]\<close>)
  ultimately show ?thesis using assms(4) by (simp add: stream_read_exact_at_def)
qed

lemma mapped_total_source:
  assumes "stream_ok s" and "ms_source s = r" and "validate_complete_non_sparse s = Ok u"
  shows "total_source (stream_reader s) (stream_content content s) (unat (ms_logical_bytes s))"
proof (rule total_source.intro)
  show "byte_source (stream_reader s) (stream_content content s) (unat (ms_logical_bytes s))"
    by (rule mapped_byte_source [OF assms(1,2)])
  show "total_source_axioms (stream_reader s)"
    using validated_read [OF assms] by (auto simp: total_source_axioms_def stream_reader_def)
qed

end

section \<open>The bootstrap\<close>

lemma sort_references_set: "set (sort_references queue) = set queue"
  by (simp add: sort_references_def)

context byte_source
begin

lemma MappedStream_new_no_panic: "MappedStream_new r' runs cb lb \<noteq> Panic"
proof -
  have "check_mapped_runs r' cb previous_end runs \<noteq> Panic" for previous_end runs
    by (induction runs arbitrary: previous_end) (auto simp: outcome_simps split: option.splits if_splits)
  then show ?thesis unfolding MappedStream_new_def Let_def by (intro panic_intros)
qed

lemma new_read_no_panic:
  "MappedStream_new r runs cb lb = Ok s \<Longrightarrow> stream_read_exact_at s off n \<noteq> Panic"
  by (intro mapped_no_panic) (auto dest: MappedStream_new_ok)

lemma list_references_no_panic: "list_references r cb l \<noteq> Panic"
  by (cases l) (auto simp: outcome_simps MappedStream_new_no_panic parse_attribute_list_no_panic
     parse_attribute_list_entries_def new_read_no_panic)

lemma extension_references_no_panic: "extension_references x r cb \<noteq> Panic"
proof -
  have "references_of_lists r cb ls \<noteq> Panic" for ls
    by (induction ls) (simp_all add: outcome_simps list_references_no_panic)
  then show ?thesis by (simp add: extension_references_def)
qed

lemma validate_no_panic: "stream_ok s \<Longrightarrow> validate_complete_non_sparse s \<noteq> Panic"
proof -
  assume "stream_ok s"
  then have cb: "ms_cluster_bytes s \<noteq> 0" by (rule stream_ok_cluster)
  have "cover_runs required expected runs \<noteq> Panic" for required expected runs
    by (induction runs arbitrary: expected) (auto simp: outcome_simps split: if_splits)
  moreover have "1 \<le> ms_cluster_bytes s" using cb by (simp add: word_le_nat_alt Suc_le_eq unat_gt_0)
  ultimately show ?thesis using cb unfolding validate_complete_non_sparse_def
    by (intro panic_intros)
qed

lemma parse_file_record_not_panic: "parse_file_record bytes options \<noteq> Panic"
  unfolding parse_file_record_def parse_file_record_in_place_def Let_def
  by (intro panic_intros attribute_loop_no_panic) auto

lemma load_extension_no_panic: "load_extension r g valid base x runs queue \<noteq> Panic"
  unfolding load_extension_def
  by (intro panic_intros MappedStream_new_no_panic parse_file_record_not_panic extension_references_no_panic)
    (auto dest: new_read_no_panic)

lemma extension_loop_no_panic:
  "volume = r \<Longrightarrow> extension_loop volume g valid base visited runs queue \<noteq> Panic"
proof (induction volume g valid base visited runs queue rule: extension_loop.induct)
  case (2 volume g valid base visited runs vcn x queue)
  have "extension_loop volume g valid base (x # visited) runs' queue' \<noteq> Panic"
    if "\<not> MAX_MFT_EXTENSIONS < length visited" "x \<notin> set visited"
      "load_extension volume g valid base x runs queue = Ok (runs', queue')" for runs' queue'
    using that "2.IH"(2) [OF that refl "2.prems"] by simp
  with 2 load_extension_no_panic show ?case by (auto simp: outcome_simps split: if_splits)
qed simp

lemma bootstrap_no_panic: "bootstrap_mft r g valid \<noteq> Panic"
  unfolding bootstrap_mft_def Let_def
  by (intro panic_intros read_no_panic parse_file_record_not_panic extension_references_no_panic
      extension_loop_no_panic MappedStream_new_no_panic validate_no_panic refl)
    (auto dest: MappedStream_new_ok)

end

lemma bootstrap_mft_stream:
  assumes "bootstrap_mft r g valid = Ok s"
  shows "stream_ok s" and "ms_source s = r" and "ms_logical_bytes s = valid"
    and "ms_cluster_bytes s = ucast (bytes_per_cluster g)" and "\<exists>u. validate_complete_non_sparse s = Ok u"
proof -
  from assms obtain runs u where new: "MappedStream_new r runs (ucast (bytes_per_cluster g)) valid = Ok s"
    and v: "validate_complete_non_sparse s = Ok u"
    unfolding bootstrap_mft_def Let_def by (elim run_elims) auto
  show "stream_ok s" "ms_source s = r" "ms_logical_bytes s = valid"
    "ms_cluster_bytes s = ucast (bytes_per_cluster g)"
    using MappedStream_new_ok [OF new] by simp_all
  show "\<exists>u. validate_complete_non_sparse s = Ok u" using v by blast
qed

section \<open>Properties\<close>

text \<open>C2. A mapped stream returns exactly the bytes its runs describe: for every volume reader
  that returns its content, every accepted run list (in any order) and every range, a successful
  read is the content of the clusters the runs place there, zeros in sparse runs.\<close>

theorem mapped_stream_reads_runs:
  assumes "byte_source r content len" and "MappedStream_new r runs cb lb = Ok s"
    and "stream_read_exact_at s off n = Ok bs"
  shows "bs = map (stream_content content s) [unat off..<unat off + n] \<and> unat off + n \<le> unat lb"
  using byte_source.mapped_read [OF assms(1) _ _ assms(3)] MappedStream_new_ok [OF assms(2)] by simp

text \<open>C12. The stream the MFT bootstrap returns is complete: every range below the valid length can
  be read, from a cluster of the volume and never from a sparse run.\<close>

theorem bootstrap_mft_complete:
  assumes "total_source volume content len" and "bootstrap_mft volume g valid = Ok s"
    and "unat off + n \<le> unat valid"
  shows "stream_read_exact_at s off n = Ok (map (stream_content content s) [unat off..<unat off + n]) \<and>
    (\<forall>p<unat valid. covered s (p div unat (bytes_per_cluster g)))"
proof -
  note s = bootstrap_mft_stream [OF assms(2)]
  from s(5) obtain u where v: "validate_complete_non_sparse s = Ok u" by blast
  have "byte_source volume content len" using assms(1) by (simp add: total_source_def)
  moreover obtain bs where bs: "stream_read_exact_at s off n = Ok bs"
    using total_source.validated_read [OF assms(1) s(1,2) v] assms(3) s(3) by blast
  moreover have "unat (ucast (bytes_per_cluster g) :: u64) = unat (bytes_per_cluster g)"
    by (simp add: unat_ucast_up)
  ultimately show ?thesis
    using byte_source.mapped_read(1) [OF _ s(1,2) bs] validate_covers [OF v] s(3,4) by simp
qed

text \<open>Bootstrapping the MFT never panics and always terminates, whatever the volume contains
  and whatever geometry it is given.\<close>

theorem bootstrap_mft_no_panic: "bootstrap_mft (slice_reader bytes) g valid \<noteq> Panic"
  by (rule slice_src.bootstrap_no_panic)


text \<open>Eight volume bytes; a run list given out of order, with a hole.\<close>

definition sample_stream :: mapped_stream where
  "sample_stream = \<lparr>ms_source = slice_reader [0, 1, 2, 3, 4, 5, 6, 7],
     ms_runs = [\<lparr>run_vcn = 0, run_cluster_count = 1, run_lcn = Some 2\<rparr>,
                \<lparr>run_vcn = 1, run_cluster_count = 1, run_lcn = None\<rparr>,
                \<lparr>run_vcn = 2, run_cluster_count = 1, run_lcn = Some 1\<rparr>],
     ms_cluster_bytes = 2, ms_logical_bytes = 5\<rparr>"

lemma sample_stream_new:
  "MappedStream_new (slice_reader [0, 1, 2, 3, 4, 5, 6, 7])
     [\<lparr>run_vcn = 2, run_cluster_count = 1, run_lcn = Some 1\<rparr>,
      \<lparr>run_vcn = 0, run_cluster_count = 1, run_lcn = Some 2\<rparr>,
      \<lparr>run_vcn = 1, run_cluster_count = 1, run_lcn = None\<rparr>] 2 5 = Ok sample_stream"
  by (simp add: MappedStream_new_def sample_stream_def slice_reader_def eval_simps word_le_nat_alt)

lemma replicate_2: "replicate 2 x = [x, x]"
  by (simp add: numeral_2_eq_2)

lemma sample_stream_chunks:
  "stream_chunk sample_stream 1 4 = Ok (1, [5])"
  "stream_chunk sample_stream 2 3 = Ok (2, [0, 0])"
  "stream_chunk sample_stream 4 (Suc 0) = Ok (1, [2])"
  "ms_logical_bytes sample_stream = 5"
  by (simp_all add: stream_chunk_def sample_stream_def run_for_vcn_def slice_reader_def
      slice_read_exact_at_def minus_or_panic_def eval_simps word_le_nat_alt replicate_2 cong: obind_weak_cong)

theorem mapped_stream_reads_runs_witness:
  "[5, 0, 0, 2] = map (stream_content (\<lambda>i. [0, 1, 2, 3, 4, 5, 6, 7] ! i) sample_stream) [1..<5] \<and>
     unat (1 :: u64) + 4 \<le> unat (5 :: u64)"
proof -
  have "stream_read_exact_at sample_stream 1 4 = Ok [5, 0, 0, 2]"
    by (simp add: stream_read_exact_at_def stream_loop.simps sample_stream_chunks checked_add_def
        usize_checked_add_def)
  from mapped_stream_reads_runs [OF slice_src.byte_source_axioms sample_stream_new this]
  show ?thesis by simp
qed


text \<open>A two-cluster volume: a record zero whose single run is its own cluster.\<close>

definition sample_mft_used :: "u8 list" where
  "sample_mft_used =
     [0x46, 0x49, 0x4C, 0x45, 48, 0, 2, 0] @ replicate 8 0 @ [3, 0, 1, 0, 56, 0, 1, 0, 136, 0, 0, 0]
     @ replicate 16 0 @ [0, 0, 0, 0] @ [7, 0, 0, 0, 0, 0, 0, 0]
     @ ([0x80, 0, 0, 0, 72, 0, 0, 0, 1, 0, 64, 0, 0, 0, 0, 0] @ replicate 16 0 @ [64] @ replicate 7 0
        @ [0, 2, 0, 0, 0, 0, 0, 0] @ [0, 2, 0, 0, 0, 0, 0, 0] @ [0, 2, 0, 0, 0, 0, 0, 0]
        @ [0x11, 1, 1, 0, 0, 0, 0, 0])
     @ [0xFF, 0xFF, 0xFF, 0xFF, 0, 0, 0, 0]"

definition sample_mft_attribute :: "u8 list" where
  "sample_mft_attribute = [0x80, 0, 0, 0, 72, 0, 0, 0, 1, 0, 64, 0, 0, 0, 0, 0] @ replicate 16 0 @ [64] @ replicate 7 0
        @ [0, 2, 0, 0, 0, 0, 0, 0] @ [0, 2, 0, 0, 0, 0, 0, 0] @ [0, 2, 0, 0, 0, 0, 0, 0]
        @ [0x11, 1, 1, 0, 0, 0, 0, 0]"

definition sample_mft_record :: "u8 list" where
  "sample_mft_record = sample_mft_used @ replicate 374 0 @ [7, 0]"

definition sample_mft_fixed :: "u8 list" where
  "sample_mft_fixed = sample_mft_used @ replicate 374 0 @ [0, 0]"

lemma sample_mft_fixups: "apply_update_sequence_fixups sample_mft_record 512 = Ok sample_mft_fixed"
  by (simp add: apply_update_sequence_fixups_def u16_at_eq sample_mft_record_def sample_mft_fixed_def
     sample_mft_used_def usize_checked_mul_def usize_checked_add_def usize_checked_sub_def idx_def
     nth_append slice_def upt_rec list_update_append cong: obind_weak_cong)

lemma sample_mft_fields:
  "u16_at sample_mft_fixed 20 = Ok 56" "u16_at sample_mft_fixed 22 = Ok 1"
  "u32_at sample_mft_fixed 24 = Ok 136" "u32_at sample_mft_fixed 44 = Ok 0"
  "u64_at sample_mft_fixed 32 = Ok 0" "u16_at sample_mft_fixed 16 = Ok 3"
  "u16_at sample_mft_fixed 18 = Ok 1" "length sample_mft_fixed = 512"
  "u32_at sample_mft_fixed 56 = Ok 0x80" "u32_at sample_mft_fixed 60 = Ok 72"
  "u32_at sample_mft_fixed 128 = Ok 0xFFFFFFFF"
  "sub_slice sample_mft_fixed 56 128 = Ok sample_mft_attribute"
  by (simp_all add: u16_at_eq u32_at_def u64_at_def field_range_def sample_mft_fixed_def
     sample_mft_attribute_def sample_mft_used_def eval_simps nth_append cong: obind_weak_cong)

lemma sample_mft_runs:
  "parse_mapping_pairs [0x11, 1, 1, 0, 0, 0, 0, 0] 0 = Ok [\<lparr>run_vcn = 0, run_cluster_count = 1, run_lcn = Some 1\<rparr>]"
  by (simp add: eval_simps cong: obind_weak_cong)

lemma sample_mft_data:
  "parse_non_resident sample_mft_attribute 0 56 True = Ok \<lparr>da_lowest_vcn = 0, da_highest_vcn = 0,
     da_logical_bytes = 512, da_allocated_bytes = 512, da_initialized_bytes = 512, da_resident = False,
     da_sparse = False, da_compressed = False,
     da_runs = [\<lparr>run_vcn = 0, run_cluster_count = 1, run_lcn = Some 1\<rparr>]\<rparr>"
proof -
  have f: "u64_at sample_mft_attribute 16 = Ok 0" "u64_at sample_mft_attribute 24 = Ok 0"
    "u16_at sample_mft_attribute 32 = Ok 64" "u64_at sample_mft_attribute 40 = Ok 512"
    "u64_at sample_mft_attribute 48 = Ok 512" "u64_at sample_mft_attribute 56 = Ok 512"
    "length sample_mft_attribute = 72"
    "sub_slice sample_mft_attribute 64 72 = Ok [0x11, 1, 1, 0, 0, 0, 0, 0]"
    by (simp_all add: u16_at_eq u64_at_def field_range_def sample_mft_attribute_def eval_simps nth_append
        cong: obind_weak_cong)
  show ?thesis
    by (simp add: parse_non_resident_def f sample_mft_runs checked_add_def checked_sub_def
        cong: obind_weak_cong)
qed

lemma sample_mft_parse_attribute:
  "parse_attribute sample_mft_attribute 0x80 x 56 True =
    Ok (x\<lparr>rec_data := rec_data x @ [\<lparr>da_lowest_vcn = 0, da_highest_vcn = 0,
     da_logical_bytes = 512, da_allocated_bytes = 512, da_initialized_bytes = 512, da_resident = False,
     da_sparse = False, da_compressed = False,
     da_runs = [\<lparr>run_vcn = 0, run_cluster_count = 1, run_lcn = Some 1\<rparr>]\<rparr>]\<rparr>)"
proof -
  have "byte_at sample_mft_attribute 8 = Ok 1" "byte_at sample_mft_attribute 9 = Ok 0"
    "u16_at sample_mft_attribute 10 = Ok 64" "u16_at sample_mft_attribute 12 = Ok 0"
    by (simp_all add: byte_at_def u16_at_eq sample_mft_attribute_def get_at_def nth_append)
  then show ?thesis
    by (simp add: parse_attribute_def attribute_name_def ATTRIBUTE_STANDARD_INFORMATION_def
        ATTRIBUTE_FILE_NAME_def ATTRIBUTE_DATA_def sample_mft_data cong: obind_weak_cong)
qed

lemma sample_mft_parsed:
  "parse_file_record sample_mft_record \<lparr>opt_bytes_per_sector = 512,
       opt_expected_record_number = Some 0, opt_include_data_runs = True\<rparr> =
     Ok \<lparr>rec_record_number = 0, rec_sequence = 3, rec_hard_link_count = 1, rec_in_use = True,
         rec_directory = False, rec_reparse_point = False, rec_reparse_tag = None,
         rec_base_reference = None, rec_modified_ticks = None, rec_names = [],
         rec_data = [\<lparr>da_lowest_vcn = 0, da_highest_vcn = 0,
     da_logical_bytes = 512, da_allocated_bytes = 512, da_initialized_bytes = 512, da_resident = False,
     da_sparse = False, da_compressed = False,
     da_runs = [\<lparr>run_vcn = 0, run_cluster_count = 1, run_lcn = Some 1\<rparr>]\<rparr>],
         rec_attribute_lists = [], rec_named_data_attributes = 0\<rparr>"
proof -
  have loop: "attribute_loop sample_mft_fixed 136 True 56 0 x = Ok (x\<lparr>rec_data := rec_data x @
     [\<lparr>da_lowest_vcn = 0, da_highest_vcn = 0,
     da_logical_bytes = 512, da_allocated_bytes = 512, da_initialized_bytes = 512, da_resident = False,
     da_sparse = False, da_compressed = False,
     da_runs = [\<lparr>run_vcn = 0, run_cluster_count = 1, run_lcn = Some 1\<rparr>]\<rparr>]\<rparr>)" for x
    by (simp add: attribute_loop.simps attribute_step_def sample_mft_fields sample_mft_parse_attribute
      ATTRIBUTE_END_def MAX_ATTRIBUTES_def usize_checked_add_def cong: obind_weak_cong)
  have len: "length sample_mft_record = 512"
    and sig: "sub_slice sample_mft_record 0 4 = Ok FILE_SIGNATURE"
    by (simp_all add: sample_mft_record_def sample_mft_used_def FILE_SIGNATURE_def eval_simps)
  show ?thesis
    by (simp add: parse_file_record_def parse_file_record_in_place_def len sig sample_mft_fixups
      sample_mft_fields loop MAX_RECORD_BYTES_def is_power_of_two.simps
      FileReference_from_raw_def FileReference_is_zero_def RECORD_IN_USE_def RECORD_DIRECTORY_def
      RECORD_REPARSE_def cong: obind_weak_cong)
qed

definition sample_volume :: "u8 list" where
  "sample_volume = replicate 512 0 @ sample_mft_record"

definition sample_geometry :: ntfs_geometry where
  "sample_geometry = \<lparr>bytes_per_sector = 512, sectors_per_cluster = 1, bytes_per_cluster = 512,
     bytes_per_file_record = 512, total_sectors = 2, mft_start_lcn = 1, mft_mirror_lcn = 1,
     volume_serial = 0\<rparr>"

lemma sample_volume_bootstrap:
  "bootstrap_mft (slice_reader sample_volume) sample_geometry 512 = Ok
     \<lparr>ms_source = slice_reader sample_volume,
      ms_runs = [\<lparr>run_vcn = 0, run_cluster_count = 1, run_lcn = Some 1\<rparr>],
      ms_cluster_bytes = 512, ms_logical_bytes = 512\<rparr>"
proof -
  have len: "length sample_mft_record = 512" by (simp add: sample_mft_record_def sample_mft_used_def)
  then have "rd_read_exact_at (slice_reader sample_volume) 512 512 = Ok sample_mft_record"
    and "rd_len (slice_reader sample_volume) = 1024"
    by (simp_all add: slice_reader_def slice_read_Ok sample_volume_def)
  then show ?thesis
    by (simp add: bootstrap_mft_def sample_geometry_def checked_mul_def sample_mft_parsed data_runs_def
        extension_references_def sort_references_def MappedStream_new_def checked_add_def
        validate_complete_non_sparse_def minus_or_panic_def div_or_panic_def word_le_nat_alt
        is_power_of_two.simps cong: obind_weak_cong)
qed

theorem bootstrap_mft_complete_witness:
  "\<exists>s. bootstrap_mft (slice_reader sample_volume) sample_geometry 512 = Ok s \<and>
     stream_read_exact_at s 100 4 = Ok (map (stream_content (\<lambda>i. sample_volume ! i) s) [100..<104])"
proof (intro exI conjI)
  show "bootstrap_mft (slice_reader sample_volume) sample_geometry 512 = Ok
     \<lparr>ms_source = slice_reader sample_volume,
      ms_runs = [\<lparr>run_vcn = 0, run_cluster_count = 1, run_lcn = Some 1\<rparr>],
      ms_cluster_bytes = 512, ms_logical_bytes = 512\<rparr>"
    by (rule sample_volume_bootstrap)
  have "unat (100 :: u64) + 4 \<le> unat (512 :: u64)" by simp
  from bootstrap_mft_complete [OF slice_src.total_source_axioms sample_volume_bootstrap this, THEN conjunct1]
  show "stream_read_exact_at
     \<lparr>ms_source = slice_reader sample_volume,
      ms_runs = [\<lparr>run_vcn = 0, run_cluster_count = 1, run_lcn = Some 1\<rparr>],
      ms_cluster_bytes = 512, ms_logical_bytes = 512\<rparr> 100 4 =
    Ok (map (stream_content (\<lambda>i. sample_volume ! i)
     \<lparr>ms_source = slice_reader sample_volume,
      ms_runs = [\<lparr>run_vcn = 0, run_cluster_count = 1, run_lcn = Some 1\<rparr>],
      ms_cluster_bytes = 512, ms_logical_bytes = 512\<rparr>) [100..<104])"
    by simp
qed

end
