(* ===== verification/NtfsIndex.thy ===== *)
theory NtfsIndex
  imports NtfsRecord "HOL-Library.AList" "HOL-Library.Product_Lexorder" "HOL-Library.List_Lexorder"
begin

text \<open>
  \<open>ferail-ntfs/src/index.rs\<close>: the compact index built from FILE records and the
  traversal of a subtree.  The builder keeps three hash maps; they are association
  lists here, only ever looked up, updated and counted.  The definitions follow the
  file: the builder (\<open>push\<close>, \<open>finish\<close> with its counting sort), the index
  lookups, then the two depth-first walks.
\<close>

unbundle bit_operations_syntax

section \<open>Data\<close>

definition FILE_DIRECTORY :: u16 where "FILE_DIRECTORY = 0x0001"
definition FILE_REPARSE :: u16 where "FILE_REPARSE = 0x0002"
definition FILE_CLOUD_REPARSE :: u16 where "FILE_CLOUD_REPARSE = 0x0004"
definition MAX_BATCH_ROWS :: nat where "MAX_BATCH_ROWS = 256"

record file_meta =
  fm_record :: u64
  fm_logical_bytes :: u64
  fm_allocated_bytes :: u64
  fm_modified_ticks :: u64
  fm_sequence :: u16
  fm_flags :: u16

definition meta_reference :: "file_meta \<Rightarrow> file_reference" where
  "meta_reference m = \<lparr>ref_record = fm_record m, ref_sequence = fm_sequence m\<rparr>"

definition meta_is_directory :: "file_meta \<Rightarrow> bool" where
  "meta_is_directory m \<longleftrightarrow> fm_flags m AND FILE_DIRECTORY \<noteq> 0"

definition meta_is_reparse_point :: "file_meta \<Rightarrow> bool" where
  "meta_is_reparse_point m \<longleftrightarrow> fm_flags m AND FILE_REPARSE \<noteq> 0"

definition meta_is_cloud_reparse :: "file_meta \<Rightarrow> bool" where
  "meta_is_cloud_reparse m \<longleftrightarrow> fm_flags m AND FILE_CLOUD_REPARSE \<noteq> 0"

record name_link =
  nl_parent_record :: u64
  nl_name_offset :: u32
  nl_file_index :: u32
  nl_parent_sequence :: u16
  nl_name_length :: u16
  nl_namespace :: u8

definition link_parent :: "name_link \<Rightarrow> file_reference" where
  "link_parent l = \<lparr>ref_record = nl_parent_record l, ref_sequence = nl_parent_sequence l\<rparr>"

definition link_is_dos_only :: "name_link \<Rightarrow> bool" where
  "link_is_dos_only l \<longleftrightarrow> nl_namespace l = 2"

record child_range =
  cr_start :: u32
  cr_length :: u32

record index_stats =
  st_records_seen :: u64
  st_base_records :: u64
  st_extension_records :: u64
  st_skipped_deleted :: u64
  st_skipped_unlisted_extensions :: u64
  st_stale_or_missing_parent_links :: u64
  st_suppressed_dos_aliases :: u64

record compact_index =
  ix_files :: "file_meta list"
  ix_links :: "name_link list"
  ix_name_arena :: "u16 list"
  ix_record_to_file :: "u32 list"
  ix_children :: "u32 list"
  ix_child_ranges :: "child_range list"
  ix_stats :: index_stats

record pending_extension =
  pe_base :: file_reference
  pe_data :: "data_attribute list"
  pe_names :: "file_name list"
  pe_reparse_point :: bool
  pe_cloud_reparse :: bool

record index_builder =
  ib_files :: "file_meta list"
  ib_links :: "name_link list"
  ib_name_arena :: "u16 list"
  ib_record_to_file :: "u32 list"
  ib_expected_extensions :: "(file_reference \<times> u32) list"
  ib_pending_extensions :: "(file_reference \<times> pending_extension) list"
  ib_pending_by_base :: "(file_reference \<times> file_reference list) list"
  ib_stats :: index_stats

definition stats_default :: index_stats where
  "stats_default = \<lparr>st_records_seen = 0, st_base_records = 0, st_extension_records = 0,
     st_skipped_deleted = 0, st_skipped_unlisted_extensions = 0,
     st_stale_or_missing_parent_links = 0, st_suppressed_dos_aliases = 0\<rparr>"

definition builder_default :: index_builder where
  "builder_default = \<lparr>ib_files = [], ib_links = [], ib_name_arena = [], ib_record_to_file = [],
     ib_expected_extensions = [], ib_pending_extensions = [], ib_pending_by_base = [],
     ib_stats = stats_default\<rparr>"

section \<open>The builder\<close>

text \<open>\<open>u32::try_from\<close> and \<open>u16::try_from\<close> of a length.\<close>

definition u32_of_usize :: "nat \<Rightarrow> u32 option" where
  "u32_of_usize n = (if n < 2 ^ 32 then Some (of_nat n) else None)"

definition u16_of_usize :: "nat \<Rightarrow> u16 option" where
  "u16_of_usize n = (if n < 2 ^ 16 then Some (of_nat n) else None)"

text \<open>\<open>max_by_key\<close>: the last of the greatest elements.\<close>

fun max_by_logical :: "file_name \<Rightarrow> file_name list \<Rightarrow> file_name" where
  "max_by_logical best [] = best"
| "max_by_logical best (n # ns) =
     max_by_logical (if fn_logical_bytes best \<le> fn_logical_bytes n then n else best) ns"

definition primary_sizes :: "data_attribute list \<Rightarrow> file_name list \<Rightarrow> u64 \<times> u64" where
  "primary_sizes data names =
     (case List.find (\<lambda>attribute. da_lowest_vcn attribute = 0) data of
        Some attribute \<Rightarrow> (da_logical_bytes attribute, da_allocated_bytes attribute)
      | None \<Rightarrow>
     (case names of
        [] \<Rightarrow> (0, 0)
      | n # ns \<Rightarrow>
          let best = max_by_logical n ns in (fn_logical_bytes best, fn_allocated_bytes best)))"

fun namespace_raw :: "name_namespace \<Rightarrow> u8" where
  "namespace_raw Posix = 0"
| "namespace_raw Win32 = 1"
| "namespace_raw Dos = 2"
| "namespace_raw Win32AndDos = 3"
| "namespace_raw (OtherNamespace value) = value"

definition lookup_file :: "file_meta list \<Rightarrow> u32 list \<Rightarrow> file_reference \<Rightarrow> (u32 \<times> file_meta) option" where
  "lookup_file files record_to_file reference =
     (case get_at record_to_file (unat (ref_record reference)) of None \<Rightarrow> None
      | Some encoded \<Rightarrow>
     (case checked_sub encoded 1 of None \<Rightarrow> None
      | Some index \<Rightarrow>
     (case get_at files (unat index) of None \<Rightarrow> None
      | Some meta \<Rightarrow> if fm_sequence meta = ref_sequence reference then Some (index, meta) else None)))"

definition builder_file :: "index_builder \<Rightarrow> file_reference \<Rightarrow> (u32 \<times> file_meta) option" where
  "builder_file b reference = lookup_file (ib_files b) (ib_record_to_file b) reference"

fun append_names :: "index_builder \<Rightarrow> u32 \<Rightarrow> file_name list \<Rightarrow> index_builder ntfs_result" where
  "append_names b file_index [] = Ok b"
| "append_names b file_index (name # names) =
     (if 2 ^ 32 - 1 \<le> length (ib_links b) then
        Err (NtfsError_new LimitExceeded (of_nat (length (ib_links b))) ''more than u32::MAX filename links'')
      else
      obind (ok_or (u32_of_usize (length (ib_name_arena b)))
               (NtfsError_new LimitExceeded (of_nat (length (ib_name_arena b)))
                  ''UTF-16 name arena exceeds u32'')) (\<lambda>name_offset.
      obind (ok_or (u16_of_usize (length (fn_name name)))
               (NtfsError_new LimitExceeded (of_nat (length (fn_name name)))
                  ''NTFS name exceeds u16'')) (\<lambda>name_length.
      append_names
        (b\<lparr>ib_name_arena := ib_name_arena b @ fn_name name,
           ib_links := ib_links b @
             [\<lparr>nl_parent_record = ref_record (fn_parent name), nl_name_offset = name_offset,
               nl_file_index = file_index, nl_parent_sequence = ref_sequence (fn_parent name),
               nl_name_length = name_length, nl_namespace = namespace_raw (fn_namespace name)\<rparr>]\<rparr>)
        file_index names)))"

definition merged_meta :: "file_meta \<Rightarrow> pending_extension \<Rightarrow> file_meta" where
  "merged_meta meta extension =
     (let sized = (case List.find (\<lambda>data. da_lowest_vcn data = 0) (pe_data extension) of
                     Some primary \<Rightarrow> meta\<lparr>fm_logical_bytes := da_logical_bytes primary,
                                       fm_allocated_bytes := da_allocated_bytes primary\<rparr>
                   | None \<Rightarrow> meta);
          reparse = (if pe_reparse_point extension
                     then sized\<lparr>fm_flags := fm_flags sized OR FILE_REPARSE\<rparr> else sized) in
      if pe_cloud_reparse extension
      then reparse\<lparr>fm_flags := fm_flags reparse OR FILE_CLOUD_REPARSE\<rparr> else reparse)"

definition merge_extension :: "index_builder \<Rightarrow> u32 \<Rightarrow> pending_extension \<Rightarrow> index_builder ntfs_result" where
  "merge_extension b file_index extension =
     obind (idx (ib_files b) (unat file_index)) (\<lambda>meta.
     if meta_reference meta \<noteq> pe_base extension then
       Ok (b\<lparr>ib_stats := (ib_stats b)\<lparr>st_skipped_unlisted_extensions :=
             saturating_add (st_skipped_unlisted_extensions (ib_stats b)) 1\<rparr>\<rparr>)
     else
       append_names (b\<lparr>ib_files := (ib_files b)[unat file_index := merged_meta meta extension]\<rparr>)
         file_index (pe_names extension))"

text \<open>Take the pending extensions of a list of references and merge each.\<close>

fun merge_pending :: "index_builder \<Rightarrow> u32 \<Rightarrow> file_reference list \<Rightarrow> index_builder ntfs_result" where
  "merge_pending b file_index [] = Ok b"
| "merge_pending b file_index (reference # references) =
     (case map_of (ib_pending_extensions b) reference of
        Some pending \<Rightarrow>
          obind (merge_extension
                   (b\<lparr>ib_pending_extensions := AList.delete reference (ib_pending_extensions b)\<rparr>)
                   file_index pending) (\<lambda>b.
          merge_pending b file_index references)
      | None \<Rightarrow> merge_pending b file_index references)"

definition foreign_references :: "file_record \<Rightarrow> file_reference list" where
  "foreign_references r =
     map ale_record
       (filter (\<lambda>entry. ref_record (ale_record entry) \<noteq> rec_record_number r \<or>
                        ref_sequence (ale_record entry) \<noteq> rec_sequence r)
         (concat (map (\<lambda>l. case l of ListResident entries \<Rightarrow> entries | ListNonResident _ _ _ _ \<Rightarrow> [])
           (rec_attribute_lists r))))"

text \<open>\<open>Vec::resize(n, 0)\<close> to a greater length.\<close>

definition resize_zero :: "u32 list \<Rightarrow> nat \<Rightarrow> u32 list" where
  "resize_zero xs n = xs @ replicate (n - length xs) 0"

definition record_flags :: "file_record \<Rightarrow> u16" where
  "record_flags r =
     (if rec_directory r then FILE_DIRECTORY else 0) OR
     (if rec_reparse_point r then FILE_REPARSE else 0) OR
     (if is_cloud_reparse r then FILE_CLOUD_REPARSE else 0)"

definition base_meta :: "file_record \<Rightarrow> file_meta" where
  "base_meta r =
     (let sizes = primary_sizes (rec_data r) (rec_names r) in
      \<lparr>fm_record = rec_record_number r, fm_logical_bytes = fst sizes, fm_allocated_bytes = snd sizes,
       fm_modified_ticks = (case rec_modified_ticks r of Some t \<Rightarrow> t | None \<Rightarrow> 0),
       fm_sequence = rec_sequence r, fm_flags = record_flags r\<rparr>)"

definition reserve_slot :: "index_builder \<Rightarrow> file_record \<Rightarrow> index_builder ntfs_result" where
  "reserve_slot b r =
     (let record_slot = unat (rec_record_number r) in
      if length (ib_record_to_file b) \<le> record_slot then
        obind (ok_or (usize_checked_add record_slot 1)
                 (NtfsError_new Overflow (rec_record_number r) ''record map size overflow''))
          (\<lambda>n. Ok (b\<lparr>ib_record_to_file := resize_zero (ib_record_to_file b) n\<rparr>))
      else Ok b)"

text \<open>The base record is in the tables: count it and collect the extensions it waits for.\<close>

definition expect_extensions :: "index_builder \<Rightarrow> u32 \<Rightarrow> file_reference list \<Rightarrow> index_builder" where
  "expect_extensions b file_index expected =
     b\<lparr>ib_stats := (ib_stats b)\<lparr>st_base_records := saturating_add (st_base_records (ib_stats b)) 1\<rparr>,
       ib_expected_extensions :=
         fold (\<lambda>reference m. AList.update reference file_index m) expected (ib_expected_extensions b)\<rparr>"

definition push_base :: "index_builder \<Rightarrow> file_record \<Rightarrow> index_builder ntfs_result" where
  "push_base b r =
     (let record_slot = unat (rec_record_number r) in
      obind (reserve_slot b r) (\<lambda>b.
      obind (idx (ib_record_to_file b) record_slot) (\<lambda>occupied.
      if occupied \<noteq> 0 then
        Err (NtfsError_new InvalidAttribute (rec_record_number r) ''duplicate live base record'')
      else
      obind (ok_or (u32_of_usize (length (ib_files b)))
               (NtfsError_new LimitExceeded (rec_record_number r) ''more than u32::MAX base records''))
        (\<lambda>file_index.
      obind (append_names
               (b\<lparr>ib_files := ib_files b @ [base_meta r],
                  ib_record_to_file := (ib_record_to_file b)[record_slot := saturating_add file_index 1]\<rparr>)
               file_index (rec_names r)) (\<lambda>b.
      let expected_for_file = foreign_references r in
      obind (merge_pending (expect_extensions b file_index expected_for_file) file_index expected_for_file) (\<lambda>b.
      let base_reference = \<lparr>ref_record = rec_record_number r, ref_sequence = rec_sequence r\<rparr> in
      case map_of (ib_pending_by_base b) base_reference of
        Some references \<Rightarrow>
          merge_pending (b\<lparr>ib_pending_by_base := AList.delete base_reference (ib_pending_by_base b)\<rparr>)
            file_index references
      | None \<Rightarrow> Ok b))))))"

definition push_extension :: "index_builder \<Rightarrow> file_reference \<Rightarrow> file_record \<Rightarrow> index_builder ntfs_result" where
  "push_extension b base r =
     (let own_reference = \<lparr>ref_record = rec_record_number r, ref_sequence = rec_sequence r\<rparr>;
          pending = \<lparr>pe_base = base, pe_data = rec_data r, pe_names = rec_names r,
                     pe_reparse_point = rec_reparse_point r, pe_cloud_reparse = is_cloud_reparse r\<rparr>;
          park = b\<lparr>ib_pending_by_base := AList.update base
                     ((case map_of (ib_pending_by_base b) base of Some refs \<Rightarrow> refs | None \<Rightarrow> []) @ [own_reference])
                     (ib_pending_by_base b),
                   ib_pending_extensions := AList.update own_reference pending (ib_pending_extensions b)\<rparr> in
      case builder_file b base of
        Some (owner, _) \<Rightarrow> merge_extension b owner pending
      | None \<Rightarrow>
     (case map_of (ib_expected_extensions b) own_reference of
        Some owner \<Rightarrow>
          obind (idx (ib_files b) (unat owner)) (\<lambda>meta.
          if meta_reference meta = base then merge_extension b owner pending else Ok park)
      | None \<Rightarrow> Ok park))"

definition push :: "index_builder \<Rightarrow> file_record \<Rightarrow> index_builder ntfs_result" where
  "push b r =
     (let b = b\<lparr>ib_stats := (ib_stats b)\<lparr>st_records_seen := saturating_add (st_records_seen (ib_stats b)) 1\<rparr>\<rparr> in
      if \<not> rec_in_use r then
        Ok (b\<lparr>ib_stats := (ib_stats b)\<lparr>st_skipped_deleted := saturating_add (st_skipped_deleted (ib_stats b)) 1\<rparr>\<rparr>)
      else
      case rec_base_reference r of
        Some base \<Rightarrow>
          push_extension (b\<lparr>ib_stats := (ib_stats b)\<lparr>st_extension_records :=
             saturating_add (st_extension_records (ib_stats b)) 1\<rparr>\<rparr>) base r
      | None \<Rightarrow> push_base b r)"

fun push_all :: "index_builder \<Rightarrow> file_record list \<Rightarrow> index_builder ntfs_result" where
  "push_all b [] = Ok b"
| "push_all b (r # rs) = obind (push b r) (\<lambda>b. push_all b rs)"

section \<open>Finishing the index\<close>

definition arena_name :: "u16 list \<Rightarrow> name_link \<Rightarrow> u16 list" where
  "arena_name arena l =
     (let start = unat (nl_name_offset l) in
      case slice arena start (start + unat (nl_name_length l)) of Some name \<Rightarrow> name | None \<Rightarrow> [])"

definition real_link_keys :: "name_link list \<Rightarrow> (u32 \<times> file_reference) list" where
  "real_link_keys links =
     map (\<lambda>l. (nl_file_index l, link_parent l)) (filter (\<lambda>l. \<not> link_is_dos_only l) links)"

definition suppressed_dos :: "name_link list \<Rightarrow> name_link \<Rightarrow> bool" where
  "suppressed_dos links l \<longleftrightarrow>
     link_is_dos_only l \<and> (nl_file_index l, link_parent l) \<in> set (real_link_keys links)"

text \<open>
  One link of the counting pass: its parent's slot and the updated counts.  \<open>u32::MAX\<close>
  marks a link without a parent.
\<close>

fun count_links ::
    "name_link list \<Rightarrow> (name_link \<Rightarrow> (u32 \<times> file_meta) option) \<Rightarrow> name_link list \<Rightarrow> u32 list \<Rightarrow> index_stats
       \<Rightarrow> (u32 list \<times> u32 list \<times> index_stats) ntfs_result" where
  "count_links all_links parent_of [] counts stats = Ok ([], counts, stats)"
| "count_links all_links parent_of (l # links) counts stats =
     (if suppressed_dos all_links l then
        obind (count_links all_links parent_of links counts stats) (\<lambda>(parents, counts, stats).
        Ok (- 1 # parents, counts, stats))
      else
      case parent_of l of
        None \<Rightarrow>
          obind (count_links all_links parent_of links counts
                   (stats\<lparr>st_stale_or_missing_parent_links :=
                      saturating_add (st_stale_or_missing_parent_links stats) 1\<rparr>))
            (\<lambda>(parents, counts, stats). Ok (- 1 # parents, counts, stats))
      | Some (parent_index, _) \<Rightarrow>
          obind (idx counts (unat parent_index)) (\<lambda>count.
          obind (ok_or (checked_add count 1)
                   (NtfsError_new LimitExceeded (ucast parent_index)
                      ''directory has more than u32::MAX links'')) (\<lambda>count.
          obind (count_links all_links parent_of links (counts[unat parent_index := count]) stats)
            (\<lambda>(parents, counts, stats). Ok (parent_index # parents, counts, stats)))))"

fun ranges_of_counts :: "u32 \<Rightarrow> u32 list \<Rightarrow> (child_range list \<times> u32) ntfs_result" where
  "ranges_of_counts valid_count [] = Ok ([], valid_count)"
| "ranges_of_counts valid_count (count # counts) =
     obind (ok_or (checked_add valid_count count)
              (NtfsError_new LimitExceeded (ucast valid_count)
                 ''more than u32::MAX valid filename links'')) (\<lambda>valid_count'.
     obind (ranges_of_counts valid_count' counts) (\<lambda>(ranges, total).
     Ok (\<lparr>cr_start = valid_count, cr_length = count\<rparr> # ranges, total)))"

fun place_links :: "nat \<Rightarrow> u32 list \<Rightarrow> u32 list \<Rightarrow> u32 list \<Rightarrow> u32 list ntfs_result" where
  "place_links link_index [] cursors children = Ok children"
| "place_links link_index (parent # parents) cursors children =
     (if parent = - 1 then place_links (link_index + 1) parents cursors children
      else
      obind (idx cursors (unat parent)) (\<lambda>cursor.
      obind (ok_or (u32_of_usize link_index)
               (NtfsError_new LimitExceeded (of_nat link_index) ''more than u32::MAX filename links''))
        (\<lambda>link.
      obind (idx children (unat cursor)) (\<lambda>_.
      place_links (link_index + 1) parents (cursors[unat parent := cursor + 1])
        (children[unat cursor := link])))))"

text \<open>The order of one directory's links: by name, then by link index.\<close>

definition link_key :: "name_link list \<Rightarrow> u16 list \<Rightarrow> u32 \<Rightarrow> u16 list \<times> u32" where
  "link_key links arena i = (arena_name arena (links ! unat i), i)"

fun sort_ranges :: "name_link list \<Rightarrow> u16 list \<Rightarrow> child_range list \<Rightarrow> u32 list \<Rightarrow> u32 list ntfs_result" where
  "sort_ranges links arena [] children = Ok children"
| "sort_ranges links arena (rng # ranges) children =
     (let start = unat (cr_start rng); stop = start + unat (cr_length rng) in
      obind (sub_slice children start stop) (\<lambda>part.
      if list_ex (\<lambda>i. length links \<le> unat i) part \<and> 1 < length part then Panic
      else
      sort_ranges links arena ranges
        (take start children @ sort_key (link_key links arena) part @ drop stop children)))"

definition finish :: "index_builder \<Rightarrow> compact_index ntfs_result" where
  "finish b =
     (let stats = (ib_stats b)\<lparr>st_skipped_unlisted_extensions :=
            saturating_add (st_skipped_unlisted_extensions (ib_stats b))
              (of_nat (length (ib_pending_extensions b)))\<rparr>;
          suppressed = length (filter (suppressed_dos (ib_links b)) (ib_links b));
          stats = stats\<lparr>st_suppressed_dos_aliases :=
            ((\<lambda>n. saturating_add n 1) ^^ suppressed) (st_suppressed_dos_aliases stats)\<rparr> in
      obind (count_links (ib_links b) (\<lambda>l. builder_file b (link_parent l)) (ib_links b)
               (replicate (length (ib_files b)) 0) stats) (\<lambda>(link_parents, child_counts, stats).
      obind (ranges_of_counts 0 child_counts) (\<lambda>(child_ranges, valid_count).
      obind (place_links 0 link_parents (map cr_start child_ranges)
               (replicate (unat valid_count) 0)) (\<lambda>children.
      obind (sort_ranges (ib_links b) (ib_name_arena b) child_ranges children) (\<lambda>children.
      Ok \<lparr>ix_files = ib_files b, ix_links = ib_links b, ix_name_arena = ib_name_arena b,
          ix_record_to_file = ib_record_to_file b, ix_children = children,
          ix_child_ranges = child_ranges, ix_stats = stats\<rparr>)))))"

section \<open>Lookups\<close>

definition index_file :: "compact_index \<Rightarrow> file_reference \<Rightarrow> (u32 \<times> file_meta) option" where
  "index_file ix reference = lookup_file (ix_files ix) (ix_record_to_file ix) reference"

definition file_by_record_number :: "compact_index \<Rightarrow> u64 \<Rightarrow> (u32 \<times> file_meta) option" where
  "file_by_record_number ix r =
     (case get_at (ix_record_to_file ix) (unat r) of None \<Rightarrow> None
      | Some encoded \<Rightarrow>
     (case checked_sub encoded 1 of None \<Rightarrow> None
      | Some index \<Rightarrow>
     (case get_at (ix_files ix) (unat index) of None \<Rightarrow> None
      | Some meta \<Rightarrow> Some (index, meta))))"

definition raw_name :: "compact_index \<Rightarrow> name_link \<Rightarrow> u16 list" where
  "raw_name ix l = arena_name (ix_name_arena ix) l"

definition children_of :: "compact_index \<Rightarrow> u32 \<Rightarrow> u32 list" where
  "children_of ix file_index =
     (case get_at (ix_child_ranges ix) (unat file_index) of
        None \<Rightarrow> []
      | Some rng \<Rightarrow>
          (let start = unat (cr_start rng) in
           case slice (ix_children ix) start (start + unat (cr_length rng)) of
             Some cs \<Rightarrow> cs | None \<Rightarrow> []))"

section \<open>Rows\<close>

datatype neutral_node_kind = KFile | KDirectory | KReparseDirectory | KOpaquePackage

record neutral_row =
  nr_id :: u64
  nr_parent_id :: u64
  nr_file_record :: file_reference
  nr_kind :: neutral_node_kind
  nr_raw_name :: "u16 list"
  nr_display_name :: rust_string
  nr_logical_bytes :: u64
  nr_allocated_bytes :: u64
  nr_modified_ticks :: u64

record traversal_options =
  to_root_id :: u64
  to_first_child_id :: u64
  to_batch_rows :: nat
  to_descend_packages :: bool

record traversal_summary =
  ts_rows :: u64
  ts_logical_bytes :: u64
  ts_allocated_bytes :: u64
  ts_cycles_skipped :: u64

definition TraversalOptions_default :: traversal_options where
  "TraversalOptions_default = \<lparr>to_root_id = 1, to_first_child_id = 2, to_batch_rows = MAX_BATCH_ROWS,
     to_descend_packages = False\<rparr>"

text \<open>\<open>String::from_utf16_lossy\<close>: surrogate pairs are joined, a lone surrogate becomes U+FFFD.\<close>

fun from_utf16_lossy :: "u16 list \<Rightarrow> rust_string" where
  "from_utf16_lossy [] = []"
| "from_utf16_lossy (u # us) =
     (if u AND 0xF800 \<noteq> 0xD800 then ucast u # from_utf16_lossy us
      else if 0xDC00 \<le> u then 0xFFFD # from_utf16_lossy us
      else
      case us of
        [] \<Rightarrow> [0xFFFD]
      | v # vs \<Rightarrow>
          if v < 0xDC00 \<or> 0xDFFF < v then 0xFFFD # from_utf16_lossy us
          else ((push_bit 10 (ucast (u AND 0x3FF)) OR ucast (v AND 0x3FF)) + 0x10000) # from_utf16_lossy vs)"

definition ascii_lower :: "nat \<Rightarrow> nat" where
  "ascii_lower c = (if 65 \<le> c \<and> c \<le> 90 then c + 32 else c)"

text \<open>The package extensions, as ASCII codes: app, bundle, framework, plugin, kext, xcodeproj.\<close>

definition package_extensions :: "nat list list" where
  "package_extensions =
     [[97, 112, 112], [98, 117, 110, 100, 108, 101], [102, 114, 97, 109, 101, 119, 111, 114, 107],
      [112, 108, 117, 103, 105, 110], [107, 101, 120, 116], [120, 99, 111, 100, 101, 112, 114, 111, 106]]"

text \<open>What follows the last dot, if there is one.\<close>

fun after_last_dot :: "u16 list \<Rightarrow> u16 list option" where
  "after_last_dot [] = None"
| "after_last_dot (u # us) =
     (case after_last_dot us of Some ext \<Rightarrow> Some ext | None \<Rightarrow> if u = 0x2E then Some us else None)"

definition is_package_name :: "u16 list \<Rightarrow> bool" where
  "is_package_name name =
     (case after_last_dot name of
        None \<Rightarrow> False
      | Some extension \<Rightarrow>
          list_ex (\<lambda>candidate. length extension = length candidate \<and>
            list_all (\<lambda>(left, right). unat left < 256 \<and> ascii_lower (unat left) = ascii_lower right)
              (zip extension candidate)) package_extensions)"

section \<open>Charging\<close>

definition charge_file ::
    "u32 \<Rightarrow> file_meta \<Rightarrow> bool list \<Rightarrow> ((u64 \<times> u64) \<times> bool list) ntfs_result" where
  "charge_file file_index file charged =
     obind (idx charged (unat file_index)) (\<lambda>slot.
     if slot then Ok ((0, 0), charged)
     else Ok ((fm_logical_bytes file, fm_allocated_bytes file), charged[unat file_index := True]))"

text \<open>
  A measure for both depth-first walks.  A stack is abstracted to its exit frames; a visit costs
  as much as a whole walk over the files that are not ancestors when it is reached.
\<close>

fun dfs_cost :: "nat \<Rightarrow> nat \<Rightarrow> nat" where
  "dfs_cost fanout 0 = 1"
| "dfs_cost fanout (Suc k) = 2 + fanout * dfs_cost fanout k"

fun dfs_measure :: "nat \<Rightarrow> bool list \<Rightarrow> nat option list \<Rightarrow> nat" where
  "dfs_measure fanout ancestors [] = 0"
| "dfs_measure fanout ancestors (Some f # frames) = 1 + dfs_measure fanout (ancestors[f := False]) frames"
| "dfs_measure fanout ancestors (None # frames) =
     dfs_cost fanout (length (filter Not ancestors)) + dfs_measure fanout ancestors frames"

lemma dfs_cost_pos: "0 < dfs_cost fanout k"
  by (cases k) simp_all

lemma dfs_measure_visits:
  "dfs_measure fanout ancestors (replicate m None @ frames)
     = m * dfs_cost fanout (length (filter Not ancestors)) + dfs_measure fanout ancestors frames"
  by (induction m) simp_all

lemma filter_Not_update:
  "f < length xs \<Longrightarrow> \<not> xs ! f \<Longrightarrow> length (filter Not xs) = Suc (length (filter Not (xs[f := True])))"
proof (induction xs arbitrary: f)
  case (Cons x xs)
  then show ?case by (cases f) auto
qed simp

lemma dfs_measure_enter:
  assumes "f < length ancestors" and "\<not> ancestors ! f" and "m \<le> fanout"
  shows "dfs_measure fanout (ancestors[f := True]) (replicate m None @ Some f # frames)
    < dfs_measure fanout ancestors (None # frames)"
proof -
  let ?k = "length (filter Not (ancestors[f := True]))"
  have k: "length (filter Not ancestors) = Suc ?k" by (rule filter_Not_update [OF assms(1,2)])
  have undo: "ancestors[f := False] = ancestors"
    using assms(2) list_update_id [of ancestors f] by simp
  have "m * dfs_cost fanout ?k \<le> fanout * dfs_cost fanout ?k" using assms(3) by (rule mult_le_mono1)
  then have "m * dfs_cost fanout ?k < Suc (fanout * dfs_cost fanout ?k)" by (rule le_imp_less_Suc)
  then show ?thesis by (simp add: dfs_measure_visits k undo)
qed

lemma dfs_measure_pop: "dfs_measure fanout ancestors frames < dfs_measure fanout ancestors (None # frames)"
  by (simp add: dfs_cost_pos)

lemma children_of_fanout: "length (children_of ix f) \<le> length (ix_children ix)"
  by (auto simp: children_of_def Let_def outcome_simps split: option.splits)

text \<open>
  \<open>charge_hidden_subtree\<close>: one turn of the loop on the popped frame \<open>(file_index, exiting)\<close>.
\<close>

record hidden_state =
  hs_stack :: "(u32 \<times> bool) list"
  hs_ancestors :: "bool list"
  hs_charged :: "bool list"
  hs_logical :: u64
  hs_allocated :: u64
  hs_cycles :: u64

fun push_targets :: "compact_index \<Rightarrow> u32 list \<Rightarrow> (u32 \<times> bool) list ntfs_result" where
  "push_targets ix [] = Ok []"
| "push_targets ix (l # ls) =
     obind (idx (ix_links ix) (unat l)) (\<lambda>link.
     obind (push_targets ix ls) (\<lambda>frames. Ok ((nl_file_index link, False) # frames)))"

definition hidden_step ::
    "compact_index \<Rightarrow> u32 \<Rightarrow> bool \<Rightarrow> hidden_state \<Rightarrow> hidden_state ntfs_result" where
  "hidden_step ix file_index exiting st =
     (if exiting then
        obind (idx (hs_ancestors st) (unat file_index)) (\<lambda>_.
        Ok (st\<lparr>hs_ancestors := (hs_ancestors st)[unat file_index := False]\<rparr>))
      else
      obind (idx (ix_files ix) (unat file_index)) (\<lambda>file.
      if \<not> meta_is_directory file then
        obind (charge_file file_index file (hs_charged st)) (\<lambda>((logical, allocated), charged).
        Ok (st\<lparr>hs_charged := charged, hs_logical := saturating_add (hs_logical st) logical,
               hs_allocated := saturating_add (hs_allocated st) allocated\<rparr>))
      else
      obind (idx (hs_ancestors st) (unat file_index)) (\<lambda>ancestor.
      if ancestor then Ok (st\<lparr>hs_cycles := saturating_add (hs_cycles st) 1\<rparr>)
      else
      obind (push_targets ix (children_of ix file_index)) (\<lambda>frames.
      Ok (st\<lparr>hs_ancestors := (hs_ancestors st)[unat file_index := True],
             hs_stack := frames @ (file_index, True) # hs_stack st\<rparr>)))))"

definition hidden_frames :: "(u32 \<times> bool) list \<Rightarrow> nat option list" where
  "hidden_frames stack = map (\<lambda>(f, exiting). if exiting then Some (unat f) else None) stack"

lemma push_targets_frames:
  "push_targets ix ls = Ok frames \<Longrightarrow> hidden_frames frames = replicate (length ls) None"
  by (induction ls arbitrary: frames) (auto simp: outcome_simps hidden_frames_def)

lemma hidden_step_measure:
  assumes "hidden_step ix f exiting (st\<lparr>hs_stack := rest\<rparr>) = Ok st'"
  shows "dfs_measure (length (ix_children ix)) (hs_ancestors st') (hidden_frames (hs_stack st'))
    < dfs_measure (length (ix_children ix)) (hs_ancestors st) (hidden_frames ((f, exiting) # rest))"
proof (cases exiting)
  case True
  with assms show ?thesis by (auto simp: hidden_step_def outcome_simps hidden_frames_def)
next
  case False
  show ?thesis
  proof (cases "hs_stack st' = rest \<and> hs_ancestors st' = hs_ancestors st")
    case True
    with False show ?thesis by (simp add: hidden_frames_def dfs_cost_pos)
  next
    case moved: False
    with assms False obtain frames where anc: "unat f < length (hs_ancestors st)" "\<not> hs_ancestors st ! unat f"
      and frames: "push_targets ix (children_of ix f) = Ok frames"
      and st': "hs_ancestors st' = (hs_ancestors st)[unat f := True]" "hs_stack st' = frames @ (f, True) # rest"
      by (auto simp: hidden_step_def outcome_simps charge_file_def split: if_splits)
    have "hidden_frames (hs_stack st') = replicate (length (children_of ix f)) None @ Some (unat f) # hidden_frames rest"
      using push_targets_frames [OF frames] by (simp add: st' hidden_frames_def)
    with dfs_measure_enter [OF anc children_of_fanout, of ix f "hidden_frames rest"] False
    show ?thesis by (simp add: st' hidden_frames_def)
  qed
qed

function hidden_loop :: "compact_index \<Rightarrow> hidden_state \<Rightarrow> hidden_state ntfs_result" where
  "hidden_loop ix st =
     (case hs_stack st of
        [] \<Rightarrow> Ok st
      | (file_index, exiting) # rest \<Rightarrow>
          obind (hidden_step ix file_index exiting (st\<lparr>hs_stack := rest\<rparr>)) (\<lambda>st'.
          hidden_loop ix st'))"
  by pat_completeness auto
termination
  by (relation "measure (\<lambda>(ix, st). dfs_measure (length (ix_children ix)) (hs_ancestors st)
      (hidden_frames (hs_stack st)))") (auto dest!: hidden_step_measure)

declare hidden_loop.simps [simp del]

definition charge_hidden_subtree ::
    "compact_index \<Rightarrow> u32 \<Rightarrow> bool list \<Rightarrow> u64 \<Rightarrow> ((u64 \<times> u64) \<times> bool list \<times> u64) ntfs_result" where
  "charge_hidden_subtree ix root charged cycles =
     obind (hidden_loop ix \<lparr>hs_stack = [(root, False)], hs_ancestors = replicate (length (ix_files ix)) False,
              hs_charged = charged, hs_logical = 0, hs_allocated = 0, hs_cycles = cycles\<rparr>) (\<lambda>st.
     Ok ((hs_logical st, hs_allocated st), hs_charged st, hs_cycles st))"

section \<open>Walking a subtree\<close>

datatype frame = Visit (visit_link: u32) (visit_parent: u64) | ExitDirectory u32

record walk_state =
  ws_stack :: "frame list"
  ws_charged :: "bool list"
  ws_ancestors :: "bool list"
  ws_next_id :: u64
  ws_batch :: "neutral_row list"
  ws_batches :: "neutral_row list list"
  ws_summary :: traversal_summary

definition row_kind :: "compact_index \<Rightarrow> traversal_options \<Rightarrow> name_link \<Rightarrow> file_meta \<Rightarrow> neutral_node_kind" where
  "row_kind ix options link file =
     (let opaque = meta_is_directory file \<and> \<not> to_descend_packages options \<and> is_package_name (raw_name ix link);
          has_indexed_children = (children_of ix (nl_file_index link) \<noteq> []) in
      if opaque then KOpaquePackage
      else if meta_is_directory file \<and> meta_is_reparse_point file \<and> \<not> has_indexed_children
        then KReparseDirectory
      else if meta_is_directory file then KDirectory
      else KFile)"

definition charge_row ::
    "compact_index \<Rightarrow> neutral_node_kind \<Rightarrow> u32 \<Rightarrow> file_meta \<Rightarrow> walk_state \<Rightarrow> ((u64 \<times> u64) \<times> walk_state) ntfs_result" where
  "charge_row ix kind file_index file ws =
     (case kind of
        KFile \<Rightarrow>
          obind (charge_file file_index file (ws_charged ws)) (\<lambda>(bytes, charged).
          Ok (bytes, ws\<lparr>ws_charged := charged\<rparr>))
      | KOpaquePackage \<Rightarrow>
          obind (charge_hidden_subtree ix file_index (ws_charged ws) (ts_cycles_skipped (ws_summary ws)))
            (\<lambda>(bytes, charged, cycles).
          Ok (bytes, ws\<lparr>ws_charged := charged, ws_summary := (ws_summary ws)\<lparr>ts_cycles_skipped := cycles\<rparr>\<rparr>))
      | _ \<Rightarrow> Ok ((0, 0), ws))"

text \<open>Entering a directory: a cycle is only counted, otherwise its exit and its links are pushed.\<close>

definition enter_directory :: "compact_index \<Rightarrow> u32 \<Rightarrow> u64 \<Rightarrow> walk_state \<Rightarrow> walk_state ntfs_result" where
  "enter_directory ix file_index row_id ws =
     obind (idx (ws_ancestors ws) (unat file_index)) (\<lambda>ancestor.
     if ancestor then
       Ok (ws\<lparr>ws_summary := (ws_summary ws)\<lparr>ts_cycles_skipped :=
              saturating_add (ts_cycles_skipped (ws_summary ws)) 1\<rparr>\<rparr>)
     else
       Ok (ws\<lparr>ws_ancestors := (ws_ancestors ws)[unat file_index := True],
              ws_stack := map (\<lambda>child. Visit child row_id) (children_of ix file_index)
                @ ExitDirectory file_index # ws_stack ws\<rparr>))"

definition clamp_batch :: "traversal_options \<Rightarrow> nat" where
  "clamp_batch options = max 1 (min (to_batch_rows options) MAX_BATCH_ROWS)"

definition flush_full :: "nat \<Rightarrow> walk_state \<Rightarrow> walk_state" where
  "flush_full batch_rows ws =
     (if length (ws_batch ws) = batch_rows
      then ws\<lparr>ws_batches := ws_batches ws @ [ws_batch ws], ws_batch := []\<rparr> else ws)"

definition row_of ::
    "compact_index \<Rightarrow> traversal_options \<Rightarrow> name_link \<Rightarrow> file_meta \<Rightarrow> u64 \<Rightarrow> u64 \<Rightarrow> u64 \<times> u64 \<Rightarrow> neutral_row" where
  "row_of ix options link file row_id parent_id bytes =
     \<lparr>nr_id = row_id, nr_parent_id = parent_id, nr_file_record = meta_reference file,
      nr_kind = row_kind ix options link file, nr_raw_name = raw_name ix link,
      nr_display_name = from_utf16_lossy (raw_name ix link), nr_logical_bytes = fst bytes,
      nr_allocated_bytes = snd bytes, nr_modified_ticks = fm_modified_ticks file\<rparr>"

definition emit_row :: "neutral_row \<Rightarrow> walk_state \<Rightarrow> walk_state" where
  "emit_row row ws =
     (let summary = ws_summary ws in
      ws\<lparr>ws_batch := ws_batch ws @ [row],
         ws_summary := summary\<lparr>ts_rows := saturating_add (ts_rows summary) 1,
           ts_logical_bytes := saturating_add (ts_logical_bytes summary) (nr_logical_bytes row),
           ts_allocated_bytes := saturating_add (ts_allocated_bytes summary) (nr_allocated_bytes row)\<rparr>\<rparr>)"

definition visit_step ::
    "compact_index \<Rightarrow> traversal_options \<Rightarrow> u32 \<Rightarrow> u64 \<Rightarrow> walk_state \<Rightarrow> walk_state ntfs_result" where
  "visit_step ix options link_index parent_id ws =
     obind (idx (ix_links ix) (unat link_index)) (\<lambda>link.
     obind (idx (ix_files ix) (unat (nl_file_index link))) (\<lambda>file.
     let row_id = ws_next_id ws in
     obind (ok_or (checked_add row_id 1) (NtfsError_new Overflow row_id ''scan-local node id overflow'')) (\<lambda>next_id.
     let kind = row_kind ix options link file in
     obind (charge_row ix kind (nl_file_index link) file (ws\<lparr>ws_next_id := next_id\<rparr>)) (\<lambda>(bytes, ws).
     let ws = emit_row (row_of ix options link file row_id parent_id bytes) ws in
     obind (if kind = KDirectory then enter_directory ix (nl_file_index link) row_id ws else Ok ws) (\<lambda>ws.
     Ok (flush_full (clamp_batch options) ws))))))"

definition walk_step ::
    "compact_index \<Rightarrow> traversal_options \<Rightarrow> frame \<Rightarrow> walk_state \<Rightarrow> walk_state ntfs_result" where
  "walk_step ix options frame ws =
     (case frame of
        ExitDirectory f \<Rightarrow>
          obind (idx (ws_ancestors ws) (unat f)) (\<lambda>_.
          Ok (ws\<lparr>ws_ancestors := (ws_ancestors ws)[unat f := False]\<rparr>))
      | Visit link parent_id \<Rightarrow> visit_step ix options link parent_id ws)"

definition walk_frames :: "frame list \<Rightarrow> nat option list" where
  "walk_frames stack = map (\<lambda>f. case f of Visit _ _ \<Rightarrow> None | ExitDirectory d \<Rightarrow> Some (unat d)) stack"

lemma charge_row_keeps:
  "charge_row ix kind f file ws = Ok (bytes, ws') \<Longrightarrow>
     ws_stack ws' = ws_stack ws \<and> ws_ancestors ws' = ws_ancestors ws \<and> ws_next_id ws' = ws_next_id ws \<and>
     ws_batch ws' = ws_batch ws \<and> ws_batches ws' = ws_batches ws"
  by (auto simp: charge_row_def outcome_simps split: neutral_node_kind.splits)

lemma flush_full_keeps [simp]:
  "ws_stack (flush_full n ws) = ws_stack ws" "ws_ancestors (flush_full n ws) = ws_ancestors ws"
  "ws_charged (flush_full n ws) = ws_charged ws" "ws_summary (flush_full n ws) = ws_summary ws"
  "ws_next_id (flush_full n ws) = ws_next_id ws"
  by (simp_all add: flush_full_def)

lemma visit_step_cases:
  assumes "visit_step ix options l parent ws = Ok ws'"
  obtains link meta next_id bytes ws1 ws2 where
      "unat l < length (ix_links ix)" and "link = ix_links ix ! unat l"
    and "unat (nl_file_index link) < length (ix_files ix)" and "meta = ix_files ix ! unat (nl_file_index link)"
    and "checked_add (ws_next_id ws) 1 = Some next_id"
    and "charge_row ix (row_kind ix options link meta) (nl_file_index link) meta
      (ws\<lparr>ws_next_id := next_id\<rparr>) = Ok (bytes, ws1)"
    and "(if row_kind ix options link meta = KDirectory
      then enter_directory ix (nl_file_index link) (ws_next_id ws)
        (emit_row (row_of ix options link meta (ws_next_id ws) parent bytes) ws1)
      else Ok (emit_row (row_of ix options link meta (ws_next_id ws) parent bytes) ws1)) = Ok ws2"
    and "ws' = flush_full (clamp_batch options) ws2"
  using assms unfolding visit_step_def Let_def
  apply (elim obind_OkE ok_or_OkE)
  subgoal for link meta next_id charged
    by (cases charged) (auto simp: idx_Ok elim!: obind_OkE intro: that)
  done

lemma emit_row_keeps [simp]:
  "ws_stack (emit_row row ws) = ws_stack ws" "ws_ancestors (emit_row row ws) = ws_ancestors ws"
  "ws_charged (emit_row row ws) = ws_charged ws" "ws_next_id (emit_row row ws) = ws_next_id ws"
  "ws_batches (emit_row row ws) = ws_batches ws" "ws_batch (emit_row row ws) = ws_batch ws @ [row]"
  by (simp_all add: emit_row_def Let_def)

text \<open>What a visit does to the stack and the ancestors: nothing, or it enters one directory.\<close>

lemma visit_step_stack:
  assumes "visit_step ix options l p ws = Ok ws'"
  shows "ws_stack ws' = ws_stack ws \<and> ws_ancestors ws' = ws_ancestors ws \<or>
    (\<exists>f row_id. unat f < length (ws_ancestors ws) \<and> \<not> ws_ancestors ws ! unat f \<and>
       ws_ancestors ws' = (ws_ancestors ws)[unat f := True] \<and>
       ws_stack ws' = map (\<lambda>child. frame.Visit child row_id) (children_of ix f) @ ExitDirectory f # ws_stack ws)"
  using assms
proof (rule visit_step_cases)
  fix link meta next_id bytes ws1 ws2
  assume charge: "charge_row ix (row_kind ix options link meta) (nl_file_index link) meta
      (ws\<lparr>ws_next_id := next_id\<rparr>) = Ok (bytes, ws1)"
    and enter: "(if row_kind ix options link meta = KDirectory
      then enter_directory ix (nl_file_index link) (ws_next_id ws)
        (emit_row (row_of ix options link meta (ws_next_id ws) p bytes) ws1)
      else Ok (emit_row (row_of ix options link meta (ws_next_id ws) p bytes) ws1)) = Ok ws2"
    and ws': "ws' = flush_full (clamp_batch options) ws2"
  have keep: "ws_stack ws1 = ws_stack ws" "ws_ancestors ws1 = ws_ancestors ws"
    using charge_row_keeps [OF charge] by simp_all
  show ?thesis
    using enter keep ws' by (auto simp: enter_directory_def outcome_simps split: if_splits)
qed

lemma walk_step_measure:
  assumes "walk_step ix options frame (ws\<lparr>ws_stack := rest\<rparr>) = Ok ws'"
  shows "dfs_measure (length (ix_children ix)) (ws_ancestors ws') (walk_frames (ws_stack ws'))
    < dfs_measure (length (ix_children ix)) (ws_ancestors ws) (walk_frames (frame # rest))"
proof (cases frame)
  case (ExitDirectory f)
  with assms show ?thesis by (auto simp: walk_step_def outcome_simps walk_frames_def)
next
  case (Visit l p)
  show ?thesis
  proof (cases "ws_stack ws' = rest \<and> ws_ancestors ws' = ws_ancestors ws")
    case True
    with Visit show ?thesis by (simp add: walk_frames_def dfs_cost_pos)
  next
    case False
    with visit_step_stack [of ix options l p "ws\<lparr>ws_stack := rest\<rparr>" ws'] assms Visit obtain f row_id
      where anc: "unat f < length (ws_ancestors ws)" "\<not> ws_ancestors ws ! unat f"
      and ws': "ws_ancestors ws' = (ws_ancestors ws)[unat f := True]"
        "ws_stack ws' = map (\<lambda>child. frame.Visit child row_id) (children_of ix f) @ ExitDirectory f # rest"
      by (auto simp: walk_step_def)
    have "walk_frames (ws_stack ws') = replicate (length (children_of ix f)) None @ Some (unat f) # walk_frames rest"
      by (simp add: ws' walk_frames_def map_replicate_const [symmetric] comp_def)
    with dfs_measure_enter [OF anc children_of_fanout, of ix f "walk_frames rest"] Visit
    show ?thesis by (simp add: ws' walk_frames_def)
  qed
qed

text \<open>
  The loop.  \<open>cancelled n\<close> is what the \<open>n\<close>-th call of \<open>is_cancelled\<close> returns; the
  state is returned with the result, since batches handed out before an error stay out.
\<close>

function walk_loop ::
    "compact_index \<Rightarrow> traversal_options \<Rightarrow> (nat \<Rightarrow> bool) \<Rightarrow> nat \<Rightarrow> walk_state
       \<Rightarrow> walk_state \<times> unit ntfs_result" where
  "walk_loop ix options cancelled polls ws =
     (case ws_stack ws of
        [] \<Rightarrow> (ws, Ok ())
      | frame # rest \<Rightarrow>
          if cancelled polls then (ws, Err (NtfsError_new Cancelled 0 ''subtree traversal''))
          else
          (case walk_step ix options frame (ws\<lparr>ws_stack := rest\<rparr>) of
             Ok ws' \<Rightarrow> walk_loop ix options cancelled (polls + 1) ws'
           | Err e \<Rightarrow> (ws, Err e)
           | Panic \<Rightarrow> (ws, Panic)))"
  by pat_completeness auto
termination
  by (relation "measure (\<lambda>(ix, _, _, _, ws). dfs_measure (length (ix_children ix)) (ws_ancestors ws)
      (walk_frames (ws_stack ws)))") (auto dest!: walk_step_measure)

declare walk_loop.simps [simp del]

definition walk_start :: "compact_index \<Rightarrow> u32 \<Rightarrow> traversal_options \<Rightarrow> walk_state" where
  "walk_start ix root_index options =
     \<lparr>ws_stack = map (\<lambda>child. Visit child (to_root_id options)) (children_of ix root_index),
      ws_charged = replicate (length (ix_files ix)) False,
      ws_ancestors = (replicate (length (ix_files ix)) False)[unat root_index := True],
      ws_next_id = to_first_child_id options, ws_batch = [], ws_batches = [],
      ws_summary = \<lparr>ts_rows = 0, ts_logical_bytes = 0, ts_allocated_bytes = 0, ts_cycles_skipped = 0\<rparr>\<rparr>"

definition walk_subtree ::
    "compact_index \<Rightarrow> file_reference \<Rightarrow> traversal_options \<Rightarrow> (nat \<Rightarrow> bool)
       \<Rightarrow> neutral_row list list \<times> traversal_summary ntfs_result" where
  "walk_subtree ix root options cancelled =
     (case index_file ix root of
        None \<Rightarrow> ([], Err (NtfsError_new InvalidAttribute (ref_record root) ''root record not found''))
      | Some (root_index, root_meta) \<Rightarrow>
          if \<not> meta_is_directory root_meta then
            ([], Err (NtfsError_new InvalidAttribute (ref_record root) ''subtree root is not a directory''))
          else
          (case walk_loop ix options cancelled 0 (walk_start ix root_index options) of
             (ws, Ok _) \<Rightarrow>
               (ws_batches ws @ (if ws_batch ws \<noteq> [] then [ws_batch ws] else []), Ok (ws_summary ws))
           | (ws, Err e) \<Rightarrow> (ws_batches ws, Err e)
           | (ws, Panic) \<Rightarrow> (ws_batches ws, Panic)))"

end
