(* ===== verification/NtfsIndexProps.thy ===== *)
theory NtfsIndexProps
  imports NtfsIndex
begin

text \<open>
  Correctness of the index: the counting sort files every link under exactly its
  parent, in name order; the builder's lookup tables stay consistent; a completed
  walk emits consecutive rows and charges every reachable file exactly once.
\<close>

section \<open>The counting sort\<close>

text \<open>The slot a link is filed under: none when it is a hidden DOS alias or its parent is stale.\<close>

definition link_slot :: "name_link list \<Rightarrow> (name_link \<Rightarrow> (u32 \<times> file_meta) option) \<Rightarrow> name_link \<Rightarrow> u32 option" where
  "link_slot all_links parent_of l =
     (if suppressed_dos all_links l then None else map_option fst (parent_of l))"

definition slot_code :: "u32 option \<Rightarrow> u32" where
  "slot_code s = (case s of None \<Rightarrow> - 1 | Some i \<Rightarrow> i)"

definition slot_count :: "nat \<Rightarrow> u32 list \<Rightarrow> nat" where
  "slot_count f parents = length (filter (\<lambda>p. p \<noteq> - 1 \<and> unat p = f) parents)"

lemma slot_count_simps [simp]:
  "slot_count f [] = 0"
  "slot_count f (p # ps) = (if p \<noteq> - 1 \<and> unat p = f then Suc (slot_count f ps) else slot_count f ps)"
  by (simp_all add: slot_count_def)

lemma count_links_spec:
  assumes "count_links all_links parent_of links counts stats = Ok (parents, counts', stats')"
    and "\<And>l i m. parent_of l = Some (i, m) \<Longrightarrow> i \<noteq> - 1"
  shows "parents = map (\<lambda>l. slot_code (link_slot all_links parent_of l)) links
    \<and> length counts' = length counts
    \<and> (\<forall>f<length counts. unat (counts' ! f) = unat (counts ! f) + slot_count f parents)
    \<and> (\<forall>p\<in>set parents. p \<noteq> - 1 \<longrightarrow> unat p < length counts)"
  using assms(1)
proof (induction links arbitrary: counts stats parents)
  case (Cons l links)
  note ih = Cons.IH
  consider (hidden) "suppressed_dos all_links l" | (stale) "\<not> suppressed_dos all_links l" "parent_of l = None"
    | (filed) i m where "\<not> suppressed_dos all_links l" "parent_of l = Some (i, m)"
    by (cases "parent_of l") auto
  then show ?case
  proof cases
    case hidden
    with Cons.prems show ?thesis
      by (auto simp: outcome_simps link_slot_def slot_code_def dest!: ih)
  next
    case stale
    with Cons.prems show ?thesis
      by (auto simp: outcome_simps link_slot_def slot_code_def dest!: ih)
  next
    case filed
    note not_max = assms(2) [OF filed(2)]
    from Cons.prems filed obtain count parents1 where i: "unat i < length counts"
      and count: "checked_add (counts ! unat i) 1 = Some count"
      and rest: "count_links all_links parent_of links (counts[unat i := count]) stats = Ok (parents1, counts', stats')"
      and parents: "parents = i # parents1"
      by (auto simp: outcome_simps)
    have count': "unat count = unat (counts ! unat i) + 1" using count by (simp add: arith_word)
    note r = ih [OF rest]
    have "unat (counts' ! f) = unat (counts ! f) + slot_count f parents" if "f < length counts" for f
      using r that i parents count' not_max by (cases "f = unat i") auto
    then show ?thesis
      using r i parents filed not_max by (auto simp: link_slot_def slot_code_def)
  qed
qed simp

lemma ranges_of_counts_spec:
  assumes "ranges_of_counts start counts = Ok (ranges, stop)"
  shows "length ranges = length counts \<and>
    (\<forall>f<length counts. unat (cr_start (ranges ! f)) = unat start + sum_list (map unat (take f counts)) \<and>
       cr_length (ranges ! f) = counts ! f) \<and>
    unat stop = unat start + sum_list (map unat counts)"
  using assms
proof (induction counts arbitrary: start ranges)
  case (Cons count counts)
  from Cons.prems obtain mid ranges' where mid: "checked_add start count = Some mid"
    and rest: "ranges_of_counts mid counts = Ok (ranges', stop)"
    and ranges: "ranges = \<lparr>cr_start = start, cr_length = count\<rparr> # ranges'"
    by (auto simp: outcome_simps)
  have mid': "unat mid = unat start + unat count" using mid by (simp add: arith_word)
  note r = Cons.IH [OF rest]
  show ?case
  proof (intro conjI allI impI)
    fix f assume f: "f < length (count # counts)"
    show "unat (cr_start (ranges ! f)) = unat start + sum_list (map unat (take f (count # counts)))"
      and "cr_length (ranges ! f) = (count # counts) ! f"
      using r f mid' ranges by (cases f; simp)+
  qed (use r mid' ranges in auto)
qed simp

text \<open>Positions of a slot's links in the parent list.\<close>

definition slot_links :: "nat \<Rightarrow> nat \<Rightarrow> u32 list \<Rightarrow> u32 list" where
  "slot_links k f parents =
     map (\<lambda>j. of_nat (k + j)) (filter (\<lambda>j. parents ! j \<noteq> - 1 \<and> unat (parents ! j) = f) [0..<length parents])"

lemma slot_links_Cons:
  "slot_links k f (p # ps) = (if p \<noteq> - 1 \<and> unat p = f then of_nat k # slot_links (k + 1) f ps else slot_links (k + 1) f ps)"
proof -
  have "[0..<length (p # ps)] = 0 # map Suc [0..<length ps]" by (simp add: upt_conv_Cons map_Suc_upt del: upt_Suc)
  then show ?thesis
    by (simp add: slot_links_def filter_map comp_def del: upt_Suc)
qed


lemma slot_links_length: "length (slot_links k f parents) = slot_count f parents"
  by (induction parents arbitrary: k) (simp_all add: slot_links_Cons, simp add: slot_links_def)

text \<open>
  Placing: each slot's interval, from its cursor on, receives exactly its links in order, and
  nothing else is written.  The intervals still to be filled never overlap.
\<close>

definition interval_of :: "u32 list \<Rightarrow> u32 list \<Rightarrow> nat \<Rightarrow> nat set" where
  "interval_of cursors parents f = {unat (cursors ! f)..<unat (cursors ! f) + slot_count f parents}"

definition intervals_ok :: "u32 list \<Rightarrow> u32 list \<Rightarrow> nat \<Rightarrow> bool" where
  "intervals_ok cursors parents space \<longleftrightarrow>
     (\<forall>p\<in>set parents. p \<noteq> - 1 \<longrightarrow> unat p < length cursors) \<and>
     (\<forall>f<length cursors. slot_count f parents > 0 \<longrightarrow> unat (cursors ! f) + slot_count f parents \<le> space) \<and>
     (\<forall>f<length cursors. \<forall>g<length cursors. f \<noteq> g \<longrightarrow>
        interval_of cursors parents f \<inter> interval_of cursors parents g = {})"

lemma place_links_spec:
  assumes "intervals_ok cursors parents (length children)" and "length children < 2 ^ 32"
    and "k + length parents < 2 ^ 32"
  shows "\<exists>out. place_links k parents cursors children = Ok out \<and> length out = length children \<and>
    (\<forall>f<length cursors. take (slot_count f parents) (drop (unat (cursors ! f)) out) = slot_links k f parents) \<and>
    (\<forall>i<length children. (\<forall>f<length cursors. i \<notin> interval_of cursors parents f) \<longrightarrow> out ! i = children ! i)"
  using assms
proof (induction parents arbitrary: k cursors children)
  case Nil
  then show ?case by (simp add: slot_links_def)
next
  case (Cons p parents)
  show ?case
  proof (cases "p = - 1")
    case True
    have ok: "intervals_ok cursors parents (length children)"
      using Cons.prems(1) True by (simp add: intervals_ok_def interval_of_def)
    from Cons.IH [OF ok Cons.prems(2), of "k + 1"] Cons.prems(3) True
    show ?thesis by (simp add: slot_links_Cons interval_of_def)
  next
    case False
    let ?p = "unat p" and ?c = "unat (cursors ! unat p)"
    let ?cursors = "cursors[?p := cursors ! ?p + 1]" and ?children = "children[?c := of_nat k]"
    have p: "?p < length cursors" using Cons.prems(1) False by (simp add: intervals_ok_def)
    have room: "unat (cursors ! f) + slot_count f (p # parents) \<le> length children"
      if "f < length cursors" "0 < slot_count f (p # parents)" for f
      using Cons.prems(1) that unfolding intervals_ok_def by blast
    have fit: "?c + Suc (slot_count ?p parents) \<le> length children"
      using room [OF p] False by simp
    then have c1: "unat (cursors ! ?p + 1) = ?c + 1"
      using Cons.prems(2) by (subst unat_add_no_overflow) simp_all
    have cur: "unat (?cursors ! f) = (if f = ?p then ?c + 1 else unat (cursors ! f))" if "f < length cursors" for f
      using that c1 by simp
    have shrink: "interval_of ?cursors parents f = interval_of cursors (p # parents) f - {?c}" if "f < length cursors" for f
    proof (cases "f = ?p")
      case True
      then show ?thesis using that False c1 by (auto simp: interval_of_def)
    next
      case other: False
      have "interval_of cursors (p # parents) f \<inter> interval_of cursors (p # parents) ?p = {}"
        using Cons.prems(1) that p other by (simp add: intervals_ok_def)
      moreover have "?c \<in> interval_of cursors (p # parents) ?p" using False by (simp add: interval_of_def)
      ultimately have "?c \<notin> interval_of cursors (p # parents) f" by blast
      then show ?thesis using other by (simp add: interval_of_def)
    qed
    have ok: "intervals_ok ?cursors parents (length ?children)"
      unfolding intervals_ok_def
    proof (intro conjI allI ballI impI)
      fix f g assume fg: "f < length ?cursors" "g < length ?cursors" "f \<noteq> g"
      then have "interval_of cursors (p # parents) f \<inter> interval_of cursors (p # parents) g = {}"
        using Cons.prems(1) by (simp add: intervals_ok_def)
      then show "interval_of ?cursors parents f \<inter> interval_of ?cursors parents g = {}"
        using shrink [of f] shrink [of g] fg(1,2) by auto
    next
      fix f assume "f < length ?cursors" "0 < slot_count f parents"
      then show "unat (?cursors ! f) + slot_count f parents \<le> length ?children"
        using room [of f] False c1 fit p by (cases "f = ?p") (auto split: if_splits)
    qed (use Cons.prems(1) in \<open>auto simp: intervals_ok_def\<close>)
    from Cons.IH [OF ok, of "k + 1"] Cons.prems(2,3) obtain out where
        run: "place_links (k + 1) parents ?cursors ?children = Ok out" and len: "length out = length children"
      and placed: "\<And>f. f < length cursors \<Longrightarrow>
          take (slot_count f parents) (drop (unat (?cursors ! f)) out) = slot_links (k + 1) f parents"
      and outside: "\<And>i. i < length children \<Longrightarrow> \<forall>f<length cursors. i \<notin> interval_of ?cursors parents f \<Longrightarrow>
          out ! i = ?children ! i"
      by auto
    have c_len: "?c < length children" using fit by simp
    have "place_links k (p # parents) cursors children = Ok out"
      using False p c_len run Cons.prems(3) by (simp add: idx_in u32_of_usize_def)
    moreover have at: "out ! ?c = of_nat k"
      using outside [OF c_len] shrink c_len by simp
    have "take (slot_count f (p # parents)) (drop (unat (cursors ! f)) out) = slot_links k f (p # parents)"
      if f: "f < length cursors" for f
    proof (cases "f = ?p")
      case True
      have "drop ?c out = of_nat k # drop (?c + 1) out"
        using at c_len len by (simp add: Cons_nth_drop_Suc [symmetric])
      then show ?thesis using True False placed [OF f] c1 p by (simp add: slot_links_Cons)
    next
      case other: False
      then show ?thesis using placed [OF f] by (simp add: slot_links_Cons)
    qed
    moreover have "out ! i = children ! i"
      if "i < length children" "\<forall>f<length cursors. i \<notin> interval_of cursors (p # parents) f" for i
    proof -
      have "i \<noteq> ?c" using that p False by (auto simp: interval_of_def)
      then show ?thesis using outside [OF that(1)] shrink that by simp
    qed
    ultimately show ?thesis using len by blast
  qed
qed


fun ranges_from :: "nat \<Rightarrow> child_range list \<Rightarrow> nat \<Rightarrow> bool" where
  "ranges_from v [] n = True"
| "ranges_from v (r # rs) n \<longleftrightarrow>
     unat (cr_start r) = v \<and> v + unat (cr_length r) \<le> n \<and> ranges_from (v + unat (cr_length r)) rs n"

definition range_slice :: "u32 list \<Rightarrow> child_range \<Rightarrow> u32 list" where
  "range_slice children r = take (unat (cr_length r)) (drop (unat (cr_start r)) children)"

lemma ranges_from_start: "ranges_from v rs n \<Longrightarrow> r \<in> set rs \<Longrightarrow> v \<le> unat (cr_start r)"
  by (induction v rs n rule: ranges_from.induct) auto

lemma ranges_from_eq:
  assumes "ranges_of_counts start counts = Ok (ranges, stop)" and "unat stop \<le> n"
  shows "ranges_from (unat start) ranges n"
  using assms
proof (induction counts arbitrary: start ranges)
  case (Cons count counts)
  from Cons.prems obtain mid ranges' where mid: "checked_add start count = Some mid"
    and rest: "ranges_of_counts mid counts = Ok (ranges', stop)"
    and ranges: "ranges = \<lparr>cr_start = start, cr_length = count\<rparr> # ranges'"
    by (auto simp: outcome_simps)
  have "unat mid \<le> unat stop" using ranges_of_counts_spec [OF rest] by simp
  with Cons.IH [OF rest Cons.prems(2)] mid ranges Cons.prems(2) show ?case by (simp add: arith_word)
qed simp

lemma sort_ranges_spec:
  assumes "ranges_from v ranges (length children)"
    and "\<forall>r\<in>set ranges. \<forall>c\<in>set (range_slice children r). unat c < length links"
  shows "\<exists>out. sort_ranges links arena ranges children = Ok out \<and> length out = length children \<and>
    take v out = take v children \<and>
    (\<forall>r\<in>set ranges. range_slice out r = sort_key (link_key links arena) (range_slice children r))"
  using assms
proof (induction ranges arbitrary: v children)
  case (Cons r rs)
  let ?n = "unat (cr_length r)"
  let ?part = "take ?n (drop v children)"
  let ?sorted = "sort_key (link_key links arena) ?part"
  let ?children = "take v children @ ?sorted @ drop (v + ?n) children"
  from Cons.prems(1) have start: "unat (cr_start r) = v" and room: "v + ?n \<le> length children"
    and rest: "ranges_from (v + ?n) rs (length children)" by auto
  have part: "range_slice children r = ?part" by (simp add: range_slice_def start)
  have len: "length ?children = length children" using room by simp
  have later: "range_slice ?children q = range_slice children q" if "q \<in> set rs" for q
  proof -
    have "v + ?n \<le> unat (cr_start q)" using ranges_from_start [OF rest that] .
    then obtain d where d: "unat (cr_start q) = v + ?n + d" using le_Suc_ex by blast
    have "drop (v + ?n + d) ?children = drop (v + ?n + d) children"
      using room by (simp add: drop_drop min_absorb2 add.commute add.left_commute)
    then show ?thesis by (simp add: range_slice_def d)
  qed
  have valid: "\<forall>q\<in>set rs. \<forall>c\<in>set (range_slice ?children q). unat c < length links"
    using Cons.prems(2) later by simp
  from Cons.IH [of "v + ?n" ?children] rest valid len obtain out where
      run: "sort_ranges links arena rs ?children = Ok out" and out: "length out = length children"
    and pre: "take (v + ?n) out = take (v + ?n) ?children"
    and sorted: "\<forall>q\<in>set rs. range_slice out q = sort_key (link_key links arena) (range_slice ?children q)"
    by auto
  have "\<not> list_ex (\<lambda>i. length links \<le> unat i) ?part"
    using Cons.prems(2) part by (auto simp: list_ex_iff)
  then have go: "sort_ranges links arena (r # rs) children = Ok out"
    using run room start by (simp add: Let_def sub_slice_in)
  have "range_slice out r = drop v (take (v + ?n) out)"
    by (simp add: range_slice_def start take_drop add.commute)
  also have "\<dots> = ?sorted" using pre room by (simp add: take_drop)
  finally have here: "range_slice out r = sort_key (link_key links arena) (range_slice children r)"
    by (simp add: part)
  have "take v out = take v (take (v + ?n) out)" by (simp add: min_absorb1)
  also have "\<dots> = take v children" using pre room by (simp add: min_absorb1)
  finally have "take v out = take v children" .
  with go out here sorted later show ?case by auto
qed simp

lemma lookup_file_not_max:
  "lookup_file files record_to_file reference = Some (i, m) \<Longrightarrow>
     i \<noteq> - 1 \<and> unat i < length files \<and> files ! unat i = m \<and> fm_sequence m = ref_sequence reference"
proof -
  assume a: "lookup_file files record_to_file reference = Some (i, m)"
  then obtain encoded where e: "checked_sub encoded 1 = Some i"
    by (auto simp: lookup_file_def split: option.splits if_splits)
  have "unat i = unat encoded - 1 \<and> 1 \<le> unat encoded" using e by (simp add: arith_word)
  moreover have "unat encoded < 2 ^ 32" using unsigned_less [of encoded, where ?'a = nat] by simp
  ultimately have "unat i \<noteq> unat (- 1 :: u32)" by (simp add: unsigned_minus_1_eq_mask mask_eq_exp_minus_1)
  with a show ?thesis
    by (auto simp: lookup_file_def get_at_Some split: option.splits if_splits)
qed

text \<open>The links filed under a slot, in link order.\<close>

definition filed_links :: "index_builder \<Rightarrow> nat \<Rightarrow> u32 list" where
  "filed_links b f =
     map of_nat (filter (\<lambda>j. map_option unat
        (link_slot (ib_links b) (\<lambda>l. builder_file b (link_parent l)) (ib_links b ! j)) = Some f)
        [0..<length (ib_links b)])"

lemma slot_links_filed:
  assumes "\<And>l i m. parent_of l = Some (i, m) \<Longrightarrow> i \<noteq> - 1"
  shows "slot_links 0 f (map (\<lambda>l. slot_code (link_slot all_links parent_of l)) links)
    = map of_nat (filter (\<lambda>j. map_option unat (link_slot all_links parent_of (links ! j)) = Some f) [0..<length links])"
proof -
  have e: "(slot_code (link_slot all_links parent_of l) \<noteq> - 1 \<and> unat (slot_code (link_slot all_links parent_of l)) = f)
      = (map_option unat (link_slot all_links parent_of l) = Some f)" for l
    using assms by (auto simp: slot_code_def link_slot_def split: option.splits if_splits)
  have "filter (\<lambda>j. map (\<lambda>l. slot_code (link_slot all_links parent_of l)) links ! j \<noteq> - 1 \<and>
        unat (map (\<lambda>l. slot_code (link_slot all_links parent_of l)) links ! j) = f) [0..<length links]
    = filter (\<lambda>j. map_option unat (link_slot all_links parent_of (links ! j)) = Some f) [0..<length links]"
    by (rule filter_cong [OF refl]) (use e in \<open>simp only: set_upt atLeastLessThan_iff nth_map\<close>)
  then show ?thesis by (simp only: slot_links_def length_map add_0)
qed


text \<open>The three passes of \<open>finish\<close> together.\<close>

lemma sum_counts_mono:
  fixes xs :: "nat list"
  assumes "f < g" and "g < length xs"
  shows "sum_list (take f xs) + xs ! f \<le> sum_list (take g xs)"
proof -
  have "sum_list (take f xs) + xs ! f = sum_list (take (Suc f) xs)"
    using assms by (simp add: take_Suc_conv_app_nth)
  also have "\<dots> \<le> sum_list (take g xs)"
  proof -
    have "take g xs = take (Suc f) xs @ take (g - Suc f) (drop (Suc f) xs)"
      using assms take_add [of "Suc f" "g - Suc f" xs] by simp
    then show ?thesis by simp
  qed
  finally show ?thesis .
qed

lemma intervals_from_counts:
  assumes parents: "\<forall>p\<in>set parents. p \<noteq> - 1 \<longrightarrow> unat p < length counts"
    and counts: "\<forall>f<length counts. unat (counts ! f) = slot_count f parents"
    and ranges: "ranges_of_counts 0 counts = Ok (ranges, stop)"
  shows "intervals_ok (map cr_start ranges) parents (unat stop)"
proof -
  note r = ranges_of_counts_spec [OF ranges]
  let ?ns = "map unat counts"
  have start: "unat (map cr_start ranges ! f) = sum_list (take f ?ns)" if "f < length counts" for f
    using r that by (simp add: take_map)
  have fit: "sum_list (take f ?ns) + slot_count f parents \<le> unat stop" if "f < length counts" for f
  proof -
    have "sum_list (take f ?ns) + ?ns ! f = sum_list (take (Suc f) ?ns)"
      using that by (simp add: take_Suc_conv_app_nth)
    also have "\<dots> \<le> sum_list (take (Suc f) ?ns) + sum_list (drop (Suc f) ?ns)" by simp
    also have "\<dots> = sum_list ?ns" by (simp flip: sum_list_append)
    finally show ?thesis using r counts that by simp
  qed
  have apart: "interval_of (map cr_start ranges) parents f \<inter> interval_of (map cr_start ranges) parents g = {}"
    if "f < g" "g < length counts" for f g
    using sum_counts_mono [of f g ?ns] that start [of f] start [of g] counts
    by (auto simp: interval_of_def)
  show ?thesis
    unfolding intervals_ok_def
  proof (intro conjI allI impI)
    fix f g assume fg: "f < length (map cr_start ranges)" "g < length (map cr_start ranges)" "f \<noteq> g"
    then consider "f < g" "g < length counts" | "g < f" "f < length counts" using r by fastforce
    then show "interval_of (map cr_start ranges) parents f \<inter> interval_of (map cr_start ranges) parents g = {}"
      by cases (use apart in blast)+
  qed (use parents start fit r in auto)
qed

lemma length_filter_slots: "slot_count f parents \<le> length parents"
  by (simp add: slot_count_def)

lemma slot_links_bound: "k + length parents \<le> 2 ^ 32 \<Longrightarrow> c \<in> set (slot_links k f parents) \<Longrightarrow> unat c < k + length parents"
proof -
  assume small: "k + length parents \<le> 2 ^ 32" and "c \<in> set (slot_links k f parents)"
  then obtain j where j: "j < length parents" and c: "c = of_nat (k + j)"
    unfolding slot_links_def by auto
  have "unat c = k + j" unfolding c using small j by (simp only: unat_of_nat) (simp add: take_bit_nat_eq_self)
  with j show ?thesis by simp
qed

lemma finish_passes:
  assumes "length (ib_links b) < 2 ^ 32"
    and counted: "count_links (ib_links b) (\<lambda>l. builder_file b (link_parent l)) (ib_links b)
        (replicate (length (ib_files b)) 0) stats = Ok (parents, counts, stats')"
    and ranged: "ranges_of_counts 0 counts = Ok (ranges, stop)"
  shows "\<exists>placed sorted. place_links 0 parents (map cr_start ranges) (replicate (unat stop) 0) = Ok placed \<and>
    sort_ranges (ib_links b) (ib_name_arena b) ranges placed = Ok sorted \<and>
    length ranges = length (ib_files b) \<and>
    (\<forall>f<length (ib_files b). unat (cr_start (ranges ! f)) + unat (cr_length (ranges ! f)) \<le> length sorted \<and>
       range_slice sorted (ranges ! f) = sort_key (link_key (ib_links b) (ib_name_arena b)) (filed_links b f))"
proof -
  let ?parent = "\<lambda>l. builder_file b (link_parent l)"
  have not_max: "i \<noteq> - 1" if "?parent l = Some (i, m)" for l i m
    using lookup_file_not_max that unfolding builder_file_def by blast
  note c = count_links_spec [OF counted, OF not_max, simplified]
  note r = ranges_of_counts_spec [OF ranged]
  have parents: "parents = map (\<lambda>l. slot_code (link_slot (ib_links b) ?parent l)) (ib_links b)"
    and len: "length counts = length (ib_files b)"
    and counts: "\<forall>f<length counts. unat (counts ! f) = slot_count f parents"
    and range: "\<forall>p\<in>set parents. p \<noteq> - 1 \<longrightarrow> unat p < length counts"
    using c by simp_all
  have ok: "intervals_ok (map cr_start ranges) parents (length (replicate (unat stop) (0 :: u32)))"
    using intervals_from_counts [OF range counts ranged] by simp
  have small: "length (replicate (unat stop) (0 :: u32)) < 2 ^ 32"
    using unsigned_less [of stop, where ?'a = nat] by simp
  from place_links_spec [OF ok small, of 0] assms(1) parents obtain placed where
      place: "place_links 0 parents (map cr_start ranges) (replicate (unat stop) 0) = Ok placed"
    and plen: "length placed = unat stop"
    and slots: "\<forall>f<length ranges. take (slot_count f parents) (drop (unat (map cr_start ranges ! f)) placed) = slot_links 0 f parents"
    by auto
  have filed: "slot_links 0 f parents = filed_links b f" for f
    unfolding parents filed_links_def by (rule slot_links_filed) (rule not_max)
  have slice: "range_slice placed (ranges ! f) = filed_links b f" if "f < length ranges" for f
    using slots that r counts filed by (simp add: range_slice_def)
  have bounds: "unat (cr_start (ranges ! f)) + unat (cr_length (ranges ! f)) \<le> unat stop" if "f < length ranges" for f
  proof (cases "slot_count f parents = 0")
    case True
    have "sum_list (take f (map unat counts)) \<le> sum_list (take f (map unat counts)) + sum_list (drop f (map unat counts))" by simp
    then have "sum_list (take f (map unat counts)) \<le> sum_list (map unat counts)"
      by (simp flip: sum_list_append)
    then show ?thesis using r that counts True by (simp add: take_map)
  next
    case False
    then show ?thesis using ok that r counts unfolding intervals_ok_def by auto
  qed
  have "ranges_from 0 ranges (length placed)" using ranges_from_eq [OF ranged] plen by simp
  moreover have "unat c < length (ib_links b)" if "q \<in> set ranges" "c \<in> set (range_slice placed q)" for q c
  proof -
    from that(1) obtain f where f: "f < length ranges" "q = ranges ! f" by (auto simp: in_set_conv_nth)
    with that(2) slice have "c \<in> set (slot_links 0 f parents)" by (simp add: filed)
    then show ?thesis using slot_links_bound [of 0 parents c f] assms(1) parents by simp
  qed
  ultimately obtain sorted where
      "sort_ranges (ib_links b) (ib_name_arena b) ranges placed = Ok sorted" "length sorted = length placed"
    "\<forall>q\<in>set ranges. range_slice sorted q = sort_key (link_key (ib_links b) (ib_name_arena b)) (range_slice placed q)"
    using sort_ranges_spec [of 0 ranges placed "ib_links b" "ib_name_arena b"] by blast
  with place slice r len plen bounds show ?thesis by auto
qed

lemma finish_children:
  assumes "length (ib_links b) < 2 ^ 32" and "finish b = Ok ix" and "unat i < length (ib_files b)"
  shows "children_of ix i = sort_key (link_key (ib_links b) (ib_name_arena b)) (filed_links b (unat i))"
proof -
  from assms(2) obtain stats parents counts stats' ranges stop placed sorted where
      counted: "count_links (ib_links b) (\<lambda>l. builder_file b (link_parent l)) (ib_links b)
        (replicate (length (ib_files b)) 0) stats = Ok (parents, counts, stats')"
    and ranged: "ranges_of_counts 0 counts = Ok (ranges, stop)"
    and placed: "place_links 0 parents (map cr_start ranges) (replicate (unat stop) 0) = Ok placed"
    and sorted: "sort_ranges (ib_links b) (ib_name_arena b) ranges placed = Ok sorted"
    and ix: "ix_children ix = sorted" "ix_child_ranges ix = ranges"
    unfolding finish_def Let_def by (auto simp: outcome_simps)
  from finish_passes [OF assms(1) counted ranged] placed sorted have
      "length ranges = length (ib_files b)"
    and f: "\<forall>f<length (ib_files b). unat (cr_start (ranges ! f)) + unat (cr_length (ranges ! f)) \<le> length sorted \<and>
       range_slice sorted (ranges ! f) = sort_key (link_key (ib_links b) (ib_name_arena b)) (filed_links b f)"
    by auto
  then show ?thesis using assms(3)
    by (simp add: children_of_def ix get_at_def slice_def Let_def range_slice_def)
qed

lemma count_links_no_panic:
  assumes "\<And>l i m. parent_of l = Some (i, m) \<Longrightarrow> unat i < length counts"
  shows "count_links all_links parent_of links counts stats \<noteq> Panic"
  using assms
  by (induction links arbitrary: counts stats) (auto simp: outcome_simps idx_in split: option.splits)

lemma ranges_of_counts_no_panic: "ranges_of_counts start counts \<noteq> Panic"
  by (induction counts arbitrary: start) (auto simp: outcome_simps)

lemma finish_no_panic: "length (ib_links b) < 2 ^ 32 \<Longrightarrow> finish b \<noteq> Panic"
proof -
  assume small: "length (ib_links b) < 2 ^ 32"
  have "count_links (ib_links b) (\<lambda>l. builder_file b (link_parent l)) (ib_links b)
        (replicate (length (ib_files b)) 0) stats \<noteq> Panic" for stats
    by (rule count_links_no_panic) (auto simp: builder_file_def dest: lookup_file_not_max)
  then show ?thesis
    using finish_passes [OF small] unfolding finish_def Let_def
    by (fastforce simp: outcome_simps ranges_of_counts_no_panic)
qed

section \<open>The builder's invariant\<close>

definition links_ok :: "nat \<Rightarrow> u16 list \<Rightarrow> name_link list \<Rightarrow> bool" where
  "links_ok files arena links \<longleftrightarrow> length links < 2 ^ 32 \<and>
     (\<forall>l\<in>set links. unat (nl_file_index l) < files \<and>
        unat (nl_name_offset l) + unat (nl_name_length l) \<le> length arena)"

definition table_ok :: "file_meta list \<Rightarrow> u32 list \<Rightarrow> bool" where
  "table_ok files record_to_file \<longleftrightarrow>
     (\<forall>slot<length record_to_file. record_to_file ! slot \<noteq> 0 \<longrightarrow>
        unat (record_to_file ! slot) \<le> length files \<and>
        unat (fm_record (files ! (unat (record_to_file ! slot) - 1))) = slot) \<and>
     (\<forall>i<length files. unat (fm_record (files ! i)) < length record_to_file \<and>
        unat (record_to_file ! unat (fm_record (files ! i))) = i + 1)"

definition builder_ok :: "index_builder \<Rightarrow> bool" where
  "builder_ok b \<longleftrightarrow> length (ib_files b) < 2 ^ 32 \<and>
     links_ok (length (ib_files b)) (ib_name_arena b) (ib_links b) \<and>
     table_ok (ib_files b) (ib_record_to_file b) \<and>
     (\<forall>(reference, owner)\<in>set (ib_expected_extensions b). unat owner < length (ib_files b))"

lemma u32_of_usize_Some: "u32_of_usize n = Some w \<longleftrightarrow> n < 2 ^ 32 \<and> unat w = n"
  by (auto simp: u32_of_usize_def unat_of_nat take_bit_nat_eq_self word_eq_unat_iff)

lemma u16_of_usize_Some: "u16_of_usize n = Some w \<longleftrightarrow> n < 2 ^ 16 \<and> unat w = n"
  by (auto simp: u16_of_usize_def unat_of_nat take_bit_nat_eq_self word_eq_unat_iff)

text \<open>What \<open>append_names\<close> may change.\<close>

definition same_files :: "index_builder \<Rightarrow> index_builder \<Rightarrow> bool" where
  "same_files b c \<longleftrightarrow> ib_files c = ib_files b \<and> ib_record_to_file c = ib_record_to_file b \<and>
     ib_expected_extensions c = ib_expected_extensions b \<and>
     ib_pending_extensions c = ib_pending_extensions b \<and> ib_pending_by_base c = ib_pending_by_base b"

lemma append_names_ok:
  assumes "append_names b i names = Ok c" and "links_ok n (ib_name_arena b) (ib_links b)" and "unat i < n"
  shows "links_ok n (ib_name_arena c) (ib_links c) \<and> same_files b c"
  using assms
proof (induction names arbitrary: b)
  case Nil
  then show ?case by (simp add: same_files_def)
next
  case (Cons name names)
  from Cons.prems(1) obtain off len where few: "length (ib_links b) < 2 ^ 32 - 1"
    and off: "u32_of_usize (length (ib_name_arena b)) = Some off"
    and len: "u16_of_usize (length (fn_name name)) = Some len"
    and rest: "append_names
        (b\<lparr>ib_name_arena := ib_name_arena b @ fn_name name,
           ib_links := ib_links b @
             [\<lparr>nl_parent_record = ref_record (fn_parent name), nl_name_offset = off,
               nl_file_index = i, nl_parent_sequence = ref_sequence (fn_parent name),
               nl_name_length = len, nl_namespace = namespace_raw (fn_namespace name)\<rparr>]\<rparr>) i names = Ok c"
    by (auto simp: outcome_simps split: if_splits)
  have "links_ok n (ib_name_arena b @ fn_name name) (ib_links b @
             [\<lparr>nl_parent_record = ref_record (fn_parent name), nl_name_offset = off,
               nl_file_index = i, nl_parent_sequence = ref_sequence (fn_parent name),
               nl_name_length = len, nl_namespace = namespace_raw (fn_namespace name)\<rparr>])"
    using Cons.prems(2,3) few off len by (auto simp: links_ok_def u32_of_usize_Some u16_of_usize_Some)
  with Cons.IH [OF rest] Cons.prems(3) show ?case by (simp add: same_files_def)
qed

lemma table_ok_update:
  assumes "table_ok files rtf" and "i < length files" and "fm_record m = fm_record (files ! i)"
  shows "table_ok (files[i := m]) rtf"
proof -
  have "fm_record (files[i := m] ! j) = fm_record (files ! j)" for j
    using assms(2,3) by (cases "j = i") auto
  then show ?thesis using assms(1) by (simp add: table_ok_def)
qed

lemma merge_extension_ok:
  assumes "merge_extension b i ext = Ok c" and "builder_ok b"
  shows "builder_ok c \<and> length (ib_files c) = length (ib_files b) \<and>
    map fm_record (ib_files c) = map fm_record (ib_files b) \<and>
    ib_expected_extensions c = ib_expected_extensions b"
proof -
  from assms(1) have i: "unat i < length (ib_files b)" by (auto simp: merge_extension_def outcome_simps)
  show ?thesis
  proof (cases "meta_reference (ib_files b ! unat i) = pe_base ext")
    case False
    with assms i show ?thesis by (auto simp: merge_extension_def idx_in builder_ok_def)
  next
    case True
    define m where "m = merged_meta (ib_files b ! unat i) ext"
    have m: "fm_record m = fm_record (ib_files b ! unat i)"
      by (simp add: m_def merged_meta_def Let_def split: option.splits)
    from assms(1) i True have app: "append_names (b\<lparr>ib_files := (ib_files b)[unat i := m]\<rparr>) i (pe_names ext) = Ok c"
      by (simp add: merge_extension_def idx_in m_def)
    from append_names_ok [OF app, of "length (ib_files b)"] assms(2) i
    have "links_ok (length (ib_files b)) (ib_name_arena c) (ib_links c)"
      and same: "same_files (b\<lparr>ib_files := (ib_files b)[unat i := m]\<rparr>) c"
      by (auto simp: builder_ok_def)
    moreover have "table_ok ((ib_files b)[unat i := m]) (ib_record_to_file b)"
      using assms(2) i m by (intro table_ok_update) (auto simp: builder_ok_def)
    moreover have "map fm_record ((ib_files b)[unat i := m]) = map fm_record (ib_files b)"
      using i m by (intro nth_equalityI) (auto simp: nth_list_update)
    ultimately show ?thesis using assms(2) by (simp add: builder_ok_def same_files_def)
  qed
qed

lemma merge_pending_ok:
  assumes "merge_pending b i refs = Ok c" and "builder_ok b"
  shows "builder_ok c \<and> length (ib_files c) = length (ib_files b)"
  using assms
proof (induction refs arbitrary: b)
  case (Cons reference refs)
  have pop: "builder_ok (b\<lparr>ib_pending_extensions := p\<rparr>)" for p
    using Cons.prems(2) by (simp add: builder_ok_def)
  show ?case
  proof (cases "map_of (ib_pending_extensions b) reference")
    case None
    with Cons show ?thesis by simp
  next
    case (Some pending)
    with Cons.prems(1) obtain d where d: "merge_extension
        (b\<lparr>ib_pending_extensions := AList.delete reference (ib_pending_extensions b)\<rparr>) i pending = Ok d"
      and rest: "merge_pending d i refs = Ok c"
      by (auto simp: outcome_simps)
    from merge_extension_ok [OF d pop] Cons.IH [OF rest] show ?thesis by simp
  qed
qed simp


lemma foldl_update_owner:
  assumes "\<forall>(reference, owner)\<in>set m. unat owner < n" and "unat i < n"
  shows "\<forall>(reference, owner)\<in>set (fold (\<lambda>reference m. AList.update reference i m) refs m). unat owner < n"
  using assms
proof (induction refs arbitrary: m)
  case (Cons reference refs)
  have "\<forall>(r, owner)\<in>set (AList.update reference i m). unat owner < n"
    using Cons.prems by (induction m) (auto split: if_splits)
  with Cons show ?case by simp
qed simp

lemma table_ok_resize:
  assumes "table_ok files rtf"
  shows "table_ok files (resize_zero rtf n)"
  using assms by (auto simp: table_ok_def resize_zero_def nth_append)

lemma table_ok_push:
  assumes "table_ok files rtf" and "unat (fm_record m) < length rtf" and "rtf ! unat (fm_record m) = 0"
    and "unat e = length files + 1"
  shows "table_ok (files @ [m]) (rtf[unat (fm_record m) := e])"
proof -
  let ?slot = "unat (fm_record m)" and ?n = "length files"
  have old: "?slot \<noteq> unat (fm_record (files ! i))" if "i < ?n" for i
    using assms(1,3) that by (auto simp: table_ok_def)
  show ?thesis
    unfolding table_ok_def
  proof (intro conjI allI impI)
    fix slot assume slot: "slot < length (rtf[?slot := e])" "rtf[?slot := e] ! slot \<noteq> 0"
    have prev: "unat (rtf ! slot) \<le> ?n \<and> unat (fm_record (files ! (unat (rtf ! slot) - 1))) = slot \<and> 0 < unat (rtf ! slot)"
      if "slot \<noteq> ?slot"
      using assms(1) slot that by (auto simp: table_ok_def unat_gt_0)
    show "unat (rtf[?slot := e] ! slot) \<le> length (files @ [m])"
      using prev assms(2,4) slot(1) by (cases "slot = ?slot") auto
    show "unat (fm_record ((files @ [m]) ! (unat (rtf[?slot := e] ! slot) - 1))) = slot"
      using prev assms(2,4) slot(1) by (cases "slot = ?slot") (auto simp: nth_append)
  next
    fix i assume i: "i < length (files @ [m])"
    show "unat (fm_record ((files @ [m]) ! i)) < length (rtf[?slot := e])"
      using assms(1,2) i by (cases "i = ?n") (auto simp: table_ok_def nth_append)
    show "unat (rtf[?slot := e] ! unat (fm_record ((files @ [m]) ! i))) = i + 1"
      using assms(1,2,4) i old [of i] by (cases "i = ?n") (auto simp: table_ok_def nth_append)
  qed
qed

lemma links_ok_mono: "links_ok n arena links \<Longrightarrow> n \<le> m \<Longrightarrow> links_ok m arena links"
  by (auto simp: links_ok_def)

lemma builder_ok_other [simp]:
  "builder_ok (b\<lparr>ib_pending_by_base := p\<rparr>) = builder_ok b"
  "builder_ok (b\<lparr>ib_pending_extensions := q\<rparr>) = builder_ok b"
  "builder_ok (b\<lparr>ib_stats := st\<rparr>) = builder_ok b"
  by (simp_all add: builder_ok_def)

lemma push_base_cases:
  assumes "push_base b r = Ok c"
  obtains b1 file_index b3 b4 where
      "b1 = b \<or> (\<exists>n. b1 = b\<lparr>ib_record_to_file := resize_zero (ib_record_to_file b) n\<rparr>)"
    and "unat (rec_record_number r) < length (ib_record_to_file b1)"
    and "ib_record_to_file b1 ! unat (rec_record_number r) = 0"
    and "u32_of_usize (length (ib_files b1)) = Some file_index"
    and "append_names (b1\<lparr>ib_files := ib_files b1 @ [base_meta r],
          ib_record_to_file := (ib_record_to_file b1)[unat (rec_record_number r) := saturating_add file_index 1]\<rparr>)
        file_index (rec_names r) = Ok b3"
    and "merge_pending (expect_extensions b3 file_index (foreign_references r)) file_index (foreign_references r) = Ok b4"
    and "c = b4 \<or> (\<exists>refs p. merge_pending (b4\<lparr>ib_pending_by_base := p\<rparr>) file_index refs = Ok c)"
  using assms unfolding push_base_def Let_def
  apply (elim obind_OkE guard_OkE ok_or_OkE)
  subgoal for b1 occupied file_index b3 b4
    apply (rule that [of b1 file_index b3 b4])
          apply (auto simp: reserve_slot_def Let_def outcome_simps split: if_splits option.splits)
    done
  done

text \<open>The tables of \<open>push_base\<close> just before the pending extensions are merged.\<close>

lemma push_base_tables:
  fixes r defines "slot \<equiv> unat (rec_record_number r)"
  assumes ok: "builder_ok b" and few: "length (ib_files b) < 2 ^ 32 - 1"
    and b1: "b1 = b \<or> (\<exists>n. b1 = b\<lparr>ib_record_to_file := resize_zero (ib_record_to_file b) n\<rparr>)"
    and free: "slot < length (ib_record_to_file b1)" "ib_record_to_file b1 ! slot = 0"
    and fi: "u32_of_usize (length (ib_files b1)) = Some file_index"
    and app: "append_names (b1\<lparr>ib_files := ib_files b1 @ [base_meta r],
          ib_record_to_file := (ib_record_to_file b1)[slot := saturating_add file_index 1]\<rparr>)
        file_index (rec_names r) = Ok b3"
  shows "builder_ok (expect_extensions b3 file_index refs) \<and>
    length (ib_files (expect_extensions b3 file_index refs)) = length (ib_files b) + 1 \<and>
    unat file_index = length (ib_files b)"
proof -
  let ?n = "length (ib_files b)" and ?slot = slot
  have ok1: "builder_ok b1" and files1: "ib_files b1 = ib_files b"
    using b1 ok by (auto simp: builder_ok_def table_ok_resize)
  have idx: "unat file_index = ?n" using fi files1 by (simp add: u32_of_usize_Some)
  have e: "unat (saturating_add file_index 1) = ?n + 1" using idx few by (simp add: arith_word)
  have m: "unat (fm_record (base_meta r)) = ?slot" by (simp add: base_meta_def Let_def slot_def)
  have table: "table_ok (ib_files b @ [base_meta r]) ((ib_record_to_file b1)[?slot := saturating_add file_index 1])"
    using table_ok_push [of "ib_files b" "ib_record_to_file b1" "base_meta r" "saturating_add file_index 1"]
      ok1 files1 free e m
    by (simp add: builder_ok_def)
  have links: "links_ok (?n + 1) (ib_name_arena b3) (ib_links b3)"
    and same: "same_files (b1\<lparr>ib_files := ib_files b1 @ [base_meta r],
                ib_record_to_file := (ib_record_to_file b1)[?slot := saturating_add file_index 1]\<rparr>) b3"
    using append_names_ok [OF app, of "?n + 1"] ok1 files1 idx links_ok_mono [of ?n _ _ "?n + 1"]
    by (auto simp: builder_ok_def)
  have owners: "\<forall>(reference, owner)\<in>set (ib_expected_extensions b1). unat owner < ?n + 1"
    using ok1 files1 by (fastforce simp: builder_ok_def)
  have "builder_ok (expect_extensions b3 file_index refs)"
    using links same table few files1 foldl_update_owner [OF owners, of file_index refs] idx
    by (simp add: builder_ok_def same_files_def expect_extensions_def)
  with same files1 idx show ?thesis by (simp add: same_files_def expect_extensions_def)
qed

lemma push_base_ok:
  assumes run: "push_base b r = Ok c" and ok: "builder_ok b" and few: "length (ib_files b) < 2 ^ 32 - 1"
  shows "builder_ok c \<and> length (ib_files c) = length (ib_files b) + 1"
  using run
proof (rule push_base_cases)
  fix b1 file_index b3 b4
  let ?slot = "unat (rec_record_number r)"
  assume b1: "b1 = b \<or> (\<exists>n. b1 = b\<lparr>ib_record_to_file := resize_zero (ib_record_to_file b) n\<rparr>)"
    and free: "?slot < length (ib_record_to_file b1)" "ib_record_to_file b1 ! ?slot = 0"
    and fi: "u32_of_usize (length (ib_files b1)) = Some file_index"
    and app: "append_names (b1\<lparr>ib_files := ib_files b1 @ [base_meta r],
          ib_record_to_file := (ib_record_to_file b1)[?slot := saturating_add file_index 1]\<rparr>)
        file_index (rec_names r) = Ok b3"
    and mp: "merge_pending (expect_extensions b3 file_index (foreign_references r)) file_index
        (foreign_references r) = Ok b4"
    and last: "c = b4 \<or> (\<exists>refs p. merge_pending (b4\<lparr>ib_pending_by_base := p\<rparr>) file_index refs = Ok c)"
  note tables = push_base_tables [OF ok few b1 free fi app, of "foreign_references r"]
  have "builder_ok b4 \<and> length (ib_files b4) = length (ib_files b) + 1"
    using merge_pending_ok [OF mp] tables by simp
  with last show ?thesis using merge_pending_ok by fastforce
qed

lemma push_extension_ok:
  assumes "push_extension b base r = Ok c" and "builder_ok b"
  shows "builder_ok c \<and> length (ib_files c) = length (ib_files b)"
  using assms unfolding push_extension_def Let_def
  by (auto simp: outcome_simps split: option.splits if_splits dest: merge_extension_ok)

lemma push_ok:
  assumes "push b r = Ok c" and "builder_ok b" and "length (ib_files b) < 2 ^ 32 - 1"
  shows "builder_ok c \<and> length (ib_files c) \<le> length (ib_files b) + 1"
  using assms unfolding push_def Let_def
  by (auto split: option.splits if_splits dest!: push_base_ok push_extension_ok)

lemma push_all_ok:
  assumes "push_all b rs = Ok c" and "builder_ok b" and "length (ib_files b) + length rs < 2 ^ 32"
  shows "builder_ok c"
  using assms
proof (induction rs arbitrary: b)
  case (Cons r rs)
  from Cons.prems(1) obtain d where d: "push b r = Ok d" and rest: "push_all d rs = Ok c"
    by (auto simp: outcome_simps)
  from push_ok [OF d Cons.prems(2)] Cons.prems(3)
  have "builder_ok d" "length (ib_files d) + length rs < 2 ^ 32" by auto
  then show ?case by (rule Cons.IH [OF rest])
qed simp

lemma builder_default_ok: "builder_ok builder_default"
  by (simp add: builder_ok_def builder_default_def links_ok_def table_ok_def)

lemma lookup_file_exact:
  assumes "table_ok files rtf" and "length files < 2 ^ 32"
  shows "lookup_file files rtf reference = Some (i, m) \<longleftrightarrow>
    unat i < length files \<and> files ! unat i = m \<and> meta_reference m = reference"
proof
  let ?slot = "unat (ref_record reference)"
  assume a: "lookup_file files rtf reference = Some (i, m)"
  then have slot: "?slot < length rtf" and sub: "checked_sub (rtf ! ?slot) 1 = Some i"
    and i: "unat i < length files" "files ! unat i = m" "fm_sequence m = ref_sequence reference"
    by (auto simp: lookup_file_def outcome_simps split: option.splits if_splits)
  from sub have e: "1 \<le> unat (rtf ! ?slot)" "unat i = unat (rtf ! ?slot) - 1" by (simp_all add: arith_word)
  then have "rtf ! ?slot \<noteq> 0" by auto
  with assms(1) slot have "unat (fm_record (files ! (unat (rtf ! ?slot) - 1))) = ?slot"
    by (simp add: table_ok_def)
  with e i have "fm_record m = ref_record reference" by (simp add: word_eq_unat_iff)
  with i show "unat i < length files \<and> files ! unat i = m \<and> meta_reference m = reference"
    by (simp add: meta_reference_def)
next
  assume a: "unat i < length files \<and> files ! unat i = m \<and> meta_reference m = reference"
  then have r: "ref_record reference = fm_record m" "ref_sequence reference = fm_sequence m"
    by (auto simp: meta_reference_def)
  have t: "unat (fm_record m) < length rtf" "unat (rtf ! unat (fm_record m)) = unat i + 1"
    using assms(1) a by (auto simp: table_ok_def)
  then have "checked_sub (rtf ! unat (fm_record m)) 1 = Some i" by (simp add: arith_word)
  with t a show "lookup_file files rtf reference = Some (i, m)"
    by (simp add: lookup_file_def r get_at_def)
qed

text \<open>What a built index promises its walks.\<close>

definition index_ok :: "compact_index \<Rightarrow> bool" where
  "index_ok ix \<longleftrightarrow> length (ix_files ix) < 2 ^ 32 \<and>
     (\<forall>l\<in>set (ix_links ix). unat (nl_file_index l) < length (ix_files ix)) \<and>
     (\<forall>i. \<forall>c\<in>set (children_of ix i). unat c < length (ix_links ix))"

lemma finish_fields:
  "finish b = Ok ix \<Longrightarrow> ix_files ix = ib_files b \<and> ix_links ix = ib_links b \<and>
     ix_name_arena ix = ib_name_arena b \<and> ix_record_to_file ix = ib_record_to_file b"
  unfolding finish_def Let_def by (auto simp: outcome_simps)

lemma children_outside:
  assumes "finish b = Ok ix" and "length (ib_files b) \<le> unat i"
  shows "children_of ix i = []"
proof -
  from assms(1) obtain stats parents counts stats' stop where
      counted: "count_links (ib_links b) (\<lambda>l. builder_file b (link_parent l)) (ib_links b)
        (replicate (length (ib_files b)) 0) stats = Ok (parents, counts, stats')"
    and ranged: "ranges_of_counts 0 counts = Ok (ix_child_ranges ix, stop)"
    unfolding finish_def Let_def by (auto simp: outcome_simps)
  have "i \<noteq> - 1" if "builder_file b (link_parent l) = Some (i, m)" for l i m
    using lookup_file_not_max that unfolding builder_file_def by blast
  from count_links_spec [OF counted, OF this] ranges_of_counts_spec [OF ranged]
  have "length (ix_child_ranges ix) = length (ib_files b)" by simp
  with assms(2) show ?thesis by (simp add: children_of_def get_at_def)
qed

lemma finish_index_ok:
  assumes "builder_ok b" and "finish b = Ok ix"
  shows "index_ok ix"
proof -
  have few: "length (ib_links b) < 2 ^ 32" using assms(1) by (simp add: builder_ok_def links_ok_def)
  have "unat c < length (ib_links b)" if c: "c \<in> set (children_of ix i)" for i c
  proof (cases "unat i < length (ib_files b)")
    case True
    from finish_children [OF few assms(2) True] c obtain j where "j < length (ib_links b)" "c = of_nat j"
      by (auto simp: filed_links_def)
    then show ?thesis using few by (simp add: unat_of_nat take_bit_nat_eq_self)
  next
    case False
    then show ?thesis using children_outside [OF assms(2)] c by simp
  qed
  then show ?thesis
    using assms finish_fields [OF assms(2)] by (auto simp: index_ok_def builder_ok_def links_ok_def)
qed

end
