(* ===== verification/NtfsWalk.thy ===== *)
theory NtfsWalk
  imports NtfsIndexProps
begin

text \<open>
  Correctness of the two depth-first walks of \<open>index.rs\<close>: a completed
  \<open>walk_subtree\<close> charges exactly the files reachable from its root, each once,
  and emits its rows parents first with consecutive ids, in batches of the requested
  size.
\<close>

section \<open>Reachability\<close>

definition is_dir :: "compact_index \<Rightarrow> nat \<Rightarrow> bool" where
  "is_dir ix i \<longleftrightarrow> meta_is_directory (ix_files ix ! i)"

definition link_target :: "compact_index \<Rightarrow> u32 \<Rightarrow> nat" where
  "link_target ix l = unat (nl_file_index (ix_links ix ! unat l))"

definition walk_edge :: "compact_index \<Rightarrow> (nat \<times> nat) set" where
  "walk_edge ix = {(d, e). \<exists>i l. d = unat i \<and> d < length (ix_files ix) \<and> is_dir ix d \<and>
     l \<in> set (children_of ix i) \<and> e = link_target ix l}"

definition reachable :: "compact_index \<Rightarrow> nat \<Rightarrow> nat set" where
  "reachable ix d = {e. (d, e) \<in> (walk_edge ix)\<^sup>*}"

lemma reachable_self [simp]: "d \<in> reachable ix d"
  by (simp add: reachable_def)

lemma reachable_step: "e \<in> reachable ix d \<Longrightarrow> (e, g) \<in> walk_edge ix \<Longrightarrow> g \<in> reachable ix d"
  unfolding reachable_def by (auto intro: rtrancl_into_rtrancl)

lemma reachable_trans: "e \<in> reachable ix d \<Longrightarrow> g \<in> reachable ix e \<Longrightarrow> g \<in> reachable ix d"
  unfolding reachable_def by auto

lemma walk_edgeI:
  "unat i < length (ix_files ix) \<Longrightarrow> is_dir ix (unat i) \<Longrightarrow> l \<in> set (children_of ix i) \<Longrightarrow>
     (unat i, link_target ix l) \<in> walk_edge ix"
  unfolding walk_edge_def by blast

lemma walk_edgeE:
  assumes "(d, e) \<in> walk_edge ix"
  obtains i l where "d = unat i" and "d < length (ix_files ix)" and "is_dir ix d"
    and "l \<in> set (children_of ix i)" and "e = link_target ix l"
  using assms unfolding walk_edge_def by blast

lemma link_target_bound: "index_ok ix \<Longrightarrow> unat l < length (ix_links ix) \<Longrightarrow> link_target ix l < length (ix_files ix)"
  by (simp add: index_ok_def link_target_def)

lemma child_bound: "index_ok ix \<Longrightarrow> l \<in> set (children_of ix i) \<Longrightarrow> unat l < length (ix_links ix)"
  by (auto simp: index_ok_def)

text \<open>The files a \<open>charged\<close> vector marks, and their sizes added up.\<close>

definition marked :: "bool list \<Rightarrow> nat set" where
  "marked charged = {i. i < length charged \<and> charged ! i}"

definition size_sum :: "compact_index \<Rightarrow> (file_meta \<Rightarrow> u64) \<Rightarrow> nat set \<Rightarrow> nat" where
  "size_sum ix size_of S = (\<Sum>i\<in>S. unat (size_of (ix_files ix ! i)))"

definition capped :: "nat \<Rightarrow> nat" where
  "capped n = min n (2 ^ 64 - 1)"

lemma finite_marked [simp]: "finite (marked charged)"
  by (rule finite_subset [of _ "{..<length charged}"]) (auto simp: marked_def)

lemma marked_update: "f < length charged \<Longrightarrow> marked (charged[f := True]) = insert f (marked charged)"
  by (auto simp: marked_def nth_list_update)

lemma capped_add: "unat (a :: u64) = capped n \<Longrightarrow> unat (saturating_add a b) = capped (n + unat b)"
  by (simp add: arith_word capped_def)

lemma capped_small: "unat (w :: u64) = capped (unat w)"
  using unsigned_less [of w, where ?'a = nat] by (simp add: capped_def)

lemma charge_file_spec:
  assumes "charge_file i m charged = Ok (bytes, charged')"
  shows "unat i < length charged \<and> length charged' = length charged \<and>
    marked charged' = insert (unat i) (marked charged) \<and>
    fst bytes = (if unat i \<in> marked charged then 0 else fm_logical_bytes m) \<and>
    snd bytes = (if unat i \<in> marked charged then 0 else fm_allocated_bytes m)"
  using assms
  by (auto simp: charge_file_def outcome_simps marked_update split: if_splits) (auto simp: marked_def)

lemma size_sum_insert:
  assumes "finite S" and "D \<subseteq> S"
  shows "size_sum ix size_of (insert i S - D) =
    size_sum ix size_of (S - D) + (if i \<in> S then 0 else unat (size_of (ix_files ix ! i)))"
proof (cases "i \<in> S")
  case True
  then show ?thesis by (simp add: insert_absorb)
next
  case False
  then have "insert i S - D = insert i (S - D)" using assms(2) by blast
  then show ?thesis using False assms(1) by (simp add: size_sum_def)
qed

section \<open>The hidden walk\<close>

text \<open>
  While the walk below an opaque package runs: what was charged is a reachable file, its sizes
  are in the totals, and every node that was visited either waits on the stack with its children
  or has them visited (\<open>V\<close> is the set of visited nodes).
\<close>

definition hidden_closed ::
    "compact_index \<Rightarrow> nat \<Rightarrow> (u32 \<times> bool) list \<Rightarrow> bool list \<Rightarrow> nat set \<Rightarrow> nat set \<Rightarrow> bool" where
  "hidden_closed ix root stack ancestors C V \<longleftrightarrow>
     (root \<in> V \<or> (\<exists>f. unat f = root \<and> (f, False) \<in> set stack)) \<and>
     (\<forall>d\<in>V. \<forall>e. (d, e) \<in> walk_edge ix \<longrightarrow> e \<in> V \<or> (\<exists>f. unat f = e \<and> (f, False) \<in> set stack)) \<and>
     (\<forall>v\<in>V. \<not> is_dir ix v \<longrightarrow> v \<in> C) \<and>
     (\<forall>a<length ancestors. ancestors ! a \<longrightarrow> a \<in> V)"

definition charged_ok :: "compact_index \<Rightarrow> nat \<Rightarrow> nat set \<Rightarrow> bool list \<Rightarrow> u64 \<Rightarrow> u64 \<Rightarrow> bool" where
  "charged_ok ix root before charged logical allocated \<longleftrightarrow>
     length charged = length (ix_files ix) \<and> before \<subseteq> marked charged \<and>
     (\<forall>i\<in>marked charged - before. i \<in> reachable ix root \<and> \<not> is_dir ix i) \<and>
     unat logical = capped (size_sum ix fm_logical_bytes (marked charged - before)) \<and>
     unat allocated = capped (size_sum ix fm_allocated_bytes (marked charged - before))"

definition hidden_inv :: "compact_index \<Rightarrow> nat \<Rightarrow> nat set \<Rightarrow> hidden_state \<Rightarrow> bool" where
  "hidden_inv ix root before st \<longleftrightarrow>
     length (hs_ancestors st) = length (ix_files ix) \<and>
     (\<forall>(f, exiting)\<in>set (hs_stack st). unat f < length (ix_files ix) \<and> unat f \<in> reachable ix root) \<and>
     charged_ok ix root before (hs_charged st) (hs_logical st) (hs_allocated st) \<and>
     (\<exists>V. hidden_closed ix root (hs_stack st) (hs_ancestors st) (marked (hs_charged st)) V)"

lemma push_targets_Ok:
  assumes "\<forall>l\<in>set ls. unat l < length (ix_links ix)"
  shows "push_targets ix ls = Ok (map (\<lambda>l. (nl_file_index (ix_links ix ! unat l), False)) ls)"
  using assms by (induction ls) (simp_all add: idx_in)

lemma nth_update_if: "xs[i := x] ! j = (if i = j \<and> i < length xs then x else xs ! j)"
  by (cases "i < length xs") (auto simp: nth_list_update list_update_beyond not_less)

lemma hidden_closed_exit:
  "hidden_closed ix root ((f, True) # rest) ancestors C V \<Longrightarrow>
     hidden_closed ix root rest (ancestors[unat f := False]) C V"
  by (auto simp: hidden_closed_def nth_update_if)

lemma hidden_closed_leaf:
  "\<not> is_dir ix (unat f) \<Longrightarrow> hidden_closed ix root ((f, False) # rest) ancestors C V \<Longrightarrow>
     hidden_closed ix root rest ancestors (insert (unat f) C) (insert (unat f) V)"
  unfolding hidden_closed_def by (auto elim: walk_edgeE)

lemma hidden_closed_cycle:
  "unat f < length ancestors \<Longrightarrow> ancestors ! unat f \<Longrightarrow>
     hidden_closed ix root ((f, False) # rest) ancestors C V \<Longrightarrow> hidden_closed ix root rest ancestors C V"
proof -
  assume f: "unat f < length ancestors" "ancestors ! unat f"
    and c: "hidden_closed ix root ((f, False) # rest) ancestors C V"
  then have V: "unat f \<in> V" by (simp add: hidden_closed_def)
  have "root \<in> V \<or> (\<exists>g. unat g = root \<and> (g, False) \<in> set rest)"
    using c V by (auto simp: hidden_closed_def)
  moreover have "e \<in> V \<or> (\<exists>g. unat g = e \<and> (g, False) \<in> set rest)" if "d \<in> V" "(d, e) \<in> walk_edge ix" for d e
  proof -
    from c that have "e \<in> V \<or> (\<exists>g. unat g = e \<and> (g, False) \<in> set ((f, False) # rest))"
      unfolding hidden_closed_def by blast
    with V show ?thesis by auto
  qed
  ultimately show ?thesis using c by (simp add: hidden_closed_def)
qed

lemma charge_file_Ok: "unat i < length charged \<Longrightarrow> \<exists>bytes charged'. charge_file i m charged = Ok (bytes, charged')"
  by (auto simp: charge_file_def idx_in)

lemma hidden_closed_enter:
  assumes "is_dir ix (unat f)" and "hidden_closed ix root ((f, False) # rest) ancestors C V"
    and "\<And>e. (unat f, e) \<in> walk_edge ix \<Longrightarrow> \<exists>g. unat g = e \<and> (g, False) \<in> set frames"
  shows "hidden_closed ix root (frames @ (f, True) # rest) (ancestors[unat f := True]) C (insert (unat f) V)"
proof -
  have "e \<in> insert (unat f) V \<or> (\<exists>g. unat g = e \<and> (g, False) \<in> set (frames @ (f, True) # rest))"
    if "d \<in> insert (unat f) V" "(d, e) \<in> walk_edge ix" for d e
  proof (cases "d = unat f")
    case True
    with assms(3) that(2) show ?thesis by auto
  next
    case False
    with assms(2) that show ?thesis unfolding hidden_closed_def by fastforce
  qed
  moreover have "root \<in> insert (unat f) V \<or> (\<exists>g. unat g = root \<and> (g, False) \<in> set (frames @ (f, True) # rest))"
    using assms(2) unfolding hidden_closed_def by auto
  moreover have "\<forall>v\<in>insert (unat f) V. \<not> is_dir ix v \<longrightarrow> v \<in> C"
    using assms(1,2) unfolding hidden_closed_def by auto
  moreover have "\<forall>a<length (ancestors[unat f := True]). ancestors[unat f := True] ! a \<longrightarrow> a \<in> insert (unat f) V"
    using assms(2) unfolding hidden_closed_def by (auto simp: nth_update_if split: if_splits)
  ultimately show ?thesis unfolding hidden_closed_def by blast
qed

lemma charged_ok_charge:
  assumes "charged_ok ix root before charged logical allocated"
    and "charge_file f (ix_files ix ! unat f) charged = Ok (bytes, charged')"
    and "unat f \<in> reachable ix root" and "\<not> is_dir ix (unat f)"
  shows "charged_ok ix root before charged' (saturating_add logical (fst bytes)) (saturating_add allocated (snd bytes))"
proof -
  note c = charge_file_spec [OF assms(2)]
  have before: "before \<subseteq> marked charged" using assms(1) by (simp add: charged_ok_def)
  have C: "marked charged' = insert (unat f) (marked charged)" using c by blast
  have "unat (saturating_add logical (fst bytes)) = capped (size_sum ix fm_logical_bytes (marked charged' - before))"
    and "unat (saturating_add allocated (snd bytes)) = capped (size_sum ix fm_allocated_bytes (marked charged' - before))"
    using c assms(1) unfolding C size_sum_insert [OF finite_marked before]
    by (auto simp: charged_ok_def intro!: capped_add [THEN trans])
  then show ?thesis using assms(1,3,4) c C unfolding charged_ok_def by auto
qed

lemma hidden_step_inv:
  assumes ok: "index_ok ix" and inv: "hidden_inv ix root before st"
    and stack: "hs_stack st = (f, exiting) # rest"
  shows "\<exists>st'. hidden_step ix f exiting (st\<lparr>hs_stack := rest\<rparr>) = Ok st' \<and> hidden_inv ix root before st'"
proof -
  let ?F = "length (ix_files ix)" and ?C = "marked (hs_charged st)"
  from inv stack obtain V where len: "length (hs_ancestors st) = ?F" "length (hs_charged st) = ?F"
    and f: "unat f < ?F" "unat f \<in> reachable ix root"
    and rest: "\<forall>(g, e)\<in>set rest. unat g < ?F \<and> unat g \<in> reachable ix root"
    and charged: "charged_ok ix root before (hs_charged st) (hs_logical st) (hs_allocated st)"
    and V: "hidden_closed ix root ((f, exiting) # rest) (hs_ancestors st) ?C V"
    unfolding hidden_inv_def by (auto simp: charged_ok_def)
  consider (exit) exiting | (leaf) "\<not> exiting" "\<not> is_dir ix (unat f)"
    | (cycle) "\<not> exiting" "is_dir ix (unat f)" "hs_ancestors st ! unat f"
    | (enter) "\<not> exiting" "is_dir ix (unat f)" "\<not> hs_ancestors st ! unat f" by blast
  then show ?thesis
  proof cases
    case exit
    have "hidden_inv ix root before (st\<lparr>hs_stack := rest, hs_ancestors := (hs_ancestors st)[unat f := False]\<rparr>)"
      using len rest charged hidden_closed_exit [of ix root f rest "hs_ancestors st" ?C V] V exit
      unfolding hidden_inv_def by auto
    then show ?thesis using exit f len by (simp add: hidden_step_def idx_in)
  next
    case leaf
    obtain bytes charged' where ch: "charge_file f (ix_files ix ! unat f) (hs_charged st) = Ok (bytes, charged')"
      using f(1) len(2) charge_file_Ok [of f "hs_charged st" "ix_files ix ! unat f"] by auto
    have C: "marked charged' = insert (unat f) ?C" using charge_file_spec [OF ch] by blast
    have "hidden_inv ix root before (st\<lparr>hs_stack := rest, hs_charged := charged',
        hs_logical := saturating_add (hs_logical st) (fst bytes),
        hs_allocated := saturating_add (hs_allocated st) (snd bytes)\<rparr>)"
      using len rest charged_ok_charge [OF charged ch f(2) leaf(2)] leaf(1) C
        hidden_closed_leaf [OF leaf(2), of root rest "hs_ancestors st" ?C V] V
      unfolding hidden_inv_def by auto
    then show ?thesis using leaf f ch by (cases bytes) (simp add: hidden_step_def idx_in is_dir_def)
  next
    case cycle
    have "hidden_inv ix root before (st\<lparr>hs_stack := rest, hs_cycles := saturating_add (hs_cycles st) 1\<rparr>)"
      using len rest charged hidden_closed_cycle [OF _ cycle(3), of ix root rest ?C V] f(1) V cycle(1)
      unfolding hidden_inv_def by auto
    then show ?thesis using cycle f len by (simp add: hidden_step_def idx_in is_dir_def)
  next
    case enter
    define frames where "frames = map (\<lambda>l. (nl_file_index (ix_links ix ! unat l), False)) (children_of ix f)"
    have push: "push_targets ix (children_of ix f) = Ok frames"
      unfolding frames_def by (rule push_targets_Ok) (use child_bound [OF ok] in blast)
    have kids: "\<forall>(g, e)\<in>set frames. unat g < ?F \<and> unat g \<in> reachable ix root"
      using link_target_bound [OF ok child_bound [OF ok]] walk_edgeI [OF f(1) enter(2)] reachable_step [OF f(2)]
      by (auto simp: frames_def link_target_def)
    have edge: "\<exists>g. unat g = e \<and> (g, False) \<in> set frames" if "(unat f, e) \<in> walk_edge ix" for e
      using that
    proof (rule walk_edgeE)
      fix i l assume "unat f = unat i" and l: "l \<in> set (children_of ix i)" "e = link_target ix l"
      then have "i = f" by (simp add: word_eq_unat_iff)
      with l show ?thesis by (auto simp: frames_def link_target_def)
    qed
    have "hidden_inv ix root before (st\<lparr>hs_ancestors := (hs_ancestors st)[unat f := True],
        hs_stack := frames @ (f, True) # rest\<rparr>)"
      using len f rest kids charged V enter(1)
        hidden_closed_enter [OF enter(2) _ edge, of root rest "hs_ancestors st" ?C V]
      unfolding hidden_inv_def by auto
    then show ?thesis using enter f len push by (simp add: hidden_step_def idx_in is_dir_def)
  qed
qed


lemma hidden_loop_spec:
  assumes "index_ok ix" and "hidden_inv ix root before st"
  shows "\<exists>st'. hidden_loop ix st = Ok st' \<and> hidden_inv ix root before st' \<and> hs_stack st' = []"
  using assms
proof (induction ix st rule: hidden_loop.induct)
  case (1 ix st)
  show ?case
  proof (cases "hs_stack st")
    case Nil
    with "1.prems" show ?thesis by (simp add: hidden_loop.simps)
  next
    case (Cons frame rest)
    obtain f exiting where frame: "frame = (f, exiting)" by (cases frame)
    with Cons have stack: "hs_stack st = (f, exiting) # rest" by simp
    from hidden_step_inv [OF "1.prems" stack] obtain st' where
        step: "hidden_step ix f exiting (st\<lparr>hs_stack := rest\<rparr>) = Ok st'" and inv: "hidden_inv ix root before st'"
      by blast
    from "1.IH" [OF Cons frame [symmetric] step "1.prems"(1) inv] show ?thesis
      by (subst hidden_loop.simps) (simp add: stack step)
  qed
qed

lemma hidden_closed_reaches:
  assumes "hidden_closed ix root [] ancestors C V" and "i \<in> reachable ix root" and "\<not> is_dir ix i"
  shows "i \<in> C"
proof -
  have "e \<in> V" if "(root, e) \<in> (walk_edge ix)\<^sup>*" for e
    using that
  proof (induction rule: rtrancl_induct)
    case base
    then show ?case using assms(1) by (simp add: hidden_closed_def)
  next
    case (step d e)
    then show ?case using assms(1) unfolding hidden_closed_def by auto
  qed
  with assms show ?thesis by (simp add: hidden_closed_def reachable_def)
qed

text \<open>The hidden walk charges exactly the files below its root that were not charged before.\<close>

lemma charge_hidden_subtree_spec:
  assumes ok: "index_ok ix" and root: "unat root < length (ix_files ix)"
    and len: "length charged = length (ix_files ix)"
  shows "\<exists>bytes charged' cycles'. charge_hidden_subtree ix root charged cycles = Ok (bytes, charged', cycles') \<and>
    length charged' = length (ix_files ix) \<and>
    marked charged' = marked charged \<union> {i \<in> reachable ix (unat root). \<not> is_dir ix i} \<and>
    unat (fst bytes) = capped (size_sum ix fm_logical_bytes (marked charged' - marked charged)) \<and>
    unat (snd bytes) = capped (size_sum ix fm_allocated_bytes (marked charged' - marked charged))"
proof -
  let ?st = "\<lparr>hs_stack = [(root, False)], hs_ancestors = replicate (length (ix_files ix)) False,
              hs_charged = charged, hs_logical = 0, hs_allocated = 0, hs_cycles = cycles\<rparr>"
  have "hidden_closed ix (unat root) (hs_stack ?st) (hs_ancestors ?st) (marked charged) {}"
    by (auto simp: hidden_closed_def)
  then have "hidden_inv ix (unat root) (marked charged) ?st"
    using root len by (auto simp: hidden_inv_def charged_ok_def capped_def size_sum_def)
  from hidden_loop_spec [OF ok this] obtain st where run: "hidden_loop ix ?st = Ok st"
    and inv: "hidden_inv ix (unat root) (marked charged) st" and empty: "hs_stack st = []" by blast
  from inv empty obtain V where c: "charged_ok ix (unat root) (marked charged) (hs_charged st) (hs_logical st) (hs_allocated st)"
    and V: "hidden_closed ix (unat root) [] (hs_ancestors st) (marked (hs_charged st)) V"
    by (auto simp: hidden_inv_def)
  have C: "marked (hs_charged st) = marked charged \<union> {i \<in> reachable ix (unat root). \<not> is_dir ix i}"
  proof
    show "marked (hs_charged st) \<subseteq> marked charged \<union> {i \<in> reachable ix (unat root). \<not> is_dir ix i}"
      using c unfolding charged_ok_def by blast
    show "marked charged \<union> {i \<in> reachable ix (unat root). \<not> is_dir ix i} \<subseteq> marked (hs_charged st)"
      using c hidden_closed_reaches [OF V] unfolding charged_ok_def by blast
  qed
  have "charge_hidden_subtree ix root charged cycles = Ok ((hs_logical st, hs_allocated st), hs_charged st, hs_cycles st)"
    by (simp add: charge_hidden_subtree_def run)
  then show ?thesis
  proof (intro exI conjI)
    show "length (hs_charged st) = length (ix_files ix)" using c by (simp add: charged_ok_def)
    show "marked (hs_charged st) = marked charged \<union> {i \<in> reachable ix (unat root). \<not> is_dir ix i}" by (rule C)
    show "unat (fst (hs_logical st, hs_allocated st)) =
        capped (size_sum ix fm_logical_bytes (marked (hs_charged st) - marked charged))"
      and "unat (snd (hs_logical st, hs_allocated st)) =
        capped (size_sum ix fm_allocated_bytes (marked (hs_charged st) - marked charged))"
      using c unfolding charged_ok_def fst_conv snd_conv by blast+
  qed
qed

section \<open>The visible walk\<close>

definition covered_node :: "compact_index \<Rightarrow> nat set \<Rightarrow> nat set \<Rightarrow> nat \<Rightarrow> bool" where
  "covered_node ix C V e \<longleftrightarrow>
     (if is_dir ix e then e \<in> V \<or> {g \<in> reachable ix e. \<not> is_dir ix g} \<subseteq> C else e \<in> C)"

definition walk_closed ::
    "compact_index \<Rightarrow> nat \<Rightarrow> frame list \<Rightarrow> bool list \<Rightarrow> nat set \<Rightarrow> nat set \<Rightarrow> bool" where
  "walk_closed ix root stack ancestors C V \<longleftrightarrow>
     root \<in> V \<and>
     (\<forall>i. unat i \<in> V \<longrightarrow> (\<forall>l\<in>set (children_of ix i).
        covered_node ix C V (link_target ix l) \<or> (\<exists>p. Visit l p \<in> set stack))) \<and>
     (\<forall>a<length ancestors. ancestors ! a \<longrightarrow> a \<in> V)"

definition frame_ok :: "compact_index \<Rightarrow> nat \<Rightarrow> frame \<Rightarrow> bool" where
  "frame_ok ix root fr = (case fr of
       Visit l p \<Rightarrow> unat l < length (ix_links ix) \<and> link_target ix l \<in> reachable ix root
     | ExitDirectory f \<Rightarrow> unat f < length (ix_files ix))"

definition walk_inv :: "compact_index \<Rightarrow> nat \<Rightarrow> walk_state \<Rightarrow> bool" where
  "walk_inv ix root ws \<longleftrightarrow>
     length (ws_ancestors ws) = length (ix_files ix) \<and> (\<forall>fr\<in>set (ws_stack ws). frame_ok ix root fr) \<and>
     charged_ok ix root {} (ws_charged ws) (ts_logical_bytes (ws_summary ws)) (ts_allocated_bytes (ws_summary ws)) \<and>
     (\<exists>V. walk_closed ix root (ws_stack ws) (ws_ancestors ws) (marked (ws_charged ws)) V)"

lemma covered_mono: "covered_node ix C V e \<Longrightarrow> C \<subseteq> C' \<Longrightarrow> V \<subseteq> V' \<Longrightarrow> covered_node ix C' V' e"
  by (auto simp: covered_node_def split: if_splits)

lemma walk_closed_exit:
  "walk_closed ix root (ExitDirectory f # rest) ancestors C V \<Longrightarrow>
     walk_closed ix root rest (ancestors[unat f := False]) C V"
  by (auto simp: walk_closed_def nth_update_if)

lemma walk_closed_visit:
  assumes "walk_closed ix root (Visit l p # rest) ancestors C V" and "C \<subseteq> C'"
    and "covered_node ix C' V (link_target ix l)"
  shows "walk_closed ix root rest ancestors C' V"
proof -
  have "covered_node ix C' V (link_target ix k) \<or> (\<exists>q. Visit k q \<in> set rest)"
    if "unat i \<in> V" "k \<in> set (children_of ix i)" for i k
  proof -
    from assms(1) that have "covered_node ix C V (link_target ix k) \<or> (\<exists>q. Visit k q \<in> set (Visit l p # rest))"
      unfolding walk_closed_def by blast
    then show ?thesis using covered_mono [OF _ assms(2) order.refl] assms(3) by auto
  qed
  then show ?thesis using assms(1) by (simp add: walk_closed_def)
qed

lemma walk_closed_enter:
  assumes "walk_closed ix root (Visit l p # rest) ancestors C V" and "link_target ix l = unat f"
    and "is_dir ix (unat f)"
  shows "walk_closed ix root (map (\<lambda>child. Visit child row_id) (children_of ix f) @ ExitDirectory f # rest)
    (ancestors[unat f := True]) C (insert (unat f) V)"
proof -
  let ?stack = "map (\<lambda>child. Visit child row_id) (children_of ix f) @ ExitDirectory f # rest"
  have "covered_node ix C (insert (unat f) V) (link_target ix k) \<or> (\<exists>q. Visit k q \<in> set ?stack)"
    if i: "unat i \<in> insert (unat f) V" and k: "k \<in> set (children_of ix i)" for i k
  proof (cases "i = f")
    case True
    with k show ?thesis by auto
  next
    case False
    then have "unat i \<in> V" using i by (simp add: word_eq_unat_iff)
    with assms(1) k have "covered_node ix C V (link_target ix k) \<or> (\<exists>q. Visit k q \<in> set (Visit l p # rest))"
      unfolding walk_closed_def by blast
    moreover have "covered_node ix C (insert (unat f) V) (link_target ix l)"
      using assms(2,3) by (simp add: covered_node_def)
    ultimately show ?thesis using covered_mono [of ix C V _ C "insert (unat f) V"] by auto
  qed
  then show ?thesis using assms(1) by (auto simp: walk_closed_def nth_update_if split: if_splits)
qed

lemma walk_closed_reaches:
  assumes closed: "walk_closed ix root [] ancestors C V" and root: "is_dir ix root" and "i \<in> reachable ix root" and "\<not> is_dir ix i"
  shows "i \<in> C"
proof -
  have "(is_dir ix e \<longrightarrow> e \<in> V \<or> {g \<in> reachable ix e. \<not> is_dir ix g} \<subseteq> C) \<and> (\<not> is_dir ix e \<longrightarrow> e \<in> C)"
    if "(root, e) \<in> (walk_edge ix)\<^sup>*" for e
    using that
  proof (induction rule: rtrancl_induct)
    case base
    then show ?case using closed root by (simp add: walk_closed_def)
  next
    case (step d e)
    from step(2) obtain j l where d: "d = unat j" "is_dir ix d" and l: "l \<in> set (children_of ix j)" "e = link_target ix l"
      by (rule walk_edgeE) blast
    from step(3) d(2) consider "d \<in> V" | "{g \<in> reachable ix d. \<not> is_dir ix g} \<subseteq> C" by blast
    then show ?case
    proof cases
      case 1
      then have "covered_node ix C V e" using closed d l by (auto simp: walk_closed_def)
      then show ?thesis by (auto simp: covered_node_def split: if_splits)
    next
      case 2
      have "reachable ix e \<subseteq> reachable ix d"
        using reachable_trans [OF reachable_step [OF reachable_self step(2)]] by blast
      moreover have "e \<in> reachable ix d" using reachable_step [OF reachable_self step(2)] .
      ultimately show ?thesis using 2 by auto
    qed
  qed
  with assms show ?thesis by (auto simp: reachable_def)
qed

lemma capped_0 [simp]: "capped 0 = 0"
  by (simp add: capped_def)

text \<open>What one row charges.\<close>

definition charged_set :: "compact_index \<Rightarrow> neutral_node_kind \<Rightarrow> nat \<Rightarrow> nat set" where
  "charged_set ix kind f =
     (case kind of KFile \<Rightarrow> {f} | KOpaquePackage \<Rightarrow> {i \<in> reachable ix f. \<not> is_dir ix i} | _ \<Rightarrow> {})"

lemma charge_row_spec:
  assumes ok: "index_ok ix" and f: "unat f < length (ix_files ix)"
    and len: "length (ws_charged ws) = length (ix_files ix)"
  shows "\<exists>bytes ws1. charge_row ix kind f (ix_files ix ! unat f) ws = Ok (bytes, ws1) \<and>
    length (ws_charged ws1) = length (ix_files ix) \<and>
    marked (ws_charged ws1) = marked (ws_charged ws) \<union> charged_set ix kind (unat f) \<and>
    unat (fst bytes) = capped (size_sum ix fm_logical_bytes (marked (ws_charged ws1) - marked (ws_charged ws))) \<and>
    unat (snd bytes) = capped (size_sum ix fm_allocated_bytes (marked (ws_charged ws1) - marked (ws_charged ws))) \<and>
    ts_rows (ws_summary ws1) = ts_rows (ws_summary ws) \<and>
    ts_logical_bytes (ws_summary ws1) = ts_logical_bytes (ws_summary ws) \<and>
    ts_allocated_bytes (ws_summary ws1) = ts_allocated_bytes (ws_summary ws)"
proof (cases kind)
  case KFile
  obtain bytes charged' where ch: "charge_file f (ix_files ix ! unat f) (ws_charged ws) = Ok (bytes, charged')"
    using f len charge_file_Ok [of f "ws_charged ws" "ix_files ix ! unat f"] by auto
  note c = charge_file_spec [OF ch]
  have "size_sum ix g (insert (unat f) (marked (ws_charged ws)) - marked (ws_charged ws))
      = (if unat f \<in> marked (ws_charged ws) then 0 else unat (g (ix_files ix ! unat f)))" for g
    using size_sum_insert [OF finite_marked order.refl, of ix g "unat f" "ws_charged ws"] by (simp add: size_sum_def)
  with ch c len KFile show ?thesis
    by (auto simp: charge_row_def charged_set_def capped_small [symmetric])
next
  case KOpaquePackage
  from charge_hidden_subtree_spec [OF ok f len, of "ts_cycles_skipped (ws_summary ws)"] obtain bytes charged' cycles' where
      run: "charge_hidden_subtree ix f (ws_charged ws) (ts_cycles_skipped (ws_summary ws)) = Ok (bytes, charged', cycles')"
    and h: "length charged' = length (ix_files ix)"
      "marked charged' = marked (ws_charged ws) \<union> {i \<in> reachable ix (unat f). \<not> is_dir ix i}"
      "unat (fst bytes) = capped (size_sum ix fm_logical_bytes (marked charged' - marked (ws_charged ws)))"
      "unat (snd bytes) = capped (size_sum ix fm_allocated_bytes (marked charged' - marked (ws_charged ws)))"
    by blast
  show ?thesis
    unfolding charge_row_def charged_set_def KOpaquePackage neutral_node_kind.case run
    by (intro exI conjI, unfold obind.simps prod.case, rule refl) (use h in simp_all)
qed (use len in \<open>simp_all add: charge_row_def charged_set_def size_sum_def capped_def\<close>)

lemma charged_ok_grow:
  assumes "charged_ok ix root {} charged logical allocated"
    and "length charged' = length (ix_files ix)" and "marked charged' = marked charged \<union> N"
    and "\<forall>i\<in>N. i \<in> reachable ix root \<and> \<not> is_dir ix i"
    and "unat a = capped (size_sum ix fm_logical_bytes (marked charged' - marked charged))"
    and "unat b = capped (size_sum ix fm_allocated_bytes (marked charged' - marked charged))"
  shows "charged_ok ix root {} charged' (saturating_add logical a) (saturating_add allocated b)"
proof -
  have sum: "size_sum ix g (marked charged') = size_sum ix g (marked charged) + size_sum ix g (marked charged' - marked charged)" for g
  proof -
    have "marked charged \<subseteq> marked charged'" using assms(3) by blast
    from sum.subset_diff [OF this finite_marked] show ?thesis by (simp add: size_sum_def add.commute)
  qed
  have cap: "capped (n + capped m) = capped (n + m)" for n m by (auto simp: capped_def)
  have "unat (saturating_add logical a) = capped (size_sum ix fm_logical_bytes (marked charged'))"
    and "unat (saturating_add allocated b) = capped (size_sum ix fm_allocated_bytes (marked charged'))"
    using assms(1,5,6) capped_add [of logical _ a] capped_add [of allocated _ b] unfolding sum
    by (simp_all add: charged_ok_def cap)
  then show ?thesis using assms unfolding charged_ok_def by auto
qed


lemma row_kind_dir:
  "row_kind ix options link meta = KFile \<longleftrightarrow> \<not> meta_is_directory meta"
  "row_kind ix options link meta = KReparseDirectory \<Longrightarrow> children_of ix (nl_file_index link) = []"
  by (auto simp: row_kind_def Let_def split: if_splits)

lemma reachable_leaf:
  assumes "children_of ix i = []"
  shows "reachable ix (unat i) = {unat i}"
proof -
  have "(unat i, b) \<notin> walk_edge ix" for b
    using assms by (auto elim!: walk_edgeE simp: word_eq_unat_iff [symmetric])
  then show ?thesis unfolding reachable_def by (auto elim: converse_rtranclE)
qed

lemma emit_row_summary [simp]:
  "ts_logical_bytes (ws_summary (emit_row row ws)) = saturating_add (ts_logical_bytes (ws_summary ws)) (nr_logical_bytes row)"
  "ts_allocated_bytes (ws_summary (emit_row row ws)) = saturating_add (ts_allocated_bytes (ws_summary ws)) (nr_allocated_bytes row)"
  "ts_rows (ws_summary (emit_row row ws)) = saturating_add (ts_rows (ws_summary ws)) 1"
  by (simp_all add: emit_row_def Let_def)

lemma walk_inv_flush [simp]: "walk_inv ix root (flush_full n ws) = walk_inv ix root ws"
  by (simp add: walk_inv_def)

lemma charged_set_sound:
  assumes "f \<in> reachable ix root" and "kind = KFile \<longrightarrow> \<not> is_dir ix f" and "i \<in> charged_set ix kind f"
  shows "i \<in> reachable ix root \<and> \<not> is_dir ix i"
  using assms by (auto simp: charged_set_def intro: reachable_trans split: neutral_node_kind.splits)

lemma visit_step_inv:
  assumes ok: "index_ok ix" and inv: "walk_inv ix root ws" and stack: "ws_stack ws = Visit l parent # rest"
  shows "visit_step ix options l parent (ws\<lparr>ws_stack := rest\<rparr>) \<noteq> Panic \<and>
    (\<forall>ws'. visit_step ix options l parent (ws\<lparr>ws_stack := rest\<rparr>) = Ok ws' \<longrightarrow> walk_inv ix root ws')"
proof (cases "checked_add (ws_next_id ws) 1")
  case None
  from inv stack have "unat l < length (ix_links ix)" by (simp add: walk_inv_def frame_ok_def)
  moreover have "link_target ix l < length (ix_files ix)" using link_target_bound [OF ok] calculation .
  ultimately show ?thesis using None by (simp add: visit_step_def idx_in Let_def link_target_def)
next
  case (Some next_id)
  define link where "link = ix_links ix ! unat l"
  define f where "f = nl_file_index link"
  define meta where "meta = ix_files ix ! unat f"
  define kind where "kind = row_kind ix options link meta"
  define ws0 where "ws0 = ws\<lparr>ws_stack := rest, ws_next_id := next_id\<rparr>"
  let ?F = "length (ix_files ix)" and ?C = "marked (ws_charged ws)"
  from inv stack obtain V where lens: "length (ws_ancestors ws) = ?F"
    and frames: "\<forall>fr\<in>set rest. frame_ok ix root fr"
    and l: "unat l < length (ix_links ix)" "link_target ix l \<in> reachable ix root"
    and charged: "charged_ok ix root {} (ws_charged ws) (ts_logical_bytes (ws_summary ws)) (ts_allocated_bytes (ws_summary ws))"
    and closed: "walk_closed ix root (Visit l parent # rest) (ws_ancestors ws) ?C V"
    by (auto simp: walk_inv_def frame_ok_def)
  have target: "link_target ix l = unat f" by (simp add: link_target_def f_def link_def)
  have f: "unat f < ?F" using link_target_bound [OF ok l(1)] target by simp
  have dir: "kind = KFile \<longleftrightarrow> \<not> is_dir ix (unat f)" by (simp add: kind_def row_kind_dir is_dir_def meta_def)
  have "length (ws_charged ws0) = ?F" using charged by (simp add: ws0_def charged_ok_def)
  from charge_row_spec [OF ok f this, of kind] obtain bytes ws1 where
      run: "charge_row ix kind f meta ws0 = Ok (bytes, ws1)"
    and c: "length (ws_charged ws1) = ?F" "marked (ws_charged ws1) = ?C \<union> charged_set ix kind (unat f)"
      "unat (fst bytes) = capped (size_sum ix fm_logical_bytes (marked (ws_charged ws1) - ?C))"
      "unat (snd bytes) = capped (size_sum ix fm_allocated_bytes (marked (ws_charged ws1) - ?C))"
      "ts_logical_bytes (ws_summary ws1) = ts_logical_bytes (ws_summary ws)"
      "ts_allocated_bytes (ws_summary ws1) = ts_allocated_bytes (ws_summary ws)"
    by (auto simp: meta_def ws0_def)
  note keep = charge_row_keeps [OF run]
  define ws2 where "ws2 = emit_row (row_of ix options link meta (ws_next_id ws) parent bytes) ws1"
  have ws2: "ws_stack ws2 = rest" "ws_ancestors ws2 = ws_ancestors ws" "ws_charged ws2 = ws_charged ws1"
    using keep by (simp_all add: ws2_def ws0_def)
  have charged2: "charged_ok ix root {} (ws_charged ws2) (ts_logical_bytes (ws_summary ws2)) (ts_allocated_bytes (ws_summary ws2))"
    unfolding ws2(3)
    using charged_ok_grow [OF charged c(1,2) _ c(3,4)] charged_set_sound [of "unat f" ix root kind] l(2) target dir
    by (simp add: ws2_def row_of_def c(5,6))
  have go: "visit_step ix options l parent (ws\<lparr>ws_stack := rest\<rparr>) =
      obind (if kind = KDirectory then enter_directory ix f (ws_next_id ws) ws2 else Ok ws2)
        (\<lambda>ws. Ok (flush_full (clamp_batch options) ws))"
    using l(1) f Some run
    by (simp add: visit_step_def idx_in Let_def link_def f_def meta_def kind_def ws0_def ws2_def)
  have stay: "walk_inv ix root (ws2\<lparr>ws_summary := (ws_summary ws2)\<lparr>ts_cycles_skipped := n\<rparr>\<rparr>) \<and> walk_inv ix root ws2"
    if "covered_node ix (marked (ws_charged ws1)) V (unat f)" for n
  proof -
    have "walk_closed ix root rest (ws_ancestors ws) (marked (ws_charged ws1)) V"
      by (rule walk_closed_visit [OF closed]) (use c(2) that target in auto)
    then show ?thesis using charged2 lens frames ws2 by (auto simp: walk_inv_def)
  qed
  show ?thesis
  proof (cases "kind = KDirectory \<and> \<not> ws_ancestors ws ! unat f")
    case True
    have d: "is_dir ix (unat f)" using dir True by auto
    have C: "marked (ws_charged ws1) = ?C" using c(2) True by (simp add: charged_set_def)
    have "frame_ok ix root (Visit k row_id)" if "k \<in> set (children_of ix f)" for k row_id
      using child_bound [OF ok that] reachable_step [OF l(2)] walk_edgeI [OF f d that] target
      by (simp add: frame_ok_def)
    then have "walk_inv ix root (ws2\<lparr>ws_ancestors := (ws_ancestors ws2)[unat f := True],
        ws_stack := map (\<lambda>child. Visit child (ws_next_id ws)) (children_of ix f) @ ExitDirectory f # ws_stack ws2\<rparr>)"
      using charged2 lens frames ws2 C f walk_closed_enter [OF closed target d, of "ws_next_id ws"]
      by (auto simp: walk_inv_def frame_ok_def)
    then show ?thesis using True f lens ws2 unfolding go by (simp add: enter_directory_def idx_in)
  next
    case False
    have "covered_node ix (marked (ws_charged ws1)) V (unat f)"
    proof (cases kind)
      case KDirectory
      then have "unat f \<in> V" "is_dir ix (unat f)" using False closed f lens dir by (auto simp: walk_closed_def)
      then show ?thesis by (simp add: covered_node_def)
    next
      case KReparseDirectory
      then have "is_dir ix (unat f)" using dir by auto
      moreover have "children_of ix f = []" using KReparseDirectory row_kind_dir(2) by (simp add: kind_def f_def)
      ultimately show ?thesis by (auto simp: covered_node_def reachable_leaf)
    qed (use dir c(2) in \<open>auto simp: covered_node_def charged_set_def\<close>)
    then show ?thesis using stay False f lens ws2 unfolding go by (auto simp: enter_directory_def idx_in)
  qed
qed

text \<open>A step of the loop keeps the invariant, and so does the loop.\<close>

lemma walk_step_inv:
  assumes ok: "index_ok ix" and inv: "walk_inv ix root ws" and stack: "ws_stack ws = frame # rest"
  shows "walk_step ix options frame (ws\<lparr>ws_stack := rest\<rparr>) \<noteq> Panic \<and>
    (\<forall>ws'. walk_step ix options frame (ws\<lparr>ws_stack := rest\<rparr>) = Ok ws' \<longrightarrow> walk_inv ix root ws')"
proof (cases frame)
  case (Visit l p)
  then show ?thesis using visit_step_inv [OF ok inv] stack by (simp add: walk_step_def)
next
  case (ExitDirectory f)
  with inv stack have "unat f < length (ws_ancestors ws)" by (simp add: walk_inv_def frame_ok_def)
  moreover have "walk_inv ix root (ws\<lparr>ws_stack := rest, ws_ancestors := (ws_ancestors ws)[unat f := False]\<rparr>)"
    using inv stack ExitDirectory walk_closed_exit unfolding walk_inv_def by fastforce
  ultimately show ?thesis using ExitDirectory by (simp add: walk_step_def idx_in)
qed



lemma walk_loop_run:
  assumes step: "\<forall>ws frame rest ws'. P ws \<longrightarrow> ws_stack ws = frame # rest \<longrightarrow>
      walk_step ix options frame (ws\<lparr>ws_stack := rest\<rparr>) = Ok ws' \<longrightarrow> P ws'"
    and safe: "\<forall>ws frame rest. P ws \<longrightarrow> ws_stack ws = frame # rest \<longrightarrow>
      walk_step ix options frame (ws\<lparr>ws_stack := rest\<rparr>) \<noteq> Panic"
    and run: "walk_loop ix options cancelled n ws = (ws', r)" and start: "P ws"
  shows "P ws' \<and> r \<noteq> Panic \<and> (r = Ok () \<longrightarrow> ws_stack ws' = [])"
  using assms
proof (induction ix options cancelled n ws rule: walk_loop.induct)
  case (1 ix options cancelled n ws)
  show ?case
  proof (cases "ws_stack ws")
    case Nil
    with "1.prems"(3,4) show ?thesis by (auto simp: walk_loop.simps [of ix options cancelled n ws])
  next
    case (Cons frame rest)
    note unfolded = "1.prems"(3) [unfolded walk_loop.simps [of ix options cancelled n ws] Cons list.case]
    show ?thesis
    proof (cases "cancelled n")
      case True
      with unfolded "1.prems"(4) show ?thesis by auto
    next
      case False
      show ?thesis
      proof (cases "walk_step ix options frame (ws\<lparr>ws_stack := rest\<rparr>)")
        case (Ok ws1)
        have P1: "P ws1" using "1.prems"(1,4) Cons Ok by blast
        have "walk_loop ix options cancelled (n + 1) ws1 = (ws', r)" using unfolded False Ok by simp
        from "1.IH" [OF Cons False Ok "1.prems"(1,2) this P1] show ?thesis .
      next
        case (Err e)
        with unfolded False "1.prems"(4) show ?thesis by auto
      next
        case Panic
        with "1.prems"(2,4) Cons show ?thesis by blast
      qed
    qed
  qed
qed

lemma walk_start_inv:
  assumes ok: "index_ok ix" and root: "unat i < length (ix_files ix)" "is_dir ix (unat i)"
  shows "walk_inv ix (unat i) (walk_start ix i options)"
proof -
  have frames: "frame_ok ix (unat i) fr" if "fr \<in> set (ws_stack (walk_start ix i options))" for fr
    using that child_bound [OF ok] walk_edgeI [OF root] reachable_step [OF reachable_self]
    by (auto simp: walk_start_def frame_ok_def)
  have closed: "walk_closed ix (unat i) (ws_stack (walk_start ix i options))
      (ws_ancestors (walk_start ix i options)) {} {unat i}"
    by (auto simp: walk_closed_def walk_start_def nth_update_if word_eq_unat_iff [symmetric] split: if_splits)
  have "marked (ws_charged (walk_start ix i options)) = {}" by (auto simp: walk_start_def marked_def)
  with frames closed show ?thesis
    by (auto simp: walk_inv_def charged_ok_def size_sum_def walk_start_def)
qed

lemma walk_inv_done:
  assumes inv: "walk_inv ix root ws" and stack: "ws_stack ws = []" and root: "is_dir ix root"
  shows "unat (ts_logical_bytes (ws_summary ws)) = capped (size_sum ix fm_logical_bytes {f \<in> reachable ix root. \<not> is_dir ix f}) \<and>
    unat (ts_allocated_bytes (ws_summary ws)) = capped (size_sum ix fm_allocated_bytes {f \<in> reachable ix root. \<not> is_dir ix f})"
proof -
  from inv stack obtain V where charged: "charged_ok ix root {} (ws_charged ws) (ts_logical_bytes (ws_summary ws)) (ts_allocated_bytes (ws_summary ws))"
    and closed: "walk_closed ix root [] (ws_ancestors ws) (marked (ws_charged ws)) V"
    by (auto simp: walk_inv_def)
  have "marked (ws_charged ws) = {f \<in> reachable ix root. \<not> is_dir ix f}"
    using charged walk_closed_reaches [OF closed root] by (auto simp: charged_ok_def)
  with charged show ?thesis by (simp add: charged_ok_def)
qed

section \<open>The rows of a walk\<close>

definition rows_of :: "walk_state \<Rightarrow> neutral_row list" where
  "rows_of ws = concat (ws_batches ws) @ ws_batch ws"

text \<open>Id \<open>p\<close> was given to directory \<open>i\<close>: the root of the walk, or the file of an emitted directory row.\<close>

definition parent_row :: "compact_index \<Rightarrow> traversal_options \<Rightarrow> u32 \<Rightarrow> neutral_row list \<Rightarrow> u64 \<Rightarrow> u32 \<Rightarrow> bool" where
  "parent_row ix options root rows p i \<longleftrightarrow> p = to_root_id options \<and> i = root \<or>
     (\<exists>row\<in>set rows. nr_id row = p \<and> nr_kind row = KDirectory \<and>
        nr_file_record row = meta_reference (ix_files ix ! unat i))"

definition row_ok :: "compact_index \<Rightarrow> traversal_options \<Rightarrow> u32 \<Rightarrow> neutral_row list \<Rightarrow> neutral_row \<Rightarrow> bool" where
  "row_ok ix options root before row \<longleftrightarrow> (\<exists>i l. l \<in> set (children_of ix i) \<and>
     parent_row ix options root before (nr_parent_id row) i \<and>
     row = row_of ix options (ix_links ix ! unat l) (ix_files ix ! link_target ix l) (nr_id row)
       (nr_parent_id row) (nr_logical_bytes row, nr_allocated_bytes row))"

definition rows_ok :: "compact_index \<Rightarrow> traversal_options \<Rightarrow> u32 \<Rightarrow> neutral_row list \<Rightarrow> bool" where
  "rows_ok ix options root rows \<longleftrightarrow>
     (\<forall>k<length rows. unat (nr_id (rows ! k)) = unat (to_first_child_id options) + k \<and>
        row_ok ix options root (take k rows) (rows ! k))"

definition rows_inv :: "compact_index \<Rightarrow> traversal_options \<Rightarrow> u32 \<Rightarrow> walk_state \<Rightarrow> bool" where
  "rows_inv ix options root ws \<longleftrightarrow>
     rows_ok ix options root (rows_of ws) \<and>
     unat (ws_next_id ws) = unat (to_first_child_id options) + length (rows_of ws) \<and>
     (\<forall>l p. Visit l p \<in> set (ws_stack ws) \<longrightarrow>
        (\<exists>i. l \<in> set (children_of ix i) \<and> parent_row ix options root (rows_of ws) p i)) \<and>
     (\<forall>b\<in>set (ws_batches ws). length b = clamp_batch options) \<and> length (ws_batch ws) < clamp_batch options \<and>
     unat (ts_rows (ws_summary ws)) = capped (length (rows_of ws)) \<and>
     unat (ts_logical_bytes (ws_summary ws)) = capped (\<Sum>row\<leftarrow>rows_of ws. unat (nr_logical_bytes row)) \<and>
     unat (ts_allocated_bytes (ws_summary ws)) = capped (\<Sum>row\<leftarrow>rows_of ws. unat (nr_allocated_bytes row))"

lemma parent_row_mono: "parent_row ix options root rows p i \<Longrightarrow> parent_row ix options root (rows @ new) p i"
  by (auto simp: parent_row_def)

lemma rows_ok_snoc:
  assumes "rows_ok ix options root rows" and "row_ok ix options root rows row"
    and "unat (nr_id row) = unat (to_first_child_id options) + length rows"
  shows "rows_ok ix options root (rows @ [row])"
  using assms by (auto simp: rows_ok_def nth_append less_Suc_eq)

lemma rows_ok_append:
  assumes "rows_ok ix options root (rows @ new)"
  shows "rows_ok ix options root rows"
  unfolding rows_ok_def
proof (intro allI impI)
  fix k assume k: "k < length rows"
  with assms [unfolded rows_ok_def, THEN spec, THEN mp, of k]
  show "unat (nr_id (rows ! k)) = unat (to_first_child_id options) + k \<and> row_ok ix options root (take k rows) (rows ! k)"
    by (simp add: nth_append less_imp_le)
qed

lemma clamp_batch_pos: "0 < clamp_batch options"
  by (simp add: clamp_batch_def)

lemma rows_of_simps [simp]:
  "rows_of (flush_full n ws) = rows_of ws" "rows_of (emit_row row ws) = rows_of ws @ [row]"
  "rows_of (ws\<lparr>ws_stack := s\<rparr>) = rows_of ws" "rows_of (ws\<lparr>ws_ancestors := a\<rparr>) = rows_of ws"
  "rows_of (ws\<lparr>ws_summary := t\<rparr>) = rows_of ws" "rows_of (ws\<lparr>ws_next_id := m\<rparr>) = rows_of ws"
  by (simp_all add: rows_of_def flush_full_def)

lemma charge_row_sums:
  "charge_row ix kind f file ws = Ok (bytes, ws') \<Longrightarrow> rows_of ws' = rows_of ws \<and>
     ts_rows (ws_summary ws') = ts_rows (ws_summary ws) \<and>
     ts_logical_bytes (ws_summary ws') = ts_logical_bytes (ws_summary ws) \<and>
     ts_allocated_bytes (ws_summary ws') = ts_allocated_bytes (ws_summary ws)"
  by (auto simp: charge_row_def outcome_simps rows_of_def split: neutral_node_kind.splits)

text \<open>Entering a directory pushes frames whose parent is the row just emitted.\<close>

lemma enter_directory_frames:
  assumes "enter_directory ix f row_id ws = Ok ws'" and "Visit l p \<in> set (ws_stack ws')"
  shows "Visit l p \<in> set (ws_stack ws) \<or> l \<in> set (children_of ix f) \<and> p = row_id"
  using assms by (auto simp: enter_directory_def outcome_simps split: if_splits)

lemma enter_directory_keeps:
  "enter_directory ix f row_id ws = Ok ws' \<Longrightarrow> rows_of ws' = rows_of ws \<and> ws_next_id ws' = ws_next_id ws \<and>
     ws_batches ws' = ws_batches ws \<and> ws_batch ws' = ws_batch ws \<and>
     ts_rows (ws_summary ws') = ts_rows (ws_summary ws) \<and>
     ts_logical_bytes (ws_summary ws') = ts_logical_bytes (ws_summary ws) \<and>
     ts_allocated_bytes (ws_summary ws') = ts_allocated_bytes (ws_summary ws)"
  by (auto simp: enter_directory_def outcome_simps rows_of_def split: if_splits)

lemma flush_full_batches:
  assumes "\<forall>b\<in>set (ws_batches ws). length b = n" and "length (ws_batch ws) \<le> n" and "0 < n"
  shows "(\<forall>b\<in>set (ws_batches (flush_full n ws)). length b = n) \<and> length (ws_batch (flush_full n ws)) < n"
  using assms by (auto simp: flush_full_def)

lemma visit_step_rows:
  assumes inv: "rows_inv ix options root ws" and stack: "ws_stack ws = Visit l parent # rest"
    and run: "visit_step ix options l parent (ws\<lparr>ws_stack := rest\<rparr>) = Ok ws'"
  shows "rows_inv ix options root ws'"
  using run
proof (rule visit_step_cases)
  fix link meta next_id bytes ws1 ws2
  let ?rows = "rows_of ws" and ?kind = "row_kind ix options link meta"
  assume link: "link = ix_links ix ! unat l" and meta: "meta = ix_files ix ! unat (nl_file_index link)"
    and next_id: "checked_add (ws_next_id (ws\<lparr>ws_stack := rest\<rparr>)) 1 = Some next_id"
    and charge: "charge_row ix ?kind (nl_file_index link) meta (ws\<lparr>ws_stack := rest, ws_next_id := next_id\<rparr>) = Ok (bytes, ws1)"
    and enter: "(if ?kind = KDirectory
      then enter_directory ix (nl_file_index link) (ws_next_id (ws\<lparr>ws_stack := rest\<rparr>))
        (emit_row (row_of ix options link meta (ws_next_id (ws\<lparr>ws_stack := rest\<rparr>)) parent bytes) ws1)
      else Ok (emit_row (row_of ix options link meta (ws_next_id (ws\<lparr>ws_stack := rest\<rparr>)) parent bytes) ws1)) = Ok ws2"
    and ws': "ws' = flush_full (clamp_batch options) ws2"
  define row where "row = row_of ix options link meta (ws_next_id ws) parent bytes"
  have target: "meta = ix_files ix ! link_target ix l" by (simp add: meta link link_target_def)
  have row: "nr_id row = ws_next_id ws" "nr_parent_id row = parent" "nr_kind row = ?kind"
    "nr_file_record row = meta_reference meta"
    by (simp_all add: row_def row_of_def)
  note keep = charge_row_keeps [OF charge] charge_row_sums [OF charge]
  have enter: "(if ?kind = KDirectory then enter_directory ix (nl_file_index link) (ws_next_id ws) (emit_row row ws1)
      else Ok (emit_row row ws1)) = Ok ws2"
    using enter by (simp add: row_def split: if_splits)
  have two: "rows_of ws2 = ?rows @ [row]" "ws_next_id ws2 = next_id" "ws_batches ws2 = ws_batches ws"
      "ws_batch ws2 = ws_batch ws @ [row]"
      "ts_rows (ws_summary ws2) = saturating_add (ts_rows (ws_summary ws)) 1"
      "ts_logical_bytes (ws_summary ws2) = saturating_add (ts_logical_bytes (ws_summary ws)) (nr_logical_bytes row)"
      "ts_allocated_bytes (ws_summary ws2) = saturating_add (ts_allocated_bytes (ws_summary ws)) (nr_allocated_bytes row)"
    using enter keep by (auto split: if_splits dest: enter_directory_keeps)
  from inv have prems: "rows_ok ix options root ?rows" "unat (ws_next_id ws) = unat (to_first_child_id options) + length ?rows"
      "\<forall>b\<in>set (ws_batches ws). length b = clamp_batch options" "length (ws_batch ws) < clamp_batch options"
      "unat (ts_rows (ws_summary ws)) = capped (length ?rows)"
      "unat (ts_logical_bytes (ws_summary ws)) = capped (\<Sum>row\<leftarrow>?rows. unat (nr_logical_bytes row))"
      "unat (ts_allocated_bytes (ws_summary ws)) = capped (\<Sum>row\<leftarrow>?rows. unat (nr_allocated_bytes row))"
    and frames: "\<And>k p. Visit k p \<in> set (ws_stack ws) \<Longrightarrow>
        \<exists>i. k \<in> set (children_of ix i) \<and> parent_row ix options root ?rows p i"
    by (simp_all add: rows_inv_def)
  from frames [of l parent] stack obtain i where i: "l \<in> set (children_of ix i)" "parent_row ix options root ?rows parent i"
    by auto
  have "row_ok ix options root ?rows row"
    unfolding row_ok_def
    by (intro exI [of _ i] exI [of _ l] conjI) (use i row in \<open>simp_all add: row_def row_of_def link target\<close>)
  then have rows: "rows_ok ix options root (?rows @ [row])"
    using rows_ok_snoc prems row by simp
  have stack2: "\<exists>i. k \<in> set (children_of ix i) \<and> parent_row ix options root (?rows @ [row]) p i"
    if "Visit k p \<in> set (ws_stack ws2)" for k p
  proof -
    have "Visit k p \<in> set rest \<or> ?kind = KDirectory \<and> k \<in> set (children_of ix (nl_file_index link)) \<and> p = ws_next_id ws"
      using enter keep that by (auto split: if_splits dest: enter_directory_frames)
    then show ?thesis
    proof
      assume "Visit k p \<in> set rest"
      with frames [of k p] stack show ?thesis using parent_row_mono by auto
    next
      assume a: "?kind = KDirectory \<and> k \<in> set (children_of ix (nl_file_index link)) \<and> p = ws_next_id ws"
      then have "parent_row ix options root (?rows @ [row]) p (nl_file_index link)"
        using row by (auto simp: parent_row_def meta)
      with a show ?thesis by blast
    qed
  qed
  have batch: "(\<forall>b\<in>set (ws_batches ws'). length b = clamp_batch options) \<and> length (ws_batch ws') < clamp_batch options"
    unfolding ws' by (rule flush_full_batches) (use prems(3,4) two clamp_batch_pos in auto)
  have sums: "unat (ts_rows (ws_summary ws2)) = capped (length (?rows @ [row]))"
      "unat (ts_logical_bytes (ws_summary ws2)) = capped (\<Sum>row\<leftarrow>?rows @ [row]. unat (nr_logical_bytes row))"
      "unat (ts_allocated_bytes (ws_summary ws2)) = capped (\<Sum>row\<leftarrow>?rows @ [row]. unat (nr_allocated_bytes row))"
    using capped_add [OF prems(5), of 1] capped_add [OF prems(6), of "nr_logical_bytes row"]
      capped_add [OF prems(7), of "nr_allocated_bytes row"]
    unfolding two by simp_all
  have "unat next_id = unat (to_first_child_id options) + length (?rows @ [row])"
    using next_id prems(2) by (simp add: arith_word)
  then show ?thesis
    using rows stack2 batch sums two unfolding rows_inv_def ws' by simp
qed

lemma walk_step_rows:
  assumes inv: "rows_inv ix options root ws" and stack: "ws_stack ws = frame # rest"
    and run: "walk_step ix options frame (ws\<lparr>ws_stack := rest\<rparr>) = Ok ws'"
  shows "rows_inv ix options root ws'"
proof (cases frame)
  case (Visit l p)
  then show ?thesis using visit_step_rows inv stack run by (simp add: walk_step_def)
next
  case (ExitDirectory f)
  then show ?thesis using inv stack run by (auto simp: walk_step_def outcome_simps rows_inv_def)
qed

lemma walk_start_rows: "rows_inv ix options i (walk_start ix i options)"
  using clamp_batch_pos
  by (auto simp: rows_inv_def rows_ok_def rows_of_def walk_start_def parent_row_def)


section \<open>The subtree of a built index\<close>

lemma walk_result:
  assumes ok: "index_ok ix" and root: "unat i < length (ix_files ix)" "is_dir ix (unat i)"
    and run: "walk_loop ix options cancelled 0 (walk_start ix i options) = (ws, r)"
  shows "walk_inv ix (unat i) ws \<and> rows_inv ix options i ws \<and> r \<noteq> Panic \<and> (r = Ok () \<longrightarrow> ws_stack ws = [])"
proof -
  have "(walk_inv ix (unat i) ws \<and> rows_inv ix options i ws) \<and> r \<noteq> Panic \<and> (r = Ok () \<longrightarrow> ws_stack ws = [])"
  proof (rule walk_loop_run [where P = "\<lambda>ws. walk_inv ix (unat i) ws \<and> rows_inv ix options i ws", OF _ _ run])
    show "walk_inv ix (unat i) (walk_start ix i options) \<and> rows_inv ix options i (walk_start ix i options)"
      using walk_start_inv [OF ok root] walk_start_rows by blast
  qed (use walk_step_inv [OF ok] walk_step_rows in blast)+
  then show ?thesis by blast
qed

lemma walk_subtree_cases:
  assumes "walk_subtree ix root options cancelled = (batches, r)"
  obtains (refused) "batches = []" and "\<exists>e. r = Err e"
  | (walked) i m ws r' where "index_file ix root = Some (i, m)" and "meta_is_directory m"
    and "walk_loop ix options cancelled 0 (walk_start ix i options) = (ws, r')"
    and "batches = ws_batches ws @ (if is_ok r' \<and> ws_batch ws \<noteq> [] then [ws_batch ws] else [])"
    and "r = (case r' of Ok _ \<Rightarrow> Ok (ws_summary ws) | Err e \<Rightarrow> Err e | Panic \<Rightarrow> Panic)"
proof (cases "index_file ix root")
  case None
  with assms that(1) show ?thesis by (auto simp: walk_subtree_def)
next
  case (Some found)
  obtain i m where found: "found = (i, m)" by (cases found)
  obtain ws r' where run: "walk_loop ix options cancelled 0 (walk_start ix i options) = (ws, r')"
    by (cases "walk_loop ix options cancelled 0 (walk_start ix i options)")
  show ?thesis
  proof (cases "meta_is_directory m")
    case True
    show ?thesis
      by (rule that(2) [OF Some [unfolded found] True run])
        (use assms Some found True run in \<open>auto simp: walk_subtree_def split: outcome.splits\<close>)
  qed (use assms Some found that(1) in \<open>auto simp: walk_subtree_def\<close>)
qed

lemma index_file_dir:
  assumes "index_file ix root = Some (i, m)" and "meta_is_directory m"
  shows "unat i < length (ix_files ix) \<and> is_dir ix (unat i)"
  using assms by (auto simp: index_file_def lookup_file_def outcome_simps is_dir_def split: option.splits if_splits)

text \<open>Everything the walk of a sound index promises.\<close>

definition batches_ok :: "nat \<Rightarrow> 'a list list \<Rightarrow> bool" where
  "batches_ok n batches \<longleftrightarrow> (\<forall>b\<in>set (butlast batches). length b = n) \<and>
     (batches \<noteq> [] \<longrightarrow> 0 < length (last batches) \<and> length (last batches) \<le> n)"

lemma batches_ok_rows:
  assumes "\<forall>b\<in>set batches. length b = n" and "length part < n"
  shows "batches_ok n batches" and "batches_ok n (batches @ (if part \<noteq> [] then [part] else []))"
proof -
  have last: "length (last batches) = n" if "batches \<noteq> []" using assms(1) that last_in_set by blast
  then show full: "batches_ok n batches"
    using assms in_set_butlastD [of _ batches] unfolding batches_ok_def by (intro conjI ballI impI) simp_all
  then show "batches_ok n (batches @ (if part \<noteq> [] then [part] else []))"
    using assms by (cases "part = []") (auto simp: batches_ok_def)
qed

lemma walk_subtree_spec:
  assumes ok: "index_ok ix" and run: "walk_subtree ix root options cancelled = (batches, r)"
  shows "r \<noteq> Panic"
    and "\<exists>i. rows_ok ix options i (concat batches)" and "batches_ok (clamp_batch options) batches"
    and "r = Ok summary \<Longrightarrow> \<exists>i m. index_file ix root = Some (i, m) \<and> meta_is_directory m \<and>
      rows_ok ix options i (concat batches) \<and>
      unat (ts_rows summary) = capped (length (concat batches)) \<and>
      unat (ts_logical_bytes summary) = capped (\<Sum>row\<leftarrow>concat batches. unat (nr_logical_bytes row)) \<and>
      unat (ts_allocated_bytes summary) = capped (\<Sum>row\<leftarrow>concat batches. unat (nr_allocated_bytes row)) \<and>
      unat (ts_logical_bytes summary) = capped (size_sum ix fm_logical_bytes {f \<in> reachable ix (unat i). \<not> is_dir ix f}) \<and>
      unat (ts_allocated_bytes summary) = capped (size_sum ix fm_allocated_bytes {f \<in> reachable ix (unat i). \<not> is_dir ix f})"
proof -
  have "r \<noteq> Panic \<and> (\<exists>i. rows_ok ix options i (concat batches)) \<and> batches_ok (clamp_batch options) batches \<and>
    (r = Ok summary \<longrightarrow> (\<exists>i m. index_file ix root = Some (i, m) \<and> meta_is_directory m \<and>
      rows_ok ix options i (concat batches) \<and>
      unat (ts_rows summary) = capped (length (concat batches)) \<and>
      unat (ts_logical_bytes summary) = capped (\<Sum>row\<leftarrow>concat batches. unat (nr_logical_bytes row)) \<and>
      unat (ts_allocated_bytes summary) = capped (\<Sum>row\<leftarrow>concat batches. unat (nr_allocated_bytes row)) \<and>
      unat (ts_logical_bytes summary) = capped (size_sum ix fm_logical_bytes {f \<in> reachable ix (unat i). \<not> is_dir ix f}) \<and>
      unat (ts_allocated_bytes summary) = capped (size_sum ix fm_allocated_bytes {f \<in> reachable ix (unat i). \<not> is_dir ix f})))"
    using run
  proof (cases rule: walk_subtree_cases)
    case refused
    then show ?thesis by (auto simp: rows_ok_def batches_ok_def)
  next
    case (walked i m ws r')
    have dir: "unat i < length (ix_files ix)" "is_dir ix (unat i)" using index_file_dir [OF walked(1,2)] by simp_all
    note w = walk_result [OF ok dir walked(3)]
    have rows: "rows_ok ix options i (concat (ws_batches ws) @ ws_batch ws)" using w by (simp add: rows_inv_def rows_of_def)
    then have prefix: "rows_ok ix options i (concat (ws_batches ws))" by (rule rows_ok_append)
    have batches: "batches_ok (clamp_batch options) batches"
      unfolding walked(4) using w batches_ok_rows [of "ws_batches ws" "clamp_batch options" "ws_batch ws"]
      by (cases r') (auto simp: rows_inv_def)
    show ?thesis
    proof (cases r')
      case (Ok u)
      then have all: "concat batches = rows_of ws" and r: "r = Ok (ws_summary ws)" and stack: "ws_stack ws = []"
        using walked(4,5) w by (simp_all add: rows_of_def)
      have inv: "walk_inv ix (unat i) ws" using w by blast
      have sums: "unat (ts_rows (ws_summary ws)) = capped (length (rows_of ws))"
        "unat (ts_logical_bytes (ws_summary ws)) = capped (\<Sum>row\<leftarrow>rows_of ws. unat (nr_logical_bytes row))"
        "unat (ts_allocated_bytes (ws_summary ws)) = capped (\<Sum>row\<leftarrow>rows_of ws. unat (nr_allocated_bytes row))"
        "rows_ok ix options i (rows_of ws)"
        using w by (simp_all add: rows_inv_def)
      show ?thesis
        unfolding all r using walked(1,2) batches sums walk_inv_done [OF inv stack dir(2)] by auto
    next
      case (Err e)
      then show ?thesis using walked(4,5) prefix batches by auto
    next
      case Panic
      with w show ?thesis by blast
    qed
  qed
  then show "r \<noteq> Panic" "\<exists>i. rows_ok ix options i (concat batches)" "batches_ok (clamp_batch options) batches"
    "r = Ok summary \<Longrightarrow> \<exists>i m. index_file ix root = Some (i, m) \<and> meta_is_directory m \<and>
      rows_ok ix options i (concat batches) \<and>
      unat (ts_rows summary) = capped (length (concat batches)) \<and>
      unat (ts_logical_bytes summary) = capped (\<Sum>row\<leftarrow>concat batches. unat (nr_logical_bytes row)) \<and>
      unat (ts_allocated_bytes summary) = capped (\<Sum>row\<leftarrow>concat batches. unat (nr_allocated_bytes row)) \<and>
      unat (ts_logical_bytes summary) = capped (size_sum ix fm_logical_bytes {f \<in> reachable ix (unat i). \<not> is_dir ix f}) \<and>
      unat (ts_allocated_bytes summary) = capped (size_sum ix fm_allocated_bytes {f \<in> reachable ix (unat i). \<not> is_dir ix f})"
    by blast+
qed

end
