(* ===== verification/NtfsWalkProps.thy ===== *)
theory NtfsWalkProps
  imports NtfsWalk
begin

text \<open>
  The properties of \<open>index.rs\<close> as a whole: a list of parsed FILE records is pushed into a
  default builder, the builder is finished, and the index is looked up and walked.  The laws of
  the builder come from \<open>NtfsIndexProps\<close>, those of the walks from \<open>NtfsWalk\<close>.
\<close>

section \<open>Building an index\<close>

definition index_of :: "file_record list \<Rightarrow> compact_index ntfs_result" where
  "index_of rs = obind (push_all builder_default rs) finish"

lemma index_of_Ok:
  assumes "index_of rs = Ok ix" and "length rs < 2 ^ 32"
  obtains b where "push_all builder_default rs = Ok b" and "finish b = Ok ix" and "builder_ok b" and "index_ok ix"
proof -
  from assms(1) obtain b where b: "push_all builder_default rs = Ok b" "finish b = Ok ix"
    by (auto simp: index_of_def outcome_simps)
  have "builder_ok b" using push_all_ok [OF b(1) builder_default_ok] assms(2) by (simp add: builder_default_def)
  with b that finish_index_ok show thesis by blast
qed

lemma append_names_no_panic: "append_names b i names \<noteq> Panic"
  by (induction names arbitrary: b) (simp_all add: outcome_simps)

lemma merge_extension_no_panic: "unat i < length (ib_files b) \<Longrightarrow> merge_extension b i ext \<noteq> Panic"
  by (simp add: merge_extension_def idx_in append_names_no_panic)

lemma merge_pending_no_panic:
  assumes "builder_ok b" and "unat i < length (ib_files b)"
  shows "merge_pending b i refs \<noteq> Panic"
  using assms
proof (induction refs arbitrary: b)
  case (Cons reference refs)
  show ?case
  proof (cases "map_of (ib_pending_extensions b) reference")
    case None
    with Cons show ?thesis by simp
  next
    case (Some pending)
    let ?b = "b\<lparr>ib_pending_extensions := AList.delete reference (ib_pending_extensions b)\<rparr>"
    have "merge_pending c i refs \<noteq> Panic" if "merge_extension ?b i pending = Ok c" for c
      using merge_extension_ok [OF that] Cons by simp
    with Some merge_extension_no_panic [of i ?b pending] Cons.prems(2) show ?thesis
      by (auto simp: obind_Panic_iff)
  qed
qed simp

lemma reserve_slot_Ok:
  "reserve_slot b r = Ok b1 \<Longrightarrow>
     (b1 = b \<or> (\<exists>n. b1 = b\<lparr>ib_record_to_file := resize_zero (ib_record_to_file b) n\<rparr>)) \<and>
     unat (rec_record_number r) < length (ib_record_to_file b1)"
  by (auto simp: reserve_slot_def Let_def outcome_simps arith_word resize_zero_def split: if_splits)

lemma push_base_no_panic:
  assumes ok: "builder_ok b" and few: "length (ib_files b) < 2 ^ 32 - 1"
  shows "push_base b r \<noteq> Panic"
  unfolding push_base_def Let_def
proof (intro not_panic_bind not_panic_if not_panic_results not_panic_ok_or)
  show "reserve_slot b r \<noteq> Panic" by (simp add: reserve_slot_def Let_def outcome_simps)
next
  fix b1 assume "reserve_slot b r = Ok b1"
  then show "idx (ib_record_to_file b1) (unat (rec_record_number r)) \<noteq> Panic"
    by (auto simp: idx_def dest: reserve_slot_Ok)
next
  fix b1 occupied file_index
  show "append_names (b1\<lparr>ib_files := ib_files b1 @ [base_meta r],
      ib_record_to_file := (ib_record_to_file b1)[unat (rec_record_number r) := saturating_add file_index 1]\<rparr>)
      file_index (rec_names r) \<noteq> Panic" by (rule append_names_no_panic)
next
  fix b1 occupied file_index b3
  assume run: "reserve_slot b r = Ok b1" "idx (ib_record_to_file b1) (unat (rec_record_number r)) = Ok occupied"
    "\<not> occupied \<noteq> 0" "ok_or (u32_of_usize (length (ib_files b1)))
       (NtfsError_new LimitExceeded (rec_record_number r) ''more than u32::MAX base records'') = Ok file_index"
    and app: "append_names (b1\<lparr>ib_files := ib_files b1 @ [base_meta r],
      ib_record_to_file := (ib_record_to_file b1)[unat (rec_record_number r) := saturating_add file_index 1]\<rparr>)
      file_index (rec_names r) = Ok b3"
  let ?b = "expect_extensions b3 file_index (foreign_references r)"
  have tables: "builder_ok ?b \<and> length (ib_files ?b) = length (ib_files b) + 1 \<and> unat file_index = length (ib_files b)"
    using push_base_tables [OF ok few _ _ _ _ app] reserve_slot_Ok [OF run(1)] run(2-4)
    by (simp add: idx_Ok ok_or_Ok_iff)
  then show "merge_pending ?b file_index (foreign_references r) \<noteq> Panic"
    by (intro merge_pending_no_panic) auto
  fix b4 assume "merge_pending ?b file_index (foreign_references r) = Ok b4"
  from merge_pending_ok [OF this] tables have "builder_ok b4" "unat file_index < length (ib_files b4)" by auto
  then show "(case map_of (ib_pending_by_base b4) \<lparr>ref_record = rec_record_number r, ref_sequence = rec_sequence r\<rparr> of
       None \<Rightarrow> Ok b4 | Some references \<Rightarrow>
         merge_pending (b4\<lparr>ib_pending_by_base := AList.delete \<lparr>ref_record = rec_record_number r, ref_sequence = rec_sequence r\<rparr>
            (ib_pending_by_base b4)\<rparr>) file_index references) \<noteq> Panic"
    by (simp add: merge_pending_no_panic split: option.split)
qed

lemma push_extension_no_panic:
  assumes ok: "builder_ok b"
  shows "push_extension b base r \<noteq> Panic"
proof -
  have "unat i < length (ib_files b)" if "builder_file b base = Some (i, m)" for i m
    using that by (auto simp: builder_file_def lookup_file_def outcome_simps split: option.splits if_splits)
  moreover have "unat i < length (ib_files b)" if "map_of (ib_expected_extensions b) own = Some i" for i own
    using ok map_of_SomeD [OF that] by (auto simp: builder_ok_def)
  ultimately show ?thesis
    by (auto simp: push_extension_def Let_def idx_in merge_extension_no_panic split: option.split)
qed

lemma push_no_panic:
  "builder_ok b \<Longrightarrow> length (ib_files b) < 2 ^ 32 - 1 \<Longrightarrow> push b r \<noteq> Panic"
  by (auto simp: push_def Let_def push_base_no_panic push_extension_no_panic split: option.split)

lemma push_all_no_panic:
  assumes "builder_ok b" and "length (ib_files b) + length rs < 2 ^ 32"
  shows "push_all b rs \<noteq> Panic"
  using assms
proof (induction rs arbitrary: b)
  case (Cons r rs)
  have "push_all d rs \<noteq> Panic" if "push b r = Ok d" for d
    using push_ok [OF that Cons.prems(1)] Cons.prems(2) by (intro Cons.IH) auto
  then show ?case using push_no_panic [OF Cons.prems(1), of r] Cons.prems(2) by (auto simp: obind_Panic_iff)
qed simp

definition sample_file :: "u64 \<Rightarrow> bool \<Rightarrow> file_name list \<Rightarrow> data_attribute list \<Rightarrow> file_record" where
  "sample_file record_number directory names data =
     \<lparr>rec_record_number = record_number, rec_sequence = 1, rec_hard_link_count = 1, rec_in_use = True,
      rec_directory = directory, rec_reparse_point = False, rec_reparse_tag = None,
      rec_base_reference = None, rec_modified_ticks = None, rec_names = names, rec_data = data,
      rec_attribute_lists = [], rec_named_data_attributes = 0\<rparr>"

definition sample_name :: "u64 \<Rightarrow> u16 \<Rightarrow> file_name" where
  "sample_name parent letter = \<lparr>fn_parent = \<lparr>ref_record = parent, ref_sequence = 1\<rparr>, fn_namespace = Posix,
     fn_name = [letter], fn_logical_bytes = 0, fn_allocated_bytes = 0, fn_file_attributes = 0\<rparr>"

definition sample_data :: data_attribute where
  "sample_data = \<lparr>da_lowest_vcn = 0, da_highest_vcn = 0, da_logical_bytes = 10, da_allocated_bytes = 16,
     da_initialized_bytes = 10, da_resident = True, da_sparse = False, da_compressed = False, da_runs = []\<rparr>"

definition sample_tree :: "file_record list" where
  "sample_tree =
     [sample_file 0 True [] [], sample_file 1 True [sample_name 0 100] [],
      sample_file 2 False [sample_name 1 97, sample_name 0 98] [sample_data]]"


definition sample_files :: "file_meta list" where
  "sample_files =
     [\<lparr>fm_record = 0, fm_logical_bytes = 0, fm_allocated_bytes = 0, fm_modified_ticks = 0, fm_sequence = 1, fm_flags = 1\<rparr>,
      \<lparr>fm_record = 1, fm_logical_bytes = 0, fm_allocated_bytes = 0, fm_modified_ticks = 0, fm_sequence = 1, fm_flags = 1\<rparr>,
      \<lparr>fm_record = 2, fm_logical_bytes = 10, fm_allocated_bytes = 16, fm_modified_ticks = 0, fm_sequence = 1, fm_flags = 0\<rparr>]"

definition sample_links :: "name_link list" where
  "sample_links =
     [\<lparr>nl_parent_record = 0, nl_name_offset = 0, nl_file_index = 1, nl_parent_sequence = 1, nl_name_length = 1, nl_namespace = 0\<rparr>,
      \<lparr>nl_parent_record = 1, nl_name_offset = 1, nl_file_index = 2, nl_parent_sequence = 1, nl_name_length = 1, nl_namespace = 0\<rparr>,
      \<lparr>nl_parent_record = 0, nl_name_offset = 2, nl_file_index = 2, nl_parent_sequence = 1, nl_name_length = 1, nl_namespace = 0\<rparr>]"

definition sample_builder :: index_builder where
  "sample_builder = \<lparr>ib_files = sample_files, ib_links = sample_links, ib_name_arena = [100, 97, 98],
     ib_record_to_file = [1, 2, 3], ib_expected_extensions = [], ib_pending_extensions = [], ib_pending_by_base = [],
     ib_stats = stats_default\<lparr>st_records_seen := 3, st_base_records := 3\<rparr>\<rparr>"

definition sample_index :: compact_index where
  "sample_index = \<lparr>ix_files = sample_files, ix_links = sample_links, ix_name_arena = [100, 97, 98],
     ix_record_to_file = [1, 2, 3], ix_children = [2, 0, 1],
     ix_child_ranges = [\<lparr>cr_start = 0, cr_length = 2\<rparr>, \<lparr>cr_start = 2, cr_length = 1\<rparr>, \<lparr>cr_start = 3, cr_length = 0\<rparr>],
     ix_stats = stats_default\<lparr>st_records_seen := 3, st_base_records := 3\<rparr>\<rparr>"

definition sample_row :: "u64 \<Rightarrow> u64 \<Rightarrow> u64 \<Rightarrow> neutral_node_kind \<Rightarrow> u16 \<Rightarrow> u64 \<Rightarrow> u64 \<Rightarrow> neutral_row" where
  "sample_row row_id parent_id record_number kind letter logical allocated =
     \<lparr>nr_id = row_id, nr_parent_id = parent_id, nr_file_record = \<lparr>ref_record = record_number, ref_sequence = 1\<rparr>,
      nr_kind = kind, nr_raw_name = [letter], nr_display_name = [ucast letter], nr_logical_bytes = logical,
      nr_allocated_bytes = allocated, nr_modified_ticks = 0\<rparr>"

lemmas sample_builder_simps = sample_tree_def sample_file_def sample_name_def sample_data_def sample_builder_def
  sample_files_def sample_links_def stats_default_def builder_default_def

lemma sample_tree_pushed: "push_all builder_default sample_tree = Ok sample_builder"
  by (simp add: sample_builder_simps push_def push_base_def reserve_slot_def usize_checked_add_def resize_zero_def
     idx_def u32_of_usize_def u16_of_usize_def saturating_add_def base_meta_def record_flags_def primary_sizes_def
     is_cloud_reparse_def FILE_DIRECTORY_def expect_extensions_def foreign_references_def
     cong: obind_weak_cong)

lemmas sample_index_simps = sample_index_def sample_builder_def sample_files_def sample_links_def stats_default_def

lemma sample_suppressed: "suppressed_dos sample_links l = False" if "l \<in> set sample_links"
  using that by (auto simp: suppressed_dos_def link_is_dos_only_def sample_links_def)

lemma sample_counted:
  "ib_files b = sample_files \<Longrightarrow> ib_record_to_file b = [1, 2, 3] \<Longrightarrow>
     count_links sample_links (\<lambda>l. builder_file b (link_parent l)) sample_links [0, 0, 0] stats = Ok ([0, 1, 0], [2, 1, 0], stats)"
  by (simp add: sample_links_def sample_builder_def sample_files_def suppressed_dos_def link_is_dos_only_def
     builder_file_def link_parent_def lookup_file_def get_at_def checked_sub_def idx_def checked_add_def
     cong: obind_weak_cong)

lemma sample_ranged:
  "ranges_of_counts 0 [2, 1, 0] = Ok ([\<lparr>cr_start = 0, cr_length = 2\<rparr>, \<lparr>cr_start = 2, cr_length = 1\<rparr>, \<lparr>cr_start = 3, cr_length = 0\<rparr>], 3)"
  by (simp add: checked_add_def)

lemma sample_placed: "place_links 0 [0, 1, 0] [0, 2, 3] [0, 0, 0] = Ok [0, 2, 1]"
  by (simp add: idx_def u32_of_usize_def cong: obind_weak_cong)

lemma sample_sorted:
  "sort_ranges sample_links [100, 97, 98]
     [\<lparr>cr_start = 0, cr_length = 2\<rparr>, \<lparr>cr_start = 2, cr_length = 1\<rparr>, \<lparr>cr_start = 3, cr_length = 0\<rparr>] [0, 2, 1] = Ok [2, 0, 1]"
  by (simp add: sub_slice_def slice_def Let_def link_key_def arena_name_def sample_links_def cong: obind_weak_cong)

lemma sample_index_finished: "finish sample_builder = Ok sample_index"
proof -
  have "length sample_files = 3" "replicate 3 (0 :: u32) = [0, 0, 0]" "filter (suppressed_dos sample_links) sample_links = []"
    using sample_suppressed by (simp_all add: sample_files_def filter_False numeral_3_eq_3)
  then show ?thesis
    by (simp add: finish_def Let_def sample_builder_def sample_counted sample_ranged
  sample_placed sample_sorted saturating_add_def stats_default_def sample_index_def
       cong: obind_weak_cong del: count_links.simps ranges_of_counts.simps place_links.simps sort_ranges.simps)
qed

lemmas walk_eval = walk_step_def visit_step_def walk_start_def children_of_def sample_index_def sample_files_def sample_links_def
  row_kind_def meta_is_directory_def meta_is_reparse_point_def FILE_DIRECTORY_def FILE_REPARSE_def raw_name_def arena_name_def
  charge_row_def charge_file_def emit_row_def row_of_def enter_directory_def flush_full_def clamp_batch_def MAX_BATCH_ROWS_def
  meta_reference_def is_package_name_def

lemma sample_walked:
  "walk_subtree sample_index \<lparr>ref_record = 0, ref_sequence = 1\<rparr> TraversalOptions_default (\<lambda>_. False) =
     ([[sample_row 2 1 2 KFile 98 10 16, sample_row 3 1 1 KDirectory 100 0 0, sample_row 4 3 2 KFile 97 0 0]],
      Ok \<lparr>ts_rows = 3, ts_logical_bytes = 10, ts_allocated_bytes = 16, ts_cycles_skipped = 0\<rparr>)"
proof -
  have root: "index_file sample_index \<lparr>ref_record = 0, ref_sequence = 1\<rparr> = Some (0, sample_files ! 0)"
    by (simp add: index_file_def lookup_file_def sample_index_def get_at_def checked_sub_def sample_files_def)
  have "walk_loop sample_index TraversalOptions_default (\<lambda>_. False) 0 (walk_start sample_index 0 TraversalOptions_default) =
     (\<lparr>ws_stack = [], ws_charged = [False, False, True], ws_ancestors = [True, False, False], ws_next_id = 5,
       ws_batch = [sample_row 2 1 2 KFile 98 10 16, sample_row 3 1 1 KDirectory 100 0 0, sample_row 4 3 2 KFile 97 0 0],
       ws_batches = [], ws_summary = \<lparr>ts_rows = 3, ts_logical_bytes = 10, ts_allocated_bytes = 16, ts_cycles_skipped = 0\<rparr>\<rparr>, Ok ())"
    by (simp add: walk_loop.simps walk_eval TraversalOptions_default_def get_at_def slice_def idx_def checked_add_def
        saturating_add_def sample_row_def cong: obind_weak_cong)
  then show ?thesis using root
    by (simp add: walk_subtree_def sample_files_def meta_is_directory_def FILE_DIRECTORY_def)
qed

text \<open>Building an index never panics: whatever FILE records are pushed in whatever order (fewer than \<open>2 ^ 32\<close>), neither \<open>push\<close> nor \<open>finish\<close> indexes out of range.\<close>

theorem index_of_no_panic:
  assumes "length rs < 2 ^ 32"
  shows "index_of rs \<noteq> Panic"
proof -
  have "push_all builder_default rs \<noteq> Panic"
    using assms by (intro push_all_no_panic builder_default_ok) (simp add: builder_default_def)
  moreover have "finish b \<noteq> Panic" if "push_all builder_default rs = Ok b" for b
    using push_all_ok [OF that builder_default_ok] assms
    by (intro finish_no_panic) (simp add: builder_default_def builder_ok_def links_ok_def)
  ultimately show ?thesis by (auto simp: index_of_def obind_Panic_iff)
qed

lemma sample_index_of: "index_of sample_tree = Ok sample_index"
  by (simp add: index_of_def sample_tree_pushed sample_index_finished)

lemma sample_tree_length: "length sample_tree < 2 ^ 32"
  by (simp add: sample_tree_def)

theorem index_of_no_panic_witness: "index_of sample_tree \<noteq> Panic"
  by (rule index_of_no_panic) (rule sample_tree_length)

text \<open>C8. \<open>CompactNtfsIndex::file\<close> on a built index is an exact lookup: it returns slot \<open>i\<close> for a reference if and only if slot \<open>i\<close> holds the file with that record number and that sequence number.\<close>

theorem index_file_exact:
  assumes "index_of rs = Ok ix" and "length rs < 2 ^ 32"
  shows "index_file ix reference = Some (i, m) \<longleftrightarrow>
    unat i < length (ix_files ix) \<and> ix_files ix ! unat i = m \<and> meta_reference m = reference"
  using assms
proof (rule index_of_Ok)
  fix b assume "finish b = Ok ix" and "builder_ok b"
  then show ?thesis using finish_fields [of b ix] lookup_file_exact [of "ib_files b" "ib_record_to_file b" reference i m]
    by (simp add: index_file_def builder_ok_def)
qed

theorem index_file_exact_witness:
  "index_file sample_index \<lparr>ref_record = 2, ref_sequence = 1\<rparr> = Some (2, sample_files ! 2)"
  by (subst index_file_exact [OF sample_index_of sample_tree_length])
    (simp add: sample_index_def sample_files_def meta_reference_def)

text \<open>The counting sort of \<open>finish\<close> is correct: the children of a file are, each once and in the order of their names, exactly the links whose parent reference resolves to that file and that are not suppressed DOS aliases.\<close>

theorem index_children:
  assumes "index_of rs = Ok ix" and "length rs < 2 ^ 32" and "unat i < length (ix_files ix)"
  shows "sorted (map (link_key (ix_links ix) (ix_name_arena ix)) (children_of ix i)) \<and> distinct (children_of ix i) \<and>
    set (children_of ix i) =
      {of_nat j |j l. j < length (ix_links ix) \<and> l = ix_links ix ! j \<and> \<not> suppressed_dos (ix_links ix) l \<and>
         (\<exists>m. index_file ix (link_parent l) = Some (i, m))}"
  using assms(1,2)
proof (rule index_of_Ok)
  fix b assume fin: "finish b = Ok ix" and ok: "builder_ok b"
  note fields = finish_fields [OF fin]
  have few: "length (ib_links b) < 2 ^ 32" using ok by (simp add: builder_ok_def links_ok_def)
  have kids: "children_of ix i = sort_key (link_key (ib_links b) (ib_name_arena b)) (filed_links b (unat i))"
    by (rule finish_children [OF few fin]) (use assms(3) fields in simp)
  have slot: "map_option unat (link_slot (ib_links b) (\<lambda>l. builder_file b (link_parent l)) l) = Some (unat i) \<longleftrightarrow>
      \<not> suppressed_dos (ib_links b) l \<and> (\<exists>m. builder_file b (link_parent l) = Some (i, m))" for l
    by (auto simp: link_slot_def word_eq_unat_iff split: option.splits if_splits)
  have filed: "set (filed_links b (unat i)) = {of_nat j |j l. j < length (ib_links b) \<and> l = ib_links b ! j \<and>
      \<not> suppressed_dos (ib_links b) l \<and> (\<exists>m. builder_file b (link_parent l) = Some (i, m))}"
    by (simp only: filed_links_def set_map set_filter slot set_upt) auto
  have inj: "inj_on (of_nat :: nat \<Rightarrow> u32) {0..<length (ib_links b)}"
  proof (rule inj_onI)
    fix x y assume a: "x \<in> {0..<length (ib_links b)}" "y \<in> {0..<length (ib_links b)}" "(of_nat x :: u32) = of_nat y"
    have "unat (of_nat x :: u32) = x" "unat (of_nat y :: u32) = y"
      using few a(1,2) by (simp_all add: unat_of_nat take_bit_nat_eq_self)
    with arg_cong [OF a(3), of unat] show "x = y" by simp
  qed
  have once: "distinct (filed_links b (unat i))"
    unfolding filed_links_def distinct_map by (intro conjI inj_on_subset [OF inj]) auto
  have look: "index_file ix reference = builder_file b reference" for reference
    using fields by (simp add: index_file_def builder_file_def)
  have links: "ix_links ix = ib_links b" "ix_name_arena ix = ib_name_arena b" using fields by simp_all
  show ?thesis unfolding kids look links set_sort distinct_sort using once filed by (intro conjI sorted_sort_key) auto
qed

theorem index_children_witness: "distinct (children_of sample_index 0)"
  by (rule index_children [OF sample_index_of sample_tree_length, of 0, THEN conjunct2, THEN conjunct1])
    (simp add: sample_index_def sample_files_def)

text \<open>C1. A completed walk charges every file below the root exactly once: the totals it reports are the sums, capped at the width of \<open>u64\<close>, over the set of all reachable files, whatever hard links, packages and directory cycles the volume has.\<close>

theorem walk_subtree_totals:
  assumes "index_of rs = Ok ix" and "length rs < 2 ^ 32" and "walk_subtree ix root options cancelled = (batches, Ok summary)"
  shows "\<exists>i m. index_file ix root = Some (i, m) \<and>
      unat (ts_logical_bytes summary) = capped (size_sum ix fm_logical_bytes {f \<in> reachable ix (unat i). \<not> is_dir ix f}) \<and>
      unat (ts_allocated_bytes summary) = capped (size_sum ix fm_allocated_bytes {f \<in> reachable ix (unat i). \<not> is_dir ix f})"
  using assms(1,2)
proof (rule index_of_Ok)
  assume "index_ok ix"
  from walk_subtree_spec(4) [OF this assms(3) refl] show ?thesis by blast
qed

theorem walk_subtree_totals_witness:
  "\<exists>i m. index_file sample_index \<lparr>ref_record = 0, ref_sequence = 1\<rparr> = Some (i, m) \<and>
     10 = capped (size_sum sample_index fm_logical_bytes {f \<in> reachable sample_index (unat i). \<not> is_dir sample_index f})"
  using walk_subtree_totals [OF sample_index_of sample_tree_length sample_walked] by auto

text \<open>C13. The rows of a completed walk: ids are consecutive from \<open>first_child_id\<close>, every row describes a link of the directory its parent id stands for, that directory row was emitted before, all batches but the last have the clamped size, and the reported totals are the capped sums of the rows.\<close>

theorem walk_subtree_rows:
  assumes "index_of rs = Ok ix" and "length rs < 2 ^ 32" and "walk_subtree ix root options cancelled = (batches, Ok summary)"
  shows "\<exists>i m. index_file ix root = Some (i, m) \<and> rows_ok ix options i (concat batches) \<and>
      batches_ok (clamp_batch options) batches \<and>
      unat (ts_rows summary) = capped (length (concat batches)) \<and>
      unat (ts_logical_bytes summary) = capped (\<Sum>row\<leftarrow>concat batches. unat (nr_logical_bytes row)) \<and>
      unat (ts_allocated_bytes summary) = capped (\<Sum>row\<leftarrow>concat batches. unat (nr_allocated_bytes row))"
  using assms(1,2)
proof (rule index_of_Ok)
  assume ok: "index_ok ix"
  from walk_subtree_spec(3) [OF ok assms(3)] walk_subtree_spec(4) [OF ok assms(3) refl] show ?thesis by blast
qed

theorem walk_subtree_rows_witness:
  "\<exists>i. rows_ok sample_index TraversalOptions_default i
     [sample_row 2 1 2 KFile 98 10 16, sample_row 3 1 1 KDirectory 100 0 0, sample_row 4 3 2 KFile 97 0 0]"
  using walk_subtree_rows [OF sample_index_of sample_tree_length sample_walked] by auto

text \<open>C14. A walk of a built index never panics and only hands out non-empty batches of at most the clamped size, also when it is cancelled or its id counter overflows.\<close>

theorem walk_subtree_no_panic:
  assumes "index_of rs = Ok ix" and "length rs < 2 ^ 32"
  shows "snd (walk_subtree ix root options cancelled) \<noteq> Panic \<and>
    batches_ok (clamp_batch options) (fst (walk_subtree ix root options cancelled))"
  using assms
proof (rule index_of_Ok)
  assume ok: "index_ok ix"
  obtain batches r where "walk_subtree ix root options cancelled = (batches, r)"
    by (cases "walk_subtree ix root options cancelled")
  with walk_subtree_spec(1,3) [OF ok this] show ?thesis by simp
qed

theorem walk_subtree_no_panic_witness:
  "snd (walk_subtree sample_index \<lparr>ref_record = 9, ref_sequence = 1\<rparr> TraversalOptions_default (\<lambda>_. True)) \<noteq> Panic"
  using walk_subtree_no_panic [OF sample_index_of sample_tree_length] by blast

end
