(* ===== verification/NtfsWire.thy ===== *)
theory NtfsWire
  imports NtfsIndex
begin

text \<open>
  \<open>ferail-ntfs/src/wire.rs\<close>: the frames exchanged with the elevated scan helper.  A
  payload is read by a \<open>FieldReader\<close>, a cursor over the bytes that every read advances;
  the encoder is the sequence of its \<open>extend_from_slice\<close> calls.
\<close>

unbundle bit_operations_syntax

section \<open>Data\<close>

text \<open>\<open>MAGIC\<close> is the bytes of \<open>FDU1\<close>.\<close>

definition MAGIC :: "u8 list" where "MAGIC = [0x46, 0x44, 0x55, 0x31]"
definition PROTOCOL_VERSION :: u16 where "PROTOCOL_VERSION = 1"
definition FRAME_HEADER_BYTES :: nat where "FRAME_HEADER_BYTES = 20"
definition MAX_FRAME_BYTES :: nat where "MAX_FRAME_BYTES = 16 * 1024 * 1024"
definition MAX_PATH_UNITS :: nat where "MAX_PATH_UNITS = 32767"
definition WIRE_MAX_BATCH_ROWS :: nat where "WIRE_MAX_BATCH_ROWS = 256"

definition KIND_START :: u16 where "KIND_START = 1"
definition KIND_CANCEL :: u16 where "KIND_CANCEL = 2"
definition KIND_HELLO :: u16 where "KIND_HELLO = 3"
definition KIND_READY :: u16 where "KIND_READY = 4"
definition KIND_BATCH :: u16 where "KIND_BATCH = 5"
definition KIND_PROGRESS :: u16 where "KIND_PROGRESS = 6"
definition KIND_COMPLETE :: u16 where "KIND_COMPLETE = 7"
definition KIND_FAILED :: u16 where "KIND_FAILED = 8"

lemmas kind_defs = KIND_START_def KIND_CANCEL_def KIND_HELLO_def KIND_READY_def KIND_BATCH_def
  KIND_PROGRESS_def KIND_COMPLETE_def KIND_FAILED_def

record file_identity =
  fi_volume_serial :: u64
  fi_file_id :: "u8 list"

datatype sizing_mode = Apparent | Allocated

record start_request =
  sr_volume_guid :: "u16 list"
  sr_root :: "u16 list"
  sr_root_identity :: file_identity
  sr_sizing_mode :: sizing_mode
  sr_descend_packages :: bool
  sr_root_id :: u64
  sr_first_child_id :: u64

datatype scan_phase = Opening | MappingMft | ReadingRecords | BuildingIndex | Traversing

record progress =
  pr_phase :: scan_phase
  pr_completed :: u64
  pr_total :: u64
  pr_live_records :: u64
  pr_corrupt_records :: u64

record completion =
  cp_rows :: u64
  cp_logical_bytes :: u64
  cp_allocated_bytes :: u64
  cp_corrupt_records :: u64
  cp_skipped_records :: u64
  cp_start_journal_id :: u64
  cp_start_next_usn :: int
  cp_end_journal_id :: u64
  cp_end_next_usn :: int
  cp_best_effort_live :: bool

datatype failure_code =
  FcUnsupported | FcAccessDenied | FcValidation | FcProtocol | FcCorruptVolume | FcTimeout
| FcCancelled | FcInternal

datatype du_message =
  Start start_request
| Cancel
| Hello u32
| Ready
| Batch "neutral_row list"
| Progress progress
| Complete completion
| Failed failure_code

definition protocol_error :: "nat \<Rightarrow> string \<Rightarrow> ntfs_error" where
  "protocol_error offset ctx = NtfsError_new InvalidProtocol (of_nat offset) ctx"

section \<open>Codes\<close>

fun node_kind_raw :: "neutral_node_kind \<Rightarrow> u8" where
  "node_kind_raw KFile = 0"
| "node_kind_raw KDirectory = 1"
| "node_kind_raw KReparseDirectory = 2"
| "node_kind_raw KOpaquePackage = 3"

definition wire_node_kind :: "u8 \<Rightarrow> nat \<Rightarrow> neutral_node_kind ntfs_result" where
  "wire_node_kind value offset =
     (if value = 0 then Ok KFile else if value = 1 then Ok KDirectory
      else if value = 2 then Ok KReparseDirectory else if value = 3 then Ok KOpaquePackage
      else Err (protocol_error offset ''unknown neutral node kind''))"

fun phase_raw :: "scan_phase \<Rightarrow> u8" where
  "phase_raw Opening = 0"
| "phase_raw MappingMft = 1"
| "phase_raw ReadingRecords = 2"
| "phase_raw BuildingIndex = 3"
| "phase_raw Traversing = 4"

definition phase :: "u8 \<Rightarrow> nat \<Rightarrow> scan_phase ntfs_result" where
  "phase value offset =
     (if value = 0 then Ok Opening else if value = 1 then Ok MappingMft
      else if value = 2 then Ok ReadingRecords else if value = 3 then Ok BuildingIndex
      else if value = 4 then Ok Traversing else Err (protocol_error offset ''unknown scan phase''))"

fun failure_raw :: "failure_code \<Rightarrow> u16" where
  "failure_raw FcUnsupported = 1"
| "failure_raw FcAccessDenied = 2"
| "failure_raw FcValidation = 3"
| "failure_raw FcProtocol = 4"
| "failure_raw FcCorruptVolume = 5"
| "failure_raw FcTimeout = 6"
| "failure_raw FcCancelled = 7"
| "failure_raw FcInternal = 8"

definition failure :: "u16 \<Rightarrow> nat \<Rightarrow> failure_code ntfs_result" where
  "failure value offset =
     (if value = 1 then Ok FcUnsupported else if value = 2 then Ok FcAccessDenied
      else if value = 3 then Ok FcValidation else if value = 4 then Ok FcProtocol
      else if value = 5 then Ok FcCorruptVolume else if value = 6 then Ok FcTimeout
      else if value = 7 then Ok FcCancelled else if value = 8 then Ok FcInternal
      else Err (protocol_error offset ''unknown failure code''))"

definition bool_field :: "u8 \<Rightarrow> nat \<Rightarrow> bool ntfs_result" where
  "bool_field value offset =
     (if value = 0 then Ok False else if value = 1 then Ok True
      else Err (protocol_error offset ''invalid boolean field''))"

fun sizing_raw :: "sizing_mode \<Rightarrow> u8" where
  "sizing_raw Apparent = 0"
| "sizing_raw Allocated = 1"

definition sizing_field :: "u8 \<Rightarrow> nat \<Rightarrow> sizing_mode ntfs_result" where
  "sizing_field value offset =
     (if value = 0 then Ok Apparent else if value = 1 then Ok Allocated
      else Err (protocol_error offset ''unknown sizing mode''))"

section \<open>The field reader\<close>

record field_reader =
  fr_bytes :: "u8 list"
  fr_cursor :: nat

text \<open>
  A read takes the reader and returns a value with the advanced reader; \<open>rd_bind\<close> is the
  sequence of two reads with the \<open>?\<close> operator, \<open>rd_at\<close> a check that reports the cursor.
\<close>

type_synonym 'a field_read = "field_reader \<Rightarrow> ('a \<times> field_reader) ntfs_result"

definition rd_return :: "'a \<Rightarrow> 'a field_read" where
  "rd_return x r = Ok (x, r)"

definition rd_bind :: "'a field_read \<Rightarrow> ('a \<Rightarrow> 'b field_read) \<Rightarrow> 'b field_read" where
  "rd_bind m f r = obind (m r) (\<lambda>(x, r). f x r)"

definition rd_at :: "(nat \<Rightarrow> 'a ntfs_result) \<Rightarrow> 'a field_read" where
  "rd_at check r = obind (check (fr_cursor r)) (\<lambda>x. Ok (x, r))"

definition rd_fail :: "string \<Rightarrow> 'a field_read" where
  "rd_fail ctx = rd_at (\<lambda>cursor. Err (protocol_error cursor ctx))"

definition rd_take :: "nat \<Rightarrow> u8 list field_read" where
  "rd_take n r =
     obind (ok_or (usize_checked_add (fr_cursor r) n) (protocol_error (fr_cursor r) ''field range overflow'')) (\<lambda>stop.
     obind (ok_or (slice (fr_bytes r) (fr_cursor r) stop) (protocol_error (fr_cursor r) ''truncated payload field''))
       (\<lambda>value. Ok (value, r\<lparr>fr_cursor := stop\<rparr>)))"

text \<open>\<open>array::<N>\<close>: the slice has the length asked for, or \<open>expect\<close> panics.\<close>

definition rd_array :: "nat \<Rightarrow> u8 list field_read" where
  "rd_array n = rd_bind (rd_take n) (\<lambda>value. if length value = n then rd_return value else (\<lambda>_. Panic))"

definition rd_u8 :: "u8 field_read" where
  "rd_u8 = rd_bind (rd_array 1) (\<lambda>bs. rd_return (bs ! 0))"

definition rd_u16 :: "u16 field_read" where
  "rd_u16 = rd_bind (rd_array 2) (\<lambda>bs. rd_return (le_word bs))"

definition rd_u32 :: "u32 field_read" where
  "rd_u32 = rd_bind (rd_array 4) (\<lambda>bs. rd_return (le_word bs))"

definition rd_u64 :: "u64 field_read" where
  "rd_u64 = rd_bind (rd_array 8) (\<lambda>bs. rd_return (le_word bs))"

definition rd_i64 :: "int field_read" where
  "rd_i64 = rd_bind (rd_array 8) (\<lambda>bs. rd_return (sint (le_word bs :: u64)))"

definition rd_utf16 :: "string \<Rightarrow> u16 list field_read" where
  "rd_utf16 ctx =
     rd_bind rd_u32 (\<lambda>n. let units = unat n in
     if units = 0 \<or> MAX_PATH_UNITS < units then rd_fail ctx
     else
     rd_bind (rd_at (\<lambda>cursor. ok_or (usize_checked_mul units 2) (protocol_error cursor ''UTF-16 byte length overflow'')))
       (\<lambda>byte_length.
     rd_bind (rd_take byte_length) (\<lambda>value.
     if 0 \<in> set (u16_units value) then rd_fail ''UTF-16 field contains NUL''
     else rd_return (u16_units value))))"

definition rd_is_finished :: "field_reader \<Rightarrow> bool" where
  "rd_is_finished r \<longleftrightarrow> fr_cursor r = length (fr_bytes r)"

section \<open>Payloads\<close>

definition write_utf16 :: "u8 list \<Rightarrow> u16 list \<Rightarrow> string \<Rightarrow> u8 list ntfs_result" where
  "write_utf16 out units ctx =
     (if units = [] \<or> MAX_PATH_UNITS < length units \<or> 0 \<in> set units then Err (protocol_error (length out) ctx)
      else Ok (out @ le_bytes 4 (of_nat (length units) :: u32) @ u16_unit_bytes units))"

definition i64_bytes :: "int \<Rightarrow> u8 list" where
  "i64_bytes i = le_bytes 8 (of_int i :: u64)"

definition bool_raw :: "bool \<Rightarrow> u8" where
  "bool_raw b = (if b then 1 else 0)"

definition encode_start :: "start_request \<Rightarrow> u8 list ntfs_result" where
  "encode_start start =
     obind (write_utf16 [] (sr_volume_guid start) ''volume GUID'') (\<lambda>out.
     obind (write_utf16 out (sr_root start) ''root path'') (\<lambda>out.
     Ok (out @ concat [le_bytes 8 (fi_volume_serial (sr_root_identity start)), fi_file_id (sr_root_identity start),
          [sizing_raw (sr_sizing_mode start)], [bool_raw (sr_descend_packages start)], [0, 0],
          le_bytes 8 (sr_root_id start), le_bytes 8 (sr_first_child_id start)])))"

definition encode_row :: "u8 list \<Rightarrow> neutral_row \<Rightarrow> u8 list ntfs_result" where
  "encode_row out row =
     write_utf16
       (out @ concat [le_bytes 8 (nr_id row), le_bytes 8 (nr_parent_id row), le_bytes 8 (ref_record (nr_file_record row)),
          le_bytes 2 (ref_sequence (nr_file_record row)), [node_kind_raw (nr_kind row)], [0],
          le_bytes 8 (nr_logical_bytes row), le_bytes 8 (nr_allocated_bytes row), le_bytes 8 (nr_modified_ticks row)])
       (nr_raw_name row) ''batch filename''"

fun encode_rows :: "u8 list \<Rightarrow> neutral_row list \<Rightarrow> u8 list ntfs_result" where
  "encode_rows out [] = Ok out"
| "encode_rows out (row # rows) = obind (encode_row out row) (\<lambda>out. encode_rows out rows)"

definition encode_progress :: "progress \<Rightarrow> u8 list" where
  "encode_progress p =
     concat [[phase_raw (pr_phase p)], replicate 7 0, le_bytes 8 (pr_completed p), le_bytes 8 (pr_total p),
       le_bytes 8 (pr_live_records p), le_bytes 8 (pr_corrupt_records p)]"

definition encode_completion :: "completion \<Rightarrow> u8 list" where
  "encode_completion c =
     concat [le_bytes 8 (cp_rows c), le_bytes 8 (cp_logical_bytes c), le_bytes 8 (cp_allocated_bytes c),
       le_bytes 8 (cp_corrupt_records c), le_bytes 8 (cp_skipped_records c), le_bytes 8 (cp_start_journal_id c),
       i64_bytes (cp_start_next_usn c), le_bytes 8 (cp_end_journal_id c), i64_bytes (cp_end_next_usn c),
       [bool_raw (cp_best_effort_live c)], replicate 7 0]"

definition encode_payload :: "du_message \<Rightarrow> (u16 \<times> u8 list) ntfs_result" where
  "encode_payload message =
     (case message of
        Start start \<Rightarrow> obind (encode_start start) (\<lambda>out. Ok (KIND_START, out))
      | Cancel \<Rightarrow> Ok (KIND_CANCEL, [])
      | Hello helper_pid \<Rightarrow> Ok (KIND_HELLO, le_bytes 4 helper_pid)
      | Ready \<Rightarrow> Ok (KIND_READY, [])
      | Batch rows \<Rightarrow>
          if rows = [] \<or> WIRE_MAX_BATCH_ROWS < length rows
          then Err (protocol_error (length rows) ''invalid batch row count'')
          else obind (encode_rows (le_bytes 2 (of_nat (length rows) :: u16)) rows) (\<lambda>out. Ok (KIND_BATCH, out))
      | Progress progress \<Rightarrow> Ok (KIND_PROGRESS, encode_progress progress)
      | Complete complete \<Rightarrow> Ok (KIND_COMPLETE, encode_completion complete)
      | Failed code \<Rightarrow> Ok (KIND_FAILED, le_bytes 2 (failure_raw code)))"

definition decode_start :: "start_request field_read" where
  "decode_start =
     rd_bind (rd_utf16 ''volume GUID'') (\<lambda>volume_guid.
     rd_bind (rd_utf16 ''root path'') (\<lambda>root.
     rd_bind rd_u64 (\<lambda>volume_serial.
     rd_bind (rd_array 16) (\<lambda>file_id.
     rd_bind rd_u8 (\<lambda>sizing.
     rd_bind (rd_at (sizing_field sizing)) (\<lambda>sizing_mode.
     rd_bind rd_u8 (\<lambda>descend.
     rd_bind (rd_at (bool_field descend)) (\<lambda>descend_packages.
     rd_bind (rd_array 2) (\<lambda>reserved.
     if reserved \<noteq> [0, 0] then rd_fail ''nonzero Start reserved bytes''
     else
     rd_bind rd_u64 (\<lambda>root_id.
     rd_bind rd_u64 (\<lambda>first_child_id.
     rd_return \<lparr>sr_volume_guid = volume_guid, sr_root = root,
       sr_root_identity = \<lparr>fi_volume_serial = volume_serial, fi_file_id = file_id\<rparr>,
       sr_sizing_mode = sizing_mode, sr_descend_packages = descend_packages,
       sr_root_id = root_id, sr_first_child_id = first_child_id\<rparr>)))))))))))"

definition decode_row :: "neutral_row field_read" where
  "decode_row =
     rd_bind rd_u64 (\<lambda>row_id.
     rd_bind rd_u64 (\<lambda>parent_id.
     rd_bind rd_u64 (\<lambda>rec.
     rd_bind rd_u16 (\<lambda>sequence.
     rd_bind rd_u8 (\<lambda>raw_kind.
     rd_bind (rd_at (wire_node_kind raw_kind)) (\<lambda>kind.
     rd_bind rd_u8 (\<lambda>reserved.
     if reserved \<noteq> 0 then rd_fail ''nonzero row reserved byte''
     else
     rd_bind rd_u64 (\<lambda>logical_bytes.
     rd_bind rd_u64 (\<lambda>allocated_bytes.
     rd_bind rd_u64 (\<lambda>modified_ticks.
     rd_bind (rd_utf16 ''batch filename'') (\<lambda>raw_name.
     if raw_name = [] then rd_fail ''empty batch filename''
     else
     rd_return \<lparr>nr_id = row_id, nr_parent_id = parent_id,
       nr_file_record = \<lparr>ref_record = rec, ref_sequence = sequence\<rparr>, nr_kind = kind,
       nr_raw_name = raw_name, nr_display_name = from_utf16_lossy raw_name,
       nr_logical_bytes = logical_bytes, nr_allocated_bytes = allocated_bytes,
       nr_modified_ticks = modified_ticks\<rparr>)))))))))))"

fun decode_rows :: "nat \<Rightarrow> neutral_row list field_read" where
  "decode_rows 0 = rd_return []"
| "decode_rows (Suc n) = rd_bind decode_row (\<lambda>row. rd_bind (decode_rows n) (\<lambda>rows. rd_return (row # rows)))"

definition decode_batch :: "neutral_row list field_read" where
  "decode_batch =
     rd_bind rd_u16 (\<lambda>count. let n = unat count in
     if n = 0 \<or> WIRE_MAX_BATCH_ROWS < n then rd_fail ''invalid batch row count'' else decode_rows n)"

definition decode_progress :: "progress field_read" where
  "decode_progress =
     rd_bind rd_u8 (\<lambda>raw_phase.
     rd_bind (rd_at (phase raw_phase)) (\<lambda>ph.
     rd_bind (rd_array 7) (\<lambda>reserved.
     if reserved \<noteq> replicate 7 0 then rd_fail ''nonzero Progress reserved bytes''
     else
     rd_bind rd_u64 (\<lambda>completed.
     rd_bind rd_u64 (\<lambda>total.
     rd_bind rd_u64 (\<lambda>live_records.
     rd_bind rd_u64 (\<lambda>corrupt_records.
     rd_return \<lparr>pr_phase = ph, pr_completed = completed, pr_total = total,
       pr_live_records = live_records, pr_corrupt_records = corrupt_records\<rparr>)))))))"

definition decode_completion :: "completion field_read" where
  "decode_completion =
     rd_bind rd_u64 (\<lambda>rows.
     rd_bind rd_u64 (\<lambda>logical_bytes.
     rd_bind rd_u64 (\<lambda>allocated_bytes.
     rd_bind rd_u64 (\<lambda>corrupt_records.
     rd_bind rd_u64 (\<lambda>skipped_records.
     rd_bind rd_u64 (\<lambda>start_journal_id.
     rd_bind rd_i64 (\<lambda>start_next_usn.
     rd_bind rd_u64 (\<lambda>end_journal_id.
     rd_bind rd_i64 (\<lambda>end_next_usn.
     rd_bind rd_u8 (\<lambda>live.
     rd_bind (rd_at (bool_field live)) (\<lambda>best_effort_live.
     rd_bind (rd_array 7) (\<lambda>reserved.
     if reserved \<noteq> replicate 7 0 then rd_fail ''nonzero Complete reserved bytes''
     else
     rd_return \<lparr>cp_rows = rows, cp_logical_bytes = logical_bytes, cp_allocated_bytes = allocated_bytes,
       cp_corrupt_records = corrupt_records, cp_skipped_records = skipped_records,
       cp_start_journal_id = start_journal_id, cp_start_next_usn = start_next_usn,
       cp_end_journal_id = end_journal_id, cp_end_next_usn = end_next_usn,
       cp_best_effort_live = best_effort_live\<rparr>))))))))))))"

definition decode_message :: "u16 \<Rightarrow> du_message field_read" where
  "decode_message kind =
     (if kind = KIND_START then rd_bind decode_start (\<lambda>start. rd_return (Start start))
      else if kind = KIND_CANCEL then rd_return Cancel
      else if kind = KIND_HELLO then rd_bind rd_u32 (\<lambda>helper_pid. rd_return (Hello helper_pid))
      else if kind = KIND_READY then rd_return Ready
      else if kind = KIND_BATCH then rd_bind decode_batch (\<lambda>rows. rd_return (Batch rows))
      else if kind = KIND_PROGRESS then rd_bind decode_progress (\<lambda>progress. rd_return (Progress progress))
      else if kind = KIND_COMPLETE then rd_bind decode_completion (\<lambda>complete. rd_return (Complete complete))
      else if kind = KIND_FAILED
        then rd_bind rd_u16 (\<lambda>value. rd_bind (rd_at (failure value)) (\<lambda>code. rd_return (Failed code)))
      else rd_at (\<lambda>_. Err (protocol_error 6 ''unknown frame kind'')))"

definition decode_payload :: "u16 \<Rightarrow> u8 list \<Rightarrow> du_message ntfs_result" where
  "decode_payload kind payload =
     obind (decode_message kind \<lparr>fr_bytes = payload, fr_cursor = 0\<rparr>) (\<lambda>(message, reader).
     if \<not> rd_is_finished reader then Err (protocol_error (fr_cursor reader) ''trailing payload bytes'')
     else Ok message)"

section \<open>Frames\<close>

definition encode_frame :: "u64 \<Rightarrow> du_message \<Rightarrow> u8 list ntfs_result" where
  "encode_frame request_id message =
     obind (encode_payload message) (\<lambda>(kind, payload).
     if MAX_FRAME_BYTES < length payload then Err (protocol_error 0 ''frame payload exceeds cap'')
     else
     obind (ok_or (u32_of_usize (length payload)) (protocol_error 0 ''frame payload length does not fit u32''))
       (\<lambda>payload_length.
     Ok (concat [MAGIC, le_bytes 2 PROTOCOL_VERSION, le_bytes 2 kind, le_bytes 8 request_id,
       le_bytes 4 payload_length, payload])))"

definition wire_u16_at :: "u8 list \<Rightarrow> nat \<Rightarrow> u16 ntfs_result" where
  "wire_u16_at bytes offset =
     obind (ok_or (slice bytes offset (offset + 2)) (protocol_error offset ''truncated u16'')) (\<lambda>field.
     Ok (le_word field))"

definition wire_u32_at :: "u8 list \<Rightarrow> nat \<Rightarrow> u32 ntfs_result" where
  "wire_u32_at bytes offset =
     obind (ok_or (slice bytes offset (offset + 4)) (protocol_error offset ''truncated u32'')) (\<lambda>field.
     Ok (le_word field))"

definition wire_u64_at :: "u8 list \<Rightarrow> nat \<Rightarrow> u64 ntfs_result" where
  "wire_u64_at bytes offset =
     obind (ok_or (slice bytes offset (offset + 8)) (protocol_error offset ''truncated u64'')) (\<lambda>field.
     Ok (le_word field))"

definition decode_frame :: "u8 list \<Rightarrow> u64 option \<Rightarrow> (u64 \<times> du_message) ntfs_result" where
  "decode_frame bytes expected_request_id =
     (if length bytes < FRAME_HEADER_BYTES then Err (protocol_error (length bytes) ''truncated frame header'')
      else
      obind (sub_slice bytes 0 4) (\<lambda>magic.
      obind (if magic \<noteq> MAGIC then Ok True
             else obind (wire_u16_at bytes 4) (\<lambda>version. Ok (version \<noteq> PROTOCOL_VERSION))) (\<lambda>bad.
      if bad then Err (protocol_error 0 ''bad frame magic or protocol version'')
      else
      obind (wire_u16_at bytes 6) (\<lambda>kind.
      obind (wire_u64_at bytes 8) (\<lambda>request_id.
      if (case expected_request_id of None \<Rightarrow> False | Some expected \<Rightarrow> expected \<noteq> request_id)
      then Err (protocol_error 8 ''mismatched request id'')
      else
      obind (wire_u32_at bytes 16) (\<lambda>field.
      let payload_length = unat field in
      if MAX_FRAME_BYTES < payload_length then Err (protocol_error 16 ''payload exceeds cap'')
      else
      obind (ok_or (usize_checked_add FRAME_HEADER_BYTES payload_length) (protocol_error 16 ''frame length overflow''))
        (\<lambda>expected_length.
      if length bytes \<noteq> expected_length
      then Err (protocol_error (length bytes) ''truncated frame or trailing bytes'')
      else
      obind (sub_slice bytes FRAME_HEADER_BYTES (length bytes)) (\<lambda>payload.
      obind (decode_payload kind payload) (\<lambda>message. Ok (request_id, message))))))))))"

end
