(* ===== verification/NtfsWireProps.thy ===== *)
theory NtfsWireProps
  imports NtfsWire
begin

text \<open>
  The frame protocol of \<open>wire.rs\<close> is a bijection between messages and the byte strings
  it accepts.  The contract of one field is the locale \<open>field_codec\<close>; every \<open>FieldReader\<close>
  operation and every payload is an interpretation of it, built from those of its fields.
\<close>

section \<open>Codecs\<close>

definition reader_ok :: "field_reader \<Rightarrow> bool" where
  "reader_ok r \<longleftrightarrow> fr_cursor r \<le> length (fr_bytes r) \<and> length (fr_bytes r) < 2 ^ 64"

text \<open>The reader advanced from \<open>r\<close> to \<open>r'\<close> over exactly the bytes \<open>w\<close>.\<close>

definition consumes :: "field_reader \<Rightarrow> field_reader \<Rightarrow> u8 list \<Rightarrow> bool" where
  "consumes r r' w \<longleftrightarrow> fr_bytes r' = fr_bytes r \<and> fr_cursor r' = fr_cursor r + length w \<and>
     (\<exists>rest. drop (fr_cursor r) (fr_bytes r) = w @ rest)"

text \<open>\<open>reads m w x\<close>: wherever the bytes \<open>w\<close> come next, \<open>m\<close> returns \<open>x\<close> after them.\<close>

definition reads :: "'a field_read \<Rightarrow> u8 list \<Rightarrow> 'a \<Rightarrow> bool" where
  "reads m w x \<longleftrightarrow> (\<forall>r rest. reader_ok r \<longrightarrow> drop (fr_cursor r) (fr_bytes r) = w @ rest \<longrightarrow>
     m r = Ok (x, r\<lparr>fr_cursor := fr_cursor r + length w\<rparr>))"

text \<open>\<open>parses m Q\<close>: a read that succeeds consumes bytes \<open>w\<close> and returns a value \<open>x\<close> with \<open>Q x w\<close>.\<close>

definition parses :: "'a field_read \<Rightarrow> ('a \<Rightarrow> u8 list \<Rightarrow> bool) \<Rightarrow> bool" where
  "parses m Q \<longleftrightarrow> (\<forall>r x r'. reader_ok r \<longrightarrow> m r = Ok (x, r') \<longrightarrow> (\<exists>w. consumes r r' w \<and> Q x w))"

definition rd_safe :: "'a field_read \<Rightarrow> bool" where
  "rd_safe m \<longleftrightarrow> (\<forall>r. m r \<noteq> Panic)"

named_theorems reads_intros \<open>rules for reading an encoding back\<close>
named_theorems parses_intros \<open>rules for what a successful read consumed\<close>
named_theorems safe_intros \<open>rules for reads that do not panic\<close>

lemma consumes_ok: "consumes r r' w \<Longrightarrow> reader_ok r \<Longrightarrow> reader_ok r'"
proof -
  assume c: "consumes r r' w" and ok: "reader_ok r"
  then obtain rest where "drop (fr_cursor r) (fr_bytes r) = w @ rest" by (auto simp: consumes_def)
  from arg_cong [OF this, of length] have "length (fr_bytes r) - fr_cursor r = length w + length rest" by simp
  moreover have "fr_cursor r \<le> length (fr_bytes r)" using ok by (simp add: reader_ok_def)
  ultimately have "fr_cursor r + length w \<le> length (fr_bytes r)" by linarith
  then show ?thesis using c ok by (simp add: reader_ok_def consumes_def)
qed

lemma consumes_append:
  assumes "consumes r r1 w" and "consumes r1 r2 v"
  shows "consumes r r2 (w @ v)"
proof -
  from assms obtain rest rest' where rest: "drop (fr_cursor r) (fr_bytes r) = w @ rest"
      "drop (fr_cursor r + length w) (fr_bytes r) = v @ rest'"
    by (auto simp: consumes_def)
  have "drop (fr_cursor r + length w) (fr_bytes r) = drop (length w) (drop (fr_cursor r) (fr_bytes r))"
    by (simp add: add.commute)
  with rest have "rest = v @ rest'" by simp
  with rest assms show ?thesis by (auto simp: consumes_def)
qed

lemma reads_return [reads_intros]: "reads (rd_return x) (concat []) x"
  by (simp add: reads_def rd_return_def)

lemma reads_result: "x = y \<Longrightarrow> reads (rd_return x) (concat []) y"
  by (simp add: reads_def rd_return_def)

lemma reads_unless: "\<not> c \<Longrightarrow> reads b w y \<Longrightarrow> reads (if c then a else b) w y"
  by simp

lemma reads_bind [reads_intros]:
  assumes m: "reads m w x" and f: "reads (f x) (concat ws) y"
  shows "reads (rd_bind m f) (concat (w # ws)) y"
  unfolding reads_def
proof (intro allI impI)
  fix r rest assume ok: "reader_ok r" and d: "drop (fr_cursor r) (fr_bytes r) = concat (w # ws) @ rest"
  let ?r = "r\<lparr>fr_cursor := fr_cursor r + length w\<rparr>"
  have m: "m r = Ok (x, ?r)" using m ok d by (simp add: reads_def)
  have "consumes r ?r w" using d by (simp add: consumes_def)
  with ok have "reader_ok ?r" using consumes_ok by blast
  moreover have "drop (fr_cursor ?r) (fr_bytes ?r) = concat ws @ rest"
  proof -
    have "drop (fr_cursor r + length w) (fr_bytes r) = drop (length w) (drop (fr_cursor r) (fr_bytes r))"
      by (simp add: add.commute)
    then show ?thesis using d by simp
  qed
  ultimately have "f x ?r = Ok (y, ?r\<lparr>fr_cursor := fr_cursor ?r + length (concat ws)\<rparr>)"
    using f unfolding reads_def by blast
  then show "rd_bind m f r = Ok (y, r\<lparr>fr_cursor := fr_cursor r + length (concat (w # ws))\<rparr>)"
    using m by (simp add: rd_bind_def add.assoc)
qed

lemma reads_at [reads_intros]: "(\<And>n. check n = Ok x) \<Longrightarrow> reads (f x) w y \<Longrightarrow> reads (rd_bind (rd_at check) f) w y"
  by (auto simp: reads_def rd_bind_def rd_at_def)

lemma parses_return [parses_intros]: "Q x [] \<Longrightarrow> parses (rd_return x) Q"
  by (auto simp: parses_def rd_return_def consumes_def)

lemma parses_bind:
  assumes "parses m (\<lambda>x w. parses (f x) (\<lambda>y v. Q y (w @ v)))"
  shows "parses (rd_bind m f) Q"
  unfolding parses_def
proof (intro allI impI)
  fix r y r' assume ok: "reader_ok r" and run: "rd_bind m f r = Ok (y, r')"
  from run obtain x r1 where m: "m r = Ok (x, r1)" and f: "f x r1 = Ok (y, r')"
    by (auto simp: rd_bind_def outcome_simps)
  from assms ok m obtain w where w: "consumes r r1 w" "parses (f x) (\<lambda>y v. Q y (w @ v))"
    unfolding parses_def by blast
  from w(2) consumes_ok [OF w(1) ok] f obtain v where "consumes r1 r' v" "Q y (w @ v)"
    unfolding parses_def by blast
  with consumes_append [OF w(1)] show "\<exists>w. consumes r r' w \<and> Q y w" by blast
qed

lemma parses_mono: "parses m P \<Longrightarrow> (\<And>x w. P x w \<Longrightarrow> Q x w) \<Longrightarrow> parses m Q"
  unfolding parses_def by blast

lemma parses_at [parses_intros]:
  "(\<And>n x. check n = Ok x \<Longrightarrow> parses (f x) Q) \<Longrightarrow> parses (rd_bind (rd_at check) f) Q"
  by (auto simp: parses_def rd_bind_def rd_at_def outcome_simps)

lemma parses_fail [parses_intros]: "parses (rd_fail ctx) Q"
  by (simp add: parses_def rd_fail_def rd_at_def)

lemma parses_if [parses_intros]:
  "(c \<Longrightarrow> parses a Q) \<Longrightarrow> (\<not> c \<Longrightarrow> parses b Q) \<Longrightarrow> parses (if c then a else b) Q"
  by simp

lemma safe_return [safe_intros]: "rd_safe (rd_return x)"
  and safe_fail [safe_intros]: "rd_safe (rd_fail ctx)"
  and safe_at [safe_intros]: "(\<And>n. check n \<noteq> Panic) \<Longrightarrow> rd_safe (rd_at check)"
  and safe_if [safe_intros]: "(c \<Longrightarrow> rd_safe a) \<Longrightarrow> (\<not> c \<Longrightarrow> rd_safe b) \<Longrightarrow> rd_safe (if c then a else b)"
  by (simp_all add: rd_safe_def rd_return_def rd_fail_def rd_at_def obind_Panic_iff)

lemma safe_bind [safe_intros]: "rd_safe m \<Longrightarrow> (\<And>x. rd_safe (f x)) \<Longrightarrow> rd_safe (rd_bind m f)"
  unfolding rd_safe_def rd_bind_def by (auto simp: obind_Panic_iff)

text \<open>
  A field codec: a read with its encoding on the values that can be encoded.  Reading returns
  the encoded value and advances past its bytes; a value that was read encodes to the bytes
  it was read from.
\<close>

locale field_codec =
  fixes rd :: "'a field_read" and enc :: "'a \<Rightarrow> u8 list" and valid :: "'a \<Rightarrow> bool"
  assumes read_enc: "valid x \<Longrightarrow> reads rd (enc x) x"
    and enc_read: "parses rd (\<lambda>x w. valid x \<and> w = enc x)"
    and safe: "rd_safe rd"
begin

lemma reads_next: "valid x \<Longrightarrow> reads (f x) (concat ws) y \<Longrightarrow> reads (rd_bind rd f) (concat (enc x # ws)) y"
  by (rule reads_bind [OF read_enc])

lemma parses_next: "(\<And>x. valid x \<Longrightarrow> parses (f x) (\<lambda>y v. Q y (enc x @ v))) \<Longrightarrow> parses (rd_bind rd f) Q"
  by (rule parses_bind, rule parses_mono [OF enc_read]) blast

lemma parses_whole: "(\<And>x. valid x \<Longrightarrow> Q x (enc x)) \<Longrightarrow> parses rd Q"
  by (rule parses_mono [OF enc_read]) blast

text \<open>A run of the read on a whole payload and its encoding determine each other.\<close>

lemma whole_payload:
  assumes "length bytes < 2 ^ 64"
  shows "(\<exists>r. rd \<lparr>fr_bytes = bytes, fr_cursor = 0\<rparr> = Ok (x, r) \<and> rd_is_finished r) \<longleftrightarrow> valid x \<and> bytes = enc x"
proof
  assume "\<exists>r. rd \<lparr>fr_bytes = bytes, fr_cursor = 0\<rparr> = Ok (x, r) \<and> rd_is_finished r"
  then obtain r where run: "rd \<lparr>fr_bytes = bytes, fr_cursor = 0\<rparr> = Ok (x, r)" and fin: "rd_is_finished r" by blast
  have "reader_ok \<lparr>fr_bytes = bytes, fr_cursor = 0\<rparr>" using assms by (simp add: reader_ok_def)
  with enc_read run obtain w where "consumes \<lparr>fr_bytes = bytes, fr_cursor = 0\<rparr> r w" "valid x" "w = enc x"
    unfolding parses_def by blast
  then show "valid x \<and> bytes = enc x" using fin by (auto simp: consumes_def rd_is_finished_def)
next
  assume a: "valid x \<and> bytes = enc x"
  have "rd \<lparr>fr_bytes = bytes, fr_cursor = 0\<rparr> = Ok (x, \<lparr>fr_bytes = bytes, fr_cursor = 0 + length (enc x)\<rparr>)"
    using read_enc [of x] a assms unfolding reads_def
    by (auto simp: reader_ok_def dest!: spec [of _ "\<lparr>fr_bytes = bytes, fr_cursor = 0\<rparr>"])
  then show "\<exists>r. rd \<lparr>fr_bytes = bytes, fr_cursor = 0\<rparr> = Ok (x, r) \<and> rd_is_finished r"
    using a by (simp add: rd_is_finished_def)
qed

end

section \<open>The codecs of the fields\<close>

lemma reads_take: "reads (rd_take (length w)) w w"
  unfolding reads_def
proof (intro allI impI)
  fix r rest assume ok: "reader_ok r" and d: "drop (fr_cursor r) (fr_bytes r) = w @ rest"
  have "length (fr_bytes r) - fr_cursor r = length w + length rest" using arg_cong [OF d, of length] by simp
  moreover have "fr_cursor r \<le> length (fr_bytes r)" using ok by (simp add: reader_ok_def)
  ultimately have "fr_cursor r + length w \<le> length (fr_bytes r)" by linarith
  then show "rd_take (length w) r = Ok (w, r\<lparr>fr_cursor := fr_cursor r + length w\<rparr>)"
    using ok d by (simp add: rd_take_def usize_checked_add_def reader_ok_def slice_def)
qed

lemma parses_take: "parses (rd_take n) (\<lambda>x w. w = x \<and> length w = n)"
  unfolding parses_def
proof (intro allI impI)
  fix r x r' assume "reader_ok r" and "rd_take n r = Ok (x, r')"
  then have "x = take n (drop (fr_cursor r) (fr_bytes r))" "r' = r\<lparr>fr_cursor := fr_cursor r + n\<rparr>"
      "fr_cursor r + n \<le> length (fr_bytes r)"
    by (auto simp: rd_take_def outcome_simps arith_word)
  then have "consumes r r' x \<and> x = x \<and> length x = n"
    by (auto simp: consumes_def intro!: exI [of _ "drop n (drop (fr_cursor r) (fr_bytes r))"] append_take_drop_id [symmetric])
  then show "\<exists>w. consumes r r' w \<and> w = x \<and> length w = n" by blast
qed

lemma safe_take: "rd_safe (rd_take n)"
  by (simp add: rd_safe_def rd_take_def outcome_simps)

interpretation array_codec: field_codec "rd_array n" "\<lambda>bs. bs" "\<lambda>bs. length bs = n" for n
proof
  show "reads (rd_array n) bs bs" if "length bs = n" for bs
    using reads_bind [OF reads_take [of bs], of "\<lambda>value. if length value = n then rd_return value else (\<lambda>_. Panic)" "[]" bs] that
    by (simp add: rd_array_def reads_return [simplified])
  show "parses (rd_array n) (\<lambda>bs w. length bs = n \<and> w = bs)"
    unfolding rd_array_def
    by (rule parses_bind, rule parses_mono [OF parses_take]) (auto intro!: parses_return)
  show "rd_safe (rd_array n)"
    unfolding rd_safe_def rd_array_def rd_bind_def
    by (auto simp: obind_Panic_iff rd_take_def outcome_simps rd_return_def arith_word)
qed

lemma array_map_codec:
  assumes "\<And>x. valid x \<Longrightarrow> length (enc x) = n \<and> dec (enc x) = x"
    and "\<And>bs. length bs = n \<Longrightarrow> valid (dec bs) \<and> enc (dec bs) = bs"
  shows "field_codec (rd_bind (rd_array n) (\<lambda>bs. rd_return (dec bs))) enc valid"
proof
  show "reads (rd_bind (rd_array n) (\<lambda>bs. rd_return (dec bs))) (enc x) x" if "valid x" for x
    using array_codec.reads_next [of "enc x" n "\<lambda>bs. rd_return (dec bs)" "[]" x] assms(1) [OF that]
    by (simp add: reads_return [simplified])
  show "parses (rd_bind (rd_array n) (\<lambda>bs. rd_return (dec bs))) (\<lambda>x w. valid x \<and> w = enc x)"
    by (rule array_codec.parses_next, rule parses_return) (use assms(2) in auto)
  show "rd_safe (rd_bind (rd_array n) (\<lambda>bs. rd_return (dec bs)))"
    by (intro safe_intros array_codec.safe)
qed

interpretation u8_codec: field_codec rd_u8 "\<lambda>b. [b]" "\<lambda>_. True"
  unfolding rd_u8_def by (rule array_map_codec) (auto simp: length_Suc_conv)

interpretation u16_codec: field_codec rd_u16 "le_bytes 2" "\<lambda>_. True"
  unfolding rd_u16_def by (rule array_map_codec) simp_all

interpretation u32_codec: field_codec rd_u32 "le_bytes 4" "\<lambda>_. True"
  unfolding rd_u32_def by (rule array_map_codec) simp_all

interpretation u64_codec: field_codec rd_u64 "le_bytes 8" "\<lambda>_. True"
  unfolding rd_u64_def by (rule array_map_codec) simp_all

interpretation i64_codec: field_codec rd_i64 i64_bytes i64_range
  unfolding rd_i64_def
proof (rule array_map_codec)
  fix i assume "i64_range i"
  then show "length (i64_bytes i) = 8 \<and> sint (le_word (i64_bytes i) :: u64) = i"
    by (simp add: i64_bytes_def i64_range_def signed_of_int signed_take_bit_int_eq_self)
next
  fix bs :: "u8 list" assume "length bs = 8"
  then show "i64_range (sint (le_word bs :: u64)) \<and> i64_bytes (sint (le_word bs :: u64)) = bs"
    using sint_range_size [of "le_word bs :: u64"] by (simp add: i64_bytes_def i64_range_def word_size)
qed

definition utf16_valid :: "u16 list \<Rightarrow> bool" where
  "utf16_valid units \<longleftrightarrow> units \<noteq> [] \<and> length units \<le> MAX_PATH_UNITS \<and> 0 \<notin> set units"

definition utf16_bytes :: "u16 list \<Rightarrow> u8 list" where
  "utf16_bytes units = le_bytes 4 (of_nat (length units) :: u32) @ u16_unit_bytes units"

lemma unat_of_length: "length xs \<le> MAX_PATH_UNITS \<Longrightarrow> unat (of_nat (length xs) :: u32) = length xs"
  by (simp add: MAX_PATH_UNITS_def unat_of_nat take_bit_nat_eq_self)

interpretation utf16_codec: field_codec "rd_utf16 ctx" utf16_bytes utf16_valid for ctx
proof
  show "reads (rd_utf16 ctx) (utf16_bytes units) units" if v: "utf16_valid units" for units
  proof -
    have n: "unat (of_nat (length units) :: u32) = length units" using v unat_of_length [of units] by (simp add: utf16_valid_def)
    have "reads (rd_take (length units * 2)) (u16_unit_bytes units) (u16_unit_bytes units)"
      using reads_take [of "u16_unit_bytes units"] by (simp add: mult.commute)
    from reads_bind [OF this, of _ "[]" units]
    have "reads (rd_bind (rd_take (length units * 2)) (\<lambda>value.
        if 0 \<in> set (u16_units value) then rd_fail ''UTF-16 field contains NUL'' else rd_return (u16_units value)))
      (u16_unit_bytes units) units" using v by (simp add: utf16_valid_def reads_return [simplified])
    moreover have "usize_checked_mul (length units) 2 = Some (length units * 2)"
      using v by (simp add: usize_checked_mul_def utf16_valid_def MAX_PATH_UNITS_def)
    ultimately have body: "reads (rd_bind (rd_at (\<lambda>cursor. ok_or (usize_checked_mul (length units) 2)
        (protocol_error cursor ''UTF-16 byte length overflow''))) (\<lambda>byte_length. rd_bind (rd_take byte_length) (\<lambda>value.
        if 0 \<in> set (u16_units value) then rd_fail ''UTF-16 field contains NUL'' else rd_return (u16_units value))))
      (concat [u16_unit_bytes units]) units" by (intro reads_at) simp_all
    let ?f = "\<lambda>n :: u32. if unat n = 0 \<or> MAX_PATH_UNITS < unat n then rd_fail ctx
      else rd_bind (rd_at (\<lambda>cursor. ok_or (usize_checked_mul (unat n) 2) (protocol_error cursor ''UTF-16 byte length overflow'')))
       (\<lambda>byte_length. rd_bind (rd_take byte_length) (\<lambda>value.
        if 0 \<in> set (u16_units value) then rd_fail ''UTF-16 field contains NUL'' else rd_return (u16_units value)))"
    have "?f (of_nat (length units)) = rd_bind (rd_at (\<lambda>cursor. ok_or (usize_checked_mul (length units) 2)
        (protocol_error cursor ''UTF-16 byte length overflow''))) (\<lambda>byte_length. rd_bind (rd_take byte_length) (\<lambda>value.
        if 0 \<in> set (u16_units value) then rd_fail ''UTF-16 field contains NUL'' else rd_return (u16_units value)))"
      using v unfolding n by (simp add: utf16_valid_def)
    with body have "reads (?f (of_nat (length units))) (concat [u16_unit_bytes units]) units" by (simp only:)
    from u32_codec.reads_next [OF TrueI, of ?f, OF this]
    show ?thesis by (simp add: rd_utf16_def utf16_bytes_def Let_def)
  qed
  show "parses (rd_utf16 ctx) (\<lambda>x w. utf16_valid x \<and> w = utf16_bytes x)"
    unfolding rd_utf16_def Let_def
  proof (intro u32_codec.parses_next parses_intros)
    fix n :: u32 and cursor byte_length
    assume n: "\<not> (unat n = 0 \<or> MAX_PATH_UNITS < unat n)"
      and b: "ok_or (usize_checked_mul (unat n) 2) (protocol_error cursor ''UTF-16 byte length overflow'') = Ok byte_length"
    then have len: "byte_length = unat n * 2" by (simp add: outcome_simps arith_word)
    show "parses (rd_bind (rd_take byte_length) (\<lambda>value.
        if 0 \<in> set (u16_units value) then rd_fail ''UTF-16 field contains NUL'' else rd_return (u16_units value)))
      (\<lambda>y v. utf16_valid y \<and> le_bytes 4 n @ v = utf16_bytes y)"
    proof (rule parses_bind, rule parses_mono [OF parses_take])
      fix x w :: "u8 list" assume w: "w = x \<and> length w = byte_length"
      then have "length (u16_units x) = unat n" "u16_unit_bytes (u16_units x) = x"
        using len by (auto simp: u16_unit_bytes_units)
      then show "parses (if 0 \<in> set (u16_units x) then rd_fail ''UTF-16 field contains NUL'' else rd_return (u16_units x))
          (\<lambda>y v. utf16_valid y \<and> le_bytes 4 n @ w @ v = utf16_bytes y)"
        using w n by (auto intro!: parses_intros simp: utf16_valid_def utf16_bytes_def)
    qed
  qed
  show "rd_safe (rd_utf16 ctx)"
    unfolding rd_utf16_def Let_def by (intro safe_intros u32_codec.safe safe_take) simp_all
qed


section \<open>The codecs of the payloads\<close>

lemmas codec_nexts = u8_codec.parses_next u16_codec.parses_next u32_codec.parses_next u64_codec.parses_next
  i64_codec.parses_next array_codec.parses_next utf16_codec.parses_next parses_intros

lemmas codec_reads = u8_codec.reads_next u16_codec.reads_next u32_codec.reads_next u64_codec.reads_next
  i64_codec.reads_next array_codec.reads_next utf16_codec.reads_next reads_at reads_unless reads_result

lemmas codec_safe = u8_codec.safe u16_codec.safe u32_codec.safe u64_codec.safe i64_codec.safe
  array_codec.safe utf16_codec.safe safe_intros

text \<open>Codes and their inverses.\<close>

lemma node_kind_raw [simp]: "wire_node_kind (node_kind_raw k) n = Ok k"
  by (cases k) (simp_all add: wire_node_kind_def)

lemma node_kind_Ok: "wire_node_kind v n = Ok k \<Longrightarrow> v = node_kind_raw k"
  by (auto simp: wire_node_kind_def split: if_splits)

lemma phase_raw [simp]: "phase (phase_raw p) n = Ok p"
  by (cases p) (simp_all add: phase_def)

lemma phase_Ok: "phase v n = Ok p \<Longrightarrow> v = phase_raw p"
  by (auto simp: phase_def split: if_splits)

lemma failure_raw [simp]: "failure (failure_raw c) n = Ok c"
  by (cases c) (simp_all add: failure_def)

lemma failure_Ok: "failure v n = Ok c \<Longrightarrow> v = failure_raw c"
  by (auto simp: failure_def split: if_splits)

lemma bool_raw [simp]: "bool_field (bool_raw b) n = Ok b"
  by (simp add: bool_field_def bool_raw_def)

lemma bool_field_Ok: "bool_field v n = Ok b \<Longrightarrow> v = bool_raw b"
  by (auto simp: bool_field_def bool_raw_def split: if_splits)

lemma sizing_raw [simp]: "sizing_field (sizing_raw m) n = Ok m"
  by (cases m) (simp_all add: sizing_field_def)

lemma sizing_field_Ok: "sizing_field v n = Ok m \<Longrightarrow> v = sizing_raw m"
  by (auto simp: sizing_field_def split: if_splits)

lemma codes_no_panic [simp]:
  "wire_node_kind v n \<noteq> Panic" "phase v n \<noteq> Panic" "failure w n \<noteq> Panic" "bool_field v n \<noteq> Panic" "sizing_field v n \<noteq> Panic"
  by (simp_all add: wire_node_kind_def phase_def failure_def bool_field_def sizing_field_def)

text \<open>The payload of each message, as a list of fields.\<close>

definition start_bytes :: "start_request \<Rightarrow> u8 list" where
  "start_bytes s = concat [utf16_bytes (sr_volume_guid s), utf16_bytes (sr_root s),
     le_bytes 8 (fi_volume_serial (sr_root_identity s)), fi_file_id (sr_root_identity s),
     [sizing_raw (sr_sizing_mode s)], [bool_raw (sr_descend_packages s)], [0, 0],
     le_bytes 8 (sr_root_id s), le_bytes 8 (sr_first_child_id s)]"

definition start_valid :: "start_request \<Rightarrow> bool" where
  "start_valid s \<longleftrightarrow> utf16_valid (sr_volume_guid s) \<and> utf16_valid (sr_root s) \<and>
     length (fi_file_id (sr_root_identity s)) = 16"

interpretation start_codec: field_codec decode_start start_bytes start_valid
proof
  show "reads decode_start (start_bytes s) s" if "start_valid s" for s
    unfolding decode_start_def start_bytes_def
    by (rule codec_reads | use that in \<open>simp add: start_valid_def; fail\<close>)+
  show "parses decode_start (\<lambda>s w. start_valid s \<and> w = start_bytes s)"
    unfolding decode_start_def
    by (intro codec_nexts) (auto simp: start_valid_def start_bytes_def dest!: sizing_field_Ok bool_field_Ok)
  show "rd_safe decode_start"
    unfolding decode_start_def by (intro codec_safe) simp_all
qed

definition row_bytes :: "neutral_row \<Rightarrow> u8 list" where
  "row_bytes row = concat [le_bytes 8 (nr_id row), le_bytes 8 (nr_parent_id row), le_bytes 8 (ref_record (nr_file_record row)),
     le_bytes 2 (ref_sequence (nr_file_record row)), [node_kind_raw (nr_kind row)], [0],
     le_bytes 8 (nr_logical_bytes row), le_bytes 8 (nr_allocated_bytes row), le_bytes 8 (nr_modified_ticks row),
     utf16_bytes (nr_raw_name row)]"

definition row_valid :: "neutral_row \<Rightarrow> bool" where
  "row_valid row \<longleftrightarrow> utf16_valid (nr_raw_name row) \<and> nr_display_name row = from_utf16_lossy (nr_raw_name row)"

interpretation row_codec: field_codec decode_row row_bytes row_valid
proof
  show "reads decode_row (row_bytes row) row" if "row_valid row" for row
    unfolding decode_row_def row_bytes_def
    by (rule codec_reads | use that in \<open>simp add: row_valid_def utf16_valid_def; fail\<close>)+
  show "parses decode_row (\<lambda>row w. row_valid row \<and> w = row_bytes row)"
    unfolding decode_row_def
    by (intro codec_nexts) (auto simp: row_valid_def row_bytes_def dest!: node_kind_Ok)
  show "rd_safe decode_row"
    unfolding decode_row_def by (intro codec_safe) simp_all
qed

definition rows_valid :: "nat \<Rightarrow> neutral_row list \<Rightarrow> bool" where
  "rows_valid n rows \<longleftrightarrow> length rows = n \<and> list_all row_valid rows"

interpretation rows_codec: field_codec "decode_rows n" "\<lambda>rows. concat (map row_bytes rows)" "rows_valid n" for n
proof
  show "reads (decode_rows n) (concat (map row_bytes rows)) rows" if "rows_valid n rows" for rows
    using that
  proof (induction n arbitrary: rows)
    case 0
    then show ?case by (simp add: rows_valid_def reads_return [simplified])
  next
    case (Suc n)
    then obtain row rest where rows: "rows = row # rest" "row_valid row" "rows_valid n rest"
      by (cases rows) (auto simp: rows_valid_def)
    from reads_bind [OF Suc.IH [OF rows(3)], of "\<lambda>rows. rd_return (row # rows)" "[]" rows] rows(1)
    have "reads (rd_bind (decode_rows n) (\<lambda>rows. rd_return (row # rows))) (concat (map row_bytes rest)) rows"
      by (simp add: reads_return [simplified])
    from row_codec.reads_next [OF rows(2), of "\<lambda>row. rd_bind (decode_rows n) (\<lambda>rows. rd_return (row # rows))", OF this]
    show ?case by (simp add: rows(1))
  qed
  show "parses (decode_rows n) (\<lambda>rows w. rows_valid n rows \<and> w = concat (map row_bytes rows))"
  proof (induction n)
    case 0
    then show ?case by (simp add: parses_return rows_valid_def)
  next
    case (Suc n)
    have "parses (rd_bind (decode_rows n) (\<lambda>rows. rd_return (row # rows)))
        (\<lambda>rows v. rows_valid (Suc n) rows \<and> row_bytes row @ v = concat (map row_bytes rows))" if "row_valid row" for row
      by (rule parses_bind, rule parses_mono [OF Suc.IH], rule parses_return) (use that in \<open>auto simp: rows_valid_def\<close>)
    then show ?case unfolding decode_rows.simps by (rule row_codec.parses_next)
  qed
  show "rd_safe (decode_rows n)"
    by (induction n) (auto intro!: row_codec.safe safe_intros)
qed

definition batch_valid :: "neutral_row list \<Rightarrow> bool" where
  "batch_valid rows \<longleftrightarrow> rows \<noteq> [] \<and> length rows \<le> WIRE_MAX_BATCH_ROWS \<and> list_all row_valid rows"

definition batch_bytes :: "neutral_row list \<Rightarrow> u8 list" where
  "batch_bytes rows = le_bytes 2 (of_nat (length rows) :: u16) @ concat (map row_bytes rows)"

interpretation batch_codec: field_codec decode_batch batch_bytes batch_valid
proof
  show "reads decode_batch (batch_bytes rows) rows" if v: "batch_valid rows" for rows
  proof -
    have n: "unat (of_nat (length rows) :: u16) = length rows"
      using v by (simp add: batch_valid_def WIRE_MAX_BATCH_ROWS_def unat_of_nat take_bit_nat_eq_self)
    have "reads (decode_rows (length rows)) (concat (map row_bytes rows)) rows"
      using v by (intro rows_codec.read_enc) (simp add: batch_valid_def rows_valid_def)
    from u16_codec.reads_next [OF TrueI, of "\<lambda>count. let n = unat count in
       if n = 0 \<or> WIRE_MAX_BATCH_ROWS < n then rd_fail ''invalid batch row count'' else decode_rows n"
       "of_nat (length rows)" "[concat (map row_bytes rows)]" rows] this v n
    show ?thesis by (simp add: decode_batch_def batch_bytes_def batch_valid_def)
  qed
  show "parses decode_batch (\<lambda>rows w. batch_valid rows \<and> w = batch_bytes rows)"
    unfolding decode_batch_def Let_def
  proof (intro u16_codec.parses_next parses_if parses_fail)
    fix count :: u16 assume n: "\<not> (unat count = 0 \<or> WIRE_MAX_BATCH_ROWS < unat count)"
    show "parses (decode_rows (unat count)) (\<lambda>y v. batch_valid y \<and> le_bytes 2 count @ v = batch_bytes y)"
      by (rule rows_codec.parses_whole) (use n in \<open>auto simp: rows_valid_def batch_valid_def batch_bytes_def\<close>)
  qed
  show "rd_safe decode_batch"
    unfolding decode_batch_def Let_def by (intro u16_codec.safe rows_codec.safe safe_intros)
qed

interpretation progress_codec: field_codec decode_progress encode_progress "\<lambda>_. True"
proof
  show "reads decode_progress (encode_progress p) p" for p
    unfolding decode_progress_def encode_progress_def
    by (rule codec_reads | simp; fail)+
  show "parses decode_progress (\<lambda>p w. True \<and> w = encode_progress p)"
    unfolding decode_progress_def
    by (intro codec_nexts) (auto simp: encode_progress_def dest!: phase_Ok)
  show "rd_safe decode_progress"
    unfolding decode_progress_def by (intro codec_safe) simp_all
qed

definition completion_valid :: "completion \<Rightarrow> bool" where
  "completion_valid c \<longleftrightarrow> i64_range (cp_start_next_usn c) \<and> i64_range (cp_end_next_usn c)"

interpretation completion_codec: field_codec decode_completion encode_completion completion_valid
proof
  show "reads decode_completion (encode_completion c) c" if "completion_valid c" for c
    unfolding decode_completion_def encode_completion_def
    by (rule codec_reads | use that in \<open>simp add: completion_valid_def; fail\<close>)+
  show "parses decode_completion (\<lambda>c w. completion_valid c \<and> w = encode_completion c)"
    unfolding decode_completion_def
    by (intro codec_nexts) (auto simp: encode_completion_def completion_valid_def dest!: bool_field_Ok)
  show "rd_safe decode_completion"
    unfolding decode_completion_def by (intro codec_safe) simp_all
qed


section \<open>Messages\<close>

fun message_kind :: "du_message \<Rightarrow> u16" where
  "message_kind (Start _) = KIND_START"
| "message_kind Cancel = KIND_CANCEL"
| "message_kind (Hello _) = KIND_HELLO"
| "message_kind Ready = KIND_READY"
| "message_kind (Batch _) = KIND_BATCH"
| "message_kind (Progress _) = KIND_PROGRESS"
| "message_kind (Complete _) = KIND_COMPLETE"
| "message_kind (Failed _) = KIND_FAILED"

fun message_bytes :: "du_message \<Rightarrow> u8 list" where
  "message_bytes (Start s) = start_bytes s"
| "message_bytes Cancel = []"
| "message_bytes (Hello pid) = le_bytes 4 pid"
| "message_bytes Ready = []"
| "message_bytes (Batch rows) = batch_bytes rows"
| "message_bytes (Progress p) = encode_progress p"
| "message_bytes (Complete c) = encode_completion c"
| "message_bytes (Failed c) = le_bytes 2 (failure_raw c)"

fun message_valid :: "du_message \<Rightarrow> bool" where
  "message_valid (Start s) \<longleftrightarrow> start_valid s"
| "message_valid (Batch rows) \<longleftrightarrow> batch_valid rows"
| "message_valid (Complete c) \<longleftrightarrow> completion_valid c"
| "message_valid _ \<longleftrightarrow> True"

text \<open>
  What the Rust types of a message guarantee (a \<open>[u8; 16]\<close>, the range of an \<open>i64\<close>), and that the
  display name of a row is the lossy decoding of its raw name, as both ends compute it.
\<close>

fun wire_shape :: "du_message \<Rightarrow> bool" where
  "wire_shape (Start s) \<longleftrightarrow> length (fi_file_id (sr_root_identity s)) = 16"
| "wire_shape (Batch rows) \<longleftrightarrow> list_all (\<lambda>row. nr_display_name row = from_utf16_lossy (nr_raw_name row)) rows"
| "wire_shape (Complete c) \<longleftrightarrow> i64_range (cp_start_next_usn c) \<and> i64_range (cp_end_next_usn c)"
| "wire_shape _ \<longleftrightarrow> True"

lemma kinds_distinct [simp]:
  "message_kind m = KIND_START \<longleftrightarrow> (\<exists>s. m = Start s)" "message_kind m = KIND_CANCEL \<longleftrightarrow> m = Cancel"
  "message_kind m = KIND_HELLO \<longleftrightarrow> (\<exists>p. m = Hello p)" "message_kind m = KIND_READY \<longleftrightarrow> m = Ready"
  "message_kind m = KIND_BATCH \<longleftrightarrow> (\<exists>rows. m = Batch rows)" "message_kind m = KIND_PROGRESS \<longleftrightarrow> (\<exists>p. m = Progress p)"
  "message_kind m = KIND_COMPLETE \<longleftrightarrow> (\<exists>c. m = Complete c)" "message_kind m = KIND_FAILED \<longleftrightarrow> (\<exists>c. m = Failed c)"
  by (induction m) (simp_all add: kind_defs)

lemma reads_map: "reads m w x \<Longrightarrow> reads (rd_bind m (\<lambda>x. rd_return (f x))) w (f x)"
  using reads_bind [of m w x "\<lambda>x. rd_return (f x)" "[]" "f x"] reads_return [of "f x"] by simp

interpretation message_codec: field_codec "decode_message kind" message_bytes "\<lambda>m. message_valid m \<and> message_kind m = kind" for kind
proof
  show "reads (decode_message kind) (message_bytes m) m" if "message_valid m \<and> message_kind m = kind" for m
  proof -
    have failed: "reads (rd_bind rd_u16 (\<lambda>value. rd_bind (rd_at (failure value)) (\<lambda>code. rd_return (Failed code))))
        (concat [le_bytes 2 (failure_raw c)]) (Failed c)" for c
      by (rule codec_reads | simp; fail)+
    show ?thesis
      using that failed reads_return [of Cancel] reads_return [of Ready]
        reads_map [OF start_codec.read_enc, of _ Start] reads_map [OF u32_codec.read_enc [OF TrueI], of Hello]
        reads_map [OF batch_codec.read_enc, of _ Batch] reads_map [OF progress_codec.read_enc [OF TrueI], of Progress]
        reads_map [OF completion_codec.read_enc, of _ Complete]
      by (cases m) (auto simp: decode_message_def kind_defs)
  qed
  show "parses (decode_message kind) (\<lambda>m w. (message_valid m \<and> message_kind m = kind) \<and> w = message_bytes m)"
    unfolding decode_message_def
    by (intro parses_if start_codec.parses_next batch_codec.parses_next progress_codec.parses_next
        completion_codec.parses_next u32_codec.parses_next u16_codec.parses_next parses_at parses_return)
      (auto dest!: failure_Ok simp: parses_def rd_at_def)
  show "rd_safe (decode_message kind)"
    unfolding decode_message_def
    by (intro safe_intros start_codec.safe batch_codec.safe progress_codec.safe completion_codec.safe
        u32_codec.safe u16_codec.safe) simp_all
qed

lemma decode_payload_iff:
  assumes "length payload < 2 ^ 64"
  shows "decode_payload kind payload = Ok m \<longleftrightarrow> message_valid m \<and> message_kind m = kind \<and> payload = message_bytes m"
  using message_codec.whole_payload [OF assms, of kind m]
  by (auto simp: decode_payload_def outcome_simps split: if_splits)

lemma decode_payload_no_panic: "decode_payload kind payload \<noteq> Panic"
  using message_codec.safe [of kind] by (auto simp: decode_payload_def outcome_simps rd_safe_def split: if_splits)

lemma write_utf16_Ok: "write_utf16 out units ctx = Ok out' \<longleftrightarrow> utf16_valid units \<and> out' = out @ utf16_bytes units"
  by (auto simp: write_utf16_def utf16_valid_def utf16_bytes_def)

lemma encode_rows_Ok:
  "encode_rows out rows = Ok out' \<longleftrightarrow>
     list_all (\<lambda>row. utf16_valid (nr_raw_name row)) rows \<and> out' = out @ concat (map row_bytes rows)"
  by (induction rows arbitrary: out)
    (auto simp: outcome_simps encode_row_def write_utf16_Ok row_bytes_def)

lemma encode_payload_iff:
  assumes "wire_shape m"
  shows "encode_payload m = Ok (kind, payload) \<longleftrightarrow> message_valid m \<and> kind = message_kind m \<and> payload = message_bytes m"
  using assms
  by (cases m)
    (auto simp: encode_payload_def outcome_simps encode_start_def write_utf16_Ok start_valid_def start_bytes_def
      encode_rows_Ok batch_valid_def batch_bytes_def completion_valid_def row_valid_def list_all_iff)

lemma valid_shape: "message_valid m \<Longrightarrow> wire_shape m"
  by (cases m) (auto simp: start_valid_def batch_valid_def completion_valid_def row_valid_def list_all_iff)

section \<open>Frames\<close>

text \<open>The header of a frame, field by field.\<close>

definition frame_bytes :: "u64 \<Rightarrow> u16 \<Rightarrow> u16 \<Rightarrow> u32 \<Rightarrow> u8 list \<Rightarrow> u8 list" where
  "frame_bytes request_id version kind payload_length payload =
     concat [MAGIC, le_bytes 2 version, le_bytes 2 kind, le_bytes 8 request_id, le_bytes 4 payload_length, payload]"

lemma length_MAGIC [simp]: "length MAGIC = 4"
  by (simp add: MAGIC_def)

lemma frame_fields:
  "sub_slice (frame_bytes i v k n p) 0 4 = Ok MAGIC" "wire_u16_at (frame_bytes i v k n p) 4 = Ok v"
  "wire_u16_at (frame_bytes i v k n p) 6 = Ok k" "wire_u64_at (frame_bytes i v k n p) 8 = Ok i"
  "wire_u32_at (frame_bytes i v k n p) 16 = Ok n" "length (frame_bytes i v k n p) = 20 + length p"
  "drop 20 (frame_bytes i v k n p) = p"
  by (simp_all add: frame_bytes_def sub_slice_def slice_def wire_u16_at_def wire_u32_at_def wire_u64_at_def)

lemma frame_bytes_split:
  assumes "20 \<le> length bytes" and "take 4 bytes = MAGIC"
  shows "\<exists>v k i n. bytes = frame_bytes i v k n (drop 20 bytes)"
proof -
  have "bytes = take 4 bytes @ take 2 (drop 4 bytes) @ take 2 (drop 6 bytes) @ take 8 (drop 8 bytes) @ take 4 (drop 16 bytes) @ drop 20 bytes"
    (is "_ = _ @ ?v @ ?k @ ?i @ ?n @ _")
  proof -
    have e: "drop m bytes = take d (drop m bytes) @ drop (m + d) bytes" for m d
      using append_take_drop_id [of d "drop m bytes", symmetric] by (simp add: add.commute)
    show ?thesis using append_take_drop_id [of 4 bytes] e [of 4 2] e [of 6 2] e [of 8 8] e [of 16 4] by simp
  qed
  moreover have "?v = le_bytes 2 (le_word ?v :: u16)" "?k = le_bytes 2 (le_word ?k :: u16)"
      "?i = le_bytes 8 (le_word ?i :: u64)" "?n = le_bytes 4 (le_word ?n :: u32)"
    using assms(1) by simp_all
  ultimately have "bytes = frame_bytes (le_word ?i) (le_word ?v) (le_word ?k) (le_word ?n) (drop 20 bytes)"
    using assms(2) by (simp add: frame_bytes_def)
  then show ?thesis by blast
qed

lemma decode_frame_fields:
  "decode_frame (frame_bytes i v k n p) expected = Ok (j, m) \<longleftrightarrow>
     v = PROTOCOL_VERSION \<and> j = i \<and> (expected = None \<or> expected = Some i) \<and>
     length p \<le> MAX_FRAME_BYTES \<and> unat n = length p \<and> decode_payload k p = Ok m"
  by (auto simp: decode_frame_def frame_fields FRAME_HEADER_BYTES_def outcome_simps arith_word Let_def MAX_FRAME_BYTES_def
      split: option.splits if_splits)

lemma encode_frame_fields:
  assumes "wire_shape m"
  shows "encode_frame i m = Ok bytes \<longleftrightarrow> (\<exists>n. message_valid m \<and> length (message_bytes m) \<le> MAX_FRAME_BYTES \<and>
    unat n = length (message_bytes m) \<and> bytes = frame_bytes i PROTOCOL_VERSION (message_kind m) n (message_bytes m))"
proof -
  have "u32_of_usize (length p) = Some n \<longleftrightarrow> unat n = length p" if "length p \<le> MAX_FRAME_BYTES" for p :: "u8 list" and n
    using that by (auto simp: u32_of_usize_def MAX_FRAME_BYTES_def unat_of_nat take_bit_nat_eq_self word_eq_unat_iff)
  then show ?thesis
    using encode_payload_iff [OF assms]
    by (auto simp: encode_frame_def outcome_simps frame_bytes_def split: if_splits)
qed

lemma decode_frame_header:
  assumes "decode_frame bytes expected = Ok (i, m)"
  shows "\<exists>v k j n. bytes = frame_bytes j v k n (drop 20 bytes)"
proof (rule frame_bytes_split)
  show "20 \<le> length bytes" and "take 4 bytes = MAGIC"
    using assms by (auto simp: decode_frame_def FRAME_HEADER_BYTES_def outcome_simps split: if_splits)
qed

lemma decode_frame_iff:
  "decode_frame bytes expected = Ok (i, m) \<longleftrightarrow>
     wire_shape m \<and> encode_frame i m = Ok bytes \<and> (expected = None \<or> expected = Some i)"
  (is "?l \<longleftrightarrow> ?r")
proof
  assume l: ?l
  from decode_frame_header [OF l] obtain v k j n where b: "bytes = frame_bytes j v k n (drop 20 bytes)" by blast
  let ?p = "drop 20 bytes"
  from l have f: "v = PROTOCOL_VERSION" "i = j" "expected = None \<or> expected = Some j" "length ?p \<le> MAX_FRAME_BYTES"
      "unat n = length ?p" "decode_payload k ?p = Ok m"
    by (subst (asm) b, simp add: decode_frame_fields)+
  have "length ?p < 2 ^ 64" using f(4) by (simp add: MAX_FRAME_BYTES_def)
  with f(6) have m: "message_valid m" "message_kind m = k" "?p = message_bytes m" by (simp_all add: decode_payload_iff)
  have "encode_frame i m = Ok bytes"
    unfolding encode_frame_fields [OF valid_shape [OF m(1)]]
    by (rule exI [of _ n]) (use m f b in simp)
  then show ?r using valid_shape [OF m(1)] f by simp
next
  assume r: ?r
  then obtain n where e: "message_valid m" "length (message_bytes m) \<le> MAX_FRAME_BYTES" "unat n = length (message_bytes m)"
      "bytes = frame_bytes i PROTOCOL_VERSION (message_kind m) n (message_bytes m)"
    using encode_frame_fields by blast
  have "length (message_bytes m) < 2 ^ 64" using e(2) by (simp add: MAX_FRAME_BYTES_def)
  then show ?l using r e by (simp add: decode_frame_fields decode_payload_iff)
qed


lemma decode_frame_not_panic: "decode_frame bytes expected \<noteq> Panic"
proof -
  have "decode_payload k p \<noteq> Panic" for k p by (rule decode_payload_no_panic)
  then show ?thesis
    by (auto simp: decode_frame_def FRAME_HEADER_BYTES_def outcome_simps wire_u16_at_def wire_u32_at_def wire_u64_at_def
        sub_slice_Panic Let_def split: option.splits if_splits)
qed

definition sample_rows :: "neutral_row list" where
  "sample_rows = [\<lparr>nr_id = 2, nr_parent_id = 1, nr_file_record = \<lparr>ref_record = 7, ref_sequence = 1\<rparr>, nr_kind = KFile,
     nr_raw_name = [97], nr_display_name = [97], nr_logical_bytes = 3, nr_allocated_bytes = 8, nr_modified_ticks = 0\<rparr>]"

text \<open>Encoding and decoding round-trip: a frame that was encoded decodes to the same request id and message, whether or not the caller expects that id.\<close>

theorem wire_round_trip:
  assumes "wire_shape message" and "encode_frame request_id message = Ok bytes"
    and "expected = None \<or> expected = Some request_id"
  shows "decode_frame bytes expected = Ok (request_id, message)"
  using assms by (simp add: decode_frame_iff)

lemma sample_rows_encoded:
  "encode_frame 9 (Batch sample_rows) = Ok (frame_bytes 9 PROTOCOL_VERSION KIND_BATCH 60 (batch_bytes sample_rows))"
proof -
  have "length (batch_bytes sample_rows) = 60" by (simp add: batch_bytes_def sample_rows_def row_bytes_def utf16_bytes_def)
  then have len: "unat (60 :: u32) = length (batch_bytes sample_rows)" by simp
  have "wire_shape (Batch sample_rows)" by (simp add: sample_rows_def)
  show ?thesis
    unfolding encode_frame_fields [OF \<open>wire_shape (Batch sample_rows)\<close>]
    by (rule exI [of _ 60]) (use len in \<open>simp add: sample_rows_def batch_valid_def row_valid_def utf16_valid_def
        MAX_FRAME_BYTES_def MAX_PATH_UNITS_def WIRE_MAX_BATCH_ROWS_def\<close>)
qed

lemma sample_rows_shape: "wire_shape (Batch sample_rows)"
  by (simp add: sample_rows_def)

theorem wire_round_trip_witness:
  "decode_frame (frame_bytes 9 PROTOCOL_VERSION KIND_BATCH 60 (batch_bytes sample_rows)) (Some 9) = Ok (9, Batch sample_rows)"
  by (rule wire_round_trip [OF sample_rows_shape sample_rows_encoded]) simp

text \<open>C4. The encoding is canonical: bytes that decode as a message are exactly the bytes \<open>encode_frame\<close> produces for it, so reserved bytes, lengths, codes and trailing bytes are all checked.\<close>

theorem wire_canonical:
  assumes "decode_frame bytes expected = Ok (request_id, message)"
  shows "encode_frame request_id message = Ok bytes \<and> wire_shape message \<and> (expected = None \<or> expected = Some request_id)"
  using assms by (simp add: decode_frame_iff)

lemma sample_rows_decoded:
  "decode_frame (frame_bytes 9 PROTOCOL_VERSION KIND_BATCH 60 (batch_bytes sample_rows)) None = Ok (9, Batch sample_rows)"
  using sample_rows_shape sample_rows_encoded by (simp add: decode_frame_iff)

theorem wire_canonical_witness:
  "wire_shape (Batch sample_rows) \<and>
     encode_frame 9 (Batch sample_rows) = Ok (frame_bytes 9 PROTOCOL_VERSION KIND_BATCH 60 (batch_bytes sample_rows))"
  using wire_canonical [OF sample_rows_decoded] by blast

text \<open>No byte string makes the frame decoder panic.\<close>

theorem decode_frame_no_panic: "decode_frame bytes expected \<noteq> Panic"
  by (rule decode_frame_not_panic)

end
