(* ===== verification/DiskUsage.thy ===== *)
theory DiskUsage
  imports Prelude
begin

text \<open>
  \<open>ferail-disk-usage\<close>: \<open>file_category.rs\<close>, \<open>model.rs\<close> and \<open>facts.rs\<close>.  The
  scanner emits a stream of facts; the tree applies them one by one and keeps, in every node,
  the sizes of all its descendants.  The two hash maps are maps; a \<open>SystemTime\<close> is only
  copied, so any integer stands for it.
\<close>

section \<open>File categories\<close>

datatype file_category = CatImage | CatVideo | CatAudio | CatArchive | CatDocument | CatExecutable | CatOther

definition extension_table :: "(string \<times> file_category) list" where
  "extension_table =
     map (\<lambda>e. (e, CatImage)) [''jpg'', ''jpeg'', ''png'', ''gif'', ''webp'', ''bmp'', ''tiff'', ''tif'', ''heic'', ''heif'',
        ''svg'', ''ico''] @
     map (\<lambda>e. (e, CatVideo)) [''mp4'', ''mkv'', ''avi'', ''mov'', ''wmv'', ''flv'', ''webm'', ''m4v'', ''mpg'', ''mpeg''] @
     map (\<lambda>e. (e, CatAudio)) [''mp3'', ''wav'', ''flac'', ''ogg'', ''m4a'', ''aac'', ''wma'', ''aiff'', ''alac''] @
     map (\<lambda>e. (e, CatArchive)) [''zip'', ''rar'', ''7z'', ''tar'', ''gz'', ''bz2'', ''xz'', ''tgz'', ''tbz'', ''dmg'', ''iso''] @
     map (\<lambda>e. (e, CatDocument)) [''pdf'', ''doc'', ''docx'', ''txt'', ''rtf'', ''md'', ''ppt'', ''pptx'', ''xls'', ''xlsx'',
        ''pages'', ''numbers'', ''key'', ''epub'', ''odt'', ''ods'', ''odp''] @
     map (\<lambda>e. (e, CatExecutable)) [''exe'', ''msi'', ''bat'', ''cmd'', ''ps1'', ''sh'', ''com'', ''app'', ''bundle'', ''framework'',
        ''plugin'', ''kext'', ''xcodeproj'']"

definition classify_lower :: "rust_string \<Rightarrow> file_category" where
  "classify_lower lower =
     (case map_of (map (\<lambda>(e, c). (ascii e, c)) extension_table) lower of Some c \<Rightarrow> c | None \<Rightarrow> CatOther)"

definition classify_extension :: "rust_string \<Rightarrow> file_category" where
  "classify_extension ext =
     classify_lower (if list_ex is_ascii_uppercase ext then map to_ascii_lowercase ext else ext)"

section \<open>Nodes\<close>

type_synonym node_id = u64
type_synonym system_time = int

datatype node_kind = Container | File
datatype scan_state = Unknown | Scanning | Complete
datatype size_mode = Apparent | Allocated

record du_node =
  dn_id :: node_id
  dn_size_bytes :: u64
  dn_allocated_bytes :: u64
  dn_descendant_size_bytes :: u64
  dn_descendant_allocated_bytes :: u64
  dn_descendant_effective_allocated_bytes :: u64
  dn_parent :: "node_id option"
  dn_scan_state :: scan_state
  dn_kind :: node_kind
  dn_file_category :: file_category
  dn_mtime :: "system_time option"
  dn_display_name :: rust_string
  dn_is_cloud :: bool

definition DiskUsageNode_new :: "node_id \<Rightarrow> du_node" where
  "DiskUsageNode_new i =
     \<lparr>dn_id = i, dn_size_bytes = 0, dn_allocated_bytes = 0, dn_descendant_size_bytes = 0,
      dn_descendant_allocated_bytes = 0, dn_descendant_effective_allocated_bytes = 0, dn_parent = None,
      dn_scan_state = Unknown, dn_kind = Container, dn_file_category = CatOther, dn_mtime = None,
      dn_display_name = [], dn_is_cloud = False\<rparr>"

record du_tree =
  dt_nodes :: "node_id \<rightharpoonup> du_node"
  dt_containers :: "node_id \<rightharpoonup> node_id list"
  dt_root :: node_id
  dt_complete :: bool

definition DiskUsageTree_new :: "node_id \<Rightarrow> du_tree" where
  "DiskUsageTree_new root =
     \<lparr>dt_nodes = [root \<mapsto> DiskUsageNode_new root], dt_containers = Map.empty, dt_root = root, dt_complete = False\<rparr>"

text \<open>
  \<open>nodes.entry(id).or_insert_with(..)\<close>: the entry, new when there is none.  An operation on the
  entry is a function stored back under the id.
\<close>

definition node_entry :: "du_tree \<Rightarrow> node_id \<Rightarrow> du_node" where
  "node_entry tree i = (case dt_nodes tree i of Some n \<Rightarrow> n | None \<Rightarrow> DiskUsageNode_new i)"

definition put_node :: "du_tree \<Rightarrow> node_id \<Rightarrow> du_node \<Rightarrow> du_tree" where
  "put_node tree i n = tree\<lparr>dt_nodes := (dt_nodes tree)(i \<mapsto> n)\<rparr>"

definition ensure_node :: "du_tree \<Rightarrow> node_id \<Rightarrow> du_tree" where
  "ensure_node tree i = put_node tree i (node_entry tree i)"

definition ensure_node_with_meta ::
    "du_tree \<Rightarrow> node_id \<Rightarrow> node_kind \<Rightarrow> file_category \<Rightarrow> system_time option \<Rightarrow> rust_string \<Rightarrow> bool \<Rightarrow> du_tree" where
  "ensure_node_with_meta tree i kind category mtime name is_cloud =
     (let entry = node_entry tree i;
          entry = (if is_cloud then entry\<lparr>dn_is_cloud := True\<rparr> else entry);
          entry = entry\<lparr>dn_kind := kind\<rparr>;
          entry = entry\<lparr>dn_file_category := (if kind = File then category else CatOther)\<rparr>;
          entry = (if dn_mtime entry = None then entry\<lparr>dn_mtime := mtime\<rparr> else entry);
          entry = (if dn_display_name entry = [] \<and> name \<noteq> [] then entry\<lparr>dn_display_name := name\<rparr> else entry) in
      put_node tree i entry)"

definition parent_of :: "du_tree \<Rightarrow> node_id \<Rightarrow> node_id option" where
  "parent_of tree i = Option.bind (dt_nodes tree i) dn_parent"

section \<open>Propagation along the parents\<close>

text \<open>
  The loops follow the parent pointers.  They do not end on a cycle of parents, so they are
  partial functions: \<open>None\<close> is a loop that runs forever.
\<close>

definition add_to_descendants :: "du_node \<Rightarrow> u64 \<Rightarrow> u64 \<Rightarrow> u64 \<Rightarrow> du_node" where
  "add_to_descendants entry apparent allocated effective =
     entry\<lparr>dn_descendant_size_bytes := saturating_add (dn_descendant_size_bytes entry) apparent,
       dn_descendant_allocated_bytes := saturating_add (dn_descendant_allocated_bytes entry) allocated,
       dn_descendant_effective_allocated_bytes :=
         saturating_add (dn_descendant_effective_allocated_bytes entry) effective\<rparr>"

partial_function (option) propagate_descendant_add ::
    "du_tree \<Rightarrow> node_id \<Rightarrow> u64 \<Rightarrow> u64 \<Rightarrow> u64 \<Rightarrow> du_tree option" where
  "propagate_descendant_add tree current apparent allocated effective =
     (case parent_of tree current of
        None \<Rightarrow> Some tree
      | Some parent \<Rightarrow>
          propagate_descendant_add
            (put_node tree parent (add_to_descendants (node_entry tree parent) apparent allocated effective))
            parent apparent allocated effective)"

definition sub_effective :: "du_node \<Rightarrow> u64 \<Rightarrow> du_node" where
  "sub_effective entry bytes =
     entry\<lparr>dn_descendant_effective_allocated_bytes :=
       saturating_sub (dn_descendant_effective_allocated_bytes entry) bytes\<rparr>"

partial_function (option) propagate_effective_allocated_sub ::
    "du_tree \<Rightarrow> node_id \<Rightarrow> u64 \<Rightarrow> du_tree option" where
  "propagate_effective_allocated_sub tree current bytes =
     (case parent_of tree current of
        None \<Rightarrow> Some tree
      | Some parent \<Rightarrow>
          propagate_effective_allocated_sub
            (case dt_nodes tree parent of
               Some entry \<Rightarrow> put_node tree parent (sub_effective entry bytes)
             | None \<Rightarrow> tree)
            parent bytes)"

partial_function (option) parent_chain_contains :: "du_tree \<Rightarrow> node_id \<Rightarrow> node_id \<Rightarrow> bool option" where
  "parent_chain_contains tree current needle =
     (if current = needle then Some True
      else
      case parent_of tree current of
        None \<Rightarrow> Some False
      | Some parent \<Rightarrow> parent_chain_contains tree parent needle)"

definition effective_of :: "du_node \<Rightarrow> u64" where
  "effective_of entry = (if 0 < dn_allocated_bytes entry then dn_allocated_bytes entry else dn_size_bytes entry)"

section \<open>Links and sizes\<close>

definition register_parent :: "du_tree \<Rightarrow> node_id \<Rightarrow> node_id \<Rightarrow> du_tree option" where
  "register_parent tree container node =
     Option.bind
       (if (case dt_nodes tree node of Some entry \<Rightarrow> dn_kind entry = Container | None \<Rightarrow> False)
        then parent_chain_contains tree container node else Some False) (\<lambda>cyclic.
     if cyclic then Some tree
     else if parent_of tree node \<noteq> None then Some tree
     else
     let tree = put_node tree node ((node_entry tree node)\<lparr>dn_parent := Some container\<rparr>);
         entry = node_entry tree node in
     propagate_descendant_add tree node
       (saturating_add (dn_size_bytes entry) (dn_descendant_size_bytes entry))
       (saturating_add (dn_allocated_bytes entry) (dn_descendant_allocated_bytes entry))
       (saturating_add (effective_of entry) (dn_descendant_effective_allocated_bytes entry)))"

definition container_members :: "du_tree \<Rightarrow> node_id \<Rightarrow> node_id list" where
  "container_members tree c = (case dt_containers tree c of Some ms \<Rightarrow> ms | None \<Rightarrow> [])"

definition add_link :: "du_tree \<Rightarrow> node_id \<Rightarrow> node_id \<Rightarrow> du_tree option" where
  "add_link tree container node =
     (let members = container_members tree container in
      if node \<notin> set members then
        register_parent (tree\<lparr>dt_containers := (dt_containers tree)(container \<mapsto> members @ [node])\<rparr>) container node
      else Some (tree\<lparr>dt_containers := (dt_containers tree)(container \<mapsto> members)\<rparr>))"

definition add_link_unchecked :: "du_tree \<Rightarrow> node_id \<Rightarrow> node_id \<Rightarrow> du_tree option" where
  "add_link_unchecked tree container node =
     register_parent (tree\<lparr>dt_containers := (dt_containers tree)(container \<mapsto> container_members tree container @ [node])\<rparr>)
       container node"

definition add_size :: "du_tree \<Rightarrow> node_id \<Rightarrow> u64 \<Rightarrow> du_tree option" where
  "add_size tree i size_bytes =
     (let entry = node_entry tree i;
          old_size = dn_size_bytes entry;
          new_size = saturating_add old_size size_bytes;
          apparent_delta = new_size - old_size;
          effective_delta = (if dn_allocated_bytes entry = 0 then apparent_delta else 0) in
      propagate_descendant_add (put_node tree i (entry\<lparr>dn_size_bytes := new_size\<rparr>)) i apparent_delta 0 effective_delta)"

definition add_allocated :: "du_tree \<Rightarrow> node_id \<Rightarrow> u64 \<Rightarrow> du_tree option" where
  "add_allocated tree i bytes =
     (let entry = node_entry tree i;
          old_allocated = dn_allocated_bytes entry;
          old_effective = effective_of entry;
          entry = entry\<lparr>dn_allocated_bytes := saturating_add old_allocated bytes\<rparr>;
          new_effective = effective_of entry;
          allocated_delta = dn_allocated_bytes entry - old_allocated;
          tree = put_node tree i entry in
      if old_effective \<le> new_effective
      then propagate_descendant_add tree i 0 allocated_delta (new_effective - old_effective)
      else Option.bind (propagate_descendant_add tree i 0 allocated_delta 0) (\<lambda>tree.
           propagate_effective_allocated_sub tree i (old_effective - new_effective)))"

definition set_scan_state :: "du_tree \<Rightarrow> node_id \<Rightarrow> scan_state \<Rightarrow> du_tree" where
  "set_scan_state tree i state = put_node tree i ((node_entry tree i)\<lparr>dn_scan_state := state\<rparr>)"

section \<open>Removing a subtree\<close>

definition sub_from_descendants :: "du_node \<Rightarrow> u64 \<Rightarrow> u64 \<Rightarrow> u64 \<Rightarrow> du_node" where
  "sub_from_descendants entry apparent allocated effective =
     entry\<lparr>dn_descendant_size_bytes := saturating_sub (dn_descendant_size_bytes entry) apparent,
       dn_descendant_allocated_bytes := saturating_sub (dn_descendant_allocated_bytes entry) allocated,
       dn_descendant_effective_allocated_bytes :=
         saturating_sub (dn_descendant_effective_allocated_bytes entry) effective\<rparr>"

partial_function (option) propagate_sub ::
    "du_tree \<Rightarrow> node_id \<Rightarrow> u64 \<Rightarrow> u64 \<Rightarrow> u64 \<Rightarrow> du_tree option" where
  "propagate_sub tree current apparent allocated effective =
     (case parent_of tree current of
        None \<Rightarrow> Some tree
      | Some parent \<Rightarrow>
          propagate_sub
            (case dt_nodes tree parent of
               Some entry \<Rightarrow> put_node tree parent (sub_from_descendants entry apparent allocated effective)
             | None \<Rightarrow> tree)
            parent apparent allocated effective)"

text \<open>The work list: the last member that was pushed is taken first.\<close>

partial_function (option) drop_nodes :: "du_tree \<Rightarrow> node_id list \<Rightarrow> du_tree option" where
  "drop_nodes tree stack =
     (case stack of
        [] \<Rightarrow> Some tree
      | n # rest \<Rightarrow>
          (case dt_containers tree n of
             Some members \<Rightarrow>
               drop_nodes (tree\<lparr>dt_nodes := (dt_nodes tree)(n := None), dt_containers := (dt_containers tree)(n := None)\<rparr>)
                 (rev members @ rest)
           | None \<Rightarrow> drop_nodes (tree\<lparr>dt_nodes := (dt_nodes tree)(n := None)\<rparr>) rest))"

definition remove_subtree :: "du_tree \<Rightarrow> node_id \<Rightarrow> du_tree option" where
  "remove_subtree tree i =
     Option.bind
       (case dt_nodes tree i of
          Some entry \<Rightarrow>
            propagate_sub tree i
              (saturating_add (dn_size_bytes entry) (dn_descendant_size_bytes entry))
              (saturating_add (dn_allocated_bytes entry) (dn_descendant_allocated_bytes entry))
              (saturating_add (effective_of entry) (dn_descendant_effective_allocated_bytes entry))
        | None \<Rightarrow> Some tree) (\<lambda>tree.
     Option.bind (drop_nodes tree [i]) (\<lambda>tree.
     Some (tree\<lparr>dt_containers := (\<lambda>c. map_option (filter (\<lambda>m. m \<noteq> i)) (dt_containers tree c))\<rparr>)))"

section \<open>Facts\<close>

datatype du_fact =
  NodeDiscovered node_id node_kind file_category "system_time option" rust_string bool
| NodeLinked node_id node_id
| NodeSizeAdded node_id u64
| NodeAllocatedAdded node_id u64
| ContainerScanStarted node_id
| ContainerScanCompleted node_id

fun apply_fact :: "du_tree \<Rightarrow> du_fact \<Rightarrow> du_tree option" where
  "apply_fact tree (NodeDiscovered node kind category mtime name is_cloud) =
     Some (ensure_node_with_meta tree node kind category mtime name is_cloud)"
| "apply_fact tree (NodeLinked container node) =
     add_link_unchecked (put_node tree container ((node_entry tree container)\<lparr>dn_kind := Container\<rparr>)) container node"
| "apply_fact tree (NodeSizeAdded node size_bytes) = add_size tree node size_bytes"
| "apply_fact tree (NodeAllocatedAdded node bytes) = add_allocated tree node bytes"
| "apply_fact tree (ContainerScanStarted container) = Some (set_scan_state tree container Scanning)"
| "apply_fact tree (ContainerScanCompleted container) = Some (set_scan_state tree container Complete)"

fun apply_facts :: "du_tree \<Rightarrow> du_fact list \<Rightarrow> du_tree option" where
  "apply_facts tree [] = Some tree"
| "apply_facts tree (f # facts) = Option.bind (apply_fact tree f) (\<lambda>tree. apply_facts tree facts)"

end
