(* ===== verification/DiskUsageTree.thy ===== *)
theory DiskUsageTree
  imports DiskUsage
begin

text \<open>
  The invariant of a disk-usage tree: the parents are acyclic, they agree with the container
  lists, and the descendant totals are the sums they stand for.  A loop along the parents is the
  locale \<open>ancestor_loop\<close>, a size with its total the locale \<open>size_field\<close>; both are
  interpreted on the code's three loops and three sizes.
\<close>

section \<open>The parents\<close>

definition parent_rel :: "du_tree \<Rightarrow> (node_id \<times> node_id) set" where
  "parent_rel tree = {(m, p). parent_of tree m = Some p}"

definition parents_ok :: "du_tree \<Rightarrow> bool" where
  "parents_ok tree \<longleftrightarrow> finite (dom (dt_nodes tree)) \<and> acyclic (parent_rel tree) \<and>
     (\<forall>m p. parent_of tree m = Some p \<longrightarrow> p \<in> dom (dt_nodes tree))"

lemma put_node_simps [simp]:
  "dt_nodes (put_node tree i e) = (dt_nodes tree)(i \<mapsto> e)" "dt_containers (put_node tree i e) = dt_containers tree"
  "dt_root (put_node tree i e) = dt_root tree" "dt_complete (put_node tree i e) = dt_complete tree"
  "node_entry (put_node tree i e) j = (if j = i then e else node_entry tree j)"
  "parent_of (put_node tree i e) j = (if j = i then dn_parent e else parent_of tree j)"
  by (simp_all add: put_node_def node_entry_def parent_of_def)

lemma node_entry_parent [simp]: "dn_parent (node_entry tree i) = parent_of tree i"
  by (simp add: node_entry_def parent_of_def DiskUsageNode_new_def split: option.split)

lemma parent_rel_put [simp]:
  "dn_parent e = parent_of tree i \<Longrightarrow> parent_rel (put_node tree i e) = parent_rel tree"
  by (auto simp: parent_rel_def split: if_splits)

lemma parent_of_dom: "parent_of tree m = Some p \<Longrightarrow> m \<in> dom (dt_nodes tree)"
  by (auto simp: parent_of_def bind_eq_Some_conv)

lemma parent_rel_dom: "(m, p) \<in> (parent_rel tree)\<^sup>+ \<Longrightarrow> m \<in> dom (dt_nodes tree)"
  by (erule converse_tranclE) (simp_all add: parent_rel_def parent_of_dom del: domIff)

lemma finite_parent_rel: "finite (dom (dt_nodes tree)) \<Longrightarrow> finite (parent_rel tree)"
proof -
  assume "finite (dom (dt_nodes tree))"
  moreover have "parent_rel tree \<subseteq> (\<lambda>m. (m, the (parent_of tree m))) ` dom (dt_nodes tree)"
    by (auto simp: parent_rel_def dest: parent_of_dom intro!: image_eqI)
  ultimately show ?thesis by (rule finite_surj)
qed

lemma wf_parents: "parents_ok tree \<Longrightarrow> wf ((parent_rel tree)\<inverse>)"
  unfolding parents_ok_def by (intro finite_acyclic_wf_converse finite_parent_rel) auto

lemma parents_ok_put:
  "parents_ok tree \<Longrightarrow> dn_parent e = parent_of tree i \<Longrightarrow> parents_ok (put_node tree i e)"
  by (auto simp: parents_ok_def)

text \<open>One parent each: below a node, the parent relation is a chain.\<close>

lemma parent_step:
  assumes "parent_of tree i = Some p"
  shows "(i, n) \<in> (parent_rel tree)\<^sup>+ \<longleftrightarrow> n = p \<or> (p, n) \<in> (parent_rel tree)\<^sup>+"
proof
  assume "(i, n) \<in> (parent_rel tree)\<^sup>+"
  then show "n = p \<or> (p, n) \<in> (parent_rel tree)\<^sup>+"
    by (rule converse_tranclE) (use assms in \<open>auto simp: parent_rel_def\<close>)
next
  assume "n = p \<or> (p, n) \<in> (parent_rel tree)\<^sup>+"
  with assms show "(i, n) \<in> (parent_rel tree)\<^sup>+"
    by (auto simp: parent_rel_def intro: trancl_into_trancl2)
qed

lemma no_parent_step: "parent_of tree i = None \<Longrightarrow> (i, n) \<notin> (parent_rel tree)\<^sup>+"
proof
  assume "parent_of tree i = None" and "(i, n) \<in> (parent_rel tree)\<^sup>+"
  from this(2) show False
    by (rule converse_tranclE) (use \<open>parent_of tree i = None\<close> in \<open>simp_all add: parent_rel_def\<close>)
qed

section \<open>Propagation\<close>

text \<open>A loop along the parents that rewrites each entry and leaves the parents alone.\<close>

definition updates_ancestors :: "(du_node \<Rightarrow> du_node) \<Rightarrow> node_id \<Rightarrow> du_tree \<Rightarrow> du_tree \<Rightarrow> bool" where
  "updates_ancestors g i tree tree' \<longleftrightarrow>
     dt_containers tree' = dt_containers tree \<and> dt_root tree' = dt_root tree \<and> dt_complete tree' = dt_complete tree \<and>
     (\<forall>n. dt_nodes tree' n =
        (if (i, n) \<in> (parent_rel tree)\<^sup>+ then Some (g (node_entry tree n)) else dt_nodes tree n))"

lemma updates_ancestors_step:
  assumes ok: "parents_ok tree" and p: "parent_of tree i = Some p"
    and keep: "\<And>e. dn_parent (g e) = dn_parent e"
    and rest: "updates_ancestors g p (put_node tree p (g (node_entry tree p))) tree'"
  shows "updates_ancestors g i tree tree'"
proof -
  have irrefl: "(p, p) \<notin> (parent_rel tree)\<^sup>+" using ok by (simp add: parents_ok_def acyclic_def)
  have "parent_rel (put_node tree p (g (node_entry tree p))) = parent_rel tree" by (simp add: keep)
  with rest irrefl show ?thesis
    unfolding updates_ancestors_def parent_step [OF p] by (auto simp: put_node_def node_entry_def)
qed

lemma parent_chain_contains_spec:
  assumes "parents_ok tree"
  shows "parent_chain_contains tree i needle = Some ((i, needle) \<in> (parent_rel tree)\<^sup>*)"
  using wf_parents [OF assms]
proof (induction i rule: wf_induct_rule)
  case (less i)
  show ?case
  proof (cases "parent_of tree i")
    case None
    have "(i, needle) \<in> (parent_rel tree)\<^sup>* \<longleftrightarrow> i = needle"
      using no_parent_step [OF None] by (auto simp: rtrancl_eq_or_trancl)
    with None show ?thesis by (simp add: parent_chain_contains.simps [of tree i])
  next
    case (Some p)
    then have "parent_chain_contains tree p needle = Some ((p, needle) \<in> (parent_rel tree)\<^sup>*)"
      by (intro less) (simp add: parent_rel_def)
    then show ?thesis
      using Some parent_step [OF Some, of needle] by (auto simp: parent_chain_contains.simps [of tree i] rtrancl_eq_or_trancl)
  qed
qed

text \<open>Of an entry, the loops change only the three descendant totals.\<close>

lemma updates_ancestors_entry:
  assumes "updates_ancestors g i tree tree'"
  shows "node_entry tree' n = (if (i, n) \<in> (parent_rel tree)\<^sup>+ then g (node_entry tree n) else node_entry tree n)"
  using assms by (simp add: updates_ancestors_def node_entry_def)

lemma updates_ancestors_parents:
  assumes upd: "updates_ancestors g i tree tree'" and keep: "\<And>e. dn_parent (g e) = dn_parent e"
  shows "parent_of tree' = parent_of tree" and "parent_rel tree' = parent_rel tree"
proof -
  show "parent_of tree' = parent_of tree"
    by (rule ext) (use updates_ancestors_entry [OF upd] keep in \<open>simp flip: node_entry_parent\<close>)
  then show "parent_rel tree' = parent_rel tree" by (simp add: parent_rel_def)
qed

lemma updates_ancestors_dom:
  assumes upd: "updates_ancestors g i tree tree'" and ok: "parents_ok tree"
  shows "dom (dt_nodes tree') = dom (dt_nodes tree)"
proof -
  have known: "n \<in> dom (dt_nodes tree)" if "(i, n) \<in> (parent_rel tree)\<^sup>+" for n
    using that by (rule tranclE) (use ok in \<open>simp_all add: parent_rel_def parents_ok_def\<close>)
  have "n \<in> dom (dt_nodes tree') \<longleftrightarrow> n \<in> dom (dt_nodes tree)" for n
    using upd known [of n] unfolding updates_ancestors_def domIff by (cases "(i, n) \<in> (parent_rel tree)\<^sup>+") simp_all
  then show ?thesis by blast
qed

lemma updates_ancestors_ok:
  assumes "updates_ancestors g i tree tree'" and "\<And>e. dn_parent (g e) = dn_parent e" and "parents_ok tree"
  shows "parents_ok tree'"
  using assms updates_ancestors_parents [OF assms(1,2)] updates_ancestors_dom [OF assms(1,3)]
  by (simp add: parents_ok_def)


text \<open>A loop that follows the parents and rewrites each of them.\<close>

locale ancestor_loop =
  fixes run :: "du_tree \<Rightarrow> node_id \<Rightarrow> du_tree option" and g :: "du_node \<Rightarrow> du_node"
  assumes stop: "parent_of tree i = None \<Longrightarrow> run tree i = Some tree"
    and step: "parent_of tree i = Some p \<Longrightarrow> p \<in> dom (dt_nodes tree) \<Longrightarrow>
      run tree i = run (put_node tree p (g (node_entry tree p))) p"
    and keep: "dn_parent (g e) = dn_parent e"
begin

lemma run_spec:
  assumes "parents_ok tree"
  shows "\<exists>tree'. run tree i = Some tree' \<and> updates_ancestors g i tree tree'"
proof -
  have "\<forall>tree. parents_ok tree \<and> parent_rel tree = R \<longrightarrow>
      (\<exists>tree'. run tree i = Some tree' \<and> updates_ancestors g i tree tree')" if "wf (R\<inverse>)" for R
    using that
  proof (induction i rule: wf_induct_rule)
    case (less i)
    show ?case
    proof (intro allI impI)
      fix tree assume t: "parents_ok tree \<and> parent_rel tree = R"
      show "\<exists>tree'. run tree i = Some tree' \<and> updates_ancestors g i tree tree'"
      proof (cases "parent_of tree i")
        case None
        then show ?thesis by (simp add: stop updates_ancestors_def no_parent_step)
      next
        case (Some p)
        let ?t = "put_node tree p (g (node_entry tree p))"
        have dom: "p \<in> dom (dt_nodes tree)" using t Some by (simp add: parents_ok_def)
        have "(p, i) \<in> R\<inverse>" using Some t by (auto simp: parent_rel_def)
        moreover have "parents_ok ?t \<and> parent_rel ?t = R" using t by (simp add: parents_ok_put keep)
        ultimately obtain tree' where "run ?t p = Some tree'" and upd: "updates_ancestors g p ?t tree'"
          using less by blast
        with step [OF Some dom] have "run tree i = Some tree'" by simp
        with updates_ancestors_step [OF _ Some keep upd] t show ?thesis by blast
      qed
    qed
  qed
  with wf_parents [OF assms] assms show ?thesis by blast
qed

lemmas run_parents = updates_ancestors_parents [OF _ keep]

lemma run_ok: "updates_ancestors g i tree tree' \<Longrightarrow> parents_ok tree \<Longrightarrow> parents_ok tree'"
  by (rule updates_ancestors_ok [OF _ keep])

end

interpretation add_loop: ancestor_loop "\<lambda>tree i. propagate_descendant_add tree i a b c" "\<lambda>e. add_to_descendants e a b c"
  for a b c
  by unfold_locales (simp_all add: propagate_descendant_add.simps add_to_descendants_def)

interpretation effective_sub_loop: ancestor_loop "\<lambda>tree i. propagate_effective_allocated_sub tree i b" "\<lambda>e. sub_effective e b"
  for b
proof
  show "propagate_effective_allocated_sub tree i b = Some tree" if "parent_of tree i = None" for tree i
    using that by (simp add: propagate_effective_allocated_sub.simps)
  show "propagate_effective_allocated_sub tree i b =
      propagate_effective_allocated_sub (put_node tree p (sub_effective (node_entry tree p) b)) p b"
    if "parent_of tree i = Some p" "p \<in> dom (dt_nodes tree)" for tree i p
    using that by (subst propagate_effective_allocated_sub.simps [of tree i]) (auto simp: node_entry_def)
qed (simp add: sub_effective_def)

interpretation sub_loop: ancestor_loop "\<lambda>tree i. propagate_sub tree i a b c" "\<lambda>e. sub_from_descendants e a b c"
  for a b c
proof
  show "propagate_sub tree i a b c = Some tree" if "parent_of tree i = None" for tree i
    using that by (simp add: propagate_sub.simps)
  show "propagate_sub tree i a b c = propagate_sub (put_node tree p (sub_from_descendants (node_entry tree p) a b c)) p a b c"
    if "parent_of tree i = Some p" "p \<in> dom (dt_nodes tree)" for tree i p
    using that by (subst propagate_sub.simps [of tree i]) (auto simp: node_entry_def)
qed (simp add: sub_from_descendants_def)

section \<open>Descendant totals\<close>

definition node_cap :: "nat \<Rightarrow> nat" where
  "node_cap n = min n (2 ^ 64 - 1)"

lemma node_cap_add: "unat (a :: u64) = node_cap m \<Longrightarrow> unat b = node_cap n \<Longrightarrow> unat (saturating_add a b) = node_cap (m + n)"
  by (auto simp: arith_word node_cap_def)

lemma node_cap_word: "unat (w :: u64) = node_cap (unat w)"
  using unsigned_less [of w, where ?'a = nat] by (simp add: node_cap_def)

lemma saturating_add_zero: "unat (saturating_add w 0) = unat w" for w :: u64
  using node_cap_add [OF node_cap_word [of w], of 0 0] node_cap_word [of w] by (simp add: node_cap_def)

definition below :: "du_tree \<Rightarrow> node_id \<Rightarrow> node_id set" where
  "below tree n = {m. (m, n) \<in> (parent_rel tree)\<^sup>+}"

lemma finite_below: "parents_ok tree \<Longrightarrow> finite (below tree n)"
  by (rule finite_subset [of _ "dom (dt_nodes tree)"]) (auto simp: below_def parents_ok_def dest!: parent_rel_dom)

text \<open>
  A size that a node has of its own, the total it keeps for its descendants, and the component of
  the propagated triple that feeds the total.
\<close>

locale size_field =
  fixes own :: "du_node \<Rightarrow> u64" and desc :: "du_node \<Rightarrow> u64" and pick :: "u64 \<Rightarrow> u64 \<Rightarrow> u64 \<Rightarrow> u64"
  assumes own_add: "own (add_to_descendants e a b c) = own e"
    and desc_add: "desc (add_to_descendants e a b c) = saturating_add (desc e) (pick a b c)"
    and fresh: "own (DiskUsageNode_new i) = 0" "desc (DiskUsageNode_new i) = 0"
    and own_sub: "own (sub_from_descendants e a b c) = own e"
    and desc_sub: "desc (sub_from_descendants e a b c) = saturating_sub (desc e) (pick a b c)"
    and reparent: "own (e\<lparr>dn_parent := p\<rparr>) = own e" "desc (e\<lparr>dn_parent := p\<rparr>) = desc e"
begin

definition total :: "du_tree \<Rightarrow> node_id \<Rightarrow> nat" where
  "total tree n = (\<Sum>m\<in>below tree n. unat (own (node_entry tree m)))"

definition totals_ok :: "du_tree \<Rightarrow> bool" where
  "totals_ok tree \<longleftrightarrow> (\<forall>n. unat (desc (node_entry tree n)) = node_cap (total tree n))"

lemma totals_put:
  assumes "totals_ok tree" and "dn_parent e = parent_of tree i"
    and "own e = own (node_entry tree i)" and "desc e = desc (node_entry tree i)"
  shows "totals_ok (put_node tree i e)"
proof -
  have "total (put_node tree i e) n = total tree n" for n
    unfolding total_def below_def using assms(2,3) by (intro sum.cong) auto
  with assms show ?thesis by (simp add: totals_ok_def)
qed

text \<open>A loop that does not touch this size.\<close>

lemma totals_untouched:
  assumes "totals_ok tree" and upd: "updates_ancestors g i tree tree'" and keep: "\<And>e. dn_parent (g e) = dn_parent e"
    and "\<And>e. own (g e) = own e" and "\<And>e. desc (g e) = desc e"
  shows "totals_ok tree'"
proof -
  have "own (node_entry tree' m) = own (node_entry tree m)" "desc (node_entry tree' m) = desc (node_entry tree m)" for m
    using assms(4,5) by (simp_all add: updates_ancestors_entry [OF upd])
  then show ?thesis
    using assms(1) updates_ancestors_parents(2) [OF upd keep] by (simp add: totals_ok_def total_def below_def)
qed

text \<open>Fewer parents, smaller totals.\<close>

lemma total_mono:
  assumes "parents_ok tree" and sub: "parent_rel tree' \<subseteq> parent_rel tree"
    and own: "\<And>m. m \<in> Domain (parent_rel tree') \<Longrightarrow> own (node_entry tree' m) = own (node_entry tree m)"
  shows "total tree' n \<le> total tree n"
proof -
  have "m \<in> Domain (parent_rel tree')" if "m \<in> below tree' n" for m
    using that by (auto simp: below_def elim: converse_tranclE)
  then have "total tree' n = (\<Sum>m\<in>below tree' n. unat (own (node_entry tree m)))"
    unfolding total_def by (intro sum.cong) (simp_all add: own)
  also have "\<dots> \<le> total tree n"
    unfolding total_def by (rule sum_mono2) (use assms(1) finite_below trancl_mono [OF _ sub] in \<open>auto simp: below_def\<close>)
  finally show ?thesis .
qed

text \<open>A change of the size of one node changes the totals above it by as much.\<close>

lemma total_one:
  assumes ok: "parents_ok tree" and rel: "parent_rel tree' = parent_rel tree"
    and own: "\<And>m. m \<noteq> i \<Longrightarrow> own (node_entry tree' m) = own (node_entry tree m)"
  shows "total tree' n + (if (i, n) \<in> (parent_rel tree)\<^sup>+ then unat (own (node_entry tree i)) else 0) =
    total tree n + (if (i, n) \<in> (parent_rel tree)\<^sup>+ then unat (own (node_entry tree' i)) else 0)"
proof (cases "i \<in> below tree n")
  case True
  have "(\<Sum>m\<in>below tree n - {i}. unat (own (node_entry tree' m))) = (\<Sum>m\<in>below tree n - {i}. unat (own (node_entry tree m)))"
    by (intro sum.cong) (auto simp: own)
  then show ?thesis
    using sum.remove [OF finite_below [OF ok] True, of "\<lambda>m. unat (own (node_entry tree m))"]
      sum.remove [OF finite_below [OF ok] True, of "\<lambda>m. unat (own (node_entry tree' m))"] True
    by (simp add: total_def below_def rel)
next
  case False
  then have "total tree' n = total tree n"
    unfolding total_def below_def rel by (intro sum.cong arg_cong [of _ _ unat] own) auto
  with False show ?thesis by (simp add: below_def)
qed

text \<open>A node that grew by \<open>d\<close> and passes \<open>d\<close> on keeps the totals.\<close>

lemma totals_grow:
  assumes ok: "parents_ok tree" and totals: "totals_ok tree"
    and e: "dn_parent e = parent_of tree i" "desc e = desc (node_entry tree i)"
    and grown: "unat (own e) = unat (own (node_entry tree i)) + unat (pick a b c)"
    and upd: "updates_ancestors (\<lambda>e. add_to_descendants e a b c) i (put_node tree i e) tree'"
  shows "totals_ok tree'"
  unfolding totals_ok_def
proof
  fix n
  let ?t = "put_node tree i e"
  have rel: "parent_rel ?t = parent_rel tree" using e(1) by simp
  have keep: "dn_parent (add_to_descendants e a b c) = dn_parent e" for e by (simp add: add_to_descendants_def)
  have rel': "parent_rel tree' = parent_rel tree" using updates_ancestors_parents(2) [OF upd keep] rel by simp
  note entry = updates_ancestors_entry [OF upd, unfolded rel]
  have own': "own (node_entry tree' m) = (if m = i then own e else own (node_entry tree m))" for m
    by (simp add: entry own_add)
  have total: "total tree' n = total tree n + (if (i, n) \<in> (parent_rel tree)\<^sup>+ then unat (pick a b c) else 0)"
    using total_one [OF ok rel', of i n] by (auto simp: own' grown split: if_splits)
  have old: "unat (desc (node_entry ?t n)) = node_cap (total tree n)"
    using totals e(2) by (simp add: totals_ok_def)
  show "unat (desc (node_entry tree' n)) = node_cap (total tree' n)"
    using old node_cap_add [OF old node_cap_word, of "pick a b c"]
    by (simp add: entry total desc_add)
qed

text \<open>
  A node that shrank by \<open>d\<close> and takes \<open>d\<close> off its ancestors keeps the totals, when
  none has reached the cap.
\<close>

lemma totals_shrink:
  assumes ok: "parents_ok tree" and totals: "totals_ok tree" and small: "\<And>n. total tree n < 2 ^ 64"
    and e: "dn_parent e = parent_of tree i" "desc e = desc (node_entry tree i)"
    and shrunk: "unat (own (node_entry tree i)) = unat (own e) + unat d"
    and upd: "updates_ancestors (\<lambda>e. add_to_descendants e a b c) i (put_node tree i e) t" and zero: "pick a b c = 0"
    and upd': "updates_ancestors g i t tree'" and keep': "\<And>e. dn_parent (g e) = dn_parent e"
    and g: "\<And>e. own (g e) = own e" "\<And>e. desc (g e) = saturating_sub (desc e) d"
  shows "totals_ok tree'"
  unfolding totals_ok_def
proof
  fix n
  have keep: "dn_parent (add_to_descendants e a b c) = dn_parent e" for e by (simp add: add_to_descendants_def)
  have rel: "parent_rel t = parent_rel tree" using updates_ancestors_parents(2) [OF upd keep] e(1) by simp
  have rel': "parent_rel tree' = parent_rel tree" using updates_ancestors_parents(2) [OF upd' keep'] rel by simp
  have entry: "own (node_entry t m) = own (if m = i then e else node_entry tree m)"
      "unat (desc (node_entry t m)) = unat (desc (node_entry tree m))" for m
    using e(2) by (auto simp: updates_ancestors_entry [OF upd] own_add desc_add zero saturating_add_zero)
  note entry' = updates_ancestors_entry [OF upd', unfolded rel]
  have own': "own (node_entry tree' m) = own (if m = i then e else node_entry tree m)" for m
    by (simp add: entry' g entry)
  have "total tree' n + (if (i, n) \<in> (parent_rel tree)\<^sup>+ then unat d else 0) = total tree n"
    using total_one [OF ok rel', of i n] by (auto simp: own' shrunk split: if_splits)
  moreover have "unat (desc (node_entry tree n)) = total tree n"
    using totals small [of n] by (simp add: totals_ok_def node_cap_def)
  ultimately show "unat (desc (node_entry tree' n)) = node_cap (total tree' n)"
    using small [of n] by (auto simp: entry' g entry arith_word node_cap_def split: if_splits)
qed

text \<open>A node without a parent that gets one, and passes on all it has.\<close>

lemma totals_link:
  assumes ok: "parents_ok tree" and totals: "totals_ok tree" and free: "parent_of tree i = None"
    and fresh_cycle: "(p, i) \<notin> (parent_rel tree)\<^sup>*"
    and whole: "pick a b c = saturating_add (own (node_entry tree i)) (desc (node_entry tree i))"
    and upd: "updates_ancestors (\<lambda>e. add_to_descendants e a b c) i
      (put_node tree i ((node_entry tree i)\<lparr>dn_parent := Some p\<rparr>)) tree'"
  shows "totals_ok tree'"
  unfolding totals_ok_def
proof
  fix n
  let ?R = "parent_rel tree" and ?t = "put_node tree i ((node_entry tree i)\<lparr>dn_parent := Some p\<rparr>)"
  have rel: "parent_rel ?t = insert (i, p) ?R" using free by (auto simp: parent_rel_def split: if_splits)
  have keep: "dn_parent (add_to_descendants e a b c) = dn_parent e" for e by (simp add: add_to_descendants_def)
  have rel': "parent_rel tree' = insert (i, p) ?R" using updates_ancestors_parents(2) [OF upd keep] rel by simp
  note entry = updates_ancestors_entry [OF upd, unfolded rel]
  have own': "own (node_entry tree' m) = own (node_entry tree m)" for m by (simp add: entry own_add reparent)
  have above: "(i, n) \<in> (insert (i, p) ?R)\<^sup>+ \<longleftrightarrow> (p, n) \<in> ?R\<^sup>*"
    using no_parent_step [OF free] fresh_cycle by (auto simp: trancl_insert)
  have below': "below tree' n = below tree n \<union> (if (p, n) \<in> ?R\<^sup>* then insert i (below tree i) else {})"
    by (auto simp: below_def rel' trancl_insert rtrancl_eq_or_trancl)
  have apart: "below tree n \<inter> insert i (below tree i) = {}" if pn: "(p, n) \<in> ?R\<^sup>*"
  proof -
    have "(i, n) \<notin> ?R\<^sup>+" by (rule no_parent_step [OF free])
    moreover have False if m: "(m, n) \<in> ?R\<^sup>+" "(m, i) \<in> ?R\<^sup>+" for m
    proof -
      have "single_valued ?R" by (auto simp: parent_rel_def single_valued_def)
      from single_valued_confluent [OF this trancl_into_rtrancl [OF m(1)] trancl_into_rtrancl [OF m(2)]]
      have "(n, i) \<in> ?R\<^sup>* \<or> (i, n) \<in> ?R\<^sup>*" .
      moreover have "(n, i) \<notin> ?R\<^sup>*" using fresh_cycle pn by (auto dest: rtrancl_trans)
      moreover have "(i, n) \<notin> ?R\<^sup>*"
        using no_parent_step [OF free, of n] pn fresh_cycle by (auto simp: rtrancl_eq_or_trancl)
      ultimately show False by blast
    qed
    ultimately show ?thesis by (auto simp: below_def)
  qed
  have irrefl: "i \<notin> below tree i" using no_parent_step [OF free] by (simp add: below_def)
  have total: "total tree' n = total tree n +
      (if (p, n) \<in> ?R\<^sup>* then unat (own (node_entry tree i)) + total tree i else 0)"
  proof (cases "(p, n) \<in> ?R\<^sup>*")
    case True
    have "total tree' n = (\<Sum>m\<in>below tree n. unat (own (node_entry tree m)))
        + (\<Sum>m\<in>insert i (below tree i). unat (own (node_entry tree m)))"
      using apart [OF True] finite_below [OF ok] True
      by (simp only: total_def below' own' if_True) (rule sum.union_disjoint, simp_all)
    then show ?thesis using irrefl finite_below [OF ok] True by (simp add: total_def)
  qed (simp add: total_def below' own')
  have old: "unat (desc (node_entry ?t n)) = node_cap (total tree n)"
    using totals by (simp add: totals_ok_def reparent)
  have passed: "unat (pick a b c) = node_cap (unat (own (node_entry tree i)) + total tree i)"
    using totals node_cap_add [OF node_cap_word, of "desc (node_entry tree i)" "total tree i"]
    by (simp add: whole totals_ok_def)
  show "unat (desc (node_entry tree' n)) = node_cap (total tree' n)"
    using old node_cap_add [OF old passed]
    by (simp add: entry total desc_add above)
qed

text \<open>
  Removing what is below \<open>i\<close> after taking its whole size off the ancestors, when no total
  has reached the cap.
\<close>

lemma totals_remove:
  assumes ok: "parents_ok tree" and totals: "totals_ok tree"
    and small: "\<And>n. unat (own (node_entry tree n)) + total tree n < 2 ^ 64"
    and whole: "pick a b c = saturating_add (own (node_entry tree i)) (desc (node_entry tree i))"
    and upd: "updates_ancestors (\<lambda>e. sub_from_descendants e a b c) i tree t"
    and nodes: "dt_nodes tree' = (\<lambda>n. if n = i \<or> n \<in> below tree i then None else dt_nodes t n)"
  shows "totals_ok tree'"
  unfolding totals_ok_def
proof
  fix n
  let ?D = "insert i (below tree i)"
  have keep: "dn_parent (sub_from_descendants e a b c) = dn_parent e" for e by (simp add: sub_from_descendants_def)
  note entry = updates_ancestors_entry [OF upd] and parents = updates_ancestors_parents [OF upd keep]
  have exact: "unat (desc (node_entry tree m)) = total tree m" for m
    using totals small [of m] by (simp add: totals_ok_def node_cap_def)
  have passed: "unat (pick a b c) = unat (own (node_entry tree i)) + total tree i"
    using small [of i] by (simp add: whole arith_word exact)
  have kept: "node_entry tree' m = (if m \<in> ?D then DiskUsageNode_new m else node_entry t m)" for m
    using nodes by (simp add: node_entry_def)
  have rel': "(m, p) \<in> parent_rel tree' \<longleftrightarrow> m \<notin> ?D \<and> (m, p) \<in> parent_rel tree" for m p
    using nodes parents(1) by (auto simp: parent_rel_def parent_of_def fun_eq_iff split: if_splits)
  have down: "m \<in> ?D" if "(m, p) \<in> (parent_rel tree)\<^sup>+" "p \<in> ?D" for m p
    using that trancl_trans [OF that(1), of i] by (auto simp: below_def)
  have below': "below tree' n = (if n \<in> ?D then {} else below tree n - ?D)"
  proof -
    have up: "(m, n) \<in> (parent_rel tree)\<^sup>+ \<and> m \<notin> ?D" if "(m, n) \<in> (parent_rel tree')\<^sup>+" for m
      using that
    proof (induction rule: converse_trancl_induct)
      case (base y)
      then show ?case by (auto simp: rel')
    next
      case (step y z)
      then show ?case by (auto simp: rel' intro: trancl_into_trancl2)
    qed
    have path: "n \<notin> ?D \<longrightarrow> m \<notin> ?D \<longrightarrow> (m, n) \<in> (parent_rel tree')\<^sup>+" if "(m, n) \<in> (parent_rel tree)\<^sup>+" for m
      using that
    proof (induction rule: converse_trancl_induct)
      case (base y)
      then show ?case by (auto simp: rel')
    next
      case (step y z)
      show ?case
      proof (intro impI)
        assume n: "n \<notin> ?D" and y: "y \<notin> ?D"
        then have e: "(y, z) \<in> parent_rel tree'" using step(1) by (simp add: rel')
        have "z \<notin> ?D" using y step(1) down [OF r_into_trancl [OF step(1)]] by blast
        with step n e show "(y, n) \<in> (parent_rel tree')\<^sup>+" by (meson trancl_into_trancl2)
      qed
    qed
    show ?thesis
    proof (cases "n \<in> ?D")
      case True
      then have "m \<notin> below tree' n" for m using up [of m] down [of m n] by (auto simp: below_def)
      then show ?thesis using True by auto
    next
      case False
      then show ?thesis using up path by (auto simp: below_def)
    qed
  qed
  have own': "own (node_entry tree' m) = own (node_entry tree m)" if "m \<notin> ?D" for m
    using that by (simp add: kept entry own_sub)
  show "unat (desc (node_entry tree' n)) = node_cap (total tree' n)"
  proof (cases "n \<in> ?D")
    case True
    then show ?thesis by (simp add: kept fresh total_def below' node_cap_def)
  next
    case False
    have total': "total tree' n = (\<Sum>m\<in>below tree n - ?D. unat (own (node_entry tree m)))"
      using False own' by (simp add: total_def below')
    show ?thesis
    proof (cases "(i, n) \<in> (parent_rel tree)\<^sup>+")
      case True
      then have sub: "?D \<subseteq> below tree n" by (auto simp: below_def)
      have irrefl: "i \<notin> below tree i" using ok by (simp add: below_def parents_ok_def acyclic_def)
      have "total tree n = total tree' n + (\<Sum>m\<in>?D. unat (own (node_entry tree m)))"
        unfolding total' unfolding total_def by (rule sum.subset_diff [OF sub finite_below [OF ok]])
      then have "total tree n = total tree' n + unat (pick a b c)"
        using irrefl finite_below [OF ok] by (simp add: passed total_def)
      then show ?thesis
        using False True small [of n] exact [of n] by (simp add: kept entry desc_sub arith_word node_cap_def)
    next
      case apart: False
      have "m \<notin> ?D" if m: "(m, n) \<in> (parent_rel tree)\<^sup>+" for m
      proof
        assume "m \<in> ?D"
        then consider "m = i" | "(m, i) \<in> (parent_rel tree)\<^sup>+" by (auto simp: below_def)
        then show False
        proof cases
          case 1
          with m apart show False by simp
        next
          case 2
          have sv: "single_valued (parent_rel tree)" by (auto simp: parent_rel_def single_valued_def)
          from single_valued_confluent [OF this trancl_into_rtrancl [OF m] trancl_into_rtrancl [OF 2]]
          show False using apart False by (auto simp: rtrancl_eq_or_trancl below_def)
        qed
      qed
      then have "below tree n - ?D = below tree n" by (auto simp: below_def)
      then have "total tree' n = total tree n" by (simp only: total') (simp add: total_def)
      then show ?thesis using False apart exact [of n] small [of n] by (simp add: kept entry node_cap_def)
    qed
  qed
qed

end

interpretation apparent: size_field dn_size_bytes dn_descendant_size_bytes "\<lambda>a b c. a"
  by unfold_locales (simp_all add: add_to_descendants_def sub_from_descendants_def DiskUsageNode_new_def)

interpretation allocated: size_field dn_allocated_bytes dn_descendant_allocated_bytes "\<lambda>a b c. b"
  by unfold_locales (simp_all add: add_to_descendants_def sub_from_descendants_def DiskUsageNode_new_def)

interpretation effective: size_field effective_of dn_descendant_effective_allocated_bytes "\<lambda>a b c. c"
  by unfold_locales (simp_all add: add_to_descendants_def sub_from_descendants_def DiskUsageNode_new_def effective_of_def)


section \<open>The invariant of a tree\<close>

definition links_ok :: "du_tree \<Rightarrow> bool" where
  "links_ok tree \<longleftrightarrow> (\<forall>m p. parent_of tree m = Some p \<longrightarrow>
     m \<in> set (container_members tree p) \<and> dn_kind (node_entry tree p) = Container)"

definition du_inv :: "du_tree \<Rightarrow> bool" where
  "du_inv tree \<longleftrightarrow> parents_ok tree \<and> links_ok tree \<and> apparent.totals_ok tree \<and> allocated.totals_ok tree"

lemma du_inv_put:
  assumes "du_inv tree" and "dn_parent e = parent_of tree i"
    and "dn_size_bytes e = dn_size_bytes (node_entry tree i)" "dn_allocated_bytes e = dn_allocated_bytes (node_entry tree i)"
    and "dn_descendant_size_bytes e = dn_descendant_size_bytes (node_entry tree i)"
    and "dn_descendant_allocated_bytes e = dn_descendant_allocated_bytes (node_entry tree i)"
    and "dn_kind e = Container \<or> (\<forall>m. parent_of tree m \<noteq> Some i)"
  shows "du_inv (put_node tree i e)"
proof -
  have "parent_of (put_node tree i e) m = parent_of tree m" for m using assms(2) by simp
  then have "links_ok (put_node tree i e)"
    using assms(1,7) by (auto simp: du_inv_def links_ok_def container_members_def)
  then show ?thesis
    using assms parents_ok_put apparent.totals_put allocated.totals_put by (simp add: du_inv_def)
qed

lemma put_containers_simps [simp]:
  "parent_of (tree\<lparr>dt_containers := cs\<rparr>) = parent_of tree" "node_entry (tree\<lparr>dt_containers := cs\<rparr>) = node_entry tree"
  "parent_rel (tree\<lparr>dt_containers := cs\<rparr>) = parent_rel tree"
  by (auto simp: parent_of_def node_entry_def parent_rel_def)

lemma du_inv_containers:
  assumes "du_inv tree" and "\<And>c. set (container_members tree c) \<subseteq> set (container_members (tree\<lparr>dt_containers := cs\<rparr>) c)"
  shows "du_inv (tree\<lparr>dt_containers := cs\<rparr>)"
proof -
  have "links_ok (tree\<lparr>dt_containers := cs\<rparr>)" using assms unfolding du_inv_def links_ok_def by auto
  then show ?thesis
    using assms(1) by (simp add: du_inv_def parents_ok_def apparent.totals_ok_def allocated.totals_ok_def
        apparent.total_def allocated.total_def below_def)
qed

text \<open>The sizes of the nodes are those of another tree, except for one entry.\<close>

definition sizes_as :: "du_tree \<Rightarrow> node_id \<Rightarrow> du_node \<Rightarrow> du_tree \<Rightarrow> bool" where
  "sizes_as tree i e tree' \<longleftrightarrow> (\<forall>m.
     dn_size_bytes (node_entry tree' m) = dn_size_bytes (if m = i then e else node_entry tree m) \<and>
     dn_allocated_bytes (node_entry tree' m) = dn_allocated_bytes (if m = i then e else node_entry tree m))"

lemma sizes_as_refl [simp]: "sizes_as tree i (node_entry tree i) tree"
  by (simp add: sizes_as_def)

lemma sizes_as_loop:
  assumes "updates_ancestors g i (put_node tree i e) tree'"
    and "\<And>e. dn_size_bytes (g e) = dn_size_bytes e" and "\<And>e. dn_allocated_bytes (g e) = dn_allocated_bytes e"
  shows "sizes_as tree i e tree'"
  using assms(2,3) by (simp add: sizes_as_def updates_ancestors_entry [OF assms(1)])

lemma sizes_as_then:
  assumes "sizes_as tree i e t" and "updates_ancestors g j t tree'"
    and "\<And>e. dn_size_bytes (g e) = dn_size_bytes e" and "\<And>e. dn_allocated_bytes (g e) = dn_allocated_bytes e"
  shows "sizes_as tree i e tree'"
  using assms(1,3,4) by (simp add: sizes_as_def updates_ancestors_entry [OF assms(2)])

lemma add_loop_links:
  assumes "updates_ancestors g i tree tree'" and "\<And>e. dn_parent (g e) = dn_parent e" and "\<And>e. dn_kind (g e) = dn_kind e"
    and "links_ok tree"
  shows "links_ok tree'"
  using assms(3,4) updates_ancestors_parents [OF assms(1,2)] updates_ancestors_entry [OF assms(1)] assms(1)
  by (simp add: links_ok_def container_members_def updates_ancestors_def)

lemma register_parent_inv:
  assumes inv: "du_inv tree" and c: "c \<in> dom (dt_nodes tree)" "dn_kind (node_entry tree c) = Container"
    and member: "i \<in> set (container_members tree c)"
  shows "\<exists>tree'. register_parent tree c i = Some tree' \<and> du_inv tree' \<and> dt_containers tree' = dt_containers tree \<and>
    (effective.totals_ok tree \<longrightarrow> effective.totals_ok tree') \<and> sizes_as tree i (node_entry tree i) tree'"
proof -
  from inv have ok: "parents_ok tree" and links: "links_ok tree" by (simp_all add: du_inv_def)
  let ?R = "parent_rel tree"
  let ?check = "if (case dt_nodes tree i of Some entry \<Rightarrow> dn_kind entry = Container | None \<Rightarrow> False)
        then parent_chain_contains tree c i else Some False"
  have check: "?check = Some ((c, i) \<in> ?R\<^sup>*)"
  proof (cases "case dt_nodes tree i of Some entry \<Rightarrow> dn_kind entry = Container | None \<Rightarrow> False")
    case True
    then show ?thesis by (simp add: parent_chain_contains_spec [OF ok])
  next
    case False
    have "c \<noteq> i" using False c by (auto simp: node_entry_def split: option.splits)
    moreover have "(m, i) \<notin> ?R" for m
      using False ok links by (auto simp: parent_rel_def parents_ok_def links_ok_def node_entry_def split: option.splits)
    ultimately have "(c, i) \<notin> ?R\<^sup>*" by (auto elim: rtranclE)
    with False show ?thesis by simp
  qed
  show ?thesis
  proof (cases "(c, i) \<in> ?R\<^sup>* \<or> parent_of tree i \<noteq> None")
    case True
    then show ?thesis using inv check by (auto simp: register_parent_def)
  next
    case False
    let ?t = "put_node tree i ((node_entry tree i)\<lparr>dn_parent := Some c\<rparr>)"
    let ?e = "(node_entry tree i)\<lparr>dn_parent := Some c\<rparr>"
    let ?a = "saturating_add (dn_size_bytes ?e) (dn_descendant_size_bytes ?e)"
    let ?b = "saturating_add (dn_allocated_bytes ?e) (dn_descendant_allocated_bytes ?e)"
    let ?c = "saturating_add (effective_of ?e) (dn_descendant_effective_allocated_bytes ?e)"
    have rel: "parent_rel ?t = insert (i, c) ?R" using False by (auto simp: parent_rel_def split: if_splits)
    have okt: "parents_ok ?t"
      using ok False c rel by (auto simp: parents_ok_def acyclic_insert split: if_splits)
    have linkst: "links_ok ?t"
      using links member c(2) by (auto simp: links_ok_def container_members_def)
    from add_loop.run_spec [OF okt] obtain tree' where
        run: "propagate_descendant_add ?t i ?a ?b ?c = Some tree'"
      and upd: "updates_ancestors (\<lambda>e. add_to_descendants e ?a ?b ?c) i ?t tree'" by blast
    have "register_parent tree c i = Some tree'"
      using False check run unfolding register_parent_def by (simp add: Let_def)
    moreover have "du_inv tree'"
      using inv False add_loop.run_ok [OF upd okt] add_loop_links [OF upd _ _ linkst]
        apparent.totals_link [OF ok _ _ _ _ upd] allocated.totals_link [OF ok _ _ _ _ upd]
      by (simp add: du_inv_def add_to_descendants_def)
    moreover have "dt_containers tree' = dt_containers tree" using upd by (simp add: updates_ancestors_def)
    moreover have "effective.totals_ok tree \<longrightarrow> effective.totals_ok tree'"
      using False effective.totals_link [OF ok _ _ _ _ upd] by (simp add: effective_of_def)
    moreover have "sizes_as tree i (node_entry tree i) tree'"
      by (simp add: sizes_as_def updates_ancestors_entry [OF upd] add_to_descendants_def)
    ultimately show ?thesis by blast
  qed
qed


lemma saturating_delta: "unat (saturating_add a b) = unat a + unat (saturating_add a b - a)" for a b :: u64
proof -
  have "a \<le> saturating_add a b" using unsigned_less [of a, where ?'a = nat] by (auto simp: word_le_nat_alt arith_word)
  then show ?thesis by (simp add: unat_minus_le word_le_nat_alt)
qed

lemma du_inv_grow:
  assumes inv: "du_inv tree" and e: "dn_parent e = parent_of tree i" "dn_kind e = dn_kind (node_entry tree i)"
      "dn_descendant_size_bytes e = dn_descendant_size_bytes (node_entry tree i)"
      "dn_descendant_allocated_bytes e = dn_descendant_allocated_bytes (node_entry tree i)"
    and grown: "unat (dn_size_bytes e) = unat (dn_size_bytes (node_entry tree i)) + unat a"
      "unat (dn_allocated_bytes e) = unat (dn_allocated_bytes (node_entry tree i)) + unat b"
  shows "\<exists>tree'. propagate_descendant_add (put_node tree i e) i a b c = Some tree' \<and> du_inv tree' \<and>
    dt_containers tree' = dt_containers tree \<and> parent_of tree' = parent_of tree \<and> sizes_as tree i e tree' \<and>
    updates_ancestors (\<lambda>e. add_to_descendants e a b c) i (put_node tree i e) tree'"
proof -
  from inv have ok: "parents_ok tree" by (simp add: du_inv_def)
  have okp: "parents_ok (put_node tree i e)" using parents_ok_put [OF ok e(1)] .
  have links: "links_ok (put_node tree i e)"
    using inv e(1,2) by (auto simp: du_inv_def links_ok_def container_members_def split: if_splits)
  from add_loop.run_spec [OF okp] obtain tree' where
      run: "propagate_descendant_add (put_node tree i e) i a b c = Some tree'"
    and upd: "updates_ancestors (\<lambda>e. add_to_descendants e a b c) i (put_node tree i e) tree'" by blast
  have "du_inv tree'"
    using inv add_loop.run_ok [OF upd okp] add_loop_links [OF upd _ _ links]
      apparent.totals_grow [OF ok _ e(1,3) _ upd] allocated.totals_grow [OF ok _ e(1,4) _ upd] grown
    by (simp add: du_inv_def add_to_descendants_def)
  moreover have "parent_of tree' = parent_of tree"
    using updates_ancestors_parents(1) [OF upd] e(1) by (auto simp: add_to_descendants_def fun_eq_iff)
  moreover have "sizes_as tree i e tree'" by (rule sizes_as_loop [OF upd]) (simp_all add: add_to_descendants_def)
  moreover have "dt_containers tree' = dt_containers tree" using upd by (simp add: updates_ancestors_def)
  ultimately show ?thesis using run upd by blast
qed

lemma add_size_inv:
  assumes inv: "du_inv tree"
  shows "\<exists>tree'. add_size tree i n = Some tree' \<and> du_inv tree' \<and>
    dt_containers tree' = dt_containers tree \<and> parent_of tree' = parent_of tree \<and>
    (effective.totals_ok tree \<longrightarrow> effective.totals_ok tree') \<and>
    sizes_as tree i ((node_entry tree i)\<lparr>dn_size_bytes := saturating_add (dn_size_bytes (node_entry tree i)) n\<rparr>) tree'"
proof -
  let ?e = "node_entry tree i"
  let ?f = "?e\<lparr>dn_size_bytes := saturating_add (dn_size_bytes ?e) n\<rparr>"
  let ?a = "saturating_add (dn_size_bytes ?e) n - dn_size_bytes ?e"
  let ?c = "if dn_allocated_bytes ?e = 0 then ?a else 0"
  from inv have ok: "parents_ok tree" by (simp add: du_inv_def)
  have "\<exists>tree'. propagate_descendant_add (put_node tree i ?f) i ?a 0 ?c = Some tree' \<and> du_inv tree' \<and>
      dt_containers tree' = dt_containers tree \<and> parent_of tree' = parent_of tree \<and> sizes_as tree i ?f tree' \<and>
      updates_ancestors (\<lambda>e. add_to_descendants e ?a 0 ?c) i (put_node tree i ?f) tree'"
    by (rule du_inv_grow [OF inv]) (simp_all add: saturating_delta [symmetric])
  then obtain tree' where t: "propagate_descendant_add (put_node tree i ?f) i ?a 0 ?c = Some tree'" "du_inv tree'"
      "dt_containers tree' = dt_containers tree" "parent_of tree' = parent_of tree" "sizes_as tree i ?f tree'"
    and upd: "updates_ancestors (\<lambda>e. add_to_descendants e ?a 0 ?c) i (put_node tree i ?f) tree'" by blast
  have eff: "effective.totals_ok tree'" if "effective.totals_ok tree"
    by (rule effective.totals_grow [OF ok that _ _ _ upd])
      (use saturating_delta [of "dn_size_bytes ?e" n] in \<open>auto simp: effective_of_def word_gt_0\<close>)
  have "add_size tree i n = Some tree'" using t(1) by (simp add: add_size_def Let_def)
  with t eff show ?thesis by blast
qed

lemma add_allocated_inv:
  assumes inv: "du_inv tree"
  shows "\<exists>tree'. add_allocated tree i n = Some tree' \<and> du_inv tree' \<and>
    dt_containers tree' = dt_containers tree \<and> parent_of tree' = parent_of tree \<and>
    (effective.totals_ok tree \<and> (\<forall>n. effective.total tree n < 2 ^ 64) \<longrightarrow> effective.totals_ok tree') \<and>
    sizes_as tree i ((node_entry tree i)\<lparr>dn_allocated_bytes := saturating_add (dn_allocated_bytes (node_entry tree i)) n\<rparr>) tree'"
proof -
  let ?e = "node_entry tree i"
  let ?f = "?e\<lparr>dn_allocated_bytes := saturating_add (dn_allocated_bytes ?e) n\<rparr>"
  let ?b = "saturating_add (dn_allocated_bytes ?e) n - dn_allocated_bytes ?e"
  from inv have okt: "parents_ok tree" by (simp add: du_inv_def)
  have grow: "\<exists>tree'. propagate_descendant_add (put_node tree i ?f) i 0 ?b c = Some tree' \<and> du_inv tree' \<and>
      dt_containers tree' = dt_containers tree \<and> parent_of tree' = parent_of tree \<and> sizes_as tree i ?f tree' \<and>
      updates_ancestors (\<lambda>e. add_to_descendants e 0 ?b c) i (put_node tree i ?f) tree'" for c
    by (rule du_inv_grow [OF inv]) (simp_all add: saturating_delta [symmetric])
  have diff: "unat x = unat y + unat (x - y)" if "y \<le> x" for x y :: u64
    using that by (simp add: unat_minus_le word_le_nat_alt)
  show ?thesis
  proof (cases "effective_of ?e \<le> effective_of ?f")
    case True
    let ?c = "effective_of ?f - effective_of ?e"
    from grow [of ?c] obtain tree' where t: "propagate_descendant_add (put_node tree i ?f) i 0 ?b ?c = Some tree'" "du_inv tree'"
        "dt_containers tree' = dt_containers tree" "parent_of tree' = parent_of tree" "sizes_as tree i ?f tree'"
      and upd: "updates_ancestors (\<lambda>e. add_to_descendants e 0 ?b ?c) i (put_node tree i ?f) tree'" by blast
    have eff: "effective.totals_ok tree'" if "effective.totals_ok tree"
      by (rule effective.totals_grow [OF okt that _ _ _ upd]) (use diff [OF True] in simp_all)
    have "add_allocated tree i n = Some tree'" using True t(1) by (simp add: add_allocated_def Let_def)
    with t eff show ?thesis by blast
  next
    case False
    let ?d = "effective_of ?e - effective_of ?f"
    from grow [of 0] obtain t where t: "propagate_descendant_add (put_node tree i ?f) i 0 ?b 0 = Some t" "du_inv t"
        "dt_containers t = dt_containers tree" "parent_of t = parent_of tree" "sizes_as tree i ?f t"
      and updt: "updates_ancestors (\<lambda>e. add_to_descendants e 0 ?b 0) i (put_node tree i ?f) t" by blast
    then have ok: "parents_ok t" by (simp add: du_inv_def)
    from effective_sub_loop.run_spec [OF ok] obtain tree' where
        run: "propagate_effective_allocated_sub t i ?d = Some tree'"
      and upd: "updates_ancestors (\<lambda>e. sub_effective e ?d) i t tree'" by blast
    have "du_inv tree'"
      using t(2) effective_sub_loop.run_ok [OF upd ok] add_loop_links [OF upd]
        apparent.totals_untouched [OF _ upd] allocated.totals_untouched [OF _ upd]
      by (simp add: du_inv_def sub_effective_def)
    moreover have "effective.totals_ok tree'" if "effective.totals_ok tree" "\<forall>n. effective.total tree n < 2 ^ 64"
      by (rule effective.totals_shrink [OF okt that(1) _ _ _ _ updt refl upd, of ?d])
        (use that(2) False diff [of "effective_of ?f" "effective_of ?e"] in \<open>simp_all add: sub_effective_def effective_of_def\<close>)
    moreover have "parent_of tree' = parent_of t" "dt_containers tree' = dt_containers t"
      using effective_sub_loop.run_parents(1) [OF upd] upd by (simp_all add: updates_ancestors_def)
    moreover have "sizes_as tree i ?f tree'" by (rule sizes_as_then [OF t(5) upd]) (simp_all add: sub_effective_def)
    moreover have "add_allocated tree i n = Some tree'" using False t(1) run by (simp add: add_allocated_def Let_def)
    ultimately show ?thesis using t(3,4) by auto
  qed
qed

lemma du_inv_new: "du_inv (DiskUsageTree_new root)"
proof -
  have "parent_of (DiskUsageTree_new root) m = None" for m
    by (simp add: parent_of_def DiskUsageTree_new_def DiskUsageNode_new_def)
  then show ?thesis
    by (auto simp: du_inv_def parents_ok_def links_ok_def parent_rel_def acyclic_def apparent.totals_ok_def
        allocated.totals_ok_def apparent.total_def allocated.total_def below_def node_cap_def
        DiskUsageTree_new_def node_entry_def DiskUsageNode_new_def)
qed

text \<open>A fact that does not turn the parent of a node into a file.\<close>

definition fact_ok :: "du_tree \<Rightarrow> du_fact \<Rightarrow> bool" where
  "fact_ok tree f = (case f of
     NodeDiscovered n kind _ _ _ _ \<Rightarrow> kind = Container \<or> (\<forall>m. parent_of tree m \<noteq> Some n) | _ \<Rightarrow> True)"

lemma du_inv_scan_state:
  assumes "du_inv tree"
  shows "du_inv (set_scan_state tree i state)"
  unfolding set_scan_state_def
  by (rule du_inv_put [OF assms]) (use assms in \<open>auto simp: du_inv_def links_ok_def\<close>)

text \<open>What a fact announces of the sizes of a node, and all that a stream announces.\<close>

definition fact_size :: "du_fact \<Rightarrow> node_id \<Rightarrow> nat" where
  "fact_size f m = (case f of NodeSizeAdded n bytes \<Rightarrow> if n = m then unat bytes else 0 | _ \<Rightarrow> 0)"

definition fact_allocated :: "du_fact \<Rightarrow> node_id \<Rightarrow> nat" where
  "fact_allocated f m = (case f of NodeAllocatedAdded n bytes \<Rightarrow> if n = m then unat bytes else 0 | _ \<Rightarrow> 0)"

definition announced_size :: "du_fact list \<Rightarrow> node_id \<Rightarrow> nat" where
  "announced_size facts m = (\<Sum>f\<leftarrow>facts. fact_size f m)"

definition announced_allocated :: "du_fact list \<Rightarrow> node_id \<Rightarrow> nat" where
  "announced_allocated facts m = (\<Sum>f\<leftarrow>facts. fact_allocated f m)"

definition announced_bytes :: "du_fact list \<Rightarrow> nat" where
  "announced_bytes facts =
     (\<Sum>f\<leftarrow>facts. case f of NodeSizeAdded n bytes \<Rightarrow> unat bytes | NodeAllocatedAdded n bytes \<Rightarrow> unat bytes | _ \<Rightarrow> 0)"

definition sizes_after :: "du_fact \<Rightarrow> du_tree \<Rightarrow> du_tree \<Rightarrow> bool" where
  "sizes_after f tree tree' \<longleftrightarrow> (\<forall>m.
     unat (dn_size_bytes (node_entry tree' m)) = node_cap (unat (dn_size_bytes (node_entry tree m)) + fact_size f m) \<and>
     unat (dn_allocated_bytes (node_entry tree' m)) = node_cap (unat (dn_allocated_bytes (node_entry tree m)) + fact_allocated f m))"

lemma saturating_cap: "unat (saturating_add a b) = node_cap (unat a + unat b)" for a b :: u64
  by (rule node_cap_add) (rule node_cap_word)+

lemma node_cap_again [simp]: "node_cap (unat (w :: u64)) = unat w" "node_cap (node_cap a + b) = node_cap (a + b)"
  by (rule node_cap_word [symmetric]) (simp add: node_cap_def)

lemma effective_put: "effective.totals_ok tree \<Longrightarrow> dn_parent e = parent_of tree i \<Longrightarrow>
    effective_of e = effective_of (node_entry tree i) \<Longrightarrow>
    dn_descendant_effective_allocated_bytes e = dn_descendant_effective_allocated_bytes (node_entry tree i) \<Longrightarrow>
    effective.totals_ok (put_node tree i e)"
  by (rule effective.totals_put)

lemma effective_containers: "effective.totals_ok (tree\<lparr>dt_containers := cs\<rparr>) = effective.totals_ok tree"
  by (simp add: effective.totals_ok_def effective.total_def below_def)

lemma apply_fact_inv:
  assumes inv: "du_inv tree" and ok: "fact_ok tree f"
  shows "\<exists>tree'. apply_fact tree f = Some tree' \<and> du_inv tree' \<and>
    (effective.totals_ok tree \<and> (\<forall>n. effective.total tree n < 2 ^ 64) \<longrightarrow> effective.totals_ok tree') \<and>
    sizes_after f tree tree'"
proof (cases f)
  case (NodeDiscovered n kind category mtime name is_cloud)
  let ?t = "ensure_node_with_meta tree n kind category mtime name is_cloud"
  have "du_inv ?t"
    using ok by (auto simp: NodeDiscovered fact_ok_def ensure_node_with_meta_def Let_def intro!: du_inv_put [OF inv])
  moreover have "effective.totals_ok tree \<longrightarrow> effective.totals_ok ?t"
    by (auto simp: ensure_node_with_meta_def Let_def effective_of_def intro!: effective_put)
  moreover have "sizes_after f tree ?t"
    by (simp add: NodeDiscovered sizes_after_def fact_size_def fact_allocated_def ensure_node_with_meta_def Let_def)
  ultimately show ?thesis by (simp add: NodeDiscovered)
next
  case (NodeLinked c n)
  let ?t = "put_node tree c ((node_entry tree c)\<lparr>dn_kind := Container\<rparr>)"
  let ?u = "?t\<lparr>dt_containers := (dt_containers ?t)(c \<mapsto> container_members ?t c @ [n])\<rparr>"
  have inv1: "du_inv ?t" by (rule du_inv_put [OF inv]) simp_all
  have inv2: "du_inv ?u" by (rule du_inv_containers [OF inv1]) (auto simp: container_members_def)
  have eff: "effective.totals_ok ?u" if "effective.totals_ok tree"
    unfolding effective_containers by (rule effective_put [OF that]) (simp_all add: effective_of_def)
  have "\<exists>tree'. register_parent ?u c n = Some tree' \<and> du_inv tree' \<and> dt_containers tree' = dt_containers ?u \<and>
      (effective.totals_ok ?u \<longrightarrow> effective.totals_ok tree') \<and> sizes_as ?u n (node_entry ?u n) tree'"
    by (rule register_parent_inv [OF inv2]) (simp_all add: container_members_def)
  then obtain tree' where r: "register_parent ?u c n = Some tree'" "du_inv tree'"
      "effective.totals_ok ?u \<longrightarrow> effective.totals_ok tree'" "sizes_as ?u n (node_entry ?u n) tree'" by blast
  have "sizes_after f tree tree'"
    using r(4) by (simp add: NodeLinked sizes_after_def sizes_as_def fact_size_def fact_allocated_def)
  moreover have "apply_fact tree f = Some tree'"
    using r(1) by (simp add: NodeLinked add_link_unchecked_def container_members_def)
  ultimately show ?thesis using r(2,3) eff by blast
next
  case (NodeSizeAdded n size)
  have "sizes_as tree n ((node_entry tree n)\<lparr>dn_size_bytes := saturating_add (dn_size_bytes (node_entry tree n)) size\<rparr>) tree'
      \<Longrightarrow> sizes_after f tree tree'" for tree'
    by (auto simp: NodeSizeAdded sizes_after_def sizes_as_def fact_size_def fact_allocated_def saturating_cap)
  with add_size_inv [OF inv, of n size] show ?thesis by (simp add: NodeSizeAdded) blast
next
  case (NodeAllocatedAdded n size)
  have "sizes_as tree n ((node_entry tree n)\<lparr>dn_allocated_bytes := saturating_add (dn_allocated_bytes (node_entry tree n)) size\<rparr>) tree'
      \<Longrightarrow> sizes_after f tree tree'" for tree'
    by (auto simp: NodeAllocatedAdded sizes_after_def sizes_as_def fact_size_def fact_allocated_def saturating_cap)
  with add_allocated_inv [OF inv, of n size] show ?thesis by (simp add: NodeAllocatedAdded) blast
next
  case (ContainerScanStarted c)
  then show ?thesis using du_inv_scan_state [OF inv]
    by (simp add: sizes_after_def fact_size_def fact_allocated_def set_scan_state_def effective_put effective_of_def)
next
  case (ContainerScanCompleted c)
  then show ?thesis using du_inv_scan_state [OF inv]
    by (simp add: sizes_after_def fact_size_def fact_allocated_def set_scan_state_def effective_put effective_of_def)
qed

text \<open>Streams in which no container of a link is announced as a file.\<close>

definition link_containers :: "du_fact list \<Rightarrow> node_id set" where
  "link_containers facts = {c. \<exists>n. NodeLinked c n \<in> set facts}"

definition stream_ok :: "du_fact list \<Rightarrow> bool" where
  "stream_ok facts \<longleftrightarrow> (\<forall>n category mtime name is_cloud.
     NodeDiscovered n File category mtime name is_cloud \<in> set facts \<longrightarrow> n \<notin> link_containers facts)"

lemma apply_fact_containers:
  assumes inv: "du_inv tree" and run: "apply_fact tree f = Some tree'"
  shows "dom (dt_containers tree') \<subseteq> dom (dt_containers tree) \<union> link_containers [f]"
proof (cases f)
  case (NodeLinked c n)
  let ?t = "put_node tree c ((node_entry tree c)\<lparr>dn_kind := Container\<rparr>)"
  let ?u = "?t\<lparr>dt_containers := (dt_containers ?t)(c \<mapsto> container_members ?t c @ [n])\<rparr>"
  have "du_inv ?t" by (rule du_inv_put [OF inv]) simp_all
  then have "du_inv ?u" by (rule du_inv_containers) (auto simp: container_members_def)
  from register_parent_inv [OF this, of c n] run NodeLinked
  have "dt_containers tree' = (dt_containers tree)(c \<mapsto> container_members tree c @ [n])"
    by (auto simp: add_link_unchecked_def container_members_def)
  then show ?thesis by (auto simp: NodeLinked link_containers_def)
next
  case (NodeSizeAdded n size)
  then show ?thesis using run add_size_inv [OF inv, of n size] by auto
next
  case (NodeAllocatedAdded n size)
  then show ?thesis using run add_allocated_inv [OF inv, of n size] by auto
qed (use run in \<open>auto simp: ensure_node_with_meta_def Let_def set_scan_state_def\<close>)

text \<open>The sizes of a set of nodes are no more than all that was announced.\<close>

lemma announced_bound:
  assumes "finite S"
  shows "(\<Sum>m\<in>S. announced_size facts m + announced_allocated facts m) \<le> announced_bytes facts"
proof (induction facts)
  case Nil
  show ?case by (simp add: announced_size_def announced_allocated_def)
next
  case (Cons f facts)
  have "(\<Sum>m\<in>S. fact_size f m + fact_allocated f m) \<le>
      (case f of NodeSizeAdded n bytes \<Rightarrow> unat bytes | NodeAllocatedAdded n bytes \<Rightarrow> unat bytes | _ \<Rightarrow> 0)"
    by (cases f) (simp_all add: fact_size_def fact_allocated_def sum.delta' [OF assms])
  moreover have "(\<Sum>m\<in>S. announced_size (f # facts) m + announced_allocated (f # facts) m) =
      (\<Sum>m\<in>S. fact_size f m + fact_allocated f m) + (\<Sum>m\<in>S. announced_size facts m + announced_allocated facts m)"
    unfolding announced_size_def announced_allocated_def by (simp add: sum.distrib)
  ultimately show ?case using Cons by (simp add: announced_bytes_def)
qed

definition sizes_of :: "du_fact list \<Rightarrow> du_tree \<Rightarrow> bool" where
  "sizes_of facts tree \<longleftrightarrow> (\<forall>m. unat (dn_size_bytes (node_entry tree m)) = node_cap (announced_size facts m) \<and>
     unat (dn_allocated_bytes (node_entry tree m)) = node_cap (announced_allocated facts m))"

lemma sizes_of_step: "sizes_of facts tree \<Longrightarrow> sizes_after f tree tree' \<Longrightarrow> sizes_of (facts @ [f]) tree'"
  by (simp add: sizes_of_def sizes_after_def announced_size_def announced_allocated_def)

lemma node_bound:
  assumes "sizes_of facts tree"
  shows "unat (dn_size_bytes (node_entry tree m)) \<le> announced_size facts m"
    and "unat (dn_allocated_bytes (node_entry tree m)) \<le> announced_allocated facts m"
    and "unat (effective_of (node_entry tree m)) \<le> announced_size facts m + announced_allocated facts m"
  using assms by (simp_all add: sizes_of_def effective_of_def node_cap_def min_def)

lemma total_bound:
  assumes "parents_ok tree" and "sizes_of facts tree"
  shows "unat (dn_size_bytes (node_entry tree n)) + apparent.total tree n \<le> announced_bytes facts"
    and "unat (dn_allocated_bytes (node_entry tree n)) + allocated.total tree n \<le> announced_bytes facts"
    and "unat (effective_of (node_entry tree n)) + effective.total tree n \<le> announced_bytes facts"
proof -
  have fin: "finite (below tree n)" and fresh: "n \<notin> below tree n"
    using assms(1) finite_below by (auto simp: below_def parents_ok_def acyclic_def)
  let ?all = "\<lambda>m. announced_size facts m + announced_allocated facts m"
  have bound: "unat (g (node_entry tree n)) + (\<Sum>m\<in>below tree n. unat (g (node_entry tree m))) \<le> announced_bytes facts"
    if g: "\<And>m. unat (g (node_entry tree m)) \<le> ?all m" for g :: "du_node \<Rightarrow> u64"
  proof -
    have "unat (g (node_entry tree n)) + (\<Sum>m\<in>below tree n. unat (g (node_entry tree m))) =
        (\<Sum>m\<in>insert n (below tree n). unat (g (node_entry tree m)))" using fin fresh by simp
    also have "\<dots> \<le> (\<Sum>m\<in>insert n (below tree n). ?all m)" by (rule sum_mono) (rule g)
    also have "\<dots> \<le> announced_bytes facts" by (rule announced_bound) (use fin in simp)
    finally show ?thesis .
  qed
  note node = node_bound [OF assms(2)]
  show "unat (dn_size_bytes (node_entry tree n)) + apparent.total tree n \<le> announced_bytes facts"
    unfolding apparent.total_def by (rule bound) (rule trans_le_add1 [OF node(1)])
  show "unat (dn_allocated_bytes (node_entry tree n)) + allocated.total tree n \<le> announced_bytes facts"
    unfolding allocated.total_def by (rule bound) (rule trans_le_add2 [OF node(2)])
  show "unat (effective_of (node_entry tree n)) + effective.total tree n \<le> announced_bytes facts"
    unfolding effective.total_def by (rule bound) (rule node(3))
qed

text \<open>
  What holds after a prefix of a stream.  The effective totals go down as well as up, so they are
  exact as long as all that was announced fits into a \<open>u64\<close>.
\<close>

definition du_built :: "du_fact list \<Rightarrow> du_tree \<Rightarrow> bool" where
  "du_built facts tree \<longleftrightarrow> du_inv tree \<and> sizes_of facts tree \<and>
     (announced_bytes facts < 2 ^ 64 \<longrightarrow> effective.totals_ok tree)"

lemma du_built_new: "du_built [] (DiskUsageTree_new root)"
proof -
  have "node_entry (DiskUsageTree_new root) m = DiskUsageNode_new m" for m
    by (simp add: node_entry_def DiskUsageTree_new_def)
  then show ?thesis
    by (simp add: du_built_def du_inv_new sizes_of_def announced_size_def announced_allocated_def node_cap_def
        effective.totals_ok_def effective.total_def effective_of_def DiskUsageNode_new_def)
qed

lemma announced_bytes_append [simp]: "announced_bytes (fs @ gs) = announced_bytes fs + announced_bytes gs"
  by (simp add: announced_bytes_def)

lemma apply_facts_inv:
  assumes "du_built before tree" and "stream_ok (before @ facts)" and "dom (dt_containers tree) \<subseteq> link_containers before"
  shows "\<exists>tree'. apply_facts tree facts = Some tree' \<and> du_built (before @ facts) tree'"
  using assms
proof (induction facts arbitrary: tree before)
  case (Cons f facts)
  from Cons.prems(1) have inv: "du_inv tree" and sizes: "sizes_of before tree"
    and eff: "announced_bytes before < 2 ^ 64 \<longrightarrow> effective.totals_ok tree" by (simp_all add: du_built_def)
  have "fact_ok tree f"
  proof (cases f)
    case (NodeDiscovered n kind category mtime name is_cloud)
    have "parent_of tree m \<noteq> Some n" if "kind = File" for m
    proof
      assume "parent_of tree m = Some n"
      then have "m \<in> set (container_members tree n)" using inv by (simp add: du_inv_def links_ok_def)
      then have "n \<in> dom (dt_containers tree)" by (cases "dt_containers tree n") (auto simp: container_members_def)
      with Cons.prems(2,3) NodeDiscovered that show False by (auto simp: stream_ok_def link_containers_def)
    qed
    then show ?thesis by (cases kind) (simp_all add: fact_ok_def NodeDiscovered)
  qed (simp_all add: fact_ok_def)
  from apply_fact_inv [OF inv this] obtain t where t: "apply_fact tree f = Some t" "du_inv t" "sizes_after f tree t"
    and step: "effective.totals_ok tree \<and> (\<forall>n. effective.total tree n < 2 ^ 64) \<longrightarrow> effective.totals_ok t" by blast
  have "effective.total tree n < 2 ^ 64" if "announced_bytes (before @ [f]) < 2 ^ 64" for n
    using total_bound(3) [OF _ sizes, of n] inv that by (simp add: du_inv_def)
  then have "announced_bytes (before @ [f]) < 2 ^ 64 \<longrightarrow> effective.totals_ok t" using eff step by auto
  then have "du_built (before @ [f]) t" using t(2) sizes_of_step [OF sizes t(3)] by (simp add: du_built_def)
  moreover have "dom (dt_containers t) \<subseteq> link_containers (before @ [f])"
    using apply_fact_containers [OF inv t(1)] Cons.prems(3) by (auto simp: link_containers_def)
  ultimately show ?case using Cons.IH [of "before @ [f]" t] Cons.prems(2) t(1) by simp
qed simp

end
