(* ===== verification/DiskUsageProps.thy ===== *)
theory DiskUsageProps
  imports DiskUsageTree
begin

text \<open>
  Removal of a subtree, and the properties of \<open>model.rs\<close> and \<open>facts.rs\<close> over whole
  streams of facts.
\<close>

section \<open>Removing a subtree\<close>

text \<open>What is linked below a node through the containers.\<close>

definition member_rel :: "(node_id \<rightharpoonup> node_id list) \<Rightarrow> (node_id \<times> node_id) set" where
  "member_rel cs = {(c, m). \<exists>ms. cs c = Some ms \<and> m \<in> set ms}"

definition linked_below :: "(node_id \<rightharpoonup> node_id list) \<Rightarrow> node_id set \<Rightarrow> node_id set" where
  "linked_below cs S = (member_rel cs)\<^sup>* `` S"

lemma linked_below_empty [simp]: "linked_below cs {} = {}"
  by (simp add: linked_below_def)

lemma linked_below_leaf:
  assumes "cs n = None"
  shows "linked_below cs (insert n S) = insert n (linked_below cs S)"
proof -
  have "(n, x) \<in> (member_rel cs)\<^sup>* \<Longrightarrow> x = n" for x
    by (erule converse_rtranclE) (use assms in \<open>auto simp: member_rel_def\<close>)
  then show ?thesis by (auto simp: linked_below_def)
qed

lemma linked_below_expand:
  assumes "cs n = Some ms"
  shows "linked_below cs (insert n S) = insert n (linked_below (cs(n := None)) (set ms \<union> S))"
proof -
  let ?R = "member_rel cs" and ?Q = "member_rel (cs(n := None))"
  have sub: "?Q \<subseteq> ?R" by (auto simp: member_rel_def split: if_splits)
  have other: "(y, z) \<in> ?Q" if "(y, z) \<in> ?R" "y \<noteq> n" for y z using that by (auto simp: member_rel_def)
  have split: "x = n \<or> (s, x) \<in> ?Q\<^sup>* \<or> (\<exists>m\<in>set ms. (m, x) \<in> ?Q\<^sup>*)" if "(s, x) \<in> ?R\<^sup>*" for s x
    using that
  proof (induction rule: rtrancl_induct)
    case (step y z)
    show ?case
    proof (cases "y = n")
      case True
      with step(2) assms have "z \<in> set ms" by (auto simp: member_rel_def)
      then show ?thesis by blast
    next
      case False
      with step other show ?thesis by (meson rtrancl.rtrancl_into_rtrancl)
    qed
  qed simp
  show ?thesis
  proof
    have first: "(n, x) \<in> ?Q\<^sup>* \<Longrightarrow> x = n" for x
      by (erule converse_rtranclE) (auto simp: member_rel_def)
    show "linked_below cs (insert n S) \<subseteq> insert n (linked_below (cs(n := None)) (set ms \<union> S))"
      using split first unfolding linked_below_def by blast
    have up: "(s, x) \<in> ?Q\<^sup>* \<Longrightarrow> (s, x) \<in> ?R\<^sup>*" for s x using rtrancl_mono [OF sub] by blast
    have "(n, m) \<in> ?R" if "m \<in> set ms" for m using that assms by (auto simp: member_rel_def)
    then have "(n, x) \<in> ?R\<^sup>*" if "(m, x) \<in> ?Q\<^sup>*" "m \<in> set ms" for m x
      using up [OF that(1)] that(2) by (meson converse_rtrancl_into_rtrancl)
    with up show "insert n (linked_below (cs(n := None)) (set ms \<union> S)) \<subseteq> linked_below cs (insert n S)"
      unfolding linked_below_def by blast
  qed
qed

lemma drop_nodes_spec:
  assumes "finite (dom (dt_containers tree))"
  shows "drop_nodes tree stack = Some (tree\<lparr>
      dt_nodes := (\<lambda>n. if n \<in> linked_below (dt_containers tree) (set stack) then None else dt_nodes tree n),
      dt_containers := (\<lambda>n. if n \<in> linked_below (dt_containers tree) (set stack) then None else dt_containers tree n)\<rparr>)"
  using assms
proof (induction "(card (dom (dt_containers tree)), length stack)" arbitrary: tree stack
    rule: wf_induct_rule [OF wf_lex_prod [OF wf_less_than wf_less_than]])
  case (1 tree stack)
  show ?case
  proof (cases stack)
    case Nil
    then show ?thesis by (simp add: drop_nodes.simps)
  next
    case (Cons n rest)
    show ?thesis
    proof (cases "dt_containers tree n")
      case None
      let ?t = "tree\<lparr>dt_nodes := (dt_nodes tree)(n := None)\<rparr>"
      have "drop_nodes tree stack = drop_nodes ?t rest" using Cons None by (simp add: drop_nodes.simps [of tree])
      also have "\<dots> = Some (?t\<lparr>
          dt_nodes := (\<lambda>m. if m \<in> linked_below (dt_containers ?t) (set rest) then None else dt_nodes ?t m),
          dt_containers := (\<lambda>m. if m \<in> linked_below (dt_containers ?t) (set rest) then None else dt_containers ?t m)\<rparr>)"
        by (rule 1) (use Cons "1.prems" in simp_all)
      finally show ?thesis
        using None linked_below_leaf [of "dt_containers tree", OF None, of "set rest"] by (simp add: Cons fun_eq_iff)
    next
      case (Some ms)
      let ?t = "tree\<lparr>dt_nodes := (dt_nodes tree)(n := None), dt_containers := (dt_containers tree)(n := None)\<rparr>"
      have less: "card (dom (dt_containers ?t)) < card (dom (dt_containers tree))"
        using "1.prems" Some by (auto intro!: card_Diff1_less)
      have "drop_nodes tree stack = drop_nodes ?t (rev ms @ rest)" using Cons Some by (simp add: drop_nodes.simps [of tree])
      also have "\<dots> = Some (?t\<lparr>
          dt_nodes := (\<lambda>m. if m \<in> linked_below (dt_containers ?t) (set (rev ms @ rest)) then None else dt_nodes ?t m),
          dt_containers := (\<lambda>m. if m \<in> linked_below (dt_containers ?t) (set (rev ms @ rest)) then None else dt_containers ?t m)\<rparr>)"
        by (rule 1) (use less "1.prems" in simp_all)
      finally show ?thesis
        using linked_below_expand [of "dt_containers tree", OF Some, of "set rest"] by (simp add: Cons fun_eq_iff)
    qed
  qed
qed


text \<open>A tree in which every link made its container the parent: no node is linked twice.\<close>

definition tree_shaped :: "du_tree \<Rightarrow> bool" where
  "tree_shaped tree \<longleftrightarrow> finite (dom (dt_containers tree)) \<and> (\<forall>c. distinct (container_members tree c)) \<and>
     (\<forall>c m. m \<in> set (container_members tree c) \<longrightarrow> parent_of tree m = Some c)"

definition no_cap :: "du_tree \<Rightarrow> bool" where
  "no_cap tree \<longleftrightarrow> (\<forall>n. unat (dn_size_bytes (node_entry tree n)) + apparent.total tree n < 2 ^ 64 \<and>
     unat (dn_allocated_bytes (node_entry tree n)) + allocated.total tree n < 2 ^ 64 \<and>
     unat (effective_of (node_entry tree n)) + effective.total tree n < 2 ^ 64)"

lemma linked_below_parents:
  assumes links: "links_ok tree" and shaped: "tree_shaped tree"
  shows "linked_below (dt_containers tree) {i} = insert i (below tree i)"
proof -
  have "(c, m) \<in> member_rel (dt_containers tree) \<longleftrightarrow> (m, c) \<in> parent_rel tree" for c m
  proof -
    have "(c, m) \<in> member_rel (dt_containers tree) \<longleftrightarrow> m \<in> set (container_members tree c)"
      by (cases "dt_containers tree c") (simp_all add: member_rel_def container_members_def)
    also have "\<dots> \<longleftrightarrow> parent_of tree m = Some c"
      using links shaped unfolding links_ok_def tree_shaped_def by blast
    finally show ?thesis by (simp add: parent_rel_def)
  qed
  then have "member_rel (dt_containers tree) = (parent_rel tree)\<inverse>"
    by (intro set_eqI) (simp only: split_paired_all converse_iff)
  then have "linked_below (dt_containers tree) {i} = {m. (m, i) \<in> (parent_rel tree)\<^sup>*}"
    by (simp only: linked_below_def rtrancl_converse) blast
  then show ?thesis by (auto simp: below_def rtrancl_eq_or_trancl)
qed

lemma remove_subtree_inv:
  assumes inv: "du_inv tree" and eff: "effective.totals_ok tree" and shaped: "tree_shaped tree" and small: "no_cap tree"
  shows "\<exists>tree'. remove_subtree tree i = Some tree' \<and> du_inv tree' \<and> effective.totals_ok tree' \<and>
    (\<forall>m. parent_of tree' m = (if m \<in> insert i (below tree i) then None else parent_of tree m)) \<and>
    (\<forall>m. m \<notin> insert i (below tree i) \<longrightarrow> sizes_as tree' m (node_entry tree m) tree') \<and>
    dom (dt_nodes tree') = dom (dt_nodes tree) - insert i (below tree i) \<and>
    (\<forall>c. container_members tree' c = (if c \<in> insert i (below tree i) then [] else
        filter (\<lambda>m. m \<noteq> i) (container_members tree c)))"
proof -
  let ?D = "insert i (below tree i)" and ?e = "node_entry tree i"
  let ?a = "saturating_add (dn_size_bytes ?e) (dn_descendant_size_bytes ?e)"
  let ?b = "saturating_add (dn_allocated_bytes ?e) (dn_descendant_allocated_bytes ?e)"
  let ?c = "saturating_add (effective_of ?e) (dn_descendant_effective_allocated_bytes ?e)"
  from inv have ok: "parents_ok tree" and links: "links_ok tree" by (simp_all add: du_inv_def)
  from sub_loop.run_spec [OF ok] obtain t where run: "propagate_sub tree i ?a ?b ?c = Some t"
    and upd: "updates_ancestors (\<lambda>e. sub_from_descendants e ?a ?b ?c) i tree t" by blast
  have first: "(case dt_nodes tree i of Some entry \<Rightarrow> propagate_sub tree i
              (saturating_add (dn_size_bytes entry) (dn_descendant_size_bytes entry))
              (saturating_add (dn_allocated_bytes entry) (dn_descendant_allocated_bytes entry))
              (saturating_add (effective_of entry) (dn_descendant_effective_allocated_bytes entry))
        | None \<Rightarrow> Some tree) = Some t"
  proof (cases "dt_nodes tree i")
    case None
    then have "propagate_sub tree i ?a ?b ?c = Some tree"
      by (simp add: propagate_sub.simps [of tree] parent_of_def)
    then show ?thesis using None run by simp
  next
    case (Some entry)
    then show ?thesis using run by (simp add: node_entry_def)
  qed
  have same: "dt_containers t = dt_containers tree" using upd by (simp add: updates_ancestors_def)
  have fin: "finite (dom (dt_containers t))" using shaped same by (simp add: tree_shaped_def)
  have gone: "linked_below (dt_containers t) {i} = ?D" using linked_below_parents [OF links shaped] same by simp
  define tree' where "tree' = t\<lparr>dt_nodes := (\<lambda>n. if n \<in> ?D then None else dt_nodes t n),
      dt_containers := (\<lambda>c. map_option (filter (\<lambda>m. m \<noteq> i)) (if c \<in> ?D then None else dt_containers t c))\<rparr>"
  have result: "remove_subtree tree i = Some tree'"
    using first drop_nodes_spec [OF fin, of "[i]"] gone by (simp add: remove_subtree_def tree'_def)
  have members: "container_members tree' c = (if c \<in> ?D then [] else filter (\<lambda>m. m \<noteq> i) (container_members tree c))" for c
    by (auto simp: tree'_def container_members_def same split: option.split)
  have nodes: "dt_nodes tree' = (\<lambda>n. if n = i \<or> n \<in> below tree i then None else dt_nodes t n)"
    by (simp add: tree'_def)
  have parents: "parent_of tree' m = (if m \<in> ?D then None else parent_of tree m)" for m
  proof -
    have "parent_of tree' m = (if m \<in> ?D then None else parent_of t m)" by (simp add: tree'_def parent_of_def)
    then show ?thesis using sub_loop.run_parents(1) [OF upd] by simp
  qed
  have alive: "p \<notin> ?D" if "parent_of tree m = Some p" "m \<notin> ?D" for m p
    using that by (auto simp: below_def parent_rel_def intro: trancl_into_trancl2)
  have dom': "dom (dt_nodes tree') = dom (dt_nodes tree) - ?D"
    using updates_ancestors_dom [OF upd ok] by (auto simp: nodes dom_def set_eq_iff split: if_splits)
  have ok': "parents_ok tree'"
  proof -
    have "parent_rel tree' \<subseteq> parent_rel tree" using parents by (auto simp: parent_rel_def split: if_splits)
    with ok have "acyclic (parent_rel tree')" by (auto simp: parents_ok_def intro: acyclic_subset)
    moreover have "p \<in> dom (dt_nodes tree')" if "parent_of tree' m = Some p" for m p
      using that alive ok parents [of m] unfolding dom' by (auto simp: parents_ok_def split: if_splits)
    ultimately show ?thesis using ok dom' by (simp add: parents_ok_def)
  qed
  have kind: "dn_kind (node_entry tree' n) = dn_kind (node_entry tree n)" if "n \<notin> ?D" for n
  proof -
    have "node_entry tree' n = node_entry t n" using that by (simp add: nodes node_entry_def)
    then show ?thesis by (simp add: updates_ancestors_entry [OF upd] sub_from_descendants_def)
  qed
  have "links_ok tree'"
    unfolding links_ok_def
  proof (intro allI impI)
    fix m p assume a: "parent_of tree' m = Some p"
    then have m: "m \<notin> ?D" "parent_of tree m = Some p" using parents [of m] by (auto split: if_splits)
    then show "m \<in> set (container_members tree' p) \<and> dn_kind (node_entry tree' p) = Container"
      using links alive [OF m(2,1)] kind [of p] members [of p] by (auto simp: links_ok_def)
  qed
  moreover have "apparent.totals_ok tree'"
    by (rule apparent.totals_remove [OF ok _ _ refl upd nodes]) (use inv small in \<open>simp_all add: du_inv_def no_cap_def\<close>)
  moreover have "allocated.totals_ok tree'"
    by (rule allocated.totals_remove [OF ok _ _ refl upd nodes]) (use inv small in \<open>simp_all add: du_inv_def no_cap_def\<close>)
  ultimately have "du_inv tree'" using ok' by (simp add: du_inv_def)
  moreover have "effective.totals_ok tree'"
    by (rule effective.totals_remove [OF ok eff _ refl upd nodes]) (use small in \<open>simp add: no_cap_def\<close>)
  moreover have "sizes_as tree' m (node_entry tree m) tree'" if "m \<notin> ?D" for m
  proof -
    have "node_entry tree' m = node_entry t m" using that by (simp add: nodes node_entry_def)
    then show ?thesis by (simp add: sizes_as_def updates_ancestors_entry [OF upd] sub_from_descendants_def)
  qed
  ultimately show ?thesis using result dom' members parents by blast
qed


section \<open>Properties\<close>

text \<open>On a cycle of two parents the loop does not return.\<close>

lemma parent_cycle_diverges:
  assumes "propagate_descendant_add tree i a b c = Some tree'"
  shows "\<not> (parent_of tree x = Some y \<and> parent_of tree y = Some x \<and> i \<in> {x, y})"
proof (rule propagate_descendant_add.raw_induct [where P = "\<lambda>tree i a b c tree'.
      \<not> (parent_of tree x = Some y \<and> parent_of tree y = Some x \<and> i \<in> {x, y})", OF _ assms])
  fix run :: "du_tree \<Rightarrow> node_id \<Rightarrow> u64 \<Rightarrow> u64 \<Rightarrow> u64 \<Rightarrow> du_tree option" and tree current a b c tree'
  assume IH: "\<And>tree i a b c tree'. run tree i a b c = Some tree' \<Longrightarrow>
      \<not> (parent_of tree x = Some y \<and> parent_of tree y = Some x \<and> i \<in> {x, y})"
    and body: "(case parent_of tree current of None \<Rightarrow> Some tree | Some parent \<Rightarrow>
        run (put_node tree parent (add_to_descendants (node_entry tree parent) a b c)) parent a b c) = Some tree'"
  show "\<not> (parent_of tree x = Some y \<and> parent_of tree y = Some x \<and> current \<in> {x, y})"
  proof
    assume cyc: "parent_of tree x = Some y \<and> parent_of tree y = Some x \<and> current \<in> {x, y}"
    then obtain p where p: "parent_of tree current = Some p" "p \<in> {x, y}" by auto
    let ?t = "put_node tree p (add_to_descendants (node_entry tree p) a b c)"
    from body p have r: "run ?t p a b c = Some tree'" by simp
    have "parent_of ?t x = Some y \<and> parent_of ?t y = Some x \<and> p \<in> {x, y}"
      using cyc p(2) by (auto simp: add_to_descendants_def)
    with IH [OF r] show False by blast
  qed
qed

definition cyclic_stream :: "du_fact list" where
  "cyclic_stream = [NodeLinked 1 2, NodeDiscovered 1 File CatOther None [] False, NodeLinked 2 1]"

definition sample_facts :: "du_fact list" where
  "sample_facts = [NodeLinked 1 2, NodeSizeAdded 2 10]"

lemma sample_facts_ok: "stream_ok sample_facts"
  by (simp add: stream_ok_def sample_facts_def)

lemma sample_facts_small: "announced_bytes sample_facts < 2 ^ 64"
  by (simp add: announced_bytes_def sample_facts_def)

definition sample_du_tree :: du_tree where
  "sample_du_tree = \<lparr>dt_nodes = [1 \<mapsto> (DiskUsageNode_new 1)\<lparr>dn_descendant_size_bytes := 10, dn_descendant_effective_allocated_bytes := 10\<rparr>,
       2 \<mapsto> (DiskUsageNode_new 2)\<lparr>dn_size_bytes := 10, dn_parent := Some 1\<rparr>],
     dt_containers = [1 \<mapsto> [2]], dt_root = 1, dt_complete = False\<rparr>"

lemma sample_facts_applied: "apply_facts (DiskUsageTree_new 1) sample_facts = Some sample_du_tree"
  by (simp add: sample_facts_def sample_du_tree_def DiskUsageTree_new_def DiskUsageNode_new_def add_link_unchecked_def
      register_parent_def parent_chain_contains.simps propagate_descendant_add.simps add_size_def Let_def
      container_members_def parent_of_def node_entry_def put_node_def effective_of_def add_to_descendants_def
      saturating_add_def fun_eq_iff)

definition cycle_tree :: du_tree where
  "cycle_tree = \<lparr>dt_nodes = [1 \<mapsto> (DiskUsageNode_new 1)\<lparr>dn_kind := File\<rparr>,
       2 \<mapsto> (DiskUsageNode_new 2)\<lparr>dn_parent := Some 1\<rparr>],
     dt_containers = [1 \<mapsto> [2]], dt_root = 1, dt_complete = False\<rparr>"

lemma cycle_tree_applied:
  "apply_facts (DiskUsageTree_new 1) [NodeLinked 1 2, NodeDiscovered 1 File CatOther None [] False] = Some cycle_tree"
  by (simp add: cycle_tree_def DiskUsageTree_new_def DiskUsageNode_new_def add_link_unchecked_def
      register_parent_def parent_chain_contains.simps propagate_descendant_add.simps ensure_node_with_meta_def Let_def
      container_members_def parent_of_def node_entry_def put_node_def effective_of_def add_to_descendants_def
      saturating_add_def fun_eq_iff)

lemma cycle_tree_diverges: "apply_fact cycle_tree (NodeLinked 2 1) = None"
proof -
  define t where "t = put_node (put_node cycle_tree 2 (node_entry cycle_tree 2\<lparr>dn_kind := Container\<rparr>)
      \<lparr>dt_containers := (dt_containers cycle_tree)(2 \<mapsto> [1])\<rparr>) 1 ((node_entry cycle_tree 1)\<lparr>dn_parent := Some 2\<rparr>)"
  have parents: "parent_of t 1 = Some 2" "parent_of t 2 = Some 1"
    by (simp_all add: t_def cycle_tree_def parent_of_def node_entry_def put_node_def DiskUsageNode_new_def)
  have "propagate_descendant_add t 1 a b c = None" for a b c
    using parent_cycle_diverges [of t 1 a b c _ 1 2] parents by (cases "propagate_descendant_add t 1 a b c") auto
  moreover have "\<exists>a b c. apply_fact cycle_tree (NodeLinked 2 1) = propagate_descendant_add t 1 a b c"
    by (simp add: t_def add_link_unchecked_def register_parent_def cycle_tree_def container_members_def put_node_def
        node_entry_def parent_of_def DiskUsageNode_new_def Let_def, blast)
  ultimately show ?thesis by auto
qed

lemma apply_facts_append:
  "apply_facts tree (fs @ gs) = Option.bind (apply_facts tree fs) (\<lambda>tree. apply_facts tree gs)"
  by (induction fs arbitrary: tree) (simp_all del: apply_fact.simps)

lemma built_all:
  assumes "stream_ok facts" and "apply_facts (DiskUsageTree_new root) facts = Some tree"
  shows "du_built facts tree"
  using apply_facts_inv [OF du_built_new, of facts root] assms by (auto simp: DiskUsageTree_new_def)

lemmas built_facts = built_all [unfolded du_built_def]

lemma built_inv: "stream_ok facts \<Longrightarrow> apply_facts (DiskUsageTree_new root) facts = Some tree \<Longrightarrow> du_inv tree"
  using built_facts by blast

text \<open>C15. Every stream of facts that does not announce the container of a link as a file is applied in finite time: no loop along the parents runs forever, the parents stay acyclic, and the parent of a node is a container that lists it.\<close>

theorem apply_facts_returns:
  assumes "stream_ok facts"
  shows "\<exists>tree. apply_facts (DiskUsageTree_new root) facts = Some tree \<and> acyclic (parent_rel tree) \<and>
    (\<forall>m p. parent_of tree m = Some p \<longrightarrow> m \<in> set (container_members tree p) \<and> dn_kind (node_entry tree p) = Container)"
proof -
  have "dom (dt_containers (DiskUsageTree_new root)) \<subseteq> link_containers []" by (simp add: DiskUsageTree_new_def)
  with apply_facts_inv [OF du_built_new, of facts root] assms show ?thesis
    by (auto simp: du_built_def du_inv_def parents_ok_def links_ok_def)
qed

theorem apply_facts_returns_witness: "\<exists>tree. apply_facts (DiskUsageTree_new 1) sample_facts = Some tree"
  using apply_facts_returns [OF sample_facts_ok] by blast

text \<open>C5. The incremental totals are right.  In the tree that a stream builds in which no container of a link is announced as a file, whatever the order of its facts, every node keeps the sizes announced of it, capped at the width of \<open>u64\<close>, and exactly the capped sum of the sizes of all its proper descendants; the same holds of the allocated sizes.  The effective total, in which a descendant counts with its allocated size or, when it has none, with its plain size, is exactly their sum when all the sizes the stream announces fit into a \<open>u64\<close> together.\<close>

theorem apply_facts_totals:
  assumes "stream_ok facts" and "apply_facts (DiskUsageTree_new root) facts = Some tree"
  shows "unat (dn_size_bytes (node_entry tree n)) = node_cap (announced_size facts n) \<and>
    unat (dn_allocated_bytes (node_entry tree n)) = node_cap (announced_allocated facts n) \<and>
    unat (dn_descendant_size_bytes (node_entry tree n)) =
      node_cap (\<Sum>m\<in>below tree n. unat (dn_size_bytes (node_entry tree m))) \<and>
    unat (dn_descendant_allocated_bytes (node_entry tree n)) =
      node_cap (\<Sum>m\<in>below tree n. unat (dn_allocated_bytes (node_entry tree m))) \<and>
    (announced_bytes facts < 2 ^ 64 \<longrightarrow>
      unat (dn_descendant_effective_allocated_bytes (node_entry tree n)) =
        (\<Sum>m\<in>below tree n. if dn_allocated_bytes (node_entry tree m) \<noteq> 0 then unat (dn_allocated_bytes (node_entry tree m))
          else unat (dn_size_bytes (node_entry tree m))))"
proof -
  note built = built_facts [OF assms]
  have own: "unat (effective_of e) = (if dn_allocated_bytes e \<noteq> 0 then unat (dn_allocated_bytes e) else unat (dn_size_bytes e))" for e
    by (simp add: effective_of_def word_gt_0)
  have eff: "unat (dn_descendant_effective_allocated_bytes (node_entry tree n)) = effective.total tree n"
    if "announced_bytes facts < 2 ^ 64"
    using total_bound(3) [of tree facts n] built that by (simp add: du_inv_def effective.totals_ok_def node_cap_def)
  show ?thesis
    using built eff unfolding effective.total_def own
    by (simp add: du_inv_def sizes_of_def apparent.totals_ok_def allocated.totals_ok_def apparent.total_def allocated.total_def)
qed

theorem apply_facts_totals_witness:
  "10 = (\<Sum>m\<in>below sample_du_tree 1. if dn_allocated_bytes (node_entry sample_du_tree m) \<noteq> 0
       then unat (dn_allocated_bytes (node_entry sample_du_tree m)) else unat (dn_size_bytes (node_entry sample_du_tree m)))"
proof -
  have "unat (dn_descendant_effective_allocated_bytes (node_entry sample_du_tree 1)) = 10"
    by (simp add: node_entry_def sample_du_tree_def)
  with apply_facts_totals [OF sample_facts_ok sample_facts_applied, of 1] sample_facts_small show ?thesis by simp
qed

text \<open>C16. The guard against cycles has a hole: after a container was announced again as a file, a link back to it closes a cycle of parents and the propagation loop never returns.\<close>

theorem cyclic_stream_diverges: "apply_facts (DiskUsageTree_new 1) cyclic_stream = None"
proof -
  have "cyclic_stream = [NodeLinked 1 2, NodeDiscovered 1 File CatOther None [] False] @ [NodeLinked 2 1]"
    by (simp add: cyclic_stream_def)
  then have "apply_facts (DiskUsageTree_new 1) cyclic_stream =
      Option.bind (apply_facts (DiskUsageTree_new 1) [NodeLinked 1 2, NodeDiscovered 1 File CatOther None [] False])
        (\<lambda>tree. apply_facts tree [NodeLinked 2 1])"
    by (simp only: apply_facts_append [symmetric])
  then show ?thesis unfolding cycle_tree_applied by (simp add: cycle_tree_diverges del: apply_fact.simps)
qed

lemma sample_parents: "parent_of sample_du_tree m = (if m = 2 then Some 1 else None)"
  by (simp add: parent_of_def sample_du_tree_def DiskUsageNode_new_def)

lemma sample_below: "below sample_du_tree n = (if n = 1 then {2} else {})"
proof -
  have "parent_rel sample_du_tree = {(2, 1)}" by (auto simp: parent_rel_def sample_parents split: if_splits)
  moreover have "{(2 :: node_id, 1)}\<^sup>+ = {(2, 1)}" by (rule trancl_id) (auto simp: trans_def)
  ultimately show ?thesis by (auto simp: below_def)
qed

lemma sample_shape: "tree_shaped sample_du_tree"
proof -
  have "container_members sample_du_tree c = (if c = 1 then [2] else [])" for c
    by (simp add: container_members_def sample_du_tree_def)
  moreover have "finite (dom (dt_containers sample_du_tree))" by (simp add: sample_du_tree_def)
  ultimately show ?thesis by (simp add: tree_shaped_def sample_parents)
qed

lemma built_no_cap:
  assumes "stream_ok facts" and "apply_facts (DiskUsageTree_new root) facts = Some tree" and "announced_bytes facts < 2 ^ 64"
  shows "no_cap tree"
proof -
  have "parents_ok tree" "sizes_of facts tree" using built_facts [OF assms(1,2)] by (simp_all add: du_inv_def)
  note bound = total_bound [OF this]
  show ?thesis
    unfolding no_cap_def by (intro allI conjI; rule le_less_trans [OF _ assms(3)]) (rule bound)+
qed

text \<open>C9. Removing a subtree.  Take a tree built from facts in which no container of a link is announced as a file, in which every link made its container the only parent of the node (no node is linked twice), and whose announced sizes fit into a \<open>u64\<close> together.  The removal returns; it drops exactly the node and its descendants and every link to the node, and keeps the parents and the sizes of the nodes that stay; and in each of them the three totals, of sizes, of allocated sizes and of effective sizes, are again exactly the sums over the descendants that remain.\<close>

theorem remove_subtree_correct:
  assumes "stream_ok facts" and "apply_facts (DiskUsageTree_new root) facts = Some tree"
    and "tree_shaped tree" and "announced_bytes facts < 2 ^ 64"
  shows "\<exists>tree'. remove_subtree tree i = Some tree' \<and>
    dom (dt_nodes tree') = dom (dt_nodes tree) - insert i (below tree i) \<and>
    (\<forall>c. container_members tree' c =
      (if c \<in> insert i (below tree i) then [] else filter (\<lambda>m. m \<noteq> i) (container_members tree c))) \<and>
    (\<forall>m. m \<notin> insert i (below tree i) \<longrightarrow> parent_of tree' m = parent_of tree m \<and>
      dn_size_bytes (node_entry tree' m) = dn_size_bytes (node_entry tree m) \<and>
      dn_allocated_bytes (node_entry tree' m) = dn_allocated_bytes (node_entry tree m)) \<and>
    (\<forall>n. unat (dn_descendant_size_bytes (node_entry tree' n)) =
        (\<Sum>m\<in>below tree' n. unat (dn_size_bytes (node_entry tree' m))) \<and>
      unat (dn_descendant_allocated_bytes (node_entry tree' n)) =
        (\<Sum>m\<in>below tree' n. unat (dn_allocated_bytes (node_entry tree' m))) \<and>
      unat (dn_descendant_effective_allocated_bytes (node_entry tree' n)) =
        (\<Sum>m\<in>below tree' n. if dn_allocated_bytes (node_entry tree' m) \<noteq> 0 then unat (dn_allocated_bytes (node_entry tree' m))
          else unat (dn_size_bytes (node_entry tree' m))))"
proof -
  let ?D = "insert i (below tree i)"
  note built = built_facts [OF assms(1,2)] and small = built_no_cap [OF assms(1,2,4)]
  have ok: "parents_ok tree" using built by (simp add: du_inv_def)
  have inv: "du_inv tree" and eff: "effective.totals_ok tree" using built assms(4) by simp_all
  obtain tree' where
      r: "remove_subtree tree i = Some tree'" "du_inv tree'" "effective.totals_ok tree'"
      and parents: "\<forall>m. parent_of tree' m = (if m \<in> ?D then None else parent_of tree m)"
      and sizes: "\<forall>m. m \<notin> ?D \<longrightarrow> sizes_as tree' m (node_entry tree m) tree'"
      and rest: "dom (dt_nodes tree') = dom (dt_nodes tree) - ?D"
      "\<forall>c. container_members tree' c = (if c \<in> ?D then [] else filter (\<lambda>m. m \<noteq> i) (container_members tree c))"
    using remove_subtree_inv [OF inv eff assms(3) small, of i] by (elim exE conjE) (rule that)
  have same: "dn_size_bytes (node_entry tree' m) = dn_size_bytes (node_entry tree m)"
      "dn_allocated_bytes (node_entry tree' m) = dn_allocated_bytes (node_entry tree m)" if "m \<notin> ?D" for m
    using sizes [rule_format, OF that] by (simp_all add: sizes_as_def del: insert_iff)
  have sub: "parent_rel tree' \<subseteq> parent_rel tree" by (auto simp: parent_rel_def parents split: if_splits)
  have stays: "m \<notin> ?D" if "m \<in> Domain (parent_rel tree')" for m using that by (auto simp: parent_rel_def parents split: if_splits)
  have "apparent.total tree' n \<le> apparent.total tree n" "allocated.total tree' n \<le> allocated.total tree n"
      "effective.total tree' n \<le> effective.total tree n" for n
    using apparent.total_mono [OF ok sub] allocated.total_mono [OF ok sub] effective.total_mono [OF ok sub] same [OF stays]
    by (simp_all add: effective_of_def)
  then have fits: "apparent.total tree' n < 2 ^ 64" "allocated.total tree' n < 2 ^ 64" "effective.total tree' n < 2 ^ 64" for n
    using small [unfolded no_cap_def, THEN spec, of n] by (meson le_add2 le_less_trans)+
  have own: "unat (effective_of e) = (if dn_allocated_bytes e \<noteq> 0 then unat (dn_allocated_bytes e) else unat (dn_size_bytes e))" for e
    by (simp add: effective_of_def word_gt_0)
  have totals: "unat (dn_descendant_size_bytes (node_entry tree' n)) = apparent.total tree' n"
      "unat (dn_descendant_allocated_bytes (node_entry tree' n)) = allocated.total tree' n"
      "unat (dn_descendant_effective_allocated_bytes (node_entry tree' n)) = effective.total tree' n" for n
    using r(2,3) fits [of n]
    by (simp_all add: du_inv_def apparent.totals_ok_def allocated.totals_ok_def effective.totals_ok_def node_cap_def)
  show ?thesis
    using r(1) rest parents same totals [unfolded apparent.total_def allocated.total_def effective.total_def own]
    by (intro exI [of _ tree'] conjI allI impI) (simp_all only: if_False simp_thms)
qed

theorem remove_subtree_correct_witness:
  "\<exists>tree'. remove_subtree sample_du_tree 2 = Some tree' \<and> dn_descendant_effective_allocated_bytes (node_entry tree' 1) = 0"
proof -
  have D: "insert 2 (below sample_du_tree 2) = {2}" by (simp add: sample_below)
  from remove_subtree_correct [OF sample_facts_ok sample_facts_applied sample_shape sample_facts_small, of 2, unfolded D]
  obtain tree' where r: "remove_subtree sample_du_tree 2 = Some tree'"
    "dom (dt_nodes tree') = dom (dt_nodes sample_du_tree) - {2}"
    "unat (dn_descendant_effective_allocated_bytes (node_entry tree' 1)) =
        (\<Sum>m\<in>below tree' 1. if dn_allocated_bytes (node_entry tree' m) \<noteq> 0 then unat (dn_allocated_bytes (node_entry tree' m))
          else unat (dn_size_bytes (node_entry tree' m)))"
    and parents: "\<forall>m. m \<noteq> 2 \<longrightarrow> parent_of tree' m = parent_of sample_du_tree m" by auto
  have "parent_of tree' 2 = None" using r(2) by (auto simp: parent_of_def)
  with parents have "parent_of tree' m = None" for m by (cases "m = 2") (simp_all add: sample_parents)
  then have "below tree' 1 = {}" by (auto simp: below_def parent_rel_def elim: tranclE)
  with r show ?thesis by (simp add: unat_eq_0)
qed

end
