(* ===== verification/DiskUsageLayout.thy ===== *)
theory DiskUsageLayout
  imports DiskUsageProps "HOL-Library.Multiset"
begin

text \<open>
  \<open>aggregate.rs\<close> and the layout node of \<open>model.rs\<close>: the part of a scanned tree that a
  treemap shows, down to a depth, and its filtered variant.
\<close>

section \<open>Layout nodes\<close>

datatype layout_node = LayoutNode
  (ln_node_id: node_id) (ln_size_bytes: u64) (ln_scan_state: scan_state) (ln_kind: node_kind)
  (ln_file_category: file_category) (ln_mtime: "system_time option") (ln_children: "layout_node list")

text \<open>\<open>sort_by_key\<close> with \<open>Reverse(size_bytes)\<close>, then each child.\<close>

definition sort_level :: "layout_node list \<Rightarrow> layout_node list" where
  "sort_level cs = sort_key (\<lambda>c. - uint (ln_size_bytes c)) cs"

function sort_children_by_size :: "layout_node \<Rightarrow> layout_node" where
  "sort_children_by_size (LayoutNode i bytes state kind category mtime children) =
     LayoutNode i bytes state kind category mtime (map sort_children_by_size (sort_level children))"
  by pat_completeness auto
termination
proof (relation "measure Nat.size")
  fix i bytes state kind category mtime children c
  assume "c \<in> set (sort_level children)"
  then have "Nat.size c < Suc (size_list Nat.size children)"
    by (simp add: sort_level_def) (metis less_Suc_eq_le order_less_imp_le size_list_estimation' order_refl)
  then show "(c, LayoutNode i bytes state kind category mtime children) \<in> measure Nat.size" by simp
qed simp

section \<open>The layout of a subtree\<close>

definition node_size :: "du_node \<Rightarrow> size_mode \<Rightarrow> u64" where
  "node_size n mode = (case mode of
       Apparent \<Rightarrow> dn_size_bytes n
     | Allocated \<Rightarrow> if 0 < dn_allocated_bytes n then dn_allocated_bytes n else dn_size_bytes n)"

text \<open>What a layout shows of a node without its members; \<open>bytes\<close> is filled in by the caller.\<close>

definition shown_state :: "du_tree \<Rightarrow> node_kind \<Rightarrow> scan_state \<Rightarrow> scan_state" where
  "shown_state tree kind state = (if dt_complete tree \<and> kind = Container then Complete else state)"

definition layout_leaf :: "du_tree \<Rightarrow> node_id \<Rightarrow> u64 \<Rightarrow> layout_node list \<Rightarrow> layout_node" where
  "layout_leaf tree i bytes children =
     (case dt_nodes tree i of
        Some n \<Rightarrow> LayoutNode i bytes (shown_state tree (dn_kind n) (dn_scan_state n)) (dn_kind n) (dn_file_category n)
                    (dn_mtime n) children
      | None \<Rightarrow> LayoutNode i bytes (shown_state tree Container Unknown) Container CatOther None children)"

definition intrinsic_size :: "du_tree \<Rightarrow> size_mode \<Rightarrow> node_id \<Rightarrow> u64" where
  "intrinsic_size tree mode i = (case dt_nodes tree i of Some n \<Rightarrow> node_size n mode | None \<Rightarrow> 0)"

definition hidden_size :: "du_tree \<Rightarrow> size_mode \<Rightarrow> node_id \<Rightarrow> u64" where
  "hidden_size tree mode i =
     (case dt_nodes tree i of
        None \<Rightarrow> 0
      | Some n \<Rightarrow> (case mode of
            Apparent \<Rightarrow> dn_descendant_size_bytes n | Allocated \<Rightarrow> dn_descendant_effective_allocated_bytes n))"

text \<open>\<open>remaining_depth\<close> is a \<open>u32\<close> that only counts down.\<close>

function build_inner ::
    "du_tree \<Rightarrow> size_mode \<Rightarrow> nat \<Rightarrow> node_id \<Rightarrow> node_id set \<Rightarrow> layout_node \<times> node_id set"
and build_members ::
    "du_tree \<Rightarrow> size_mode \<Rightarrow> nat \<Rightarrow> node_id list \<Rightarrow> node_id set \<Rightarrow> u64 \<Rightarrow> (layout_node list \<times> u64) \<times> node_id set" where
  "build_inner tree mode depth i visited =
     (let intrinsic = intrinsic_size tree mode i in
      if i \<in> visited then (layout_leaf tree i intrinsic [], visited)
      else
      let visited = insert i visited in
      if depth = 0 then (layout_leaf tree i (saturating_add intrinsic (hidden_size tree mode i)) [], visited)
      else
      let ((children, children_sum), visited) = build_members tree mode (depth - 1) (container_members tree i) visited 0 in
      (layout_leaf tree i (saturating_add intrinsic children_sum) children, visited))"
| "build_members tree mode depth [] visited children_sum = (([], children_sum), visited)"
| "build_members tree mode depth (m # ms) visited children_sum =
     (let (child, visited) = build_inner tree mode depth m visited;
          ((children, children_sum), visited) =
            build_members tree mode depth ms visited (saturating_add children_sum (ln_size_bytes child)) in
      ((child # children, children_sum), visited))"
  by pat_completeness auto
termination
  by (relation "measures [\<lambda>x. case x of Inl (_, _, depth, _) \<Rightarrow> depth | Inr (_, _, depth, _) \<Rightarrow> depth,
      \<lambda>x. case x of Inl _ \<Rightarrow> 0 | Inr (_, _, _, ms, _) \<Rightarrow> Suc (length ms)]") auto

declare build_inner.simps [simp del]

definition build_layout_node_with_mode :: "du_tree \<Rightarrow> node_id \<Rightarrow> nat \<Rightarrow> size_mode \<Rightarrow> layout_node" where
  "build_layout_node_with_mode tree root max_depth mode =
     sort_children_by_size (fst (build_inner tree mode max_depth root {}))"

definition build_layout_node :: "du_tree \<Rightarrow> node_id \<Rightarrow> nat \<Rightarrow> layout_node" where
  "build_layout_node tree root max_depth = build_layout_node_with_mode tree root max_depth Apparent"

section \<open>The filtered layout\<close>

text \<open>
  \<open>cancelled n\<close> is what the \<open>n\<close>-th call returns.  The recursion follows the members and ends
  because a node is visited once; the fuel bounds its depth and \<open>None\<close> is running out of it.
\<close>

function build_filtered_inner ::
    "nat \<Rightarrow> du_tree \<Rightarrow> size_mode \<Rightarrow> (du_node \<Rightarrow> bool) \<Rightarrow> (nat \<Rightarrow> bool) \<Rightarrow> nat \<Rightarrow> bool \<Rightarrow> node_id \<Rightarrow> nat \<times> node_id set
       \<Rightarrow> (layout_node option \<times> nat \<times> node_id set) option"
and build_filtered_members ::
    "nat \<Rightarrow> du_tree \<Rightarrow> size_mode \<Rightarrow> (du_node \<Rightarrow> bool) \<Rightarrow> (nat \<Rightarrow> bool) \<Rightarrow> nat \<Rightarrow> node_id list \<Rightarrow> nat \<times> node_id set
       \<Rightarrow> layout_node list \<Rightarrow> u64 \<Rightarrow> ((layout_node list \<times> u64) option \<times> nat \<times> node_id set) option" where
  "build_filtered_inner 0 tree mode matches cancelled depth structural_root i st = None"
| "build_filtered_inner (Suc fuel) tree mode matches cancelled depth structural_root i (polls, visited) =
     (if cancelled polls \<or> i \<in> visited then Some (None, polls + 1, visited)
      else
      let st = (polls + 1, insert i visited) in
      case dt_nodes tree i of None \<Rightarrow> Some (None, st)
      | Some source \<Rightarrow>
      let direct_match = (\<not> structural_root \<and> matches source) in
      if direct_match \<and> dn_kind source = Container then
        Some (Some (sort_children_by_size (fst (build_inner tree mode depth i {}))), st)
      else if dn_kind source \<noteq> Container then
        Some (if direct_match then Some (layout_leaf tree i (node_size source mode) []) else None, st)
      else
      case build_filtered_members fuel tree mode matches cancelled depth (container_members tree i) st [] 0 of
        None \<Rightarrow> None
      | Some (None, st) \<Rightarrow> Some (None, st)
      | Some (Some (visible_children, filtered_total), st) \<Rightarrow>
          if filtered_total = 0 \<and> visible_children = [] then Some (None, st)
          else Some (Some (sort_children_by_size (layout_leaf tree i filtered_total visible_children)), st))"
| "build_filtered_members fuel tree mode matches cancelled depth [] st visible_children filtered_total =
     Some (Some (visible_children, filtered_total), st)"
| "build_filtered_members fuel tree mode matches cancelled depth (m # ms) (polls, visited) visible_children filtered_total =
     (if cancelled polls then Some (None, polls + 1, visited)
      else
      case build_filtered_inner fuel tree mode matches cancelled (depth - 1) False m (polls + 1, visited) of
        None \<Rightarrow> None
      | Some (None, st) \<Rightarrow>
          build_filtered_members fuel tree mode matches cancelled depth ms st visible_children filtered_total
      | Some (Some child, st) \<Rightarrow>
          build_filtered_members fuel tree mode matches cancelled depth ms st
            (if 0 < depth then visible_children @ [child] else visible_children)
            (saturating_add filtered_total (ln_size_bytes child)))"
  by pat_completeness auto
termination
  by (relation "measures [\<lambda>x. case x of Inl (fuel, _) \<Rightarrow> fuel | Inr (fuel, _) \<Rightarrow> fuel,
      \<lambda>x. case x of Inl _ \<Rightarrow> 0 | Inr (_, _, _, _, _, _, ms, _) \<Rightarrow> Suc (length ms)]") auto

definition build_filtered_layout_node_with_mode ::
    "nat \<Rightarrow> du_tree \<Rightarrow> node_id \<Rightarrow> nat \<Rightarrow> size_mode \<Rightarrow> (du_node \<Rightarrow> bool) \<Rightarrow> (nat \<Rightarrow> bool) \<Rightarrow> layout_node option option" where
  "build_filtered_layout_node_with_mode fuel tree root max_depth mode matches cancelled =
     (case build_filtered_inner fuel tree mode matches cancelled max_depth True root (0, {}) of
        None \<Rightarrow> None
      | Some (None, _) \<Rightarrow> Some None
      | Some (Some node, polls, _) \<Rightarrow>
          Some (if cancelled polls then None else Some (sort_children_by_size node)))"

section \<open>The sizes of a layout\<close>

definition subtree :: "du_tree \<Rightarrow> node_id \<Rightarrow> node_id set" where
  "subtree tree i = insert i (below tree i)"

definition own_sum :: "du_tree \<Rightarrow> node_id set \<Rightarrow> nat" where
  "own_sum tree S = (\<Sum>m\<in>S. unat (dn_size_bytes (node_entry tree m)))"

lemma own_sum_simps [simp]: "own_sum tree {} = 0" by (simp add: own_sum_def)

lemma subtree_finite: "parents_ok tree \<Longrightarrow> finite (subtree tree i)"
  by (simp add: subtree_def finite_below)

lemma subtree_trancl: "x \<in> subtree tree i \<longleftrightarrow> (x, i) \<in> (parent_rel tree)\<^sup>*"
  by (auto simp: subtree_def below_def rtrancl_eq_or_trancl)

definition members_parent :: "du_tree \<Rightarrow> node_id \<Rightarrow> node_id list \<Rightarrow> bool" where
  "members_parent tree c ms \<longleftrightarrow> distinct ms \<and> (\<forall>m\<in>set ms. parent_of tree m = Some c)"

lemma below_members:
  assumes "links_ok tree" and "tree_shaped tree"
  shows "below tree c = (\<Union>m\<in>set (container_members tree c). subtree tree m)"
proof -
  have "(m, c) \<in> parent_rel tree \<longleftrightarrow> m \<in> set (container_members tree c)" for m
    using assms unfolding links_ok_def tree_shaped_def parent_rel_def by blast
  then have "(x, c) \<in> (parent_rel tree)\<^sup>+ \<longleftrightarrow> (\<exists>m\<in>set (container_members tree c). (x, m) \<in> (parent_rel tree)\<^sup>*)" for x
    by (metis rtrancl_into_trancl1 tranclD2)
  then show ?thesis by (auto simp: below_def subtree_trancl)
qed

lemma sibling_subtrees:
  assumes ok: "parents_ok tree" and p: "parent_of tree m = Some c" "parent_of tree m' = Some c" and ne: "m \<noteq> m'"
  shows "subtree tree m \<inter> subtree tree m' = {}"
proof (rule ccontr)
  let ?R = "parent_rel tree"
  have no: "False" if "(a, b) \<in> ?R\<^sup>*" "parent_of tree a = Some c" "parent_of tree b = Some c" "a \<noteq> b" for a b
  proof -
    have "(a, b) \<in> ?R\<^sup>+" using that by (simp add: rtrancl_eq_or_trancl)
    then have "b = c \<or> (c, b) \<in> ?R\<^sup>+" using parent_step [OF that(2)] by simp
    moreover have "(b, c) \<in> ?R" using that(3) by (simp add: parent_rel_def)
    ultimately have "(c, c) \<in> ?R\<^sup>+" by (auto intro: trancl_into_trancl)
    with ok show False by (auto simp: parents_ok_def acyclic_def)
  qed
  assume "subtree tree m \<inter> subtree tree m' \<noteq> {}"
  then obtain x where "(x, m) \<in> ?R\<^sup>*" "(x, m') \<in> ?R\<^sup>*" by (auto simp: subtree_trancl)
  moreover have "single_valued ?R" by (auto simp: single_valued_def parent_rel_def)
  ultimately have "(m, m') \<in> ?R\<^sup>* \<or> (m', m) \<in> ?R\<^sup>*" by (metis single_valued_confluent)
  then show False using no p ne by blast
qed

lemma members_disjoint:
  assumes "parents_ok tree" and "members_parent tree c (m # ms)"
  shows "subtree tree m \<inter> (\<Union>k\<in>set ms. subtree tree k) = {}"
  using assms sibling_subtrees [OF assms(1)] by (fastforce simp: members_parent_def)

lemma own_sum_union:
  "finite A \<Longrightarrow> finite B \<Longrightarrow> A \<inter> B = {} \<Longrightarrow> own_sum tree (A \<union> B) = own_sum tree A + own_sum tree B"
  by (simp add: own_sum_def sum.union_disjoint)

lemma not_own_descendant: "parents_ok tree \<Longrightarrow> i \<notin> below tree i"
  by (auto simp: parents_ok_def acyclic_def below_def)

lemma own_sum_subtree:
  "parents_ok tree \<Longrightarrow> own_sum tree (subtree tree i) = unat (dn_size_bytes (node_entry tree i)) + own_sum tree (below tree i)"
  by (simp add: own_sum_def subtree_def finite_below not_own_descendant)

lemma intrinsic_Apparent: "intrinsic_size tree Apparent i = dn_size_bytes (node_entry tree i)"
  by (simp add: intrinsic_size_def node_size_def node_entry_def DiskUsageNode_new_def split: option.split)

lemma hidden_Apparent: "hidden_size tree Apparent i = dn_descendant_size_bytes (node_entry tree i)"
  by (simp add: hidden_size_def node_entry_def DiskUsageNode_new_def split: option.split)

lemma layout_leaf_sel [simp]:
  "ln_size_bytes (layout_leaf tree i b cs) = b" "ln_children (layout_leaf tree i b cs) = cs"
  "ln_node_id (layout_leaf tree i b cs) = i"
  by (simp_all add: layout_leaf_def split: option.split)

definition sized_by :: "du_tree \<Rightarrow> node_id set \<Rightarrow> u64 \<Rightarrow> bool" where
  "sized_by tree S b \<longleftrightarrow> unat b = node_cap (own_sum tree S)"

lemma sized_by_add:
  "sized_by tree A a \<Longrightarrow> sized_by tree B b \<Longrightarrow> finite A \<Longrightarrow> finite B \<Longrightarrow> A \<inter> B = {} \<Longrightarrow>
     sized_by tree (A \<union> B) (saturating_add a b)"
  unfolding sized_by_def by (simp add: own_sum_union node_cap_add)

lemma sized_by_empty [simp]: "sized_by tree {} 0"
  by (simp add: sized_by_def node_cap_def)

lemma sized_by_own: "sized_by tree {i} (dn_size_bytes (node_entry tree i))"
  using node_cap_word by (simp add: sized_by_def own_sum_def)

lemma sized_by_subtree:
  "parents_ok tree \<Longrightarrow> sized_by tree (below tree i) b \<Longrightarrow>
     sized_by tree (subtree tree i) (saturating_add (dn_size_bytes (node_entry tree i)) b)"
  using sized_by_add [OF sized_by_own, of tree "below tree i" b i]
  by (simp add: subtree_def finite_below not_own_descendant)

lemma sized_by_hidden: "du_inv tree \<Longrightarrow> sized_by tree (below tree i) (dn_descendant_size_bytes (node_entry tree i))"
  by (simp add: sized_by_def du_inv_def apparent.totals_ok_def apparent.total_def own_sum_def)

lemma shaped_members: "tree_shaped tree \<Longrightarrow> members_parent tree c (container_members tree c)"
  by (simp add: members_parent_def tree_shaped_def)

text \<open>A run over members, given that each member is laid out right.\<close>

lemma build_members_size:
  assumes ok: "parents_ok tree"
    and inner: "\<And>i visited n visited'. subtree tree i \<inter> visited = {} \<Longrightarrow>
      build_inner tree Apparent depth i visited = (n, visited') \<Longrightarrow>
      sized_by tree (subtree tree i) (ln_size_bytes n) \<and> visited' \<subseteq> visited \<union> subtree tree i"
  shows "members_parent tree c ms \<Longrightarrow> (\<Union>m\<in>set ms. subtree tree m) \<inter> visited = {} \<Longrightarrow> finite S \<Longrightarrow>
      S \<inter> (\<Union>m\<in>set ms. subtree tree m) = {} \<Longrightarrow> sized_by tree S s \<Longrightarrow>
      build_members tree Apparent depth ms visited s = ((ns, s'), visited') \<Longrightarrow>
      sized_by tree (S \<union> (\<Union>m\<in>set ms. subtree tree m)) s' \<and> visited' \<subseteq> visited \<union> (\<Union>m\<in>set ms. subtree tree m)"
proof (induction ms arbitrary: visited S s ns)
  case Nil
  then show ?case by simp
next
  case (Cons m ms)
  obtain n v where n: "build_inner tree Apparent depth m visited = (n, v)" by fastforce
  with Cons.prems(6) obtain ns' where rest: "build_members tree Apparent depth ms v (saturating_add s (ln_size_bytes n)) =
      ((ns', s'), visited')" by (auto split: prod.splits)
  from Cons.prems(2) have "subtree tree m \<inter> visited = {}" by auto
  from inner [OF this n] have first: "sized_by tree (subtree tree m) (ln_size_bytes n)" "v \<subseteq> visited \<union> subtree tree m" by auto
  note disj = members_disjoint [OF ok Cons.prems(1)]
  have sized: "sized_by tree (S \<union> subtree tree m) (saturating_add s (ln_size_bytes n))"
    by (rule sized_by_add [OF Cons.prems(5) first(1) Cons.prems(3) subtree_finite [OF ok]]) (use Cons.prems(4) in auto)
  have "sized_by tree (S \<union> subtree tree m \<union> (\<Union>k\<in>set ms. subtree tree k)) s' \<and>
      visited' \<subseteq> v \<union> (\<Union>k\<in>set ms. subtree tree k)"
    by (rule Cons.IH [OF _ _ _ _ sized rest])
      (use Cons.prems disj first(2) subtree_finite [OF ok] in \<open>auto simp: members_parent_def\<close>)
  then show ?case using first(2) by (auto simp: Un_assoc)
qed

lemma build_inner_size:
  assumes inv: "du_inv tree" and shaped: "tree_shaped tree"
  shows "subtree tree i \<inter> visited = {} \<Longrightarrow> build_inner tree Apparent depth i visited = (n, visited') \<Longrightarrow>
      sized_by tree (subtree tree i) (ln_size_bytes n) \<and> visited' \<subseteq> visited \<union> subtree tree i"
proof (induction depth arbitrary: i visited n visited')
  have ok: "parents_ok tree" using inv by (simp add: du_inv_def)
  {
    case 0
    then have "i \<notin> visited" by (auto simp: subtree_def)
    with 0(2) show ?case
      using sized_by_subtree [OF ok sized_by_hidden [OF inv]]
      by (auto simp: build_inner.simps intrinsic_Apparent hidden_Apparent subtree_def)
  next
    case (Suc depth)
    then have new: "i \<notin> visited" by (auto simp: subtree_def)
    obtain ns s' v where run: "build_members tree Apparent depth (container_members tree i) (insert i visited) 0 = ((ns, s'), v)"
      by (metis surj_pair)
    have below: "(\<Union>m\<in>set (container_members tree i). subtree tree m) = below tree i"
      using below_members [OF _ shaped] inv by (simp add: du_inv_def)
    have "sized_by tree ({} \<union> (\<Union>m\<in>set (container_members tree i). subtree tree m)) s' \<and>
        v \<subseteq> insert i visited \<union> (\<Union>m\<in>set (container_members tree i). subtree tree m)"
      by (rule build_members_size [OF ok Suc.IH shaped_members [OF shaped] _ _ _ _ run])
        (unfold below, use Suc.prems(1) not_own_descendant [OF ok] in \<open>auto simp: subtree_def\<close>)
    then show ?case
      using Suc.prems(2) new run sized_by_subtree [OF ok, of i s'] unfolding below
      by (auto simp: build_inner.simps [of _ _ "Suc depth"] intrinsic_Apparent subtree_def)
  }
qed

section \<open>The filtered layout\<close>

definition enough_fuel :: "du_tree \<Rightarrow> node_id set \<Rightarrow> nat \<Rightarrow> bool" where
  "enough_fuel tree visited fuel \<longleftrightarrow> finite (dom (dt_nodes tree)) \<and> card (dom (dt_nodes tree) - visited) < fuel"

lemma enough_fuel_mono: "enough_fuel tree visited fuel \<Longrightarrow> visited \<subseteq> visited' \<Longrightarrow> enough_fuel tree visited' fuel"
  unfolding enough_fuel_def by (meson Diff_mono card_mono finite_Diff order_le_less_trans order_refl)

lemma enough_fuel_step:
  assumes "enough_fuel tree visited (Suc fuel)" and "i \<in> dom (dt_nodes tree)" and "i \<notin> visited"
  shows "enough_fuel tree (insert i visited) fuel"
proof -
  have "card (dom (dt_nodes tree) - insert i visited) < card (dom (dt_nodes tree) - visited)"
    by (rule psubset_card_mono) (use assms in \<open>auto simp: enough_fuel_def\<close>)
  with assms(1) show ?thesis by (simp add: enough_fuel_def)
qed

lemma build_filtered_returns:
  "enough_fuel tree (snd st) fuel \<Longrightarrow>
     \<exists>r polls' visited'. build_filtered_inner fuel tree mode matches cancelled depth structural_root i st =
       Some (r, polls', visited') \<and> snd st \<subseteq> visited'"
  "enough_fuel tree (snd st) fuel \<Longrightarrow>
     \<exists>r polls' visited'. build_filtered_members fuel tree mode matches cancelled depth ms st vs n =
       Some (r, polls', visited') \<and> snd st \<subseteq> visited'"
proof (induction fuel tree mode matches cancelled depth structural_root i st
    and fuel tree mode matches cancelled depth ms st vs n rule: build_filtered_inner_build_filtered_members.induct)
  case (1 tree mode matches cancelled depth structural_root i st)
  then show ?case by (simp add: enough_fuel_def)
next
  case (2 fuel tree mode matches cancelled depth structural_root i polls visited)
  show ?case
  proof (cases "cancelled polls \<or> i \<in> visited \<or> dt_nodes tree i = None")
    case True
    then show ?thesis by (auto simp: Let_def)
  next
    case False
    then obtain source where s: "dt_nodes tree i = Some source" and new: "\<not> (cancelled polls \<or> i \<in> visited)" by auto
    have "enough_fuel tree (insert i visited) fuel" using enough_fuel_step [of tree visited fuel i] 2(2) new s by auto
    note go = 2(1) [OF new refl s refl]
    show ?thesis
    proof (cases "\<not> structural_root \<and> matches source \<or> dn_kind source \<noteq> Container")
      case True
      then show ?thesis using new s by (auto simp: Let_def)
    next
      case False
      then obtain r polls' visited' where
          "build_filtered_members fuel tree mode matches cancelled depth (container_members tree i) (polls + 1, insert i visited) [] 0 =
            Some (r, polls', visited')" "insert i visited \<subseteq> visited'"
        using go \<open>enough_fuel tree (insert i visited) fuel\<close> by auto
      then show ?thesis using new s False by (cases r) (auto simp: Let_def)
    qed
  qed
next
  case (3 fuel tree mode matches cancelled depth st vs n)
  then show ?case by (cases st) auto
next
  case (4 fuel tree mode matches cancelled depth m ms polls visited vs n)
  show ?case
  proof (cases "cancelled polls")
    case False
    with 4(1,4) obtain r polls' visited' where run: "build_filtered_inner fuel tree mode matches cancelled (depth - 1) False m
        (polls + 1, visited) = Some (r, polls', visited')" and sub: "visited \<subseteq> visited'" by fastforce
    have fuel: "enough_fuel tree visited' fuel" using 4(4) sub by (auto intro: enough_fuel_mono)
    show ?thesis
      using 4(2) [OF False, of _ None] 4(3) [OF False] False run sub fuel by (cases r) fastforce+
  qed simp
qed

text \<open>What a filter selects below a node: the matches and everything below a match.\<close>

definition selected :: "du_tree \<Rightarrow> (du_node \<Rightarrow> bool) \<Rightarrow> node_id \<Rightarrow> node_id set" where
  "selected tree matches i = (\<Union>a\<in>{a \<in> below tree i. matches (node_entry tree a)}. subtree tree a)"

definition picked :: "du_tree \<Rightarrow> (du_node \<Rightarrow> bool) \<Rightarrow> node_id \<Rightarrow> node_id set" where
  "picked tree matches m = (if matches (node_entry tree m) then subtree tree m else selected tree matches m)"

lemma subtree_trans: "a \<in> subtree tree m \<Longrightarrow> subtree tree a \<subseteq> subtree tree m"
  by (auto simp: subtree_trancl)

lemma picked_sub: "picked tree matches m \<subseteq> subtree tree m"
  by (auto simp: picked_def selected_def subtree_trancl below_def dest!: trancl_into_rtrancl intro: rtrancl_trans)

lemma picked_eq: "picked tree matches m = (\<Union>a\<in>{a \<in> subtree tree m. matches (node_entry tree a)}. subtree tree a)"
proof -
  have "{a \<in> subtree tree m. matches (node_entry tree a)} =
      (if matches (node_entry tree m) then insert m else id) {a \<in> below tree m. matches (node_entry tree a)}"
    by (auto simp: subtree_def)
  moreover have "subtree tree a \<subseteq> subtree tree m" if "a \<in> below tree m" for a
    using that by (intro subtree_trans) (simp add: subtree_def)
  ultimately show ?thesis by (auto simp: picked_def selected_def)
qed

lemma selected_members:
  assumes "links_ok tree" and "tree_shaped tree"
  shows "selected tree matches c = (\<Union>m\<in>set (container_members tree c). picked tree matches m)"
  by (auto simp: selected_def picked_eq below_members [OF assms])

lemma saturating_add_0: "saturating_add s 0 = s" for s :: u64
  using unsigned_less [of s, where ?'a = nat] by (simp add: word_eq_unat_iff arith_word)

lemma build_filtered_members_size:
  assumes ok: "parents_ok tree"
    and inner: "\<And>depth m polls visited r polls' visited'. subtree tree m \<inter> visited = {} \<Longrightarrow>
      build_filtered_inner fuel tree Apparent matches (\<lambda>_. False) depth False m (polls, visited) = Some (r, polls', visited') \<Longrightarrow>
      sized_by tree (picked tree matches m) (case r of None \<Rightarrow> 0 | Some n \<Rightarrow> ln_size_bytes n) \<and>
      visited' \<subseteq> visited \<union> subtree tree m"
  shows "members_parent tree c ms \<Longrightarrow> (\<Union>m\<in>set ms. subtree tree m) \<inter> visited = {} \<Longrightarrow> finite S \<Longrightarrow>
      S \<inter> (\<Union>m\<in>set ms. subtree tree m) = {} \<Longrightarrow> sized_by tree S s \<Longrightarrow>
      build_filtered_members fuel tree Apparent matches (\<lambda>_. False) depth ms (polls, visited) vs s = Some (r, polls', visited') \<Longrightarrow>
      \<exists>vs' s'. r = Some (vs', s') \<and> sized_by tree (S \<union> (\<Union>m\<in>set ms. picked tree matches m)) s' \<and>
        visited' \<subseteq> visited \<union> (\<Union>m\<in>set ms. subtree tree m)"
proof (induction ms arbitrary: polls visited S s vs)
  case Nil
  then show ?case by fastforce
next
  case (Cons m ms)
  from Cons.prems(6) obtain q p v where first: "build_filtered_inner fuel tree Apparent matches (\<lambda>_. False) (depth - 1) False m
      (polls + 1, visited) = Some (q, p, v)"
    by (auto split: option.splits prod.splits)
  let ?b = "case q of None \<Rightarrow> 0 | Some n \<Rightarrow> ln_size_bytes n"
  from Cons.prems(6) first obtain vs' where rest: "build_filtered_members fuel tree Apparent matches (\<lambda>_. False) depth ms (p, v) vs'
      (saturating_add s ?b) = Some (r, polls', visited')"
    by (cases q) (auto simp: saturating_add_0)
  from Cons.prems(2) have "subtree tree m \<inter> visited = {}" by auto
  from inner [OF this first] have m: "sized_by tree (picked tree matches m) ?b" "v \<subseteq> visited \<union> subtree tree m" by auto
  note disj = members_disjoint [OF ok Cons.prems(1)] and sub = picked_sub [of tree matches m]
  have fin: "finite (picked tree matches m)" using sub subtree_finite [OF ok] by (rule finite_subset)
  have sized: "sized_by tree (S \<union> picked tree matches m) (saturating_add s ?b)"
    by (rule sized_by_add [OF Cons.prems(5) m(1) Cons.prems(3) fin]) (use Cons.prems(4) sub in auto)
  have "\<exists>vs' s'. r = Some (vs', s') \<and> sized_by tree (S \<union> picked tree matches m \<union> (\<Union>k\<in>set ms. picked tree matches k)) s' \<and>
      visited' \<subseteq> v \<union> (\<Union>k\<in>set ms. subtree tree k)"
    by (rule Cons.IH [OF _ _ _ _ sized rest])
      (use Cons.prems disj m(2) sub fin in \<open>auto simp: members_parent_def\<close>)
  then obtain vs' s' where "r = Some (vs', s')" "visited' \<subseteq> v \<union> (\<Union>k\<in>set ms. subtree tree k)"
      "sized_by tree (S \<union> (\<Union>k\<in>set (m # ms). picked tree matches k)) s'" by (auto simp: Un_assoc)
  moreover from this(2) m(2) have "visited' \<subseteq> visited \<union> (\<Union>k\<in>set (m # ms). subtree tree k)"
    by (simp add: subset_iff) blast
  ultimately show ?case by blast
qed

lemma ln_size_sort [simp]: "ln_size_bytes (sort_children_by_size n) = ln_size_bytes n"
  by (cases n) simp

lemma build_filtered_inner_size:
  assumes inv: "du_inv tree" and shaped: "tree_shaped tree"
  shows "subtree tree i \<inter> visited = {} \<Longrightarrow>
      build_filtered_inner fuel tree Apparent matches (\<lambda>_. False) depth root i (polls, visited) = Some (r, polls', visited') \<Longrightarrow>
      sized_by tree (if root then selected tree matches i else picked tree matches i)
        (case r of None \<Rightarrow> 0 | Some n \<Rightarrow> ln_size_bytes n) \<and> visited' \<subseteq> visited \<union> subtree tree i"
proof (induction fuel arbitrary: depth root i polls visited r polls' visited')
  case 0
  then show ?case by simp
next
  case (Suc fuel)
  have ok: "parents_ok tree" and links: "links_ok tree" using inv by (simp_all add: du_inv_def)
  from Suc.prems(1) have new: "i \<notin> visited" by (simp add: subtree_def)
  have none: "below tree i = {}" if "i \<notin> dom (dt_nodes tree) \<or> dn_kind (node_entry tree i) \<noteq> Container"
  proof -
    have "parent_of tree m \<noteq> Some i" for m using that ok links by (auto simp: parents_ok_def links_ok_def)
    then have "(m, i) \<notin> parent_rel tree" for m by (simp add: parent_rel_def)
    then show ?thesis by (auto simp: below_def dest: tranclD2)
  qed
  show ?case
  proof (cases "dt_nodes tree i")
    case None
    then have "dn_size_bytes (node_entry tree i) = 0" by (simp add: node_entry_def DiskUsageNode_new_def)
    then have "sized_by tree {i} 0" using sized_by_own [of tree i] by simp
    moreover have "below tree i = {}" using none None by auto
    ultimately show ?thesis
      using Suc.prems(2) None new by (auto simp: Let_def picked_def selected_def subtree_def)
  next
    case (Some source)
    then have src: "node_entry tree i = source" by (simp add: node_entry_def)
    consider (hit) "\<not> root" "matches source" "dn_kind source = Container" | (leaf) "dn_kind source \<noteq> Container"
      | (walk) "root \<or> \<not> matches source" "dn_kind source = Container" by blast
    then show ?thesis
    proof cases
      case hit
      obtain n v where n: "build_inner tree Apparent depth i {} = (n, v)" by fastforce
      from build_inner_size [OF inv shaped _ n] hit Suc.prems(2) Some new n src show ?thesis
        by (auto simp: Let_def picked_def subtree_def)
    next
      case leaf
      with none src have "below tree i = {}" by simp
      with leaf Suc.prems(2) Some new src sized_by_own [of tree i] show ?thesis
        by (auto simp: Let_def picked_def selected_def subtree_def node_size_def split: if_splits)
    next
      case walk
      let ?run = "build_filtered_members fuel tree Apparent matches (\<lambda>_. False) depth (container_members tree i)
          (polls + 1, insert i visited) [] 0"
      have below: "(\<Union>m\<in>set (container_members tree i). subtree tree m) = below tree i"
        using below_members [OF links shaped] by simp
      obtain q p v where run: "?run = Some (q, p, v)"
        using Suc.prems(2) Some new walk by (auto simp: Let_def split: option.splits)
      have "\<exists>vs' s'. q = Some (vs', s') \<and> sized_by tree ({} \<union> (\<Union>m\<in>set (container_members tree i). picked tree matches m)) s' \<and>
          v \<subseteq> insert i visited \<union> (\<Union>m\<in>set (container_members tree i). subtree tree m)"
        by (rule build_filtered_members_size [OF ok _ shaped_members [OF shaped] _ _ _ _ run])
          (use Suc.IH [where root = False] in simp, unfold below, use Suc.prems(1) not_own_descendant [OF ok] in \<open>auto simp: subtree_def\<close>)
      then obtain vs' s' where q: "q = Some (vs', s')" "sized_by tree (selected tree matches i) s'" "v \<subseteq> visited \<union> subtree tree i"
        unfolding below selected_members [OF links shaped] by (auto simp: subtree_def)
      with Suc.prems(2) Some new walk run src show ?thesis
        by (auto simp: Let_def picked_def split: if_splits)
    qed
  qed
qed

section \<open>Sorting\<close>

primrec layout_sorted :: "layout_node \<Rightarrow> bool" where
  "layout_sorted (LayoutNode i bytes state kind category mtime children) \<longleftrightarrow>
     sorted_wrt (\<lambda>a b. ln_size_bytes b \<le> ln_size_bytes a) children \<and> list_all id (map layout_sorted children)"

text \<open>The ids and sizes of a whole layout, with repetitions.\<close>

primrec layout_items :: "layout_node \<Rightarrow> (node_id \<times> u64) multiset" where
  "layout_items (LayoutNode i bytes state kind category mtime children) =
     add_mset (i, bytes) (sum_list (map layout_items children))"

lemma sum_list_mset_cong: "mset xs = mset ys \<Longrightarrow> sum_list (map f xs) = sum_list (map f ys)" for f :: "'a \<Rightarrow> 'b multiset"
  by (metis mset_map sum_mset_sum_list)

lemma sort_level_sorted: "sorted_wrt (\<lambda>a b. ln_size_bytes b \<le> ln_size_bytes a) (sort_level cs)"
proof -
  have "sorted (map (\<lambda>c. - uint (ln_size_bytes c)) (sort_level cs))" by (simp add: sort_level_def)
  then show ?thesis by (simp add: sorted_wrt_map word_le_def)
qed

lemma sort_children_sorted: "layout_sorted (sort_children_by_size n)"
proof (induction n rule: sort_children_by_size.induct)
  case (1 i bytes state kind category mtime children)
  with sort_level_sorted [of children] show ?case
    by (auto simp: sorted_wrt_map list_all_iff)
qed

lemma sort_children_items: "layout_items (sort_children_by_size n) = layout_items n"
proof (induction n rule: sort_children_by_size.induct)
  case (1 i bytes state kind category mtime children)
  then have "map (layout_items \<circ> sort_children_by_size) (sort_level children) = map layout_items (sort_level children)"
    by simp
  moreover have "sum_list (map layout_items (sort_level children)) = sum_list (map layout_items children)"
    by (rule sum_list_mset_cong) (simp add: sort_level_def)
  ultimately show ?case by (simp only: sort_children_by_size.simps layout_items.simps map_map)
qed

section \<open>Properties of the layouts\<close>

text \<open>C10. The size a layout by apparent sizes shows at its root is right at every depth, and the same whether the children are laid out or collapsed: in a tree built from a well-formed stream of facts in which no node is linked twice, it is the sum of the sizes of the node and of all its descendants, capped at the width of \<open>u64\<close>.\<close>

theorem layout_root_size:
  assumes "stream_ok facts" and "apply_facts (DiskUsageTree_new root) facts = Some tree" and "tree_shaped tree"
  shows "unat (ln_size_bytes (build_layout_node tree i max_depth)) =
    node_cap (\<Sum>m\<in>insert i (below tree i). unat (dn_size_bytes (node_entry tree m)))"
proof -
  obtain n v where n: "build_inner tree Apparent max_depth i {} = (n, v)" by fastforce
  from build_inner_size [OF built_inv [OF assms(1,2)] assms(3) _ n] n show ?thesis
    by (simp add: build_layout_node_def build_layout_node_with_mode_def sized_by_def own_sum_def subtree_def)
qed

theorem layout_root_size_witness:
  "unat (ln_size_bytes (build_layout_node sample_du_tree 1 7)) = 10"
  using layout_root_size [OF sample_facts_ok sample_facts_applied sample_shape, of 1 7]
  by (simp add: sample_below node_cap_def) (simp add: sample_du_tree_def node_entry_def DiskUsageNode_new_def)

text \<open>In a layout every level is sorted by descending size, and sorting neither loses nor invents a node: the ids and sizes are those of the unsorted layout, with their repetitions.\<close>

theorem layout_is_sorted:
  "layout_sorted (build_layout_node_with_mode tree root max_depth mode) \<and>
   layout_items (build_layout_node_with_mode tree root max_depth mode) =
     layout_items (fst (build_inner tree mode max_depth root {}))"
  by (simp add: build_layout_node_with_mode_def sort_children_sorted sort_children_items)

text \<open>C17. The filtered layout always returns, also on a cyclic graph of containers: fuel above the number of known nodes is enough whatever the filter and the cancellation answer; a request that is cancelled at the start gives no layout, and a layout that is given is sorted.\<close>

theorem filtered_layout_returns:
  assumes "finite (dom (dt_nodes tree))" and "card (dom (dt_nodes tree)) < fuel"
  shows "\<exists>r. build_filtered_layout_node_with_mode fuel tree root max_depth mode matches cancelled = Some r \<and>
    (cancelled 0 \<longrightarrow> r = None) \<and> (\<forall>n. r = Some n \<longrightarrow> layout_sorted n)"
proof -
  obtain r polls visited where "build_filtered_inner fuel tree mode matches cancelled max_depth True root (0, {}) = Some (r, polls, visited)"
    using build_filtered_returns(1) [of tree "(0, {})" fuel mode matches cancelled max_depth True root] assms
    by (auto simp: enough_fuel_def)
  then show ?thesis
    using assms(2) by (cases fuel; cases r)
      (auto simp: build_filtered_layout_node_with_mode_def sort_children_sorted)
qed

theorem filtered_layout_returns_witness:
  "\<exists>r. build_filtered_layout_node_with_mode 3 sample_du_tree 1 4 Allocated (\<lambda>_. True) (\<lambda>_. True) = Some r \<and> r = None"
  using filtered_layout_returns [of sample_du_tree 3 1 4 Allocated "\<lambda>_. True" "\<lambda>_. True"] by (simp add: sample_du_tree_def)

text \<open>The filtered layout shows at its root exactly the bytes the filter selects, at every depth: the capped sum of the sizes of the descendants that match or lie below a match, each once; no layout means that this sum is zero.\<close>

theorem filtered_layout_size:
  assumes "stream_ok facts" and "apply_facts (DiskUsageTree_new root) facts = Some tree" and "tree_shaped tree"
    and "card (dom (dt_nodes tree)) < fuel"
  shows "\<exists>r. build_filtered_layout_node_with_mode fuel tree i max_depth Apparent matches (\<lambda>_. False) = Some r \<and>
    (case r of None \<Rightarrow> 0 | Some n \<Rightarrow> unat (ln_size_bytes n)) =
      node_cap (\<Sum>m\<in>selected tree matches i. unat (dn_size_bytes (node_entry tree m)))"
proof -
  have inv: "du_inv tree" by (rule built_inv [OF assms(1,2)])
  then have "enough_fuel tree {} fuel" using assms(4) by (simp add: enough_fuel_def du_inv_def parents_ok_def)
  then obtain r polls visited where run: "build_filtered_inner fuel tree Apparent matches (\<lambda>_. False) max_depth True i (0, {}) =
      Some (r, polls, visited)"
    using build_filtered_returns(1) [of tree "(0, {})" fuel Apparent matches "\<lambda>_. False" max_depth True i] by auto
  from build_filtered_inner_size [OF inv assms(3) _ run] run show ?thesis
    by (cases r) (auto simp: build_filtered_layout_node_with_mode_def sized_by_def own_sum_def)
qed

theorem filtered_layout_size_witness:
  "\<exists>r. build_filtered_layout_node_with_mode 3 sample_du_tree 1 0 Apparent (\<lambda>n. dn_size_bytes n = 10) (\<lambda>_. False) = Some r \<and>
    (case r of None \<Rightarrow> 0 | Some n \<Rightarrow> unat (ln_size_bytes n)) = 10"
proof -
  have size: "dn_size_bytes (node_entry sample_du_tree 2) = 10"
    by (simp add: sample_du_tree_def node_entry_def DiskUsageNode_new_def)
  then have sel: "selected sample_du_tree (\<lambda>n. dn_size_bytes n = 10) 1 = {2}"
    by (auto simp: selected_def subtree_def sample_below)
  have "card (dom (dt_nodes sample_du_tree)) < 3" by (simp add: sample_du_tree_def)
  from filtered_layout_size [OF sample_facts_ok sample_facts_applied sample_shape this, of 1 0 "\<lambda>n. dn_size_bytes n = 10"]
  show ?thesis by (simp add: sel size node_cap_def)
qed

end
