(* ===== verification/AssetWork.thy ===== *)
theory AssetWork
  imports Prelude "HOL-Library.AList" "HOL-Library.Multiset" "HOL-Library.Product_Lexorder"
begin

text \<open>
  \<open>ferail-core\<close>: \<open>asset_work.rs\<close>, the bounded scheduler of icon, thumbnail and property work.
  A lane keeps the requests that wait and those that run; workers share a cancellation flag with
  it (\<open>Arc<AtomicBool>\<close>), which is a cell of an explicit store, named by its index.
\<close>

section \<open>Requests\<close>

record file_revision =
  rev_byte_len :: u64
  rev_modified_ns :: "int option"

datatype asset_identity = IdFile u64 | IdSurfaceFile u64 u64 | IdPlatform u64
datatype asset_revision = RevFile file_revision | RevProvider u64
datatype asset_kind = TypeIcon u16 | ContentThumbnail u16 | Preview | Properties | Shortcut

record asset_key =
  ak_identity :: asset_identity
  ak_revision :: asset_revision
  ak_kind :: asset_kind

datatype asset_priority = Overscan | Visible | Selected

primrec priority_rank :: "asset_priority \<Rightarrow> nat" where
  "priority_rank Overscan = 0"
| "priority_rank Visible = 1"
| "priority_rank Selected = 2"

instantiation asset_priority :: linorder
begin

definition less_eq_asset_priority :: "asset_priority \<Rightarrow> asset_priority \<Rightarrow> bool" where
  "less_eq_asset_priority p q \<longleftrightarrow> priority_rank p \<le> priority_rank q"

definition less_asset_priority :: "asset_priority \<Rightarrow> asset_priority \<Rightarrow> bool" where
  "less_asset_priority p q \<longleftrightarrow> priority_rank p < priority_rank q"

instance
proof
  fix p q r :: asset_priority
  show "p < q \<longleftrightarrow> p \<le> q \<and> \<not> q \<le> p" "p \<le> p" "p \<le> q \<or> q \<le> p"
    by (auto simp: less_eq_asset_priority_def less_asset_priority_def)
  show "p \<le> q \<Longrightarrow> q \<le> r \<Longrightarrow> p \<le> r" by (simp add: less_eq_asset_priority_def)
  show "p \<le> q \<Longrightarrow> q \<le> p \<Longrightarrow> p = q" by (cases p; cases q; simp add: less_eq_asset_priority_def)
qed

end

datatype asset_lane = LaneProvider | LaneDecode | LaneUpload | LaneApply

type_synonym asset_scope = u64

record asset_request =
  rq_key :: asset_key
  rq_scope :: asset_scope
  rq_generation :: u64
  rq_priority :: asset_priority

datatype submit_outcome = Queued | Reprioritized | AlreadyScheduled | ReplacedLowerPriority | QueueFull
datatype cancel_outcome = NotFound | RemovedPending | SignaledActive

record submit_result =
  sr_outcome :: submit_outcome
  sr_evicted :: "asset_request option"

section \<open>One lane\<close>

type_synonym reservation = "asset_scope \<times> asset_key"

text \<open>\<open>StartedAssetWork\<close> and \<open>ActiveWork\<close> hold the same request and the same flag.\<close>

record started_work =
  sw_request :: asset_request
  sw_cancel :: nat

record bounded_lane =
  bl_concurrency :: nat
  bl_pending_capacity :: nat
  bl_pending :: "(u64 \<times> asset_request) list"
  bl_active :: "(reservation \<times> started_work) list"
  bl_sequence :: u64
  bl_cells :: "bool list"

definition BoundedAssetLane_new :: "nat \<Rightarrow> nat \<Rightarrow> bounded_lane" where
  "BoundedAssetLane_new concurrency pending_capacity =
     \<lparr>bl_concurrency = concurrency, bl_pending_capacity = pending_capacity, bl_pending = [], bl_active = [],
      bl_sequence = 0, bl_cells = []\<rparr>"

definition reservation_of :: "asset_request \<Rightarrow> reservation" where
  "reservation_of request = (rq_scope request, rq_key request)"

text \<open>\<open>is_cancelled\<close> of a worker, when the lane's store is \<open>bl_cells\<close>.\<close>

definition is_cancelled :: "bounded_lane \<Rightarrow> started_work \<Rightarrow> bool" where
  "is_cancelled lane work = bl_cells lane ! sw_cancel work"

text \<open>\<open>position\<close>, \<open>min_by_key\<close> (the first of the least) and \<open>max_by_key\<close> (the last of the greatest).\<close>

fun position :: "('a \<Rightarrow> bool) \<Rightarrow> 'a list \<Rightarrow> nat option" where
  "position P [] = None"
| "position P (x # xs) = (if P x then Some 0 else map_option Suc (position P xs))"

fun min_index :: "('a \<Rightarrow> 'k::linorder) \<Rightarrow> 'a list \<Rightarrow> nat option" where
  "min_index key [] = None"
| "min_index key (x # xs) =
     (case min_index key xs of None \<Rightarrow> Some 0 | Some i \<Rightarrow> if key (xs ! i) < key x then Some (Suc i) else Some 0)"

fun max_index :: "('a \<Rightarrow> 'k::linorder) \<Rightarrow> 'a list \<Rightarrow> nat option" where
  "max_index key [] = None"
| "max_index key (x # xs) =
     (case max_index key xs of None \<Rightarrow> Some 0 | Some i \<Rightarrow> if key (xs ! i) < key x then Some 0 else Some (Suc i))"

definition remove_at :: "nat \<Rightarrow> 'a list \<Rightarrow> 'a list" where
  "remove_at i xs = take i xs @ drop (Suc i) xs"

definition dispatch_key :: "u64 \<times> asset_request \<Rightarrow> asset_priority \<times> u64" where
  "dispatch_key p = (rq_priority (snd p), fst p)"

definition SubmitResult :: "submit_outcome \<Rightarrow> asset_request option \<Rightarrow> submit_result" where
  "SubmitResult outcome evicted = \<lparr>sr_outcome = outcome, sr_evicted = evicted\<rparr>"

definition submit_detailed :: "bounded_lane \<Rightarrow> asset_request \<Rightarrow> submit_result \<times> bounded_lane" where
  "submit_detailed lane request =
     (if map_of (bl_active lane) (reservation_of request) \<noteq> None then (SubmitResult AlreadyScheduled None, lane)
      else
      case position (\<lambda>(_, queued). reservation_of queued = reservation_of request) (bl_pending lane) of
        Some i \<Rightarrow>
          (let queued = snd (bl_pending lane ! i) in
           if rq_generation queued = rq_generation request \<and> rq_priority request \<le> rq_priority queued
           then (SubmitResult AlreadyScheduled None, lane)
           else
           let sequence = bl_sequence lane + 1 in
           (SubmitResult Reprioritized None,
            lane\<lparr>bl_sequence := sequence, bl_pending := (bl_pending lane)[i := (sequence, request)]\<rparr>))
      | None \<Rightarrow>
          (let sequence = bl_sequence lane + 1;
               lane = lane\<lparr>bl_sequence := sequence\<rparr> in
           if length (bl_pending lane) < bl_pending_capacity lane then
             (SubmitResult Queued None, lane\<lparr>bl_pending := bl_pending lane @ [(sequence, request)]\<rparr>)
           else
           case min_index dispatch_key (bl_pending lane) of
             None \<Rightarrow> (SubmitResult QueueFull None, lane)
           | Some worst \<Rightarrow>
               let evicted = snd (bl_pending lane ! worst) in
               if rq_priority request \<le> rq_priority evicted then (SubmitResult QueueFull None, lane)
               else (SubmitResult ReplacedLowerPriority (Some evicted),
                     lane\<lparr>bl_pending := (bl_pending lane)[worst := (sequence, request)]\<rparr>)))"

definition submit :: "bounded_lane \<Rightarrow> asset_request \<Rightarrow> submit_outcome \<times> bounded_lane" where
  "submit lane request = (case submit_detailed lane request of (result, lane) \<Rightarrow> (sr_outcome result, lane))"

definition start_next :: "bounded_lane \<Rightarrow> started_work option \<times> bounded_lane" where
  "start_next lane =
     (if bl_concurrency lane \<le> length (bl_active lane) then (None, lane)
      else
      case max_index dispatch_key (bl_pending lane) of
        None \<Rightarrow> (None, lane)
      | Some next_index \<Rightarrow>
          let request = snd (bl_pending lane ! next_index);
              work = \<lparr>sw_request = request, sw_cancel = length (bl_cells lane)\<rparr> in
          (Some work,
           lane\<lparr>bl_pending := remove_at next_index (bl_pending lane), bl_cells := bl_cells lane @ [False],
             bl_active := AList.update (reservation_of request) work (bl_active lane)\<rparr>))"

definition complete :: "bounded_lane \<Rightarrow> asset_request \<Rightarrow> bool \<times> bounded_lane" where
  "complete lane request =
     (case map_of (bl_active lane) (reservation_of request) of
        Some active \<Rightarrow>
          if rq_generation (sw_request active) = rq_generation request
          then (True, lane\<lparr>bl_active := AList.delete (reservation_of request) (bl_active lane)\<rparr>)
          else (False, lane)
      | None \<Rightarrow> (False, lane))"

definition cancel :: "bounded_lane \<Rightarrow> asset_request \<Rightarrow> cancel_outcome \<times> bounded_lane" where
  "cancel lane request =
     (case position (\<lambda>(_, queued). reservation_of queued = reservation_of request \<and>
             rq_generation queued = rq_generation request) (bl_pending lane) of
        Some index \<Rightarrow> (RemovedPending, lane\<lparr>bl_pending := remove_at index (bl_pending lane)\<rparr>)
      | None \<Rightarrow>
          (case map_of (bl_active lane) (reservation_of request) of
             Some active \<Rightarrow>
               if rq_generation (sw_request active) = rq_generation request
               then (SignaledActive, lane\<lparr>bl_cells := (bl_cells lane)[sw_cancel active := True]\<rparr>)
               else (NotFound, lane)
           | None \<Rightarrow> (NotFound, lane)))"

text \<open>Work of the scope that belongs to another generation.\<close>

definition stale :: "asset_scope \<Rightarrow> u64 \<Rightarrow> asset_request \<Rightarrow> bool" where
  "stale scope generation request \<longleftrightarrow> rq_scope request = scope \<and> rq_generation request \<noteq> generation"

fun signal_stale :: "asset_scope \<Rightarrow> u64 \<Rightarrow> (reservation \<times> started_work) list \<Rightarrow> bool list \<Rightarrow> bool list" where
  "signal_stale scope generation [] cells = cells"
| "signal_stale scope generation ((_, active) # rest) cells =
     signal_stale scope generation rest
       (if stale scope generation (sw_request active) then cells[sw_cancel active := True] else cells)"

definition retire_scope_generation :: "bounded_lane \<Rightarrow> asset_scope \<Rightarrow> u64 \<Rightarrow> asset_request list \<times> bounded_lane" where
  "retire_scope_generation lane scope generation =
     (filter (stale scope generation) (map snd (bl_pending lane)),
      lane\<lparr>bl_pending := filter (\<lambda>(_, request). \<not> stale scope generation request) (bl_pending lane),
        bl_cells := signal_stale scope generation (bl_active lane) (bl_cells lane)\<rparr>)"

definition retain_scope_generation :: "bounded_lane \<Rightarrow> asset_scope \<Rightarrow> u64 \<Rightarrow> bounded_lane" where
  "retain_scope_generation lane scope generation = snd (retire_scope_generation lane scope generation)"

definition lane_counts :: "bounded_lane \<Rightarrow> nat \<times> nat" where
  "lane_counts lane = (length (bl_active lane), length (bl_pending lane))"

section \<open>The coordinator\<close>

record lane_budget =
  lb_concurrency :: nat
  lb_pending_capacity :: nat

record work_budgets =
  wb_provider :: lane_budget
  wb_decode :: lane_budget
  wb_upload :: lane_budget
  wb_apply :: lane_budget

record coordinator =
  co_provider :: bounded_lane
  co_decode :: bounded_lane
  co_upload :: bounded_lane
  co_apply :: bounded_lane

definition AssetWorkCoordinator_new :: "work_budgets \<Rightarrow> coordinator" where
  "AssetWorkCoordinator_new budgets =
     (let lane = (\<lambda>budget. BoundedAssetLane_new (lb_concurrency budget) (lb_pending_capacity budget)) in
      \<lparr>co_provider = lane (wb_provider budgets), co_decode = lane (wb_decode budgets),
       co_upload = lane (wb_upload budgets), co_apply = lane (wb_apply budgets)\<rparr>)"

primrec co_lane :: "asset_lane \<Rightarrow> coordinator \<Rightarrow> bounded_lane" where
  "co_lane LaneProvider co = co_provider co"
| "co_lane LaneDecode co = co_decode co"
| "co_lane LaneUpload co = co_upload co"
| "co_lane LaneApply co = co_apply co"

text \<open>\<open>lane_mut\<close>: a change of one lane, stored back.\<close>

primrec co_put :: "asset_lane \<Rightarrow> bounded_lane \<Rightarrow> coordinator \<Rightarrow> coordinator" where
  "co_put LaneProvider lane co = co\<lparr>co_provider := lane\<rparr>"
| "co_put LaneDecode lane co = co\<lparr>co_decode := lane\<rparr>"
| "co_put LaneUpload lane co = co\<lparr>co_upload := lane\<rparr>"
| "co_put LaneApply lane co = co\<lparr>co_apply := lane\<rparr>"

definition on_lane :: "asset_lane \<Rightarrow> (bounded_lane \<Rightarrow> 'a \<times> bounded_lane) \<Rightarrow> coordinator \<Rightarrow> 'a \<times> coordinator" where
  "on_lane l f co = (case f (co_lane l co) of (x, lane) \<Rightarrow> (x, co_put l lane co))"

definition co_submit :: "coordinator \<Rightarrow> asset_lane \<Rightarrow> asset_request \<Rightarrow> submit_outcome \<times> coordinator" where
  "co_submit co l request = on_lane l (\<lambda>lane. submit lane request) co"

definition co_submit_detailed :: "coordinator \<Rightarrow> asset_lane \<Rightarrow> asset_request \<Rightarrow> submit_result \<times> coordinator" where
  "co_submit_detailed co l request = on_lane l (\<lambda>lane. submit_detailed lane request) co"

definition co_start_next :: "coordinator \<Rightarrow> asset_lane \<Rightarrow> started_work option \<times> coordinator" where
  "co_start_next co l = on_lane l start_next co"

definition co_complete :: "coordinator \<Rightarrow> asset_lane \<Rightarrow> asset_request \<Rightarrow> bool \<times> coordinator" where
  "co_complete co l request = on_lane l (\<lambda>lane. complete lane request) co"

definition co_cancel :: "coordinator \<Rightarrow> asset_lane \<Rightarrow> asset_request \<Rightarrow> cancel_outcome \<times> coordinator" where
  "co_cancel co l request = on_lane l (\<lambda>lane. cancel lane request) co"

definition all_lanes :: "asset_lane list" where
  "all_lanes = [LaneProvider, LaneDecode, LaneUpload, LaneApply]"

definition co_retain_scope_generation :: "coordinator \<Rightarrow> asset_scope \<Rightarrow> u64 \<Rightarrow> coordinator" where
  "co_retain_scope_generation co scope generation =
     fold (\<lambda>l co. co_put l (retain_scope_generation (co_lane l co) scope generation) co) all_lanes co"

fun retire_lanes ::
    "asset_lane list \<Rightarrow> coordinator \<Rightarrow> asset_scope \<Rightarrow> u64 \<Rightarrow> (asset_lane \<times> asset_request) list \<times> coordinator" where
  "retire_lanes [] co scope generation = ([], co)"
| "retire_lanes (l # ls) co scope generation =
     (let (requests, co) = on_lane l (\<lambda>lane. retire_scope_generation lane scope generation) co;
          (retired, co) = retire_lanes ls co scope generation in
      (map (Pair l) requests @ retired, co))"

definition co_retire_scope_generation ::
    "coordinator \<Rightarrow> asset_scope \<Rightarrow> u64 \<Rightarrow> (asset_lane \<times> asset_request) list \<times> coordinator" where
  "co_retire_scope_generation co scope generation = retire_lanes all_lanes co scope generation"

definition co_counts :: "coordinator \<Rightarrow> asset_lane \<Rightarrow> nat \<times> nat" where
  "co_counts co l = lane_counts (co_lane l co)"

end
