(* ===== verification/AssetWorkProps.thy ===== *)
theory AssetWorkProps
  imports AssetWork
begin

text \<open>
  The scheduler of \<open>asset_work.rs\<close>: an invariant of a lane that every operation keeps, the
  coordinator as a transition system over its four lanes, and what each operation promises.
\<close>

section \<open>Searching a list\<close>

lemma position_Some: "position P xs = Some i \<Longrightarrow> i < length xs \<and> P (xs ! i)"
  by (induction xs arbitrary: i) (auto split: if_splits)

lemma position_None: "position P xs = None \<longleftrightarrow> (\<forall>x\<in>set xs. \<not> P x)"
  by (induction xs) (auto split: if_splits)

lemma min_index_None [simp]: "min_index key xs = None \<longleftrightarrow> xs = []"
  by (cases xs) (auto split: option.splits)

lemma max_index_None [simp]: "max_index key xs = None \<longleftrightarrow> xs = []"
  by (cases xs) (auto split: option.splits)

lemma min_index_Some: "min_index key xs = Some i \<Longrightarrow> i < length xs \<and> (\<forall>x\<in>set xs. key (xs ! i) \<le> key x)"
proof (induction xs arbitrary: i)
  case (Cons x xs)
  show ?case
  proof (cases "min_index key xs")
    case (Some j)
    with Cons show ?thesis by (cases "key (xs ! j) < key x") fastforce+
  qed (use Cons in simp)
qed simp

lemma max_index_Some: "max_index key xs = Some i \<Longrightarrow> i < length xs \<and> (\<forall>x\<in>set xs. key x \<le> key (xs ! i))"
proof (induction xs arbitrary: i)
  case (Cons x xs)
  show ?case
  proof (cases "max_index key xs")
    case (Some j)
    with Cons show ?thesis by (cases "key (xs ! j) < key x") fastforce+
  qed (use Cons in simp)
qed simp

lemma remove_at_map: "map f (remove_at i xs) = remove_at i (map f xs)"
  by (simp add: remove_at_def take_map drop_map)

lemma remove_at_mset: "i < length xs \<Longrightarrow> add_mset (xs ! i) (mset (remove_at i xs)) = mset xs"
  by (metis add_mset_add_single append_take_drop_id id_take_nth_drop mset.simps(2) mset_append remove_at_def
      union_mset_add_mset_right)

lemma remove_at_mset_eq: "i < length xs \<Longrightarrow> mset (remove_at i xs) = mset xs - {#xs ! i#}"
  by (metis add_mset_remove_trivial remove_at_mset)

lemma remove_at_set: "set (remove_at i xs) \<subseteq> set xs"
  by (auto simp: remove_at_def dest: in_set_takeD in_set_dropD)

lemma remove_at_length: "i < length xs \<Longrightarrow> length (remove_at i xs) = length xs - 1"
  by (simp add: remove_at_def)

lemma remove_at_distinct:
  assumes "distinct xs" and "i < length xs"
  shows "distinct (remove_at i xs)" and "xs ! i \<notin> set (remove_at i xs)"
proof -
  have "xs = take i xs @ xs ! i # drop (Suc i) xs" using assms(2) by (rule id_take_nth_drop)
  with assms(1) have "distinct (take i xs @ xs ! i # drop (Suc i) xs)" by metis
  then show "distinct (remove_at i xs)" and "xs ! i \<notin> set (remove_at i xs)" by (auto simp: remove_at_def)
qed

lemma disjoint_insert_mono: "A \<inter> C = {} \<Longrightarrow> B \<subseteq> insert x A \<Longrightarrow> x \<notin> C \<Longrightarrow> B \<inter> C = {}"
  and disjoint_mono: "A \<inter> C = {} \<Longrightarrow> B \<subseteq> A \<Longrightarrow> B \<inter> C = {}"
  and disjoint_mem: "A \<inter> C = {} \<Longrightarrow> x \<in> A \<Longrightarrow> x \<notin> C"
  by blast+

section \<open>The invariant of a lane\<close>

definition pending_requests :: "bounded_lane \<Rightarrow> asset_request list" where
  "pending_requests lane = map snd (bl_pending lane)"

definition pending_reservations :: "bounded_lane \<Rightarrow> reservation list" where
  "pending_reservations lane = map reservation_of (pending_requests lane)"

definition active_ok :: "(reservation \<times> started_work) list \<Rightarrow> nat \<Rightarrow> bool" where
  "active_ok active cells \<longleftrightarrow> distinct (map fst active) \<and> distinct (map (sw_cancel \<circ> snd) active) \<and>
     (\<forall>(k, w)\<in>set active. k = reservation_of (sw_request w) \<and> sw_cancel w < cells)"

definition lane_ok :: "bounded_lane \<Rightarrow> bool" where
  "lane_ok lane \<longleftrightarrow> length (bl_pending lane) \<le> bl_pending_capacity lane \<and> length (bl_active lane) \<le> bl_concurrency lane \<and>
     distinct (pending_reservations lane) \<and> set (pending_reservations lane) \<inter> fst ` set (bl_active lane) = {} \<and>
     active_ok (bl_active lane) (length (bl_cells lane))"

definition same_budget :: "bounded_lane \<Rightarrow> bounded_lane \<Rightarrow> bool" where
  "same_budget lane lane' \<longleftrightarrow> bl_concurrency lane' = bl_concurrency lane \<and> bl_pending_capacity lane' = bl_pending_capacity lane"

lemma lane_ok_new: "lane_ok (BoundedAssetLane_new c p)"
  by (simp add: lane_ok_def BoundedAssetLane_new_def pending_reservations_def pending_requests_def active_ok_def)

text \<open>Fields the invariant does not read.\<close>

lemma lane_ok_sequence [simp]: "lane_ok (lane\<lparr>bl_sequence := n\<rparr>) = lane_ok lane"
  by (simp add: lane_ok_def pending_reservations_def pending_requests_def)

lemma update_append: "k \<notin> fst ` set al \<Longrightarrow> AList.update k v al = al @ [(k, v)]"
  by (induction al) auto

lemma pending_set_simps:
  "pending_requests (lane\<lparr>bl_pending := ps\<rparr>) = map snd ps"
  "pending_reservations (lane\<lparr>bl_pending := ps\<rparr>) = map (reservation_of \<circ> snd) ps"
  by (simp_all add: pending_requests_def pending_reservations_def comp_def)

lemma pending_nth:
  "i < length (bl_pending lane) \<Longrightarrow> pending_reservations lane ! i = reservation_of (snd (bl_pending lane ! i))"
  by (simp add: pending_reservations_def pending_requests_def)

text \<open>Replacing one waiting request by one whose reservation is free or is the same.\<close>

lemma lane_ok_replace:
  assumes ok: "lane_ok lane" and i: "i < length (bl_pending lane)"
    and free: "reservation_of request \<notin> set (pending_reservations lane) - {pending_reservations lane ! i}"
      "reservation_of request \<notin> fst ` set (bl_active lane)"
  shows "lane_ok (lane\<lparr>bl_pending := (bl_pending lane)[i := (s, request)]\<rparr>)"
proof -
  let ?lane = "lane\<lparr>bl_pending := (bl_pending lane)[i := (s, request)]\<rparr>"
  have eq: "pending_reservations ?lane = (pending_reservations lane)[i := reservation_of request]"
    by (simp add: pending_reservations_def pending_requests_def map_update)
  have "distinct (pending_reservations lane)" using ok by (simp add: lane_ok_def)
  then have "distinct (pending_reservations ?lane)" unfolding eq by (rule distinct_list_update [OF _ free(1)])
  moreover have "set (pending_reservations ?lane) \<inter> fst ` set (bl_active lane) = {}"
  proof (rule disjoint_insert_mono)
    show "set (pending_reservations lane) \<inter> fst ` set (bl_active lane) = {}" using ok by (simp add: lane_ok_def)
    show "set (pending_reservations ?lane) \<subseteq> insert (reservation_of request) (set (pending_reservations lane))"
      unfolding eq by (rule set_update_subset_insert)
  qed (rule free(2))
  ultimately show ?thesis using ok unfolding lane_ok_def by simp
qed

lemma lane_ok_remove:
  assumes ok: "lane_ok lane" and i: "i < length (bl_pending lane)"
  shows "lane_ok (lane\<lparr>bl_pending := remove_at i (bl_pending lane)\<rparr>)"
    and "pending_reservations lane ! i \<notin> set (pending_reservations (lane\<lparr>bl_pending := remove_at i (bl_pending lane)\<rparr>))"
proof -
  let ?lane = "lane\<lparr>bl_pending := remove_at i (bl_pending lane)\<rparr>"
  have eq: "pending_reservations ?lane = remove_at i (pending_reservations lane)"
    by (simp add: pending_reservations_def pending_requests_def remove_at_map)
  have d: "distinct (pending_reservations lane)" "i < length (pending_reservations lane)"
    using ok i by (simp_all add: lane_ok_def pending_reservations_def pending_requests_def)
  show "pending_reservations lane ! i \<notin> set (pending_reservations ?lane)"
    unfolding eq by (rule remove_at_distinct(2) [OF d])
  show "lane_ok ?lane"
    using ok i remove_at_distinct(1) [OF d] remove_at_set [of i "pending_reservations lane"]
    unfolding lane_ok_def eq by (auto simp: remove_at_length)
qed

lemma active_lookup:
  "active_ok active n \<Longrightarrow> map_of active k = Some w \<Longrightarrow> reservation_of (sw_request w) = k \<and> sw_cancel w < n"
  by (auto simp: active_ok_def dest!: map_of_SomeD)

lemma lane_ok_cells: "lane_ok lane \<Longrightarrow> length cells = length (bl_cells lane) \<Longrightarrow> lane_ok (lane\<lparr>bl_cells := cells\<rparr>)"
  by (simp add: lane_ok_def pending_reservations_def pending_requests_def)

lemma length_signal_stale [simp]: "length (signal_stale scope generation active cells) = length cells"
  by (induction scope generation active cells rule: signal_stale.induct) auto

section \<open>Every operation keeps it\<close>

lemma submit_detailed_ok:
  assumes ok: "lane_ok lane" and run: "submit_detailed lane request = (result, lane')"
  shows "lane_ok lane' \<and> same_budget lane lane'"
proof (cases "map_of (bl_active lane) (reservation_of request)")
  case (Some w)
  with run ok show ?thesis by (auto simp: submit_detailed_def same_budget_def)
next
  case None
  then have idle: "reservation_of request \<notin> fst ` set (bl_active lane)" by (simp add: map_of_eq_None_iff)
  let ?P = "\<lambda>(_, queued). reservation_of queued = reservation_of request"
  let ?lane = "lane\<lparr>bl_sequence := bl_sequence lane + 1\<rparr>"
  have same: "pending_reservations ?lane = pending_reservations lane"
    by (simp add: pending_reservations_def pending_requests_def)
  show ?thesis
  proof (cases "position ?P (bl_pending lane)")
    case (Some i)
    note i = position_Some [OF Some]
    have "lane_ok (?lane\<lparr>bl_pending := (bl_pending ?lane)[i := (bl_sequence ?lane, request)]\<rparr>)"
      by (rule lane_ok_replace) (use ok i idle in \<open>auto simp: same pending_nth split: prod.splits\<close>)
    with run None Some ok show ?thesis by (auto simp: submit_detailed_def Let_def same_budget_def split: if_splits)
  next
    case free: None
    then have new: "reservation_of request \<notin> set (pending_reservations lane)"
      unfolding position_None by (auto simp: pending_reservations_def pending_requests_def)
    consider (room) "length (bl_pending lane) < bl_pending_capacity lane"
      | (empty) "\<not> length (bl_pending lane) < bl_pending_capacity lane" "bl_pending lane = []"
      | (full) worst where "\<not> length (bl_pending lane) < bl_pending_capacity lane"
          "min_index dispatch_key (bl_pending lane) = Some worst"
      by (metis min_index_None option.exhaust)
    then show ?thesis
    proof cases
      case room
      then have "lane' = ?lane\<lparr>bl_pending := bl_pending lane @ [(bl_sequence lane + 1, request)]\<rparr>"
        using run None free by (simp add: submit_detailed_def Let_def)
      moreover have "pending_reservations lane' = pending_reservations lane @ [reservation_of request]"
        unfolding calculation by (simp add: pending_reservations_def pending_requests_def)
      ultimately show ?thesis using ok new idle room unfolding lane_ok_def same_budget_def by simp
    next
      case empty
      then show ?thesis using run None free ok by (auto simp: submit_detailed_def Let_def same_budget_def)
    next
      case full
      note w = min_index_Some [OF full(2)]
      have "lane_ok (?lane\<lparr>bl_pending := (bl_pending ?lane)[worst := (bl_sequence ?lane, request)]\<rparr>)"
        by (rule lane_ok_replace) (use ok w idle new in \<open>simp_all add: same\<close>)
      with run None free full ok show ?thesis
        by (auto simp: submit_detailed_def Let_def same_budget_def split: if_splits)
    qed
  qed
qed

lemma start_next_ok:
  assumes ok: "lane_ok lane" and run: "start_next lane = (work, lane')"
  shows "lane_ok lane' \<and> same_budget lane lane'"
proof (cases "bl_concurrency lane \<le> length (bl_active lane) \<or> bl_pending lane = []")
  case True
  with run ok show ?thesis by (auto simp: start_next_def same_budget_def split: if_splits)
next
  case False
  then obtain i where i: "max_index dispatch_key (bl_pending lane) = Some i" by (metis max_index_None option.exhaust)
  note n = max_index_Some [OF i, THEN conjunct1]
  let ?request = "snd (bl_pending lane ! i)" and ?lane = "lane\<lparr>bl_pending := remove_at i (bl_pending lane)\<rparr>"
  let ?w = "\<lparr>sw_request = ?request, sw_cancel = length (bl_cells lane)\<rparr>"
  note rest = lane_ok_remove [OF ok n]
  have idle: "reservation_of ?request \<notin> fst ` set (bl_active lane)"
  proof (rule disjoint_mem)
    show "set (pending_reservations lane) \<inter> fst ` set (bl_active lane) = {}" using ok by (simp add: lane_ok_def)
    show "reservation_of ?request \<in> set (pending_reservations lane)"
      using n by (auto simp: pending_reservations_def pending_requests_def)
  qed
  have lane': "lane' = ?lane\<lparr>bl_cells := bl_cells lane @ [False], bl_active := bl_active lane @ [(reservation_of ?request, ?w)]\<rparr>"
    using run False i idle by (simp add: start_next_def Let_def update_append)
  have same: "pending_reservations lane' = pending_reservations ?lane"
    unfolding lane' by (simp add: pending_reservations_def pending_requests_def)
  have "active_ok (bl_active lane') (length (bl_cells lane'))"
    using ok idle unfolding lane' lane_ok_def active_ok_def by fastforce
  moreover have "reservation_of ?request \<notin> set (pending_reservations ?lane)"
    using rest(2) pending_nth [OF n] by simp
  ultimately show ?thesis
    using rest(1) False unfolding lane_ok_def same_budget_def same by (simp add: lane')
qed

lemma complete_ok:
  assumes ok: "lane_ok lane" and run: "complete lane request = (b, lane')"
  shows "lane_ok lane' \<and> same_budget lane lane'"
proof -
  let ?active = "AList.delete (reservation_of request) (bl_active lane)"
  have sub: "set ?active \<subseteq> set (bl_active lane)" by (auto simp: AList.delete_eq)
  have "length ?active \<le> length (bl_active lane)" by (simp add: AList.delete_eq)
  moreover have "active_ok ?active (length (bl_cells lane))"
    using ok unfolding lane_ok_def active_ok_def AList.delete_eq by (auto simp: distinct_map_filter)
  moreover have "fst ` set ?active \<subseteq> fst ` set (bl_active lane)" using sub by blast
  moreover have "pending_reservations (lane\<lparr>bl_active := ?active\<rparr>) = pending_reservations lane"
    by (simp add: pending_reservations_def pending_requests_def)
  ultimately have "lane_ok (lane\<lparr>bl_active := ?active\<rparr>)"
    using ok unfolding lane_ok_def by auto
  with ok run show ?thesis by (auto simp: complete_def same_budget_def split: option.splits if_splits)
qed

lemma cancel_ok:
  assumes ok: "lane_ok lane" and run: "cancel lane request = (b, lane')"
  shows "lane_ok lane' \<and> same_budget lane lane'"
proof (cases "position (\<lambda>(_, queued). reservation_of queued = reservation_of request \<and>
    rq_generation queued = rq_generation request) (bl_pending lane)")
  case (Some i)
  from lane_ok_remove(1) [OF ok, of i] position_Some [OF Some] Some run show ?thesis
    by (auto simp: cancel_def same_budget_def)
next
  case None
  with ok run show ?thesis
    by (auto simp: cancel_def same_budget_def intro: lane_ok_cells split: option.splits if_splits)
qed

lemma retire_ok:
  assumes ok: "lane_ok lane" and run: "retire_scope_generation lane scope generation = (b, lane')"
  shows "lane_ok lane' \<and> same_budget lane lane'"
proof -
  let ?ps = "filter (\<lambda>(_, request). \<not> stale scope generation request) (bl_pending lane)"
  let ?lane = "lane\<lparr>bl_pending := ?ps\<rparr>"
  have eq: "pending_reservations ?lane = map (reservation_of \<circ> snd) ?ps"
    by (simp add: pending_reservations_def pending_requests_def)
  have "distinct (pending_reservations ?lane)"
    using ok unfolding eq by (simp add: lane_ok_def pending_reservations_def pending_requests_def distinct_map_filter)
  moreover have "set (pending_reservations ?lane) \<inter> fst ` set (bl_active lane) = {}"
  proof (rule disjoint_mono)
    show "set (pending_reservations lane) \<inter> fst ` set (bl_active lane) = {}" using ok by (simp add: lane_ok_def)
    show "set (pending_reservations ?lane) \<subseteq> set (pending_reservations lane)"
      unfolding eq by (auto simp: pending_reservations_def pending_requests_def)
  qed
  moreover have "length ?ps \<le> bl_pending_capacity lane"
    using ok length_filter_le [of "\<lambda>(_, request). \<not> stale scope generation request" "bl_pending lane"] unfolding lane_ok_def by linarith
  ultimately have "lane_ok ?lane" using ok unfolding lane_ok_def by simp
  then show ?thesis
    using run lane_ok_cells [of ?lane "signal_stale scope generation (bl_active lane) (bl_cells lane)"]
    by (auto simp: retire_scope_generation_def same_budget_def)
qed

section \<open>The coordinator\<close>

text \<open>What the coordinator relies on: an operation of a lane keeps its invariant and its budget.\<close>

locale lane_operation =
  fixes run :: "bounded_lane \<Rightarrow> 'a \<times> bounded_lane"
  assumes keeps: "lane_ok lane \<Longrightarrow> run lane = (x, lane') \<Longrightarrow> lane_ok lane' \<and> same_budget lane lane'"

interpretation submit_detailed_op: lane_operation "\<lambda>lane. submit_detailed lane request" for request
  by unfold_locales (rule submit_detailed_ok)

interpretation submit_op: lane_operation "\<lambda>lane. submit lane request" for request
  by unfold_locales (auto simp: submit_def dest: submit_detailed_ok split: prod.splits)

interpretation start_op: lane_operation start_next
  by unfold_locales (rule start_next_ok)

interpretation complete_op: lane_operation "\<lambda>lane. complete lane request" for request
  by unfold_locales (rule complete_ok)

interpretation cancel_op: lane_operation "\<lambda>lane. cancel lane request" for request
  by unfold_locales (rule cancel_ok)

interpretation retire_op: lane_operation "\<lambda>lane. retire_scope_generation lane scope generation" for scope generation
  by unfold_locales (rule retire_ok)

lemma co_lane_put [simp]: "co_lane l (co_put l' lane co) = (if l = l' then lane else co_lane l co)"
  by (cases l; cases l') simp_all

definition co_ok :: "coordinator \<Rightarrow> bool" where
  "co_ok co \<longleftrightarrow> (\<forall>l. lane_ok (co_lane l co))"

definition co_same_budgets :: "coordinator \<Rightarrow> coordinator \<Rightarrow> bool" where
  "co_same_budgets co co' \<longleftrightarrow> (\<forall>l. same_budget (co_lane l co) (co_lane l co'))"

context lane_operation
begin

lemma on_lane_keeps:
  assumes "co_ok co" and "on_lane l run co = (x, co')"
  shows "co_ok co' \<and> co_same_budgets co co' \<and> (\<forall>k. k \<noteq> l \<longrightarrow> co_lane k co' = co_lane k co)"
proof -
  from assms(2) obtain lane where "run (co_lane l co) = (x, lane)" "co' = co_put l lane co"
    by (auto simp: on_lane_def split: prod.splits)
  with keeps [of "co_lane l co" x lane] assms(1) show ?thesis
    by (auto simp: co_ok_def co_same_budgets_def same_budget_def)
qed

end

lemma co_same_budgets_trans: "co_same_budgets a b \<Longrightarrow> co_same_budgets b c \<Longrightarrow> co_same_budgets a c"
  by (simp add: co_same_budgets_def same_budget_def)

lemma retire_lanes_keeps:
  "co_ok co \<Longrightarrow> retire_lanes ls co scope generation = (rs, co') \<Longrightarrow> co_ok co' \<and> co_same_budgets co co'"
proof (induction ls arbitrary: co rs co')
  case Nil
  then show ?case by (simp add: co_same_budgets_def same_budget_def)
next
  case (Cons l ls)
  obtain r co1 where first: "on_lane l (\<lambda>lane. retire_scope_generation lane scope generation) co = (r, co1)" by fastforce
  with Cons.prems(2) obtain rs' where rest: "retire_lanes ls co1 scope generation = (rs', co')"
    by (auto split: prod.splits)
  from retire_op.on_lane_keeps [OF Cons.prems(1) first] Cons.IH [OF _ rest] show ?case
    by (blast intro: co_same_budgets_trans)
qed

lemma retain_is_retire: "co_retain_scope_generation co scope generation = snd (co_retire_scope_generation co scope generation)"
  by (simp add: co_retain_scope_generation_def co_retire_scope_generation_def all_lanes_def on_lane_def
      retain_scope_generation_def Let_def split_beta)

text \<open>One call of the coordinator by the host.\<close>

inductive co_step :: "coordinator \<Rightarrow> coordinator \<Rightarrow> bool" where
  step_submit: "co_submit co l request = (outcome, co') \<Longrightarrow> co_step co co'"
| step_submit_detailed: "co_submit_detailed co l request = (result, co') \<Longrightarrow> co_step co co'"
| step_start: "co_start_next co l = (work, co') \<Longrightarrow> co_step co co'"
| step_complete: "co_complete co l request = (done, co') \<Longrightarrow> co_step co co'"
| step_cancel: "co_cancel co l request = (cancelled, co') \<Longrightarrow> co_step co co'"
| step_retain: "co_retain_scope_generation co scope generation = co' \<Longrightarrow> co_step co co'"
| step_retire: "co_retire_scope_generation co scope generation = (retired, co') \<Longrightarrow> co_step co co'"

inductive co_reach :: "work_budgets \<Rightarrow> coordinator \<Rightarrow> bool" for budgets where
  reach_new: "co_reach budgets (AssetWorkCoordinator_new budgets)"
| reach_step: "co_reach budgets co \<Longrightarrow> co_step co co' \<Longrightarrow> co_reach budgets co'"

lemma co_retire_keeps:
  "co_ok co \<Longrightarrow> co_retire_scope_generation co scope generation = (rs, co') \<Longrightarrow> co_ok co' \<and> co_same_budgets co co'"
  unfolding co_retire_scope_generation_def by (rule retire_lanes_keeps)

lemma co_step_keeps:
  assumes step: "co_step co co'" and ok: "co_ok co"
  shows "co_ok co' \<and> co_same_budgets co co'"
  using step
proof cases
  case step_submit
  with submit_op.on_lane_keeps [OF ok] show ?thesis by (simp add: co_submit_def)
next
  case step_submit_detailed
  with submit_detailed_op.on_lane_keeps [OF ok] show ?thesis by (simp add: co_submit_detailed_def)
next
  case step_start
  with start_op.on_lane_keeps [OF ok] show ?thesis by (simp add: co_start_next_def)
next
  case step_complete
  with complete_op.on_lane_keeps [OF ok] show ?thesis by (simp add: co_complete_def)
next
  case step_cancel
  with cancel_op.on_lane_keeps [OF ok] show ?thesis by (simp add: co_cancel_def)
next
  case (step_retain scope generation)
  then have "co_retire_scope_generation co scope generation = (fst (co_retire_scope_generation co scope generation), co')"
    by (simp add: retain_is_retire prod_eq_iff)
  then show ?thesis by (rule co_retire_keeps [OF ok])
next
  case step_retire
  then show ?thesis by (rule co_retire_keeps [OF ok])
qed

primrec budget_of :: "asset_lane \<Rightarrow> work_budgets \<Rightarrow> lane_budget" where
  "budget_of LaneProvider budgets = wb_provider budgets"
| "budget_of LaneDecode budgets = wb_decode budgets"
| "budget_of LaneUpload budgets = wb_upload budgets"
| "budget_of LaneApply budgets = wb_apply budgets"

lemma co_lane_new: "co_lane l (AssetWorkCoordinator_new budgets) =
    BoundedAssetLane_new (lb_concurrency (budget_of l budgets)) (lb_pending_capacity (budget_of l budgets))"
  by (cases l) (simp_all add: AssetWorkCoordinator_new_def)

lemma co_reach_ok:
  "co_reach budgets co \<Longrightarrow> co_ok co \<and> co_same_budgets (AssetWorkCoordinator_new budgets) co"
proof (induction rule: co_reach.induct)
  case reach_new
  then show ?case by (simp add: co_ok_def co_lane_new lane_ok_new co_same_budgets_def same_budget_def)
next
  case (reach_step co co')
  with co_step_keeps [OF reach_step(2)] show ?case by (blast intro: co_same_budgets_trans)
qed

section \<open>Properties\<close>

lemma signal_stale_nth:
  "i < length cells \<Longrightarrow> signal_stale scope generation active cells ! i \<longleftrightarrow>
     cells ! i \<or> (\<exists>w\<in>snd ` set active. stale scope generation (sw_request w) \<and> sw_cancel w = i)"
proof (induction scope generation active cells rule: signal_stale.induct)
  case (2 scope generation k active rest cells)
  then show ?case by (cases "sw_cancel active = i") auto
qed simp

lemma waiting_not_running:
  "lane_ok lane \<Longrightarrow> request \<in> set (pending_requests lane) \<Longrightarrow> reservation_of request \<notin> fst ` set (bl_active lane)"
  unfolding lane_ok_def pending_reservations_def by (metis disjoint_mem image_eqI set_map)

lemma mset_update_requests:
  "i < length ps \<Longrightarrow> mset (map snd (ps[i := (s, request)])) = add_mset request (mset (map snd ps) - {#snd (ps ! i)#})"
  by (simp add: map_update mset_update)

lemma least_waiting:
  assumes "min_index dispatch_key (bl_pending lane) = Some worst"
  shows "worst < length (bl_pending lane)" "snd (bl_pending lane ! worst) \<in> set (pending_requests lane)"
    "\<forall>q\<in>set (pending_requests lane). rq_priority (snd (bl_pending lane ! worst)) \<le> rq_priority q"
  using min_index_Some [OF assms] by (fastforce simp: pending_requests_def dispatch_key_def less_eq_prod_def)+

text \<open>C22. However the host drives the coordinator, no lane ever runs more work than its concurrency or keeps more waiting requests than its capacity, and no asset of a scope is scheduled twice in a lane, waiting or running.\<close>

theorem coordinator_bounds:
  assumes "co_reach budgets co"
  shows "length (bl_active (co_lane l co)) \<le> lb_concurrency (budget_of l budgets) \<and>
    length (bl_pending (co_lane l co)) \<le> lb_pending_capacity (budget_of l budgets) \<and>
    distinct (pending_reservations (co_lane l co) @ map fst (bl_active (co_lane l co)))"
proof -
  from co_reach_ok [OF assms] have "lane_ok (co_lane l co)"
      "same_budget (BoundedAssetLane_new (lb_concurrency (budget_of l budgets)) (lb_pending_capacity (budget_of l budgets))) (co_lane l co)"
    by (simp_all add: co_ok_def co_same_budgets_def co_lane_new [symmetric])
  then show ?thesis
    by (simp add: lane_ok_def same_budget_def BoundedAssetLane_new_def active_ok_def)
qed

definition sample_request :: "u64 \<Rightarrow> asset_priority \<Rightarrow> asset_request" where
  "sample_request n priority =
     \<lparr>rq_key = \<lparr>ak_identity = IdFile n, ak_revision = RevProvider 0, ak_kind = Preview\<rparr>, rq_scope = 1, rq_generation = 1,
      rq_priority = priority\<rparr>"

definition sample_budgets :: work_budgets where
  "sample_budgets = (let b = \<lparr>lb_concurrency = 1, lb_pending_capacity = 1\<rparr> in
     \<lparr>wb_provider = b, wb_decode = b, wb_upload = b, wb_apply = b\<rparr>)"

definition sample_lane :: bounded_lane where
  "sample_lane = snd (submit (BoundedAssetLane_new 1 1) (sample_request 7 Visible))"

theorem coordinator_bounds_witness:
  "length (bl_pending (co_lane LaneDecode (snd (co_submit (AssetWorkCoordinator_new sample_budgets) LaneDecode (sample_request 7 Visible))))) \<le> 1"
proof -
  have "co_reach sample_budgets (snd (co_submit (AssetWorkCoordinator_new sample_budgets) LaneDecode (sample_request 7 Visible)))"
    by (rule reach_step [OF reach_new step_submit]) (rule prod.collapse [symmetric])
  then have "length (bl_pending (co_lane LaneDecode (snd (co_submit (AssetWorkCoordinator_new sample_budgets) LaneDecode
      (sample_request 7 Visible))))) \<le> lb_pending_capacity (budget_of LaneDecode sample_budgets)"
    using coordinator_bounds by blast
  then show ?thesis by (simp add: sample_budgets_def Let_def)
qed

text \<open>What the answer to a submission means: running work and its cancellation flags are never touched; only a full lane refuses, and only when everything that waits is at least as urgent; a displaced request is a least urgent one, strictly less urgent than the new one, and is handed back; and exactly the new request takes its place.\<close>

theorem submit_detailed_spec:
  shows "case submit_detailed lane request of (r, lane') \<Rightarrow>
    bl_active lane' = bl_active lane \<and> bl_cells lane' = bl_cells lane \<and>
    (sr_evicted r \<noteq> None \<longleftrightarrow> sr_outcome r = ReplacedLowerPriority) \<and>
    (case sr_outcome r of
       AlreadyScheduled \<Rightarrow> lane' = lane \<and>
         (reservation_of request \<in> fst ` set (bl_active lane) \<or> reservation_of request \<in> set (pending_reservations lane))
     | Queued \<Rightarrow> length (bl_pending lane) < bl_pending_capacity lane \<and>
         mset (pending_requests lane') = add_mset request (mset (pending_requests lane))
     | Reprioritized \<Rightarrow> (\<exists>old\<in>set (pending_requests lane). reservation_of old = reservation_of request \<and>
         mset (pending_requests lane') = add_mset request (mset (pending_requests lane) - {#old#}))
     | ReplacedLowerPriority \<Rightarrow> (\<exists>old\<in>set (pending_requests lane). sr_evicted r = Some old \<and>
         rq_priority old < rq_priority request \<and> (\<forall>q\<in>set (pending_requests lane). rq_priority old \<le> rq_priority q) \<and>
         mset (pending_requests lane') = add_mset request (mset (pending_requests lane) - {#old#}))
     | QueueFull \<Rightarrow> bl_pending lane' = bl_pending lane \<and> bl_pending_capacity lane \<le> length (bl_pending lane) \<and>
         (\<forall>q\<in>set (pending_requests lane). rq_priority request \<le> rq_priority q))"
proof (cases "map_of (bl_active lane) (reservation_of request)")
  case (Some w)
  then show ?thesis by (auto simp: submit_detailed_def SubmitResult_def dest: map_of_SomeD intro!: image_eqI)
next
  case None
  let ?P = "\<lambda>(_, queued). reservation_of queued = reservation_of request"
  show ?thesis
  proof (cases "position ?P (bl_pending lane)")
    case (Some i)
    from position_Some [OF Some] have i: "i < length (bl_pending lane)" "reservation_of (snd (bl_pending lane ! i)) = reservation_of request"
      by (auto split: prod.splits)
    from i(1) have old: "snd (bl_pending lane ! i) \<in> set (pending_requests lane)" by (simp add: pending_requests_def)
    then have "reservation_of request \<in> set (pending_reservations lane)" using i(2) by (metis image_eqI pending_reservations_def set_map)
    moreover have "\<exists>q\<in>set (pending_requests lane). reservation_of q = reservation_of request \<and>
        mset (map snd ((bl_pending lane)[i := (s, request)])) = add_mset request (mset (pending_requests lane) - {#q#})" for s
      by (rule bexI [OF _ old]) (use i mset_update_requests in \<open>simp add: pending_requests_def del: map_update mset_map\<close>)
    ultimately show ?thesis using None Some
      by (simp add: submit_detailed_def SubmitResult_def Let_def pending_set_simps del: map_update mset_map)
  next
    case free: None
    consider (room) "length (bl_pending lane) < bl_pending_capacity lane"
      | (empty) "\<not> length (bl_pending lane) < bl_pending_capacity lane" "bl_pending lane = []"
      | (full) worst where "\<not> length (bl_pending lane) < bl_pending_capacity lane"
          "min_index dispatch_key (bl_pending lane) = Some worst"
      by (metis min_index_None option.exhaust)
    then show ?thesis
    proof cases
      case room
      then show ?thesis using None free by (simp add: submit_detailed_def SubmitResult_def Let_def pending_requests_def)
    next
      case empty
      then show ?thesis using None free by (simp add: submit_detailed_def SubmitResult_def Let_def pending_requests_def)
    next
      case full
      note least = least_waiting [OF full(2)]
      then have "\<forall>q\<in>set (pending_requests lane). rq_priority request \<le> rq_priority q"
        if "rq_priority request \<le> rq_priority (snd (bl_pending lane ! worst))" using that by force
      moreover have "mset (map snd ((bl_pending lane)[worst := (s, request)])) =
          add_mset request (mset (pending_requests lane) - {#snd (bl_pending lane ! worst)#})" for s
        using mset_update_requests [OF least(1)] by (simp add: pending_requests_def del: map_update mset_map)
      ultimately show ?thesis using None free full least(2,3)
        by (simp add: submit_detailed_def SubmitResult_def Let_def pending_set_simps not_le del: map_update mset_map)
    qed
  qed
qed

lemma sample_lane_eq: "sample_lane = \<lparr>bl_concurrency = 1, bl_pending_capacity = 1, bl_pending = [(1, sample_request 7 Visible)],
    bl_active = [], bl_sequence = 1, bl_cells = []\<rparr>"
  by (simp add: sample_lane_def submit_def submit_detailed_def BoundedAssetLane_new_def Let_def)

theorem submit_detailed_spec_witness:
  "mset (pending_requests (snd (submit_detailed sample_lane (sample_request 8 Selected)))) = {#sample_request 8 Selected#}"
proof -
  have run: "fst (submit_detailed sample_lane (sample_request 8 Selected)) = SubmitResult ReplacedLowerPriority (Some (sample_request 7 Visible))"
    by (simp add: sample_lane_eq submit_detailed_def Let_def reservation_of_def sample_request_def less_eq_asset_priority_def)
  from submit_detailed_spec [of sample_lane "sample_request 8 Selected"] run show ?thesis
    by (simp add: split_beta SubmitResult_def) (simp add: sample_lane_eq pending_requests_def)
qed

text \<open>C23. Dispatch: a lane with a free slot and waiting work starts a most urgent request, the newest of the equally urgent ones, with a fresh flag that is not cancelled and without touching the flags of the running work; otherwise it starts nothing and stays as it is.\<close>

theorem start_next_spec:
  assumes "lane_ok lane" and "start_next lane = (started, lane')"
  shows "case started of
      None \<Rightarrow> lane' = lane \<and> (bl_concurrency lane \<le> length (bl_active lane) \<or> bl_pending lane = [])
    | Some w \<Rightarrow> length (bl_active lane) < bl_concurrency lane \<and>
        (\<exists>s. (s, sw_request w) \<in> set (bl_pending lane) \<and>
          (\<forall>p\<in>set (bl_pending lane). dispatch_key p \<le> (rq_priority (sw_request w), s)) \<and>
          mset (bl_pending lane') = mset (bl_pending lane) - {#(s, sw_request w)#}) \<and>
        bl_active lane' = bl_active lane @ [(reservation_of (sw_request w), w)] \<and>
        \<not> is_cancelled lane' w \<and>
        (\<forall>v\<in>snd ` set (bl_active lane). sw_cancel v \<noteq> sw_cancel w \<and> is_cancelled lane' v = is_cancelled lane v)"
proof (cases "bl_concurrency lane \<le> length (bl_active lane) \<or> bl_pending lane = []")
  case True
  with assms(2) show ?thesis by (auto simp: start_next_def split: if_splits)
next
  case False
  then obtain i where i: "max_index dispatch_key (bl_pending lane) = Some i" by (metis max_index_None option.exhaust)
  from max_index_Some [OF i] have n: "i < length (bl_pending lane)"
    "\<forall>p\<in>set (bl_pending lane). dispatch_key p \<le> dispatch_key (bl_pending lane ! i)" by auto
  let ?r = "snd (bl_pending lane ! i)" and ?s = "fst (bl_pending lane ! i)"
  from assms(1) n(1) have idle: "reservation_of ?r \<notin> fst ` set (bl_active lane)"
    by (intro waiting_not_running) (simp_all add: pending_requests_def)
  from assms(2) False i idle have run: "started = Some \<lparr>sw_request = ?r, sw_cancel = length (bl_cells lane)\<rparr>"
    "lane' = lane\<lparr>bl_pending := remove_at i (bl_pending lane), bl_cells := bl_cells lane @ [False],
      bl_active := bl_active lane @ [(reservation_of ?r, \<lparr>sw_request = ?r, sw_cancel = length (bl_cells lane)\<rparr>)]\<rparr>"
    by (simp_all add: start_next_def Let_def update_append)
  have cells: "\<forall>v\<in>snd ` set (bl_active lane). sw_cancel v < length (bl_cells lane)"
    using assms(1) by (auto simp: lane_ok_def active_ok_def)
  have "mset (bl_pending lane') = mset (bl_pending lane) - {#(?s, ?r)#}" using n(1) by (simp add: run remove_at_mset_eq)
  moreover have "(?s, ?r) \<in> set (bl_pending lane)" using n(1) by simp
  moreover have "dispatch_key (bl_pending lane ! i) = (rq_priority ?r, ?s)" by (simp add: dispatch_key_def)
  ultimately show ?thesis using False n(2) cells
    by (auto simp: run is_cancelled_def nth_append intro!: exI [of _ ?s])
qed

text \<open>Retiring a generation of one scope hands back exactly the waiting requests of that scope that belong to another generation and keeps the others in order; running work keeps its slot, and exactly the flags of the running work that is stale in the same sense are raised.\<close>

theorem retire_scope_generation_spec:
  assumes "lane_ok lane" and "retire_scope_generation lane scope generation = (retired, lane')"
  shows "retired = filter (stale scope generation) (pending_requests lane) \<and>
    pending_requests lane' = filter (\<lambda>q. \<not> stale scope generation q) (pending_requests lane) \<and>
    bl_active lane' = bl_active lane \<and>
    (\<forall>w\<in>snd ` set (bl_active lane).
      is_cancelled lane' w \<longleftrightarrow> is_cancelled lane w \<or> stale scope generation (sw_request w))"
proof -
  from assms(2) have run: "retired = filter (stale scope generation) (pending_requests lane)"
    "bl_pending lane' = filter (\<lambda>(_, q). \<not> stale scope generation q) (bl_pending lane)" "bl_active lane' = bl_active lane"
    "bl_cells lane' = signal_stale scope generation (bl_active lane) (bl_cells lane)"
    by (auto simp: retire_scope_generation_def pending_requests_def)
  have "pending_requests lane' = filter (\<lambda>q. \<not> stale scope generation q) (pending_requests lane)"
    unfolding pending_requests_def run(2) by (simp add: filter_map comp_def split_def)
  moreover have "is_cancelled lane' w \<longleftrightarrow> is_cancelled lane w \<or> stale scope generation (sw_request w)"
    if w: "w \<in> snd ` set (bl_active lane)" for w
  proof -
    have inside: "sw_cancel w < length (bl_cells lane)" using assms(1) w by (auto simp: lane_ok_def active_ok_def)
    have "v = w" if "v \<in> snd ` set (bl_active lane)" "sw_cancel v = sw_cancel w" for v
      using assms(1) that w by (auto simp: lane_ok_def active_ok_def distinct_map inj_on_def)
    then have "(\<exists>v\<in>snd ` set (bl_active lane). stale scope generation (sw_request v) \<and> sw_cancel v = sw_cancel w) \<longleftrightarrow>
        stale scope generation (sw_request w)" using w by metis
    with inside show ?thesis by (simp add: is_cancelled_def run signal_stale_nth)
  qed
  ultimately show ?thesis using run by simp
qed

lemma sample_lane_ok: "lane_ok sample_lane"
  using submit_detailed_ok [OF lane_ok_new prod.collapse [symmetric]] by (simp add: sample_lane_def submit_def split_beta)

theorem start_next_spec_witness: "fst (start_next sample_lane) \<noteq> None"
  using start_next_spec [OF sample_lane_ok prod.collapse [symmetric]]
  by (cases "fst (start_next sample_lane)") (simp_all add: sample_lane_eq)

theorem retire_scope_generation_spec_witness:
  "fst (retire_scope_generation sample_lane 1 2) = [sample_request 7 Visible]"
  using retire_scope_generation_spec [OF sample_lane_ok prod.collapse [symmetric], of 1 2]
  by (simp add: sample_lane_eq pending_requests_def stale_def sample_request_def)

end
