(* ===== verification/Simulation.thy ===== *)
theory Simulation
  imports Prelude
begin

text \<open>
  Functional refinement of a component by an abstract machine.  A step of the component may fail
  to return (\<open>None\<close>); the simulation law says that it does return from a state of the invariant,
  keeps the invariant, and agrees with the abstract step in its answer and in the abstraction.
\<close>

fun run_steps :: "('s \<Rightarrow> 'o \<Rightarrow> ('x \<times> 's) option) \<Rightarrow> 's \<Rightarrow> 'o list \<Rightarrow> ('x list \<times> 's) option" where
  "run_steps step s [] = Some ([], s)"
| "run_steps step s (op # ops) =
     Option.bind (step s op) (\<lambda>(x, s). Option.bind (run_steps step s ops) (\<lambda>(xs, s). Some (x # xs, s)))"

fun run_spec :: "('a \<Rightarrow> 'o \<Rightarrow> 'x \<times> 'a) \<Rightarrow> 'a \<Rightarrow> 'o list \<Rightarrow> 'x list \<times> 'a" where
  "run_spec spec a [] = ([], a)"
| "run_spec spec a (op # ops) =
     (let (x, a) = spec a op; (xs, a) = run_spec spec a ops in (x # xs, a))"

locale simulation =
  fixes inv :: "'s \<Rightarrow> bool" and abst :: "'s \<Rightarrow> 'a" and step :: "'s \<Rightarrow> 'o \<Rightarrow> ('x \<times> 's) option"
    and spec :: "'a \<Rightarrow> 'o \<Rightarrow> 'x \<times> 'a"
  assumes simulates: "inv s \<Longrightarrow> \<exists>x s'. step s op = Some (x, s') \<and> inv s' \<and> spec (abst s) op = (x, abst s')"
begin

lemma simulates_run:
  "inv s \<Longrightarrow> \<exists>xs s'. run_steps step s ops = Some (xs, s') \<and> inv s' \<and> run_spec spec (abst s) ops = (xs, abst s')"
proof (induction ops arbitrary: s)
  case (Cons op ops)
  from simulates [OF Cons.prems, of op] obtain x t where one: "step s op = Some (x, t)" "inv t" "spec (abst s) op = (x, abst t)"
    by blast
  from Cons.IH [OF one(2)] one show ?case by auto
qed simp

end

end
