(* ===== verification/Navigation.thy ===== *)
theory Navigation
  imports Simulation
begin

text \<open>
  \<open>ferail-core\<close>: \<open>navigation.rs\<close>, the history of a tab.  The two stacks are vectors whose
  end is the top.
\<close>

section \<open>The history\<close>

type_synonym nav_node = u64

datatype navigation_event = NavigationCommitted nav_node

record navigation_state =
  nav_current :: nav_node
  nav_back_stack :: "nav_node list"
  nav_forward_stack :: "nav_node list"
  nav_max_history_size :: nat

definition NavigationState_new :: "nav_node \<Rightarrow> navigation_state" where
  "NavigationState_new initial =
     \<lparr>nav_current = initial, nav_back_stack = [], nav_forward_stack = [], nav_max_history_size = 100\<rparr>"

definition can_go_back :: "navigation_state \<Rightarrow> bool" where
  "can_go_back nav \<longleftrightarrow> nav_back_stack nav \<noteq> []"

definition can_go_forward :: "navigation_state \<Rightarrow> bool" where
  "can_go_forward nav \<longleftrightarrow> nav_forward_stack nav \<noteq> []"

definition emit_current :: "navigation_state \<Rightarrow> navigation_event" where
  "emit_current nav = NavigationCommitted (nav_current nav)"

definition navigate_to :: "navigation_state \<Rightarrow> nav_node \<Rightarrow> navigation_event \<times> navigation_state" where
  "navigate_to nav target =
     (let nav =
        (if nav_current nav \<noteq> target then
           let back = nav_back_stack nav @ [nav_current nav] in
           nav\<lparr>nav_back_stack := (if nav_max_history_size nav < length back then tl back else back),
             nav_forward_stack := [], nav_current := target\<rparr>
         else nav) in
      (emit_current nav, nav))"

definition replace_current :: "navigation_state \<Rightarrow> nav_node \<Rightarrow> navigation_event \<times> navigation_state" where
  "replace_current nav target = (let nav = nav\<lparr>nav_current := target\<rparr> in (emit_current nav, nav))"

definition go_back :: "navigation_state \<Rightarrow> navigation_event option \<times> navigation_state" where
  "go_back nav =
     (if nav_back_stack nav = [] then (None, nav)
      else
      let nav = nav\<lparr>nav_back_stack := butlast (nav_back_stack nav),
            nav_forward_stack := nav_forward_stack nav @ [nav_current nav], nav_current := last (nav_back_stack nav)\<rparr> in
      (Some (emit_current nav), nav))"

definition go_forward :: "navigation_state \<Rightarrow> navigation_event option \<times> navigation_state" where
  "go_forward nav =
     (if nav_forward_stack nav = [] then (None, nav)
      else
      let nav = nav\<lparr>nav_forward_stack := butlast (nav_forward_stack nav),
            nav_back_stack := nav_back_stack nav @ [nav_current nav], nav_current := last (nav_forward_stack nav)\<rparr> in
      (Some (emit_current nav), nav))"

datatype navigation_op = NavigateTo nav_node | ReplaceCurrent nav_node | NavigateBack | NavigateForward

fun nav_step :: "navigation_state \<Rightarrow> navigation_op \<Rightarrow> (navigation_event option \<times> navigation_state) option" where
  "nav_step nav (NavigateTo target) = (case navigate_to nav target of (e, nav) \<Rightarrow> Some (Some e, nav))"
| "nav_step nav (ReplaceCurrent target) = (case replace_current nav target of (e, nav) \<Rightarrow> Some (Some e, nav))"
| "nav_step nav NavigateBack = Some (go_back nav)"
| "nav_step nav NavigateForward = Some (go_forward nav)"

section \<open>The abstract history\<close>

text \<open>What the stacks stand for: the visited nodes, oldest first, and the position of the current one.\<close>

type_synonym history = "nav_node list \<times> nat"

definition history_of :: "navigation_state \<Rightarrow> history" where
  "history_of nav = (nav_back_stack nav @ nav_current nav # rev (nav_forward_stack nav), length (nav_back_stack nav))"

text \<open>
  The contract: going back and forward only moves the position, within the list; a visit cuts off
  what is ahead, appends, and forgets the oldest entry beyond 101.
\<close>

fun history_step :: "history \<Rightarrow> navigation_op \<Rightarrow> navigation_event option \<times> history" where
  "history_step (es, p) (NavigateTo target) =
     (Some (NavigationCommitted target),
      if es ! p = target then (es, p)
      else if p = 100 then (tl (take 101 es) @ [target], 100)
      else (take (Suc p) es @ [target], Suc p))"
| "history_step (es, p) (ReplaceCurrent target) = (Some (NavigationCommitted target), (es[p := target], p))"
| "history_step (es, p) NavigateBack =
     (if p = 0 then (None, (es, p)) else (Some (NavigationCommitted (es ! (p - 1))), (es, p - 1)))"
| "history_step (es, p) NavigateForward =
     (if length es \<le> Suc p then (None, (es, p)) else (Some (NavigationCommitted (es ! Suc p)), (es, Suc p)))"

definition nav_ok :: "navigation_state \<Rightarrow> bool" where
  "nav_ok nav \<longleftrightarrow> nav_max_history_size nav = 100 \<and> length (nav_back_stack nav) + length (nav_forward_stack nav) \<le> 100"

lemma navigate_sim:
  assumes "nav_ok nav"
  shows "nav_ok (snd (navigate_to nav t)) \<and>
    history_step (history_of nav) (NavigateTo t) = (Some (fst (navigate_to nav t)), history_of (snd (navigate_to nav t)))"
  using assms by (auto simp: nav_ok_def navigate_to_def Let_def history_of_def nth_append emit_current_def)

lemma go_back_sim:
  assumes "nav_ok nav"
  shows "nav_ok (snd (go_back nav)) \<and> history_step (history_of nav) NavigateBack = (fst (go_back nav), history_of (snd (go_back nav)))"
proof (cases "nav_back_stack nav" rule: rev_cases)
  case Nil
  with assms show ?thesis by (simp add: nav_ok_def go_back_def history_of_def)
next
  case (snoc ys y)
  with assms show ?thesis by (auto simp: nav_ok_def go_back_def history_of_def emit_current_def nth_append Let_def)
qed

lemma go_forward_sim:
  assumes "nav_ok nav"
  shows "nav_ok (snd (go_forward nav)) \<and>
    history_step (history_of nav) NavigateForward = (fst (go_forward nav), history_of (snd (go_forward nav)))"
proof (cases "nav_forward_stack nav" rule: rev_cases)
  case Nil
  with assms show ?thesis by (simp add: nav_ok_def go_forward_def history_of_def)
next
  case (snoc ys y)
  with assms show ?thesis by (auto simp: nav_ok_def go_forward_def history_of_def emit_current_def nth_append Let_def)
qed

lemma nav_sim:
  assumes "nav_ok nav"
  shows "\<exists>e nav'. nav_step nav op = Some (e, nav') \<and> nav_ok nav' \<and> history_step (history_of nav) op = (e, history_of nav')"
proof (cases op)
  case (ReplaceCurrent t)
  with assms show ?thesis by (auto simp: replace_current_def nav_ok_def history_of_def emit_current_def Let_def list_update_append)
next
  case (NavigateTo t)
  then show ?thesis using navigate_sim [OF assms, of t] by (simp add: split_beta)
next
  case NavigateBack
  then show ?thesis using go_back_sim [OF assms] by (cases "go_back nav") simp
next
  case NavigateForward
  then show ?thesis using go_forward_sim [OF assms] by (cases "go_forward nav") simp
qed

interpretation navigation: simulation nav_ok history_of nav_step history_step
  by unfold_locales (rule nav_sim)

section \<open>Property\<close>

text \<open>C24. Whatever the sequence of navigations, the two stacks behave like one list of visited nodes with a position in it: back and forward move along it and come back to the same node, a visit cuts off what was ahead, every event names the node the list shows, and the stacks together never hold more than 100 nodes.\<close>

theorem navigation_refines_history:
  "\<exists>events nav. run_steps nav_step (NavigationState_new initial) ops = Some (events, nav) \<and>
     run_spec history_step ([initial], 0) ops = (events, history_of nav) \<and>
     length (nav_back_stack nav) + length (nav_forward_stack nav) \<le> 100"
proof -
  have "nav_ok (NavigationState_new initial)" by (simp add: nav_ok_def NavigationState_new_def)
  from navigation.simulates_run [OF this, of ops] show ?thesis
    by (auto simp: nav_ok_def) (simp add: history_of_def NavigationState_new_def)
qed

end
