(* ===== verification/RevisionCache.thy ===== *)
theory RevisionCache
  imports Simulation "HOL-Library.AList"
begin

text \<open>
  \<open>ferail-core\<close>: \<open>revision_cache.rs\<close>, a bounded first-in first-out cache whose values are
  tied to a revision.  The hash map is an association list with distinct keys.
\<close>

section \<open>The cache\<close>

record ('k, 'r, 'v) revision_cache =
  rc_capacity :: nat
  rc_order :: "'k list"
  rc_entries :: "('k \<times> 'r \<times> 'v) list"

definition RevisionCache_new :: "nat \<Rightarrow> ('k, 'r, 'v) revision_cache" where
  "RevisionCache_new capacity = \<lparr>rc_capacity = capacity, rc_order = [], rc_entries = []\<rparr>"

definition rc_get :: "('k, 'r, 'v) revision_cache \<Rightarrow> 'k \<Rightarrow> 'r \<Rightarrow> 'v option \<times> ('k, 'r, 'v) revision_cache" where
  "rc_get c key revision =
     (case map_of (rc_entries c) key of
        None \<Rightarrow> (None, c)
      | Some (cached_revision, v) \<Rightarrow>
          if cached_revision = revision then (Some v, c)
          else (None, c\<lparr>rc_entries := AList.delete key (rc_entries c),
                 rc_order := filter (\<lambda>cached. cached \<noteq> key) (rc_order c)\<rparr>))"

text \<open>The eviction loop.  It does not end when the order is used up too early: \<open>None\<close>.\<close>

partial_function (option) rc_evict ::
    "nat \<Rightarrow> 'k list \<Rightarrow> ('k \<times> 'r \<times> 'v) list \<Rightarrow> ('k list \<times> ('k \<times> 'r \<times> 'v) list) option" where
  "rc_evict capacity order entries =
     (if length entries \<le> capacity then Some (order, entries)
      else case order of
        [] \<Rightarrow> rc_evict capacity [] entries
      | evicted # rest \<Rightarrow> rc_evict capacity rest (AList.delete evicted entries))"

definition rc_insert ::
    "('k, 'r, 'v) revision_cache \<Rightarrow> 'k \<Rightarrow> 'r \<Rightarrow> 'v \<Rightarrow> ('k, 'r, 'v) revision_cache option" where
  "rc_insert c key revision v =
     (if rc_capacity c = 0 then Some c
      else
      let order = (if map_of (rc_entries c) key \<noteq> None then filter (\<lambda>cached. cached \<noteq> key) (rc_order c) else rc_order c);
          entries = AList.update key (revision, v) (rc_entries c) in
      map_option (\<lambda>(order, entries). c\<lparr>rc_order := order, rc_entries := entries\<rparr>)
        (rc_evict (rc_capacity c) (order @ [key]) entries))"

definition rc_remove :: "('k, 'r, 'v) revision_cache \<Rightarrow> 'k \<Rightarrow> 'v option \<times> ('k, 'r, 'v) revision_cache" where
  "rc_remove c key =
     (map_option snd (map_of (rc_entries c) key),
      c\<lparr>rc_order := filter (\<lambda>cached. cached \<noteq> key) (rc_order c), rc_entries := AList.delete key (rc_entries c)\<rparr>)"

definition rc_len :: "('k, 'r, 'v) revision_cache \<Rightarrow> nat" where
  "rc_len c = length (rc_entries c)"

definition rc_clear :: "('k, 'r, 'v) revision_cache \<Rightarrow> ('k, 'r, 'v) revision_cache" where
  "rc_clear c = c\<lparr>rc_order := [], rc_entries := []\<rparr>"

datatype ('k, 'r, 'v) cache_op = CacheGet 'k 'r | CacheInsert 'k 'r 'v | CacheRemove 'k | CacheClear

fun cache_step :: "('k, 'r, 'v) revision_cache \<Rightarrow> ('k, 'r, 'v) cache_op \<Rightarrow> ('v option \<times> ('k, 'r, 'v) revision_cache) option" where
  "cache_step c (CacheGet key revision) = Some (rc_get c key revision)"
| "cache_step c (CacheInsert key revision v) = map_option (Pair None) (rc_insert c key revision v)"
| "cache_step c (CacheRemove key) = Some (rc_remove c key)"
| "cache_step c CacheClear = Some (None, rc_clear c)"

section \<open>The abstract queue\<close>

type_synonym ('k, 'r, 'v) queue = "('k \<times> 'r \<times> 'v) list"

text \<open>What the cache promises: a queue of entries, oldest first, at most as long as the capacity.\<close>

fun queue_step :: "nat \<Rightarrow> ('k, 'r, 'v) queue \<Rightarrow> ('k, 'r, 'v) cache_op \<Rightarrow> 'v option \<times> ('k, 'r, 'v) queue" where
  "queue_step capacity q (CacheGet key revision) =
     (case map_of q key of
        Some (r, v) \<Rightarrow> if r = revision then (Some v, q) else (None, filter (\<lambda>(k, _). k \<noteq> key) q)
      | None \<Rightarrow> (None, q))"
| "queue_step capacity q (CacheInsert key revision v) =
     (None, let q = filter (\<lambda>(k, _). k \<noteq> key) q @ [(key, revision, v)] in drop (length q - capacity) q)"
| "queue_step capacity q (CacheRemove key) = (map_option snd (map_of q key), filter (\<lambda>(k, _). k \<noteq> key) q)"
| "queue_step capacity q CacheClear = (None, [])"

definition queue_of :: "('k, 'r, 'v) revision_cache \<Rightarrow> ('k, 'r, 'v) queue" where
  "queue_of c = map (\<lambda>k. (k, the (map_of (rc_entries c) k))) (rc_order c)"

definition keyed :: "'k list \<Rightarrow> ('k \<times> 'e) list \<Rightarrow> bool" where
  "keyed order entries \<longleftrightarrow> distinct order \<and> distinct (map fst entries) \<and> set order = fst ` set entries"

definition cache_ok :: "nat \<Rightarrow> ('k, 'r, 'v) revision_cache \<Rightarrow> bool" where
  "cache_ok capacity c \<longleftrightarrow> rc_capacity c = capacity \<and> keyed (rc_order c) (rc_entries c) \<and> length (rc_entries c) \<le> capacity"

lemma keyed_length: "keyed order entries \<Longrightarrow> length order = length entries"
  unfolding keyed_def by (metis distinct_card length_map set_map)

lemma keyed_delete:
  "keyed order entries \<Longrightarrow> keyed (filter (\<lambda>k. k \<noteq> key) order) (AList.delete key entries)"
  by (auto simp: keyed_def AList.delete_eq distinct_map_filter)

lemma keyed_append:
  assumes "keyed order entries" and "key \<notin> set order"
  shows "keyed (order @ [key]) (AList.update key e entries)"
  using assms by (auto simp: keyed_def distinct_update dom_update)

lemma evict_spec:
  "keyed order entries \<Longrightarrow> \<exists>rest. rc_evict capacity order entries = Some (drop (length order - capacity) order, rest) \<and>
     keyed (drop (length order - capacity) order) rest \<and>
     (\<forall>k\<in>set (drop (length order - capacity) order). map_of rest k = map_of entries k)"
proof (induction order arbitrary: entries)
  case Nil
  then show ?case by (simp add: rc_evict.simps keyed_def)
next
  case (Cons k order)
  show ?case
  proof (cases "length entries \<le> capacity")
    case True
    with keyed_length [OF Cons.prems] Cons.prems show ?thesis by (simp add: rc_evict.simps)
  next
    case False
    from Cons.prems have "filter (\<lambda>j. j \<noteq> k) (k # order) = order" by (auto simp: keyed_def filter_id_conv)
    with keyed_delete [OF Cons.prems, of k] have d: "keyed order (AList.delete k entries)" by simp
    from Cons.IH [OF d] obtain rest where rest: "rc_evict capacity order (AList.delete k entries) =
        Some (drop (length order - capacity) order, rest)" "keyed (drop (length order - capacity) order) rest"
        "\<forall>j\<in>set (drop (length order - capacity) order). map_of rest j = map_of (AList.delete k entries) j" by blast
    have "length (k # order) - capacity = Suc (length order - capacity)"
      using False keyed_length [OF Cons.prems] by simp
    moreover have "j \<noteq> k" if "j \<in> set (drop (length order - capacity) order)" for j
      using Cons.prems in_set_dropD [OF that] by (auto simp: keyed_def)
    ultimately show ?thesis using rest False by (simp add: rc_evict.simps [of capacity "k # order"] delete_conv')
  qed
qed

lemma queue_lookup: "keyed (rc_order c) (rc_entries c) \<Longrightarrow> map_of (queue_of c) k = map_of (rc_entries c) k"
proof -
  assume k: "keyed (rc_order c) (rc_entries c)"
  have "map_of (queue_of c) k = (if k \<in> set (rc_order c) then Some (the (map_of (rc_entries c) k)) else None)"
    unfolding queue_of_def by (induction "rc_order c") (auto simp: map_of_map_restrict)
  also have "\<dots> = map_of (rc_entries c) k"
  proof (cases "map_of (rc_entries c) k")
    case None
    then have "k \<notin> set (rc_order c)" using k by (simp add: keyed_def map_of_eq_None_iff)
    with None show ?thesis by simp
  next
    case (Some e)
    then have "k \<in> set (rc_order c)" using k by (force simp: keyed_def dest: map_of_SomeD)
    with Some show ?thesis by simp
  qed
  finally show ?thesis .
qed

lemma queue_delete:
  assumes "keyed (rc_order c) (rc_entries c)"
  shows "queue_of (c\<lparr>rc_order := filter (\<lambda>j. j \<noteq> key) (rc_order c), rc_entries := AList.delete key (rc_entries c)\<rparr>) =
    filter (\<lambda>(k, _). k \<noteq> key) (queue_of c)"
  by (simp add: queue_of_def filter_map comp_def delete_conv')

lemma cache_ok_delete:
  assumes "cache_ok capacity c"
  shows "cache_ok capacity (c\<lparr>rc_order := filter (\<lambda>j. j \<noteq> key) (rc_order c), rc_entries := AList.delete key (rc_entries c)\<rparr>)"
  using assms keyed_delete [of "rc_order c" "rc_entries c" key] length_delete_le [of key "rc_entries c"]
  by (simp add: cache_ok_def)

lemma insert_sim:
  assumes ok: "cache_ok capacity c"
  shows "\<exists>c'. rc_insert c key revision v = Some c' \<and> cache_ok capacity c' \<and>
    queue_step capacity (queue_of c) (CacheInsert key revision v) = (None, queue_of c')"
proof (cases "capacity = 0")
  case True
  with ok have "rc_entries c = []" "rc_order c = []" by (auto simp: cache_ok_def keyed_def)
  with True ok show ?thesis by (simp add: rc_insert_def cache_ok_def queue_of_def)
next
  case False
  let ?order = "filter (\<lambda>j. j \<noteq> key) (rc_order c)" and ?entries = "AList.update key (revision, v) (rc_entries c)"
  let ?del = "c\<lparr>rc_order := ?order, rc_entries := AList.delete key (rc_entries c)\<rparr>"
  from ok have keyed: "keyed (rc_order c) (rc_entries c)" and cap: "rc_capacity c = capacity" by (simp_all add: cache_ok_def)
  have same: "(if map_of (rc_entries c) key \<noteq> None then ?order else rc_order c) = ?order"
    using keyed by (cases "key \<in> set (rc_order c)") (auto simp: keyed_def map_of_eq_None_iff intro!: filter_True [symmetric])
  have k: "keyed (?order @ [key]) ?entries"
    using keyed by (auto simp: keyed_def distinct_update dom_update)
  from evict_spec [OF k, of capacity] obtain rest where rest: "rc_evict capacity (?order @ [key]) ?entries =
      Some (drop (length (?order @ [key]) - capacity) (?order @ [key]), rest)"
    "keyed (drop (length (?order @ [key]) - capacity) (?order @ [key])) rest"
    "\<forall>k\<in>set (drop (length (?order @ [key]) - capacity) (?order @ [key])). map_of rest k = map_of ?entries k" by blast
  let ?kept = "drop (length (?order @ [key]) - capacity) (?order @ [key])"
  have run: "rc_insert c key revision v = Some (c\<lparr>rc_order := ?kept, rc_entries := rest\<rparr>)"
    using False cap rest(1) unfolding rc_insert_def Let_def same by simp
  have good: "cache_ok capacity (c\<lparr>rc_order := ?kept, rc_entries := rest\<rparr>)"
    using cap rest(2) keyed_length [OF rest(2)] by (simp add: cache_ok_def)
  have queue: "queue_of (c\<lparr>rc_order := ?kept, rc_entries := rest\<rparr>) = map (\<lambda>k. (k, the (map_of ?entries k))) ?kept"
    using rest(3) by (simp add: queue_of_def)
  have "queue_step capacity (queue_of c) (CacheInsert key revision v) =
      (None, map (\<lambda>k. (k, the (map_of ?entries k))) ?kept)"
  proof -
    have "filter (\<lambda>(k, _). k \<noteq> key) (queue_of c) @ [(key, revision, v)] =
        map (\<lambda>k. (k, the (map_of ?entries k))) (?order @ [key])"
      by (simp add: queue_of_def filter_map comp_def update_conv')
    then show ?thesis by (simp only: queue_step.simps Let_def drop_map length_map)
  qed
  then have "queue_step capacity (queue_of c) (CacheInsert key revision v) = (None, queue_of (c\<lparr>rc_order := ?kept, rc_entries := rest\<rparr>))"
    by (simp only: queue)
  with run good show ?thesis by blast
qed

lemma cache_sim:
  assumes ok: "cache_ok capacity c"
  shows "\<exists>r c'. cache_step c op = Some (r, c') \<and> cache_ok capacity c' \<and> queue_step capacity (queue_of c) op = (r, queue_of c')"
proof (cases op)
  case (CacheGet key revision)
  from ok have keyed: "keyed (rc_order c) (rc_entries c)" by (simp add: cache_ok_def)
  have order: "c\<lparr>rc_entries := es, rc_order := ks\<rparr> = c\<lparr>rc_order := ks, rc_entries := es\<rparr>" for es ks by simp
  show ?thesis
  proof (cases "map_of (rc_entries c) key")
    case None
    with ok CacheGet show ?thesis by (simp add: rc_get_def queue_lookup [OF keyed])
  next
    case (Some e)
    then show ?thesis using ok CacheGet cache_ok_delete [OF ok, of key] queue_delete [OF keyed, of key]
      by (cases e) (simp add: rc_get_def queue_lookup [OF keyed] order)
  qed
next
  case (CacheInsert key revision v)
  then show ?thesis using insert_sim [OF ok, of key revision v] by auto
next
  case (CacheRemove key)
  from ok have keyed: "keyed (rc_order c) (rc_entries c)" by (simp add: cache_ok_def)
  show ?thesis using CacheRemove cache_ok_delete [OF ok, of key] queue_delete [OF keyed, of key]
    by (simp add: rc_remove_def queue_lookup [OF keyed])
next
  case CacheClear
  with ok show ?thesis by (simp add: rc_clear_def cache_ok_def keyed_def queue_of_def)
qed

interpretation cache: simulation "cache_ok capacity" queue_of cache_step "queue_step capacity" for capacity
  by unfold_locales (rule cache_sim)

section \<open>Property\<close>

text \<open>C25. Whatever the sequence of calls, every one of them returns (the eviction loop ends), the cache answers exactly as a first-in first-out queue of entries whose lookup needs the same revision, and it never holds more entries than its capacity, none at all when that is zero.\<close>

theorem revision_cache_refines_queue:
  "\<exists>answers c. run_steps cache_step (RevisionCache_new capacity) ops = Some (answers, c) \<and>
     run_spec (queue_step capacity) [] ops = (answers, queue_of c) \<and> rc_len c \<le> capacity"
proof -
  have "cache_ok capacity (RevisionCache_new capacity)" by (simp add: cache_ok_def RevisionCache_new_def keyed_def)
  from cache.simulates_run [OF this, of ops] show ?thesis
    by (auto simp: cache_ok_def rc_len_def) (simp add: queue_of_def RevisionCache_new_def)
qed

end
