(* ===== verification/ArchivePath.thy ===== *)
theory ArchivePath
  imports Prelude
begin

text \<open>
  \<open>ferail-archive\<close>: \<open>safety.rs\<close>, the validation of the path of an archive entry before it is
  joined to the destination.  \<open>aros\<close> says whether the build targets AROS (a \<open>cfg\<close>).
\<close>

section \<open>The validation\<close>

datatype unsafe_path = UAbsolute | UTraversal | UDrivePrefix | UEmpty | UInvalidCharacter

definition slash :: u32 where "slash = 0x2F"
definition backslash :: u32 where "backslash = 0x5C"
definition colon :: u32 where "colon = 0x3A"
definition dot :: u32 where "dot = 0x2E"

definition is_drive_component :: "rust_string \<Rightarrow> bool" where
  "is_drive_component part \<longleftrightarrow> (case part of [a, b] \<Rightarrow> is_ascii_alphabetic a \<and> b = colon | _ \<Rightarrow> False)"

text \<open>\<open>replace\<close> of one character.\<close>

definition unify_separators :: "rust_string \<Rightarrow> rust_string" where
  "unify_separators path = map (\<lambda>c. if c = backslash then slash else c) path"

definition split_once_head :: "rust_string \<Rightarrow> rust_string option" where
  "split_once_head s = (if slash \<in> set s then Some (takeWhile (\<lambda>c. c \<noteq> slash) s) else None)"

fun walk_components :: "bool \<Rightarrow> rust_string list \<Rightarrow> rust_string list \<Rightarrow> (unsafe_path, rust_string list) outcome" where
  "walk_components aros [] parts = Ok parts"
| "walk_components aros (part # comps) parts =
     (if part = [] \<or> part = [dot] then walk_components aros comps parts
      else if part = [dot, dot] then Err UTraversal
      else if 0 \<in> set part then Err UInvalidCharacter
      else if aros \<and> colon \<in> set part then Err UDrivePrefix
      else walk_components aros comps (parts @ [part]))"

definition safe_relative_path :: "bool \<Rightarrow> rust_string \<Rightarrow> (unsafe_path, rust_string) outcome" where
  "safe_relative_path aros entry_path =
     (let unified = unify_separators entry_path in
      if take 2 unified = [slash, slash] then Err UDrivePrefix
      else if (case split_once_head unified of Some head \<Rightarrow> is_drive_component head | None \<Rightarrow> is_drive_component unified)
      then Err UDrivePrefix
      else if take 1 unified = [slash] then Err UAbsolute
      else
      obind (walk_components aros (split_on slash unified) []) (\<lambda>parts.
      if parts = [] then Err UEmpty else Ok (join_with slash parts)))"

section \<open>What a result looks like\<close>

definition skipped :: "rust_string \<Rightarrow> bool" where
  "skipped part \<longleftrightarrow> part = [] \<or> part = [dot]"

text \<open>A component that may be created below the destination.\<close>

definition clean_component :: "bool \<Rightarrow> rust_string \<Rightarrow> bool" where
  "clean_component aros part \<longleftrightarrow> part \<noteq> [] \<and> part \<noteq> [dot] \<and> part \<noteq> [dot, dot] \<and>
     0 \<notin> set part \<and> slash \<notin> set part \<and> backslash \<notin> set part \<and> (aros \<longrightarrow> colon \<notin> set part)"

lemma walk_components_Ok:
  "walk_components aros comps parts = Ok result \<longleftrightarrow>
     (\<forall>part\<in>set comps. \<not> skipped part \<longrightarrow> part \<noteq> [dot, dot] \<and> 0 \<notin> set part \<and> (aros \<longrightarrow> colon \<notin> set part)) \<and>
     result = parts @ filter (\<lambda>part. \<not> skipped part) comps"
  by (induction aros comps parts rule: walk_components.induct) (auto simp: skipped_def)

lemma unify_clean: "backslash \<notin> set (unify_separators path)"
  by (auto simp: unify_separators_def backslash_def slash_def split: if_splits)

lemma unify_id: "backslash \<notin> set path \<Longrightarrow> unify_separators path = path"
  unfolding unify_separators_def by (rule map_idI) auto

lemma split_first: "hd (split_on sep s) = takeWhile (\<lambda>c. c \<noteq> sep) s"
proof (induction s)
  case (Cons c s)
  then show ?case by (cases "split_on sep s") auto
qed simp

lemma drive_head:
  "(case split_once_head s of Some head \<Rightarrow> is_drive_component head | None \<Rightarrow> is_drive_component s) =
     is_drive_component (hd (split_on slash s))"
proof (cases "slash \<in> set s")
  case False
  then have all: "takeWhile (\<lambda>c. c \<noteq> slash) s = s" by (auto simp: takeWhile_eq_all_conv)
  from False show ?thesis by (simp add: split_once_head_def split_first all)
qed (simp add: split_once_head_def split_first)

lemma take_two_slash: "take 2 s = [slash, slash] \<Longrightarrow> take 1 s = [slash]"
  by (cases s; cases "tl s") auto

definition rooted :: "rust_string \<Rightarrow> bool" where
  "rooted s \<longleftrightarrow> take 1 s = [slash]"

lemma safe_relative_path_Ok:
  "safe_relative_path aros path = Ok result \<longleftrightarrow>
     (let comps = split_on slash (unify_separators path); kept = filter (\<lambda>part. \<not> skipped part) comps in
      \<not> rooted (unify_separators path) \<and> \<not> is_drive_component (hd comps) \<and> kept \<noteq> [] \<and>
      (\<forall>part\<in>set kept. clean_component aros part) \<and> result = join_with slash kept)"
proof -
  let ?u = "unify_separators path"
  have pieces: "slash \<notin> set part \<and> backslash \<notin> set part" if "part \<in> set (split_on slash ?u)" for part
    using split_on_pieces [OF that] unify_clean by blast
  have clean: "(\<forall>part\<in>set (split_on slash ?u). \<not> skipped part \<longrightarrow> part \<noteq> [dot, dot] \<and> 0 \<notin> set part \<and> (aros \<longrightarrow> colon \<notin> set part)) \<longleftrightarrow>
      (\<forall>part\<in>set (filter (\<lambda>part. \<not> skipped part) (split_on slash ?u)). clean_component aros part)"
    using pieces by (auto simp: clean_component_def skipped_def)
  show ?thesis
    using take_two_slash [of ?u]
    by (auto simp: safe_relative_path_def Let_def drive_head rooted_def outcome_simps walk_components_Ok clean split: if_splits)
qed

text \<open>Why a path is rejected.\<close>

definition rejection_ok :: "bool \<Rightarrow> rust_string \<Rightarrow> unsafe_path \<Rightarrow> bool" where
  "rejection_ok aros path e =
     (let unified = unify_separators path; pieces = split_on slash unified in
      case e of
        UAbsolute \<Rightarrow> rooted unified
      | UTraversal \<Rightarrow> [dot, dot] \<in> set pieces
      | UDrivePrefix \<Rightarrow> take 2 unified = [slash, slash] \<or> is_drive_component (hd pieces) \<or> (aros \<and> colon \<in> set path)
      | UEmpty \<Rightarrow> list_all skipped pieces
      | UInvalidCharacter \<Rightarrow> 0 \<in> set path)"

lemma walk_components_Err:
  "walk_components aros pieces parts = Err e \<Longrightarrow>
     e = UTraversal \<and> [dot, dot] \<in> set pieces \<or> e = UInvalidCharacter \<and> (\<exists>part\<in>set pieces. 0 \<in> set part) \<or>
     e = UDrivePrefix \<and> aros \<and> (\<exists>part\<in>set pieces. colon \<in> set part)"
  by (induction aros pieces parts rule: walk_components.induct) (auto split: if_splits)

lemma walk_components_no_panic [simp]: "walk_components aros pieces parts \<noteq> Panic"
  by (induction aros pieces parts rule: walk_components.induct) auto

lemma piece_char: "part \<in> set (split_on slash (unify_separators path)) \<Longrightarrow> c \<in> set part \<Longrightarrow> c \<noteq> slash \<Longrightarrow> c \<in> set path"
  using split_on_pieces [of part slash "unify_separators path"]
  by (auto simp: unify_separators_def split: if_splits)

lemma safe_relative_path_Err:
  assumes "safe_relative_path aros path = Err e"
  shows "rejection_ok aros path e"
proof -
  let ?u = "unify_separators path"
  consider "e = UDrivePrefix" "take 2 ?u = [slash, slash] \<or> is_drive_component (hd (split_on slash ?u))"
    | "e = UAbsolute" "rooted ?u" | "walk_components aros (split_on slash ?u) [] = Err e"
    | "e = UEmpty" "walk_components aros (split_on slash ?u) [] = Ok []"
    using assms unfolding safe_relative_path_def Let_def drive_head rooted_def
    by (cases "walk_components aros (split_on slash ?u) []") (auto split: if_splits)
  then show ?thesis
  proof cases
    case 3
    from walk_components_Err [OF 3] show ?thesis
      using piece_char [of _ path 0] piece_char [of _ path colon]
      by (auto simp: rejection_ok_def Let_def slash_def colon_def)
  next
    case 4
    then show ?thesis by (auto simp: rejection_ok_def Let_def walk_components_Ok list_all_iff dest!: filter_empty_conv [THEN iffD1, OF sym])
  qed (auto simp: rejection_ok_def Let_def)
qed

lemma split_result:
  assumes "safe_relative_path aros path = Ok s"
  shows "split_on slash s = filter (\<lambda>part. \<not> skipped part) (split_on slash (unify_separators path))"
    and "\<forall>part\<in>set (split_on slash s). clean_component aros part"
proof -
  let ?kept = "filter (\<lambda>part. \<not> skipped part) (split_on slash (unify_separators path))"
  from assms have kept: "?kept \<noteq> []" "\<forall>part\<in>set ?kept. clean_component aros part" "s = join_with slash ?kept"
    unfolding safe_relative_path_Ok Let_def by blast+
  have "\<forall>part\<in>set ?kept. slash \<notin> set part" using kept(2) unfolding clean_component_def by blast
  then show split: "split_on slash s = ?kept" unfolding kept(3) using kept(1) by (intro split_join)
  show "\<forall>part\<in>set (split_on slash s). clean_component aros part" unfolding split by (rule kept(2))
qed

lemma result_not_rooted: "\<forall>part\<in>set (split_on slash s). part \<noteq> [] \<Longrightarrow> \<not> rooted s"
  by (cases s) (auto simp: rooted_def)

section \<open>Properties\<close>

text \<open>C26. Zip-slip containment: a path is accepted only as a relative path of one or more components, none of which is empty, \<open>.\<close> or \<open>..\<close> or holds a separator of either kind or a NUL (or a colon on AROS), and these are the components of the entry in order with the empty ones and \<open>.\<close> left out; a rejection names a reason that the path gives; no path makes the check panic.\<close>

theorem safe_relative_path_contained:
  "case safe_relative_path aros path of
     Ok s \<Rightarrow> \<not> rooted s \<and> s \<noteq> [] \<and> (\<forall>part\<in>set (split_on slash s). clean_component aros part) \<and>
       split_on slash s = filter (\<lambda>part. \<not> skipped part) (split_on slash (unify_separators path))
   | Err e \<Rightarrow> rejection_ok aros path e
   | Panic \<Rightarrow> False"
proof (cases "safe_relative_path aros path")
  case (Ok s)
  note split_result [OF Ok]
  moreover from this(2) have "\<forall>part\<in>set (split_on slash s). part \<noteq> []" unfolding clean_component_def by blast
  moreover from this have "s \<noteq> []" by auto
  ultimately show ?thesis using Ok result_not_rooted [of s] by simp
next
  case (Err e)
  with safe_relative_path_Err [OF Err] show ?thesis by simp
next
  case Panic
  have "safe_relative_path aros path \<noteq> Panic"
    by (cases "walk_components aros (split_on slash (unify_separators path)) []") (simp_all add: safe_relative_path_def Let_def)
  with Panic show ?thesis by simp
qed

lemmas path_eval = safe_relative_path_def Let_def unify_separators_def split_once_head_def is_drive_component_def ascii_def
  slash_def backslash_def colon_def dot_def is_ascii_alphabetic_def is_ascii_uppercase_def

theorem safe_relative_path_contained_witness: "rejection_ok False (ascii ''a/../b'') UTraversal"
proof -
  have "safe_relative_path False (ascii ''a/../b'') = Err UTraversal" by (simp add: path_eval)
  with safe_relative_path_contained [of False "ascii ''a/../b''"] show ?thesis by simp
qed

text \<open>C27. An accepted path is in normal form: checking it again accepts it unchanged, with one exception, in which the second check rejects what the first let through: the first component left is a drive spec, which the first check overlooked behind a \<open>.\<close> component.\<close>

theorem safe_relative_path_again:
  assumes "safe_relative_path aros path = Ok s"
  shows "safe_relative_path aros s =
    (if is_drive_component (hd (split_on slash s)) then Err UDrivePrefix else Ok s)"
proof -
  note clean = split_result(2) [OF assms]
  then have "backslash \<notin> set s" using set_join_with [of backslash slash "split_on slash s"]
    by (auto simp: clean_component_def backslash_def slash_def)
  then have id: "unify_separators s = s" by (rule unify_id)
  have "\<forall>part\<in>set (split_on slash s). \<not> skipped part" using clean by (auto simp: clean_component_def skipped_def)
  then have all: "filter (\<lambda>part. \<not> skipped part) (split_on slash s) = split_on slash s" by (simp add: filter_id_conv)
  have "\<not> rooted s" using clean by (intro result_not_rooted) (auto simp: clean_component_def)
  then show ?thesis
  proof (cases "is_drive_component (hd (split_on slash s))")
    case True
    then show ?thesis by (simp add: safe_relative_path_def Let_def id drive_head)
  next
    case False
    with \<open>\<not> rooted s\<close> clean have "safe_relative_path aros s = Ok s" by (simp add: safe_relative_path_Ok Let_def id all)
    with False show ?thesis by simp
  qed
qed

theorem safe_relative_path_again_witness:
  "safe_relative_path False (ascii ''./C:/x'') = Ok (ascii ''C:/x'') \<and>
   safe_relative_path False (ascii ''C:/x'') = Err UDrivePrefix"
proof -
  have first: "safe_relative_path False (ascii ''./C:/x'') = Ok (ascii ''C:/x'')" by (simp add: path_eval)
  moreover have "is_drive_component (hd (split_on slash (ascii ''C:/x'')))" by (simp add: path_eval)
  ultimately show ?thesis using safe_relative_path_again [OF first] by simp
qed

end
