(* ===== verification/ArchiveToc.thy ===== *)
theory ArchiveToc
  imports ArchivePath
begin

text \<open>
  \<open>ferail-archive\<close>: \<open>format.rs\<close> (detection of the format by the name), \<open>capability.rs\<close>
  (what each format can do) and \<open>entry.rs\<close> (the table of contents).
\<close>

section \<open>Formats\<close>

datatype archive_format = Zip | Tar | TarGz | TarBz2 | TarXz | Gzip | Bzip2 | Xz | SevenZ | Lha

definition ends_with :: "rust_string \<Rightarrow> rust_string \<Rightarrow> bool" where
  "ends_with s suf \<longleftrightarrow> length suf \<le> length s \<and> drop (length s - length suf) s = suf"

definition multi_suffixes :: "(string \<times> archive_format) list" where
  "multi_suffixes = [(''.tar.gz'', TarGz), (''.tgz'', TarGz), (''.tar.bz2'', TarBz2), (''.tbz2'', TarBz2), (''.tbz'', TarBz2),
     (''.tar.xz'', TarXz), (''.txz'', TarXz)]"

definition single_suffixes :: "(string \<times> archive_format) list" where
  "single_suffixes = [(''.zip'', Zip), (''.tar'', Tar), (''.gz'', Gzip), (''.bz2'', Bzip2), (''.xz'', Xz), (''.7z'', SevenZ),
     (''.lha'', Lha), (''.lzh'', Lha)]"

fun find_suffix :: "rust_string \<Rightarrow> (string \<times> archive_format) list \<Rightarrow> archive_format option" where
  "find_suffix lower [] = None"
| "find_suffix lower ((suf, fmt) # rest) = (if ends_with lower (ascii suf) then Some fmt else find_suffix lower rest)"

text \<open>The last piece of \<open>rsplit(['/', '\\'])\<close>.\<close>

definition path_leaf :: "rust_string \<Rightarrow> rust_string" where
  "path_leaf path = rev (takeWhile (\<lambda>c. c \<noteq> slash \<and> c \<noteq> backslash) (rev path))"

definition from_path :: "rust_string \<Rightarrow> archive_format option" where
  "from_path path =
     (let lower = map to_ascii_lowercase (path_leaf path) in
      case find_suffix lower multi_suffixes of
        Some fmt \<Rightarrow> Some fmt
      | None \<Rightarrow> find_suffix lower single_suffixes)"

definition is_archive_path :: "rust_string \<Rightarrow> bool" where
  "is_archive_path path \<longleftrightarrow> from_path path \<noteq> None"

primrec canonical_extension :: "archive_format \<Rightarrow> string" where
  "canonical_extension Zip = ''zip''"
| "canonical_extension Tar = ''tar''"
| "canonical_extension TarGz = ''tar.gz''"
| "canonical_extension TarBz2 = ''tar.bz2''"
| "canonical_extension TarXz = ''tar.xz''"
| "canonical_extension Gzip = ''gz''"
| "canonical_extension Bzip2 = ''bz2''"
| "canonical_extension Xz = ''xz''"
| "canonical_extension SevenZ = ''7z''"
| "canonical_extension Lha = ''lha''"

primrec archive_format_label :: "archive_format \<Rightarrow> string" where
  "archive_format_label Zip = ''ZIP''"
| "archive_format_label Tar = ''TAR''"
| "archive_format_label TarGz = ''TAR.GZ''"
| "archive_format_label TarBz2 = ''TAR.BZ2''"
| "archive_format_label TarXz = ''TAR.XZ''"
| "archive_format_label Gzip = ''GZIP''"
| "archive_format_label Bzip2 = ''BZIP2''"
| "archive_format_label Xz = ''XZ''"
| "archive_format_label SevenZ = ''7-Zip''"
| "archive_format_label Lha = ''LHA''"

definition is_tar_family :: "archive_format \<Rightarrow> bool" where
  "is_tar_family f \<longleftrightarrow> f \<in> {Tar, TarGz, TarBz2, TarXz}"

definition is_single_member :: "archive_format \<Rightarrow> bool" where
  "is_single_member f \<longleftrightarrow> f \<in> {Gzip, Bzip2, Xz}"

section \<open>Capabilities\<close>

record capabilities =
  can_browse :: bool
  can_extract :: bool
  can_create :: bool
  can_edit_in_place :: bool
  supports_create_password :: bool
  supports_levels :: bool

definition is_read_only :: "capabilities \<Rightarrow> bool" where
  "is_read_only c \<longleftrightarrow> \<not> can_edit_in_place c"

definition format_capabilities :: "archive_format \<Rightarrow> capabilities" where
  "format_capabilities f =
     (let row = (\<lambda>create edit password levels.
        \<lparr>can_browse = True, can_extract = True, can_create = create, can_edit_in_place = edit,
         supports_create_password = password, supports_levels = levels\<rparr>) in
      case f of
        Zip \<Rightarrow> row True True True True
      | SevenZ \<Rightarrow> row True False False False
      | TarGz \<Rightarrow> row True False False True
      | TarBz2 \<Rightarrow> row True False False True
      | TarXz \<Rightarrow> row True False False True
      | Tar \<Rightarrow> row True False False False
      | Gzip \<Rightarrow> row True False False True
      | Bzip2 \<Rightarrow> row True False False True
      | Xz \<Rightarrow> row True False False True
      | Lha \<Rightarrow> row False False False False)"

definition creatable_multi_file :: "archive_format list" where
  "creatable_multi_file = [Zip, SevenZ, Tar, TarGz, TarBz2, TarXz]"

lemma creatable_multi_file_iff:
  "f \<in> set creatable_multi_file \<longleftrightarrow> can_create (format_capabilities f) \<and> \<not> is_single_member f"
  by (cases f) (simp_all add: creatable_multi_file_def format_capabilities_def is_single_member_def Let_def)

section \<open>The table of contents\<close>

record archive_entry =
  ae_path :: rust_string
  ae_is_dir :: bool
  ae_uncompressed_size :: "u64 option"
  ae_compressed_size :: "u64 option"
  ae_mtime_unix :: "int option"
  ae_compression_method :: "rust_string option"
  ae_checksum :: "rust_string option"
  ae_unix_mode :: "u32 option"
  ae_comment :: "rust_string option"
  ae_encrypted :: bool

definition trim_start :: "rust_string \<Rightarrow> rust_string" where
  "trim_start s = dropWhile (\<lambda>c. c = slash) s"

definition trim_end :: "rust_string \<Rightarrow> rust_string" where
  "trim_end s = rev (dropWhile (\<lambda>c. c = slash) (rev s))"

definition entry_leaf :: "archive_entry \<Rightarrow> rust_string" where
  "entry_leaf e = last (split_on slash (trim_end (ae_path e)))"

definition entry_depth :: "archive_entry \<Rightarrow> nat" where
  "entry_depth e = count_list (trim_end (ae_path e)) slash"

definition top_component :: "archive_entry \<Rightarrow> rust_string" where
  "top_component e = hd (split_on slash (trim_start (ae_path e)))"

record toc =
  toc_entries :: "archive_entry list"
  toc_needs_password :: bool

fun single_root_from :: "rust_string option \<Rightarrow> archive_entry list \<Rightarrow> rust_string option" where
  "single_root_from root [] = root"
| "single_root_from root (e # es) =
     (let top = top_component e in
      if top = [] then None
      else case root of
        None \<Rightarrow> single_root_from (Some top) es
      | Some existing \<Rightarrow> if existing = top then single_root_from root es else None)"

definition single_root :: "toc \<Rightarrow> rust_string option" where
  "single_root t = single_root_from None (toc_entries t)"

fun sum_sizes :: "(archive_entry \<Rightarrow> u64 option) \<Rightarrow> u64 \<Rightarrow> archive_entry list \<Rightarrow> u64 option" where
  "sum_sizes field acc [] = Some acc"
| "sum_sizes field acc (e # es) =
     (if ae_is_dir e then sum_sizes field acc es
      else Option.bind (field e) (\<lambda>bytes. Option.bind (checked_add acc bytes) (\<lambda>acc. sum_sizes field acc es)))"

definition total_uncompressed :: "toc \<Rightarrow> u64 option" where
  "total_uncompressed t = sum_sizes ae_uncompressed_size 0 (toc_entries t)"

definition total_compressed :: "toc \<Rightarrow> u64 option" where
  "total_compressed t = sum_sizes ae_compressed_size 0 (toc_entries t)"

definition file_count :: "toc \<Rightarrow> nat" where
  "file_count t = length (filter (\<lambda>e. \<not> ae_is_dir e) (toc_entries t))"

definition directory_count :: "toc \<Rightarrow> nat" where
  "directory_count t = length (filter ae_is_dir (toc_entries t))"

lemma single_root_from_Some:
  "single_root_from root es = Some r \<longleftrightarrow>
     (root = Some r \<or> root = None \<and> es \<noteq> []) \<and> (\<forall>e\<in>set es. top_component e = r \<and> r \<noteq> [])"
  by (induction root es rule: single_root_from.induct) (auto simp: Let_def split: option.splits)

lemma single_root_Some:
  "single_root t = Some r \<longleftrightarrow> toc_entries t \<noteq> [] \<and> r \<noteq> [] \<and> (\<forall>e\<in>set (toc_entries t). top_component e = r)"
  unfolding single_root_def single_root_from_Some by (cases "toc_entries t") auto

lemma sum_sizes_Some:
  "sum_sizes field acc es = Some s \<longleftrightarrow>
     (let files = filter (\<lambda>e. \<not> ae_is_dir e) es in
      (\<forall>e\<in>set files. field e \<noteq> None) \<and> unat s = unat acc + sum_list (map (\<lambda>e. unat (the (field e))) files))"
proof (induction field acc es rule: sum_sizes.induct)
  case (1 field acc)
  then show ?case by (auto simp: word_eq_unat_iff)
next
  case (2 field acc e es)
  show ?case
  proof (cases "ae_is_dir e \<or> field e = None")
    case True
    with 2 show ?thesis by auto
  next
    case False
    then obtain b where b: "field e = Some b" and plain: "\<not> ae_is_dir e" by auto
    show ?thesis
    proof (cases "checked_add acc b")
      case None
      then have "2 ^ 64 \<le> unat acc + unat b" by (simp add: checked_add_None)
      moreover have "unat s < 2 ^ 64" using unsigned_less [of s, where ?'a = nat] by simp
      ultimately show ?thesis using None b plain by (simp add: Let_def)
    next
      case (Some c)
      then have "unat c = unat acc + unat b" by (simp add: checked_add_Some)
      with 2(2) [OF plain b Some] show ?thesis using Some b plain by (simp add: Let_def add.assoc)
    qed
  qed
qed

section \<open>Property\<close>

lemma ends_with_append:
  "ends_with (x @ y) s \<longleftrightarrow>
     (if length s \<le> length y then ends_with y s
      else drop (length s - length y) s = y \<and> ends_with x (take (length s - length y) s))"
proof (cases "length s \<le> length y")
  case True
  then show ?thesis by (auto simp: ends_with_def)
next
  case False
  let ?k = "length s - length y"
  have s: "take ?k s @ drop ?k s = s" "length (drop ?k s) = length y" using False by simp_all
  have "drop (length (x @ y) - length s) (x @ y) = drop (length x - ?k) x @ y" if "?k \<le> length x"
    using that False by (simp add: drop_append)
  moreover have "length s \<le> length (x @ y) \<longleftrightarrow> ?k \<le> length x" using False by auto
  moreover have "drop (length x - ?k) x @ y = s \<longleftrightarrow> drop (length x - ?k) x = take ?k s \<and> y = drop ?k s" if "?k \<le> length x"
    using that s append_eq_append_conv [of "drop (length x - ?k) x" "take ?k s" y "drop ?k s"] by simp
  ultimately show ?thesis using False by (auto simp: ends_with_def)
qed

lemma path_leaf_append: "slash \<notin> set s \<Longrightarrow> backslash \<notin> set s \<Longrightarrow> path_leaf (p @ s) = path_leaf p @ s"
proof -
  assume "slash \<notin> set s" "backslash \<notin> set s"
  then have "takeWhile (\<lambda>c. c \<noteq> slash \<and> c \<noteq> backslash) (rev s @ rev p) = rev s @ takeWhile (\<lambda>c. c \<noteq> slash \<and> c \<noteq> backslash) (rev p)"
    by (intro takeWhile_append2) auto
  then show ?thesis by (simp add: path_leaf_def)
qed

lemma dotted_extension:
  "slash \<notin> set (ascii (CHR ''.'' # canonical_extension f))" "backslash \<notin> set (ascii (CHR ''.'' # canonical_extension f))"
  "map to_ascii_lowercase (ascii (CHR ''.'' # canonical_extension f)) = ascii (CHR ''.'' # canonical_extension f)"
  by (cases f; simp add: ascii_def slash_def backslash_def to_ascii_lowercase_def is_ascii_uppercase_def)+

text \<open>Naming and detecting a format agree: a file named by any stem and the canonical extension of a format is detected as that format, whatever directories precede it; the only exception is a lone gzip, bzip2 or xz member whose stem already ends in \<open>.tar\<close>, which is a tarball.\<close>

theorem from_path_canonical:
  assumes "is_single_member f \<longrightarrow> \<not> ends_with (map to_ascii_lowercase (path_leaf stem)) (ascii ''.tar'')"
  shows "from_path (stem @ ascii (CHR ''.'' # canonical_extension f)) = Some f"
proof -
  have "map to_ascii_lowercase (path_leaf (stem @ ascii (CHR ''.'' # canonical_extension f))) =
      map to_ascii_lowercase (path_leaf stem) @ ascii (CHR ''.'' # canonical_extension f)"
    by (simp only: path_leaf_append [OF dotted_extension(1,2)] map_append dotted_extension(3))
  then show ?thesis using assms
    by (cases f) (simp_all add: from_path_def Let_def multi_suffixes_def single_suffixes_def ends_with_append ascii_def is_single_member_def,
      simp_all add: ends_with_def)
qed

theorem from_path_canonical_witness: "from_path (ascii ''dir/notes.tgz'' @ ascii ''.gz'') = Some Gzip"
  using from_path_canonical [of Gzip "ascii ''dir/notes.tgz''"]
  by (simp add: path_leaf_def ends_with_def ascii_def slash_def backslash_def to_ascii_lowercase_def is_ascii_uppercase_def)

end
