(* ===== verification/ArchiveTree.thy ===== *)
theory ArchiveTree
  imports ArchiveToc "HOL-Library.List_Lexorder" "HOL-Library.Product_Lexorder"
begin

text \<open>
  \<open>ferail-archive\<close>: \<open>tree.rs\<close>, the flat table of contents as an expandable tree.  The ordered
  maps and sets are maps and sets that are read in ascending order (the order of the UTF-8 bytes is
  the order of the code points).  The full Unicode lower case of the standard library is the
  parameter \<open>lower\<close>.
\<close>

section \<open>The tree\<close>

record file_facts =
  ff_size :: "u64 option"
  ff_compressed_size :: "u64 option"
  ff_mtime_unix :: "int option"
  ff_compression_method :: "rust_string option"
  ff_checksum :: "rust_string option"
  ff_unix_mode :: "u32 option"
  ff_comment :: "rust_string option"
  ff_encrypted :: bool

definition FileFacts_default :: file_facts where
  "FileFacts_default =
     \<lparr>ff_size = None, ff_compressed_size = None, ff_mtime_unix = None, ff_compression_method = None, ff_checksum = None,
      ff_unix_mode = None, ff_comment = None, ff_encrypted = False\<rparr>"

definition facts_of :: "archive_entry \<Rightarrow> file_facts" where
  "facts_of e =
     \<lparr>ff_size = ae_uncompressed_size e, ff_compressed_size = ae_compressed_size e, ff_mtime_unix = ae_mtime_unix e,
      ff_compression_method = ae_compression_method e, ff_checksum = ae_checksum e, ff_unix_mode = ae_unix_mode e,
      ff_comment = ae_comment e, ff_encrypted = ae_encrypted e\<rparr>"

record tree_row =
  tr_path :: rust_string
  tr_name :: rust_string
  tr_depth :: nat
  tr_is_dir :: bool
  tr_expandable :: bool
  tr_expanded :: bool
  tr_size :: "u64 option"
  tr_compressed_size :: "u64 option"
  tr_mtime_unix :: "int option"
  tr_compression_method :: "rust_string option"
  tr_checksum :: "rust_string option"
  tr_unix_mode :: "u32 option"
  tr_comment :: "rust_string option"
  tr_encrypted :: bool

record archive_tree =
  at_children :: "rust_string \<rightharpoonup> rust_string set"
  at_dirs :: "rust_string set"
  at_files :: "rust_string \<rightharpoonup> file_facts"

definition ArchiveTree_default :: archive_tree where
  "ArchiveTree_default = \<lparr>at_children = Map.empty, at_dirs = {}, at_files = Map.empty\<rparr>"

text \<open>\<open>replace("//", "/")\<close> scans once, left to right.\<close>

fun replace_double :: "rust_string \<Rightarrow> rust_string" where
  "replace_double (a # b # s) = (if a = slash \<and> b = slash then slash # replace_double s else a # replace_double (b # s))"
| "replace_double s = s"

definition normalize :: "rust_string \<Rightarrow> rust_string" where
  "normalize path = replace_double (trim_end (trim_start path))"

definition leaf :: "rust_string \<Rightarrow> rust_string" where
  "leaf path = last (split_on slash path)"

definition kids :: "archive_tree \<Rightarrow> rust_string \<Rightarrow> rust_string set" where
  "kids tree parent = (case at_children tree parent of Some ks \<Rightarrow> ks | None \<Rightarrow> {})"

definition child_path :: "rust_string \<Rightarrow> rust_string \<Rightarrow> rust_string" where
  "child_path parent part = (if parent = [] then part else parent @ slash # part)"

fun insert_parts :: "archive_entry \<Rightarrow> rust_string \<Rightarrow> rust_string list \<Rightarrow> archive_tree \<Rightarrow> archive_tree" where
  "insert_parts entry parent [] tree = tree"
| "insert_parts entry parent (part # rest) tree =
     (let full = child_path parent part;
          tree = tree\<lparr>at_children := (at_children tree)(parent \<mapsto> insert full (kids tree parent))\<rparr>;
          tree = (if rest \<noteq> [] \<or> ae_is_dir entry then tree\<lparr>at_dirs := insert full (at_dirs tree)\<rparr>
                  else tree\<lparr>at_files := (at_files tree)(full \<mapsto> facts_of entry)\<rparr>) in
      insert_parts entry full rest tree)"

definition tree_insert :: "archive_entry \<Rightarrow> archive_tree \<Rightarrow> archive_tree" where
  "tree_insert entry tree =
     (let path = normalize (ae_path entry) in
      if path = [] then tree else insert_parts entry [] (split_on slash path) tree)"

definition build :: "toc \<Rightarrow> archive_tree" where
  "build t = fold tree_insert (toc_entries t) ArchiveTree_default"

definition is_dir :: "archive_tree \<Rightarrow> rust_string \<Rightarrow> bool" where
  "is_dir tree path \<longleftrightarrow> normalize path \<in> at_dirs tree"

section \<open>Rows\<close>

text \<open>A stable sort of the ascending children: directories first, then by the lower-case leaf.\<close>

definition ordered_kids :: "(rust_string \<Rightarrow> rust_string) \<Rightarrow> archive_tree \<Rightarrow> rust_string set \<Rightarrow> rust_string list" where
  "ordered_kids lower tree ks = sort_key (\<lambda>p. (p \<notin> at_dirs tree, lower (leaf p))) (sorted_list_of_set ks)"

definition row_of_path :: "archive_tree \<Rightarrow> rust_string set \<Rightarrow> nat \<Rightarrow> rust_string \<Rightarrow> tree_row" where
  "row_of_path tree expanded depth path =
     (let dir = path \<in> at_dirs tree;
          facts = (case at_files tree path of Some f \<Rightarrow> f | None \<Rightarrow> FileFacts_default) in
      \<lparr>tr_path = path, tr_name = leaf path, tr_depth = depth, tr_is_dir = dir,
       tr_expandable = (dir \<and> at_children tree path \<noteq> None), tr_expanded = (dir \<and> path \<in> expanded),
       tr_size = (if dir then None else ff_size facts), tr_compressed_size = (if dir then None else ff_compressed_size facts),
       tr_mtime_unix = ff_mtime_unix facts, tr_compression_method = ff_compression_method facts,
       tr_checksum = ff_checksum facts, tr_unix_mode = ff_unix_mode facts, tr_comment = ff_comment facts,
       tr_encrypted = ff_encrypted facts\<rparr>)"

text \<open>The recursion follows the children; the fuel bounds its depth and \<open>None\<close> is running out of it.\<close>

function push_level ::
    "nat \<Rightarrow> (rust_string \<Rightarrow> rust_string) \<Rightarrow> archive_tree \<Rightarrow> rust_string set \<Rightarrow> rust_string \<Rightarrow> nat \<Rightarrow> tree_row list option"
and push_rows ::
    "nat \<Rightarrow> (rust_string \<Rightarrow> rust_string) \<Rightarrow> archive_tree \<Rightarrow> rust_string set \<Rightarrow> rust_string list \<Rightarrow> nat \<Rightarrow> tree_row list option" where
  "push_level 0 lower tree expanded parent depth = None"
| "push_level (Suc fuel) lower tree expanded parent depth =
     (case at_children tree parent of
        None \<Rightarrow> Some []
      | Some ks \<Rightarrow> push_rows fuel lower tree expanded (ordered_kids lower tree ks) depth)"
| "push_rows fuel lower tree expanded [] depth = Some []"
| "push_rows fuel lower tree expanded (path # paths) depth =
     Option.bind
       (if path \<in> at_dirs tree \<and> path \<in> expanded then push_level fuel lower tree expanded path (depth + 1) else Some [])
       (\<lambda>below. Option.bind (push_rows fuel lower tree expanded paths depth) (\<lambda>rest.
     Some (row_of_path tree expanded depth path # below @ rest)))"
  by pat_completeness auto
termination
  by (relation "measures [\<lambda>x. case x of Inl (fuel, _) \<Rightarrow> fuel | Inr (fuel, _) \<Rightarrow> fuel,
      \<lambda>x. case x of Inl _ \<Rightarrow> 0 | Inr (_, _, _, _, paths, _) \<Rightarrow> Suc (length paths)]") auto

definition visible_rows ::
    "nat \<Rightarrow> (rust_string \<Rightarrow> rust_string) \<Rightarrow> archive_tree \<Rightarrow> rust_string set \<Rightarrow> tree_row list option" where
  "visible_rows fuel lower tree expanded = push_level fuel lower tree expanded [] 0"

definition all_paths :: "archive_tree \<Rightarrow> rust_string list" where
  "all_paths tree = concat (map (\<lambda>p. sorted_list_of_set (kids tree p)) (sorted_list_of_set (dom (at_children tree))))"

fun contains_str :: "rust_string \<Rightarrow> rust_string \<Rightarrow> bool" where
  "contains_str [] needle \<longleftrightarrow> needle = []"
| "contains_str (c # s) needle \<longleftrightarrow> take (length needle) (c # s) = needle \<or> contains_str s needle"

definition matching_rows :: "(rust_string \<Rightarrow> rust_string) \<Rightarrow> archive_tree \<Rightarrow> rust_string \<Rightarrow> tree_row list" where
  "matching_rows lower tree needle =
     (let needle = lower needle;
          rows = map (\<lambda>path. (row_of_path tree {} 0 path)\<lparr>tr_expandable := False\<rparr>)
            (filter (\<lambda>p. contains_str (lower (leaf p)) needle) (all_paths tree)) in
      sort_key (\<lambda>r. (\<not> tr_is_dir r, lower (tr_name r))) rows)"

definition tree_len :: "archive_tree \<Rightarrow> nat" where
  "tree_len tree = (\<Sum>p\<in>dom (at_children tree). card (kids tree p))"

definition tree_is_empty :: "archive_tree \<Rightarrow> bool" where
  "tree_is_empty tree \<longleftrightarrow> tree_len tree = 0"

end
