(* ===== verification/ArchiveTreeProps.thy ===== *)
theory ArchiveTreeProps
  imports ArchiveTree
begin

text \<open>
  The tree of \<open>tree.rs\<close>: what \<open>build\<close> keeps, which rows a level shows, and that every entry
  of the archive can be reached.
\<close>

section \<open>The shape of a built tree\<close>

definition is_child :: "rust_string \<Rightarrow> rust_string \<Rightarrow> bool" where
  "is_child p c \<longleftrightarrow> c \<noteq> [] \<and> (\<exists>part. slash \<notin> set part \<and> c = child_path p part)"

definition tree_nodes :: "archive_tree \<Rightarrow> rust_string set" where
  "tree_nodes tree = (\<Union>p. kids tree p)"

text \<open>
  Children are one component longer than their parent, and a parent other than the root is itself a
  child and a directory.
\<close>

definition tree_ok :: "archive_tree \<Rightarrow> bool" where
  "tree_ok tree \<longleftrightarrow> (\<forall>p. finite (kids tree p) \<and> (\<forall>c\<in>kids tree p. is_child p c) \<and>
     (kids tree p \<noteq> {} \<and> p \<noteq> [] \<longrightarrow> p \<in> at_dirs tree \<and> p \<in> tree_nodes tree))"

lemma is_child_longer: "is_child p c \<Longrightarrow> length p < length c"
  by (auto simp: is_child_def child_path_def split: if_splits)

lemma last_slash_unique:
  assumes "p @ slash # part = q @ slash # part'" and "slash \<notin> set part" and "slash \<notin> set part'"
  shows "p = q"
proof -
  have cut: "dropWhile (\<lambda>x. x \<noteq> slash) (rev (r @ slash # s)) = slash # rev r" if "slash \<notin> set s" for r s
  proof -
    have "dropWhile (\<lambda>x. x \<noteq> slash) (rev s @ slash # rev r) = dropWhile (\<lambda>x. x \<noteq> slash) (slash # rev r)"
      by (rule dropWhile_append2) (use that in auto)
    then show ?thesis by simp
  qed
  from cut [OF assms(2), of p] cut [OF assms(3), of q] assms(1) show ?thesis by simp
qed

lemma is_child_unique:
  assumes "is_child p c" and "is_child q c"
  shows "p = q"
proof (cases "p = [] \<or> q = []")
  case True
  with assms show ?thesis by (auto simp: is_child_def child_path_def split: if_splits)
next
  case False
  with assms show ?thesis by (auto simp: is_child_def child_path_def dest: last_slash_unique)
qed

definition level :: "rust_string \<Rightarrow> nat" where
  "level c = count_list c slash"

lemma level_child: "is_child p c \<Longrightarrow> level c = (if p = [] then 0 else Suc (level p))"
  by (auto simp: is_child_def child_path_def level_def)

text \<open>The rows that are shown below a path.\<close>

inductive shown_below :: "archive_tree \<Rightarrow> rust_string set \<Rightarrow> rust_string \<Rightarrow> rust_string \<Rightarrow> bool"
  for tree expanded where
  shown_child: "c \<in> kids tree p \<Longrightarrow> shown_below tree expanded p c"
| shown_deeper: "c \<in> kids tree p \<Longrightarrow> c \<in> at_dirs tree \<Longrightarrow> c \<in> expanded \<Longrightarrow> shown_below tree expanded c x \<Longrightarrow>
    shown_below tree expanded p x"

inductive_cases shown_below_cases: "shown_below tree expanded p x"

definition child_rel :: "(rust_string \<times> rust_string) set" where
  "child_rel = {(c, p). is_child p c}"

lemma shown_chain: "shown_below tree expanded p x \<Longrightarrow> tree_ok tree \<Longrightarrow> (x, p) \<in> child_rel\<^sup>+"
proof (induction rule: shown_below.induct)
  case (shown_deeper c p x)
  then have "(c, p) \<in> child_rel" by (auto simp: tree_ok_def child_rel_def)
  with shown_deeper show ?case by (auto intro: trancl_into_trancl)
qed (auto simp: tree_ok_def child_rel_def)

lemma chain_level: "(x, p) \<in> child_rel\<^sup>+ \<Longrightarrow> p \<noteq> [] \<Longrightarrow> level p < level x"
proof (induction rule: trancl_induct)
  case (base p)
  then show ?case by (simp add: child_rel_def level_child)
next
  case (step p q)
  then have "is_child q p" by (simp add: child_rel_def)
  then have "p \<noteq> []" "level p = Suc (level q)" using step(4) by (simp_all add: level_child) (simp add: is_child_def)
  with step(3) show ?case by simp
qed

lemma siblings_disjoint:
  assumes "is_child p a" and "is_child p b" and "(x, a) \<in> child_rel\<^sup>*" and "(x, b) \<in> child_rel\<^sup>*"
  shows "a = b"
proof (rule ccontr)
  assume "a \<noteq> b"
  have "single_valued child_rel" using is_child_unique by (auto simp: single_valued_def child_rel_def)
  from single_valued_confluent [OF this assms(3,4)] have "(a, b) \<in> child_rel\<^sup>* \<or> (b, a) \<in> child_rel\<^sup>*" .
  with \<open>a \<noteq> b\<close> have "(a, b) \<in> child_rel\<^sup>+ \<or> (b, a) \<in> child_rel\<^sup>+" by (auto simp: rtrancl_eq_or_trancl)
  moreover have "a \<noteq> []" "b \<noteq> []" "level a = level b" using assms(1,2) by (simp_all add: level_child) (simp_all add: is_child_def)
  ultimately show False using chain_level by fastforce
qed

section \<open>The rows of a level\<close>

lemma ordered_kids_set [simp]: "finite ks \<Longrightarrow> set (ordered_kids lower tree ks) = ks"
  by (simp add: ordered_kids_def)

lemma ordered_kids_distinct [simp]: "distinct (ordered_kids lower tree ks)"
  by (simp add: ordered_kids_def)

definition shown_rows :: "archive_tree \<Rightarrow> rust_string set \<Rightarrow> rust_string set \<Rightarrow> rust_string set" where
  "shown_rows tree expanded ps = ps \<union> {x. \<exists>p\<in>ps. p \<in> at_dirs tree \<and> p \<in> expanded \<and> shown_below tree expanded p x}"

lemma shown_rows_kids: "shown_rows tree expanded (kids tree p) = {x. shown_below tree expanded p x}"
  by (auto simp: shown_rows_def intro: shown_below.intros elim: shown_below_cases)

definition rows_ok :: "archive_tree \<Rightarrow> rust_string set \<Rightarrow> rust_string set \<Rightarrow> tree_row list option \<Rightarrow> bool" where
  "rows_ok tree expanded paths result \<longleftrightarrow> (\<exists>rows. result = Some rows \<and> distinct (map tr_path rows) \<and>
     set (map tr_path rows) = paths \<and>
     (\<forall>r\<in>set rows. r = row_of_path tree expanded (level (tr_path r)) (tr_path r)))"

lemma row_of_path_path [simp]: "tr_path (row_of_path tree expanded depth path) = path"
  by (simp add: row_of_path_def Let_def)

text \<open>The rows of some children, given that each level below is right.\<close>

lemma push_rows_ok:
  assumes ok: "tree_ok tree"
    and inner: "\<And>p. p \<in> kids tree parent \<Longrightarrow> p \<in> at_dirs tree \<Longrightarrow>
      rows_ok tree expanded {x. shown_below tree expanded p x} (push_level fuel lower tree expanded p (depth + 1))"
    and depth: "\<forall>c\<in>kids tree parent. level c = depth"
  shows "set paths \<subseteq> kids tree parent \<Longrightarrow> distinct paths \<Longrightarrow>
      rows_ok tree expanded (shown_rows tree expanded (set paths)) (push_rows fuel lower tree expanded paths depth)"
proof (induction paths)
  case Nil
  then show ?case by (simp add: rows_ok_def shown_rows_def)
next
  case (Cons p ps)
  then have p: "p \<in> kids tree parent" "level p = depth" and child: "is_child parent p" using depth ok by (auto simp: tree_ok_def)
  let ?open = "p \<in> at_dirs tree \<and> p \<in> expanded" and ?rest = "push_rows fuel lower tree expanded ps depth"
  let ?below = "{x. ?open \<and> shown_below tree expanded p x}"
  have "rows_ok tree expanded ?below (if ?open then push_level fuel lower tree expanded p (depth + 1) else Some [])"
    using inner [OF p(1)] by (auto simp: rows_ok_def)
  then obtain rows where rows: "(if ?open then push_level fuel lower tree expanded p (depth + 1) else Some []) = Some rows"
      "distinct (map tr_path rows)" "set (map tr_path rows) = ?below"
      "\<forall>r\<in>set rows. r = row_of_path tree expanded (level (tr_path r)) (tr_path r)"
    unfolding rows_ok_def by blast
  from Cons have "rows_ok tree expanded (shown_rows tree expanded (set ps)) ?rest" by simp
  then obtain rest where rest: "?rest = Some rest" "distinct (map tr_path rest)"
      "set (map tr_path rest) = shown_rows tree expanded (set ps)"
      "\<forall>r\<in>set rest. r = row_of_path tree expanded (level (tr_path r)) (tr_path r)"
    unfolding rows_ok_def by blast
  have up: "(x, k) \<in> child_rel\<^sup>*" if "x = k \<or> shown_below tree expanded k x" for x k
    using that shown_chain [OF _ ok] by (auto intro: trancl_into_rtrancl)
  have apart: "x \<notin> shown_rows tree expanded (set ps)" if x: "x = p \<or> shown_below tree expanded p x" for x
  proof
    assume "x \<in> shown_rows tree expanded (set ps)"
    then obtain k where k: "k \<in> set ps" "x = k \<or> shown_below tree expanded k x" by (auto simp: shown_rows_def)
    then have "is_child parent k" using Cons.prems(1) ok by (auto simp: tree_ok_def)
    from siblings_disjoint [OF child this up [OF x] up [OF k(2)]] k(1) Cons.prems(2) show False by simp
  qed
  have self: "p \<notin> ?below" using shown_chain [OF _ ok, of expanded p p] chain_level [of p p] child by (auto simp: is_child_def)
  have "shown_rows tree expanded (set (p # ps)) = insert p (?below \<union> shown_rows tree expanded (set ps))"
    by (auto simp: shown_rows_def)
  moreover have "distinct (map tr_path (row_of_path tree expanded depth p # rows @ rest))"
    using rows(2,3) rest(2,3) apart self by (auto simp del: set_map simp: set_map [symmetric])
  ultimately show ?case
    unfolding rows_ok_def using rows rest p(2) by (intro exI [of _ "row_of_path tree expanded depth p # rows @ rest"]) auto
qed

lemma push_level_ok:
  assumes ok: "tree_ok tree" and bound: "\<forall>c\<in>tree_nodes tree. length c < n"
  shows "parent = [] \<or> parent \<in> tree_nodes tree \<Longrightarrow> n < length parent + fuel \<Longrightarrow> (\<forall>c\<in>kids tree parent. level c = depth) \<Longrightarrow>
      rows_ok tree expanded {x. shown_below tree expanded parent x} (push_level fuel lower tree expanded parent depth)"
proof (induction fuel arbitrary: parent depth)
  case 0
  then show ?case using bound by fastforce
next
  case (Suc fuel)
  show ?case
  proof (cases "at_children tree parent")
    case None
    then have "kids tree parent = {}" by (simp add: kids_def)
    then have "\<not> shown_below tree expanded parent x" for x by (auto elim: shown_below_cases)
    with None show ?thesis by (simp add: rows_ok_def)
  next
    case (Some ks)
    then have ks: "ks = kids tree parent" by (simp add: kids_def)
    have inner: "rows_ok tree expanded {x. shown_below tree expanded p x} (push_level fuel lower tree expanded p (depth + 1))"
      if p: "p \<in> kids tree parent" "p \<in> at_dirs tree" for p
    proof (rule Suc.IH)
      show "p = [] \<or> p \<in> tree_nodes tree" using p by (auto simp: tree_nodes_def)
      have "is_child parent p" using ok p by (auto simp: tree_ok_def)
      from is_child_longer [OF this] show "n < length p + fuel" using Suc.prems(2) by simp
      have "p \<noteq> []" using \<open>is_child parent p\<close> by (simp add: is_child_def)
      moreover have "level p = depth" using Suc.prems(3) p by simp
      moreover have "level c = (if p = [] then 0 else Suc (level p))" if "c \<in> kids tree p" for c
        using ok that by (intro level_child) (simp add: tree_ok_def)
      ultimately show "\<forall>c\<in>kids tree p. level c = depth + 1" by simp
    qed
    from push_rows_ok [OF ok inner Suc.prems(3), of "ordered_kids lower tree ks"] ok
    show ?thesis using Some by (simp add: ks tree_ok_def shown_rows_kids)
  qed
qed

section \<open>Building\<close>

lemma length_replace_double: "length (replace_double s) \<le> length s"
  by (induction s rule: replace_double.induct) auto

lemma replace_double_head: "s \<noteq> [] \<Longrightarrow> replace_double s \<noteq> [] \<and> hd (replace_double s) = hd s"
  by (induction s rule: replace_double.induct) auto

lemma length_normalize: "length (normalize path) \<le> length path"
proof -
  have "length (trim_end (trim_start path)) \<le> length (trim_start path)"
    by (simp add: trim_end_def) (metis length_dropWhile_le length_rev)
  moreover have "length (trim_start path) \<le> length path" by (simp add: trim_start_def length_dropWhile_le)
  ultimately show ?thesis
    using length_replace_double [of "trim_end (trim_start path)"] unfolding normalize_def by linarith
qed

lemma trim_end_head: "trim_end s \<noteq> [] \<Longrightarrow> hd (trim_end s) = hd s"
proof -
  assume ne: "trim_end s \<noteq> []"
  obtain r where "rev s = r @ dropWhile (\<lambda>c. c = slash) (rev s)" by (metis takeWhile_dropWhile_id)
  then have "s = trim_end s @ rev r" by (metis rev_append rev_rev_ident trim_end_def)
  with ne show ?thesis by (metis hd_append2)
qed

lemma normalize_head: "normalize path \<noteq> [] \<Longrightarrow> hd (split_on slash (normalize path)) \<noteq> []"
proof -
  assume ne: "normalize path \<noteq> []"
  let ?s = "trim_end (trim_start path)"
  from ne have s: "?s \<noteq> []" by (auto simp: normalize_def)
  then have t: "trim_start path \<noteq> []" by (auto simp: trim_end_def)
  have "hd (normalize path) = hd (trim_start path)"
    using replace_double_head [OF s] trim_end_head [OF s] by (simp add: normalize_def)
  also have "\<dots> \<noteq> slash" using t unfolding trim_start_def by (rule hd_dropWhile)
  finally show ?thesis using ne unfolding split_first by (cases "normalize path") simp_all
qed

definition full_path :: "rust_string \<Rightarrow> rust_string list \<Rightarrow> rust_string" where
  "full_path parent parts = foldl child_path parent parts"

lemma full_path_simps [simp]:
  "full_path parent [] = parent" "full_path parent (part # parts) = full_path (child_path parent part) parts"
  by (simp_all add: full_path_def)

lemma full_path_join: "p \<noteq> [] \<Longrightarrow> full_path p parts = join_with slash (p # parts)"
proof (induction parts arbitrary: p)
  case (Cons a parts)
  have "join_with slash ((p @ slash # a) # parts) = p @ slash # join_with slash (a # parts)" by (cases parts) simp_all
  with Cons show ?case by (simp add: child_path_def)
qed simp

lemma full_path_root: "parts \<noteq> [] \<Longrightarrow> hd parts \<noteq> [] \<Longrightarrow> full_path [] parts = join_with slash parts"
  by (cases parts) (simp_all add: child_path_def full_path_join)

lemma length_full_path: "length p \<le> length (full_path p parts)"
proof (induction parts arbitrary: p)
  case (Cons a parts)
  have "length p \<le> length (child_path p a)" by (simp add: child_path_def)
  also have "\<dots> \<le> length (full_path p (a # parts))" using Cons by simp
  finally show ?case .
qed simp

lemma kids_simps [simp]:
  "kids (tree\<lparr>at_children := (at_children tree)(p \<mapsto> ks)\<rparr>) q = (if q = p then ks else kids tree q)"
  "kids (tree\<lparr>at_dirs := ds\<rparr>) q = kids tree q" "kids (tree\<lparr>at_files := fs\<rparr>) q = kids tree q"
  by (simp_all add: kids_def)

text \<open>One step down the components of an entry.\<close>

definition add_child :: "archive_entry \<Rightarrow> rust_string \<Rightarrow> rust_string \<Rightarrow> bool \<Rightarrow> archive_tree \<Rightarrow> archive_tree" where
  "add_child entry parent part final tree =
     (let full = child_path parent part;
          tree = tree\<lparr>at_children := (at_children tree)(parent \<mapsto> insert full (kids tree parent))\<rparr> in
      if \<not> final \<or> ae_is_dir entry then tree\<lparr>at_dirs := insert full (at_dirs tree)\<rparr>
      else tree\<lparr>at_files := (at_files tree)(full \<mapsto> facts_of entry)\<rparr>)"

lemma insert_parts_step: "insert_parts entry parent (part # rest) tree =
    insert_parts entry (child_path parent part) rest (add_child entry parent part (rest = []) tree)"
  by (simp add: add_child_def Let_def)

lemma add_child_kids: "kids (add_child entry parent part final tree) q =
    (if q = parent then insert (child_path parent part) (kids tree parent) else kids tree q)"
  by (simp add: add_child_def Let_def)

lemma add_child_nodes: "tree_nodes (add_child entry parent part final tree) = insert (child_path parent part) (tree_nodes tree)"
  by (auto simp: tree_nodes_def add_child_kids split: if_splits)

lemma add_child_dirs: "at_dirs tree \<subseteq> at_dirs (add_child entry parent part final tree)"
  "\<not> final \<Longrightarrow> child_path parent part \<in> at_dirs (add_child entry parent part final tree)"
  by (auto simp: add_child_def Let_def)

definition anchored :: "archive_tree \<Rightarrow> rust_string \<Rightarrow> bool" where
  "anchored tree parent \<longleftrightarrow> parent = [] \<or> parent \<in> at_dirs tree \<and> parent \<in> tree_nodes tree"

lemma add_child_ok:
  assumes "tree_ok tree" and "slash \<notin> set part" and "anchored tree parent" and "parent = [] \<longrightarrow> part \<noteq> []"
  shows "tree_ok (add_child entry parent part final tree)"
  unfolding tree_ok_def add_child_kids add_child_nodes
proof (intro allI conjI impI)
  let ?c = "child_path parent part"
  have child: "is_child parent ?c" using assms(2,4) by (auto simp: is_child_def child_path_def)
  fix q
  show "finite (if q = parent then insert ?c (kids tree parent) else kids tree q)"
    using assms(1) by (simp add: tree_ok_def)
  show "\<forall>c\<in>if q = parent then insert ?c (kids tree parent) else kids tree q. is_child q c"
    using assms(1) child by (simp add: tree_ok_def)
  assume "(if q = parent then insert ?c (kids tree parent) else kids tree q) \<noteq> {} \<and> q \<noteq> []"
  then have "q \<in> at_dirs tree \<and> q \<in> tree_nodes tree"
    using assms(1,3) by (cases "q = parent") (auto simp: tree_ok_def anchored_def)
  then show "q \<in> at_dirs (add_child entry parent part final tree)" "q \<in> insert ?c (tree_nodes tree)"
    using add_child_dirs(1) [of tree entry parent part final] by auto
qed

lemma insert_parts_ok:
  "tree_ok tree \<Longrightarrow> \<forall>part\<in>set parts. slash \<notin> set part \<Longrightarrow> anchored tree parent \<Longrightarrow> (parent = [] \<longrightarrow> parts \<noteq> [] \<longrightarrow> hd parts \<noteq> []) \<Longrightarrow>
     tree_ok (insert_parts entry parent parts tree) \<and> tree_nodes tree \<subseteq> tree_nodes (insert_parts entry parent parts tree) \<and>
     (parts \<noteq> [] \<longrightarrow> full_path parent parts \<in> tree_nodes (insert_parts entry parent parts tree)) \<and>
     (\<forall>c\<in>tree_nodes (insert_parts entry parent parts tree). c \<in> tree_nodes tree \<or> length c \<le> length (full_path parent parts))"
proof (induction parts arbitrary: parent tree)
  case Nil
  then show ?case by simp
next
  case (Cons part rest)
  let ?t = "add_child entry parent part (rest = []) tree" and ?c = "child_path parent part"
  have ok: "tree_ok ?t" by (rule add_child_ok) (use Cons.prems in auto)
  have anch: "anchored ?t ?c" if "rest \<noteq> []" using that add_child_dirs(2) by (auto simp: anchored_def add_child_nodes)
  have ne: "?c \<noteq> []" using Cons.prems(4) by (auto simp: child_path_def)
  show ?case
  proof (cases "rest = []")
    case True
    then show ?thesis using ok by (simp add: insert_parts_step add_child_nodes del: insert_parts.simps(2)) (auto simp: add_child_nodes)
  next
    case False
    from Cons.IH [OF ok _ anch [OF False]] Cons.prems(2) ne False length_full_path [of ?c rest] show ?thesis
      by (simp add: insert_parts_step add_child_nodes del: insert_parts.simps(2)) (auto simp: add_child_nodes)
  qed
qed

lemma tree_insert_ok:
  assumes "tree_ok tree"
  shows "tree_ok (tree_insert entry tree) \<and> tree_nodes tree \<subseteq> tree_nodes (tree_insert entry tree) \<and>
    (normalize (ae_path entry) \<noteq> [] \<longrightarrow> normalize (ae_path entry) \<in> tree_nodes (tree_insert entry tree)) \<and>
    (\<forall>c\<in>tree_nodes (tree_insert entry tree). c \<in> tree_nodes tree \<or> length c \<le> length (ae_path entry))"
proof (cases "normalize (ae_path entry) = []")
  case True
  then show ?thesis using assms by (simp add: tree_insert_def)
next
  case False
  let ?parts = "split_on slash (normalize (ae_path entry))"
  have full: "full_path [] ?parts = normalize (ae_path entry)"
    using full_path_root [of ?parts] normalize_head [OF False] by simp
  have pieces: "\<forall>part\<in>set ?parts. slash \<notin> set part" by (simp add: split_on_pieces)
  have "anchored tree []" by (simp add: anchored_def)
  have head: "[] = ([] :: rust_string) \<longrightarrow> ?parts \<noteq> [] \<longrightarrow> hd ?parts \<noteq> []" using normalize_head [OF False] by simp
  have run: "tree_insert entry tree = insert_parts entry [] ?parts tree" using False by (simp add: tree_insert_def)
  note spec = insert_parts_ok [OF assms pieces \<open>anchored tree []\<close> head, of entry, unfolded full, folded run]
  note grown = spec [THEN conjunct2, THEN conjunct2, THEN conjunct2, rule_format]
  show ?thesis
  proof (intro conjI impI ballI)
    show "tree_ok (tree_insert entry tree)" by (rule spec [THEN conjunct1])
    show "tree_nodes tree \<subseteq> tree_nodes (tree_insert entry tree)" by (rule spec [THEN conjunct2, THEN conjunct1])
    show "normalize (ae_path entry) \<in> tree_nodes (tree_insert entry tree)"
      by (rule spec [THEN conjunct2, THEN conjunct2, THEN conjunct1, THEN mp]) simp
    fix c assume "c \<in> tree_nodes (tree_insert entry tree)"
    from grown [OF this] show "c \<in> tree_nodes tree \<or> length c \<le> length (ae_path entry)"
      using length_normalize [of "ae_path entry"] by linarith
  qed
qed

lemma build_ok:
  "tree_ok (build t) \<and> (\<forall>e\<in>set (toc_entries t). normalize (ae_path e) \<noteq> [] \<longrightarrow> normalize (ae_path e) \<in> tree_nodes (build t)) \<and>
   (\<forall>c\<in>tree_nodes (build t). \<exists>e\<in>set (toc_entries t). length c \<le> length (ae_path e))"
proof -
  have "tree_ok (fold tree_insert es tree) \<and> tree_nodes tree \<subseteq> tree_nodes (fold tree_insert es tree) \<and>
      (\<forall>e\<in>set es. normalize (ae_path e) \<noteq> [] \<longrightarrow> normalize (ae_path e) \<in> tree_nodes (fold tree_insert es tree)) \<and>
      (\<forall>c\<in>tree_nodes (fold tree_insert es tree). c \<in> tree_nodes tree \<or> (\<exists>e\<in>set es. length c \<le> length (ae_path e)))"
    if "tree_ok tree" for es tree
    using that
  proof (induction es arbitrary: tree)
    case (Cons e es)
    note one = tree_insert_ok [OF Cons.prems, of e]
    note rest = Cons.IH [OF one [THEN conjunct1]]
    show ?case unfolding fold_simps comp_def
    proof (intro conjI ballI impI)
      show "tree_ok (fold tree_insert es (tree_insert e tree))" using rest by blast
      show "tree_nodes tree \<subseteq> tree_nodes (fold tree_insert es (tree_insert e tree))" using rest one by blast
      fix d assume "d \<in> set (e # es)" "normalize (ae_path d) \<noteq> []"
      then show "normalize (ae_path d) \<in> tree_nodes (fold tree_insert es (tree_insert e tree))"
        using rest one by (metis set_ConsD subsetD)
    next
      fix c assume "c \<in> tree_nodes (fold tree_insert es (tree_insert e tree))"
      then show "c \<in> tree_nodes tree \<or> (\<exists>d\<in>set (e # es). length c \<le> length (ae_path d))"
        using rest one by (metis list.set_intros)
    qed
  qed simp
  from this [of ArchiveTree_default "toc_entries t"] show ?thesis
    by (simp add: build_def tree_ok_def ArchiveTree_default_def kids_def tree_nodes_def)
qed

lemma row_depth: "tr_depth (row_of_path tree expanded depth path) = depth"
  by (simp add: row_of_path_def Let_def)

lemma shown_snoc:
  "shown_below tree expanded q p \<Longrightarrow> p \<in> at_dirs tree \<Longrightarrow> p \<in> expanded \<Longrightarrow> c \<in> kids tree p \<Longrightarrow> shown_below tree expanded q c"
  by (induction rule: shown_below.induct) (auto intro: shown_below.intros)

lemma all_shown:
  assumes ok: "tree_ok tree" and "at_dirs tree \<subseteq> expanded"
  shows "c \<in> tree_nodes tree \<Longrightarrow> shown_below tree expanded [] c"
proof (induction "length c" arbitrary: c rule: less_induct)
  case less
  then obtain p where p: "c \<in> kids tree p" by (auto simp: tree_nodes_def)
  show ?case
  proof (cases "p = []")
    case True
    with p show ?thesis by (auto intro: shown_child)
  next
    case False
    from p ok have "is_child p c" "p \<in> at_dirs tree" "p \<in> tree_nodes tree" using False by (auto simp: tree_ok_def)
    with less.hyps [OF is_child_longer] assms(2) p show ?thesis by (blast intro: shown_snoc)
  qed
qed

section \<open>Property\<close>

text \<open>C28. The rows of an archive view are exactly the paths whose ancestors are all open directories, each once, at a depth equal to its number of separators; with every directory open, each entry of the archive that has a name is shown, also when the archive recorded no directory. Fuel beyond the longest path is enough, so the recursion ends.\<close>

theorem visible_rows_exact:
  assumes "0 < fuel" and "\<forall>e\<in>set (toc_entries t). Suc (length (ae_path e)) < fuel"
  shows "\<exists>rows. visible_rows fuel lower (build t) expanded = Some rows \<and> distinct (map tr_path rows) \<and>
    set (map tr_path rows) = {x. shown_below (build t) expanded [] x} \<and>
    (\<forall>r\<in>set rows. tr_depth r = count_list (tr_path r) slash) \<and>
    (at_dirs (build t) \<subseteq> expanded \<longrightarrow> (\<forall>e\<in>set (toc_entries t).
       normalize (ae_path e) \<noteq> [] \<longrightarrow> normalize (ae_path e) \<in> set (map tr_path rows)))"
proof -
  note ok = build_ok [of t, THEN conjunct1]
  have bound: "\<forall>c\<in>tree_nodes (build t). length c < fuel - 1"
  proof
    fix c assume "c \<in> tree_nodes (build t)"
    with build_ok [of t] obtain e where "e \<in> set (toc_entries t)" "length c \<le> length (ae_path e)" by blast
    with assms(2) show "length c < fuel - 1" by force
  qed
  have "is_child [] c" if "c \<in> kids (build t) []" for c using ok that by (simp add: tree_ok_def)
  then have "\<forall>c\<in>kids (build t) []. level c = 0" using level_child [of "[]"] by simp
  then have "rows_ok (build t) expanded {x. shown_below (build t) expanded [] x} (visible_rows fuel lower (build t) expanded)"
    unfolding visible_rows_def using assms(1) by (intro push_level_ok [OF ok bound]) simp_all
  then obtain rows where rows: "visible_rows fuel lower (build t) expanded = Some rows" "distinct (map tr_path rows)"
      "set (map tr_path rows) = {x. shown_below (build t) expanded [] x}"
      "\<forall>r\<in>set rows. r = row_of_path (build t) expanded (level (tr_path r)) (tr_path r)"
    unfolding rows_ok_def by blast
  moreover have "tr_depth r = count_list (tr_path r) slash" if "r \<in> set rows" for r
    using rows(4) that row_depth level_def by metis
  moreover have "\<forall>e\<in>set (toc_entries t). normalize (ae_path e) \<noteq> [] \<longrightarrow> normalize (ae_path e) \<in> set (map tr_path rows)"
    if "at_dirs (build t) \<subseteq> expanded"
    using all_shown [OF ok that] build_ok [of t] rows(3) by blast
  ultimately show ?thesis by blast
qed

definition sample_toc :: toc where
  "sample_toc = \<lparr>toc_entries = [\<lparr>ae_path = ascii ''a/b'', ae_is_dir = False, ae_uncompressed_size = Some 5, ae_compressed_size = None,
     ae_mtime_unix = None, ae_compression_method = None, ae_checksum = None, ae_unix_mode = None, ae_comment = None,
     ae_encrypted = False\<rparr>], toc_needs_password = False\<rparr>"

theorem visible_rows_exact_witness:
  "\<exists>rows. visible_rows 5 id (build sample_toc) UNIV = Some rows \<and> ascii ''a/b'' \<in> set (map tr_path rows)"
proof -
  have "\<forall>e\<in>set (toc_entries sample_toc). Suc (length (ae_path e)) < 5" by (simp add: sample_toc_def ascii_def)
  moreover have "normalize (ascii ''a/b'') = ascii ''a/b''" "ascii ''a/b'' \<noteq> []"
    by (simp_all add: normalize_def trim_start_def trim_end_def ascii_def slash_def)
  moreover have "\<exists>e\<in>set (toc_entries sample_toc). ae_path e = ascii ''a/b''" by (simp add: sample_toc_def)
  ultimately show ?thesis using visible_rows_exact [of 5 sample_toc id UNIV] by force
qed

end
