(* ===== verification/RustText.thy ===== *)
theory RustText
  imports Prelude
begin

text \<open>
  Strings and signed integers of the Rust standard library as the crates use them: white space,
  prefixes, splitting, substrings, numbers in decimal, and \<open>i64\<close> results.
\<close>

section \<open>Strings\<close>

text \<open>The characters with the Unicode property \<open>White_Space\<close>.\<close>

definition is_whitespace :: "u32 \<Rightarrow> bool" where
  "is_whitespace c \<longleftrightarrow> (0x09 \<le> c \<and> c \<le> 0x0D) \<or> c \<in> {0x20, 0x85, 0xA0, 0x1680, 0x2028, 0x2029, 0x202F, 0x205F, 0x3000} \<or>
     (0x2000 \<le> c \<and> c \<le> 0x200A)"

definition trim :: "rust_string \<Rightarrow> rust_string" where
  "trim s = rev (dropWhile is_whitespace (rev (dropWhile is_whitespace s)))"

definition strip_prefix :: "rust_string \<Rightarrow> rust_string \<Rightarrow> rust_string option" where
  "strip_prefix p s = (if take (length p) s = p then Some (drop (length p) s) else None)"

fun split_once :: "rust_string \<Rightarrow> rust_string \<Rightarrow> (rust_string \<times> rust_string) option" where
  "split_once p [] = (if p = [] then Some ([], []) else None)"
| "split_once p (c # s) =
     (case strip_prefix p (c # s) of
        Some rest \<Rightarrow> Some ([], rest)
      | None \<Rightarrow> map_option (\<lambda>(a, b). (c # a, b)) (split_once p s))"

definition rsplit_once_dot :: "rust_string \<Rightarrow> (rust_string \<times> rust_string) option" where
  "rsplit_once_dot s =
     (case dropWhile (\<lambda>c. c \<noteq> 0x2E) (rev s) of
        [] \<Rightarrow> None
      | _ # stem \<Rightarrow> Some (rev stem, rev (takeWhile (\<lambda>c. c \<noteq> 0x2E) (rev s))))"

definition eq_ignore_ascii_case :: "rust_string \<Rightarrow> rust_string \<Rightarrow> bool" where
  "eq_ignore_ascii_case a b \<longleftrightarrow> map to_ascii_lowercase a = map to_ascii_lowercase b"

fun contains :: "rust_string \<Rightarrow> rust_string \<Rightarrow> bool" where
  "contains [] needle \<longleftrightarrow> needle = []"
| "contains (c # s) needle \<longleftrightarrow> take (length needle) (c # s) = needle \<or> contains s needle"

definition is_digit :: "u32 \<Rightarrow> bool" where
  "is_digit c \<longleftrightarrow> 0x30 \<le> c \<and> c \<le> 0x39"

definition digits_value :: "rust_string \<Rightarrow> int" where
  "digits_value s = foldl (\<lambda>acc c. 10 * acc + (uint c - 0x30)) 0 s"

text \<open>\<open>str::parse::<i64>\<close> and \<open>::<u32>\<close>: an optional sign, then digits, within range.\<close>

definition parse_i64 :: "rust_string \<Rightarrow> int option" where
  "parse_i64 s =
     (let negative = take 1 s = [0x2D]; digits = (if take 1 s = [0x2B] \<or> negative then tl s else s);
          n = (if negative then - digits_value digits else digits_value digits) in
      if digits \<noteq> [] \<and> list_all is_digit digits \<and> i64_range n then Some n else None)"

definition parse_u32 :: "rust_string \<Rightarrow> int option" where
  "parse_u32 s =
     (let digits = (if take 1 s = [0x2B] then tl s else s) in
      if digits \<noteq> [] \<and> list_all is_digit digits \<and> digits_value digits < 2 ^ 32 then Some (digits_value digits) else None)"

section \<open>Signed integers\<close>

text \<open>An \<open>i64\<close> result; and \<open>/\<close>, which truncates towards zero.\<close>

definition i64 :: "int \<Rightarrow> ('e, int) outcome" where
  "i64 n = (if i64_range n then Ok n else Panic)"

definition trunc_div :: "int \<Rightarrow> int \<Rightarrow> int" where
  "trunc_div a b = (if 0 \<le> a then a div b else - ((- a) div b))"

lemma digits_value_nonneg: "list_all is_digit s \<Longrightarrow> 0 \<le> digits_value s"
proof -
  have "0 \<le> acc \<Longrightarrow> list_all is_digit s \<Longrightarrow> 0 \<le> foldl (\<lambda>acc c. 10 * acc + (uint c - 0x30)) acc s" for acc :: int
  proof (induction s arbitrary: acc)
    case (Cons c s)
    from Cons.prems(2) have "0x30 \<le> uint c" by (simp add: is_digit_def word_le_def)
    with Cons show ?case by simp
  qed simp
  then show "list_all is_digit s \<Longrightarrow> ?thesis" by (simp add: digits_value_def)
qed

lemma parse_u32_nonneg: "parse_u32 s = Some n \<Longrightarrow> 0 \<le> n"
  by (auto simp: parse_u32_def Let_def digits_value_nonneg split: if_splits)

lemma take_one: "take 1 s = [c] \<Longrightarrow> c \<in> set s"
  by (cases s) auto

lemma parse_i64_nonneg: "parse_i64 s = Some n \<Longrightarrow> 0x2D \<notin> set s \<Longrightarrow> 0 \<le> n"
  using take_one [of s "0x2D"] by (auto simp: parse_i64_def Let_def digits_value_nonneg split: if_splits)

lemma dropWhile_chars: "c \<in> set s \<Longrightarrow> P c \<or> c \<in> set (dropWhile P s)"
  by (induction s) auto

lemma trim_chars: "c \<in> set s \<Longrightarrow> is_whitespace c \<or> c \<in> set (trim s)"
  using dropWhile_chars [of c s is_whitespace] dropWhile_chars [of c "rev (dropWhile is_whitespace s)" is_whitespace]
  by (auto simp: trim_def)

lemma split_on_chars: "c \<in> set s \<Longrightarrow> c = sep \<or> (\<exists>piece\<in>set (split_on sep s). c \<in> set piece)"
  using set_join_with [of c sep "split_on sep s"] by simp

lemma list_tl_chars: "c \<in> set s \<Longrightarrow> take 1 s = [a] \<Longrightarrow> c = a \<or> c \<in> set (tl s)"
  by (cases s) auto

lemma parse_i64_chars: "parse_i64 s = Some n \<Longrightarrow> c \<in> set s \<Longrightarrow> is_digit c \<or> c = 0x2B \<or> c = 0x2D"
  using list_tl_chars [of c s "0x2B"] list_tl_chars [of c s "0x2D"]
  by (auto simp: parse_i64_def Let_def list_all_iff split: if_splits)

lemma parse_u32_chars: "parse_u32 s = Some n \<Longrightarrow> c \<in> set s \<Longrightarrow> is_digit c \<or> c = 0x2B"
  using list_tl_chars [of c s "0x2B"] by (auto simp: parse_u32_def Let_def list_all_iff split: if_splits)

lemma set_trim: "set (trim s) \<subseteq> set s"
  unfolding trim_def using set_dropWhileD by (fastforce dest: set_dropWhileD)

lemma split_once_dots: "0x2E \<notin> set s \<Longrightarrow> split_once (ascii ''..'') s = None"
  by (induction s) (auto simp: ascii_def strip_prefix_def)

lemma split_once_range: "0x2E \<notin> set lo \<Longrightarrow> split_once (ascii ''..'') (lo @ ascii ''..'' @ hi) = Some (lo, hi)"
  by (induction lo) (auto simp: ascii_def strip_prefix_def)

lemma strip_prefix_simps:
  "strip_prefix [] s = Some s"
  "strip_prefix (a # p) (b # s) = (if a = b then strip_prefix p s else None)"
  "a \<notin> set s \<Longrightarrow> strip_prefix (a # p) s = None"
  by (auto simp: strip_prefix_def) (cases s; auto)

lemma split_once_skip: "strip_prefix p (c # s) = None \<Longrightarrow> split_once p (c # s) = map_option (\<lambda>(a, b). (c # a, b)) (split_once p s)"
  by simp

lemma contains_iff: "contains s needle \<longleftrightarrow> (\<exists>a b. s = a @ needle @ b)"
proof (induction s needle rule: contains.induct)
  case (2 c s needle)
  have "take (length needle) (c # s) = needle \<longleftrightarrow> (\<exists>b. c # s = needle @ b)"
    by (metis append_eq_conv_conj append_take_drop_id)
  with 2 show ?case by (auto simp: Cons_eq_append_conv)
qed simp

lemma split_once_absent: "c \<notin> set s \<Longrightarrow> split_once [c] s = None"
  by (induction s) (auto simp: strip_prefix_def)

lemma join_with_merge: "join_with sep ((a @ sep # b) # ps) = a @ sep # join_with sep (b # ps)"
  by (cases ps) simp_all

lemma i64_Ok: "i64_range n \<Longrightarrow> i64 n = Ok n"
  by (simp add: i64_def)

lemma i64_range_small: "- (2 ^ 62) \<le> n \<Longrightarrow> n \<le> 2 ^ 62 \<Longrightarrow> i64_range n"
  by (simp add: i64_range_def)

section \<open>Decimal numbers\<close>

text \<open>\<open>{}\<close> of an unsigned number and \<open>{:0w}\<close>.\<close>

fun decimal :: "nat \<Rightarrow> rust_string" where
  "decimal n = (if n < 10 then [0x30 + of_nat n] else decimal (n div 10) @ [0x30 + of_nat (n mod 10)])"

declare decimal.simps [simp del]

definition zero_padded :: "nat \<Rightarrow> int \<Rightarrow> rust_string" where
  "zero_padded w n =
     (let digits = decimal (nat \<bar>n\<bar>) in
      if n < 0 then 0x2D # replicate (w - 1 - length digits) 0x30 @ digits
      else replicate (w - length digits) 0x30 @ digits)"

lemma digit_code: "n < 10 \<Longrightarrow> is_digit (0x30 + of_nat n) \<and> uint (0x30 + of_nat n :: u32) = 0x30 + int n"
proof -
  assume n: "n < 10"
  then have "n \<in> {0, 1, 2, 3, 4, 5, 6, 7, 8, 9}" by simp presburger
  then show ?thesis by (elim insertE emptyE) (simp_all add: is_digit_def)
qed

lemma digits_value_append: "digits_value (s @ [c]) = 10 * digits_value s + (uint c - 0x30)"
  by (simp add: digits_value_def)

lemma decimal_digits: "list_all is_digit (decimal n)" and decimal_value: "digits_value (decimal n) = int n"
  and decimal_nonempty: "decimal n \<noteq> []"
proof (induction n rule: decimal.induct)
  case (1 n)
  {
    case 1
    then show ?case by (cases "n < 10") (simp_all add: decimal.simps [of n] digit_code "1.IH")
  next
    case 2
    then show ?case
    proof (cases "n < 10")
      case False
      have "int (10 * (n div 10) + n mod 10) = int n" by (simp only: mult_div_mod_eq)
      then have "10 * int (n div 10) + int (n mod 10) = int n" by (simp only: of_nat_add of_nat_mult of_nat_numeral)
      with False digit_code [of "n mod 10"] show ?thesis
        by (simp add: decimal.simps [of n] digits_value_append "1.IH")
    qed (use digit_code [of n] in \<open>simp add: decimal.simps [of n] digits_value_def\<close>)
  next
    case 3
    then show ?case by (simp add: decimal.simps [of n])
  }
qed

lemma digits_value_zeros: "digits_value (replicate k 0x30 @ s) = digits_value s"
  by (induction k) (simp_all add: digits_value_def)

lemma zero_padded_nonneg:
  assumes "0 \<le> n"
  shows "list_all is_digit (zero_padded w n)" "digits_value (zero_padded w n) = n" "zero_padded w n \<noteq> []"
  using assms decimal_digits [of "nat n"] decimal_value [of "nat n"] decimal_nonempty [of "nat n"]
  by (simp_all add: zero_padded_def Let_def digits_value_zeros, auto simp: list_all_iff is_digit_def)

lemma digit_not: "is_digit c \<Longrightarrow> c \<noteq> 0x2D \<and> c \<noteq> 0x2B \<and> \<not> is_whitespace c"
  by (auto simp: is_digit_def is_whitespace_def word_le_nat_alt)

lemma trim_id: "s \<noteq> [] \<Longrightarrow> \<not> is_whitespace (hd s) \<Longrightarrow> \<not> is_whitespace (last s) \<Longrightarrow> trim s = s"
proof -
  assume s: "s \<noteq> []" "\<not> is_whitespace (hd s)" "\<not> is_whitespace (last s)"
  have "dropWhile is_whitespace s = s" using s by (cases s) simp_all
  moreover have "dropWhile is_whitespace (rev s) = rev s" using s by (cases s rule: rev_cases) simp_all
  ultimately
  show ?thesis by (simp add: trim_def)
qed

lemma parse_digits:
  assumes "list_all is_digit s" "s \<noteq> []"
  shows "digits_value s < 2 ^ 63 \<Longrightarrow> parse_i64 s = Some (digits_value s)"
    and "digits_value s < 2 ^ 32 \<Longrightarrow> parse_u32 s = Some (digits_value s)"
proof -
  from assms have "take 1 s \<noteq> [0x2B]" "take 1 s \<noteq> [0x2D]" by (cases s; auto dest: digit_not)+
  with assms digits_value_nonneg [OF assms(1)]
  show "digits_value s < 2 ^ 63 \<Longrightarrow> parse_i64 s = Some (digits_value s)"
    and "digits_value s < 2 ^ 32 \<Longrightarrow> parse_u32 s = Some (digits_value s)"
    by (simp_all add: parse_i64_def parse_u32_def Let_def i64_range_def)
qed

end
