(* ===== verification/EntryLabels.thy ===== *)
theory EntryLabels
  imports RustText
begin

text \<open>
  \<open>ferail-core\<close>: \<open>lib.rs\<close>, the row of a file list: its identity, the Format label with the flag
  for content that disagrees with the extension, and the age label of a modification time.
  Translations (\<open>tr!\<close>, \<open>trn!\<close>, \<open>tr_dynamic\<close>) are parameters; the clock is an argument.
\<close>

section \<open>Rows\<close>

datatype node_id = NodeId u64

definition NodeId_from_raw :: "u64 \<Rightarrow> node_id option" where
  "NodeId_from_raw raw = (if raw = 0 then None else Some (NodeId raw))"

fun as_raw :: "node_id \<Rightarrow> u64" where
  "as_raw (NodeId raw) = raw"

definition NodeId_from :: "u64 \<Rightarrow> node_id" where
  "NodeId_from v = NodeId (max v 1)"

datatype entry_kind = KindDirectory | KindFile | KindSymlink

record quarantine_details =
  qd_agent :: "rust_string option"
  qd_downloaded_iso :: "rust_string option"
  qd_where_from :: "rust_string list"

record file_entry =
  fe_id :: node_id
  fe_name :: rust_string
  fe_display_name :: rust_string
  fe_name_has_hazards :: bool
  fe_kind :: entry_kind
  fe_size :: u64
  fe_mtime_unix :: int
  fe_display_size :: rust_string
  fe_display_kind :: rust_string
  fe_display_magic :: rust_string
  fe_display_description :: rust_string
  fe_details_loaded :: bool
  fe_is_quarantined :: bool
  fe_quarantine :: "quarantine_details option"
  fe_hidden :: bool
  fe_created_unix :: "int option"
  fe_locked :: bool

section \<open>Format flags\<close>

datatype format_flag = FlagNone | FlagNotice | FlagAlert

definition is_alert :: "format_flag \<Rightarrow> bool" where
  "is_alert f \<longleftrightarrow> f = FlagAlert"

definition is_notice :: "format_flag \<Rightarrow> bool" where
  "is_notice f \<longleftrightarrow> f = FlagNotice"

text \<open>\<open>str::replace(pat, "")\<close> and \<open>to_ascii_lowercase\<close>.\<close>

function remove_all :: "rust_string \<Rightarrow> rust_string \<Rightarrow> rust_string" where
  "remove_all p [] = []"
| "remove_all p (c # s) =
     (if p \<noteq> [] \<and> take (length p) (c # s) = p then remove_all p (drop (length p) (c # s)) else c # remove_all p s)"
  by pat_completeness auto
termination by (relation "measure (\<lambda>(p, s). length s)") (auto simp: neq_Nil_conv)

definition ascii_lower :: "rust_string \<Rightarrow> rust_string" where
  "ascii_lower s = map to_ascii_lowercase s"

definition one_of :: "rust_string \<Rightarrow> string list \<Rightarrow> bool" where
  "one_of k ws \<longleftrightarrow> k \<in> set (map ascii ws)"

definition has_any :: "rust_string \<Rightarrow> string list \<Rightarrow> bool" where
  "has_any k ws \<longleftrightarrow> list_ex (\<lambda>w. contains k (ascii w)) ws"

definition normalize_format :: "rust_string \<Rightarrow> rust_string" where
  "normalize_format s =
     (let stripped = trim (remove_all (ascii '' data'') (remove_all (ascii '' file'') (remove_all (ascii '' document'')
        (remove_all (ascii '' archive'') (remove_all (ascii '' image'') (ascii_lower s)))))) in
      if one_of stripped [''jpg'', ''jpeg''] then ascii ''jpeg''
      else if one_of stripped [''tif'', ''tiff''] then ascii ''tiff''
      else if one_of stripped [''htm'', ''html''] then ascii ''html''
      else if one_of stripped [''mpg'', ''mpeg''] then ascii ''mpeg''
      else if one_of stripped [''yml'', ''yaml''] then ascii ''yaml''
      else if one_of stripped [''md'', ''markdown''] then ascii ''markdown''
      else if one_of stripped [''rs'', ''rust''] then ascii ''rust''
      else if one_of stripped [''py'', ''python''] then ascii ''python''
      else if one_of stripped [''js'', ''javascript''] then ascii ''javascript''
      else if one_of stripped [''ts'', ''typescript''] then ascii ''typescript''
      else stripped)"

definition textual :: "string list" where
  "textual = [''txt'', ''md'', ''markdown'', ''rst'', ''log'', ''json'', ''yaml'', ''toml'', ''ini'',
     ''csv'', ''tsv'', ''xml'', ''html'', ''css'', ''scss'', ''rs'', ''py'', ''js'', ''ts'',
     ''go'', ''rb'', ''c'', ''cpp'', ''h'', ''hpp'', ''java'', ''d'', ''kt'', ''swift'', ''sh'',
     ''bash'', ''zsh'', ''vim'', ''lua'', ''sql'', ''graphql'', ''proto'', ''tex'', ''el'',
     ''svg'', ''nfo'', ''diz'', ''sfv'', ''md5'', ''sha1'', ''sha224'', ''sha256'', ''sha384'',
     ''sha512'']"

definition zip_kindly :: "string list" where
  "zip_kindly = [''docx'', ''xlsx'', ''pptx'', ''epub'', ''jar'', ''apk'', ''ipa'', ''odt'', ''ods'', ''odp'',
     ''zip'', ''war'']"

definition office_pairs :: "(string \<times> string list) list" where
  "office_pairs = [(''docx'', [''word'', ''docx'']),
     (''xlsx'', [''excel'', ''xlsx'', ''spreadsheet'']),
     (''pptx'', [''powerpoint'', ''pptx'', ''presentation'']),
     (''doc'', [''word'', ''doc'']),
     (''xls'', [''excel'', ''xls'', ''spreadsheet'']),
     (''ppt'', [''powerpoint'', ''ppt'', ''presentation'']),
     (''odt'', [''opendocument'', ''writer'', ''odt'']),
     (''ods'', [''opendocument'', ''calc'', ''ods'', ''spreadsheet'']),
     (''odp'', [''opendocument'', ''impress'', ''odp'', ''presentation'']),
     (''epub'', [''epub'', ''publication'']),
     (''rtf'', [''rich text''])]"

definition formats_compatible :: "rust_string \<Rightarrow> rust_string \<Rightarrow> bool" where
  "formats_compatible kind magic \<longleftrightarrow>
     (let k = normalize_format kind; m = normalize_format magic in
      if k = [] \<or> m = [] then True
      else if one_of k [''file'', ''folder'', ''symlink''] then True
      else if k = m \<or> contains m k \<or> contains k m then True
      else if one_of k [''o'', ''obj''] \<and> (contains m (ascii ''object'') \<or> contains m (ascii ''relocatable'')) then True
      else if (contains m (ascii ''text'') \<or> contains m (ascii ''script'') \<or> contains m (ascii ''source'')) \<and> has_any k textual then True
      else if contains m (ascii ''zip'') \<and> has_any k zip_kindly then True
      else if list_ex (\<lambda>(ext, magic_keywords). contains k (ascii ext) \<and> has_any m magic_keywords) office_pairs then True
      else if one_of k [''wma'', ''wmv'', ''asf''] \<and> contains m (ascii ''windows media'') then True
      else False)"

datatype content_risk = RiskExecutable | RiskScript | RiskMacro | RiskArchiveOrBinary | RiskPassive

definition content_risk_of :: "rust_string \<Rightarrow> rust_string \<Rightarrow> content_risk" where
  "content_risk_of magic description =
     (if contains (ascii_lower description) (ascii ''macro-enabled'') then RiskMacro
      else
      let m = ascii_lower magic in
      if has_any m [''executable'', ''dylib'', ''pe /'', ''java jar'', ''java class'', ''android apk'', ''shortcut'']
      then RiskExecutable
      else if contains m (ascii ''script'') then RiskScript
      else if contains m (ascii ''archive'') \<or> m = ascii ''binary'' then RiskArchiveOrBinary
      else RiskPassive)"

datatype ext_class = ExtCode | ExtOfficeMacro | ExtMedia | ExtDocument | ExtText | ExtArchive | ExtOpaque | ExtPlaceholder

definition CODE :: "string list" where
  "CODE = [''exe'', ''dll'', ''so'', ''dylib'', ''scr'', ''com'', ''bat'', ''cmd'', ''ps1'', ''psm1'',
     ''vbs'', ''vbe'', ''wsf'', ''wsh'', ''hta'', ''msi'', ''msix'', ''msp'', ''appx'', ''app'',
     ''pkg'', ''run'', ''jar'', ''apk'', ''class'', ''jnlp'', ''gadget'', ''sh'', ''bash'',
     ''zsh'', ''fish'', ''ksh'', ''csh'', ''command'', ''py'', ''pyw'', ''rb'', ''pl'', ''pm'',
     ''lua'', ''tcl'', ''ahk'', ''js'', ''mjs'', ''cjs'', ''ts'', ''lnk'', ''url'', ''desktop'',
     ''o'', ''obj'']"

definition OFFICE_MACRO :: "string list" where
  "OFFICE_MACRO = [''docm'', ''dotm'', ''xlsm'', ''xltm'', ''xlam'', ''pptm'', ''potm'', ''ppam'', ''ppsm'']"

definition MEDIA :: "string list" where
  "MEDIA = [''jpg'', ''jpeg'', ''png'', ''gif'', ''bmp'', ''webp'', ''ico'', ''tif'', ''tiff'', ''heic'',
     ''heif'', ''svg'', ''mp4'', ''mov'', ''avi'', ''mkv'', ''webm'', ''m4v'', ''wmv'', ''flv'',
     ''mpg'', ''mpeg'', ''3gp'', ''mp3'', ''wav'', ''flac'', ''ogg'', ''oga'', ''m4a'', ''aac'',
     ''wma'', ''aiff'', ''opus'']"

definition DOCUMENT :: "string list" where
  "DOCUMENT = [''pdf'', ''doc'', ''docx'', ''dot'', ''dotx'', ''xls'', ''xlsx'', ''xlt'', ''xltx'', ''ppt'',
     ''pptx'', ''pps'', ''ppsx'', ''odt'', ''ods'', ''odp'', ''rtf'', ''epub'', ''pages'', ''key'',
     ''numbers'']"

definition TEXT :: "string list" where
  "TEXT = [''txt'', ''md'', ''markdown'', ''rst'', ''log'', ''json'', ''xml'', ''yaml'', ''yml'',
     ''toml'', ''ini'', ''config'', ''cfg'', ''conf'', ''csv'', ''tsv'', ''html'', ''htm'',
     ''css'', ''scss'', ''tex'', ''srt'', ''vtt'', ''plist'', ''properties'', ''env'', ''d'',
     ''nfo'', ''diz'', ''sfv'', ''md5'', ''sha1'', ''sha256'']"

definition ARCHIVE :: "string list" where
  "ARCHIVE = [''zip'', ''rar'', ''7z'', ''gz'', ''tgz'', ''bz2'', ''tbz2'', ''xz'', ''zst'', ''tar'',
     ''war'', ''ear'', ''cab'', ''iso'', ''dmg'', ''lz'', ''lzma'']"

definition ext_class_of :: "rust_string \<Rightarrow> ext_class" where
  "ext_class_of kind =
     (let k = ascii_lower (trim kind) in
      if k = [] \<or> one_of k [''file'', ''folder'', ''symlink''] then ExtPlaceholder
      else if one_of k OFFICE_MACRO then ExtOfficeMacro
      else if one_of k CODE then ExtCode
      else if one_of k MEDIA then ExtMedia
      else if one_of k DOCUMENT then ExtDocument
      else if one_of k TEXT then ExtText
      else if one_of k ARCHIVE then ExtArchive
      else ExtOpaque)"

definition classify_format :: "rust_string \<Rightarrow> rust_string \<Rightarrow> rust_string \<Rightarrow> format_flag" where
  "classify_format kind magic description =
     (let ext = ext_class_of kind in
      if ext = ExtPlaceholder then FlagNone
      else case content_risk_of magic description of
        RiskExecutable \<Rightarrow> if ext = ExtCode then FlagNone else FlagAlert
      | RiskScript \<Rightarrow> if ext = ExtCode then FlagNone else FlagAlert
      | RiskMacro \<Rightarrow> if ext = ExtOfficeMacro then FlagNone else FlagAlert
      | RiskArchiveOrBinary \<Rightarrow>
          if ext = ExtArchive \<or> formats_compatible kind magic then FlagNone
          else if ext \<in> {ExtMedia, ExtDocument, ExtText} then FlagAlert
          else FlagNotice
      | RiskPassive \<Rightarrow> if formats_compatible kind magic then FlagNone else FlagNotice)"

definition classify_format_fields :: "rust_string \<Rightarrow> rust_string \<Rightarrow> rust_string \<Rightarrow> format_flag" where
  "classify_format_fields kind magic description = classify_format kind magic description"

definition format_label :: "file_entry \<Rightarrow> rust_string \<times> format_flag" where
  "format_label entry =
     (let mag = trim (fe_display_magic entry); kind = trim (fe_display_kind entry) in
      if mag = [] then (kind, FlagNone)
      else if kind = [] then (mag, FlagNone)
      else (mag, classify_format kind mag (fe_display_description entry)))"

section \<open>Dates\<close>

text \<open>\<open>i32\<close> results and the cast \<open>as i32\<close>.\<close>

definition i32 :: "int \<Rightarrow> ('e, int) outcome" where
  "i32 n = (if - (2 ^ 31) \<le> n \<and> n < 2 ^ 31 then Ok n else Panic)"

definition as_i32 :: "int \<Rightarrow> int" where
  "as_i32 n = signed_take_bit 31 n"

definition ymd :: "int \<Rightarrow> ('e, int \<times> int \<times> int) outcome" where
  "ymd unix =
     (let days = unix div 86400; z = days + 719468;
          era = trunc_div (if 0 \<le> z then z else z - 146096) 146097;
          doe = z - era * 146097;
          yoe = (doe - doe div 1460 + doe div 36524 - doe div 146096) div 365 in
      obind (i32 (as_i32 era * 400)) (\<lambda>base. obind (i32 (as_i32 yoe + base)) (\<lambda>y.
      let doy = doe - (365 * yoe + yoe div 4 - yoe div 100);
          mp = (5 * doy + 2) div 153;
          d = doy - (153 * mp + 2) div 5 + 1;
          m = (if mp < 10 then mp + 3 else mp - 9) in
      obind (if m \<le> 2 then i32 (y + 1) else Ok y) (\<lambda>y. Ok (y, m, d)))))"

definition month_names :: "string list" where
  "month_names = [''Jan'', ''Feb'', ''Mar'', ''Apr'', ''May'', ''Jun'', ''Jul'', ''Aug'', ''Sep'', ''Oct'', ''Nov'', ''Dec'']"

definition format_month_day :: "(rust_string \<Rightarrow> rust_string option) \<Rightarrow> int \<Rightarrow> ('e, rust_string) outcome" where
  "format_month_day tr_dynamic unix =
     obind (ymd unix) (\<lambda>(_, m, d).
     let month = ascii (month_names ! min (nat m - 1) 11);
         month = (case tr_dynamic month of Some translated \<Rightarrow> translated | None \<Rightarrow> month) in
     Ok (month @ [0x20] @ decimal (nat d)))"

definition format_date :: "int \<Rightarrow> ('e, rust_string) outcome" where
  "format_date unix =
     obind (ymd unix) (\<lambda>(y, m, d). Ok (zero_padded 4 y @ [0x2D] @ zero_padded 2 m @ [0x2D] @ zero_padded 2 d))"

section \<open>Ages\<close>

definition MINUTE :: int where "MINUTE = 60"
definition HOUR :: int where "HOUR = 3600"
definition DAY :: int where "DAY = 86400"
definition WEEK :: int where "WEEK = 7 * DAY"
definition YEAR :: int where "YEAR = 365 * DAY"

text \<open>The translator: \<open>tr!\<close> with its arguments, \<open>trn!\<close> with its two forms and the count, \<open>tr_dynamic\<close>.\<close>

record translator =
  tr :: "string \<Rightarrow> (string \<times> int) list \<Rightarrow> rust_string"
  trn :: "string \<Rightarrow> string \<Rightarrow> int \<Rightarrow> rust_string"
  tr_dynamic :: "rust_string \<Rightarrow> rust_string option"

definition humanize_mtime :: "translator \<Rightarrow> int \<Rightarrow> int \<Rightarrow> ('e, rust_string) outcome" where
  "humanize_mtime t mtime_unix now =
     obind (i64 (now - mtime_unix)) (\<lambda>diff.
     if diff < 0 then (if - MINUTE < diff then Ok (tr t ''just now'' []) else format_date mtime_unix)
     else if diff = 0 then Ok (tr t ''just now'' [])
     else if diff < MINUTE then Ok (trn t ''{n} second ago'' ''{n} seconds ago'' diff)
     else if diff < HOUR then
       let m = diff div MINUTE; s = diff mod MINUTE in
       Ok (if s = 0 then tr t ''{m} min ago'' [(''m'', m)] else tr t ''{m} min {s} sec ago'' [(''m'', m), (''s'', s)])
     else if diff < DAY then
       let h = diff div HOUR; m = diff mod HOUR div MINUTE in
       Ok (if m = 0 then tr t ''{h} hr ago'' [(''h'', h)] else tr t ''{h} hr {m} min ago'' [(''h'', h), (''m'', m)])
     else if diff < WEEK then Ok (trn t ''{n} day ago'' ''{n} days ago'' (diff div DAY))
     else if diff < YEAR then format_month_day (tr_dynamic t) mtime_unix
     else format_date mtime_unix)"

end
