(* ===== verification/FilterExpr.thy ===== *)
theory FilterExpr
  imports EntryLabels
begin

text \<open>
  \<open>ferail-core\<close>: \<open>filter_expr.rs\<close>, the query language of the filter box.  Parameters: the full
  Unicode lower case of the standard library (\<open>lower\<close>), and the decimal part of \<open>parse_size\<close>
  (\<open>scale\<close>: the parsed, non-negative \<open>f64\<close> times the unit, truncated).  An absent value of \<open>?\<close> is
  \<open>Err ()\<close>; \<open>i64\<close> arithmetic out of range is \<open>Panic\<close>.
\<close>

section \<open>Terms\<close>

record date_ctx =
  dc_now_unix :: int
  dc_tz_offset_secs :: int

type_synonym 'a span = "'a option \<times> 'a option"

datatype filter_term =
  TermText rust_string
| TermKind entry_kind
| TermExt rust_string
| TermLocked bool
| TermSize "u64 span"
| TermModified "int span"
| TermCreated "int span"

record filter_expr =
  fx_terms :: "filter_term list"

fun split_terms_from :: "rust_string \<Rightarrow> bool \<Rightarrow> rust_string \<Rightarrow> rust_string list" where
  "split_terms_from cur in_quotes [] = (if cur \<noteq> [] then [cur] else [])"
| "split_terms_from cur in_quotes (ch # s) =
     (if ch = 0x22 then split_terms_from cur (\<not> in_quotes) s
      else if is_whitespace ch \<and> \<not> in_quotes then
        (if cur \<noteq> [] then cur # split_terms_from [] in_quotes s else split_terms_from cur in_quotes s)
      else split_terms_from (cur @ [ch]) in_quotes s)"

definition split_terms :: "rust_string \<Rightarrow> rust_string list" where
  "split_terms input = split_terms_from [] False input"

definition parse_bool :: "(rust_string \<Rightarrow> rust_string) \<Rightarrow> rust_string \<Rightarrow> bool option" where
  "parse_bool lower s =
     (if lower s \<in> {ascii ''yes'', ascii ''true'', ascii ''1'', ascii ''on''} then Some True
      else if lower s \<in> {ascii ''no'', ascii ''false'', ascii ''0'', ascii ''off''} then Some False
      else None)"

definition unit_multiplier :: "rust_string \<Rightarrow> u64 option" where
  "unit_multiplier u =
     (if u \<in> {[], ascii ''b''} then Some 1
      else if u \<in> {ascii ''k'', ascii ''kb''} then Some 0x400
      else if u \<in> {ascii ''m'', ascii ''mb''} then Some 0x100000
      else if u \<in> {ascii ''g'', ascii ''gb''} then Some 0x40000000
      else if u \<in> {ascii ''t'', ascii ''tb''} then Some 0x10000000000
      else None)"

definition parse_size ::
    "(rust_string \<Rightarrow> rust_string) \<Rightarrow> (rust_string \<Rightarrow> u64 \<Rightarrow> u64 option) \<Rightarrow> rust_string \<Rightarrow> u64 option" where
  "parse_size lower scale s =
     (let v = lower (trim s) in
      if v = [] then None
      else
      let num = takeWhile (\<lambda>c. \<not> is_ascii_alphabetic c) v; unit = dropWhile (\<lambda>c. \<not> is_ascii_alphabetic c) v in
      Option.bind (unit_multiplier (trim unit)) (scale (trim num)))"

definition parse_size_range ::
    "(rust_string \<Rightarrow> u64 option) \<Rightarrow> rust_string \<Rightarrow> u64 span option" where
  "parse_size_range size_of s =
     (case split_once (ascii ''..'') s of
        Some (lo, hi) \<Rightarrow> Option.bind (size_of lo) (\<lambda>lo. Option.bind (size_of hi) (\<lambda>hi. Some (Some lo, Some hi)))
      | None \<Rightarrow>
     (case strip_prefix (ascii ''>='') s of
        Some rest \<Rightarrow> map_option (\<lambda>n. (Some n, None)) (size_of rest)
      | None \<Rightarrow>
     (case strip_prefix (ascii ''<='') s of
        Some rest \<Rightarrow> map_option (\<lambda>n. (None, Some n)) (size_of rest)
      | None \<Rightarrow>
     (case strip_prefix (ascii ''>'') s of
        Some rest \<Rightarrow> map_option (\<lambda>n. (Some (saturating_add n 1), None)) (size_of rest)
      | None \<Rightarrow>
     (case strip_prefix (ascii ''<'') s of
        Some rest \<Rightarrow> map_option (\<lambda>n. (None, Some (saturating_sub n 1))) (size_of rest)
      | None \<Rightarrow> map_option (\<lambda>n. (Some n, None)) (size_of s))))))"

section \<open>Dates\<close>

definition local_day_start :: "int \<Rightarrow> int \<Rightarrow> ('e, int) outcome" where
  "local_day_start now_unix tz =
     obind (i64 (now_unix + tz)) (\<lambda>local.
     obind (i64 (local div 86400 * 86400)) (\<lambda>start. i64 (start - tz)))"

definition civil_to_unix :: "rust_string \<Rightarrow> int \<Rightarrow> (unit, int) outcome" where
  "civil_to_unix s tz =
     (case split_on 0x2D (trim s) of
        [ys, ms, ds] \<Rightarrow>
          (case (parse_i64 ys, parse_u32 ms, parse_u32 ds) of
             (Some y, Some m, Some d) \<Rightarrow>
               if \<not> (1 \<le> m \<and> m \<le> 12) \<or> \<not> (1 \<le> d \<and> d \<le> 31) then Err ()
               else
               obind (if m \<le> 2 then i64 (y - 1) else Ok y) (\<lambda>y.
               obind (if 0 \<le> y then Ok y else i64 (y - 399)) (\<lambda>shifted.
               let era = trunc_div shifted 400; yoe = y - era * 400; mp = (m + 9) mod 12;
                   doy = (153 * mp + 2) div 5 + d - 1; doe = yoe * 365 + yoe div 4 - yoe div 100 + doy in
               obind (i64 (era * 146097)) (\<lambda>days.
               obind (i64 (days + doe)) (\<lambda>days.
               obind (i64 (days - 719468)) (\<lambda>days.
               obind (i64 (days * 86400)) (\<lambda>secs. i64 (secs - tz)))))))
           | _ \<Rightarrow> Err ())
      | _ \<Rightarrow> Err ())"

definition day :: int where "day = 86400"

definition parse_date_range ::
    "(rust_string \<Rightarrow> rust_string) \<Rightarrow> rust_string \<Rightarrow> date_ctx \<Rightarrow> (unit, int span) outcome" where
  "parse_date_range lower s ctx =
     (let v = lower (trim s); now = dc_now_unix ctx; tz = dc_tz_offset_secs ctx in
      obind (local_day_start now tz) (\<lambda>today_start.
      if v = ascii ''today'' then Ok (Some today_start, None)
      else if v = ascii ''yesterday'' then
        obind (i64 (today_start - day)) (\<lambda>lo. obind (i64 (today_start - 1)) (\<lambda>hi. Ok (Some lo, Some hi)))
      else if v = ascii ''week'' then obind (i64 (now - 7 * day)) (\<lambda>lo. Ok (Some lo, None))
      else if v = ascii ''month'' then obind (i64 (now - 30 * day)) (\<lambda>lo. Ok (Some lo, None))
      else if v = ascii ''year'' then obind (i64 (now - 365 * day)) (\<lambda>lo. Ok (Some lo, None))
      else
      case split_once (ascii ''..'') v of
        Some (lo, hi) \<Rightarrow>
          obind (civil_to_unix lo tz) (\<lambda>lo. obind (civil_to_unix hi tz) (\<lambda>hi.
          obind (i64 (hi + day)) (\<lambda>hi. obind (i64 (hi - 1)) (\<lambda>hi. Ok (Some lo, Some hi)))))
      | None \<Rightarrow>
     (case strip_prefix (ascii ''>='') v of
        Some rest \<Rightarrow> obind (civil_to_unix rest tz) (\<lambda>lo. Ok (Some lo, None))
      | None \<Rightarrow>
     (case strip_prefix (ascii ''<='') v of
        Some rest \<Rightarrow> obind (civil_to_unix rest tz) (\<lambda>hi.
          obind (i64 (hi + day)) (\<lambda>hi. obind (i64 (hi - 1)) (\<lambda>hi. Ok (None, Some hi))))
      | None \<Rightarrow>
     (case strip_prefix (ascii ''>'') v of
        Some rest \<Rightarrow> obind (civil_to_unix rest tz) (\<lambda>lo. obind (i64 (lo + day)) (\<lambda>lo. Ok (Some lo, None)))
      | None \<Rightarrow>
     (case strip_prefix (ascii ''<'') v of
        Some rest \<Rightarrow> obind (civil_to_unix rest tz) (\<lambda>hi. obind (i64 (hi - 1)) (\<lambda>hi. Ok (None, Some hi)))
      | None \<Rightarrow>
          obind (civil_to_unix v tz) (\<lambda>start.
          obind (i64 (start + day)) (\<lambda>hi. obind (i64 (hi - 1)) (\<lambda>hi. Ok (Some start, Some hi))))))))))"

section \<open>Parsing\<close>

text \<open>What \<open>parse_term\<close> falls back to when a value does not parse; a panic is passed on.\<close>

definition or_text :: "filter_term \<Rightarrow> (unit, filter_term) outcome \<Rightarrow> (unit, filter_term) outcome" where
  "or_text fallback r = (case r of Err _ \<Rightarrow> Ok fallback | r \<Rightarrow> r)"

definition parse_term ::
    "(rust_string \<Rightarrow> rust_string) \<Rightarrow> (rust_string \<Rightarrow> u64 \<Rightarrow> u64 option) \<Rightarrow> rust_string \<Rightarrow> date_ctx
       \<Rightarrow> (unit, filter_term) outcome" where
  "parse_term lower scale raw ctx =
     (let fallback = TermText (lower raw) in
      case split_once (ascii '':'') raw of
        None \<Rightarrow> Ok fallback
      | Some (key, val) \<Rightarrow>
          if val = [] then Ok fallback
          else
          let key = lower key in
          if key = ascii ''kind'' \<or> key = ascii ''type'' then
            Ok (if lower val \<in> {ascii ''folder'', ascii ''dir'', ascii ''directory''} then TermKind KindDirectory
                else if lower val = ascii ''file'' then TermKind KindFile
                else if lower val \<in> {ascii ''link'', ascii ''symlink''} then TermKind KindSymlink
                else fallback)
          else if key = ascii ''ext'' then Ok (TermExt (lower (dropWhile (\<lambda>c. c = 0x2E) val)))
          else if key = ascii ''locked'' then
            Ok (case parse_bool lower val of Some b \<Rightarrow> TermLocked b | None \<Rightarrow> fallback)
          else if key = ascii ''size'' then
            Ok (case parse_size_range (parse_size lower scale) val of Some r \<Rightarrow> TermSize r | None \<Rightarrow> fallback)
          else if key = ascii ''mod'' \<or> key = ascii ''modified'' then
            or_text fallback (obind (parse_date_range lower val ctx) (\<lambda>r. Ok (TermModified r)))
          else if key = ascii ''created'' then
            or_text fallback (obind (parse_date_range lower val ctx) (\<lambda>r. Ok (TermCreated r)))
          else Ok fallback)"

fun parse_terms ::
    "(rust_string \<Rightarrow> rust_string) \<Rightarrow> (rust_string \<Rightarrow> u64 \<Rightarrow> u64 option) \<Rightarrow> date_ctx \<Rightarrow> rust_string list
       \<Rightarrow> (unit, filter_term list) outcome" where
  "parse_terms lower scale ctx [] = Ok []"
| "parse_terms lower scale ctx (raw # raws) =
     obind (parse_term lower scale raw ctx) (\<lambda>t. obind (parse_terms lower scale ctx raws) (\<lambda>ts. Ok (t # ts)))"

definition parse_filter ::
    "(rust_string \<Rightarrow> rust_string) \<Rightarrow> (rust_string \<Rightarrow> u64 \<Rightarrow> u64 option) \<Rightarrow> rust_string \<Rightarrow> date_ctx \<Rightarrow> (unit, filter_expr) outcome" where
  "parse_filter lower scale input ctx =
     obind (parse_terms lower scale ctx (split_terms input)) (\<lambda>ts. Ok \<lparr>fx_terms = ts\<rparr>)"

section \<open>Evaluation\<close>

record filter_parts =
  fp_name :: rust_string
  fp_kind :: "entry_kind option"
  fp_size :: "u64 option"
  fp_mtime_unix :: "int option"
  fp_created_unix :: "int option"
  fp_locked :: "bool option"

definition FilterParts_new :: "rust_string \<Rightarrow> filter_parts" where
  "FilterParts_new name = \<lparr>fp_name = name, fp_kind = None, fp_size = None, fp_mtime_unix = None, fp_created_unix = None,
     fp_locked = None\<rparr>"

definition is_text :: "filter_term \<Rightarrow> bool" where
  "is_text t \<longleftrightarrow> (case t of TermText _ \<Rightarrow> True | _ \<Rightarrow> False)"

definition fx_is_empty :: "filter_expr \<Rightarrow> bool" where
  "fx_is_empty e \<longleftrightarrow> fx_terms e = []"

definition has_metadata_terms :: "filter_expr \<Rightarrow> bool" where
  "has_metadata_terms e \<longleftrightarrow> list_ex (\<lambda>t. \<not> is_text t) (fx_terms e)"

fun text_needle_from :: "rust_string \<Rightarrow> filter_term list \<Rightarrow> rust_string" where
  "text_needle_from out [] = out"
| "text_needle_from out (TermText s # ts) = text_needle_from ((if out \<noteq> [] then out @ [0x20] else out) @ s) ts"
| "text_needle_from out (_ # ts) = text_needle_from out ts"

definition text_needle :: "filter_expr \<Rightarrow> rust_string" where
  "text_needle e = text_needle_from [] (fx_terms e)"

definition text_matches :: "filter_expr \<Rightarrow> rust_string \<Rightarrow> bool" where
  "text_matches e haystack_lower \<longleftrightarrow>
     list_all (\<lambda>t. case t of TermText needle \<Rightarrow> contains haystack_lower needle | _ \<Rightarrow> True) (fx_terms e)"

definition within :: "('a::linorder) span \<Rightarrow> 'a \<Rightarrow> bool" where
  "within r n \<longleftrightarrow> (case fst r of None \<Rightarrow> True | Some lo \<Rightarrow> lo \<le> n) \<and> (case snd r of None \<Rightarrow> True | Some hi \<Rightarrow> n \<le> hi)"

definition has_extension :: "rust_string \<Rightarrow> rust_string \<Rightarrow> bool" where
  "has_extension name ext \<longleftrightarrow>
     (case rsplit_once_dot name of None \<Rightarrow> False | Some (stem, e) \<Rightarrow> stem \<noteq> [] \<and> eq_ignore_ascii_case e ext)"

definition metadata_matches :: "filter_expr \<Rightarrow> file_entry \<Rightarrow> bool" where
  "metadata_matches e entry \<longleftrightarrow> list_all (\<lambda>t. case t of
       TermText _ \<Rightarrow> True
     | TermKind kind \<Rightarrow> fe_kind entry = kind
     | TermExt ext \<Rightarrow> fe_kind entry \<noteq> KindDirectory \<and> has_extension (fe_name entry) ext
     | TermLocked want \<Rightarrow> fe_locked entry = want
     | TermSize r \<Rightarrow> within r (fe_size entry)
     | TermModified r \<Rightarrow> fe_mtime_unix entry \<noteq> 0 \<and> within r (fe_mtime_unix entry)
     | TermCreated r \<Rightarrow> (case fe_created_unix entry of None \<Rightarrow> False | Some c \<Rightarrow> within r c)) (fx_terms e)"

definition metadata_matches_parts :: "filter_expr \<Rightarrow> filter_parts \<Rightarrow> bool" where
  "metadata_matches_parts e parts \<longleftrightarrow> list_all (\<lambda>t. case t of
       TermText _ \<Rightarrow> True
     | TermKind kind \<Rightarrow> fp_kind parts = Some kind
     | TermExt ext \<Rightarrow> fp_kind parts \<noteq> Some KindDirectory \<and> has_extension (fp_name parts) ext
     | TermLocked want \<Rightarrow> fp_locked parts = Some want
     | TermSize r \<Rightarrow> (case fp_size parts of None \<Rightarrow> False | Some bytes \<Rightarrow> within r bytes)
     | TermModified r \<Rightarrow> (case fp_mtime_unix parts of None \<Rightarrow> False | Some m \<Rightarrow> m \<noteq> 0 \<and> within r m)
     | TermCreated r \<Rightarrow> (case fp_created_unix parts of None \<Rightarrow> False | Some c \<Rightarrow> within r c)) (fx_terms e)"

definition matches_entry :: "(rust_string \<Rightarrow> rust_string) \<Rightarrow> filter_expr \<Rightarrow> file_entry \<Rightarrow> bool" where
  "matches_entry lower e entry \<longleftrightarrow>
     (if fx_terms e = [] then True
      else
      (if list_ex is_text (fx_terms e)
       then text_matches e (lower (fe_name entry) @ [0x20] @ lower (fst (format_label entry))) else True) \<and>
      metadata_matches e entry)"

end
