(* ===== verification/Calendar.thy ===== *)
theory Calendar
  imports RustText
begin

text \<open>
  A reference calendar, counted day by day, and its closed form; the conversions between dates and
  days in \<open>filter_expr.rs\<close> and \<open>lib.rs\<close> are proved against it.
\<close>

section \<open>The calendar\<close>

text \<open>The proleptic Gregorian calendar, counted day by day from the year 0.\<close>

definition leap_year :: "nat \<Rightarrow> bool" where
  "leap_year y \<longleftrightarrow> 4 dvd y \<and> (\<not> 100 dvd y \<or> 400 dvd y)"

definition days_in_month :: "nat \<Rightarrow> nat \<Rightarrow> int" where
  "days_in_month y m =
     (if m = 2 then (if leap_year y then 29 else 28) else if m \<in> {4, 6, 9, 11} then 30 else 31)"

definition days_in_year :: "nat \<Rightarrow> int" where
  "days_in_year y = (\<Sum>m\<leftarrow>[1..<13]. days_in_month y m)"

text \<open>The number of a day, with \<open>1970-01-01\<close> as day 0.\<close>

definition day_number :: "nat \<Rightarrow> nat \<Rightarrow> int \<Rightarrow> int" where
  "day_number y m d =
     (\<Sum>k\<leftarrow>[0..<y]. days_in_year k) + (\<Sum>k\<leftarrow>[1..<m]. days_in_month y k) + (d - 1)
       - (\<Sum>k\<leftarrow>[0..<1970]. days_in_year k)"

lemma days_in_year_eq: "days_in_year y = (if leap_year y then 366 else 365)"
  by (simp add: days_in_year_def days_in_month_def upt_rec)

text \<open>The days of the years before \<open>y + 1\<close>, in closed form.\<close>

definition year_days :: "int \<Rightarrow> int" where
  "year_days y = 365 * y + y div 4 - y div 100 + y div 400"

lemma div_step: "0 < k \<Longrightarrow> (y + 1) div k = y div k + (if k dvd (y + 1) then 1 else 0)" for y k :: int
proof -
  assume k: "0 < k"
  note bounds = pos_mod_bound [OF k, of y] pos_mod_sign [OF k, of y]
  have y: "y + 1 = (y mod k + 1) + (y div k) * k" by simp
  show ?thesis
  proof (cases "y mod k + 1 = k")
    case True
    then have "y + 1 = (y div k + 1) * k" using y by (simp add: algebra_simps)
    with k show ?thesis by simp
  next
    case False
    with bounds have small: "0 \<le> y mod k + 1" "y mod k + 1 < k" by simp_all
    have "(y + 1) div k = (y mod k + 1) div k + y div k" 
      using div_mult_self1 [of k "y mod k + 1" "y div k"] k unfolding y [symmetric] by simp
    moreover have "(y + 1) mod k = (y mod k + 1) mod k" by (simp add: mod_add_left_eq)
    moreover have "(y mod k + 1) mod k = y mod k + 1" using small by (rule mod_pos_pos_trivial)
    ultimately show ?thesis using small bounds by (simp add: div_pos_pos_trivial dvd_eq_mod_eq_0)
  qed
qed

lemma year_days_step: "year_days (int y) = year_days (int y - 1) + (if leap_year y then 366 else 365)"
proof -
  have dvd: "(numeral k :: int) dvd int y \<longleftrightarrow> numeral k dvd y" for k by (metis of_nat_dvd_iff of_nat_numeral)
  have step: "int y div numeral k = (int y - 1) div numeral k + (if numeral k dvd y then 1 else 0)" for k
    using div_step [of "numeral k" "int y - 1"] by (simp only: dvd diff_add_cancel zero_less_numeral)
  have "400 dvd y \<Longrightarrow> 100 dvd y" by (rule dvd_trans [of 100 400]) simp_all
  moreover have "100 dvd y \<Longrightarrow> 4 dvd y" by (rule dvd_trans [of 4 100]) simp_all
  ultimately show ?thesis
    unfolding year_days_def leap_year_def step [of "num.Bit0 (num.Bit0 num.One)"] step [of "num.Bit0 (num.Bit0 (num.Bit1 (num.Bit0 (num.Bit0 (num.Bit1 num.One)))))"]
      step [of "num.Bit0 (num.Bit0 (num.Bit0 (num.Bit0 (num.Bit1 (num.Bit0 (num.Bit0 (num.Bit1 num.One)))))))"]
    by (cases "4 dvd y"; cases "100 dvd y"; cases "400 dvd y") simp_all
qed

lemma years_before: "(\<Sum>k\<leftarrow>[0..<y]. days_in_year k) = year_days (int y - 1) + 366"
proof (induction y)
  case 0
  then show ?case by (simp add: year_days_def)
next
  case (Suc y)
  then show ?case using year_days_step [of y] by (simp add: days_in_year_eq)
qed

lemma epoch_year: "(\<Sum>k\<leftarrow>[0..<1970]. days_in_year k) = 719528"
  using years_before [of 1970] by (simp add: year_days_def)

lemma month_cases: "1 \<le> m \<Longrightarrow> m \<le> 12 \<Longrightarrow> m \<in> {1, 2, 3, 4, 5, 6, 7, 8, 9, 10, 11, 12}" for m :: int
  by simp presburger

lemma year_1969: "year_days 1969 = 719162"
  by (simp add: year_days_def)

lemma day_number_eq:
  assumes "1 \<le> m" and "m \<le> 12"
  shows "day_number y (nat m) d =
    year_days (if m \<le> 2 then int y - 1 else int y) + (153 * ((m + 9) mod 12) + 2) div 5 + d - 1 - 719468"
  using month_cases [OF assms] year_days_step [of y]
  by (elim insertE emptyE)
    (simp_all only: day_number_def years_before epoch_year, simp_all add: year_1969 upt_rec days_in_month_def)

lemma trunc_div_era: "trunc_div (if 0 \<le> y then y else y - 399) 400 = y div 400"
proof (cases "0 \<le> y")
  case False
  then have "- ((399 - y) div 400) = y div 400" by linarith
  with False show ?thesis by (simp add: trunc_div_def)
qed (simp add: trunc_div_def)

lemma year_of_era:
  fixes y :: int
  defines "yoe \<equiv> y - y div 400 * 400"
  shows "y div 400 * 146097 + (yoe * 365 + yoe div 4 - yoe div 100) = year_days y"
proof -
  have y: "y = yoe + 400 * (y div 400)" by (simp add: yoe_def)
  have "y div 4 = yoe div 4 + 100 * (y div 400)" using y div_mult_self1 [of 4 yoe "100 * (y div 400)"] by simp
  moreover have "y div 100 = yoe div 100 + 4 * (y div 400)" using y div_mult_self1 [of 100 yoe "4 * (y div 400)"] by simp
  ultimately show ?thesis unfolding year_days_def using y by linarith
qed

end
