(* ===== verification/FilterExprProps.thy ===== *)
theory FilterExprProps
  imports FilterExpr Calendar
begin

text \<open>
  What the query language of the filter box promises: a civil date is the midnight a reference
  calendar assigns to it, a date term (comparison, bare date, range or word) selects the days it names, a
  value that does not parse leaves a text term, the two evaluators agree,
  and the texts of the terms are the input without its separators.
\<close>

section \<open>Dates\<close>

text \<open>The arithmetic of \<open>civil_to_unix\<close>, on integers.\<close>

lemma civil_days:
  fixes y m d :: int
  assumes "1 \<le> m" "m \<le> 12" "0 \<le> y"
  defines "y' \<equiv> (if m \<le> 2 then y - 1 else y)"
  defines "yoe \<equiv> y' - y' div 400 * 400"
  shows "y' div 400 * 146097 + (yoe * 365 + yoe div 4 - yoe div 100 + ((153 * ((m + 9) mod 12) + 2) div 5 + d - 1)) - 719468 =
    day_number (nat y) (nat m) d"
proof -
  have "int (nat y) = y" using assms(3) by simp
  with day_number_eq [OF assms(1,2), of "nat y" d]
  have "day_number (nat y) (nat m) d = year_days y' + (153 * ((m + 9) mod 12) + 2) div 5 + d - 1 - 719468"
    by (simp only: y'_def)
  with year_of_era [of y'] show ?thesis unfolding yoe_def by linarith
qed

lemma year_days_bounds: "0 \<le> y \<Longrightarrow> 365 * y \<le> year_days y \<and> year_days y \<le> 366 * y"
  using zdiv_mono2 [of y 4 100] zdiv_mono2 [of y 100 400] unfolding year_days_def by linarith

lemma day_number_bounds:
  assumes "1 \<le> m" "m \<le> 12" "1 \<le> d" "d \<le> 31"
  shows "- 719900 \<le> day_number y (nat m) d \<and> day_number y (nat m) d \<le> 366 * int y"
proof -
  define q where "q = (153 * ((m + 9) mod 12) + 2) div 5"
  have "0 \<le> (m + 9) mod 12" "(m + 9) mod 12 \<le> 11" using pos_mod_bound [of 12 "m + 9"] by simp_all
  then have q: "0 \<le> q" "q \<le> 337" unfolding q_def by linarith+
  define t where "t = year_days (if m \<le> 2 then int y - 1 else int y)"
  have "year_days (- 1) = - 366" by (simp add: year_days_def)
  then have "- 366 \<le> t" "t \<le> 366 * int y"
    unfolding t_def using year_days_bounds [of "int y - 1"] year_days_bounds [of "int y"] by (cases y; simp)+
  with q assms(3,4) show ?thesis
    unfolding day_number_eq [OF assms(1,2)] q_def [symmetric] t_def [symmetric] by linarith
qed

text \<open>
  A date of three numeric parts is rejected exactly when its month or day is out of range, and is
  otherwise the unix time of the local midnight at which the day starts.
\<close>

theorem civil_to_unix_calendar:
  assumes parts: "split_on 0x2D (trim s) = [ys, ms, ds]"
    and numbers: "parse_i64 ys = Some y" "parse_u32 ms = Some m" "parse_u32 ds = Some d"
    and bounds: "y \<le> 10 ^ 11" "\<bar>tz\<bar> \<le> 10 ^ 6"
  shows "civil_to_unix s tz =
    (if 1 \<le> m \<and> m \<le> 12 \<and> 1 \<le> d \<and> d \<le> 31 then Ok (86400 * day_number (nat y) (nat m) d - tz) else Err ())"
proof (cases "1 \<le> m \<and> m \<le> 12 \<and> 1 \<le> d \<and> d \<le> 31")
  case True
  then have md: "1 \<le> m" "m \<le> 12" "1 \<le> d" "d \<le> 31" by simp_all
  have "0x2D \<notin> set ys" using split_on_pieces [of ys "0x2D" "trim s"] parts by simp
  with numbers(1) have y: "0 \<le> y" by (rule parse_i64_nonneg)
  define y' where "y' = (if m \<le> 2 then y - 1 else y)"
  define era where "era = y' div 400"
  define yoe where "yoe = y' - era * 400"
  define doe where "doe = yoe * 365 + yoe div 4 - yoe div 100 + ((153 * ((m + 9) mod 12) + 2) div 5 + d - 1)"
  define n where "n = day_number (nat y) (nat m) d"
  have n: "era * 146097 + doe - 719468 = n"
    unfolding n_def doe_def yoe_def era_def y'_def by (rule civil_days [OF md(1,2) y])
  have nb: "- 719900 \<le> n" "n \<le> 366 * y"
    using day_number_bounds [OF md, of "nat y"] y unfolding n_def by simp_all
  have y': "- 1 \<le> y'" "y' \<le> y" using y by (simp_all add: y'_def)
  then have era: "- 1 \<le> era" "400 * era \<le> y" unfolding era_def by linarith+
  have one: "(if m \<le> 2 then i64 (y - 1) else Ok y) = (Ok y' :: (unit, int) outcome)"
    using y bounds(1) by (simp add: y'_def i64_Ok i64_range_small)
  have two: "(if 0 \<le> y' then Ok y' else i64 (y' - 399)) =
      (Ok (if 0 \<le> y' then y' else y' - 399) :: (unit, int) outcome)"
    using y' bounds(1) by (simp add: i64_Ok i64_range_small)
  have rest: "i64_range (era * 146097)" "i64_range n" "i64_range (n * 86400)" "i64_range (n * 86400 - tz)"
      "i64_range (era * 146097 + doe)"
    using era nb y bounds n by (auto intro!: i64_range_small)
  show ?thesis
    using md unfolding civil_to_unix_def parts
    by (simp only: list.case prod.case option.case numbers simp_thms if_True if_False one obind.simps two Let_def
        trunc_div_era era_def [symmetric] yoe_def [symmetric] doe_def [symmetric] i64_Ok rest n)
      (simp add: i64_Ok rest n_def [symmetric] mult.commute)
next
  case False
  then show ?thesis unfolding civil_to_unix_def parts by (auto simp: numbers)
qed

section \<open>Date terms\<close>

text \<open>A text that names the day \<open>d\<close> of month \<open>m\<close> of year \<open>y\<close>.\<close>

definition civil_date :: "rust_string \<Rightarrow> int \<Rightarrow> int \<Rightarrow> int \<Rightarrow> bool" where
  "civil_date s y m d \<longleftrightarrow> (case split_on 0x2D (trim s) of
     [ys, ms, ds] \<Rightarrow> parse_i64 ys = Some y \<and> parse_u32 ms = Some m \<and> parse_u32 ds = Some d | _ \<Rightarrow> False) \<and>
     y \<le> 10 ^ 11 \<and> 1 \<le> m \<and> m \<le> 12 \<and> 1 \<le> d \<and> d \<le> 31"

definition day_of :: "int \<Rightarrow> int \<Rightarrow> int" where
  "day_of tz x = (x + tz) div 86400"

definition day_compare :: "rust_string \<Rightarrow> int \<Rightarrow> int \<Rightarrow> bool" where
  "day_compare op a b \<longleftrightarrow>
     (if op = ascii ''>='' then b \<le> a else if op = ascii ''<='' then a \<le> b
      else if op = ascii ''>'' then b < a else if op = ascii ''<'' then a < b else a = b)"

lemma civil_date_parts:
  assumes "civil_date s y m d"
  obtains ys ms ds where "split_on 0x2D (trim s) = [ys, ms, ds]"
    and "parse_i64 ys = Some y" "parse_u32 ms = Some m" "parse_u32 ds = Some d"
    and "0 \<le> y" "y \<le> 10 ^ 11" "1 \<le> m" "m \<le> 12" "1 \<le> d" "d \<le> 31"
proof -
  from assms obtain ys ms ds where "split_on 0x2D (trim s) = [ys, ms, ds]"
    and "parse_i64 ys = Some y" "parse_u32 ms = Some m" "parse_u32 ds = Some d"
    and "y \<le> 10 ^ 11" "1 \<le> m" "m \<le> 12" "1 \<le> d" "d \<le> 31"
    by (auto simp: civil_date_def split: list.splits)
  moreover have "0x2D \<notin> set ys" using calculation(1) split_on_pieces [of ys "0x2D" "trim s"] by simp
  with calculation(2) have "0 \<le> y" by (rule parse_i64_nonneg)
  ultimately show ?thesis using that by blast
qed

lemma civil_date_Ok:
  assumes "civil_date s y m d" and "\<bar>tz\<bar> \<le> 10 ^ 6"
  shows "civil_to_unix s tz = Ok (86400 * day_number (nat y) (nat m) d - tz)"
    and "\<bar>day_number (nat y) (nat m) d\<bar> \<le> 4 * 10 ^ 13"
proof -
  from assms(1) obtain ys ms ds where p: "split_on 0x2D (trim s) = [ys, ms, ds]"
    "parse_i64 ys = Some y" "parse_u32 ms = Some m" "parse_u32 ds = Some d"
    and b: "0 \<le> y" "y \<le> 10 ^ 11" "1 \<le> m" "m \<le> 12" "1 \<le> d" "d \<le> 31" by (rule civil_date_parts)
  from civil_to_unix_calendar [OF p b(2) assms(2)] b
  show "civil_to_unix s tz = Ok (86400 * day_number (nat y) (nat m) d - tz)" by simp
  from day_number_bounds [OF b(3-6), of "nat y"] b(1,2)
  show "\<bar>day_number (nat y) (nat m) d\<bar> \<le> 4 * 10 ^ 13" by (simp add: abs_le_iff)
qed

text \<open>A date contains no range dots, no comparison sign and is no keyword.\<close>

lemma civil_date_chars:
  assumes "civil_date s y m d" and "c \<in> set s"
  shows "is_whitespace c \<or> is_digit c \<or> c = 0x2B \<or> c = 0x2D"
proof -
  from assms(1) obtain ys ms ds where p: "split_on 0x2D (trim s) = [ys, ms, ds]"
    "parse_i64 ys = Some y" "parse_u32 ms = Some m" "parse_u32 ds = Some d" by (rule civil_date_parts)
  from trim_chars [OF assms(2)] show ?thesis
    using split_on_chars [of c "trim s" "0x2D"] p parse_i64_chars [OF p(2)] parse_u32_chars [OF p(3)]
      parse_u32_chars [OF p(4)] by auto
qed

lemma date_excluded: "\<not> (is_whitespace c \<or> is_digit c \<or> c = 0x2B \<or> c = 0x2D)" if "c \<in> {0x2E, 0x3C, 0x3D, 0x3E}"
  using that by (auto simp: is_whitespace_def is_digit_def)

lemma civil_date_excludes: "civil_date s y m d \<Longrightarrow> c \<in> {0x2E, 0x3C, 0x3D, 0x3E} \<Longrightarrow> c \<notin> set s"
  using civil_date_chars [of s y m d c] date_excluded [of c] by blast

lemma civil_date_dash: "civil_date s y m d \<Longrightarrow> 0x2D \<in> set s"
  using split_on_single [of "0x2D" "trim s"] set_trim [of s] by (auto simp: civil_date_def split: list.splits)

text \<open>The bounds of a date query are the days that compare with its date.\<close>

lemma within_days:
  assumes "\<bar>n\<bar> \<le> 4 * 10 ^ 13"
  shows "within (Some (86400 * n - tz), None) x \<longleftrightarrow> n \<le> day_of tz x"
    and "within (Some (86400 * n - tz + 86400), None) x \<longleftrightarrow> n < day_of tz x"
    and "within (None, Some (86400 * n - tz - 1)) x \<longleftrightarrow> day_of tz x < n"
    and "within (None, Some (86400 * n - tz + 86400 - 1)) x \<longleftrightarrow> day_of tz x \<le> n"
    and "within (Some (86400 * n - tz), Some (86400 * n - tz + 86400 - 1)) x \<longleftrightarrow> day_of tz x = n"
  by (simp_all add: within_def day_of_def; linarith)+

lemma within_both: "within (Some a, Some b) x \<longleftrightarrow> within (Some a, None) x \<and> within (None, Some b) x"
  by (simp add: within_def)

definition date_operators :: "rust_string set" where
  "date_operators = {ascii ''>='', ascii ''<='', ascii ''>'', ascii ''<'', []}"

lemma keywords_dash: "0x2D \<in> set v \<Longrightarrow> v \<notin> {ascii ''today'', ascii ''yesterday'', ascii ''week'', ascii ''month'', ascii ''year''}"
  by (auto simp: ascii_def)

lemma local_day_start_Ok:
  "\<bar>now\<bar> \<le> 2 ^ 61 \<Longrightarrow> \<bar>tz\<bar> \<le> 10 ^ 6 \<Longrightarrow> \<exists>start. local_day_start now tz = (Ok start :: (unit, int) outcome)"
proof -
  assume b: "\<bar>now\<bar> \<le> 2 ^ 61" "\<bar>tz\<bar> \<le> 10 ^ 6"
  have "(now + tz) div 86400 * 86400 \<le> now + tz" "now + tz < (now + tz) div 86400 * 86400 + 86400" by linarith+
  with b have "i64_range (now + tz)" "i64_range ((now + tz) div 86400 * 86400)"
    "i64_range ((now + tz) div 86400 * 86400 - tz)" by (auto intro!: i64_range_small simp: abs_le_iff)
  then show ?thesis by (simp add: local_day_start_def i64_Ok)
qed

text \<open>A date after an operator selects the times whose local day compares with it, a bare date that day.\<close>

lemma date_compare_days:
  assumes v: "lower (trim s) = op @ dt" and op: "op \<in> date_operators" and dt: "civil_date dt y m d"
    and ctx: "\<bar>dc_now_unix ctx\<bar> \<le> 2 ^ 61" "\<bar>dc_tz_offset_secs ctx\<bar> \<le> 10 ^ 6"
  shows "\<exists>r. parse_date_range lower s ctx = Ok r \<and>
    (\<forall>x. within r x \<longleftrightarrow> day_compare op (day_of (dc_tz_offset_secs ctx) x) (day_number (nat y) (nat m) d))"
proof -
  define tz where "tz = dc_tz_offset_secs ctx"
  define n where "n = day_number (nat y) (nat m) d"
  have ok: "civil_to_unix dt tz = Ok (86400 * n - tz)" and n: "\<bar>n\<bar> \<le> 4 * 10 ^ 13"
    unfolding n_def using civil_date_Ok [OF dt, of tz] ctx(2) by (simp_all add: tz_def)
  have i64s: "i64_range (86400 * n - tz + 86400)" "i64_range (86400 * n - tz + 86400 - 1)" "i64_range (86400 * n - tz - 1)"
    using n ctx(2) unfolding tz_def [symmetric] by (auto intro!: i64_range_small simp: abs_le_iff)
  obtain start where start: "local_day_start (dc_now_unix ctx) tz = (Ok start :: (unit, int) outcome)"
    using local_day_start_Ok [OF ctx] unfolding tz_def by blast
  have no: "0x2E \<notin> set dt" "0x3C \<notin> set dt" "0x3D \<notin> set dt" "0x3E \<notin> set dt"
    using civil_date_excludes [OF dt] by simp_all
  then have dots: "split_once (ascii ''..'') (op @ dt) = None"
    using op by (intro split_once_dots) (auto simp: date_operators_def ascii_def)
  have kw: "op @ dt \<notin> {ascii ''today'', ascii ''yesterday'', ascii ''week'', ascii ''month'', ascii ''year''}"
    by (rule keywords_dash) (use civil_date_dash [OF dt] in simp)
  from kw have kw: "op @ dt \<noteq> ascii ''today''" "op @ dt \<noteq> ascii ''yesterday''" "op @ dt \<noteq> ascii ''week''"
    "op @ dt \<noteq> ascii ''month''" "op @ dt \<noteq> ascii ''year''" by simp_all
  note run = parse_date_range_def v Let_def tz_def [symmetric] start obind.simps kw [THEN if_not_P] dots option.case
  note eval = ok i64_Ok i64s i64s [simplified] strip_prefix_simps no within_days(1,2) [OF n] within_days(3-5) [OF n, simplified] day_compare_def
  from op show ?thesis
    unfolding run date_operators_def insert_iff empty_iff simp_thms n_def [symmetric]
    by (elim disjE) (simp_all add: eval ascii_def day_def)
qed

text \<open>A range selects the days from its first to its last.\<close>

lemma date_dots_days:
  assumes v: "lower (trim s) = lo @ ascii ''..'' @ hi" and lo: "civil_date lo y m d" and hi: "civil_date hi y' m' d'"
    and ctx: "\<bar>dc_now_unix ctx\<bar> \<le> 2 ^ 61" "\<bar>dc_tz_offset_secs ctx\<bar> \<le> 10 ^ 6"
  shows "\<exists>r. parse_date_range lower s ctx = Ok r \<and>
    (\<forall>x. within r x \<longleftrightarrow> day_number (nat y) (nat m) d \<le> day_of (dc_tz_offset_secs ctx) x \<and>
      day_of (dc_tz_offset_secs ctx) x \<le> day_number (nat y') (nat m') d')"
proof -
  define tz where "tz = dc_tz_offset_secs ctx"
  define a b where ab: "a = day_number (nat y) (nat m) d" "b = day_number (nat y') (nat m') d'"
  have ok: "civil_to_unix lo tz = Ok (86400 * a - tz)" "civil_to_unix hi tz = Ok (86400 * b - tz)"
    and n: "\<bar>a\<bar> \<le> 4 * 10 ^ 13" "\<bar>b\<bar> \<le> 4 * 10 ^ 13"
    unfolding ab using civil_date_Ok [OF lo, of tz] civil_date_Ok [OF hi, of tz] ctx(2) by (simp_all add: tz_def)
  have i64s: "i64_range (86400 * b - tz + 86400)" "i64_range (86400 * b - tz + 86400 - 1)"
    using n ctx(2) unfolding tz_def [symmetric] by (auto intro!: i64_range_small simp: abs_le_iff)
  obtain start where start: "local_day_start (dc_now_unix ctx) tz = (Ok start :: (unit, int) outcome)"
    using local_day_start_Ok [OF ctx] unfolding tz_def by blast
  have dots: "split_once (ascii ''..'') (lo @ ascii ''..'' @ hi) = Some (lo, hi)"
    using civil_date_excludes [OF lo] by (intro split_once_range) simp
  have "lo @ ascii ''..'' @ hi \<notin> {ascii ''today'', ascii ''yesterday'', ascii ''week'', ascii ''month'', ascii ''year''}"
    by (rule keywords_dash) (use civil_date_dash [OF lo] in simp)
  then have kw: "lo @ ascii ''..'' @ hi \<noteq> ascii ''today''" "lo @ ascii ''..'' @ hi \<noteq> ascii ''yesterday''"
    "lo @ ascii ''..'' @ hi \<noteq> ascii ''week''" "lo @ ascii ''..'' @ hi \<noteq> ascii ''month''" "lo @ ascii ''..'' @ hi \<noteq> ascii ''year''" by simp_all
  have "parse_date_range lower s ctx = Ok (Some (86400 * a - tz), Some (86400 * b - tz + 86400 - 1))"
    unfolding parse_date_range_def v Let_def tz_def [symmetric] start obind.simps kw [THEN if_not_P] dots option.case prod.case ok
      i64_Ok [OF i64s(1) [folded day_def]] day_def i64_Ok [OF i64s(1)] i64_Ok [OF i64s(2)] by (rule refl)
  then show ?thesis
    unfolding ab [symmetric] tz_def [symmetric] using within_days(1) [OF n(1), of tz] within_days(4) [OF n(2), of tz]
    by (simp only: within_both outcome.inject ex_simps simp_thms)
qed

text \<open>The words count from the start of the local day or back from now.\<close>

lemma date_word_days:
  assumes v: "lower (trim s) = ascii w" and ctx: "\<bar>dc_now_unix ctx\<bar> \<le> 2 ^ 61" "\<bar>dc_tz_offset_secs ctx\<bar> \<le> 10 ^ 6"
  shows "w = ''today'' \<Longrightarrow> \<exists>r. parse_date_range lower s ctx = Ok r \<and> (\<forall>x. within r x \<longleftrightarrow>
      day_of (dc_tz_offset_secs ctx) (dc_now_unix ctx) \<le> day_of (dc_tz_offset_secs ctx) x)"
    and "w = ''yesterday'' \<Longrightarrow> \<exists>r. parse_date_range lower s ctx = Ok r \<and> (\<forall>x. within r x \<longleftrightarrow>
      day_of (dc_tz_offset_secs ctx) x = day_of (dc_tz_offset_secs ctx) (dc_now_unix ctx) - 1)"
    and "(w, n) \<in> {(''week'', 7), (''month'', 30), (''year'', 365)} \<Longrightarrow>
      \<exists>r. parse_date_range lower s ctx = Ok r \<and> (\<forall>x. within r x \<longleftrightarrow> dc_now_unix ctx - n * 86400 \<le> x)"
proof -
  define tz where "tz = dc_tz_offset_secs ctx"
  define now where "now = dc_now_unix ctx"
  define today where "today = (now + tz) div 86400"
  note b = ctx [folded tz_def now_def]
  have near: "86400 * today \<le> now + tz" "now + tz < 86400 * today + 86400" unfolding today_def by linarith+
  with b have r: "i64_range (now + tz)" "i64_range (today * 86400)" "i64_range (today * 86400 - tz)"
    "i64_range (today * 86400 - tz - 86400)" "i64_range (today * 86400 - tz - 1)"
    "i64_range (now - 7 * 86400)" "i64_range (now - 30 * 86400)" "i64_range (now - 365 * 86400)"
    by (auto intro!: i64_range_small simp: abs_le_iff)
  have start: "local_day_start now tz = (Ok (today * 86400 - tz) :: (unit, int) outcome)"
    by (simp add: local_day_start_def i64_Ok r today_def [symmetric])
  note run = parse_date_range_def v Let_def tz_def [symmetric] now_def [symmetric] start
  show "\<exists>r. parse_date_range lower s ctx = Ok r \<and> (\<forall>x. within r x \<longleftrightarrow>
      day_of (dc_tz_offset_secs ctx) (dc_now_unix ctx) \<le> day_of (dc_tz_offset_secs ctx) x)" if "w = ''today''"
  proof -
    have "parse_date_range lower s ctx = Ok (Some (today * 86400 - tz), None)" by (simp add: run that)
    moreover have "within (Some (today * 86400 - tz), None) x \<longleftrightarrow> today \<le> (x + tz) div 86400" for x
      by (simp add: within_def) linarith
    ultimately show ?thesis by (simp add: day_of_def tz_def [symmetric] now_def [symmetric] today_def [symmetric])
  qed
  show "\<exists>r. parse_date_range lower s ctx = Ok r \<and> (\<forall>x. within r x \<longleftrightarrow>
      day_of (dc_tz_offset_secs ctx) x = day_of (dc_tz_offset_secs ctx) (dc_now_unix ctx) - 1)" if "w = ''yesterday''"
  proof -
    have "parse_date_range lower s ctx = Ok (Some (today * 86400 - tz - 86400), Some (today * 86400 - tz - 1))"
      by (simp add: run that ascii_def day_def i64_Ok r)
    moreover have "within (Some (today * 86400 - tz - 86400), Some (today * 86400 - tz - 1)) x \<longleftrightarrow> (x + tz) div 86400 = today - 1" for x
      by (simp add: within_def) linarith
    ultimately show ?thesis by (simp add: day_of_def tz_def [symmetric] now_def [symmetric] today_def [symmetric])
  qed
  show "\<exists>r. parse_date_range lower s ctx = Ok r \<and> (\<forall>x. within r x \<longleftrightarrow> dc_now_unix ctx - n * 86400 \<le> x)"
    if w: "(w, n) \<in> {(''week'', 7), (''month'', 30), (''year'', 365)}"
  proof -
    have "parse_date_range lower s ctx = Ok (Some (now - n * 86400), None)"
      using w r by (auto simp: run ascii_def day_def i64_Ok)
    then show ?thesis by (simp add: within_def now_def)
  qed
qed

text \<open>What the value of a date term means: a set of times.\<close>

inductive date_query :: "date_ctx \<Rightarrow> rust_string \<Rightarrow> (int \<Rightarrow> bool) \<Rightarrow> bool" for ctx where
  date_today: "date_query ctx (ascii ''today'') (\<lambda>x. day_of (dc_tz_offset_secs ctx) (dc_now_unix ctx) \<le> day_of (dc_tz_offset_secs ctx) x)"
| date_yesterday: "date_query ctx (ascii ''yesterday'') (\<lambda>x. day_of (dc_tz_offset_secs ctx) x = day_of (dc_tz_offset_secs ctx) (dc_now_unix ctx) - 1)"
| date_recent: "(w, n) \<in> {(''week'', 7), (''month'', 30), (''year'', 365)} \<Longrightarrow> date_query ctx (ascii w) (\<lambda>x. dc_now_unix ctx - n * 86400 \<le> x)"
| date_between: "civil_date lo y m d \<Longrightarrow> civil_date hi y' m' d' \<Longrightarrow> date_query ctx (lo @ ascii ''..'' @ hi)
    (\<lambda>x. day_number (nat y) (nat m) d \<le> day_of (dc_tz_offset_secs ctx) x \<and> day_of (dc_tz_offset_secs ctx) x \<le> day_number (nat y') (nat m') d')"
| date_compare: "op \<in> date_operators \<Longrightarrow> civil_date dt y m d \<Longrightarrow> date_query ctx (op @ dt)
    (\<lambda>x. day_compare op (day_of (dc_tz_offset_secs ctx) x) (day_number (nat y) (nat m) d))"

text \<open>C37. A date term selects the times it means.  A date after a comparison sign selects the times whose local day compares with
  it, a bare date that day, and a range \<open>a..b\<close> the days from the first to the last; \<open>today\<close> selects the times from the start of the
  local day on, \<open>yesterday\<close> the day before, and \<open>week\<close>, \<open>month\<close> and \<open>year\<close> the times not more than 7, 30 and 365 days
  back from now.  The years are at most \<open>10^11\<close>, now is within \<open>2^61\<close> seconds of the epoch and the time zone within
  \<open>10^6\<close> seconds; then no sum overflows.\<close>

theorem date_range_days:
  assumes "date_query ctx (lower (trim s)) selects"
    and "\<bar>dc_now_unix ctx\<bar> \<le> 2 ^ 61" "\<bar>dc_tz_offset_secs ctx\<bar> \<le> 10 ^ 6"
  shows "\<exists>r. parse_date_range lower s ctx = Ok r \<and> (\<forall>x. within r x \<longleftrightarrow> selects x)"
  using assms(1)
proof cases
  case date_today
  from date_word_days(1) [where lower = lower and s = s and ctx = ctx, OF date_today(1) assms(2,3) refl] show ?thesis unfolding date_today(2) .
next
  case date_yesterday
  from date_word_days(2) [where lower = lower and s = s and ctx = ctx, OF date_yesterday(1) assms(2,3) refl] show ?thesis unfolding date_yesterday(2) .
next
  case (date_recent w n)
  from date_word_days(3) [where lower = lower and s = s and ctx = ctx, OF date_recent(1) assms(2,3) date_recent(3)] show ?thesis unfolding date_recent(2) .
next
  case (date_between lo y m d hi y' m' d')
  from date_dots_days [where lower = lower and s = s and ctx = ctx, OF date_between(1,3,4) assms(2,3)] show ?thesis unfolding date_between(2) .
next
  case (date_compare op dt y m d)
  from date_compare_days [where lower = lower and s = s and ctx = ctx, OF date_compare(1,3,4) assms(2,3)] show ?thesis unfolding date_compare(2) .
qed

theorem date_range_days_witness:
  defines "ctx \<equiv> \<lparr>dc_now_unix = 1700000000, dc_tz_offset_secs = 3600\<rparr>"
  shows "\<exists>r. parse_date_range id (ascii ''2024-02-28..2024-02-29'') ctx = Ok r \<and>
    (\<forall>x. within r x \<longleftrightarrow> 19781 \<le> day_of 3600 x \<and> day_of 3600 x \<le> 19782)"
proof -
  have dt: "civil_date (ascii ''2024-02-28'') 2024 2 28" "civil_date (ascii ''2024-02-29'') 2024 2 29"
    by (simp_all add: civil_date_def ascii_def trim_def is_whitespace_def parse_i64_def parse_u32_def is_digit_def
        digits_value_def i64_range_def Let_def)
  have text_is: "id (trim (ascii ''2024-02-28..2024-02-29'')) = ascii ''2024-02-28'' @ ascii ''..'' @ ascii ''2024-02-29''"
    by (simp add: ascii_def trim_def is_whitespace_def)
  have days: "day_number (nat 2024) (nat 2) 29 = 19782" "day_number (nat 2024) (nat 2) 28 = 19781"
    by (subst day_number_eq; simp add: year_days_def)+
  have query: "date_query ctx (id (trim (ascii ''2024-02-28..2024-02-29'')))
      (\<lambda>x. day_number (nat 2024) (nat 2) 28 \<le> day_of (dc_tz_offset_secs ctx) x \<and> day_of (dc_tz_offset_secs ctx) x \<le> day_number (nat 2024) (nat 2) 29)"
    unfolding text_is by (rule date_between [OF dt])
  from date_range_days [where lower = id and ctx = ctx, OF this] show ?thesis unfolding days by (simp add: ctx_def)
qed

section \<open>Sizes\<close>

definition size_compare :: "rust_string \<Rightarrow> u64 \<Rightarrow> u64 \<Rightarrow> bool" where
  "size_compare op a b \<longleftrightarrow>
     (if op = ascii ''<='' then a \<le> b else if op = ascii ''>'' then b < a else if op = ascii ''<'' then a < b else b \<le> a)"

lemma saturating_next: "saturating_add n 1 \<le> x \<longleftrightarrow> n < x \<or> n = - 1 \<and> x = - 1" for n x :: u64
proof -
  have "unat x < 2 ^ 64" "unat n < 2 ^ 64" using unsigned_less [of x] unsigned_less [of n] by simp_all
  then show ?thesis
    by (auto simp: word_le_nat_alt word_less_nat_alt unat_saturating_add word_eq_unat_iff unsigned_minus_1_eq_mask mask_eq_exp_minus_1)
qed

lemma saturating_prev: "x \<le> saturating_sub n 1 \<longleftrightarrow> x < n \<or> n = 0 \<and> x = 0" for n x :: u64
  by (auto simp: word_le_nat_alt word_less_nat_alt unat_saturating_sub word_eq_unat_iff)

text \<open>
  The bounds of a size query are the sizes that compare with its number, except at the ends of the
  range: the strict operators saturate, so \<open>size:<0\<close> still selects the empty files.
\<close>

theorem size_range_sizes:
  assumes "size_of num = Some n" and "split_once (ascii ''..'') num = None"
    and "take 1 num \<notin> {ascii ''<'', ascii ''='', ascii ''>''}" and "op \<in> date_operators"
  shows "\<exists>r. parse_size_range size_of (op @ num) = Some r \<and>
    (\<forall>x. within r x \<longleftrightarrow> size_compare op x n \<or> op = ascii ''>'' \<and> n = - 1 \<and> x = - 1 \<or> op = ascii ''<'' \<and> n = 0 \<and> x = 0)"
proof -
  have none: "strip_prefix (c # p) num = None" if "c \<in> {0x3C, 0x3D, 0x3E}" for c p
    using that assms(3) by (cases num) (auto simp: strip_prefix_def ascii_def)
  note eval = strip_prefix_simps(1,2) none split_once_skip ascii_def within_def saturating_next saturating_prev size_compare_def
  from assms(4) show ?thesis
    unfolding date_operators_def insert_iff empty_iff simp_thms
    using assms(1,2) by (elim disjE) (simp_all add: parse_size_range_def eval)
qed

lemma size_range_zero: "parse_size_range (\<lambda>_. Some 0) (ascii ''<0'') = Some (None, Some 0)"
  by (simp add: parse_size_range_def ascii_def strip_prefix_def saturating_sub_def)

theorem size_range_sizes_witness:
  "\<exists>r. parse_size_range (parse_size id (\<lambda>_ k. Some (10 * k))) (ascii ''>'' @ ascii ''10mb'') = Some r \<and>
    (\<forall>x. within r x \<longleftrightarrow> (0xA00000 :: u64) < x)"
proof -
  have n: "parse_size id (\<lambda>_ k. Some (10 * k)) (ascii ''10mb'') = Some 0xA00000"
    by (simp add: parse_size_def trim_def ascii_def is_whitespace_def is_ascii_alphabetic_def is_ascii_uppercase_def
        unit_multiplier_def Let_def)
  have "split_once (ascii ''..'') (ascii ''10mb'') = None" by (simp add: ascii_def strip_prefix_def)
  from size_range_sizes [where size_of = "parse_size id (\<lambda>_ k. Some (10 * k))", OF n this, of "ascii ''>''"]
  show ?thesis by (simp add: ascii_def date_operators_def size_compare_def)
qed

section \<open>Text terms\<close>

definition quoted :: "rust_string \<Rightarrow> rust_string" where
  "quoted p = 0x22 # p @ [0x22]"

definition haystack :: "(rust_string \<Rightarrow> rust_string) \<Rightarrow> file_entry \<Rightarrow> rust_string" where
  "haystack lower entry = lower (fe_name entry) @ [0x20] @ lower (fst (format_label entry))"

lemma split_terms_phrase:
  "0x22 \<notin> set p \<Longrightarrow> split_terms_from cur True (p @ s) = split_terms_from (cur @ p) True s"
  by (induction p arbitrary: cur) auto

lemma split_terms_quoted:
  "p \<noteq> [] \<Longrightarrow> 0x22 \<notin> set p \<Longrightarrow> split_terms (quoted p) = [p]"
  "p \<noteq> [] \<Longrightarrow> 0x22 \<notin> set p \<Longrightarrow> split_terms (quoted p @ 0x20 # s) = p # split_terms s"
  by (simp_all add: split_terms_def quoted_def split_terms_phrase is_whitespace_def)

text \<open>Any list of phrases without quotes can be typed.\<close>

lemma split_terms_join:
  "\<forall>p\<in>set ps. p \<noteq> [] \<and> 0x22 \<notin> set p \<Longrightarrow> split_terms (join_with 0x20 (map quoted ps)) = ps"
proof (induction ps)
  case Nil
  then show ?case by (simp add: split_terms_def)
next
  case (Cons p ps)
  then show ?case by (cases ps) (simp_all add: split_terms_quoted)
qed

lemma parse_terms_text:
  "\<forall>p\<in>set ps. 0x3A \<notin> set p \<Longrightarrow> parse_terms lower scale ctx ps = Ok (map (\<lambda>p. TermText (lower p)) ps)"
  by (induction ps) (simp_all add: parse_term_def ascii_def split_once_absent)

lemma text_needle_texts:
  "out \<noteq> [] \<Longrightarrow> \<forall>p\<in>set ps. p \<noteq> [] \<Longrightarrow> text_needle_from out (map TermText ps) = join_with 0x20 (out # ps)"
  by (induction ps arbitrary: out) (simp_all add: join_with_merge)

text \<open>
  A query of quoted phrases selects the entries whose name and format contain all of them, and
  hands a name index the same phrases.
\<close>

theorem text_query_matches:
  assumes phrases: "\<forall>p\<in>set ps. p \<noteq> [] \<and> 0x22 \<notin> set p \<and> 0x3A \<notin> set p"
    and lower: "\<And>p. lower p = [] \<Longrightarrow> p = []"
  shows "\<exists>e. parse_filter lower scale (join_with 0x20 (map quoted ps)) ctx = Ok e \<and>
    (\<forall>entry. matches_entry lower e entry \<longleftrightarrow> (\<forall>p\<in>set ps. \<exists>a b. haystack lower entry = a @ lower p @ b)) \<and>
    text_needle e = join_with 0x20 (map lower ps) \<and> \<not> has_metadata_terms e"
proof -
  let ?e = "\<lparr>fx_terms = map (\<lambda>p. TermText (lower p)) ps\<rparr>"
  have "parse_filter lower scale (join_with 0x20 (map quoted ps)) ctx = Ok ?e"
    using phrases by (simp add: parse_filter_def split_terms_join parse_terms_text)
  moreover have "matches_entry lower ?e entry \<longleftrightarrow> (\<forall>p\<in>set ps. \<exists>a b. haystack lower entry = a @ lower p @ b)" for entry
    by (cases ps) (auto simp: matches_entry_def text_matches_def metadata_matches_def is_text_def list_all_iff
        haystack_def contains_iff)
  moreover have "text_needle ?e = join_with 0x20 (map lower ps)"
  proof (cases ps)
    case (Cons p qs)
    with phrases lower have "lower p \<noteq> []" "\<forall>q\<in>set (map lower qs). q \<noteq> []" by auto
    from text_needle_texts [OF this] Cons show ?thesis by (simp add: text_needle_def comp_def)
  qed (simp add: text_needle_def)
  moreover have "\<not> has_metadata_terms ?e"
    by (auto simp: has_metadata_terms_def is_text_def list_ex_iff)
  ultimately show ?thesis by blast
qed

theorem text_query_matches_witness:
  "\<exists>e. parse_filter id (\<lambda>_ _. None) (ascii ''\"my file\" \"b\"'') \<lparr>dc_now_unix = 0, dc_tz_offset_secs = 0\<rparr> = Ok e \<and>
    text_needle e = ascii ''my file b''"
  using text_query_matches [of "[ascii ''my file'', ascii ''b'']" id "\<lambda>_ _. None" "\<lparr>dc_now_unix = 0, dc_tz_offset_secs = 0\<rparr>"]
  by (auto simp: ascii_def quoted_def)

section \<open>Rows in parts\<close>

definition parts_of :: "file_entry \<Rightarrow> filter_parts" where
  "parts_of entry = \<lparr>fp_name = fe_name entry, fp_kind = Some (fe_kind entry), fp_size = Some (fe_size entry),
     fp_mtime_unix = Some (fe_mtime_unix entry), fp_created_unix = fe_created_unix entry,
     fp_locked = Some (fe_locked entry)\<rparr>"

text \<open>The same row with some answers withheld.\<close>

definition withholds :: "'a option \<Rightarrow> 'a option \<Rightarrow> bool" where
  "withholds a b \<longleftrightarrow> a = None \<or> a = b"

definition fewer_answers :: "filter_parts \<Rightarrow> filter_parts \<Rightarrow> bool" where
  "fewer_answers p q \<longleftrightarrow> fp_name p = fp_name q \<and> withholds (fp_kind p) (fp_kind q) \<and> withholds (fp_size p) (fp_size q) \<and>
     withholds (fp_mtime_unix p) (fp_mtime_unix q) \<and> withholds (fp_created_unix p) (fp_created_unix q) \<and>
     withholds (fp_locked p) (fp_locked q)"

text \<open>
  The two evaluators agree on a row that answers every question; a row that withholds answers, but
  not its kind, is never selected by a query that the full row fails.  The kind is the exception:
  \<open>ext:\<close> selects a row of unknown kind that may be a directory.
\<close>

theorem filter_evaluators_agree:
  "(metadata_matches_parts e (parts_of entry) \<longleftrightarrow> metadata_matches e entry) \<and>
   (fewer_answers p (parts_of entry) \<and> fp_kind p \<noteq> None \<and> metadata_matches_parts e p \<longrightarrow> metadata_matches e entry)"
proof -
  have full: "metadata_matches_parts e (parts_of entry) \<longleftrightarrow> metadata_matches e entry"
    unfolding metadata_matches_parts_def metadata_matches_def parts_of_def
    by (rule list.pred_cong) (auto split: filter_term.split option.split)
  have "fewer_answers p q \<Longrightarrow> fp_kind p \<noteq> None \<Longrightarrow> metadata_matches_parts e p \<Longrightarrow> metadata_matches_parts e q" for q
    unfolding metadata_matches_parts_def fewer_answers_def withholds_def
    by (elim conjE list.pred_mono_strong) (auto split: filter_term.splits option.splits)
  with full show ?thesis by blast
qed

theorem filter_evaluators_agree_witness:
  defines "entry \<equiv> \<lparr>fe_id = NodeId 1, fe_name = ascii ''a.rs'', fe_display_name = ascii ''a.rs'', fe_name_has_hazards = False,
    fe_kind = KindFile, fe_size = 7, fe_mtime_unix = 1, fe_display_size = ascii ''7 B'', fe_display_kind = ascii ''RS'',
    fe_display_magic = [], fe_display_description = [], fe_details_loaded = False, fe_is_quarantined = False,
    fe_quarantine = None, fe_hidden = False, fe_created_unix = Some 1, fe_locked = False\<rparr>"
  shows "metadata_matches \<lparr>fx_terms = [TermExt (ascii ''RS''), TermSize (Some 5, None)]\<rparr> entry"
proof -
  let ?p = "(FilterParts_new (ascii ''a.rs''))\<lparr>fp_kind := Some KindFile, fp_size := Some 7\<rparr>"
  have "fewer_answers ?p (parts_of entry)"
    by (simp add: fewer_answers_def withholds_def parts_of_def FilterParts_new_def entry_def)
  moreover have "metadata_matches_parts \<lparr>fx_terms = [TermExt (ascii ''RS''), TermSize (Some 5, None)]\<rparr> ?p"
    by (simp add: metadata_matches_parts_def FilterParts_new_def has_extension_def rsplit_once_dot_def ascii_def
        eq_ignore_ascii_case_def to_ascii_lowercase_def is_ascii_uppercase_def within_def)
  ultimately show ?thesis
    using filter_evaluators_agree [of "\<lparr>fx_terms = [TermExt (ascii ''RS''), TermSize (Some 5, None)]\<rparr>" entry ?p]
    by (simp add: FilterParts_new_def)
qed

lemma ext_passes_without_kind:
  "metadata_matches_parts \<lparr>fx_terms = [TermExt (ascii ''d'')]\<rparr> (FilterParts_new (ascii ''etc.d''))"
  by (simp add: metadata_matches_parts_def FilterParts_new_def has_extension_def rsplit_once_dot_def ascii_def
      eq_ignore_ascii_case_def)

section \<open>Panics\<close>

text \<open>A year near the end of \<open>i64\<close> overflows: in a checked build, typing it panics.\<close>

lemma parse_filter_overflow:
  "parse_filter id (\<lambda>_ _. None) (ascii ''mod:>9223372036854775807-01-01'') \<lparr>dc_now_unix = 0, dc_tz_offset_secs = 0\<rparr> = Panic"
  by (simp add: parse_filter_def split_terms_def parse_term_def parse_date_range_def ascii_def trim_def is_whitespace_def
      strip_prefix_def local_day_start_def i64_def i64_range_def or_text_def civil_to_unix_def parse_i64_def parse_u32_def
      is_digit_def digits_value_def trunc_div_def Let_def)

end
