(* ===== verification/EntryLabelsProps.thy ===== *)
theory EntryLabelsProps
  imports EntryLabels FilterExprProps
begin

text \<open>
  The labels of a row: a shown date is the calendar day of its time and can be typed back into the
  filter box, and the Format flag raises the alarm exactly for disguises, whatever the case of the
  extension.
\<close>

section \<open>Dates\<close>

lemma year_days_era: "year_days (400 * e + x) = 146097 * e + year_days x"
proof -
  have "(400 * e + x) div 4 = 100 * e + x div 4" "(400 * e + x) div 100 = 4 * e + x div 100"
    "(400 * e + x) div 400 = e + x div 400" by linarith+
  then show ?thesis by (simp add: year_days_def)
qed

text \<open>The year of an era, from the number of the day within the era.\<close>

definition era_year :: "int \<Rightarrow> int" where
  "era_year doe = (doe - doe div 1460 + doe div 36524 - doe div 146096) div 365"

lemma era_year_mono:
  assumes "0 \<le> a" "a \<le> b" "b < 146097"
  shows "era_year a \<le> era_year b"
proof -
  have g: "x - x div 1460 \<le> y - y div 1460" if "x \<le> y" for x y :: int using that by linarith
  have q: "a div 36524 \<le> b div 36524" using assms(2) by (simp add: zdiv_mono1)
  have "a - a div 1460 + a div 36524 - a div 146096 \<le> b - b div 1460 + b div 36524 - b div 146096"
  proof (cases "b = 146096 \<and> a \<noteq> b")
    case True
    then have "a \<le> 146095" using assms(2) by simp
    moreover have "a div 36524 \<le> 3" using calculation by linarith
    moreover have "a div 146096 = 0" using calculation assms(1) by (simp add: div_pos_pos_trivial)
    ultimately show ?thesis using g [of a 146095] True by simp
  next
    case False
    then have "a div 146096 = b div 146096" using assms by (cases "b = 146096") (auto simp: div_pos_pos_trivial)
    with g [OF assms(2)] q show ?thesis by linarith
  qed
  then show ?thesis unfolding era_year_def by (rule zdiv_mono1) simp
qed

lemma era_year_ends: "list_all (\<lambda>y. era_year (year_days y) = y \<and> era_year (year_days (y + 1) - 1) = y) [0..399]"
  unfolding era_year_def year_days_def by code_simp
lemma year_days_mono: "0 \<le> x \<Longrightarrow> x \<le> y \<Longrightarrow> year_days x \<le> year_days y" for x y :: int
proof -
  assume xy: "0 \<le> x" "x \<le> y"
  then have "x div 4 \<le> y div 4" "x div 400 \<le> y div 400" "y div 100 - x div 100 \<le> y - x" by (simp_all add: zdiv_mono1)
  with xy show ?thesis unfolding year_days_def by linarith
qed

lemma year_of_day:
  assumes "0 \<le> doe" "doe < year_days (int n)"
  shows "\<exists>y<n. year_days (int y) \<le> doe \<and> doe < year_days (int y + 1)"
  using assms(2)
proof (induction n)
  case 0
  with assms(1) show ?case by (simp add: year_days_def)
next
  case (Suc n)
  then show ?case by (cases "doe < year_days (int n)") (auto simp: add.commute intro: less_SucI)
qed

lemma era_year_spec:
  assumes "0 \<le> doe" "doe < 146097"
  shows "0 \<le> era_year doe" "era_year doe \<le> 399" "year_days (era_year doe) \<le> doe" "doe < year_days (era_year doe + 1)"
proof -
  have "year_days (int 400) = 146097" by (simp add: year_days_def)
  with year_of_day [of doe 400] assms obtain n where n: "n < 400" "year_days (int n) \<le> doe" "doe < year_days (int n + 1)"
    by auto
  have ends: "era_year (year_days (int n)) = int n" "era_year (year_days (int n + 1) - 1) = int n"
    using era_year_ends n(1) unfolding list_all_iff by auto
  have "0 \<le> year_days (int n)" by (rule order.trans [OF _ conjunct1 [OF year_days_bounds]]) simp_all
  moreover have "year_days (int n + 1) - 1 < 146097"
  proof -
    from year_days_mono [of "int n + 1" 400] n(1) show ?thesis by (simp add: year_days_def)
  qed
  ultimately have "era_year doe = int n"
    using era_year_mono [of "year_days (int n)" doe] era_year_mono [of doe "year_days (int n + 1) - 1"] ends n(2,3) by simp
  with n show "0 \<le> era_year doe" "era_year doe \<le> 399" "year_days (era_year doe) \<le> doe" "doe < year_days (era_year doe + 1)"
    by simp_all
qed

lemma trunc_div_day_era: "trunc_div (if 0 \<le> z then z else z - 146096) 146097 = z div 146097"
proof (cases "0 \<le> z")
  case False
  then have "- ((146096 - z) div 146097) = z div 146097" by linarith
  with False show ?thesis by (simp add: trunc_div_def)
qed (simp add: trunc_div_def)

lemma as_i32_small: "- (2 ^ 31) \<le> n \<Longrightarrow> n < 2 ^ 31 \<Longrightarrow> as_i32 n = n"
  by (simp add: as_i32_def signed_take_bit_int_eq_self)

lemma i32_Ok: "- (2 ^ 31) \<le> n \<Longrightarrow> n < 2 ^ 31 \<Longrightarrow> i32 n = Ok n"
  by (simp add: i32_def)

text \<open>The months of a year that starts in March.\<close>

lemma month_of_day:
  fixes doy y :: int
  assumes "0 \<le> doy" "doy < 366"
  defines "mp \<equiv> (5 * doy + 2) div 153"
  defines "d \<equiv> doy - (153 * mp + 2) div 5 + 1"
  defines "m \<equiv> (if mp < 10 then mp + 3 else mp - 9)"
  shows "1 \<le> m" "m \<le> 12" "(m + 9) mod 12 = mp" "1 \<le> d" "d \<le> 31"
    and "m \<noteq> 2 \<Longrightarrow> d \<le> days_in_month k (nat m)" and "m = 2 \<Longrightarrow> d = doy - 336"
proof -
  have mp: "0 \<le> mp" "mp \<le> 11" using assms(1,2) unfolding mp_def by linarith+
  have d: "1 \<le> d" "d \<le> (153 * (mp + 1) + 2) div 5 - (153 * mp + 2) div 5"
  proof -
    have "153 * mp \<le> 5 * doy + 2" "5 * doy + 2 < 153 * (mp + 1)" unfolding mp_def
      using mult_div_mod_eq [of 153 "5 * doy + 2"] pos_mod_sign [of 153 "5 * doy + 2"]
        pos_mod_bound [of 153 "5 * doy + 2", OF zero_less_numeral] by simp_all
    then show "1 \<le> d" "d \<le> (153 * (mp + 1) + 2) div 5 - (153 * mp + 2) div 5" unfolding d_def by linarith+
  qed
  from mp have "mp \<in> {0, 1, 2, 3, 4, 5, 6, 7, 8, 9, 10, 11}" by simp presburger
  then show "1 \<le> m" "m \<le> 12" "(m + 9) mod 12 = mp" "1 \<le> d" "d \<le> 31"
    "m \<noteq> 2 \<Longrightarrow> d \<le> days_in_month k (nat m)" "m = 2 \<Longrightarrow> d = doy - 336"
    using d by (elim insertE emptyE; simp add: m_def days_in_month_def d_def)+
qed
text \<open>
  The date shown for a time is the day of the reference calendar in which the time lies.
\<close>

lemma ymd_calendar:
  assumes "- 62167219200 \<le> unix" and "unix < 6 * 10 ^ 16"
  shows "\<exists>y m d. (ymd unix :: ('e, int \<times> int \<times> int) outcome) = Ok (y, m, d) \<and> 0 \<le> y \<and> y < 2 ^ 31 \<and> 1 \<le> m \<and> m \<le> 12 \<and> 1 \<le> d \<and>
    d \<le> days_in_month (nat y) (nat m) \<and> day_number (nat y) (nat m) d = unix div 86400"
proof -
  define z where "z = unix div 86400 + 719468"
  define era where "era = z div 146097"
  define doe where "doe = z - era * 146097"
  define yoe where "yoe = era_year doe"
  define y' where "y' = 400 * era + yoe"
  define doy where "doy = doe - year_days yoe"
  define mp where "mp = (5 * doy + 2) div 153"
  define m where "m = (if mp < 10 then mp + 3 else mp - 9)"
  define d where "d = doy - (153 * mp + 2) div 5 + 1"
  define y where "y = (if m \<le> 2 then y' + 1 else y')"
  have z: "- 60 \<le> z" "z < 695000000000" using assms unfolding z_def by simp_all
  have doe: "0 \<le> doe" "doe < 146097" unfolding doe_def era_def by linarith+
  note yoe = era_year_spec [OF doe, folded yoe_def]
  have era: "- 1 \<le> era" "era \<le> 4760000" using z unfolding era_def by linarith+
  have days: "year_days y' = 146097 * era + year_days yoe" "year_days (y' + 1) = 146097 * era + year_days (yoe + 1)"
    unfolding y'_def using year_days_era [of era yoe] year_days_era [of era "yoe + 1"] by (simp_all add: add.assoc)
  have doy: "0 \<le> doy" "doy < year_days (y' + 1) - year_days y'" using yoe days unfolding doy_def by simp_all
  have zy: "z = year_days y' + doy" unfolding doy_def days doe_def by simp
  have y: "0 \<le> y"
  proof (cases "0 \<le> era")
    case True
    with yoe(1) show ?thesis by (simp add: y_def y'_def)
  next
    case False
    with era have e: "era = - 1" by simp
    with z(1) have "146037 \<le> doe" by (simp add: doe_def)
    moreover have "year_days 399 = 145731" by (simp add: year_days_def)
    ultimately have "yoe = 399" using yoe year_days_mono [of "yoe + 1" 399] by (cases "yoe = 399") simp_all
    moreover have "10 \<le> (5 * doe - 728653) div 153" "(5 * doe - 728653) div 153 \<le> 11"
      using \<open>146037 \<le> doe\<close> doe(2) by linarith+
    ultimately show ?thesis
      using \<open>year_days 399 = 145731\<close> e by (simp add: y_def y'_def m_def mp_def doy_def)
  qed
  then have "int (nat (y' + 1)) = y' + 1" by (simp add: y_def split: if_splits)
  with year_days_step [of "nat (y' + 1)"]
  have step: "year_days (y' + 1) - year_days y' = 365 + (if leap_year (nat (y' + 1)) then 1 else 0)" by simp
  then have "doy < 366" using doy(2) by (simp split: if_splits)
  note month = month_of_day [OF doy(1) this, folded mp_def, folded d_def m_def]
  have "d \<le> days_in_month (nat y) (nat m)"
  proof (cases "m = 2")
    case True
    with month(7) doy(2) step show ?thesis by (simp add: y_def days_in_month_def split: if_splits)
  qed (rule month(6))
  moreover have "day_number (nat y) (nat m) d = unix div 86400"
  proof -
    from y have "int (nat y) = y" by simp
    then have "(if m \<le> 2 then int (nat y) - 1 else int (nat y)) = y'" by (simp only: y_def) simp
    then show ?thesis using zy unfolding day_number_eq [OF month(1,2)] month(3) z_def d_def by simp
  qed
  moreover have "(ymd unix :: ('e, int \<times> int \<times> int) outcome) = Ok (y, m, d)"
  proof -
    have small: "i32 (as_i32 era * 400) = (Ok (era * 400) :: ('e, int) outcome)" "i32 (as_i32 yoe + era * 400) = (Ok y' :: ('e, int) outcome)"
      using era yoe(1,2) unfolding y'_def by (simp_all add: as_i32_small i32_Ok algebra_simps)
    have "i32 (y' + 1) = (Ok (y' + 1) :: ('e, int) outcome)" using era yoe(1,2) unfolding y'_def by (simp add: i32_Ok)
    then have next_year: "(if m \<le> 2 then i32 (y' + 1) else Ok y') = (Ok y :: ('e, int) outcome)" by (simp add: y_def)
    have doy_eq: "doe - (365 * yoe + yoe div 4 - yoe div 100) = doy"
      using yoe(1,2) by (simp add: doy_def year_days_def div_pos_pos_trivial)
    show ?thesis
      unfolding ymd_def Let_def z_def [symmetric] trunc_div_day_era era_def [symmetric] doe_def [symmetric]
        era_year_def [symmetric] yoe_def [symmetric] small obind.simps doy_eq mp_def [symmetric] d_def [symmetric] m_def [symmetric] next_year ..
  qed
  moreover have "y < 2 ^ 31" using era yoe(1,2) unfolding y_def y'_def by (simp split: if_split)
  ultimately show ?thesis using y month by blast
qed

lemma civil_date_printed:
  assumes "0 \<le> y" "y \<le> 10 ^ 11" "1 \<le> m" "m \<le> 12" "1 \<le> d" "d \<le> 31"
  shows "civil_date (zero_padded 4 y @ [0x2D] @ zero_padded 2 m @ [0x2D] @ zero_padded 2 d) y m d" (is "civil_date ?s y m d")
proof -
  have b: "0 \<le> m" "0 \<le> d" using assms by simp_all
  note Y = zero_padded_nonneg [OF assms(1), of 4] and M = zero_padded_nonneg [OF b(1), of 2]
    and D = zero_padded_nonneg [OF b(2), of 2]
  have "hd ?s = hd (zero_padded 4 y)" "last ?s = last (zero_padded 2 d)" using Y(3) D(3) by simp_all
  moreover have "is_digit (hd (zero_padded 4 y))" "is_digit (last (zero_padded 2 d))"
    using Y D by (simp_all add: list_all_iff)
  ultimately have trim: "trim ?s = ?s" by (intro trim_id) (auto dest: digit_not)
  have no: "0x2D \<notin> set (zero_padded 4 y)" "0x2D \<notin> set (zero_padded 2 m)" "0x2D \<notin> set (zero_padded 2 d)"
    using Y(1) M(1) D(1) by (auto simp: list_all_iff dest: digit_not)
  then have split: "split_on 0x2D ?s = [zero_padded 4 y, zero_padded 2 m, zero_padded 2 d]"
    by (simp add: split_on_append split_on_single)
  show ?thesis
    unfolding civil_date_def trim split
    using parse_digits [OF Y(1,3)] parse_digits [OF M(1,3)] parse_digits [OF D(1,3)] assms by (simp add: Y(2) M(2) D(2))
qed

lemma days_in_month_le: "days_in_month y m \<le> 31"
  by (simp add: days_in_month_def)

text \<open>A date printed in the Modified column names the day of the reference calendar in which the
  time lies; typed into the filter box, it is read back as the local midnight that starts that day.
\<close>

theorem format_date_typed:
  assumes "- 62167219200 \<le> unix" and "unix < 6 * 10 ^ 16" and "\<bar>tz\<bar> \<le> 10 ^ 6"
  shows "\<exists>s y m d. (format_date unix :: ('e, rust_string) outcome) = Ok s \<and> civil_date s y m d \<and>
    d \<le> days_in_month (nat y) (nat m) \<and> day_number (nat y) (nat m) d = unix div 86400 \<and>
    civil_to_unix s tz = Ok (86400 * (unix div 86400) - tz)"
proof -
  from ymd_calendar [OF assms(1,2)] obtain y m d where r: "(ymd unix :: ('e, int \<times> int \<times> int) outcome) = Ok (y, m, d)"
    and b: "0 \<le> y" "1 \<le> m" "m \<le> 12" "1 \<le> d" and y: "y < 2 ^ 31" and d: "d \<le> days_in_month (nat y) (nat m)"
    and n: "day_number (nat y) (nat m) d = unix div 86400" by blast
  have "d \<le> 31" using d days_in_month_le [of "nat y" "nat m"] by simp
  then have c: "civil_date (zero_padded 4 y @ [0x2D] @ zero_padded 2 m @ [0x2D] @ zero_padded 2 d) y m d"
    using b y by (intro civil_date_printed) simp_all
  have "(format_date unix :: ('e, rust_string) outcome) = Ok (zero_padded 4 y @ [0x2D] @ zero_padded 2 m @ [0x2D] @ zero_padded 2 d)"
    by (simp add: format_date_def r)
  with c d n civil_date_Ok(1) [OF c assms(3)] show ?thesis by (intro exI conjI) (assumption | simp)+
qed

theorem format_date_typed_witness:
  "\<exists>s y m d. (format_date 1709164800 :: (unit, rust_string) outcome) = Ok s \<and> civil_date s y m d \<and>
    day_number (nat y) (nat m) d = 19782 \<and> civil_to_unix s 3600 = Ok 1709161200"
proof -
  have "- 62167219200 \<le> (1709164800 :: int)" "(1709164800 :: int) < 6 * 10 ^ 16" "\<bar>3600\<bar> \<le> (10 ^ 6 :: int)" by simp_all
  from format_date_typed [OF this, where 'e = unit] obtain s y m d where
    "(format_date 1709164800 :: (unit, rust_string) outcome) = Ok s" "civil_date s y m d"
    "day_number (nat y) (nat m) d = 1709164800 div 86400" "civil_to_unix s 3600 = Ok (86400 * (1709164800 div 86400) - 3600)"
    by blast
  then show ?thesis by (intro exI conjI) simp_all
qed

text \<open>The year of a time far from now does not fit its \<open>i32\<close>.\<close>

lemma ymd_overflow: "(ymd (2 ^ 63 - 1) :: (unit, int \<times> int \<times> int) outcome) = Panic"
  by (simp add: ymd_def trunc_div_def i32_def as_i32_small Let_def cong: obind_weak_cong)

end
