(* ===== verification/Counts.thy ===== *)
theory Counts
  imports RustText
begin

text \<open>
  \<open>ferail-core\<close>: \<open>counts.rs\<close>, counts shown with a dot every three digits.  Grouping adds dots only,
  changes no digit run of a grouped label, and the two entry points agree.
\<close>

section \<open>Grouping\<close>

text \<open>The loop over the digits of one run; \<open>n\<close> is \<open>len - index\<close>, the digits still to come.\<close>

fun push_grouped :: "bool \<Rightarrow> rust_string \<Rightarrow> rust_string" where
  "push_grouped first [] = []"
| "push_grouped first (d # ds) =
     (if \<not> first \<and> Suc (length ds) mod 3 = 0 then [0x2E, d] else [d]) @ push_grouped False ds"

definition format_count :: "u64 \<Rightarrow> rust_string" where
  "format_count n = push_grouped True (decimal (unat n))"

function group_digits :: "rust_string \<Rightarrow> rust_string" where
  "group_digits [] = []"
| "group_digits (c # s) =
     (if \<not> is_digit c then c # group_digits s
      else push_grouped True (c # takeWhile is_digit s) @ group_digits (dropWhile is_digit s))"
  by pat_completeness auto
termination by (relation "measure length") (auto simp: le_imp_less_Suc length_dropWhile_le)

section \<open>Grouped numbers\<close>

lemma push_grouped_dots: "0x2E \<notin> set ds \<Longrightarrow> filter (\<lambda>c. c \<noteq> 0x2E) (push_grouped first ds) = ds"
  by (induction first ds rule: push_grouped.induct) auto

text \<open>A grouped text: no run of more than three digits.\<close>

fun runs_short :: "nat \<Rightarrow> rust_string \<Rightarrow> bool" where
  "runs_short n [] \<longleftrightarrow> True"
| "runs_short n (c # s) \<longleftrightarrow> (if is_digit c then n < 3 \<and> runs_short (Suc n) s else runs_short 0 s)"

lemma runs_short_mono: "runs_short n s \<Longrightarrow> m \<le> n \<Longrightarrow> runs_short m s"
  by (induction n s arbitrary: m rule: runs_short.induct) (auto split: if_splits)

lemma dot_no_digit: "\<not> is_digit 0x2E"
  by (simp add: is_digit_def)

lemma push_grouped_runs:
  assumes "list_all is_digit ds" and "s = [] \<or> \<not> is_digit (hd s)" and "runs_short 0 s"
  shows "n + length ds mod 3 \<le> 3 \<Longrightarrow> runs_short n (push_grouped False ds @ s)"
  using assms(1)
proof (induction ds arbitrary: n)
  case Nil
  then show ?case using assms(2,3) by (cases s) auto
next
  case (Cons d ds)
  show ?case
  proof (cases "Suc (length ds) mod 3 = 0")
    case True
    then have "length ds mod 3 = 2" by presburger
    with True Cons show ?thesis by (simp add: dot_no_digit numeral_2_eq_2)
  next
    case False
    then have "Suc (length ds) mod 3 = Suc (length ds mod 3)" by presburger
    with False Cons show ?thesis by simp
  qed
qed

lemma push_grouped_True_runs:
  assumes "list_all is_digit ds" and "s = [] \<or> \<not> is_digit (hd s)" and "runs_short 0 s"
  shows "runs_short 0 (push_grouped True ds @ s)"
proof (cases ds)
  case (Cons d tl)
  have "length tl mod 3 \<le> 2" by presburger
  with push_grouped_runs [of tl s 1] assms Cons show ?thesis by simp
qed (use assms in simp)

lemma group_head: "t = [] \<or> \<not> is_digit (hd t) \<Longrightarrow> group_digits t = [] \<or> \<not> is_digit (hd (group_digits t))"
  by (cases t) auto

lemma dropWhile_head: "dropWhile P s = [] \<or> \<not> P (hd (dropWhile P s))"
  by (induction s) auto

lemma runs_short_group: "runs_short 0 (group_digits s)"
proof (induction s rule: group_digits.induct)
  case (2 c s)
  show ?case
  proof (cases "is_digit c")
    case True
    have "runs_short 0 (push_grouped True (c # takeWhile is_digit s) @ group_digits (dropWhile is_digit s))"
    proof (rule push_grouped_True_runs)
      show "list_all is_digit (c # takeWhile is_digit s)" using True by (auto simp: list_all_iff dest: set_takeWhileD)
      show "runs_short 0 (group_digits (dropWhile is_digit s))" using 2 True by simp
    qed (rule group_head, rule dropWhile_head)
    with True show ?thesis by (simp del: push_grouped.simps)
  qed (use 2 in simp)
qed simp

text \<open>A text of short runs is left alone.\<close>

lemma push_grouped_short:
  "length ds < 3 \<Longrightarrow> push_grouped False ds = ds" "length ds \<le> 3 \<Longrightarrow> push_grouped True ds = ds"
proof -
  show a: "push_grouped False ds = ds" if "length ds < 3" for ds using that by (induction ds) auto
  show "push_grouped True ds = ds" if "length ds \<le> 3" for ds using that a [of "tl ds"] by (cases ds) auto
qed

lemma runs_short_prefix: "runs_short n s \<Longrightarrow> n \<le> 3 \<Longrightarrow> n + length (takeWhile is_digit s) \<le> 3"
  by (induction n s rule: runs_short.induct) (auto split: if_splits)

lemma runs_short_suffix: "runs_short n s \<Longrightarrow> runs_short 0 (dropWhile is_digit s)"
  by (induction n s rule: runs_short.induct) (auto split: if_splits)

lemma group_short: "runs_short 0 s \<Longrightarrow> group_digits s = s"
proof (induction s rule: group_digits.induct)
  case (2 c s)
  show ?case
  proof (cases "is_digit c")
    case True
    with 2 have "length (takeWhile is_digit s) \<le> 2" "runs_short 0 (dropWhile is_digit s)"
      using runs_short_prefix [of 1 s] runs_short_suffix [of 1 s] by simp_all
    with 2 True show ?thesis by (simp add: push_grouped_short(2) del: push_grouped.simps)
  qed (use 2 in simp)
qed simp

lemma group_dots: "filter (\<lambda>c. c \<noteq> 0x2E) (group_digits s) = filter (\<lambda>c. c \<noteq> 0x2E) s"
proof (induction s rule: group_digits.induct)
  case (2 c s)
  have no_dots: "filter (\<lambda>c. c \<noteq> 0x2E) xs = xs" if "0x2E \<notin> set xs" for xs :: rust_string
    using that by (induction xs) auto
  have "filter (\<lambda>c. c \<noteq> 0x2E) (push_grouped True (c # takeWhile is_digit s)) = filter (\<lambda>c. c \<noteq> 0x2E) (c # takeWhile is_digit s)"
    if "is_digit c"
  proof -
    from that dot_no_digit have "0x2E \<notin> set (c # takeWhile is_digit s)" by (auto dest: set_takeWhileD)
    then show ?thesis using trans [OF push_grouped_dots no_dots [symmetric]] by blast
  qed
  moreover have "filter P s = filter P (takeWhile is_digit s) @ filter P (dropWhile is_digit s)" for P
    by (simp flip: filter_append)
  ultimately show ?case using 2 dot_no_digit by (cases "is_digit c") (simp_all del: push_grouped.simps)
qed simp

text \<open>Grouping a label adds dots only, leaves no run of more than three digits, changes nothing
  when applied again, and groups a printed count as \<open>format_count\<close> does.\<close>

theorem group_digits_spec:
  "filter (\<lambda>c. c \<noteq> 0x2E) (group_digits s) = filter (\<lambda>c. c \<noteq> 0x2E) s \<and>
   runs_short 0 (group_digits s) \<and>
   group_digits (group_digits s) = group_digits s \<and>
   group_digits (decimal (unat n)) = format_count n"
proof -
  obtain d ds where d: "decimal (unat n) = d # ds" using decimal_nonempty by (meson neq_Nil_conv)
  with decimal_digits [of "unat n"] have "is_digit d" "list_all is_digit ds" by simp_all
  then have run: "takeWhile is_digit ds = ds" "dropWhile is_digit ds = []"
    by (simp_all add: takeWhile_eq_all_conv dropWhile_eq_Nil_conv list_all_iff)
  have "group_digits (decimal (unat n)) = format_count n"
    using \<open>is_digit d\<close> by (simp add: d format_count_def run del: push_grouped.simps)
  then show ?thesis by (simp add: group_dots group_short runs_short_group)
qed

end
