(* ===== verification/Utf8.thy ===== *)
theory Utf8
  imports RustText
begin

text \<open>
  UTF-8 and UTF-16 of the standard library: \<open>str::from_utf8\<close>, \<open>String::from_utf8_lossy\<close> and
  \<open>String::from_utf16\<close>.  One step decodes a scalar value or names the length of the longest
  ill-formed prefix, which the lossy decoder replaces by U+FFFD.
\<close>

definition is_continuation :: "u8 \<Rightarrow> bool" where
  "is_continuation b \<longleftrightarrow> 0x80 \<le> b \<and> b \<le> 0xBF"

text \<open>The second bytes that may follow a first byte of three or four.\<close>

definition second_ok :: "u8 \<Rightarrow> u8 \<Rightarrow> bool" where
  "second_ok a b \<longleftrightarrow>
     (if a = 0xE0 then 0xA0 \<le> b \<and> b \<le> 0xBF
      else if a = 0xED then 0x80 \<le> b \<and> b \<le> 0x9F
      else if a = 0xF0 then 0x90 \<le> b \<and> b \<le> 0xBF
      else if a = 0xF4 then 0x80 \<le> b \<and> b \<le> 0x8F
      else is_continuation b)"

definition tail_bits :: "u8 \<Rightarrow> u32" where
  "tail_bits b = ucast b AND 0x3F"

definition utf8_step :: "u8 list \<Rightarrow> u32 option \<times> nat" where
  "utf8_step s =
     (let a = s ! 0; nxt = (\<lambda>i P. i < length s \<and> P (s ! i)) in
      if a < 0x80 then (Some (ucast a), 1)
      else if 0xC2 \<le> a \<and> a \<le> 0xDF then
        (if nxt 1 is_continuation then (Some (push_bit 6 (ucast a AND 0x1F) OR tail_bits (s ! 1)), 2) else (None, 1))
      else if 0xE0 \<le> a \<and> a \<le> 0xEF then
        (if \<not> nxt 1 (second_ok a) then (None, 1)
         else if \<not> nxt 2 is_continuation then (None, 2)
         else (Some (push_bit 12 (ucast a AND 0x0F) OR push_bit 6 (tail_bits (s ! 1)) OR tail_bits (s ! 2)), 3))
      else if 0xF0 \<le> a \<and> a \<le> 0xF4 then
        (if \<not> nxt 1 (second_ok a) then (None, 1)
         else if \<not> nxt 2 is_continuation then (None, 2)
         else if \<not> nxt 3 is_continuation then (None, 3)
         else (Some (push_bit 18 (ucast a AND 0x07) OR push_bit 12 (tail_bits (s ! 1)) OR push_bit 6 (tail_bits (s ! 2)) OR
           tail_bits (s ! 3)), 4))
      else (None, 1))"

lemma utf8_step_progress: "0 < snd (utf8_step s)"
  by (simp add: utf8_step_def Let_def)

lemma utf8_step_pos: "(c, n) = utf8_step s \<Longrightarrow> 0 < n"
  using utf8_step_progress [of s] by (metis snd_conv)

function from_utf8 :: "u8 list \<Rightarrow> rust_string option" where
  "from_utf8 s =
     (if s = [] then Some []
      else case utf8_step s of
        (None, _) \<Rightarrow> None
      | (Some c, n) \<Rightarrow> map_option (\<lambda>cs. c # cs) (from_utf8 (drop n s)))"
  by pat_completeness auto
termination by (relation "measure length") (auto dest: utf8_step_pos)

declare from_utf8.simps [simp del]

function from_utf8_lossy :: "u8 list \<Rightarrow> rust_string" where
  "from_utf8_lossy s =
     (if s = [] then []
      else case utf8_step s of (c, n) \<Rightarrow> (case c of Some c \<Rightarrow> c | None \<Rightarrow> 0xFFFD) # from_utf8_lossy (drop n s))"
  by pat_completeness auto
termination by (relation "measure length") (auto dest: utf8_step_pos)

declare from_utf8_lossy.simps [simp del]

text \<open>The bytes of a string.\<close>

definition utf8_codes :: "nat \<Rightarrow> nat list" where
  "utf8_codes n =
     (if n < 0x80 then [n]
      else if n < 0x800 then [0xC0 + n div 64, 0x80 + n mod 64]
      else if n < 0x10000 then [0xE0 + n div 4096, 0x80 + n div 64 mod 64, 0x80 + n mod 64]
      else [0xF0 + n div 262144, 0x80 + n div 4096 mod 64, 0x80 + n div 64 mod 64, 0x80 + n mod 64])"

definition utf8_char :: "u32 \<Rightarrow> u8 list" where
  "utf8_char c = map of_nat (utf8_codes (unat c))"

definition utf8_encode :: "rust_string \<Rightarrow> u8 list" where
  "utf8_encode s = concat (map utf8_char s)"

text \<open>Surrogate pairs combine; an unpaired surrogate fails.\<close>

definition is_high_surrogate :: "u16 \<Rightarrow> bool" where
  "is_high_surrogate u \<longleftrightarrow> 0xD800 \<le> u \<and> u \<le> 0xDBFF"

definition is_low_surrogate :: "u16 \<Rightarrow> bool" where
  "is_low_surrogate u \<longleftrightarrow> 0xDC00 \<le> u \<and> u \<le> 0xDFFF"

fun from_utf16 :: "u16 list \<Rightarrow> rust_string option" where
  "from_utf16 [] = Some []"
| "from_utf16 [u] = (if is_high_surrogate u \<or> is_low_surrogate u then None else Some [ucast u])"
| "from_utf16 (u # v # us) =
     (if is_high_surrogate u then
        (if is_low_surrogate v then
           map_option (\<lambda>cs. ((push_bit 10 (ucast (u AND 0x3FF)) OR ucast (v AND 0x3FF)) + 0x10000) # cs) (from_utf16 us)
         else None)
      else if is_low_surrogate u then None
      else map_option (\<lambda>cs. ucast u # cs) (from_utf16 (v # us)))"

section \<open>ASCII\<close>

lemma utf8_step_ascii: "a < 0x80 \<Longrightarrow> utf8_step (a # s) = (Some (ucast a), 1)"
  by (simp add: utf8_step_def)

lemma from_utf8_ascii: "list_all (\<lambda>b. b < 0x80) s \<Longrightarrow> from_utf8 s = Some (map ucast s)"
proof (induction s)
  case Nil
  then show ?case by (simp add: from_utf8.simps)
next
  case (Cons a s)
  then show ?case by (subst from_utf8.simps) (simp add: utf8_step_ascii)
qed

end
