(* ===== verification/TextEncoding.thy ===== *)
theory TextEncoding
  imports Utf8
begin

text \<open>
  \<open>ferail-core\<close>: \<open>text_encoding.rs\<close>, which decodes the bytes of a text file (UTF-8, UTF-16, DOS code
  page 437, Latin-1), scores text art, and renders the harmless subset of ANSI escape sequences into
  a document of styled text.  The index into the characters is the list of characters still to come.
\<close>

section \<open>Decoding\<close>

datatype text_encoding = EncUtf8 | EncUtf16Le | EncUtf16Be | EncCp437 | EncLatin1

record decoded_text =
  dt_text :: rust_string
  dt_encoding :: text_encoding

definition CP437_HIGH :: "u32 list" where
  "CP437_HIGH = [0xC7, 0xFC, 0xE9, 0xE2, 0xE4, 0xE0, 0xE5, 0xE7, 0xEA, 0xEB, 0xE8, 0xEF, 0xEE, 0xEC, 0xC4, 0xC5,
     0xC9, 0xE6, 0xC6, 0xF4, 0xF6, 0xF2, 0xFB, 0xF9, 0xFF, 0xD6, 0xDC, 0xA2, 0xA3, 0xA5, 0x20A7, 0x192,
     0xE1, 0xED, 0xF3, 0xFA, 0xF1, 0xD1, 0xAA, 0xBA, 0xBF, 0x2310, 0xAC, 0xBD, 0xBC, 0xA1, 0xAB, 0xBB,
     0x2591, 0x2592, 0x2593, 0x2502, 0x2524, 0x2561, 0x2562, 0x2556, 0x2555, 0x2563, 0x2551, 0x2557, 0x255D, 0x255C, 0x255B, 0x2510,
     0x2514, 0x2534, 0x252C, 0x251C, 0x2500, 0x253C, 0x255E, 0x255F, 0x255A, 0x2554, 0x2569, 0x2566, 0x2560, 0x2550, 0x256C, 0x2567,
     0x2568, 0x2564, 0x2565, 0x2559, 0x2558, 0x2552, 0x2553, 0x256B, 0x256A, 0x2518, 0x250C, 0x2588, 0x2584, 0x258C, 0x2590, 0x2580,
     0x3B1, 0xDF, 0x393, 0x3C0, 0x3A3, 0x3C3, 0xB5, 0x3C4, 0x3A6, 0x398, 0x3A9, 0x3B4, 0x221E, 0x3C6, 0x3B5, 0x2229,
     0x2261, 0xB1, 0x2265, 0x2264, 0x2320, 0x2321, 0xF7, 0x2248, 0xB0, 0x2219, 0xB7, 0x221A, 0x207F, 0xB2, 0x25A0, 0xA0]"

definition decode_cp437 :: "u8 list \<Rightarrow> rust_string" where
  "decode_cp437 bytes = map (\<lambda>b. if b < 0x80 then ucast b else CP437_HIGH ! unat (b - 0x80)) bytes"

definition drawing_byte :: "u8 \<Rightarrow> bool" where
  "drawing_byte b \<longleftrightarrow> (0xb0 \<le> b \<and> b \<le> 0xdf) \<or> b = 0xfe"

text \<open>The scan of one line: the current run, the longest run of drawing bytes, and their number.\<close>

fun art_line :: "u8 list \<Rightarrow> u8 \<Rightarrow> nat \<Rightarrow> nat \<Rightarrow> nat \<Rightarrow> nat \<times> nat" where
  "art_line [] run_byte run_len best drawn = (best, drawn)"
| "art_line (b # bs) run_byte run_len best drawn =
     (let run_len = (if b = run_byte then run_len + 1 else 1) in
      if drawing_byte b then art_line bs b run_len (max best run_len) (drawn + 1)
      else art_line bs b run_len best drawn)"

definition looks_like_cp437_art :: "u8 list \<Rightarrow> bool" where
  "looks_like_cp437_art bytes \<longleftrightarrow>
     (let sample = take 4096 bytes; drawing = length (filter drawing_byte sample) in
      if drawing < 8 \<or> drawing * 100 < max (length sample) 1 * 2 then False
      else
      let lines = map (\<lambda>line. art_line line 0 0 0 0) (take 100 (split_on 0x0A sample));
          long_runs = length (filter (\<lambda>(best, _). 4 \<le> best) lines);
          line_drawing = sum_list (map snd lines) in
      1 \<le> long_runs \<and> 8 \<le> line_drawing)"

text \<open>\<open>str::lines\<close>: split at line feeds, without a final empty line, a carriage return at the end dropped.\<close>

definition strip_cr :: "rust_string \<Rightarrow> rust_string" where
  "strip_cr line = (if line \<noteq> [] \<and> last line = 0x0D then butlast line else line)"

definition text_lines :: "rust_string \<Rightarrow> rust_string list" where
  "text_lines text = (let pieces = split_on 0x0A text in
     map strip_cr (butlast pieces) @ (if last pieces = [] then [] else [last pieces]))"

definition art_char :: "u32 \<Rightarrow> bool" where
  "art_char c \<longleftrightarrow> (0x2500 \<le> c \<and> c \<le> 0x257f) \<or> (0x2580 \<le> c \<and> c \<le> 0x259f) \<or> c = 0x25A0"

definition looks_like_text_art :: "rust_string \<Rightarrow> bool" where
  "looks_like_text_art text \<longleftrightarrow>
     (let counts = map (\<lambda>line. length (filter art_char line)) (take 100 (text_lines text)) in
      8 \<le> sum_list counts \<and> 2 \<le> length (filter (\<lambda>count. 4 \<le> count) counts))"

definition is_ascii_graphic :: "u8 \<Rightarrow> bool" where
  "is_ascii_graphic b \<longleftrightarrow> 0x21 \<le> b \<and> b \<le> 0x7E"

definition looks_like_single_byte_text :: "u8 list \<Rightarrow> bool" where
  "looks_like_single_byte_text bytes \<longleftrightarrow>
     (let sample = take 512 bytes;
          printable = length (filter (\<lambda>b. is_ascii_graphic b \<or> b \<in> {0x20, 0x0A, 0x0D, 0x09, 0x1b} \<or> 0xa0 \<le> b) sample) in
      85 \<le> printable * 100 div max (length sample) 1)"

text \<open>\<open>chunks_exact(2)\<close> as code units.\<close>

fun utf16_units :: "bool \<Rightarrow> u8 list \<Rightarrow> u16 list" where
  "utf16_units little_endian (a # b # rest) =
     (if little_endian then le_word [a, b] else le_word [b, a]) # utf16_units little_endian rest"
| "utf16_units little_endian _ = []"

definition decode_utf16 :: "u8 list \<Rightarrow> bool \<Rightarrow> decoded_text option" where
  "decode_utf16 bytes little_endian =
     map_option (\<lambda>text. \<lparr>dt_text = text, dt_encoding = (if little_endian then EncUtf16Le else EncUtf16Be)\<rparr>)
       (from_utf16 (utf16_units little_endian bytes))"

definition decode_text :: "u8 list \<Rightarrow> decoded_text option" where
  "decode_text bytes =
     (if bytes = [] then Some \<lparr>dt_text = [], dt_encoding = EncUtf8\<rparr>
      else if take 2 bytes = [0xff, 0xfe] then decode_utf16 (drop 2 bytes) True
      else if take 2 bytes = [0xfe, 0xff] then decode_utf16 (drop 2 bytes) False
      else if 0 \<in> set bytes then None
      else
      (case from_utf8 (if take 3 bytes = [0xef, 0xbb, 0xbf] then drop 3 bytes else bytes) of
         Some text \<Rightarrow> Some \<lparr>dt_text = text, dt_encoding = EncUtf8\<rparr>
       | None \<Rightarrow>
           if \<not> looks_like_single_byte_text bytes then None
           else if looks_like_cp437_art bytes then Some \<lparr>dt_text = decode_cp437 bytes, dt_encoding = EncCp437\<rparr>
           else Some \<lparr>dt_text = map ucast bytes, dt_encoding = EncLatin1\<rparr>))"

section \<open>ANSI styles\<close>

datatype ansi_color = Standard u8 | Bright u8 | Indexed u8 | Rgb u8 u8 u8

record ansi_style =
  st_foreground :: "ansi_color option"
  st_background :: "ansi_color option"
  st_bold :: bool

definition plain_style :: ansi_style where
  "plain_style = \<lparr>st_foreground = None, st_background = None, st_bold = False\<rparr>"

record ansi_span =
  sp_start :: nat
  sp_end :: nat
  sp_style :: ansi_style

record ansi_document =
  doc_text :: rust_string
  doc_spans :: "ansi_span list"

record ansi_cell =
  cell_ch :: u32
  cell_style :: ansi_style

definition blank_cell :: ansi_cell where
  "blank_cell = \<lparr>cell_ch = 0x20, cell_style = plain_style\<rparr>"

definition set_color :: "nat \<Rightarrow> ansi_color \<Rightarrow> ansi_style \<Rightarrow> ansi_style" where
  "set_color code color style =
     (if code = 38 then style\<lparr>st_foreground := Some color\<rparr> else style\<lparr>st_background := Some color\<rparr>)"

definition color_byte :: "nat \<Rightarrow> u8" where
  "color_byte n = of_nat (min n 255)"

text \<open>The codes other than the extended colours.\<close>

definition sgr_code :: "nat \<Rightarrow> ansi_style \<Rightarrow> ansi_style" where
  "sgr_code code style =
     (if code = 0 then plain_style
      else if code = 1 then style\<lparr>st_bold := True\<rparr>
      else if code = 22 then style\<lparr>st_bold := False\<rparr>
      else if 30 \<le> code \<and> code \<le> 37 then style\<lparr>st_foreground := Some (Standard (of_nat (code - 30)))\<rparr>
      else if code = 39 then style\<lparr>st_foreground := None\<rparr>
      else if 40 \<le> code \<and> code \<le> 47 then style\<lparr>st_background := Some (Standard (of_nat (code - 40)))\<rparr>
      else if code = 49 then style\<lparr>st_background := None\<rparr>
      else if 90 \<le> code \<and> code \<le> 97 then style\<lparr>st_foreground := Some (Bright (of_nat (code - 90)))\<rparr>
      else if 100 \<le> code \<and> code \<le> 107 then style\<lparr>st_background := Some (Bright (of_nat (code - 100)))\<rparr>
      else style)"

fun apply_sgr :: "nat list \<Rightarrow> ansi_style \<Rightarrow> ansi_style" where
  "apply_sgr [] style = style"
| "apply_sgr (code # rest) style =
     (if code = 38 \<or> code = 48 then
        (case rest of
           mode # a # rest1 \<Rightarrow>
             if mode = 5 then apply_sgr rest1 (set_color code (Indexed (color_byte a)) style)
             else if mode = 2 then
               (case rest1 of
                  b # c # rest2 \<Rightarrow> apply_sgr rest2 (set_color code (Rgb (color_byte a) (color_byte b) (color_byte c)) style)
                | _ \<Rightarrow> apply_sgr rest style)
             else apply_sgr rest style
         | _ \<Rightarrow> apply_sgr rest style)
      else apply_sgr rest (sgr_code code style))"

section \<open>ANSI layout\<close>

record ansi_state =
  an_canvas :: "ansi_cell list list"
  an_style :: ansi_style
  an_row :: nat
  an_column :: nat

definition ensure_row :: "nat \<Rightarrow> ansi_state \<Rightarrow> ansi_state" where
  "ensure_row max_rows st =
     (if an_row st < max_rows \<and> length (an_canvas st) \<le> an_row st
      then st\<lparr>an_canvas := an_canvas st @ replicate (an_row st + 1 - length (an_canvas st)) []\<rparr> else st)"

fun skip_control_string :: "bool \<Rightarrow> rust_string \<Rightarrow> rust_string" where
  "skip_control_string bel_terminates [] = []"
| "skip_control_string bel_terminates (c # s) =
     (if bel_terminates \<and> c = 0x07 then s
      else if c = 0x1b \<and> take 1 s = [0x5C] then drop 1 s
      else skip_control_string bel_terminates s)"

text \<open>\<open>part.parse::<usize>().unwrap_or(0)\<close>.\<close>

definition parse_usize_or_0 :: "rust_string \<Rightarrow> nat" where
  "parse_usize_or_0 s =
     (let digits = (if take 1 s = [0x2B] then tl s else s) in
      if digits \<noteq> [] \<and> list_all is_digit digits \<and> digits_value digits < 2 ^ 64 then nat (digits_value digits) else 0)"

definition csi_numbers :: "rust_string \<Rightarrow> nat list" where
  "csi_numbers params = map parse_usize_or_0 (split_on 0x3B (dropWhile (\<lambda>c. c = 0x3F) params))"

definition nth_or :: "nat \<Rightarrow> nat list \<Rightarrow> nat \<Rightarrow> nat" where
  "nth_or i xs d = (if i < length xs then xs ! i else d)"

definition usize_saturating_add :: "nat \<Rightarrow> nat \<Rightarrow> nat" where
  "usize_saturating_add a b = min (a + b) (2 ^ 64 - 1)"

text \<open>Erasing in a line (\<open>K\<close>).\<close>

definition erase_in_line :: "nat \<Rightarrow> nat \<Rightarrow> ansi_cell list \<Rightarrow> ansi_cell list" where
  "erase_in_line first column line =
     (if first = 1 then replicate (min (column + 1) (length line)) blank_cell @ drop (column + 1) line
      else if first = 2 then []
      else take column line)"

definition csi_command :: "nat \<Rightarrow> nat list \<Rightarrow> u32 \<Rightarrow> ansi_state \<Rightarrow> ansi_state" where
  "csi_command max_rows numbers command st =
     (let first = nth_or 0 numbers 0 in
      if command = 0x48 \<or> command = 0x66 then
        st\<lparr>an_row := max (nth_or 0 numbers 1) 1 - 1, an_column := max (nth_or 1 numbers 1) 1 - 1\<rparr>
      else if command = 0x41 then st\<lparr>an_row := an_row st - max first 1\<rparr>
      else if command = 0x42 then st\<lparr>an_row := usize_saturating_add (an_row st) (max first 1)\<rparr>
      else if command = 0x43 then st\<lparr>an_column := usize_saturating_add (an_column st) (max first 1)\<rparr>
      else if command = 0x44 then st\<lparr>an_column := an_column st - max first 1\<rparr>
      else if command = 0x47 then st\<lparr>an_column := max first 1 - 1\<rparr>
      else if command = 0x4A \<and> (first = 2 \<or> first = 3) then st\<lparr>an_canvas := [[]], an_row := 0, an_column := 0\<rparr>
      else if command = 0x4B then
        (let st = ensure_row max_rows st in
         if an_row st < length (an_canvas st)
         then st\<lparr>an_canvas := (an_canvas st)[an_row st := erase_in_line first (an_column st) (an_canvas st ! an_row st)]\<rparr>
         else st)
      else if command = 0x6D then st\<lparr>an_style := apply_sgr numbers (an_style st)\<rparr>
      else st)"

definition clamp_cursor :: "nat \<Rightarrow> nat \<Rightarrow> ansi_state \<Rightarrow> ansi_state" where
  "clamp_cursor max_columns max_rows st =
     st\<lparr>an_row := min (an_row st) (max_rows - 1), an_column := min (an_column st) (max_columns - 1)\<rparr>"

definition put_cell :: "nat \<Rightarrow> ansi_cell \<Rightarrow> ansi_cell list \<Rightarrow> ansi_cell list" where
  "put_cell column cell line = (line @ replicate (column + 1 - length line) blank_cell)[column := cell]"

definition put_char :: "nat \<Rightarrow> nat \<Rightarrow> u32 \<Rightarrow> ansi_state \<Rightarrow> ansi_state" where
  "put_char max_columns max_rows ch st =
     (if an_column st < max_columns then
        (let st = ensure_row max_rows st;
             st = (if an_row st < length (an_canvas st)
               then st\<lparr>an_canvas := (an_canvas st)[an_row st :=
                      put_cell (an_column st) \<lparr>cell_ch = ch, cell_style = an_style st\<rparr> (an_canvas st ! an_row st)]\<rparr>
               else st) in
         st\<lparr>an_column := an_column st + 1\<rparr>)
      else st)"

text \<open>\<open>char::is_control\<close>: the category \<open>Cc\<close>.\<close>

definition is_control :: "u32 \<Rightarrow> bool" where
  "is_control c \<longleftrightarrow> c < 0x20 \<or> (0x7F \<le> c \<and> c \<le> 0x9F)"

definition csi_final :: "u32 \<Rightarrow> bool" where
  "csi_final c \<longleftrightarrow> 0x40 \<le> c \<and> c \<le> 0x7e"

text \<open>The characters after an escape: the rest of the text and the new state, or the end of the loop.\<close>

definition ansi_escape :: "nat \<Rightarrow> nat \<Rightarrow> rust_string \<Rightarrow> ansi_state \<Rightarrow> (rust_string \<times> ansi_state) option" where
  "ansi_escape max_columns max_rows s st =
     (case s of
        [] \<Rightarrow> None
      | family # s \<Rightarrow>
          if family = 0x5B then
            (case dropWhile (\<lambda>c. \<not> csi_final c) s of
               [] \<Rightarrow> None
             | command # s' \<Rightarrow>
                 Some (s', clamp_cursor max_columns max_rows
                   (csi_command max_rows (csi_numbers (takeWhile (\<lambda>c. \<not> csi_final c) s)) command st)))
          else if family = 0x5D then Some (skip_control_string True s, st)
          else if family \<in> {0x50, 0x58, 0x5E, 0x5F} then Some (skip_control_string False s, st)
          else Some (s, st))"

definition ansi_char :: "nat \<Rightarrow> nat \<Rightarrow> u32 \<Rightarrow> ansi_state \<Rightarrow> ansi_state" where
  "ansi_char max_columns max_rows ch st =
     (if ch = 0x0D then st\<lparr>an_column := 0\<rparr>
      else if ch = 0x0A then ensure_row max_rows (st\<lparr>an_row := an_row st + 1, an_column := 0\<rparr>)
      else if ch = 0x09 then st\<lparr>an_column := (an_column st div 8 + 1) * 8\<rparr>
      else if is_control ch then st
      else put_char max_columns max_rows ch st)"

lemma length_skip: "length (skip_control_string bel s) \<le> length s"
  by (induction bel s rule: skip_control_string.induct) auto

lemma ansi_escape_shorter: "ansi_escape max_columns max_rows s st = Some (s', st') \<Longrightarrow> length s' < length s"
  using length_dropWhile_le [of "\<lambda>c. \<not> csi_final c" "tl s"] length_skip [of True "tl s"] length_skip [of False "tl s"]
  by (cases s) (auto simp: ansi_escape_def split: list.splits if_splits)

function ansi_loop :: "nat \<Rightarrow> nat \<Rightarrow> rust_string \<Rightarrow> ansi_state \<Rightarrow> ansi_state" where
  "ansi_loop max_columns max_rows [] st = st"
| "ansi_loop max_columns max_rows (ch # s) st =
     (if \<not> an_row st < max_rows then st
      else if ch = 0x1b then
        (case ansi_escape max_columns max_rows s st of
           None \<Rightarrow> st
         | Some (s', st') \<Rightarrow> ansi_loop max_columns max_rows s' st')
      else ansi_loop max_columns max_rows s (ansi_char max_columns max_rows ch st))"
  by pat_completeness auto
termination
  by (relation "measure (\<lambda>(max_columns, max_rows, s, st). length s)") (auto dest: ansi_escape_shorter)

section \<open>ANSI documents\<close>

definition len_utf8 :: "u32 \<Rightarrow> nat" where
  "len_utf8 c = (if c < 0x80 then 1 else if c < 0x800 then 2 else if c < 0x10000 then 3 else 4)"

definition utf8_length :: "rust_string \<Rightarrow> nat" where
  "utf8_length s = sum_list (map len_utf8 s)"

definition push_cell :: "ansi_cell \<Rightarrow> ansi_document \<Rightarrow> ansi_document" where
  "push_cell cell doc =
     (let start = utf8_length (doc_text doc); stop = start + len_utf8 (cell_ch cell); spans = doc_spans doc;
          doc = doc\<lparr>doc_text := doc_text doc @ [cell_ch cell]\<rparr> in
      if cell_style cell = plain_style then doc
      else if spans \<noteq> [] \<and> sp_end (last spans) = start \<and> sp_style (last spans) = cell_style cell
      then doc\<lparr>doc_spans := butlast spans @ [(last spans)\<lparr>sp_end := stop\<rparr>]\<rparr>
      else doc\<lparr>doc_spans := spans @ [\<lparr>sp_start = start, sp_end = stop, sp_style = cell_style cell\<rparr>]\<rparr>)"

definition trim_end_by :: "('a \<Rightarrow> bool) \<Rightarrow> 'a list \<Rightarrow> 'a list" where
  "trim_end_by P xs = rev (dropWhile P (rev xs))"

definition push_line :: "ansi_cell list \<Rightarrow> ansi_document \<Rightarrow> ansi_document" where
  "push_line line doc = fold push_cell (trim_end_by (\<lambda>c. c = blank_cell) line) doc"

fun push_lines :: "bool \<Rightarrow> ansi_cell list list \<Rightarrow> ansi_document \<Rightarrow> ansi_document" where
  "push_lines first [] doc = doc"
| "push_lines first (line # lines) doc =
     push_lines False lines (push_line line (if first then doc else doc\<lparr>doc_text := doc_text doc @ [0x0A]\<rparr>))"

definition render_ansi :: "rust_string \<Rightarrow> nat \<Rightarrow> nat \<Rightarrow> ansi_document" where
  "render_ansi text max_columns max_rows =
     (if 0x1b \<notin> set text then \<lparr>doc_text = text, doc_spans = []\<rparr>
      else
      let max_columns = max max_columns 1; max_rows = max max_rows 1;
          st = ansi_loop max_columns max_rows text \<lparr>an_canvas = [[]], an_style = plain_style, an_row = 0, an_column = 0\<rparr>;
          canvas = trim_end_by (\<lambda>line. list_all (\<lambda>cell. cell = blank_cell) line) (an_canvas st) in
      push_lines True canvas \<lparr>doc_text = [], doc_spans = []\<rparr>)"

definition render_ansi_plain :: "rust_string \<Rightarrow> nat \<Rightarrow> nat \<Rightarrow> rust_string" where
  "render_ansi_plain text max_columns max_rows = doc_text (render_ansi text max_columns max_rows)"

end
