(* ===== verification/TextEncodingProps.thy ===== *)
theory TextEncodingProps
  imports TextEncoding
begin

text \<open>
  What \<open>text_encoding.rs\<close> promises: text that was encoded is decoded again, and a rendered ANSI file is
  harmless, fits its screen and has the styles its escape sequences ask for.
\<close>

section \<open>Encoding\<close>

definition scalar_value :: "u32 \<Rightarrow> bool" where
  "scalar_value c \<longleftrightarrow> c \<le> 0x10FFFF \<and> \<not> (0xD800 \<le> c \<and> c \<le> 0xDFFF)"

definition utf16_char :: "u32 \<Rightarrow> u16 list" where
  "utf16_char c = (let n = unat c in map of_nat (
     if n < 0x10000 then [n] else [0xD800 + (n - 0x10000) div 1024, 0xDC00 + (n - 0x10000) mod 1024]))"

definition unit_bytes :: "bool \<Rightarrow> u16 \<Rightarrow> u8 list" where
  "unit_bytes little_endian u = (if little_endian then le_bytes 2 u else rev (le_bytes 2 u))"

definition utf16_encode :: "bool \<Rightarrow> rust_string \<Rightarrow> u8 list" where
  "utf16_encode little_endian s = concat (map (unit_bytes little_endian) (concat (map utf16_char s)))"

section \<open>Bits\<close>

lemma or_low_bits:
  fixes h l :: "'a::len word"
  assumes "l = take_bit k l"
  shows "push_bit k h OR l = push_bit k h + l"
proof -
  have "push_bit k h AND l = 0" by (subst assms) (rule bit_word_eqI, auto simp: bit_simps)
  then show ?thesis by (simp add: disjunctive_add_eq_or)
qed

lemma take_bit_mod: "take_bit k (of_nat n :: 'a::len word) = of_nat (n mod 2 ^ k)"
  by (simp only: take_bit_of_nat take_bit_eq_mod [of k n])

lemma mask_of_nat: "(of_nat n :: 'a::len word) AND mask k = of_nat (n mod 2 ^ k)"
  by (simp only: take_bit_eq_mask [symmetric] take_bit_mod)

lemma ucast_of_byte: "n < 256 \<Longrightarrow> (ucast (of_nat n :: u8) :: u32) = of_nat n"
  by (simp add: unsigned_of_nat take_bit_nat_eq_self)

lemma low_bits: "n < 2 ^ k \<Longrightarrow> (of_nat n :: 'a::len word) = take_bit k (of_nat n)"
  by (simp only: take_bit_mod mod_less)

lemma tail_bits_of_nat: "n < 64 \<Longrightarrow> tail_bits (of_nat (0x80 + n)) = of_nat n"
  unfolding tail_bits_def using mask_of_nat [of "0x80 + n" 6, where 'a=32]
  by (subst ucast_of_byte) (simp_all add: mask_numeral mod_add_eq [symmetric])

lemma unat_byte: "n < 256 \<Longrightarrow> unat (of_nat n :: u8) = n"
  by (simp add: unat_of_nat)

lemma byte_num:
  assumes "n < 256" "numeral k < (256 :: nat)"
  shows "(of_nat n :: u8) < numeral k \<longleftrightarrow> n < numeral k" "(of_nat n :: u8) \<le> numeral k \<longleftrightarrow> n \<le> numeral k"
    "numeral k \<le> (of_nat n :: u8) \<longleftrightarrow> numeral k \<le> n" "(of_nat n :: u8) = numeral k \<longleftrightarrow> n = numeral k"
  using unat_byte [OF assms(1)] unat_byte [OF assms(2)]
  by (simp_all add: word_le_nat_alt word_less_nat_alt word_unat_eq_iff)

lemma continuation_of_nat: "n < 64 \<Longrightarrow> is_continuation (of_nat (0x80 + n))"
  by (simp only: is_continuation_def byte_num) (simp add: byte_num del: of_nat_add)

lemma lead_bits: "n < 2 ^ k \<Longrightarrow> n + 2 ^ k * m < 256 \<Longrightarrow> (ucast (of_nat (2 ^ k * m + n) :: u8) :: u32) AND mask k = of_nat n"
  by (subst ucast_of_byte) (simp_all only: mask_of_nat add.commute mod_mult_self2 mod_less)

lemma or_of_nat: "l < 2 ^ k \<Longrightarrow> push_bit k (of_nat h :: 'a::len word) OR of_nat l = of_nat (h * 2 ^ k + l)"
  by (subst or_low_bits) (rule low_bits, assumption, simp add: push_bit_eq_mult)

lemma div_mod_join: "(n :: nat) div a * a + n mod a = n"
  by simp

lemma power_numeral_eqs: "(2 :: nat) ^ 6 = 64" "(2 :: nat) ^ 12 = 4096" "(2 :: nat) ^ 18 = 262144"
  by simp_all

lemma mod_parts: "(n :: nat) div 64 mod 64 * 64 + n mod 64 = n mod 4096" "n div 4096 mod 64 * 4096 + n mod 4096 = n mod 262144"
  using mod_mult2_eq [of n 64 64] mod_mult2_eq [of n 4096 64] by simp_all

lemma quotient: "(m :: nat) = 64 * (m div 64) + m mod 64" "m mod 64 < 64"
  by simp_all

lemma utf8_two:
  assumes "0x80 \<le> n" "n < 0x800"
  shows "utf8_step (of_nat (0xC0 + n div 64) # of_nat (0x80 + n mod 64) # s) = (Some (of_nat n), 2)"
proof -
  have small: "n div 64 < 32" "2 \<le> n div 64" using assms by auto
  have bits: "(ucast (of_nat (0xC0 + n div 64) :: u8) :: u32) AND 0x1F = of_nat (n div 64)"
    using lead_bits [of "n div 64" 5 6] small by (simp add: mask_numeral)
  have sum: "push_bit 6 (of_nat (n div 64) :: u32) OR of_nat (n mod 64) = of_nat n"
    by (subst or_of_nat) (simp, simp only: div_mod_join power_numeral_eqs)
  show ?thesis using small
    by (simp add: utf8_step_def Let_def byte_num continuation_of_nat tail_bits_of_nat bits sum del: of_nat_add)
qed

lemma utf8_three:
  assumes "0x800 \<le> n" "n < 0x10000" "\<not> (0xD800 \<le> n \<and> n \<le> 0xDFFF)"
  shows "utf8_step (of_nat (0xE0 + n div 4096) # of_nat (0x80 + n div 64 mod 64) # of_nat (0x80 + n mod 64) # s) = (Some (of_nat n), 3)"
proof -
  have small: "n div 4096 < 16" using assms by auto
  have second: "second_ok (of_nat (0xE0 + n div 4096)) (of_nat (0x80 + n div 64 mod 64))"
  proof -
    have quot: "n div 4096 = n div 64 div 64" by (simp add: div_mult2_eq [symmetric])
    have "32 \<le> n div 64" "\<not> (864 \<le> n div 64 \<and> n div 64 \<le> 895)" using assms by auto
    then have "n div 4096 = 0 \<Longrightarrow> 32 \<le> n div 64 mod 64" "n div 4096 = 13 \<Longrightarrow> n div 64 mod 64 < 32"
      unfolding quot using quotient [of "n div 64"] by linarith+
    then show ?thesis using small by (auto simp: second_ok_def byte_num continuation_of_nat simp del: of_nat_add)
  qed
  have bits: "(ucast (of_nat (0xE0 + n div 4096) :: u8) :: u32) AND 0x0F = of_nat (n div 4096)"
    using lead_bits [of "n div 4096" 4 14] small by (simp add: mask_numeral)
  have "push_bit 6 (of_nat (n div 64 mod 64) :: u32) OR of_nat (n mod 64) = of_nat (n mod 4096)"
    by (subst or_of_nat) (simp, simp only: mod_parts power_numeral_eqs)
  then have sum: "push_bit 12 (of_nat (n div 4096) :: u32) OR push_bit 6 (of_nat (n div 64 mod 64)) OR of_nat (n mod 64) = of_nat n"
    by (simp only:) (subst or_of_nat, simp, simp only: div_mod_join power_numeral_eqs)
  show ?thesis using small second
    by (simp add: utf8_step_def Let_def byte_num continuation_of_nat tail_bits_of_nat bits sum del: of_nat_add)
qed

lemma utf8_four:
  assumes "0x10000 \<le> n" "n \<le> 0x10FFFF"
  shows "utf8_step (of_nat (0xF0 + n div 262144) # of_nat (0x80 + n div 4096 mod 64) # of_nat (0x80 + n div 64 mod 64) #
    of_nat (0x80 + n mod 64) # s) = (Some (of_nat n), 4)"
proof -
  have small: "n div 262144 \<le> 4" using assms by auto
  have second: "second_ok (of_nat (0xF0 + n div 262144)) (of_nat (0x80 + n div 4096 mod 64))"
  proof -
    have quot: "n div 262144 = n div 4096 div 64" by (simp add: div_mult2_eq [symmetric])
    have "16 \<le> n div 4096" "n div 4096 \<le> 271" using assms by auto
    then have "n div 262144 = 0 \<Longrightarrow> 16 \<le> n div 4096 mod 64" "n div 262144 = 4 \<Longrightarrow> n div 4096 mod 64 < 16"
      unfolding quot using quotient [of "n div 4096"] by linarith+
    then show ?thesis using small by (auto simp: second_ok_def byte_num continuation_of_nat simp del: of_nat_add)
  qed
  have bits: "(ucast (of_nat (0xF0 + n div 262144) :: u8) :: u32) AND 0x07 = of_nat (n div 262144)"
    using lead_bits [of "n div 262144" 3 30] small by (simp add: mask_numeral)
  have "push_bit 6 (of_nat (n div 64 mod 64) :: u32) OR of_nat (n mod 64) = of_nat (n mod 4096)"
    by (subst or_of_nat) (simp, simp only: mod_parts power_numeral_eqs)
  moreover have "push_bit 12 (of_nat (n div 4096 mod 64) :: u32) OR of_nat (n mod 4096) = of_nat (n mod 262144)"
    by (subst or_of_nat) (simp, simp only: mod_parts power_numeral_eqs)
  ultimately have sum: "push_bit 18 (of_nat (n div 262144) :: u32) OR push_bit 12 (of_nat (n div 4096 mod 64)) OR
      push_bit 6 (of_nat (n div 64 mod 64)) OR of_nat (n mod 64) = of_nat n"
    by (simp only:) (subst or_of_nat, simp, simp only: div_mod_join power_numeral_eqs)
  show ?thesis using small second
    by (simp add: utf8_step_def Let_def byte_num continuation_of_nat tail_bits_of_nat bits sum del: of_nat_add)
qed

lemma utf8_step_char: "scalar_value c \<Longrightarrow> utf8_step (utf8_char c @ s) = (Some c, length (utf8_char c))"
proof -
  assume "scalar_value c"
  then have n: "unat c \<le> 0x10FFFF" "\<not> (0xD800 \<le> unat c \<and> unat c \<le> 0xDFFF)"
    by (auto simp: scalar_value_def word_le_nat_alt)
  have same: "of_nat (unat c) = c" by simp
  consider "unat c < 0x80" | "0x80 \<le> unat c" "unat c < 0x800" | "0x800 \<le> unat c" "unat c < 0x10000" | "0x10000 \<le> unat c"
    by linarith
  then show ?thesis
  proof cases
    case 1
    then have "(of_nat (unat c) :: u8) < 0x80" by (simp only: byte_num)
    from utf8_step_ascii [OF this] have "utf8_step (of_nat (unat c) # s) = (Some (of_nat (unat c)), 1)"
      using 1 by (simp only: ucast_of_byte)
    with 1 same show ?thesis by (simp add: utf8_char_def utf8_codes_def)
  next
    case 2
    then show ?thesis using utf8_two [of "unat c" s] by (simp add: utf8_char_def utf8_codes_def same del: of_nat_add)
  next
    case 3
    then show ?thesis using utf8_three [of "unat c" s] n by (simp add: utf8_char_def utf8_codes_def same del: of_nat_add)
  next
    case 4
    then show ?thesis using utf8_four [of "unat c" s] n by (simp add: utf8_char_def utf8_codes_def same del: of_nat_add)
  qed
qed

lemma utf8_char_nonempty: "utf8_char c \<noteq> []"
  by (simp add: utf8_char_def utf8_codes_def utf8_codes_def)

lemma from_utf8_encode: "list_all scalar_value s \<Longrightarrow> from_utf8 (utf8_encode s) = Some s"
proof (induction s)
  case (Cons c s)
  then show ?case
    by (subst from_utf8.simps) (simp add: utf8_encode_def utf8_step_char utf8_char_nonempty)
qed (simp add: utf8_encode_def from_utf8.simps)

lemma utf8_codes_range:
  assumes "n \<le> 0x10FFFF" "m \<in> set (utf8_codes n)" shows "m < 0xFE" "m = 0 \<longleftrightarrow> n = 0"
proof -
  have tail: "0x80 + k mod 64 < 0xFE" for k :: nat using quotient(2) [of k] by linarith
  have lead: "n < 0x800 \<Longrightarrow> 0xC0 + n div 64 < 0xFE" "n < 0x10000 \<Longrightarrow> 0xE0 + n div 4096 < 0xFE" "0xF0 + n div 262144 < 0xFE"
    using assms(1) by (simp_all add: less_mult_imp_div_less div_less_iff_less_mult)
  from assms(2) show "m < 0xFE"
    unfolding utf8_codes_def by (auto split: if_splits intro: tail lead simp del: add_less_cancel_left)
  from assms(2) show "m = 0 \<longleftrightarrow> n = 0"
    unfolding utf8_codes_def by (auto split: if_splits)
qed

lemma utf8_char_bytes:
  assumes "scalar_value c" "b \<in> set (utf8_char c)" shows "b < 0xFE" "b = 0 \<longleftrightarrow> c = 0"
proof -
  have "unat c \<le> 0x10FFFF" using assms(1) by (simp add: scalar_value_def word_le_nat_alt)
  moreover obtain m where m: "b = of_nat m" "m \<in> set (utf8_codes (unat c))" using assms(2) by (auto simp: utf8_char_def)
  ultimately have range: "m < 0xFE" "m = 0 \<longleftrightarrow> unat c = 0" using utf8_codes_range by blast+
  then show "b < 0xFE" unfolding m(1) by (simp only: byte_num)
  have "b = 0 \<longleftrightarrow> m = 0" using m(1) range(1) unat_byte [of m] by (auto simp: word_unat_eq_iff)
  with range(2) show "b = 0 \<longleftrightarrow> c = 0" by (simp add: unat_eq_zero)
qed

section \<open>UTF-16\<close>

lemma utf16_units_bytes: "utf16_units le (unit_bytes le u @ bs) = u # utf16_units le bs"
proof -
  have two: "le_bytes 2 u = [ucast u, ucast (drop_bit 8 u)]" by (simp add: le_bytes_def upt_rec)
  have "le_word (le_bytes 2 u) = u" by (rule le_word_le_bytes) simp
  then show ?thesis by (simp add: unit_bytes_def two del: le_word.simps)
qed

lemma utf16_units_encode: "utf16_units le (concat (map (unit_bytes le) us)) = us"
  by (induction us) (simp_all add: utf16_units_bytes)

lemma unat_unit: "n < 0x10000 \<Longrightarrow> unat (of_nat n :: u16) = n"
  by (simp add: unat_of_nat)

lemma unit_num:
  assumes "n < 0x10000" "numeral k < (0x10000 :: nat)"
  shows "(of_nat n :: u16) \<le> numeral k \<longleftrightarrow> n \<le> numeral k" "numeral k \<le> (of_nat n :: u16) \<longleftrightarrow> numeral k \<le> n"
  using unat_unit [OF assms(1)] unat_unit [OF assms(2)] by (simp_all add: word_le_nat_alt)

lemma ucast_of_unit: "n < 0x10000 \<Longrightarrow> (ucast (of_nat n :: u16) :: u32) = of_nat n"
  by (simp add: unsigned_of_nat take_bit_nat_eq_self)

lemma from_utf16_char: "scalar_value c \<Longrightarrow> from_utf16 (utf16_char c @ us) = map_option (\<lambda>cs. c # cs) (from_utf16 us)"
proof -
  assume "scalar_value c"
  then have n: "unat c \<le> 0x10FFFF" "\<not> (0xD800 \<le> unat c \<and> unat c \<le> 0xDFFF)"
    by (auto simp: scalar_value_def word_le_nat_alt)
  have same: "of_nat (unat c) = c" by simp
  show ?thesis
  proof (cases "unat c < 0x10000")
    case True
    then have "ucast (of_nat (unat c) :: u16) = c" using ucast_of_unit [OF True] by simp
    moreover have "\<not> is_high_surrogate (of_nat (unat c))" "\<not> is_low_surrogate (of_nat (unat c))"
      using n True unfolding is_high_surrogate_def is_low_surrogate_def by (simp_all only: unit_num) (simp_all, linarith+)
    ultimately show ?thesis using True by (cases us) (simp_all add: utf16_char_def)
  next
    case False
    define h l where "h = (unat c - 0x10000) div 1024" "l = (unat c - 0x10000) mod 1024"
    have hl: "h < 1024" "l < 1024" "h * 1024 + l + 0x10000 = unat c" using n(1) False by (auto simp: h_l_def)
    have "is_high_surrogate (of_nat (0xD800 + h))" "\<not> is_high_surrogate (of_nat (0xDC00 + l))" "is_low_surrogate (of_nat (0xDC00 + l))"
      using hl unfolding is_high_surrogate_def is_low_surrogate_def by (simp_all only: unit_num) simp_all
    moreover have "(of_nat (0xD800 + h) :: u16) AND 0x3FF = of_nat h" "(of_nat (0xDC00 + l) :: u16) AND 0x3FF = of_nat l"
      using mask_of_nat [of "0xD800 + h" 10, where 'a=16] mask_of_nat [of "0xDC00 + l" 10, where 'a=16] hl
      by (simp_all add: mask_numeral mod_add_eq [symmetric])
    moreover have "(push_bit 10 (of_nat h) OR of_nat l) + 0x10000 = c"
    proof -
      have "push_bit 10 (of_nat h) OR of_nat l = (of_nat (h * 2 ^ 10 + l) :: u32)" by (rule or_of_nat) (use hl in simp)
      moreover have "of_nat (h * 2 ^ 10 + l) + 0x10000 = (of_nat (unat c) :: u32)" unfolding hl(3) [symmetric] by simp
      ultimately show ?thesis using same by simp
    qed
    ultimately show ?thesis using False hl by (simp add: utf16_char_def h_l_def [symmetric] ucast_of_unit del: of_nat_add)
  qed
qed

lemma from_utf16_encode: "list_all scalar_value s \<Longrightarrow> from_utf16 (concat (map utf16_char s)) = Some s"
  by (induction s) (auto simp: from_utf16_char)

section \<open>Decoding what was encoded\<close>

lemma utf8_encode_bytes:
  assumes "list_all scalar_value s" "0 \<notin> set s" "b \<in> set (utf8_encode s)" shows "b \<noteq> 0" "b \<noteq> 0xFF" "b \<noteq> 0xFE"
proof -
  from assms obtain c where c: "c \<in> set s" "scalar_value c" "b \<in> set (utf8_char c)" by (auto simp: utf8_encode_def list_all_iff)
  have "b < 0xFE" using c(2,3) by (rule utf8_char_bytes)
  then show "b \<noteq> 0xFF" "b \<noteq> 0xFE" by auto
  have "b = 0 \<longleftrightarrow> c = 0" using c(2,3) by (rule utf8_char_bytes)
  with c(1) assms(2) show "b \<noteq> 0" by metis
qed

lemma bom_step: "utf8_step (0xEF # 0xBB # 0xBF # r) = (Some 0xFEFF, 3)"
  by (simp add: utf8_step_def second_ok_def is_continuation_def tail_bits_def)

lemma utf8_encode_bom:
  assumes "list_all scalar_value s" "take 3 (utf8_encode s) = [0xEF, 0xBB, 0xBF]" shows "take 1 s = [0xFEFF]"
proof -
  obtain r where r: "utf8_encode s = 0xEF # 0xBB # 0xBF # r"
    using append_take_drop_id [of 3 "utf8_encode s"] assms(2) by (metis append_Cons append_Nil)
  have "from_utf8 (0xEF # 0xBB # 0xBF # r) = map_option (\<lambda>cs. 0xFEFF # cs) (from_utf8 r)"
    by (subst from_utf8.simps) (simp add: bom_step)
  with from_utf8_encode [OF assms(1)] r show ?thesis by auto
qed

lemma decode_utf8:
  assumes "list_all scalar_value s" "0 \<notin> set s"
  shows "decode_text ([0xEF, 0xBB, 0xBF] @ utf8_encode s) = Some \<lparr>dt_text = s, dt_encoding = EncUtf8\<rparr>"
    and "take 1 s \<noteq> [0xFEFF] \<Longrightarrow> decode_text (utf8_encode s) = Some \<lparr>dt_text = s, dt_encoding = EncUtf8\<rparr>"
proof -
  note bytes = utf8_encode_bytes [OF assms]
  show "decode_text ([0xEF, 0xBB, 0xBF] @ utf8_encode s) = Some \<lparr>dt_text = s, dt_encoding = EncUtf8\<rparr>"
    using bytes(1) by (auto simp: decode_text_def from_utf8_encode [OF assms(1)])
  have head: "take 2 (utf8_encode s) \<noteq> a # t" if "a = 0xFF \<or> a = 0xFE" for a t
    using bytes(2,3) that by (cases "utf8_encode s") auto
  show "decode_text (utf8_encode s) = Some \<lparr>dt_text = s, dt_encoding = EncUtf8\<rparr>" if "take 1 s \<noteq> [0xFEFF]"
  proof (cases "utf8_encode s = []")
    case True
    with from_utf8_encode [OF assms(1)] show ?thesis by (simp add: decode_text_def from_utf8.simps)
  next
    case False
    with utf8_encode_bom [OF assms(1)] that have "take 3 (utf8_encode s) \<noteq> [0xEF, 0xBB, 0xBF]" by blast
    moreover have "0 \<notin> set (utf8_encode s)" using bytes(1) by blast
    ultimately show ?thesis using False head by (simp add: decode_text_def from_utf8_encode [OF assms(1)])
  qed
qed

lemma decode_utf16_encode:
  "list_all scalar_value s \<Longrightarrow> decode_utf16 (utf16_encode le s) le = Some \<lparr>dt_text = s, dt_encoding = (if le then EncUtf16Le else EncUtf16Be)\<rparr>"
  by (simp add: decode_utf16_def utf16_encode_def utf16_units_encode from_utf16_encode)

lemma decode_text_marked:
  "decode_text (0xFF # 0xFE # bs) = decode_utf16 bs True" "decode_text (0xFE # 0xFF # bs) = decode_utf16 bs False"
  by (simp_all add: decode_text_def)

text \<open>A text file written in UTF-16 with a byte-order mark is read back as it was written, in either byte
  order, and one without a NUL that is written in UTF-8 as well, with the mark or without it.\<close>

theorem decode_text_round_trip:
  assumes "list_all scalar_value s"
  shows "decode_text ([0xFF, 0xFE] @ utf16_encode True s) = Some \<lparr>dt_text = s, dt_encoding = EncUtf16Le\<rparr> \<and>
    decode_text ([0xFE, 0xFF] @ utf16_encode False s) = Some \<lparr>dt_text = s, dt_encoding = EncUtf16Be\<rparr> \<and>
    (0 \<notin> set s \<longrightarrow> decode_text ([0xEF, 0xBB, 0xBF] @ utf8_encode s) = Some \<lparr>dt_text = s, dt_encoding = EncUtf8\<rparr>) \<and>
    (0 \<notin> set s \<and> take 1 s \<noteq> [0xFEFF] \<longrightarrow> decode_text (utf8_encode s) = Some \<lparr>dt_text = s, dt_encoding = EncUtf8\<rparr>)"
proof (intro conjI impI)
  show "decode_text ([0xFF, 0xFE] @ utf16_encode True s) = Some \<lparr>dt_text = s, dt_encoding = EncUtf16Le\<rparr>"
    by (simp add: decode_text_marked decode_utf16_encode [OF assms])
  show "decode_text ([0xFE, 0xFF] @ utf16_encode False s) = Some \<lparr>dt_text = s, dt_encoding = EncUtf16Be\<rparr>"
    by (simp add: decode_text_marked decode_utf16_encode [OF assms])
qed (use decode_utf8 [OF assms] in blast)+

theorem decode_text_round_trip_witness:
  "decode_text [0x48, 0xC3, 0xA9, 0xE2, 0x82, 0xAC, 0xF0, 0x9F, 0x98, 0x80] =
     Some \<lparr>dt_text = [0x48, 0xE9, 0x20AC, 0x1F600], dt_encoding = EncUtf8\<rparr>"
  using decode_text_round_trip [of "[0x48, 0xE9, 0x20AC, 0x1F600]"] by (simp add: scalar_value_def utf8_encode_def utf8_char_def utf8_codes_def)

section \<open>The canvas\<close>

definition plain_char :: "u32 \<Rightarrow> bool" where
  "plain_char c \<longleftrightarrow> \<not> is_control c"

definition line_ok :: "nat \<Rightarrow> ansi_cell list \<Rightarrow> bool" where
  "line_ok max_columns line \<longleftrightarrow> length line \<le> max_columns \<and> (\<forall>cell\<in>set line. plain_char (cell_ch cell))"

definition canvas_ok :: "nat \<Rightarrow> nat \<Rightarrow> ansi_cell list list \<Rightarrow> bool" where
  "canvas_ok max_columns max_rows canvas \<longleftrightarrow> length canvas \<le> max_rows \<and> (\<forall>line\<in>set canvas. line_ok max_columns line)"

lemma blank_plain: "plain_char (cell_ch blank_cell)" "plain_char 0x20"
  by (simp_all add: plain_char_def is_control_def blank_cell_def)

lemma line_ok_empty: "line_ok max_columns []"
  by (simp add: line_ok_def)

lemma line_ok_erase: "line_ok max_columns line \<Longrightarrow> line_ok max_columns (erase_in_line first column line)"
  by (auto simp: line_ok_def erase_in_line_def blank_plain dest: in_set_takeD in_set_dropD)

lemma line_ok_put:
  assumes "line_ok max_columns line" "column < max_columns" "plain_char (cell_ch cell)"
  shows "line_ok max_columns (put_cell column cell line)"
  using assms set_update_subset_insert [of "line @ replicate (column + 1 - length line) blank_cell" column cell]
  by (auto simp: line_ok_def put_cell_def blank_plain)

lemma canvas_ok_update:
  "canvas_ok max_columns max_rows canvas \<Longrightarrow> line_ok max_columns line \<Longrightarrow> canvas_ok max_columns max_rows (canvas[row := line])"
  using set_update_subset_insert [of canvas row line] by (auto simp: canvas_ok_def)

lemma canvas_ok_nth: "canvas_ok max_columns max_rows canvas \<Longrightarrow> row < length canvas \<Longrightarrow> line_ok max_columns (canvas ! row)"
  by (simp add: canvas_ok_def)

lemma canvas_ok_ensure:
  "canvas_ok max_columns max_rows (an_canvas st) \<Longrightarrow> canvas_ok max_columns max_rows (an_canvas (ensure_row max_rows st))"
  by (auto simp: canvas_ok_def ensure_row_def line_ok_empty)

lemma ensure_row_fields [simp]:
  "an_row (ensure_row max_rows st) = an_row st" "an_column (ensure_row max_rows st) = an_column st"
  "an_style (ensure_row max_rows st) = an_style st"
  by (simp_all add: ensure_row_def)

lemma canvas_ok_csi:
  assumes "0 < max_rows" "canvas_ok max_columns max_rows (an_canvas st)"
  shows "canvas_ok max_columns max_rows (an_canvas (csi_command max_rows numbers command st))"
proof -
  have "canvas_ok max_columns max_rows [[]]" using assms(1) by (simp add: canvas_ok_def line_ok_empty)
  with canvas_ok_ensure [OF assms(2)] show ?thesis
    using assms(2) by (auto simp: csi_command_def Let_def intro!: canvas_ok_update line_ok_erase canvas_ok_nth)
qed

lemma canvas_ok_clamp: "an_canvas (clamp_cursor max_columns max_rows st) = an_canvas st"
  by (simp add: clamp_cursor_def)

lemma canvas_ok_escape:
  assumes "0 < max_rows" "canvas_ok max_columns max_rows (an_canvas st)" "ansi_escape max_columns max_rows s st = Some (s', st')"
  shows "canvas_ok max_columns max_rows (an_canvas st')"
  using assms canvas_ok_csi [OF assms(1,2)]
  by (auto simp: ansi_escape_def canvas_ok_clamp split: list.splits if_splits)

lemma canvas_ok_char:
  assumes "canvas_ok max_columns max_rows (an_canvas st)"
  shows "canvas_ok max_columns max_rows (an_canvas (ansi_char max_columns max_rows ch st))"
proof -
  have "canvas_ok max_columns max_rows (an_canvas (put_char max_columns max_rows ch st))" if "\<not> is_control ch"
    using canvas_ok_ensure [OF assms] assms that
    by (auto simp: put_char_def Let_def plain_char_def intro!: canvas_ok_update line_ok_put canvas_ok_nth)
  then show ?thesis using assms by (auto simp: ansi_char_def intro: canvas_ok_ensure)
qed

lemma canvas_ok_loop:
  "0 < max_rows \<Longrightarrow> canvas_ok max_columns max_rows (an_canvas st) \<Longrightarrow> canvas_ok max_columns max_rows (an_canvas (ansi_loop max_columns max_rows s st))"
proof (induction max_columns max_rows s st rule: ansi_loop.induct)
  case (2 max_columns max_rows ch s st)
  show ?case
  proof (cases "an_row st < max_rows \<and> ch = 0x1b")
    case True
    then show ?thesis using 2(1) 2(3,4) canvas_ok_escape [OF 2(3,4)] by (auto split: option.split)
  qed (use 2(2-4) canvas_ok_char in auto)
qed simp

section \<open>The document of a canvas\<close>

text \<open>The cells of a document, in order; line feeds are plain.\<close>

definition feed_cell :: ansi_cell where
  "feed_cell = \<lparr>cell_ch = 0x0A, cell_style = plain_style\<rparr>"

definition canvas_cells :: "ansi_cell list list \<Rightarrow> ansi_cell list" where
  "canvas_cells canvas = join_with feed_cell canvas"

text \<open>The style of the character at a byte char_offset.\<close>

definition style_at :: "ansi_span list \<Rightarrow> nat \<Rightarrow> ansi_style" where
  "style_at spans at = (case find (\<lambda>sp. sp_start sp \<le> at \<and> at < sp_end sp) spans of Some sp \<Rightarrow> sp_style sp | None \<Rightarrow> plain_style)"

definition char_offset :: "rust_string \<Rightarrow> nat \<Rightarrow> nat" where
  "char_offset text i = utf8_length (take i text)"

text \<open>Spans in order, without empty ones, and disjoint.\<close>

fun spans_ordered :: "nat \<Rightarrow> ansi_span list \<Rightarrow> nat \<Rightarrow> bool" where
  "spans_ordered a [] b \<longleftrightarrow> a \<le> b"
| "spans_ordered a (sp # spans) b \<longleftrightarrow> a \<le> sp_start sp \<and> sp_start sp < sp_end sp \<and> sp_style sp \<noteq> plain_style \<and> spans_ordered (sp_end sp) spans b"

definition styled :: "ansi_cell list \<Rightarrow> ansi_document \<Rightarrow> bool" where
  "styled cells doc \<longleftrightarrow> doc_text doc = map cell_ch cells \<and> spans_ordered 0 (doc_spans doc) (utf8_length (doc_text doc)) \<and>
     (\<forall>i<length cells. style_at (doc_spans doc) (char_offset (doc_text doc) i) = cell_style (cells ! i))"

lemma len_utf8_pos: "0 < len_utf8 c"
  by (simp add: len_utf8_def)

lemma utf8_length_simps [simp]:
  "utf8_length [] = 0" "utf8_length (c # s) = len_utf8 c + utf8_length s" "utf8_length (s @ t) = utf8_length s + utf8_length t"
  by (simp_all add: utf8_length_def)

lemma offset_less: "i < length s \<Longrightarrow> char_offset s i < utf8_length s"
proof -
  assume "i < length s"
  then have "utf8_length s = char_offset s i + (len_utf8 (s ! i) + utf8_length (drop (Suc i) s))"
    using id_take_nth_drop [of i s] unfolding char_offset_def by (metis utf8_length_simps(2,3))
  with len_utf8_pos [of "s ! i"] show ?thesis by simp
qed

lemma offset_append: "i \<le> length s \<Longrightarrow> char_offset (s @ t) i = char_offset s i" "char_offset (s @ t) (length s) = utf8_length s"
  by (simp_all add: char_offset_def)

lemma spans_ordered_append:
  "spans_ordered a (spans @ [sp]) b \<longleftrightarrow> spans_ordered a spans (sp_start sp) \<and> sp_start sp < sp_end sp \<and> sp_style sp \<noteq> plain_style \<and> sp_end sp \<le> b"
  by (induction a spans b rule: spans_ordered.induct) auto

lemma spans_ordered_mono: "spans_ordered a spans b \<Longrightarrow> b \<le> b' \<Longrightarrow> spans_ordered a spans b'"
  by (induction a spans b rule: spans_ordered.induct) auto

lemma spans_ordered_le: "spans_ordered a spans b \<Longrightarrow> a \<le> b"
  by (induction a spans b rule: spans_ordered.induct) auto

lemma spans_ordered_ends: "spans_ordered a spans b \<Longrightarrow> sp \<in> set spans \<Longrightarrow> a \<le> sp_start sp \<and> sp_end sp \<le> b"
proof (induction a spans b rule: spans_ordered.induct)
  case (2 a s spans b)
  with spans_ordered_le [of "sp_end s" spans b] show ?case by fastforce
qed simp

text \<open>Looking past the last span, and inside it.\<close>

lemma style_at_append:
  "style_at (spans @ [sp]) at = (if \<exists>p\<in>set spans. sp_start p \<le> at \<and> at < sp_end p then style_at spans at
     else if sp_start sp \<le> at \<and> at < sp_end sp then sp_style sp else plain_style)"
  by (induction spans) (auto simp: style_at_def split: option.split)

lemma style_at_none: "\<forall>p\<in>set spans. \<not> (sp_start p \<le> at \<and> at < sp_end p) \<Longrightarrow> style_at spans at = plain_style"
  by (induction spans) (auto simp: style_at_def)

lemma styledD:
  assumes "styled cells doc"
  shows "doc_text doc = map cell_ch cells" "spans_ordered 0 (doc_spans doc) (utf8_length (doc_text doc))"
    "\<And>i. i < length cells \<Longrightarrow> style_at (doc_spans doc) (char_offset (doc_text doc) i) = cell_style (cells ! i)"
  using assms unfolding styled_def by blast+

lemma styled_extend:
  assumes "styled cells doc" and "doc_text doc' = doc_text doc @ [cell_ch cell]"
    and "spans_ordered 0 (doc_spans doc') (utf8_length (doc_text doc) + len_utf8 (cell_ch cell))"
    and "\<And>at. at < utf8_length (doc_text doc) \<Longrightarrow> style_at (doc_spans doc') at = style_at (doc_spans doc) at"
    and "style_at (doc_spans doc') (utf8_length (doc_text doc)) = cell_style cell"
  shows "styled (cells @ [cell]) doc'"
proof -
  have len: "length (doc_text doc) = length cells" using assms(1) by (simp add: styled_def)
  have "style_at (doc_spans doc') (char_offset (doc_text doc') i) = cell_style ((cells @ [cell]) ! i)" if "i < length (cells @ [cell])" for i
  proof (cases "i < length cells")
    case True
    with assms(2,4) len offset_less [of i "doc_text doc"] styledD(3) [OF assms(1)] show ?thesis
      by (simp add: offset_append nth_append)
  next
    case False
    with that have "i = length (doc_text doc)" using len by simp
    moreover from this have "char_offset (doc_text doc') i = utf8_length (doc_text doc)" by (simp add: assms(2) offset_append)
    ultimately show ?thesis using assms(5) len by simp
  qed
  with assms(1-3) show ?thesis by (simp add: styled_def)
qed

lemma styled_plain:
  assumes "styled cells doc" "doc_text doc' = doc_text doc @ [cell_ch cell]" "doc_spans doc' = doc_spans doc" "cell_style cell = plain_style"
  shows "styled (cells @ [cell]) doc'"
proof (rule styled_extend [OF assms(1,2)])
  have ordered: "spans_ordered 0 (doc_spans doc) (utf8_length (doc_text doc))" using assms(1) by (rule styledD)
  then show "spans_ordered 0 (doc_spans doc') (utf8_length (doc_text doc) + len_utf8 (cell_ch cell))"
    unfolding assms(3) by (rule spans_ordered_mono) simp
  show "style_at (doc_spans doc') (utf8_length (doc_text doc)) = cell_style cell"
    unfolding assms(3,4) using spans_ordered_ends [OF ordered] by (intro style_at_none) (auto simp: not_less)
qed (simp add: assms(3))

lemma styled_feed: "styled cells doc \<Longrightarrow> styled (cells @ [feed_cell]) (doc\<lparr>doc_text := doc_text doc @ [0x0A]\<rparr>)"
  by (rule styled_plain) (simp_all add: feed_cell_def)

lemma push_cell_text [simp]: "doc_text (push_cell cell doc) = doc_text doc @ [cell_ch cell]"
  by (simp add: push_cell_def Let_def)

lemma styled_push:
  assumes "styled cells doc" shows "styled (cells @ [cell]) (push_cell cell doc)"
proof -
  let ?start = "utf8_length (doc_text doc)" and ?stop = "utf8_length (doc_text doc) + len_utf8 (cell_ch cell)"
  have ordered: "spans_ordered 0 (doc_spans doc) ?start" using assms by (rule styledD)
  note pos = len_utf8_pos [of "cell_ch cell"]
  consider (plain) "cell_style cell = plain_style"
    | (grow) before l where "cell_style cell \<noteq> plain_style" "doc_spans doc = before @ [l]" "sp_end l = ?start" "sp_style l = cell_style cell"
    | (new) "cell_style cell \<noteq> plain_style" "\<not> (doc_spans doc \<noteq> [] \<and> sp_end (last (doc_spans doc)) = ?start \<and> sp_style (last (doc_spans doc)) = cell_style cell)"
    by (metis append_butlast_last_id)
  then show ?thesis
  proof cases
    case plain
    with assms show ?thesis by (intro styled_plain) (simp_all add: push_cell_def)
  next
    case grow
    with ordered have before: "spans_ordered 0 before (sp_start l)" "sp_start l < ?start" by (auto simp: spans_ordered_append)
    from spans_ordered_ends [OF before(1)] before(2) have out: "\<not> (sp_start p \<le> ?start \<and> ?start < sp_end p)" if "p \<in> set before" for p
      using that by fastforce
    have spans: "doc_spans (push_cell cell doc) = before @ [l\<lparr>sp_end := ?stop\<rparr>]"
      using grow by (simp add: push_cell_def Let_def)
    show ?thesis
    proof (rule styled_extend [OF assms])
      show "style_at (doc_spans (push_cell cell doc)) at = style_at (doc_spans doc) at" if "at < ?start" for at
        unfolding spans grow(2) using that grow(3) pos by (auto simp: style_at_append)
    qed (use grow before out pos in \<open>auto simp: spans spans_ordered_append style_at_append push_cell_text\<close>)
  next
    case new
    have out: "\<not> (sp_start p \<le> ?start \<and> ?start < sp_end p)" if "p \<in> set (doc_spans doc)" for p
      using spans_ordered_ends [OF ordered that] by simp
    have spans: "doc_spans (push_cell cell doc) = doc_spans doc @ [\<lparr>sp_start = ?start, sp_end = ?stop, sp_style = cell_style cell\<rparr>]"
      using new by (auto simp: push_cell_def Let_def)
    show ?thesis
    proof (rule styled_extend [OF assms])
      show "style_at (doc_spans (push_cell cell doc)) at = style_at (doc_spans doc) at" if "at < ?start" for at
        unfolding spans using that by (auto simp: style_at_append intro: style_at_none [symmetric])
    qed (use new ordered out pos in \<open>auto simp: spans spans_ordered_append style_at_append push_cell_text\<close>)
  qed
qed

lemma styled_fold: "styled cells doc \<Longrightarrow> styled (cells @ line) (fold push_cell line doc)"
proof (induction line arbitrary: cells doc)
  case (Cons cell line)
  from Cons.IH [OF styled_push [OF Cons.prems, of cell]] show ?case by simp
qed simp

text \<open>The lines as the document shows them.\<close>

definition shown_lines :: "ansi_cell list list \<Rightarrow> ansi_cell list list" where
  "shown_lines canvas = map (trim_end_by (\<lambda>c. c = blank_cell)) canvas"

lemma join_with_Cons: "join_with sep (x # xs) = x @ (if xs = [] then [] else sep # join_with sep xs)"
  by (cases xs) simp_all

lemma styled_lines_after:
  "styled cells doc \<Longrightarrow> styled (cells @ (if lines = [] then [] else feed_cell # join_with feed_cell (shown_lines lines))) (push_lines False lines doc)"
proof (induction lines arbitrary: cells doc)
  case (Cons line lines)
  show ?case
    using Cons.IH [OF styled_fold [OF styled_feed [OF Cons.prems], of "trim_end_by (\<lambda>c. c = blank_cell) line"]]
    by (cases lines) (simp_all add: shown_lines_def push_line_def join_with_Cons)
qed simp

lemma styled_lines:
  assumes "styled [] doc" shows "styled (canvas_cells (shown_lines lines)) (push_lines True lines doc)"
proof (cases lines)
  case (Cons line rest)
  then show ?thesis using styled_lines_after [OF styled_fold [OF assms, of "trim_end_by (\<lambda>c. c = blank_cell) line"], of rest]
    by (cases rest) (simp_all add: canvas_cells_def shown_lines_def push_line_def join_with_Cons)
qed (use assms in \<open>simp add: canvas_cells_def shown_lines_def\<close>)

section \<open>Rendered documents\<close>

text \<open>The canvas the escape sequences leave, without blank lines and cells at the ends.\<close>

definition final_lines :: "rust_string \<Rightarrow> nat \<Rightarrow> nat \<Rightarrow> ansi_cell list list" where
  "final_lines s max_columns max_rows =
     shown_lines (trim_end_by (list_all (\<lambda>cell. cell = blank_cell)) (an_canvas (ansi_loop (max max_columns 1) (max max_rows 1) s
       \<lparr>an_canvas = [[]], an_style = plain_style, an_row = 0, an_column = 0\<rparr>)))"

lemma render_ansi_styled:
  assumes "0x1b \<in> set s" shows "styled (canvas_cells (final_lines s max_columns max_rows)) (render_ansi s max_columns max_rows)"
proof -
  have "styled [] \<lparr>doc_text = [], doc_spans = []\<rparr>" by (simp add: styled_def)
  then show ?thesis using assms styled_lines by (simp add: render_ansi_def final_lines_def Let_def)
qed

lemma set_trim_end: "set (trim_end_by P xs) \<subseteq> set xs" "length (trim_end_by P xs) \<le> length xs"
  using length_dropWhile_le [of P "rev xs"] by (auto simp: trim_end_by_def dest: set_dropWhileD)

lemma line_ok_trim: "line_ok max_columns line \<Longrightarrow> line_ok max_columns (trim_end_by P line)"
  using set_trim_end [of P line] by (auto simp: line_ok_def)

lemma canvas_ok_shown: "canvas_ok max_columns max_rows canvas \<Longrightarrow> canvas_ok max_columns max_rows (shown_lines canvas)"
  by (simp add: canvas_ok_def shown_lines_def line_ok_trim)

lemma canvas_ok_trim: "canvas_ok max_columns max_rows canvas \<Longrightarrow> canvas_ok max_columns max_rows (trim_end_by P canvas)"
  using set_trim_end [of P canvas] by (auto simp: canvas_ok_def)

lemma final_lines_ok: "canvas_ok (max max_columns 1) (max max_rows 1) (final_lines s max_columns max_rows)"
  unfolding final_lines_def by (intro canvas_ok_shown canvas_ok_trim canvas_ok_loop) (simp_all add: canvas_ok_def line_ok_empty)

lemma map_join_with: "map f (join_with sep xss) = join_with (f sep) (map (map f) xss)"
  by (induction sep xss rule: join_with.induct) auto

text \<open>C38. Whatever escape sequences a text holds, its rendering fits the screen it was asked for and shows no
  control character: at most \<open>max_rows\<close> lines of at most \<open>max_columns\<close> characters.\<close>

theorem render_ansi_fits:
  assumes "0x1b \<in> set s"
  shows "let shown = split_on 0x0A (doc_text (render_ansi s max_columns max_rows)) in
    length shown \<le> max max_rows 1 \<and> (\<forall>line\<in>set shown. length line \<le> max max_columns 1 \<and> list_all (\<lambda>c. \<not> is_control c) line)"
proof -
  let ?lines = "map (map cell_ch) (final_lines s max_columns max_rows)"
  have shown: "doc_text (render_ansi s max_columns max_rows) = join_with 0x0A ?lines"
    using styledD(1) [OF render_ansi_styled [OF assms]] by (simp add: canvas_cells_def map_join_with feed_cell_def)
  note ok = final_lines_ok [of max_columns max_rows s]
  have line: "length line \<le> max max_columns 1 \<and> list_all (\<lambda>c. \<not> is_control c) line" if "line \<in> set ?lines" for line
  proof -
    from that obtain cells where cells: "line = map cell_ch cells" "cells \<in> set (final_lines s max_columns max_rows)" by auto
    with ok have "line_ok (max max_columns 1) cells" unfolding canvas_ok_def by blast
    then show ?thesis unfolding cells(1) by (simp add: line_ok_def plain_char_def list_all_iff)
  qed
  have "is_control 0x0A" by (simp add: is_control_def)
  with line have nofeed: "0x0A \<notin> set line" if "line \<in> set ?lines" for line using that unfolding list_all_iff by blast
  have count: "length ?lines \<le> max max_rows 1" using ok by (simp add: canvas_ok_def)
  show ?thesis
  proof (cases "?lines = []")
    case False
    then have "split_on 0x0A (doc_text (render_ansi s max_columns max_rows)) = ?lines"
      unfolding shown by (rule split_join) (use nofeed in blast)
    then show ?thesis using line count by (metis (no_types, lifting))
  qed (simp add: shown)
qed

theorem render_ansi_fits_witness:
  "length (split_on 0x0A (doc_text (render_ansi ([0x1B, 0x5B, 0x39, 0x39, 0x42] @ ascii ''deep'') 80 25))) \<le> 25"
  using render_ansi_fits [of "[0x1B, 0x5B, 0x39, 0x39, 0x42] @ ascii ''deep''" 80 25] by (simp add: Let_def)

text \<open>The spans of a rendered document are in order, disjoint and within the text, and they give every
  character the style it has on the canvas that the escape sequences leave.\<close>

theorem render_ansi_styles:
  assumes "0x1b \<in> set s"
  shows "let doc = render_ansi s max_columns max_rows; cells = canvas_cells (final_lines s max_columns max_rows) in
    doc_text doc = map cell_ch cells \<and> spans_ordered 0 (doc_spans doc) (utf8_length (doc_text doc)) \<and>
    (\<forall>i<length cells. style_at (doc_spans doc) (char_offset (doc_text doc) i) = cell_style (cells ! i))"
  unfolding Let_def styled_def [symmetric] by (rule render_ansi_styled [OF assms])

theorem render_ansi_styles_witness:
  "let doc = render_ansi ([0x1B, 0x5B, 0x31, 0x6D] @ ascii ''bold'') 80 25 in
     spans_ordered 0 (doc_spans doc) (utf8_length (doc_text doc))"
proof -
  have "0x1B \<in> set ([0x1B, 0x5B, 0x31, 0x6D] @ ascii ''bold'')" by simp
  from render_ansi_styles [OF this, of 80 25] show ?thesis unfolding Let_def by blast
qed

end
