(* ===== verification/MagicTypes.thy ===== *)
theory MagicTypes
  imports Counts
begin

text \<open>
  \<open>ferail-fs-native\<close>: \<open>magic/types.rs\<close>, the file types the content sniffer knows, the facts it
  extracts, and the two texts shown for them: the label of the Format column and the description.
  The one parameter is the label of a sample rate, which the code formats with an \<open>f32\<close>.
\<close>

section \<open>Types\<close>

datatype (plugins only:) magic_type =
  MtPdf | MtDocWord | MtDocWordMacro | MtDocExcel | MtDocExcelMacro | MtDocPowerPoint
   | MtDocPowerPointMacro | MtDocWordOle | MtDocExcelOle | MtDocPowerPointOle | MtOleCompound
   | MtZip | MtZipEncrypted | MtRar | MtSevenZip | MtTar | MtLha | MtLzx | MtExeAmiga | MtObjAmiga
   | MtLibAmiga | MtAmigaIcon | MtIlbm | MtSvx8 | MtIffAnim | MtIffSmus | MtTrackerModule
   | MtAdfDisk | MtDmsDisk | MtAmigaGuide | MtGzip | MtXz | MtBzip2 | MtZstd | MtAppJar | MtAppApk
   | MtJpeg | MtPng | MtGif | MtBmp | MtWebp | MtIco | MtTiff | MtHeic | MtSvg | MtMp4 | MtMov
   | MtAvi | MtMkv | MtWebm | MtMp3 | MtWav | MtFlac | MtOgg | MtAiff | MtM4a | MtAsf | MtJson
   | MtXml | MtHtml | MtNfoScene | MtNfoKodi | MtNfoMsInfo | MtChecksumSfv | MtChecksumList
   | MtSqlite | MtExeWindows | MtDllWindows | MtExeWindowsNet | MtExeLinux | MtSoLinux | MtExeMac
   | MtDylibMac | MtObjMac | MtMachOFat | MtScriptBash | MtScriptPython | MtScriptPerl
   | MtScriptRuby | MtScriptNode | MtScriptOther | MtTextIni | MtTextReg | MtTextPlain | MtUtf8Bom
   | MtUtf16Le | MtUtf16Be | MtLnk | MtUrl | MtOpenType | MtTrueType | MtFolder | MtUnknown
   | MtBinary

primrec display_name :: "magic_type \<Rightarrow> string" where
  "display_name MtPdf = ''PDF document''"
| "display_name MtDocWord = ''Word document''"
| "display_name MtDocWordMacro = ''Word document''"
| "display_name MtDocExcel = ''Excel spreadsheet''"
| "display_name MtDocExcelMacro = ''Excel spreadsheet''"
| "display_name MtDocPowerPoint = ''PowerPoint presentation''"
| "display_name MtDocPowerPointMacro = ''PowerPoint presentation''"
| "display_name MtDocWordOle = ''Word document''"
| "display_name MtDocExcelOle = ''Excel spreadsheet''"
| "display_name MtDocPowerPointOle = ''PowerPoint presentation''"
| "display_name MtOleCompound = ''Compound document''"
| "display_name MtZip = ''ZIP archive''"
| "display_name MtZipEncrypted = ''ZIP archive''"
| "display_name MtRar = ''RAR archive''"
| "display_name MtSevenZip = ''7z archive''"
| "display_name MtTar = ''TAR archive''"
| "display_name MtLha = ''LHA archive''"
| "display_name MtLzx = ''LZX archive''"
| "display_name MtExeAmiga = ''Amiga executable''"
| "display_name MtObjAmiga = ''Amiga object file''"
| "display_name MtLibAmiga = ''Amiga link library''"
| "display_name MtAmigaIcon = ''Amiga icon''"
| "display_name MtIlbm = ''IFF ILBM image''"
| "display_name MtSvx8 = ''IFF 8SVX audio''"
| "display_name MtIffAnim = ''IFF ANIM animation''"
| "display_name MtIffSmus = ''IFF SMUS score''"
| "display_name MtTrackerModule = ''Tracker module''"
| "display_name MtAdfDisk = ''Amiga disk image''"
| "display_name MtDmsDisk = ''DMS disk image''"
| "display_name MtAmigaGuide = ''AmigaGuide document''"
| "display_name MtGzip = ''Gzip archive''"
| "display_name MtXz = ''XZ archive''"
| "display_name MtBzip2 = ''Bzip2 archive''"
| "display_name MtZstd = ''Zstandard archive''"
| "display_name MtAppJar = ''Java JAR''"
| "display_name MtAppApk = ''Android APK''"
| "display_name MtJpeg = ''JPEG image''"
| "display_name MtPng = ''PNG image''"
| "display_name MtGif = ''GIF image''"
| "display_name MtBmp = ''BMP image''"
| "display_name MtWebp = ''WebP image''"
| "display_name MtIco = ''Icon file''"
| "display_name MtTiff = ''TIFF image''"
| "display_name MtHeic = ''HEIC image''"
| "display_name MtSvg = ''XML / SVG''"
| "display_name MtMp4 = ''MP4 video''"
| "display_name MtMov = ''QuickTime movie''"
| "display_name MtAvi = ''AVI video''"
| "display_name MtMkv = ''Matroska / WebM''"
| "display_name MtWebm = ''Matroska / WebM''"
| "display_name MtMp3 = ''MP3 audio''"
| "display_name MtWav = ''WAV audio''"
| "display_name MtFlac = ''FLAC audio''"
| "display_name MtOgg = ''Ogg audio''"
| "display_name MtAiff = ''AIFF audio''"
| "display_name MtM4a = ''M4A audio''"
| "display_name MtAsf = ''Windows Media''"
| "display_name MtJson = ''JSON''"
| "display_name MtXml = ''XML''"
| "display_name MtHtml = ''HTML document''"
| "display_name MtNfoScene = ''Scene NFO''"
| "display_name MtNfoKodi = ''Kodi NFO''"
| "display_name MtNfoMsInfo = ''System Information NFO''"
| "display_name MtChecksumSfv = ''SFV checksum list''"
| "display_name MtChecksumList = ''Checksum list''"
| "display_name MtSqlite = ''SQLite database''"
| "display_name MtExeWindows = ''PE / DOS executable''"
| "display_name MtDllWindows = ''PE / DOS executable''"
| "display_name MtExeWindowsNet = ''PE / DOS executable''"
| "display_name MtExeLinux = ''ELF executable''"
| "display_name MtSoLinux = ''ELF executable''"
| "display_name MtExeMac = ''Mach-O executable''"
| "display_name MtDylibMac = ''Mach-O dylib''"
| "display_name MtObjMac = ''Mach-O object''"
| "display_name MtMachOFat = ''Mach-O fat / Java class''"
| "display_name MtScriptBash = ''Shell script''"
| "display_name MtScriptPython = ''Python script''"
| "display_name MtScriptPerl = ''Perl script''"
| "display_name MtScriptRuby = ''Ruby script''"
| "display_name MtScriptNode = ''Node.js script''"
| "display_name MtScriptOther = ''Script''"
| "display_name MtTextIni = ''INI''"
| "display_name MtTextReg = ''Windows Registry''"
| "display_name MtTextPlain = ''Plain text''"
| "display_name MtUtf8Bom = ''UTF-8 text''"
| "display_name MtUtf16Le = ''UTF-16 LE text''"
| "display_name MtUtf16Be = ''UTF-16 BE text''"
| "display_name MtLnk = ''Windows shortcut''"
| "display_name MtUrl = ''Internet shortcut''"
| "display_name MtOpenType = ''OpenType font''"
| "display_name MtTrueType = ''TrueType font''"
| "display_name MtFolder = ''Folder''"
| "display_name MtUnknown = ''''"
| "display_name MtBinary = ''Binary''"

datatype cpu_arch = ArchUnknown | ArchX86 | ArchX64 | ArchArm | ArchArm64 | ArchRiscv | ArchPowerPc | ArchMips | ArchM68k

fun arch_str :: "cpu_arch \<Rightarrow> string" where
  "arch_str ArchUnknown = ''''"
| "arch_str ArchX86 = ''x86''"
| "arch_str ArchX64 = ''x86-64''"
| "arch_str ArchArm = ''ARM''"
| "arch_str ArchArm64 = ''ARM64''"
| "arch_str ArchRiscv = ''RISC-V''"
| "arch_str ArchPowerPc = ''PowerPC''"
| "arch_str ArchMips = ''MIPS''"
| "arch_str ArchM68k = ''68k''"

datatype elf_os = OsUnknown | OsLinux | OsFreeBsd | OsNetBsd | OsOpenBsd | OsSolaris | OsAros

fun os_str :: "elf_os \<Rightarrow> string" where
  "os_str OsUnknown = ''''"
| "os_str OsLinux = ''Linux''"
| "os_str OsFreeBsd = ''FreeBSD''"
| "os_str OsNetBsd = ''NetBSD''"
| "os_str OsOpenBsd = ''OpenBSD''"
| "os_str OsSolaris = ''Solaris''"
| "os_str OsAros = ''AROS''"

datatype pe_subsystem = SubUnknown | SubConsole | SubGui | SubNative

fun subsystem_str :: "pe_subsystem \<Rightarrow> string" where
  "subsystem_str SubUnknown = ''''"
| "subsystem_str SubConsole = ''console''"
| "subsystem_str SubGui = ''GUI''"
| "subsystem_str SubNative = ''native''"

record magic_info =
  mi_type :: magic_type
  mi_is_64bit :: "bool option"
  mi_arch :: cpu_arch
  mi_subsystem :: pe_subsystem
  mi_is_dotnet :: bool
  mi_os :: elf_os
  mi_is_relocatable :: bool
  mi_has_macros :: bool
  mi_is_encrypted :: bool
  mi_file_count :: "u32 option"
  mi_zip_root :: "rust_string option"
  mi_width :: "u32 option"
  mi_height :: "u32 option"
  mi_has_alpha :: bool
  mi_channels :: "u8 option"
  mi_sample_rate :: "u32 option"
  mi_bitrate_kbps :: "u16 option"
  mi_duration_secs :: "u32 option"
  mi_has_video :: bool
  mi_has_audio :: bool
  mi_interpreter :: "string option"
  mi_text_encoding :: "string option"
  mi_checksum_algorithm :: "string option"
  mi_hunk_count :: "u32 option"
  mi_icon_kind :: "u8 option"
  mi_bit_depth :: "u8 option"
  mi_tracker_kind :: "string option"

definition MagicInfo_new :: "magic_type \<Rightarrow> magic_info" where
  "MagicInfo_new magic_type =
     \<lparr>mi_type = magic_type, mi_is_64bit = None, mi_arch = ArchUnknown, mi_subsystem = SubUnknown, mi_is_dotnet = False,
      mi_os = OsUnknown, mi_is_relocatable = False, mi_has_macros = False, mi_is_encrypted = False, mi_file_count = None,
      mi_zip_root = None, mi_width = None, mi_height = None, mi_has_alpha = False, mi_channels = None,
      mi_sample_rate = None, mi_bitrate_kbps = None, mi_duration_secs = None, mi_has_video = False,
      mi_has_audio = False, mi_interpreter = None, mi_text_encoding = None, mi_checksum_algorithm = None,
      mi_hunk_count = None, mi_icon_kind = None, mi_bit_depth = None, mi_tracker_kind = None\<rparr>"

section \<open>Descriptions\<close>

text \<open>The parts of a description: the pushes of the code, each an empty list or one part.\<close>

definition bits_part :: "bool option \<Rightarrow> rust_string list" where
  "bits_part is_64bit = (case is_64bit of None \<Rightarrow> [] | Some is_64 \<Rightarrow> [ascii (if is_64 then ''64-bit'' else ''32-bit'')])"

definition text_part :: "string \<Rightarrow> rust_string list" where
  "text_part s = (if s = [] then [] else [ascii s])"

definition option_part :: "string option \<Rightarrow> rust_string list" where
  "option_part s = (case s of None \<Rightarrow> [] | Some s \<Rightarrow> [ascii s])"

definition flag_part :: "bool \<Rightarrow> string \<Rightarrow> rust_string list" where
  "flag_part b s = (if b then [ascii s] else [])"

definition count_part :: "u32 option \<Rightarrow> rust_string list" where
  "count_part n = (case n of None \<Rightarrow> [] | Some n \<Rightarrow> [format_count (ucast n) @ ascii '' files''])"

definition root_part :: "rust_string option \<Rightarrow> rust_string list" where
  "root_part root = (case root of None \<Rightarrow> [] | Some root \<Rightarrow> [ascii ''root: '' @ root])"

definition size_part :: "magic_info \<Rightarrow> rust_string list" where
  "size_part info = (case (mi_width info, mi_height info) of
     (Some w, Some h) \<Rightarrow> [decimal (unat w) @ [0xD7] @ decimal (unat h)] | _ \<Rightarrow> [])"

definition channel_part :: "u8 option \<Rightarrow> rust_string list" where
  "channel_part ch = (case ch of None \<Rightarrow> [] | Some ch \<Rightarrow> [ascii (if ch = 1 then ''mono'' else ''stereo'')])"

definition rate_part :: "(u32 \<Rightarrow> rust_string) \<Rightarrow> u32 option \<Rightarrow> rust_string list" where
  "rate_part khz sr = (case sr of None \<Rightarrow> [] | Some sr \<Rightarrow> [khz sr])"

definition icon_kind_str :: "u8 \<Rightarrow> string" where
  "icon_kind_str kind = (if kind = 1 then ''disk'' else if kind = 2 then ''drawer'' else if kind = 3 then ''tool''
     else if kind = 4 then ''project'' else if kind = 5 then ''trashcan'' else if kind = 6 then ''device''
     else if kind = 7 then ''Kickstart'' else if kind = 8 then ''app icon'' else [])"

definition office_part :: "magic_info \<Rightarrow> string \<Rightarrow> magic_type \<Rightarrow> rust_string list" where
  "office_part info name ole =
     [ascii name] @ flag_part (mi_type info = ole) ''legacy format'' @ flag_part (mi_has_macros info) ''macro-enabled''"

definition image_types :: "(magic_type \<times> string) list" where
  "image_types = [(MtJpeg, ''JPEG image''), (MtPng, ''PNG image''), (MtGif, ''GIF image''), (MtBmp, ''BMP image''),
     (MtWebp, ''WebP image''), (MtIco, ''Icon file''), (MtTiff, ''TIFF image''), (MtHeic, ''HEIC image'')]"

definition video_types :: "(magic_type \<times> string) list" where
  "video_types = [(MtMp4, ''MP4''), (MtMov, ''QuickTime''), (MtAvi, ''AVI''), (MtMkv, ''Matroska''), (MtWebm, ''WebM'')]"

definition audio_types :: "(magic_type \<times> string) list" where
  "audio_types = [(MtMp3, ''MP3''), (MtWav, ''WAV''), (MtFlac, ''FLAC''), (MtOgg, ''Ogg Vorbis''), (MtAiff, ''AIFF''), (MtM4a, ''M4A'')]"

text \<open>The types whose description is one fixed text.\<close>

definition plain_types :: "(magic_type \<times> string) list" where
  "plain_types = [(MtRar, ''RAR archive''), (MtTar, ''TAR archive''), (MtLha, ''LHA archive''), (MtLzx, ''LZX archive''),
     (MtIffAnim, ''IFF ANIM animation''), (MtIffSmus, ''IFF SMUS score''), (MtAdfDisk, ''Amiga disk image''),
     (MtDmsDisk, ''DMS disk image''), (MtAmigaGuide, ''AmigaGuide document''), (MtGzip, ''GZIP archive''),
     (MtXz, ''XZ archive''), (MtBzip2, ''Bzip2 archive''), (MtZstd, ''Zstandard archive''), (MtPdf, ''PDF document''),
     (MtSqlite, ''SQLite database''), (MtJson, ''JSON data''), (MtXml, ''XML document''), (MtHtml, ''HTML document''),
     (MtNfoKodi, ''Kodi metadata''), (MtNfoMsInfo, ''Microsoft System Information''), (MtSvg, ''XML / SVG''),
     (MtTextIni, ''INI configuration''), (MtTextReg, ''Windows Registry export''), (MtTextPlain, ''Plain text''),
     (MtUtf8Bom, ''Text''), (MtUtf16Le, ''Text''), (MtUtf16Be, ''Text''), (MtScriptPython, ''Python script''),
     (MtScriptPerl, ''Perl script''), (MtScriptRuby, ''Ruby script''), (MtScriptNode, ''Node.js script''),
     (MtScriptOther, ''Script''), (MtLnk, ''Windows shortcut''), (MtUrl, ''Internet shortcut''),
     (MtOpenType, ''OpenType font''), (MtTrueType, ''TrueType font''), (MtMachOFat, ''Mach-O fat binary''),
     (MtBinary, ''Binary data'')]"

definition executable_parts :: "magic_info \<Rightarrow> rust_string list" where
  "executable_parts info =
     (let mt = mi_type info in
      if mt \<in> {MtExeWindows, MtDllWindows, MtExeWindowsNet} then
        [ascii ''Windows PE''] @ bits_part (mi_is_64bit info) @ text_part (arch_str (mi_arch info)) @
          text_part (subsystem_str (mi_subsystem info)) @ flag_part (mt = MtDllWindows) ''library'' @
          flag_part (mi_is_dotnet info) ''.NET''
      else if mt \<in> {MtExeLinux, MtSoLinux} then
        [ascii ''ELF''] @ bits_part (mi_is_64bit info) @
          [ascii (if mi_is_relocatable info then ''relocatable'' else if mt = MtSoLinux then ''shared object'' else ''executable'')] @
          text_part (arch_str (mi_arch info)) @ text_part (os_str (mi_os info))
      else if mt \<in> {MtExeMac, MtDylibMac, MtObjMac} then
        [ascii ''Mach-O''] @ bits_part (mi_is_64bit info) @
          [ascii (if mt = MtDylibMac then ''dylib'' else if mt = MtObjMac then ''object'' else ''executable'')] @
          text_part (arch_str (mi_arch info))
      else
        [ascii (if mt = MtObjAmiga then ''Amiga object file'' else if mt = MtLibAmiga then ''Amiga link library'' else ''Amiga executable'')] @
          text_part (arch_str (mi_arch info)) @
          (case mi_hunk_count info of None \<Rightarrow> []
           | Some n \<Rightarrow> [if n = 1 then ascii ''1 hunk'' else decimal (unat n) @ ascii '' hunks'']))"

definition media_parts :: "(u32 \<Rightarrow> rust_string) \<Rightarrow> magic_info \<Rightarrow> rust_string list" where
  "media_parts khz info =
     (let mt = mi_type info in
      case map_of image_types mt of
        Some kind \<Rightarrow> [ascii kind] @ size_part info @ flag_part (mi_has_alpha info) ''alpha''
      | None \<Rightarrow>
     (case map_of video_types mt of
        Some kind \<Rightarrow> [ascii kind] @ flag_part (mi_has_video info \<or> mi_has_audio info)
          (if mi_has_video info then (if mi_has_audio info then ''video + audio'' else ''video only'') else ''audio only'')
      | None \<Rightarrow>
     (case map_of audio_types mt of
        Some kind \<Rightarrow> [ascii kind] @ channel_part (mi_channels info) @ rate_part khz (mi_sample_rate info) @
          (case mi_bitrate_kbps info of None \<Rightarrow> [] | Some kbps \<Rightarrow> [decimal (unat kbps) @ ascii '' kbps'']) @
          (case mi_duration_secs info of None \<Rightarrow> []
           | Some secs \<Rightarrow> [zero_padded 2 (uint secs div 60) @ [0x3A] @ zero_padded 2 (uint secs mod 60)])
      | None \<Rightarrow>
          [ascii (if mi_has_video info then ''Windows Media Video''
             else if mi_has_audio info then ''Windows Media Audio'' else ''Windows Media'')])))"

definition description_parts :: "(u32 \<Rightarrow> rust_string) \<Rightarrow> magic_info \<Rightarrow> rust_string list" where
  "description_parts khz info =
     (let mt = mi_type info in
      case map_of plain_types mt of
        Some s \<Rightarrow> [ascii s]
      | None \<Rightarrow>
      if mt \<in> {MtExeWindows, MtDllWindows, MtExeWindowsNet, MtExeLinux, MtSoLinux, MtExeMac, MtDylibMac, MtObjMac,
          MtExeAmiga, MtObjAmiga, MtLibAmiga} then executable_parts info
      else if mt \<in> {MtDocWord, MtDocWordMacro, MtDocWordOle} then office_part info ''Word document'' MtDocWordOle
      else if mt \<in> {MtDocExcel, MtDocExcelMacro, MtDocExcelOle} then office_part info ''Excel spreadsheet'' MtDocExcelOle
      else if mt \<in> {MtDocPowerPoint, MtDocPowerPointMacro, MtDocPowerPointOle} then
        office_part info ''PowerPoint presentation'' MtDocPowerPointOle
      else if mt = MtOleCompound then
        (if mi_is_encrypted info then [ascii ''Office document'', ascii ''encrypted''] else [ascii ''OLE2 compound document''])
      else if mt \<in> {MtZip, MtZipEncrypted} then
        [ascii ''ZIP archive''] @ flag_part (mi_is_encrypted info) ''encrypted'' @ count_part (mi_file_count info) @
          root_part (mi_zip_root info)
      else if mt = MtSevenZip then
        [ascii ''7-Zip archive''] @ flag_part (mi_is_encrypted info) ''encrypted'' @ count_part (mi_file_count info) @
          root_part (mi_zip_root info)
      else if mt = MtAmigaIcon then
        [ascii ''Amiga icon''] @
          (case mi_icon_kind info of None \<Rightarrow> [] | Some kind \<Rightarrow> text_part (icon_kind_str kind)) @ size_part info
      else if mt = MtIlbm then
        [ascii ''IFF ILBM image''] @ size_part info @
          (case mi_bit_depth info of None \<Rightarrow> [] | Some d \<Rightarrow> [decimal (unat d) @ ascii ''-bit''])
      else if mt = MtSvx8 then
        [ascii ''IFF 8SVX audio''] @ channel_part (mi_channels info) @ rate_part khz (mi_sample_rate info)
      else if mt = MtTrackerModule then
        [case mi_tracker_kind info of Some k \<Rightarrow> ascii k @ ascii '' module'' | None \<Rightarrow> ascii ''Tracker module''] @
          (case mi_channels info of None \<Rightarrow> [] | Some ch \<Rightarrow> [decimal (unat ch) @ ascii '' channels''])
      else if mt = MtAppJar then [ascii ''Java JAR''] @ count_part (mi_file_count info)
      else if mt = MtAppApk then [ascii ''Android APK''] @ count_part (mi_file_count info)
      else if mt = MtNfoScene then [ascii ''Scene NFO''] @ option_part (mi_text_encoding info) @ [ascii ''text art'']
      else if mt \<in> {MtChecksumSfv, MtChecksumList} then
        [ascii ''Checksum manifest''] @ option_part (mi_checksum_algorithm info)
      else if mt = MtScriptBash then [ascii ''Shell script''] @ option_part (mi_interpreter info)
      else if mt \<in> {MtFolder, MtUnknown} then []
      else media_parts khz info)"

text \<open>\<open>join(" \u{00b7} ")\<close>.\<close>

fun join_parts :: "rust_string list \<Rightarrow> rust_string" where
  "join_parts [] = []"
| "join_parts [part] = part"
| "join_parts (part # rest) = part @ [0x20, 0xB7, 0x20] @ join_parts rest"

definition description :: "(u32 \<Rightarrow> rust_string) \<Rightarrow> magic_info \<Rightarrow> rust_string" where
  "description khz info = join_parts (description_parts khz info)"

end
