(* ===== verification/MagicBinary.thy ===== *)
theory MagicBinary
  imports MagicTypes
begin

text \<open>
  \<open>ferail-fs-native\<close>: \<open>magic/exe.rs\<close>, \<open>magic/image.rs\<close>, \<open>magic/audio.rs\<close>, \<open>magic/video.rs\<close>, the
  parsers of binary headers.  A read \<open>buf[i]\<close> outside the buffer is \<open>Panic\<close>; a comparison of a
  slice that stands behind a length test in the same condition is written with \<open>has_at\<close>.  Sums of
  offsets are sums of naturals.  The one floating-point computation, the sample rate of an AIFF
  file, is written out on the integers it rounds.
\<close>

section \<open>Reading a buffer\<close>

definition bstr :: "string \<Rightarrow> u8 list" where
  "bstr s = map (\<lambda>c. of_nat (of_char c)) s"

definition starts_with :: "u8 list \<Rightarrow> u8 list \<Rightarrow> bool" where
  "starts_with p buf \<longleftrightarrow> take (length p) buf = p"

text \<open>\<open>buf[i..i + len] == p\<close>, where the slice is in range.\<close>

definition has_at :: "nat \<Rightarrow> u8 list \<Rightarrow> u8 list \<Rightarrow> bool" where
  "has_at i p buf \<longleftrightarrow> take (length p) (drop i buf) = p"

text \<open>\<open>from_le_bytes\<close> and \<open>from_be_bytes\<close> of the bytes from an index.\<close>

definition le16 :: "u8 list \<Rightarrow> nat \<Rightarrow> (unit, u16) outcome" where
  "le16 buf i = obind (sub_slice buf i (i + 2)) (\<lambda>b. Ok (le_word b))"

definition be16 :: "u8 list \<Rightarrow> nat \<Rightarrow> (unit, u16) outcome" where
  "be16 buf i = obind (sub_slice buf i (i + 2)) (\<lambda>b. Ok (le_word (rev b)))"

definition le32 :: "u8 list \<Rightarrow> nat \<Rightarrow> (unit, u32) outcome" where
  "le32 buf i = obind (sub_slice buf i (i + 4)) (\<lambda>b. Ok (le_word b))"

definition be32 :: "u8 list \<Rightarrow> nat \<Rightarrow> (unit, u32) outcome" where
  "be32 buf i = obind (sub_slice buf i (i + 4)) (\<lambda>b. Ok (le_word (rev b)))"

section \<open>Executables\<close>

definition elf_u16 :: "bool \<Rightarrow> u8 list \<Rightarrow> nat \<Rightarrow> (unit, u16) outcome" where
  "elf_u16 is_le buf offset = (if is_le then le16 buf offset else be16 buf offset)"

definition elf_os_of :: "u8 \<Rightarrow> elf_os" where
  "elf_os_of b = (if b = 2 then OsNetBsd else if b = 3 then OsLinux else if b = 6 then OsSolaris
     else if b = 9 then OsFreeBsd else if b = 12 then OsOpenBsd else if b = 15 then OsAros else OsUnknown)"

definition elf_arch :: "u16 \<Rightarrow> cpu_arch" where
  "elf_arch m = (if m = 0x03 then ArchX86 else if m = 0x3e then ArchX64 else if m = 0x28 then ArchArm
     else if m = 0xb7 then ArchArm64 else if m = 0xf3 then ArchRiscv else if m = 0x14 \<or> m = 0x15 then ArchPowerPc
     else if m = 0x04 then ArchM68k else if m = 0x08 then ArchMips else ArchUnknown)"

definition sniff_elf :: "u8 list \<Rightarrow> (unit, magic_info) outcome" where
  "sniff_elf buf =
     (let info = MagicInfo_new MtExeLinux in
      if length buf < 20 then Ok info
      else
      obind (idx buf 4) (\<lambda>class.
      obind (idx buf 5) (\<lambda>data.
      obind (idx buf 7) (\<lambda>osabi.
      obind (elf_u16 (data = 1) buf 16) (\<lambda>e_type.
      obind (elf_u16 (data = 1) buf 18) (\<lambda>e_machine.
      Ok (info\<lparr>mi_is_64bit := Some (class = 2), mi_os := elf_os_of osabi, mi_is_relocatable := (e_type = 1),
           mi_type := (if e_type = 3 then MtSoLinux else MtExeLinux), mi_arch := elf_arch e_machine\<rparr>)))))))"

definition macho_u32 :: "bool \<Rightarrow> u8 list \<Rightarrow> nat \<Rightarrow> (unit, u32) outcome" where
  "macho_u32 is_le buf offset = (if is_le then le32 buf offset else be32 buf offset)"

definition macho_arch :: "bool \<Rightarrow> u32 \<Rightarrow> cpu_arch" where
  "macho_arch is_64bit cputype =
     (let t = cputype AND 0xff in
      if t = 7 then (if is_64bit then ArchX64 else ArchX86)
      else if t = 12 then (if is_64bit then ArchArm64 else ArchArm)
      else if t = 18 then ArchPowerPc else ArchUnknown)"

definition macho_type :: "u32 \<Rightarrow> magic_type" where
  "macho_type t = (if t = 0x1 then MtObjMac else if t = 0x2 then MtExeMac else if t = 0x6 \<or> t = 0x8 then MtDylibMac
     else MtExeMac)"

definition sniff_macho :: "u8 list \<Rightarrow> (unit, magic_info) outcome" where
  "sniff_macho buf =
     (let info = MagicInfo_new MtExeMac in
      if length buf < 8 then Ok info
      else
      let magic = take 4 buf;
          is_64bit = (magic = [0xfe, 0xed, 0xfa, 0xcf] \<or> magic = [0xcf, 0xfa, 0xed, 0xfe]);
          is_le = (magic = [0xce, 0xfa, 0xed, 0xfe] \<or> magic = [0xcf, 0xfa, 0xed, 0xfe]) in
      if magic = [0xca, 0xfe, 0xba, 0xbe] then Ok (info\<lparr>mi_type := MtMachOFat\<rparr>)
      else
      obind (macho_u32 is_le buf 4) (\<lambda>cputype.
      let info = info\<lparr>mi_is_64bit := Some is_64bit, mi_arch := macho_arch is_64bit cputype\<rparr> in
      if 16 \<le> length buf then obind (macho_u32 is_le buf 12) (\<lambda>filetype. Ok (info\<lparr>mi_type := macho_type filetype\<rparr>))
      else Ok info))"

definition pe_arch :: "u16 \<Rightarrow> cpu_arch" where
  "pe_arch m = (if m = 0x014c then ArchX86 else if m = 0x8664 then ArchX64 else if m = 0x01c0 \<or> m = 0x01c4 then ArchArm
     else if m = 0xaa64 then ArchArm64 else ArchUnknown)"

definition pe_subsystem_of :: "u16 \<Rightarrow> pe_subsystem" where
  "pe_subsystem_of s = (if s = 1 then SubNative else if s = 2 then SubGui else if s = 3 then SubConsole else SubUnknown)"

definition pe_image_type :: "bool \<Rightarrow> magic_type" where
  "pe_image_type is_dll = (if is_dll then MtDllWindows else MtExeWindows)"

text \<open>The optional header: its magic, the subsystem, and the data directory of the CLR.\<close>

definition pe_optional_header :: "u8 list \<Rightarrow> nat \<Rightarrow> bool \<Rightarrow> magic_info \<Rightarrow> (unit, magic_info) outcome" where
  "pe_optional_header buf pe_offset is_dll info =
     obind (le16 buf (pe_offset + 24)) (\<lambda>optional_magic.
     let is_pe32plus = (optional_magic = 0x20b); info = info\<lparr>mi_is_64bit := Some is_pe32plus\<rparr>;
         subsystem_offset = pe_offset + 24 + (if is_pe32plus then 88 else 68);
         clr_dir_offset = pe_offset + 24 + (if is_pe32plus then 112 else 96) + 14 * 8 in
     obind (if subsystem_offset + 2 \<le> length buf
            then obind (le16 buf subsystem_offset) (\<lambda>s. Ok (info\<lparr>mi_subsystem := pe_subsystem_of s\<rparr>))
            else Ok info) (\<lambda>info.
     if clr_dir_offset + 8 \<le> length buf then
       obind (le32 buf clr_dir_offset) (\<lambda>clr_rva.
       obind (le32 buf (clr_dir_offset + 4)) (\<lambda>clr_size.
       Ok (if clr_rva \<noteq> 0 \<and> clr_size \<noteq> 0 then info\<lparr>mi_is_dotnet := True, mi_type := MtExeWindowsNet\<rparr>
           else info\<lparr>mi_type := pe_image_type is_dll\<rparr>)))
     else Ok (info\<lparr>mi_type := pe_image_type is_dll\<rparr>)))"

definition sniff_pe :: "u8 list \<Rightarrow> (unit, magic_info) outcome" where
  "sniff_pe buf =
     (let info = MagicInfo_new MtExeWindows in
      if length buf < 64 then Ok info
      else
      obind (le32 buf 0x3c) (\<lambda>pe_offset.
      let pe_offset = unat pe_offset in
      if length buf < pe_offset + 4 \<or> \<not> has_at pe_offset (bstr ''PE'' @ [0, 0]) buf then Ok info
      else
      obind (if pe_offset + 6 \<le> length buf
             then obind (le16 buf (pe_offset + 4)) (\<lambda>machine. Ok (info\<lparr>mi_arch := pe_arch machine\<rparr>))
             else Ok info) (\<lambda>info.
      if length buf < pe_offset + 24 then Ok info
      else
      obind (le16 buf (pe_offset + 22)) (\<lambda>characteristics.
      let is_dll = (characteristics AND 0x2000 \<noteq> 0) in
      if length buf < pe_offset + 26 then Ok (info\<lparr>mi_type := pe_image_type is_dll\<rparr>)
      else pe_optional_header buf pe_offset is_dll info))))"

definition macho_magics :: "u8 list list" where
  "macho_magics = [[0xfe, 0xed, 0xfa, 0xce], [0xfe, 0xed, 0xfa, 0xcf], [0xce, 0xfa, 0xed, 0xfe], [0xcf, 0xfa, 0xed, 0xfe],
     [0xca, 0xfe, 0xba, 0xbe]]"

text \<open>\<open>Some(f(buf))\<close>.\<close>

definition found :: "(unit, magic_info) outcome \<Rightarrow> (unit, magic_info option) outcome" where
  "found m = obind m (\<lambda>info. Ok (Some info))"

definition exe_sniff :: "u8 list \<Rightarrow> (unit, magic_info option) outcome" where
  "exe_sniff buf =
     (if 20 \<le> length buf \<and> starts_with (0x7f # bstr ''ELF'') buf then found (sniff_elf buf)
      else if 8 \<le> length buf \<and> take 4 buf \<in> set macho_magics then found (sniff_macho buf)
      else if 64 \<le> length buf \<and> starts_with (bstr ''MZ'') buf then found (sniff_pe buf)
      else Ok None)"

section \<open>Images\<close>

definition sniff_png :: "u8 list \<Rightarrow> (unit, magic_info) outcome" where
  "sniff_png buf =
     (let info = MagicInfo_new MtPng in
      if length buf < 26 \<or> \<not> has_at 12 (bstr ''IHDR'') buf then Ok info
      else
      obind (be32 buf 16) (\<lambda>width.
      obind (be32 buf 20) (\<lambda>height.
      obind (idx buf 25) (\<lambda>color_type.
      Ok (info\<lparr>mi_width := Some width, mi_height := Some height, mi_has_alpha := (color_type = 4 \<or> color_type = 6)\<rparr>)))))"

definition jpeg_sof :: "u8 \<Rightarrow> bool" where
  "jpeg_sof m \<longleftrightarrow> 0xc0 \<le> m \<and> m \<le> 0xc3 \<or> 0xc5 \<le> m \<and> m \<le> 0xc7 \<or> 0xc9 \<le> m \<and> m \<le> 0xcb \<or> 0xcd \<le> m \<and> m \<le> 0xcf"

function jpeg_loop :: "u8 list \<Rightarrow> nat \<Rightarrow> magic_info \<Rightarrow> (unit, magic_info) outcome" where
  "jpeg_loop buf pos info =
     (if \<not> pos + 10 < length buf then Ok info
      else
      obind (idx buf pos) (\<lambda>b.
      if b \<noteq> 0xff then jpeg_loop buf (pos + 1) info
      else
      obind (idx buf (pos + 1)) (\<lambda>marker.
      if jpeg_sof marker then
        obind (be16 buf (pos + 5)) (\<lambda>height. obind (be16 buf (pos + 7)) (\<lambda>width.
        Ok (info\<lparr>mi_height := Some (ucast height), mi_width := Some (ucast width)\<rparr>)))
      else if marker = 0xd8 \<or> marker = 0xd9 \<or> (0xd0 \<le> marker \<and> marker \<le> 0xd7) then jpeg_loop buf (pos + 2) info
      else if pos + 3 < length buf then
        obind (be16 buf (pos + 2)) (\<lambda>len. jpeg_loop buf (pos + 2 + max (unat len) 2) info)
      else Ok info)))"
  by pat_completeness auto
termination by (relation "measure (\<lambda>(buf, pos, info). length buf - pos)") auto

declare jpeg_loop.simps [simp del]

definition sniff_jpeg :: "u8 list \<Rightarrow> (unit, magic_info) outcome" where
  "sniff_jpeg buf = jpeg_loop buf 2 (MagicInfo_new MtJpeg)"

definition sniff_gif :: "u8 list \<Rightarrow> (unit, magic_info) outcome" where
  "sniff_gif buf =
     obind (le16 buf 6) (\<lambda>width. obind (le16 buf 8) (\<lambda>height.
     Ok ((MagicInfo_new MtGif)\<lparr>mi_width := Some (ucast width), mi_height := Some (ucast height)\<rparr>)))"

text \<open>\<open>i32::unsigned_abs\<close>, on the bits of the \<open>i32\<close>.\<close>

definition unsigned_abs :: "u32 \<Rightarrow> u32" where
  "unsigned_abs w = (if sint w < 0 then - w else w)"

definition sniff_bmp :: "u8 list \<Rightarrow> (unit, magic_info) outcome" where
  "sniff_bmp buf =
     obind (le32 buf 18) (\<lambda>width. obind (le32 buf 22) (\<lambda>height.
     let info = (MagicInfo_new MtBmp)\<lparr>mi_width := Some (unsigned_abs width), mi_height := Some (unsigned_abs height)\<rparr> in
     if 30 \<le> length buf then obind (le16 buf 28) (\<lambda>bit_count. Ok (info\<lparr>mi_has_alpha := (bit_count = 32)\<rparr>))
     else Ok info))"

definition u24_plus_1 :: "u8 list \<Rightarrow> nat \<Rightarrow> (unit, u32) outcome" where
  "u24_plus_1 buf i =
     obind (idx buf i) (\<lambda>a. obind (idx buf (i + 1)) (\<lambda>b. obind (idx buf (i + 2)) (\<lambda>c.
     Ok ((ucast a OR push_bit 8 (ucast b) OR push_bit 16 (ucast c)) + 1))))"

definition sniff_webp :: "u8 list \<Rightarrow> (unit, magic_info) outcome" where
  "sniff_webp buf =
     (let info = MagicInfo_new MtWebp in
      obind (sub_slice buf 12 16) (\<lambda>chunk_type.
      if chunk_type = bstr ''VP8 '' then
        (if 30 \<le> length buf \<and> has_at 23 [0x9d, 0x01, 0x2a] buf then
           obind (le16 buf 26) (\<lambda>w. obind (le16 buf 28) (\<lambda>h.
           Ok (info\<lparr>mi_width := Some (ucast (w AND 0x3fff)), mi_height := Some (ucast (h AND 0x3fff))\<rparr>)))
         else Ok info)
      else if chunk_type = bstr ''VP8L'' \<and> 25 \<le> length buf \<and> has_at 20 [0x2f] buf then
        obind (le32 buf 21) (\<lambda>bits.
        Ok (info\<lparr>mi_width := Some ((bits AND 0x3fff) + 1), mi_height := Some ((drop_bit 14 bits AND 0x3fff) + 1),
             mi_has_alpha := (drop_bit 28 bits AND 1 \<noteq> 0)\<rparr>))
      else if chunk_type = bstr ''VP8X'' \<and> 30 \<le> length buf then
        obind (idx buf 20) (\<lambda>flags.
        obind (u24_plus_1 buf 24) (\<lambda>w. obind (u24_plus_1 buf 27) (\<lambda>h.
        Ok (info\<lparr>mi_has_alpha := (flags AND 0x10 \<noteq> 0), mi_width := Some w, mi_height := Some h\<rparr>))))
      else Ok info))"

text \<open>An edge of an icon; 0 stands for 256.\<close>

definition ico_edge :: "u8 \<Rightarrow> u32" where
  "ico_edge b = (if b = 0 then 256 else ucast b)"

fun ico_loop :: "u8 list \<Rightarrow> nat list \<Rightarrow> u64 \<Rightarrow> magic_info \<Rightarrow> (unit, magic_info) outcome" where
  "ico_loop buf [] max_size info = Ok info"
| "ico_loop buf (i # is) max_size info =
     obind (idx buf (6 + i * 16)) (\<lambda>bw. obind (idx buf (6 + i * 16 + 1)) (\<lambda>bh.
     let w = ico_edge bw; h = ico_edge bh; size = ucast w * ucast h in
     if max_size < size then ico_loop buf is size (info\<lparr>mi_width := Some w, mi_height := Some h\<rparr>)
     else ico_loop buf is max_size info))"

definition sniff_ico :: "u8 list \<Rightarrow> (unit, magic_info) outcome" where
  "sniff_ico buf =
     (let info = MagicInfo_new MtIco in
      obind (le16 buf 4) (\<lambda>count.
      let count = unat count in
      if count = 0 \<or> length buf < 6 + count * 16 then Ok info
      else obind (ico_loop buf [0..<min count 10] 0 info) (\<lambda>info. Ok (info\<lparr>mi_has_alpha := True\<rparr>))))"

definition tiff_u16 :: "bool \<Rightarrow> u8 list \<Rightarrow> nat \<Rightarrow> (unit, u16) outcome" where
  "tiff_u16 is_le buf off = (if is_le then le16 buf off else be16 buf off)"

definition tiff_u32 :: "bool \<Rightarrow> u8 list \<Rightarrow> nat \<Rightarrow> (unit, u32) outcome" where
  "tiff_u32 is_le buf off = (if is_le then le32 buf off else be32 buf off)"

text \<open>The value of a dimension tag: type 3 is a short.\<close>

definition tiff_value :: "bool \<Rightarrow> u8 list \<Rightarrow> u16 \<Rightarrow> nat \<Rightarrow> (unit, u32) outcome" where
  "tiff_value is_le buf typ val_off =
     (if typ = 3 then obind (tiff_u16 is_le buf val_off) (\<lambda>v. Ok (ucast v)) else tiff_u32 is_le buf val_off)"

fun tiff_loop :: "bool \<Rightarrow> u8 list \<Rightarrow> nat \<Rightarrow> nat list \<Rightarrow> magic_info \<Rightarrow> (unit, magic_info) outcome" where
  "tiff_loop is_le buf entries_start [] info = Ok info"
| "tiff_loop is_le buf entries_start (i # is) info =
     (let entry = entries_start + i * 12 in
      if length buf < entry + 12 then Ok info
      else
      obind (tiff_u16 is_le buf entry) (\<lambda>tag.
      obind (tiff_u16 is_le buf (entry + 2)) (\<lambda>typ.
      obind (if tag = 256 then obind (tiff_value is_le buf typ (entry + 8)) (\<lambda>v. Ok (info\<lparr>mi_width := Some v\<rparr>))
             else if tag = 257 then obind (tiff_value is_le buf typ (entry + 8)) (\<lambda>v. Ok (info\<lparr>mi_height := Some v\<rparr>))
             else if tag = 338 then Ok (info\<lparr>mi_has_alpha := True\<rparr>)
             else Ok info) (\<lambda>info.
      tiff_loop is_le buf entries_start is info))))"

definition sniff_tiff :: "u8 list \<Rightarrow> (unit, magic_info) outcome" where
  "sniff_tiff buf =
     (let info = MagicInfo_new MtTiff in
      obind (idx buf 0) (\<lambda>b0.
      let is_le = (b0 = 0x49) in
      obind (tiff_u32 is_le buf 4) (\<lambda>ifd_offset.
      let ifd_offset = unat ifd_offset in
      if length buf < ifd_offset + 2 then Ok info
      else
      obind (tiff_u16 is_le buf ifd_offset) (\<lambda>num_entries.
      tiff_loop is_le buf (ifd_offset + 2) [0..<min (unat num_entries) 40] info))))"

definition heic_brands :: "u8 list list" where
  "heic_brands = [bstr ''heic'', bstr ''heix'', bstr ''mif1'', bstr ''msf1'']"

definition image_sniff :: "u8 list \<Rightarrow> (unit, magic_info option) outcome" where
  "image_sniff buf =
     (if 24 \<le> length buf \<and> starts_with [0x89, 0x50, 0x4E, 0x47, 0x0d, 0x0a, 0x1a, 0x0a] buf then found (sniff_png buf)
      else if 12 \<le> length buf \<and> starts_with [0xff, 0xd8, 0xff] buf then found (sniff_jpeg buf)
      else if 10 \<le> length buf \<and> starts_with (bstr ''GIF8'') buf then found (sniff_gif buf)
      else if 26 \<le> length buf \<and> starts_with (bstr ''BM'') buf then found (sniff_bmp buf)
      else if 30 \<le> length buf \<and> starts_with (bstr ''RIFF'') buf \<and> has_at 8 (bstr ''WEBP'') buf then found (sniff_webp buf)
      else if 22 \<le> length buf \<and> starts_with [0x00, 0x00, 0x01, 0x00] buf then found (sniff_ico buf)
      else if 8 \<le> length buf \<and> (starts_with [0x49, 0x49, 0x2a, 0x00] buf \<or> starts_with [0x4d, 0x4d, 0x00, 0x2a] buf)
        then found (sniff_tiff buf)
      else if 12 \<le> length buf \<and> has_at 4 (bstr ''ftyp'') buf \<and> take 4 (drop 8 buf) \<in> set heic_brands
        then Ok (Some (MagicInfo_new MtHeic))
      else Ok None)"

section \<open>Audio\<close>

definition is_utf16_bom :: "u8 list \<Rightarrow> bool" where
  "is_utf16_bom buf \<longleftrightarrow> 2 \<le> length buf \<and> (take 2 buf = [0xff, 0xfe] \<or> take 2 buf = [0xfe, 0xff])"

definition is_valid_mp3_frame_header :: "u8 list \<Rightarrow> (unit, bool) outcome" where
  "is_valid_mp3_frame_header buf =
     (if length buf < 4 then Ok False
      else
      obind (idx buf 0) (\<lambda>b0. obind (idx buf 1) (\<lambda>b1. obind (idx buf 2) (\<lambda>b2. obind (idx buf 3) (\<lambda>b3.
      let version = drop_bit 3 b1 AND 0x03; layer = drop_bit 1 b1 AND 0x03;
          bitrate_idx = drop_bit 4 b2 AND 0x0f; sample_rate_idx = drop_bit 2 b2 AND 0x03; emphasis = b3 AND 0x03 in
      if b0 \<noteq> 0xff \<or> b1 AND 0xe0 \<noteq> 0xe0 then Ok False
      else if version = 1 then Ok False
      else if layer = 0 then Ok False
      else if bitrate_idx = 0x0f \<or> bitrate_idx = 0 then Ok False
      else if sample_rate_idx = 0x03 then Ok False
      else if emphasis = 2 then Ok False
      else Ok True)))))"

definition RATES_V1_L3 :: "u16 list" where
  "RATES_V1_L3 = [0, 32, 40, 48, 56, 64, 80, 96, 112, 128, 160, 192, 224, 256, 320]"

definition RATES_V2_L3 :: "u16 list" where
  "RATES_V2_L3 = [0, 8, 16, 24, 32, 40, 48, 56, 64, 80, 96, 112, 128, 144, 160]"

definition mp3_sample_rates :: "u8 \<Rightarrow> u32 list option" where
  "mp3_sample_rates version_bits =
     (if version_bits = 0 then Some [11025, 12000, 8000, 0]
      else if version_bits = 2 then Some [22050, 24000, 16000, 0]
      else if version_bits = 3 then Some [44100, 48000, 32000, 0]
      else None)"

definition parse_mp3_frame :: "u8 list \<Rightarrow> magic_info \<Rightarrow> (unit, magic_info) outcome" where
  "parse_mp3_frame buf info =
     (if length buf < 4 then Ok info
      else
      obind (idx buf 0) (\<lambda>b0. obind (idx buf 1) (\<lambda>b1. obind (idx buf 2) (\<lambda>b2. obind (idx buf 3) (\<lambda>b3.
      if b0 \<noteq> 0xff \<or> b1 AND 0xe0 \<noteq> 0xe0 then Ok info
      else
      let version_bits = drop_bit 3 b1 AND 0x03; layer_bits = drop_bit 1 b1 AND 0x03;
          bitrate_idx = drop_bit 4 b2 AND 0x0f; sample_rate_idx = drop_bit 2 b2 AND 0x03;
          channel_mode = drop_bit 6 b3 AND 0x03 in
      case mp3_sample_rates version_bits of
        None \<Rightarrow> Ok info
      | Some sample_rates \<Rightarrow>
      obind (if unat sample_rate_idx < 3
             then obind (idx sample_rates (unat sample_rate_idx)) (\<lambda>r. Ok (info\<lparr>mi_sample_rate := Some r\<rparr>))
             else Ok info) (\<lambda>info.
      obind (if version_bits = 3 \<and> layer_bits = 1 \<and> 0 < bitrate_idx \<and> bitrate_idx < 15
             then obind (idx RATES_V1_L3 (unat bitrate_idx)) (\<lambda>r. Ok (info\<lparr>mi_bitrate_kbps := Some r\<rparr>))
             else if (version_bits = 0 \<or> version_bits = 2) \<and> layer_bits = 1 \<and> 0 < bitrate_idx \<and> bitrate_idx < 15
             then obind (idx RATES_V2_L3 (unat bitrate_idx)) (\<lambda>r. Ok (info\<lparr>mi_bitrate_kbps := Some r\<rparr>))
             else Ok info) (\<lambda>info.
      Ok (info\<lparr>mi_channels := Some (if channel_mode = 3 then 1 else 2)\<rparr>))))))))"

definition sniff_mp3_with_id3 :: "u8 list \<Rightarrow> (unit, magic_info) outcome" where
  "sniff_mp3_with_id3 buf =
     (let info = MagicInfo_new MtMp3 in
      obind (idx buf 6) (\<lambda>b6. obind (idx buf 7) (\<lambda>b7. obind (idx buf 8) (\<lambda>b8. obind (idx buf 9) (\<lambda>b9.
      let id3_size = push_bit 21 (ucast b6 AND 0x7f) OR push_bit 14 (ucast b7 AND 0x7f) OR
                     push_bit 7 (ucast b8 AND 0x7f) OR (ucast b9 AND 0x7f) :: u64;
          frame_start = 10 + unat id3_size in
      if frame_start + 4 \<le> length buf then
        obind (sub_slice buf frame_start (length buf)) (\<lambda>frame. parse_mp3_frame frame info)
      else Ok info)))))"

definition sniff_flac :: "u8 list \<Rightarrow> (unit, magic_info) outcome" where
  "sniff_flac buf =
     (let info = MagicInfo_new MtFlac in
      obind (idx buf 4) (\<lambda>b4.
      if b4 AND 0x7f \<noteq> 0 then Ok info
      else
      obind (idx buf 18) (\<lambda>s0. obind (idx buf 19) (\<lambda>s1. obind (idx buf 20) (\<lambda>s2.
      obind (idx buf 21) (\<lambda>b21. obind (be32 buf 22) (\<lambda>total_lo.
      let sample_rate = push_bit 12 (ucast s0) OR push_bit 4 (ucast s1) OR drop_bit 4 (ucast s2) :: u32;
          channels = (drop_bit 1 s2 AND 0x07) + 1;
          total = push_bit 32 (ucast (b21 AND 0x0f)) OR ucast total_lo :: u64;
          info = info\<lparr>mi_sample_rate := Some sample_rate, mi_channels := Some channels\<rparr> in
      Ok (if 0 < sample_rate \<and> 0 < total then info\<lparr>mi_duration_secs := Some (ucast (total div ucast sample_rate))\<rparr>
          else info))))))))"

text \<open>
  \<open>*\<close> and \<open>/\<close> of \<open>u32\<close>.  An overflow panics in a build with overflow checks and wraps in one
  without; a division by zero panics in both.
\<close>

definition u32_mul :: "bool \<Rightarrow> u32 \<Rightarrow> u32 \<Rightarrow> (unit, u32) outcome" where
  "u32_mul checks a b = (if checks \<and> 2 ^ 32 \<le> unat a * unat b then Panic else Ok (a * b))"

definition u32_div :: "u32 \<Rightarrow> u32 \<Rightarrow> (unit, u32) outcome" where
  "u32_div a b = (if b = 0 then Panic else Ok (a div b))"

definition wav_duration :: "bool \<Rightarrow> u32 \<Rightarrow> magic_info \<Rightarrow> (unit, magic_info) outcome" where
  "wav_duration checks chunk_size info =
     (case (mi_sample_rate info, mi_channels info) of
        (Some sr, Some ch) \<Rightarrow>
          let bytes_per_sample = 2 * ucast ch in
          if 0 < bytes_per_sample \<and> 0 < sr then
            obind (u32_mul checks sr bytes_per_sample) (\<lambda>rate. obind (u32_div chunk_size rate) (\<lambda>secs.
            Ok (info\<lparr>mi_duration_secs := Some secs\<rparr>)))
          else Ok info
      | _ \<Rightarrow> Ok info)"

function wav_loop :: "bool \<Rightarrow> u8 list \<Rightarrow> nat \<Rightarrow> magic_info \<Rightarrow> (unit, magic_info) outcome" where
  "wav_loop checks buf pos info =
     (if \<not> pos + 8 < length buf then Ok info
      else
      obind (sub_slice buf pos (pos + 4)) (\<lambda>id4.
      obind (le32 buf (pos + 4)) (\<lambda>chunk_size.
      let advance = 8 + unat chunk_size + unat (chunk_size AND 1) in
      if id4 = bstr ''fmt '' \<and> pos + 8 + 16 \<le> length buf then
        obind (le16 buf (pos + 10)) (\<lambda>channels. obind (le32 buf (pos + 12)) (\<lambda>rate.
        wav_loop checks buf (pos + advance) (info\<lparr>mi_channels := Some (ucast channels), mi_sample_rate := Some rate\<rparr>)))
      else if id4 = bstr ''data'' then wav_duration checks chunk_size info
      else wav_loop checks buf (pos + advance) info)))"
  by pat_completeness auto
termination by (relation "measure (\<lambda>(checks, buf, pos, info). length buf - pos)") auto

declare wav_loop.simps [simp del]

definition sniff_wav :: "bool \<Rightarrow> u8 list \<Rightarrow> (unit, magic_info) outcome" where
  "sniff_wav checks buf = wav_loop checks buf 12 (MagicInfo_new MtWav)"

text \<open>\<open>mantissa as f64\<close>: the nearest value of 53 significant bits, ties to even.\<close>

definition f64_of_u64 :: "u64 \<Rightarrow> nat" where
  "f64_of_u64 m =
     (let n = unat m; s = length (filter (\<lambda>s. 2 ^ (53 + s) \<le> n) [0..<11]); q = n div 2 ^ s; r = n mod 2 ^ s in
      if s = 0 then n else (if 2 ^ (s - 1) < r \<or> (r = 2 ^ (s - 1) \<and> odd q) then q + 1 else q) * 2 ^ s)"

text \<open>
  The product with a power of two is exact, an overflow is infinite and collapses to 0, as a value
  that underflows does; \<open>round\<close> rounds halves up and the cast saturates.
\<close>

definition extended_f80_to_u32 :: "u8 list \<Rightarrow> u32" where
  "extended_f80_to_u32 b =
     (if length b < 10 then 0
      else
      let exponent = push_bit 8 (ucast (b ! 0 AND 0x7f)) OR ucast (b ! 1) :: u32;
          mantissa = le_word (rev (take 8 (drop 2 b))) :: u64 in
      if exponent = 0 \<or> exponent = 0x7fff then 0
      else
      let k = uint exponent - 16383 - 63; v = f64_of_u64 mantissa in
      if 2 ^ 1024 \<le> v * 2 ^ nat k then 0
      else of_nat (min (2 ^ 32 - 1) (if 0 \<le> k then v * 2 ^ nat k else (2 * v + 2 ^ nat (- k)) div 2 ^ (nat (- k) + 1))))"

function aiff_loop :: "u8 list \<Rightarrow> nat \<Rightarrow> magic_info \<Rightarrow> (unit, magic_info) outcome" where
  "aiff_loop buf pos info =
     (if \<not> pos + 8 \<le> length buf then Ok info
      else
      obind (sub_slice buf pos (pos + 4)) (\<lambda>id4.
      obind (be32 buf (pos + 4)) (\<lambda>chunk_size.
      if id4 = bstr ''COMM'' \<and> pos + 8 + 18 \<le> length buf then
        obind (be16 buf (pos + 8)) (\<lambda>channels. obind (be32 buf (pos + 10)) (\<lambda>frames.
        obind (sub_slice buf (pos + 16) (pos + 26)) (\<lambda>rate.
        let info = info\<lparr>mi_channels := Some (ucast channels)\<rparr>; sr = extended_f80_to_u32 rate in
        if 0 < sr then
          obind (u32_div frames sr) (\<lambda>secs. Ok (info\<lparr>mi_sample_rate := Some sr, mi_duration_secs := Some secs\<rparr>))
        else Ok info)))
      else
      let advance = 8 + unat chunk_size + unat (chunk_size AND 1) in
      if advance \<le> 8 then Ok info else aiff_loop buf (pos + advance) info)))"
  by pat_completeness auto
termination by (relation "measure (\<lambda>(buf, pos, info). length buf - pos)") auto

declare aiff_loop.simps [simp del]

definition sniff_aiff :: "u8 list \<Rightarrow> (unit, magic_info) outcome" where
  "sniff_aiff buf = aiff_loop buf 12 (MagicInfo_new MtAiff)"

definition sniff_ogg :: "u8 list \<Rightarrow> (unit, magic_info) outcome" where
  "sniff_ogg buf =
     (let info = MagicInfo_new MtOgg in
      obind (idx buf 26) (\<lambda>segments.
      let data_start = 27 + unat segments in
      if length buf < data_start + 30 then Ok info
      else
      obind (sub_slice buf (data_start + 1) (data_start + 7)) (\<lambda>codec.
      if codec \<noteq> bstr ''vorbis'' then Ok info
      else
      obind (idx buf data_start) (\<lambda>packet.
      if packet \<noteq> 1 then Ok info
      else
      obind (idx buf (data_start + 11)) (\<lambda>channels. obind (le32 buf (data_start + 12)) (\<lambda>rate.
      Ok (info\<lparr>mi_channels := Some channels, mi_sample_rate := Some rate\<rparr>)))))))"

definition audio_sniff :: "bool \<Rightarrow> u8 list \<Rightarrow> (unit, magic_info option) outcome" where
  "audio_sniff checks buf =
     (if 10 \<le> length buf \<and> starts_with (bstr ''ID3'') buf then found (sniff_mp3_with_id3 buf)
      else
      obind (if 4 \<le> length buf \<and> \<not> is_utf16_bom buf then is_valid_mp3_frame_header buf else Ok False) (\<lambda>mp3.
      if mp3 then found (parse_mp3_frame buf (MagicInfo_new MtMp3))
      else if 42 \<le> length buf \<and> starts_with (bstr ''fLaC'') buf then found (sniff_flac buf)
      else if 44 \<le> length buf \<and> starts_with (bstr ''RIFF'') buf \<and> has_at 8 (bstr ''WAVE'') buf then found (sniff_wav checks buf)
      else if 12 \<le> length buf \<and> starts_with (bstr ''FORM'') buf \<and> (has_at 8 (bstr ''AIFF'') buf \<or> has_at 8 (bstr ''AIFC'') buf)
        then found (sniff_aiff buf)
      else if 35 \<le> length buf \<and> starts_with (bstr ''OggS'') buf then found (sniff_ogg buf)
      else Ok None))"

section \<open>Video\<close>

text \<open>\<open>buf.windows(p.len()).any(|w| w == p)\<close>.\<close>

definition any_window :: "u8 list \<Rightarrow> u8 list \<Rightarrow> bool" where
  "any_window p buf \<longleftrightarrow> list_ex (\<lambda>i. has_at i p buf) [0..<length buf + 1 - length p]"

definition ASF_HEADER_GUID :: "u8 list" where
  "ASF_HEADER_GUID = [0x30, 0x26, 0xB2, 0x75, 0x8E, 0x66, 0xCF, 0x11, 0xA6, 0xD9, 0x00, 0xAA, 0x00, 0x62, 0xCE, 0x6C]"

definition AUDIO_GUID :: "u8 list" where
  "AUDIO_GUID = [0x40, 0x9E, 0x69, 0xF8, 0x4D, 0x5B, 0xCF, 0x11, 0xA8, 0xFD, 0x00, 0x80, 0x5F, 0x5C, 0x44, 0x2B]"

definition VIDEO_GUID :: "u8 list" where
  "VIDEO_GUID = [0xC0, 0xEF, 0x19, 0xBC, 0x4D, 0x5B, 0xCF, 0x11, 0xA8, 0xFD, 0x00, 0x80, 0x5F, 0x5C, 0x44, 0x2B]"

definition sniff_asf :: "u8 list \<Rightarrow> (unit, magic_info) outcome" where
  "sniff_asf buf = Ok ((MagicInfo_new MtAsf)\<lparr>mi_has_audio := any_window AUDIO_GUID buf, mi_has_video := any_window VIDEO_GUID buf\<rparr>)"

definition mp4_containers :: "u8 list list" where
  "mp4_containers = [bstr ''moov'', bstr ''trak'', bstr ''mdia'', bstr ''minf'', bstr ''stbl'']"

text \<open>The effect of a handler box.\<close>

definition mp4_handler :: "u8 list \<Rightarrow> magic_info \<Rightarrow> magic_info" where
  "mp4_handler handler info =
     (if handler = bstr ''vide'' then info\<lparr>mi_has_video := True\<rparr>
      else if handler = bstr ''soun'' then info\<lparr>mi_has_audio := True\<rparr>
      else info)"

function mp4_loop :: "u8 list \<Rightarrow> nat \<Rightarrow> magic_info \<Rightarrow> (unit, magic_info) outcome" where
  "mp4_loop buf pos info =
     (if \<not> pos + 8 < length buf then Ok info
      else
      obind (be32 buf pos) (\<lambda>box_size.
      let box_size = unat box_size in
      if box_size < 8 \<or> length buf < pos + box_size then Ok info
      else
      obind (sub_slice buf (pos + 4) (pos + 8)) (\<lambda>box_type.
      obind (if box_type = bstr ''hdlr'' \<and> pos + 20 \<le> length buf
             then obind (sub_slice buf (pos + 16) (pos + 20)) (\<lambda>handler. Ok (mp4_handler handler info))
             else Ok info) (\<lambda>info.
      if box_type \<in> set mp4_containers then mp4_loop buf (pos + 8) info
      else mp4_loop buf (pos + max box_size 8) info))))"
  by pat_completeness auto
termination by (relation "measure (\<lambda>(buf, pos, info). length buf - pos)") auto

declare mp4_loop.simps [simp del]

definition assume_both_tracks :: "magic_info \<Rightarrow> magic_info" where
  "assume_both_tracks info =
     (if \<not> mi_has_video info \<and> \<not> mi_has_audio info then info\<lparr>mi_has_video := True, mi_has_audio := True\<rparr> else info)"

definition audio_brands :: "u8 list list" where
  "audio_brands = [bstr ''M4A '', bstr ''M4B '', bstr ''M4P '']"

definition sniff_mp4 :: "u8 list \<Rightarrow> (unit, magic_info) outcome" where
  "sniff_mp4 buf =
     obind (sub_slice buf 8 12) (\<lambda>brand.
     obind (mp4_loop buf 0 (MagicInfo_new (if brand = bstr ''qt  '' then MtMov else MtMp4))) (\<lambda>info.
     if brand \<in> set audio_brands \<or> (mi_has_audio info \<and> \<not> mi_has_video info) then
       Ok (info\<lparr>mi_type := MtM4a, mi_has_audio := True, mi_has_video := False\<rparr>)
     else Ok (assume_both_tracks info)))"

function avi_loop :: "u8 list \<Rightarrow> nat \<Rightarrow> magic_info \<Rightarrow> (unit, magic_info) outcome" where
  "avi_loop buf pos info =
     (if \<not> pos + 12 < length buf then Ok info
      else
      obind (sub_slice buf pos (pos + 4)) (\<lambda>id4.
      obind (le32 buf (pos + 4)) (\<lambda>chunk_size.
      obind (if id4 = bstr ''strh'' \<and> pos + 12 \<le> length buf
             then obind (sub_slice buf (pos + 8) (pos + 12)) (\<lambda>fcc.
               Ok (if fcc = bstr ''vids'' then info\<lparr>mi_has_video := True\<rparr>
                   else if fcc = bstr ''auds'' then info\<lparr>mi_has_audio := True\<rparr> else info))
             else Ok info) (\<lambda>info.
      if mi_has_video info \<and> mi_has_audio info then Ok info
      else if chunk_size = 0 then Ok info
      else avi_loop buf (pos + 8 + unat chunk_size) info))))"
  by pat_completeness auto
termination by (relation "measure (\<lambda>(buf, pos, info). length buf - pos)") auto

declare avi_loop.simps [simp del]

definition sniff_avi :: "u8 list \<Rightarrow> (unit, magic_info) outcome" where
  "sniff_avi buf = obind (avi_loop buf 12 (MagicInfo_new MtAvi)) (\<lambda>info. Ok (assume_both_tracks info))"

definition sniff_mkv :: "u8 list \<Rightarrow> (unit, magic_info) outcome" where
  "sniff_mkv buf =
     (let mt = (if list_ex (\<lambda>i. has_at i (bstr ''webm'') buf) [0..<min (length buf) 64 - 4] then MtWebm else MtMkv) in
      Ok ((MagicInfo_new mt)\<lparr>mi_has_video := True, mi_has_audio := True\<rparr>))"

definition video_sniff :: "u8 list \<Rightarrow> (unit, magic_info option) outcome" where
  "video_sniff buf =
     (if 12 \<le> length buf \<and> has_at 4 (bstr ''ftyp'') buf then
        (if take 4 (drop 8 buf) \<in> set heic_brands then Ok None else found (sniff_mp4 buf))
      else if 12 \<le> length buf \<and> starts_with (bstr ''RIFF'') buf \<and> has_at 8 (bstr ''AVI '') buf then found (sniff_avi buf)
      else if 4 \<le> length buf \<and> starts_with [0x1a, 0x45, 0xdf, 0xa3] buf then found (sniff_mkv buf)
      else if 16 \<le> length buf \<and> starts_with ASF_HEADER_GUID buf then found (sniff_asf buf)
      else Ok None)"

end
