(* ===== verification/MagicAmiga.thy ===== *)
theory MagicAmiga
  imports MagicBinary
begin

text \<open>
  \<open>ferail-fs-native\<close>: \<open>magic/amiga.rs\<close>, the formats of the Amiga: hunk binaries, Workbench icons, IFF
  containers, tracker modules, disk images.  All reads are checked ones (\<open>get\<close>), so the functions
  return options and cannot panic.
\<close>

definition be_u32 :: "u8 list \<Rightarrow> nat \<Rightarrow> u32 option" where
  "be_u32 buf off = map_option (\<lambda>b. le_word (rev b)) (slice buf off (off + 4))"

definition be_u16 :: "u8 list \<Rightarrow> nat \<Rightarrow> u16 option" where
  "be_u16 buf off = map_option (\<lambda>b. le_word (rev b)) (slice buf off (off + 2))"

section \<open>Hunk binaries\<close>

text \<open>
  The loop over the resident library names: \<open>None\<close> where a read fails (\<open>?\<close>), \<open>Some None\<close> where a
  length leads past the end and the function returns what it has, and the offset after the list.
\<close>

function hunk_names :: "u8 list \<Rightarrow> nat \<Rightarrow> nat option option" where
  "hunk_names buf off =
     (case be_u32 buf off of
        None \<Rightarrow> None
      | Some len \<Rightarrow>
          if len = 0 then Some (Some (off + 4))
          else
          (case Option.bind (usize_checked_mul (unat len) 4) (usize_checked_add (off + 4)) of
             None \<Rightarrow> None
           | Some off \<Rightarrow> if length buf \<le> off then Some None else hunk_names buf off))"
  by pat_completeness auto
termination
  by (relation "measure (\<lambda>(buf, off). length buf - off)")
    (auto simp: bind_eq_Some_conv usize_checked_mul_Some usize_checked_add_Some)

declare hunk_names.simps [simp del]

definition hunk_type :: "u32 \<Rightarrow> magic_type option" where
  "hunk_type magic = (if magic = 0x3F3 then Some MtExeAmiga else if magic = 0x3E7 then Some MtObjAmiga
     else if magic = 0x3FA then Some MtLibAmiga else None)"

definition sniff_hunk :: "u8 list \<Rightarrow> magic_info option" where
  "sniff_hunk buf =
     Option.bind (be_u32 buf 0) (\<lambda>magic.
     Option.bind (hunk_type magic) (\<lambda>magic_type.
     let info = (MagicInfo_new magic_type)\<lparr>mi_arch := ArchM68k\<rparr> in
     if magic_type = MtExeAmiga then
       (case hunk_names buf 4 of
          None \<Rightarrow> None
        | Some None \<Rightarrow> Some info
        | Some (Some off) \<Rightarrow>
            (case be_u32 buf off of
               Some table_size \<Rightarrow>
                 if 0 < table_size \<and> table_size < 10000 then Some (info\<lparr>mi_hunk_count := Some table_size\<rparr>) else Some info
             | None \<Rightarrow> Some info))
     else Some info))"

section \<open>Icons and IFF containers\<close>

definition value_or :: "'a \<Rightarrow> 'a option \<Rightarrow> 'a" where
  "value_or d x = (case x of None \<Rightarrow> d | Some v \<Rightarrow> v)"

definition filter_option :: "('a \<Rightarrow> bool) \<Rightarrow> 'a option \<Rightarrow> 'a option" where
  "filter_option P x = (case x of None \<Rightarrow> None | Some v \<Rightarrow> if P v then Some v else None)"

definition sniff_icon :: "u8 list \<Rightarrow> magic_info option" where
  "sniff_icon buf =
     Option.bind (be_u16 buf 0) (\<lambda>magic.
     if magic \<noteq> 0xE310 then None
     else
     let info = MagicInfo_new MtAmigaIcon; w = value_or 0 (be_u16 buf 12); h = value_or 0 (be_u16 buf 14);
         info = (if 0 < w \<and> 0 < h \<and> w \<le> 4096 \<and> h \<le> 4096
                 then info\<lparr>mi_width := Some (ucast w), mi_height := Some (ucast h)\<rparr> else info) in
     Some (info\<lparr>mi_icon_kind := filter_option (\<lambda>t. 1 \<le> t \<and> t \<le> 8) (get_at buf 48)\<rparr>))"

definition sniff_iff :: "u8 list \<Rightarrow> magic_info option" where
  "sniff_iff buf =
     (if length buf < 12 \<or> \<not> has_at 0 (bstr ''FORM'') buf then None
      else
      let form = take 4 (drop 8 buf) in
      if form = bstr ''ILBM'' \<or> form = bstr ''PBM '' \<or> form = bstr ''ACBM'' then
        let info = MagicInfo_new MtIlbm in
        Some (if slice buf 12 16 = Some (bstr ''BMHD'') then
                info\<lparr>mi_width := map_option ucast (be_u16 buf 20), mi_height := map_option ucast (be_u16 buf 22),
                  mi_bit_depth := filter_option (\<lambda>d. 0 < d \<and> d \<le> 32) (get_at buf 28)\<rparr>
              else info)
      else if form = bstr ''8SVX'' \<or> form = bstr ''16SV'' then
        let info = MagicInfo_new MtSvx8;
            info = (if slice buf 12 16 = Some (bstr ''VHDR'') then
                info\<lparr>mi_sample_rate := filter_option (\<lambda>r. 0 < r) (map_option ucast (be_u16 buf 32))\<rparr> else info) in
        Some (info\<lparr>mi_channels := Some 1\<rparr>)
      else if form = bstr ''ANIM'' then Some ((MagicInfo_new MtIffAnim)\<lparr>mi_has_video := True\<rparr>)
      else if form = bstr ''SMUS'' then Some (MagicInfo_new MtIffSmus)
      else None)"

section \<open>Tracker modules and the rest\<close>

definition title_plausible :: "u8 list \<Rightarrow> bool" where
  "title_plausible buf \<longleftrightarrow> (case slice buf 0 20 of None \<Rightarrow> False
     | Some t \<Rightarrow> list_all (\<lambda>b. b = 0 \<or> (0x20 \<le> b \<and> b \<le> 0x7e) \<or> b = 0x09) t)"

definition tracker_channels :: "u8 list \<Rightarrow> u8 option" where
  "tracker_channels tag =
     (if tag \<in> {bstr ''M.K.'', bstr ''M!K!'', bstr ''FLT4'', bstr ''4CHN'', bstr ''M&K!'', bstr ''N.T.''} then Some 4
      else if tag = bstr ''6CHN'' then Some 6
      else if tag \<in> {bstr ''8CHN'', bstr ''FLT8'', bstr ''OCTA'', bstr ''CD81''} then Some 8
      else if tag = bstr ''16CN'' then Some 16
      else if tag = bstr ''32CN'' then Some 32
      else None)"

definition sniff_tracker :: "u8 list \<Rightarrow> magic_info option" where
  "sniff_tracker buf =
     (let info = MagicInfo_new MtTrackerModule in
      case Option.bind (filter_option (\<lambda>_. title_plausible buf) (slice buf 1080 1084)) tracker_channels of
        Some ch \<Rightarrow> Some (info\<lparr>mi_channels := Some ch, mi_tracker_kind := Some ''ProTracker''\<rparr>)
      | None \<Rightarrow>
      if starts_with (bstr ''Extended Module: '') buf then Some (info\<lparr>mi_tracker_kind := Some ''FastTracker XM''\<rparr>)
      else if starts_with (bstr ''IMPM'') buf then Some (info\<lparr>mi_tracker_kind := Some ''Impulse Tracker''\<rparr>)
      else if slice buf 44 48 = Some (bstr ''SCRM'') then Some (info\<lparr>mi_tracker_kind := Some ''ScreamTracker 3''\<rparr>)
      else
      (case slice buf 0 4 of
         Some tag \<Rightarrow>
           if starts_with (bstr ''MMD'') tag \<and> 0x30 \<le> tag ! 3 \<and> tag ! 3 \<le> 0x33
           then Some (info\<lparr>mi_tracker_kind := Some ''OctaMED''\<rparr>) else None
       | None \<Rightarrow> None))"

definition sniff_misc :: "u8 list \<Rightarrow> magic_info option" where
  "sniff_misc buf =
     (if starts_with (bstr ''DOS'') buf \<and> (case get_at buf 3 of Some flag \<Rightarrow> flag \<le> 7 | None \<Rightarrow> False)
        then Some (MagicInfo_new MtAdfDisk)
      else if starts_with (bstr ''DMS!'') buf then Some (MagicInfo_new MtDmsDisk)
      else if starts_with (bstr ''LZX'') buf then Some (MagicInfo_new MtLzx)
      else if starts_with (bstr ''@database'') buf then Some (MagicInfo_new MtAmigaGuide)
      else None)"

text \<open>The first of several results.\<close>

fun first_some :: "'a option list \<Rightarrow> 'a option" where
  "first_some [] = None"
| "first_some (x # xs) = (case x of Some a \<Rightarrow> Some a | None \<Rightarrow> first_some xs)"

definition amiga_sniff :: "u8 list \<Rightarrow> magic_info option" where
  "amiga_sniff buf = first_some [sniff_hunk buf, sniff_icon buf, sniff_iff buf, sniff_tracker buf, sniff_misc buf]"

end
