(* ===== verification/MagicZip.thy ===== *)
theory MagicZip
  imports MagicBinary Utf8
begin

text \<open>
  \<open>ferail-fs-native\<close>: \<open>magic/zip.rs\<close> and \<open>magic/ole.rs\<close>, the containers that are refined by a second
  look: the central directory of a ZIP file and the directory sector of a compound file.  \<open>u64\<close>
  values are naturals below \<open>2 ^ 64\<close>, with the saturation written out.  The targeted read of the file
  is the parameter \<open>read_at\<close>.
\<close>

section \<open>Windows\<close>

definition find_subsequence :: "u8 list \<Rightarrow> u8 list \<Rightarrow> nat option" where
  "find_subsequence haystack needle =
     (if needle = [] \<or> length haystack < length needle then None
      else find (\<lambda>i. has_at i needle haystack) [0..<length haystack + 1 - length needle])"

definition find_last_subsequence :: "u8 list \<Rightarrow> u8 list \<Rightarrow> nat option" where
  "find_last_subsequence haystack needle =
     (if needle = [] \<or> length haystack < length needle then None
      else find (\<lambda>i. has_at i needle haystack) (rev [0..<length haystack + 1 - length needle]))"

section \<open>ZIP: the first local header\<close>

definition zip_info :: "bool \<Rightarrow> magic_info" where
  "zip_info is_encrypted = (MagicInfo_new (if is_encrypted then MtZipEncrypted else MtZip))\<lparr>mi_is_encrypted := is_encrypted\<rparr>"

definition zip_sniff :: "u8 list \<Rightarrow> (unit, magic_info option) outcome" where
  "zip_sniff buf =
     (if length buf < 30 \<or> \<not> starts_with (bstr ''PK'' @ [3, 4]) buf then Ok None
      else
      obind (le16 buf 6) (\<lambda>flags.
      let is_encrypted = (flags AND 0x0001 \<noteq> 0) in
      obind (le16 buf 26) (\<lambda>name_len.
      let name_len = unat name_len in
      if length buf < 30 + name_len then Ok (Some (zip_info is_encrypted))
      else
      obind (sub_slice buf 30 (30 + name_len)) (\<lambda>name.
      case from_utf8 name of
        None \<Rightarrow> Ok (Some (zip_info is_encrypted))
      | Some first_name \<Rightarrow>
          if first_name = ascii ''[Content_Types].xml'' then
            Ok (Some ((MagicInfo_new MtDocWord)\<lparr>mi_is_encrypted := is_encrypted, mi_type := MtZip\<rparr>))
          else Ok (Some (zip_info is_encrypted))))))"

section \<open>ZIP: the central directory\<close>

record central_dir_info =
  cd_file_count :: u32
  cd_root :: "rust_string option"
  cd_entry_names :: "rust_string list"

definition MAX_CD_ENTRIES_TO_SCAN :: nat where "MAX_CD_ENTRIES_TO_SCAN = 200"
definition MAX_CD_READ_BYTES :: nat where "MAX_CD_READ_BYTES = 128 * 1024"

definition EOCD_SIG :: "u8 list" where "EOCD_SIG = [0x50, 0x4b, 0x05, 0x06]"
definition EOCD64_SIG :: "u8 list" where "EOCD64_SIG = [0x50, 0x4b, 0x06, 0x06]"
definition CD_SIG :: "u8 list" where "CD_SIG = [0x50, 0x4b, 0x01, 0x02]"

function walk_cd_loop :: "u8 list \<Rightarrow> nat \<Rightarrow> rust_string list \<Rightarrow> (unit, rust_string list) outcome" where
  "walk_cd_loop buf pos names =
     (if \<not> (pos + 46 \<le> length buf \<and> length names < MAX_CD_ENTRIES_TO_SCAN) then Ok names
      else
      (case find_subsequence (drop pos buf) CD_SIG of
         None \<Rightarrow> Ok names
       | Some off \<Rightarrow>
      let pos = pos + off in
      if length buf < pos + 46 then Ok names
      else
      obind (le16 buf (pos + 28)) (\<lambda>name_len.
      obind (le16 buf (pos + 30)) (\<lambda>extra_len.
      obind (le16 buf (pos + 32)) (\<lambda>comment_len.
      if length buf < pos + 46 + unat name_len then Ok names
      else
      obind (sub_slice buf (pos + 46) (pos + 46 + unat name_len)) (\<lambda>name.
      walk_cd_loop buf (pos + (46 + unat name_len + unat extra_len + unat comment_len))
        (case from_utf8 name of Some n \<Rightarrow> names @ [n] | None \<Rightarrow> names)))))))"
  by pat_completeness auto
termination by (relation "measure (\<lambda>(buf, pos, names). length buf - pos)") auto

declare walk_cd_loop.simps [simp del]

definition walk_central_directory :: "u8 list \<Rightarrow> (unit, rust_string list) outcome" where
  "walk_central_directory buf = walk_cd_loop buf 0 []"

text \<open>The set of roots holds at most one name before the loop returns.\<close>

fun roots_loop :: "rust_string option \<Rightarrow> rust_string list \<Rightarrow> rust_string option" where
  "roots_loop roots [] = roots"
| "roots_loop roots (name # names) =
     (let trimmed = dropWhile (\<lambda>c. c = 0x2F) name in
      if trimmed = [] then roots_loop roots names
      else if 0x2F \<notin> set trimmed then None
      else
      let head = takeWhile (\<lambda>c. c \<noteq> 0x2F) trimmed in
      case roots of
        None \<Rightarrow> roots_loop (Some head) names
      | Some root \<Rightarrow> if head = root then roots_loop roots names else None)"

definition zip_single_root :: "rust_string list \<Rightarrow> rust_string option" where
  "zip_single_root entry_names = roots_loop None entry_names"

definition sat64 :: "nat \<Rightarrow> nat" where
  "sat64 n = min n (2 ^ 64 - 1)"

text \<open>The counts and the range of the central directory, from the classic record or the ZIP64 one.\<close>

definition eocd_fields :: "u8 list \<Rightarrow> nat \<Rightarrow> (unit, nat \<times> nat \<times> nat) outcome" where
  "eocd_fields tail_buf eocd_pos =
     obind (le16 tail_buf (eocd_pos + 10)) (\<lambda>total_entries.
     obind (le32 tail_buf (eocd_pos + 12)) (\<lambda>cd_size.
     obind (le32 tail_buf (eocd_pos + 16)) (\<lambda>cd_offset.
     let classic = Ok (unat total_entries, unat cd_size, unat cd_offset) in
     if total_entries = 0xFFFF \<or> cd_size = 0xFFFFFFFF \<or> cd_offset = 0xFFFFFFFF then
       (case find_last_subsequence (take eocd_pos tail_buf) EOCD64_SIG of
          None \<Rightarrow> classic
        | Some p64 \<Rightarrow>
            if p64 + 56 \<le> length tail_buf then
              obind (sub_slice tail_buf (p64 + 32) (p64 + 40)) (\<lambda>total.
              obind (sub_slice tail_buf (p64 + 40) (p64 + 48)) (\<lambda>size.
              obind (sub_slice tail_buf (p64 + 48) (p64 + 56)) (\<lambda>offset.
              Ok (unat (le_word total :: u64), unat (le_word size :: u64), unat (le_word offset :: u64)))))
            else classic)
     else classic)))"

text \<open>The names of the entries, from the window that holds the range.\<close>

definition entry_names_of ::
    "(nat \<Rightarrow> nat \<Rightarrow> u8 list option) \<Rightarrow> u8 list \<Rightarrow> u8 list \<Rightarrow> nat \<Rightarrow> nat \<Rightarrow> nat \<Rightarrow> (unit, rust_string list) outcome" where
  "entry_names_of read_at header_buf tail_buf tail_start cd_offset cd_end =
     (if cd_end \<le> cd_offset then Ok []
      else if tail_start \<le> cd_offset then
        obind (sub_slice tail_buf (cd_offset - tail_start) (min (cd_end - tail_start) (length tail_buf))) walk_central_directory
      else if cd_end \<le> length header_buf then obind (sub_slice header_buf cd_offset cd_end) walk_central_directory
      else
      (case read_at cd_offset (min (cd_end - cd_offset) MAX_CD_READ_BYTES) of
         Some cd_buf \<Rightarrow> walk_central_directory cd_buf
       | None \<Rightarrow> Ok []))"

definition parse_central_directory ::
    "(nat \<Rightarrow> nat \<Rightarrow> u8 list option) \<Rightarrow> u8 list \<Rightarrow> u8 list \<Rightarrow> nat \<Rightarrow> (unit, central_dir_info option) outcome" where
  "parse_central_directory read_at header_buf tail_buf file_size =
     (case find_last_subsequence tail_buf EOCD_SIG of
        None \<Rightarrow> Ok None
      | Some eocd_pos \<Rightarrow>
      if length tail_buf < eocd_pos + 22 then Ok None
      else
      obind (eocd_fields tail_buf eocd_pos) (\<lambda>(total_entries, cd_size, cd_offset).
      let tail_start = file_size - length tail_buf;
          eocd_abs = tail_start + eocd_pos;
          cd_end = min (sat64 (cd_offset + cd_size)) eocd_abs in
      obind (entry_names_of read_at header_buf tail_buf tail_start cd_offset cd_end) (\<lambda>entry_names.
      Ok (Some \<lparr>cd_file_count = of_nat (min total_entries (2 ^ 32 - 1)), cd_root = zip_single_root entry_names,
        cd_entry_names = entry_names\<rparr>))))"

definition string_starts_with :: "rust_string \<Rightarrow> rust_string \<Rightarrow> bool" where
  "string_starts_with p s \<longleftrightarrow> take (length p) s = p"

definition string_ends_with :: "rust_string \<Rightarrow> rust_string \<Rightarrow> bool" where
  "string_ends_with p s \<longleftrightarrow> length p \<le> length s \<and> drop (length s - length p) s = p"

definition has_vba :: "rust_string list \<Rightarrow> bool" where
  "has_vba names \<longleftrightarrow> list_ex (\<lambda>n. n \<in> {ascii ''word/vbaProject.bin'', ascii ''xl/vbaProject.bin'', ascii ''ppt/vbaProject.bin''}) names"

definition any_starts_with :: "string \<Rightarrow> rust_string list \<Rightarrow> bool" where
  "any_starts_with p names \<longleftrightarrow> list_ex (string_starts_with (ascii p)) names"

text \<open>The type from the names of the entries: an Office document, a package, or the type as it was.\<close>

definition office_info :: "magic_info \<Rightarrow> bool \<Rightarrow> magic_type \<Rightarrow> magic_type \<Rightarrow> magic_info" where
  "office_info info vba with_macros plain = info\<lparr>mi_type := (if vba then with_macros else plain), mi_has_macros := vba\<rparr>"

definition reclassify :: "rust_string list \<Rightarrow> magic_info \<Rightarrow> magic_info" where
  "reclassify names info =
     (let has_content_types = ascii ''[Content_Types].xml'' \<in> set names;
          android_manifest = ascii ''AndroidManifest.xml'' \<in> set names;
          has_class = list_ex (string_ends_with (ascii ''.class'')) names;
          has_meta_inf_manifest = ascii ''META-INF/MANIFEST.MF'' \<in> set names;
          vba = has_vba names in
      if has_content_types \<and> any_starts_with ''word/'' names then office_info info vba MtDocWordMacro MtDocWord
      else if has_content_types \<and> any_starts_with ''xl/'' names then office_info info vba MtDocExcelMacro MtDocExcel
      else if has_content_types \<and> any_starts_with ''ppt/'' names then office_info info vba MtDocPowerPointMacro MtDocPowerPoint
      else if android_manifest then info\<lparr>mi_type := MtAppApk\<rparr>
      else if has_meta_inf_manifest \<and> has_class then info\<lparr>mi_type := MtAppJar\<rparr>
      else info)"

definition refine_with_central_directory ::
    "(nat \<Rightarrow> nat \<Rightarrow> u8 list option) \<Rightarrow> u8 list \<Rightarrow> u8 list \<Rightarrow> nat \<Rightarrow> magic_info \<Rightarrow> (unit, magic_info) outcome" where
  "refine_with_central_directory read_at header_buf tail_buf file_size info =
     obind (parse_central_directory read_at header_buf tail_buf file_size) (\<lambda>cd.
     case cd of
       None \<Rightarrow> Ok info
     | Some cd \<Rightarrow>
         let info = info\<lparr>mi_file_count := Some (cd_file_count cd)\<rparr>;
             info = (case cd_root cd of Some root \<Rightarrow> info\<lparr>mi_zip_root := Some root\<rparr> | None \<Rightarrow> info) in
         Ok (if mi_type info \<in> {MtZip, MtZipEncrypted} then reclassify (cd_entry_names cd) info else info))"

section \<open>Compound files\<close>

definition CFBF_MAGIC :: "u8 list" where
  "CFBF_MAGIC = [0xD0, 0xCF, 0x11, 0xE0, 0xA1, 0xB1, 0x1A, 0xE1]"

definition ole_sniff :: "u8 list \<Rightarrow> magic_info option" where
  "ole_sniff buf = (if length buf < 512 \<or> \<not> starts_with CFBF_MAGIC buf then None else Some (MagicInfo_new MtOleCompound))"

text \<open>\<open>chunks_exact(128)\<close>.\<close>

function chunks_exact :: "nat \<Rightarrow> 'a list \<Rightarrow> 'a list list" where
  "chunks_exact n xs = (if n = 0 \<or> length xs < n then [] else take n xs # chunks_exact n (drop n xs))"
  by pat_completeness auto
termination by (relation "measure (\<lambda>(n, xs). length xs)") auto

declare chunks_exact.simps [simp del]

text \<open>\<open>char::from_u32\<close> of a UTF-16 unit, with the replacement character for a surrogate.\<close>

definition unit_char :: "u16 \<Rightarrow> u32" where
  "unit_char u = (if is_high_surrogate u \<or> is_low_surrogate u then 0xFFFD else ucast u)"

text \<open>What the loop over the directory entries has seen.\<close>

record ole_scan =
  os_app :: "magic_type option"
  os_has_macros :: bool
  os_encrypted :: bool

definition or_app :: "magic_type \<Rightarrow> ole_scan \<Rightarrow> ole_scan" where
  "or_app t scan = scan\<lparr>os_app := (case os_app scan of Some a \<Rightarrow> Some a | None \<Rightarrow> Some t)\<rparr>"

definition ole_name :: "rust_string \<Rightarrow> ole_scan \<Rightarrow> ole_scan" where
  "ole_name name scan =
     (if name = ascii ''WordDocument'' then or_app MtDocWordOle scan
      else if name \<in> {ascii ''Workbook'', ascii ''Book''} then or_app MtDocExcelOle scan
      else if name = ascii ''PowerPoint Document'' then or_app MtDocPowerPointOle scan
      else if name = ascii ''EncryptedPackage'' then scan\<lparr>os_encrypted := True\<rparr>
      else if name \<in> {ascii ''Macros'', ascii ''VBA'', ascii ''_VBA_PROJECT_CUR'', ascii ''_VBA_PROJECT''}
        then scan\<lparr>os_has_macros := True\<rparr>
      else scan)"

fun ole_loop :: "u8 list list \<Rightarrow> ole_scan \<Rightarrow> (unit, ole_scan) outcome" where
  "ole_loop [] scan = Ok scan"
| "ole_loop (entry # entries) scan =
     obind (le16 entry 64) (\<lambda>name_len.
     if \<not> (2 \<le> unat name_len \<and> unat name_len \<le> 64) then ole_loop entries scan
     else
     obind (sub_slice entry 0 (unat name_len - 2)) (\<lambda>name.
     ole_loop entries (ole_name (map unit_char (u16_units name)) scan)))"

definition refine_with_directory ::
    "(nat \<Rightarrow> nat \<Rightarrow> u8 list option) \<Rightarrow> u8 list \<Rightarrow> magic_info \<Rightarrow> (unit, magic_info) outcome" where
  "refine_with_directory read_at header_buf info =
     (if mi_type info \<noteq> MtOleCompound \<or> length header_buf < 512 then Ok info
      else
      obind (le16 header_buf 30) (\<lambda>sector_shift.
      if \<not> (7 \<le> unat sector_shift \<and> unat sector_shift \<le> 15) then Ok info
      else
      let sector_size = 2 ^ unat sector_shift in
      obind (le32 header_buf 48) (\<lambda>first_dir_sector.
      if 0xFFFFFFFA \<le> first_dir_sector then Ok info
      else
      let dir_offset = (unat first_dir_sector + 1) * 2 ^ unat sector_shift in
      obind (if dir_offset + sector_size \<le> length header_buf
             then obind (sub_slice header_buf dir_offset (dir_offset + sector_size)) (\<lambda>s. Ok (Some s))
             else Ok (read_at dir_offset sector_size)) (\<lambda>sector.
      case sector of
        None \<Rightarrow> Ok info
      | Some sector \<Rightarrow>
          obind (ole_loop (chunks_exact 128 sector) \<lparr>os_app = None, os_has_macros = False, os_encrypted = mi_is_encrypted info\<rparr>) (\<lambda>scan.
          Ok (info\<lparr>mi_is_encrypted := os_encrypted scan,
               mi_type := (case os_app scan of Some app \<Rightarrow> app | None \<Rightarrow> mi_type info),
               mi_has_macros := os_has_macros scan\<rparr>))))))"

end
