(* ===== verification/MagicText.thy ===== *)
theory MagicText
  imports MagicBinary TextEncoding EntryLabels
begin

text \<open>
  \<open>ferail-fs-native\<close>: \<open>magic/text.rs\<close> and \<open>magic/sidecar.rs\<close>, scripts, markup, settings, plain text,
  NFO files and checksum lists.  Positions in a string count characters.
\<close>

section \<open>Strings\<close>

definition trim_start :: "rust_string \<Rightarrow> rust_string" where
  "trim_start s = dropWhile is_whitespace s"

definition text_starts_with :: "string \<Rightarrow> rust_string \<Rightarrow> bool" where
  "text_starts_with p s \<longleftrightarrow> take (length p) s = ascii p"

definition str_find :: "rust_string \<Rightarrow> rust_string \<Rightarrow> nat option" where
  "str_find p s = find (\<lambda>i. take (length p) (drop i s) = p) [0..<length s + 1 - length p]"

definition str_rfind :: "rust_string \<Rightarrow> rust_string \<Rightarrow> nat option" where
  "str_rfind p s = find (\<lambda>i. take (length p) (drop i s) = p) (rev [0..<length s + 1 - length p])"

definition is_ascii_hexdigit :: "u32 \<Rightarrow> bool" where
  "is_ascii_hexdigit c \<longleftrightarrow> is_digit c \<or> (0x41 \<le> c \<and> c \<le> 0x46) \<or> (0x61 \<le> c \<and> c \<le> 0x66)"

definition ascii_upper :: "rust_string \<Rightarrow> rust_string" where
  "ascii_upper s = map (\<lambda>c. if 0x61 \<le> c \<and> c \<le> 0x7A then c - 0x20 else c) s"

section \<open>Text and scripts\<close>

definition sniff_shebang :: "u8 list \<Rightarrow> (unit, magic_type \<times> string option) outcome" where
  "sniff_shebang buf =
     (let stop = (let n = length (takeWhile (\<lambda>b. b \<noteq> 0x0A) buf) in if n < length buf then n else min (length buf) 128) in
      obind (sub_slice buf 2 stop) (\<lambda>s.
      let line = ascii_lower (from_utf8_lossy s); has = (\<lambda>w. contains line (ascii w)) in
      Ok (if has ''bash'' \<or> has ''/sh'' \<or> has '' sh'' then (MtScriptBash, Some ''bash'')
          else if has ''python'' then (MtScriptPython, Some ''python'')
          else if has ''perl'' then (MtScriptPerl, Some ''perl'')
          else if has ''ruby'' then (MtScriptRuby, Some ''ruby'')
          else if has ''node'' then (MtScriptNode, Some ''node'')
          else (MtScriptOther, None))))"

fun ini_scan :: "rust_string list \<Rightarrow> bool \<Rightarrow> nat \<Rightarrow> bool \<times> nat" where
  "ini_scan [] has_section kv = (has_section, kv)"
| "ini_scan (line # lines) has_section kv =
     (let t = trim line in
      if text_starts_with '';'' t \<or> text_starts_with ''#'' t then ini_scan lines has_section kv
      else if text_starts_with ''['' t \<and> t \<noteq> [] \<and> last t = 0x5D \<and> 2 < utf8_length t then ini_scan lines True kv
      else if 0x3D \<in> set t \<and> \<not> text_starts_with ''='' t then ini_scan lines has_section (kv + 1)
      else ini_scan lines has_section kv)"

definition looks_like_ini :: "rust_string \<Rightarrow> bool" where
  "looks_like_ini text \<longleftrightarrow> (case ini_scan (take 30 (text_lines text)) False 0 of (has_section, kv) \<Rightarrow> has_section \<and> 2 \<le> kv)"

definition looks_like_url_shortcut :: "rust_string \<Rightarrow> bool" where
  "looks_like_url_shortcut text \<longleftrightarrow>
     (case find (\<lambda>l. trim l \<noteq> []) (text_lines text) of
        None \<Rightarrow> False | Some l \<Rightarrow> eq_ignore_ascii_case (trim l) (ascii ''[InternetShortcut]''))"

text \<open>The share of printable bytes among the first 512.\<close>

definition printable_percent :: "u8 list \<Rightarrow> nat" where
  "printable_percent buf =
     (let sample = take 512 buf in
      length (filter (\<lambda>b. is_ascii_graphic b \<or> b \<in> {0x20, 0x0A, 0x0D, 0x09}) sample) * 100 div max (length sample) 1)"

definition text_type :: "bool \<Rightarrow> rust_string \<Rightarrow> magic_type" where
  "text_type has_utf8_bom text =
     (let trimmed = trim_start text; lower = ascii_lower trimmed in
      if text_starts_with ''<?xml'' trimmed then
        (if contains text (ascii ''<svg'') \<or> contains text (ascii ''svg'') then MtSvg else MtXml)
      else if text_starts_with ''<!doctype html'' lower \<or> text_starts_with ''<html'' lower then MtHtml
      else if text_starts_with ''Windows Registry Editor'' trimmed then MtTextReg
      else if looks_like_url_shortcut text then MtUrl
      else if looks_like_ini text then MtTextIni
      else if text_starts_with ''{'' trimmed \<or> text_starts_with ''['' trimmed then MtJson
      else if has_utf8_bom then MtUtf8Bom
      else MtTextPlain)"

definition text_sniff :: "u8 list \<Rightarrow> (unit, magic_info option) outcome" where
  "text_sniff buf =
     (if buf = [] then Ok None
      else if 2 \<le> length buf \<and> has_at 0 (bstr ''#!'') buf then
        obind (sniff_shebang buf) (\<lambda>(mt, interp). Ok (Some ((MagicInfo_new mt)\<lparr>mi_interpreter := interp\<rparr>)))
      else if 2 \<le> length buf \<and> has_at 0 [0xff, 0xfe] buf then Ok (Some (MagicInfo_new MtUtf16Le))
      else if 2 \<le> length buf \<and> has_at 0 [0xfe, 0xff] buf then Ok (Some (MagicInfo_new MtUtf16Be))
      else
      let has_utf8_bom = (3 \<le> length buf \<and> has_at 0 [0xef, 0xbb, 0xbf] buf) in
      if printable_percent buf < 85 then Ok None
      else Ok (Some (MagicInfo_new (text_type has_utf8_bom (from_utf8_lossy (take 512 buf))))))"

section \<open>Sidecars\<close>

definition encoding_name :: "text_encoding \<Rightarrow> string" where
  "encoding_name e = (case e of EncUtf8 \<Rightarrow> ''UTF-8'' | EncUtf16Le \<Rightarrow> ''UTF-16 LE'' | EncUtf16Be \<Rightarrow> ''UTF-16 BE''
     | EncCp437 \<Rightarrow> ''CP437'' | EncLatin1 \<Rightarrow> ''Latin-1'')"

definition is_name_char :: "u32 \<Rightarrow> bool" where
  "is_name_char c \<longleftrightarrow> is_digit c \<or> is_ascii_alphabetic c \<or> c \<in> {0x5F, 0x2D, 0x3A}"

definition after_first :: "string \<Rightarrow> rust_string \<Rightarrow> rust_string option" where
  "after_first p s = map_option snd (split_once (ascii p) s)"

lemma split_once_shorter: "split_once p s = Some (a, b) \<Longrightarrow> length b + length p \<le> length s"
proof (induction p s arbitrary: a b rule: split_once.induct)
  case (2 p c s)
  then show ?case
    by (auto simp: strip_prefix_def split: option.splits if_splits dest: arg_cong [where f = length])
qed (auto split: if_splits)

lemma after_first_shorter: "after_first p s = Some b \<Longrightarrow> length b + length p \<le> length s"
  using split_once_shorter [of "ascii p" s] by (auto simp: after_first_def ascii_def)

function first_xml_root :: "rust_string \<Rightarrow> rust_string option" where
  "first_xml_root rest =
     (case after_first ''<'' rest of
        None \<Rightarrow> None
      | Some rest \<Rightarrow>
          if text_starts_with ''?'' rest then
            (case after_first ''?>'' rest of None \<Rightarrow> None | Some rest \<Rightarrow> first_xml_root rest)
          else if text_starts_with ''!--'' rest then
            (case after_first ''-->'' rest of None \<Rightarrow> None | Some rest \<Rightarrow> first_xml_root rest)
          else if text_starts_with ''!'' rest then
            (case after_first ''>'' rest of None \<Rightarrow> None | Some rest \<Rightarrow> first_xml_root rest)
          else
          let name = takeWhile is_name_char rest in
          if name = [] then None else Some (ascii_lower (last (split_on 0x3A name))))"
  by pat_completeness auto
termination by (relation "measure length") (auto dest!: after_first_shorter)

declare first_xml_root.simps [simp del]

definition looks_like_msinfo :: "rust_string \<Rightarrow> bool" where
  "looks_like_msinfo text \<longleftrightarrow> first_xml_root (trim_start text) = Some (ascii ''msinfo'')"

definition kodi_roots :: "string list" where
  "kodi_roots = [''movie'', ''movieset'', ''set'', ''tvshow'', ''episodedetails'', ''musicvideo'', ''artist'', ''album'']"

definition is_kodi_scraper_url :: "rust_string \<Rightarrow> bool" where
  "is_kodi_scraper_url line \<longleftrightarrow>
     (let lower = ascii_lower line in
      (text_starts_with ''http://'' lower \<or> text_starts_with ''https://'' lower) \<and>
      has_any lower [''themoviedb.org/'', ''thetvdb.com/'', ''tvdb.com/'', ''imdb.com/title/'', ''musicbrainz.org/''])"

definition looks_like_kodi :: "rust_string \<Rightarrow> bool" where
  "looks_like_kodi text \<longleftrightarrow>
     (case first_xml_root (trim_start text) of Some root \<Rightarrow> one_of root kodi_roots | None \<Rightarrow> False) \<or>
     (case filter (\<lambda>line. line \<noteq> []) (map trim (text_lines text)) of
        [first] \<Rightarrow> is_kodi_scraper_url first
      | _ \<Rightarrow> False)"

definition parse_sfv_line :: "rust_string \<Rightarrow> bool" where
  "parse_sfv_line line \<longleftrightarrow>
     (case dropWhile (\<lambda>c. \<not> is_whitespace c) (rev line) of
        [] \<Rightarrow> False
      | _ # before \<Rightarrow>
          let name = rev (dropWhile is_whitespace before); crc = rev (takeWhile (\<lambda>c. \<not> is_whitespace c) (rev line)) in
          name \<noteq> [] \<and> length crc = 8 \<and> list_all is_ascii_hexdigit crc)"

fun sfv_scan :: "rust_string list \<Rightarrow> nat \<Rightarrow> nat \<Rightarrow> nat \<times> nat" where
  "sfv_scan [] valid invalid = (valid, invalid)"
| "sfv_scan (line # lines) valid invalid =
     (let line = trim (rev (dropWhile (\<lambda>c. c = 0x0D) (rev line))) in
      if line = [] \<or> text_starts_with '';'' line then sfv_scan lines valid invalid
      else if parse_sfv_line line then sfv_scan lines (valid + 1) invalid
      else sfv_scan lines valid (invalid + 1))"

definition looks_like_sfv :: "rust_string \<Rightarrow> bool" where
  "looks_like_sfv text \<longleftrightarrow> (case sfv_scan (take 200 (text_lines text)) 0 0 of (valid, invalid) \<Rightarrow> 1 \<le> valid \<and> invalid = 0)"

definition algorithm_for_hex_len :: "nat \<Rightarrow> string option" where
  "algorithm_for_hex_len n = map_of [(32, ''MD5''), (40, ''SHA-1''), (56, ''SHA-224''), (64, ''SHA-256''), (96, ''SHA-384''),
     (128, ''SHA-512'')] n"

text \<open>The names a BSD line may give, with the length of their digest.\<close>

definition named_algorithms :: "((string \<times> nat) \<times> string) list" where
  "named_algorithms = [((''MD5'', 32), ''MD5''), ((''SHA1'', 40), ''SHA-1''), ((''SHA-1'', 40), ''SHA-1''),
     ((''SHA224'', 56), ''SHA-224''), ((''SHA-224'', 56), ''SHA-224''), ((''SHA256'', 64), ''SHA-256''),
     ((''SHA-256'', 64), ''SHA-256''), ((''SHA384'', 96), ''SHA-384''), ((''SHA-384'', 96), ''SHA-384''),
     ((''SHA512'', 128), ''SHA-512''), ((''SHA-512'', 128), ''SHA-512'')]"

definition bsd_algorithm :: "rust_string \<Rightarrow> string option" where
  "bsd_algorithm line =
     (case (str_find (ascii '' ('') line, str_rfind (ascii '') = '') line) of
        (Some op, Some cl) \<Rightarrow>
          if cl \<le> op + 2 then None
          else
          let named = ascii_upper (trim (take op line)); digest = trim (drop (cl + 4) line) in
          if \<not> list_all is_ascii_hexdigit digest then None
          else map_option snd (find (\<lambda>((name, len), _). ascii name = named \<and> len = length digest) named_algorithms)
      | _ \<Rightarrow> None)"

definition parse_checksum_algorithm :: "rust_string \<Rightarrow> string option" where
  "parse_checksum_algorithm line =
     (let unescaped = (case strip_prefix [0x5C] line of Some s \<Rightarrow> s | None \<Rightarrow> line) in
      case split_once [0x20] unescaped of
        Some (digest, rest) \<Rightarrow>
          if rest \<noteq> [] \<and> (hd rest = 0x20 \<or> hd rest = 0x2A) \<and> list_all is_ascii_hexdigit digest
          then algorithm_for_hex_len (length digest) else bsd_algorithm line
      | None \<Rightarrow> bsd_algorithm line)"

fun checksum_scan :: "rust_string list \<Rightarrow> string option \<Rightarrow> nat \<Rightarrow> nat \<Rightarrow> string option \<times> nat \<times> nat" where
  "checksum_scan [] algorithm valid invalid = (algorithm, valid, invalid)"
| "checksum_scan (line # lines) algorithm valid invalid =
     (let line = rev (dropWhile (\<lambda>c. c = 0x0D) (rev line)) in
      if trim line = [] \<or> text_starts_with ''#'' (trim_start line) then checksum_scan lines algorithm valid invalid
      else
      case parse_checksum_algorithm line of
        Some alg \<Rightarrow>
          if algorithm = None \<or> algorithm = Some alg then checksum_scan lines (Some alg) (valid + 1) invalid
          else checksum_scan lines algorithm valid (invalid + 1)
      | None \<Rightarrow> checksum_scan lines algorithm valid (invalid + 1))"

definition checksum_list_algorithm :: "rust_string \<Rightarrow> string option" where
  "checksum_list_algorithm text =
     (case checksum_scan (take 200 (text_lines text)) None 0 0 of
        (algorithm, valid, invalid) \<Rightarrow> if 1 \<le> valid \<and> invalid = 0 then algorithm else None)"

definition sidecar_info :: "magic_type \<Rightarrow> string option \<Rightarrow> text_encoding \<Rightarrow> magic_info" where
  "sidecar_info mt algorithm encoding =
     (MagicInfo_new mt)\<lparr>mi_checksum_algorithm := algorithm, mi_text_encoding := Some (encoding_name encoding)\<rparr>"

definition sidecar_sniff :: "u8 list \<Rightarrow> magic_info option" where
  "sidecar_sniff buf =
     Option.bind (decode_text buf) (\<lambda>decoded.
     let text = dropWhile (\<lambda>c. c = 0xFEFF) (dt_text decoded); encoding = dt_encoding decoded in
     if looks_like_msinfo text then Some (sidecar_info MtNfoMsInfo None encoding)
     else if looks_like_kodi text then Some (sidecar_info MtNfoKodi None encoding)
     else
     (case checksum_list_algorithm text of
        Some algorithm \<Rightarrow> Some (sidecar_info MtChecksumList (Some algorithm) encoding)
      | None \<Rightarrow>
          if looks_like_sfv text then Some (sidecar_info MtChecksumSfv (Some ''CRC32'') encoding)
          else if looks_like_cp437_art buf \<or> looks_like_text_art text then Some (sidecar_info MtNfoScene None encoding)
          else None))"

end
