(* ===== verification/NodeStore.thy ===== *)
theory NodeStore
  imports EntryLabels
begin

text \<open>
  \<open>ferail-core\<close>: \<open>node_store.rs\<close>, the identity map between paths and node ids.  A path is a valid
  Unicode string read by the rules of \<open>std::path\<close> on Unix; the keys of \<open>HashMap<PathBuf, _>\<close> compare
  by components, so the index is a map from component lists.  The heat of a node is of any type:
  \<open>f32::clamp\<close> and the initial heat are parameters.  \<open>path_guard.rs\<close> keeps one counter for each thread and
  the thread of the user interface; \<open>checks\<close> is whether the build has debug assertions.
\<close>

section \<open>Guards\<close>

record path_guards =
  pg_render_depth :: "nat \<Rightarrow> nat"
  pg_ui_thread :: "nat option"

definition enter_render :: "nat \<Rightarrow> path_guards \<Rightarrow> (unit, path_guards) outcome" where
  "enter_render thread g =
     (case usize_checked_add (pg_render_depth g thread) 1 of
        None \<Rightarrow> Panic
      | Some depth \<Rightarrow> Ok (g\<lparr>pg_render_depth := (pg_render_depth g)(thread := depth)\<rparr>))"

definition drop_render_guard :: "bool \<Rightarrow> nat \<Rightarrow> path_guards \<Rightarrow> (unit, path_guards) outcome" where
  "drop_render_guard checks thread g =
     (let current = pg_render_depth g thread in
      if checks \<and> current = 0 then Panic
      else Ok (g\<lparr>pg_render_depth := (pg_render_depth g)(thread := current - 1)\<rparr>))"

definition is_rendering :: "nat \<Rightarrow> path_guards \<Rightarrow> bool" where
  "is_rendering thread g \<longleftrightarrow> 0 < pg_render_depth g thread"

definition assert_path_resolution_allowed :: "nat \<Rightarrow> path_guards \<Rightarrow> (unit, unit) outcome" where
  "assert_path_resolution_allowed thread g = (if pg_render_depth g thread = 0 then Ok () else Panic)"

definition mark_ui_thread :: "nat \<Rightarrow> path_guards \<Rightarrow> path_guards" where
  "mark_ui_thread thread g = (if pg_ui_thread g = None then g\<lparr>pg_ui_thread := Some thread\<rparr> else g)"

definition is_ui_thread :: "nat \<Rightarrow> path_guards \<Rightarrow> bool" where
  "is_ui_thread thread g \<longleftrightarrow> pg_ui_thread g = Some thread"

definition assert_off_ui_thread :: "bool \<Rightarrow> nat \<Rightarrow> path_guards \<Rightarrow> (unit, unit) outcome" where
  "assert_off_ui_thread checks thread g = (if checks \<and> is_ui_thread thread g then Panic else Ok ())"

section \<open>Paths\<close>

datatype path_component = PcRoot | PcCur | PcParent | PcNormal rust_string

definition component_of :: "rust_string \<Rightarrow> path_component" where
  "component_of piece = (if piece = [0x2E, 0x2E] then PcParent else PcNormal piece)"

text \<open>\<open>Path::components\<close>: empty pieces are dropped, and \<open>.\<close> except at the start of a relative path.\<close>

definition path_components :: "rust_string \<Rightarrow> path_component list" where
  "path_components s =
     (let pieces = split_on 0x2F s; kept = map component_of (filter (\<lambda>p. p \<noteq> [] \<and> p \<noteq> [0x2E]) pieces) in
      if hd pieces = [] \<and> s \<noteq> [] then PcRoot # kept
      else if hd pieces = [0x2E] then PcCur # kept
      else kept)"

fun component_str :: "path_component \<Rightarrow> rust_string" where
  "component_str PcRoot = [0x2F]"
| "component_str PcCur = [0x2E]"
| "component_str PcParent = [0x2E, 0x2E]"
| "component_str (PcNormal s) = s"

text \<open>\<open>PathBuf::push\<close>.\<close>

definition path_push :: "rust_string \<Rightarrow> path_component \<Rightarrow> rust_string" where
  "path_push out c =
     (let s = component_str c in
      if take 1 s = [0x2F] then s
      else if out = [] \<or> last out = 0x2F then out @ s
      else out @ 0x2F # s)"

definition normalize_path_key :: "rust_string \<Rightarrow> rust_string" where
  "normalize_path_key path = foldl path_push [] (filter (\<lambda>c. c \<noteq> PcCur) (path_components path))"

text \<open>\<open>Path::parent\<close> and \<open>Path::file_name\<close>, on components.\<close>

definition path_parent :: "path_component list \<Rightarrow> path_component list option" where
  "path_parent comps = (if comps = [] \<or> last comps = PcRoot then None else Some (butlast comps))"

definition path_file_name :: "path_component list \<Rightarrow> rust_string option" where
  "path_file_name comps = (if comps = [] then None else (case last comps of PcNormal s \<Rightarrow> Some s | _ \<Rightarrow> None))"

section \<open>Nodes\<close>

datatype virtual_node = VnRoot | VnHome | VnApplications | VnDesktop | VnDocuments | VnDownloads | VnMovies | VnMusic | VnPictures
  | VnVolumes

datatype store_node_kind = NkPath rust_string | NkVirtual virtual_node

record 'h node =
  nd_id :: node_id
  nd_parent :: "node_id option"
  nd_kind :: store_node_kind
  nd_display_name :: rust_string
  nd_heat :: 'h

record 'h node_store =
  st_nodes :: "node_id \<Rightarrow> 'h node option"
  st_path_index :: "path_component list \<Rightarrow> node_id option"
  st_next_dynamic :: u64

definition register_virtual :: "'h \<Rightarrow> node_id \<Rightarrow> node_id option \<Rightarrow> virtual_node \<Rightarrow> string \<Rightarrow> 'h node_store \<Rightarrow> 'h node_store" where
  "register_virtual cold nid parent kind name store =
     store\<lparr>st_nodes := (st_nodes store)(nid \<mapsto>
       \<lparr>nd_id = nid, nd_parent = parent, nd_kind = NkVirtual kind, nd_display_name = ascii name, nd_heat = cold\<rparr>)\<rparr>"

definition NodeStore_new :: "'h \<Rightarrow> 'h node_store" where
  "NodeStore_new cold =
     register_virtual cold (NodeId 2) (Some (NodeId 1)) VnVolumes ''Volumes''
       (register_virtual cold (NodeId 1) None VnRoot ''Computer''
         \<lparr>st_nodes = Map.empty, st_path_index = Map.empty, st_next_dynamic = 1000000\<rparr>)"

definition insert_path :: "'h \<Rightarrow> node_id \<Rightarrow> rust_string \<Rightarrow> 'h node_store \<Rightarrow> 'h node_store" where
  "insert_path cold nid path store =
     (let comps = path_components path;
          parent = Option.bind (path_parent comps) (st_path_index store);
          name = (case path_file_name comps of Some n \<Rightarrow> n | None \<Rightarrow> path) in
      store\<lparr>st_path_index := (st_path_index store)(comps \<mapsto> nid),
        st_nodes := (st_nodes store)(nid \<mapsto>
          \<lparr>nd_id = nid, nd_parent = parent, nd_kind = NkPath path, nd_display_name = name, nd_heat = cold\<rparr>)\<rparr>)"

text \<open>The loop of \<open>allocate_id\<close>; it ends at the first id that is not taken.\<close>

definition sat_succ :: "u64 \<Rightarrow> u64" where
  "sat_succ w = (if w = - 1 then w else w + 1)"

partial_function (option) allocate_loop :: "(node_id \<Rightarrow> bool) \<Rightarrow> u64 \<Rightarrow> (node_id \<times> u64) option" where
  "allocate_loop taken next_dynamic =
     (let raw = max next_dynamic 1; next_dynamic = sat_succ raw in
      if \<not> taken (NodeId raw) then Some (NodeId raw, next_dynamic)
      else allocate_loop taken next_dynamic)"

definition allocate_id :: "'h node_store \<Rightarrow> (node_id \<times> 'h node_store) option" where
  "allocate_id store =
     map_option (\<lambda>(nid, next_dynamic). (nid, store\<lparr>st_next_dynamic := next_dynamic\<rparr>))
       (allocate_loop (\<lambda>nid. st_nodes store nid \<noteq> None) (st_next_dynamic store))"

definition get_or_create_path :: "'h \<Rightarrow> rust_string \<Rightarrow> 'h node_store \<Rightarrow> (node_id \<times> 'h node_store) option" where
  "get_or_create_path cold path store =
     (let path = normalize_path_key path in
      case st_path_index store (path_components path) of
        Some nid \<Rightarrow> Some (nid, store)
      | None \<Rightarrow> map_option (\<lambda>(nid, store). (nid, insert_path cold nid path store)) (allocate_id store))"

definition get_or_create_path_with_id :: "'h \<Rightarrow> rust_string \<Rightarrow> node_id \<Rightarrow> 'h node_store \<Rightarrow> node_id \<times> 'h node_store" where
  "get_or_create_path_with_id cold path nid store =
     (let path = normalize_path_key path in
      case st_path_index store (path_components path) of
        Some existing \<Rightarrow> (existing, store)
      | None \<Rightarrow>
          if (case st_nodes store nid of Some node \<Rightarrow> (case nd_kind node of NkPath _ \<Rightarrow> True | NkVirtual _ \<Rightarrow> False) | None \<Rightarrow> False)
          then (nid, store)
          else
            let store = insert_path cold nid path store in
            (nid, store\<lparr>st_next_dynamic := max (st_next_dynamic store) (sat_succ (as_raw nid))\<rparr>))"

definition cached_id_for_path :: "rust_string \<Rightarrow> 'h node_store \<Rightarrow> node_id option" where
  "cached_id_for_path path store = st_path_index store (path_components path)"

definition store_display_name :: "node_id \<Rightarrow> 'h node_store \<Rightarrow> rust_string option" where
  "store_display_name nid store = map_option nd_display_name (st_nodes store nid)"

definition set_heat :: "('h \<Rightarrow> 'h) \<Rightarrow> node_id \<Rightarrow> 'h \<Rightarrow> 'h node_store \<Rightarrow> 'h node_store" where
  "set_heat clamp nid heat store =
     (case st_nodes store nid of
        Some node \<Rightarrow> store\<lparr>st_nodes := (st_nodes store)(nid \<mapsto> node\<lparr>nd_heat := clamp heat\<rparr>)\<rparr>
      | None \<Rightarrow> store)"

definition node_heat :: "'h \<Rightarrow> node_id \<Rightarrow> 'h node_store \<Rightarrow> 'h" where
  "node_heat cold nid store = (case st_nodes store nid of Some node \<Rightarrow> nd_heat node | None \<Rightarrow> cold)"

definition node_parent :: "node_id \<Rightarrow> 'h node_store \<Rightarrow> node_id option" where
  "node_parent nid store = Option.bind (st_nodes store nid) nd_parent"

definition path_of_node :: "node_id \<Rightarrow> 'h node_store \<Rightarrow> rust_string option" where
  "path_of_node nid store =
     Option.bind (st_nodes store nid) (\<lambda>node. case nd_kind node of NkPath path \<Rightarrow> Some path | NkVirtual _ \<Rightarrow> None)"

definition path_for_action :: "nat \<Rightarrow> path_guards \<Rightarrow> node_id \<Rightarrow> 'h node_store \<Rightarrow> (unit, rust_string option) outcome" where
  "path_for_action thread g nid store =
     obind (assert_path_resolution_allowed thread g) (\<lambda>_. Ok (path_of_node nid store))"

definition path_snapshot_for_job :: "nat \<Rightarrow> path_guards \<Rightarrow> node_id \<Rightarrow> 'h node_store \<Rightarrow> (unit, rust_string option) outcome" where
  "path_snapshot_for_job thread g nid store = path_for_action thread g nid store"

text \<open>The loop of \<open>ancestors\<close>, which follows the parents.\<close>

partial_function (option) ancestors_loop :: "'h node_store \<Rightarrow> node_id option \<Rightarrow> node_id list \<Rightarrow> node_id list option" where
  "ancestors_loop store cur out =
     (case cur of
        None \<Rightarrow> Some out
      | Some nid \<Rightarrow> ancestors_loop store (node_parent nid store) (out @ [nid]))"

definition ancestors :: "node_id \<Rightarrow> 'h node_store \<Rightarrow> node_id list option" where
  "ancestors nid store = map_option rev (ancestors_loop store (Some nid) [])"

end
