(* ===== verification/Magic.thy ===== *)
theory Magic
  imports MagicAmiga MagicZip MagicText NodeStore
begin

text \<open>
  \<open>ferail-fs-native\<close>: \<open>magic.rs\<close>, the dispatch over the parsers.  A file is what the reads of it
  return: the parameter of \<open>detect_magic_info\<close> holds the result of every read, of the directory test
  and of the 7z summary.  \<open>checks\<close> is whether the build is a checked one, with overflow checks and debug
  assertions (the profiles of \<open>Cargo.toml\<close> switch them together); the first statement, which asserts that the
  thread is not that of the user interface, is the one of \<open>NodeStore\<close>.
\<close>

section \<open>Signatures\<close>

definition signatures :: "(magic_type \<times> nat \<times> u8 list) list" where
  "signatures = [
     (MtPdf, 0, bstr ''%PDF-''), (MtRar, 0, bstr ''Rar!'' @ [0x1a, 0x07]), (MtSevenZip, 0, bstr ''7z'' @ [0xbc, 0xaf, 0x27, 0x1c]),
     (MtGzip, 0, [0x1f, 0x8b]), (MtXz, 0, 0xfd # bstr ''7zXZ''), (MtBzip2, 0, bstr ''BZh''), (MtZstd, 0, [0x28, 0xb5, 0x2f, 0xfd]),
     (MtSqlite, 0, bstr ''SQLite format 3'' @ [0]),
     (MtLnk, 0, [0x4c, 0x00, 0x00, 0x00, 0x01, 0x14, 0x02, 0x00, 0x00, 0x00, 0x00, 0x00, 0xc0, 0x00, 0x00, 0x00, 0x00, 0x00,
        0x00, 0x46]),
     (MtTar, 257, bstr ''ustar''), (MtLha, 2, bstr ''-lh0-''), (MtLha, 2, bstr ''-lh1-''), (MtLha, 2, bstr ''-lh4-''),
     (MtLha, 2, bstr ''-lh5-''), (MtLha, 2, bstr ''-lh6-''), (MtLha, 2, bstr ''-lh7-''), (MtLha, 2, bstr ''-lhd-''),
     (MtLha, 2, bstr ''-lzs-''), (MtLha, 2, bstr ''-lz4-''), (MtLha, 2, bstr ''-lz5-''), (MtOpenType, 0, bstr ''OTTO''),
     (MtTrueType, 0, [0x00, 0x01, 0x00, 0x00, 0x00])]"

definition sniff_signature_table :: "u8 list \<Rightarrow> magic_type option" where
  "sniff_signature_table buf =
     map_option fst (find (\<lambda>(magic, offset, bytes). offset + length bytes \<le> length buf \<and> has_at offset bytes buf) signatures)"

section \<open>Dispatch\<close>

text \<open>The next parser, where the ones before declined.\<close>

definition or_else :: "(unit, magic_info option) outcome \<Rightarrow> (unit, magic_info) outcome \<Rightarrow> (unit, magic_info) outcome" where
  "or_else m rest = obind m (\<lambda>r. case r of Some info \<Rightarrow> Ok info | None \<Rightarrow> rest)"

definition binary_fallback :: "u8 list \<Rightarrow> magic_info" where
  "binary_fallback buf = (if printable_percent buf < 85 then MagicInfo_new MtBinary else MagicInfo_new MtUnknown)"

definition sniff_bytes_info :: "bool \<Rightarrow> u8 list \<Rightarrow> (unit, magic_info) outcome" where
  "sniff_bytes_info checks buf =
     (if buf = [] then Ok (MagicInfo_new MtUnknown)
      else
      or_else (exe_sniff buf) (
      or_else (Ok (amiga_sniff buf)) (
      or_else (zip_sniff buf) (
      or_else (Ok (ole_sniff buf)) (
      or_else (image_sniff buf) (
      or_else (audio_sniff checks buf) (
      or_else (video_sniff buf) (
      or_else (Ok (map_option MagicInfo_new (sniff_signature_table buf))) (
      or_else (Ok (sidecar_sniff buf)) (
      or_else (text_sniff buf) (
      Ok (binary_fallback buf))))))))))))"

section \<open>Files\<close>

record archive_summary =
  as_file_count :: "u32 option"
  as_root :: "rust_string option"
  as_encrypted :: bool

record file_reads =
  fr_is_dir :: bool
  fr_header :: "u8 list option"
  fr_tail :: "(u8 list \<times> nat) option"
  fr_read_at :: "nat \<Rightarrow> nat \<Rightarrow> u8 list option"
  fr_summary :: "archive_summary option"

definition is_zip_family :: "magic_type \<Rightarrow> bool" where
  "is_zip_family mt \<longleftrightarrow> mt \<in> {MtZip, MtZipEncrypted, MtDocWord, MtDocWordMacro, MtDocExcel, MtDocExcelMacro, MtDocPowerPoint,
     MtDocPowerPointMacro, MtAppJar, MtAppApk}"

definition with_summary :: "archive_summary \<Rightarrow> magic_info \<Rightarrow> magic_info" where
  "with_summary s info =
     info\<lparr>mi_file_count := (case mi_file_count info of Some n \<Rightarrow> Some n | None \<Rightarrow> as_file_count s),
       mi_zip_root := (case mi_zip_root info of Some r \<Rightarrow> Some r | None \<Rightarrow> as_root s),
       mi_is_encrypted := mi_is_encrypted info \<or> as_encrypted s\<rparr>"

definition detect_magic_info :: "bool \<Rightarrow> nat \<Rightarrow> path_guards \<Rightarrow> file_reads \<Rightarrow> (unit, magic_info option) outcome" where
  "detect_magic_info checks thread g file =
     obind (assert_off_ui_thread checks thread g) (\<lambda>_.
      if fr_is_dir file then Ok None
      else
      (case fr_header file of
         None \<Rightarrow> Ok None
       | Some header \<Rightarrow>
      obind (sniff_bytes_info checks header) (\<lambda>info.
      if is_zip_family (mi_type info) then
        (case fr_tail file of
           Some (tail, file_size) \<Rightarrow>
             obind (refine_with_central_directory (fr_read_at file) header tail file_size info) (\<lambda>info. Ok (Some info))
         | None \<Rightarrow> Ok (Some info))
      else if mi_type info = MtOleCompound then
        obind (refine_with_directory (fr_read_at file) header info) (\<lambda>info. Ok (Some info))
      else if mi_type info = MtSevenZip then
        Ok (Some (case fr_summary file of Some s \<Rightarrow> with_summary s info | None \<Rightarrow> info))
      else Ok (Some info))))"

definition detect_magic :: "bool \<Rightarrow> nat \<Rightarrow> path_guards \<Rightarrow> file_reads \<Rightarrow> (unit, string option) outcome" where
  "detect_magic checks thread g file =
     obind (detect_magic_info checks thread g file) (\<lambda>info.
     Ok (case info of None \<Rightarrow> None | Some info \<Rightarrow>
       (let label = display_name (mi_type info) in if label = [] then None else Some label)))"

end
