(* ===== verification/MagicProps.thy ===== *)
theory MagicProps
  imports Magic
begin

text \<open>
  What the content sniffer promises: off the UI thread no file makes it panic, except a WAV header whose
  rate overflows, and exactly when a plain WAV header does.
\<close>
section \<open>No panic\<close>

named_theorems read_simps \<open>when a read of the buffer panics\<close>

lemma idx_Panic [read_simps]: "(idx xs i :: ('e, 'a) outcome) = Panic \<longleftrightarrow> length xs \<le> i"
  by (simp add: idx_def)

lemma slice_Panic [read_simps]: "(sub_slice xs a b :: ('e, 'a list) outcome) = Panic \<longleftrightarrow> b < a \<or> length xs < b"
  by (rule sub_slice_Panic)

lemma word_Panic [read_simps]:
  "le16 buf i = Panic \<longleftrightarrow> length buf < i + 2" "be16 buf i = Panic \<longleftrightarrow> length buf < i + 2"
  "le32 buf i = Panic \<longleftrightarrow> length buf < i + 4" "be32 buf i = Panic \<longleftrightarrow> length buf < i + 4"
  by (simp_all add: le16_def be16_def le32_def be32_def obind_Panic_iff slice_Panic)

lemma found_Panic [read_simps]: "found m = Panic \<longleftrightarrow> m = Panic"
  by (cases m) (simp_all add: found_def)

lemma endian_Panic [read_simps]:
  "elf_u16 le buf i = Panic \<longleftrightarrow> length buf < i + 2" "macho_u32 le buf i = Panic \<longleftrightarrow> length buf < i + 4"
  "tiff_u16 le buf i = Panic \<longleftrightarrow> length buf < i + 2" "tiff_u32 le buf i = Panic \<longleftrightarrow> length buf < i + 4"
  by (simp_all add: elf_u16_def macho_u32_def tiff_u16_def tiff_u32_def read_simps)

lemma sniff_elf_no_panic: "sniff_elf buf \<noteq> Panic"
  by (simp add: sniff_elf_def Let_def obind_Panic_iff read_simps)

lemma sniff_macho_no_panic: "sniff_macho buf \<noteq> Panic"
  by (simp add: sniff_macho_def Let_def obind_Panic_iff read_simps)

lemma pe_optional_header_no_panic: "pe_offset + 26 \<le> length buf \<Longrightarrow> pe_optional_header buf pe_offset is_dll info \<noteq> Panic"
  by (simp add: pe_optional_header_def Let_def obind_Panic_iff read_simps)

lemma sniff_pe_no_panic: "sniff_pe buf \<noteq> Panic"
  by (simp add: sniff_pe_def Let_def obind_Panic_iff read_simps pe_optional_header_no_panic)

lemma exe_sniff_no_panic: "exe_sniff buf \<noteq> Panic"
  by (simp add: exe_sniff_def read_simps sniff_elf_no_panic sniff_macho_no_panic sniff_pe_no_panic)

lemma jpeg_loop_no_panic: "jpeg_loop buf pos info \<noteq> Panic"
proof (induction "length buf - pos" arbitrary: pos info rule: less_induct)
  case less
  show ?case by (subst jpeg_loop.simps) (simp add: obind_Panic_iff read_simps less)
qed

lemma ico_loop_no_panic: "\<forall>i\<in>set is. 6 + i * 16 + 16 \<le> length buf \<Longrightarrow> ico_loop buf is max_size info \<noteq> Panic"
  by (induction "is" arbitrary: max_size info) (auto simp: obind_Panic_iff read_simps Let_def)

lemma sniff_ico_no_panic: "22 \<le> length buf \<Longrightarrow> sniff_ico buf \<noteq> Panic"
  by (auto simp: sniff_ico_def Let_def obind_Panic_iff read_simps intro!: ico_loop_no_panic)

lemma tiff_loop_no_panic: "tiff_loop is_le buf start is info \<noteq> Panic"
  by (induction "is" arbitrary: info) (auto simp: obind_Panic_iff read_simps Let_def tiff_value_def)

lemma sniff_tiff_no_panic: "8 \<le> length buf \<Longrightarrow> sniff_tiff buf \<noteq> Panic"
  by (auto simp: sniff_tiff_def Let_def obind_Panic_iff read_simps tiff_loop_no_panic)

lemma sniff_webp_no_panic: "30 \<le> length buf \<Longrightarrow> sniff_webp buf \<noteq> Panic"
  by (auto simp: sniff_webp_def Let_def obind_Panic_iff read_simps u24_plus_1_def)

lemma image_sniff_no_panic: "image_sniff buf \<noteq> Panic"
  by (simp add: image_sniff_def read_simps sniff_ico_no_panic sniff_tiff_no_panic sniff_webp_no_panic sniff_png_def
      sniff_jpeg_def jpeg_loop_no_panic sniff_gif_def sniff_bmp_def Let_def obind_Panic_iff)

lemma mp3_header_no_panic: "is_valid_mp3_frame_header buf \<noteq> Panic"
  by (auto simp add: is_valid_mp3_frame_header_def Let_def obind_Panic_iff read_simps)

lemma bitrate_index: "unat (w :: u8) < 15 \<longleftrightarrow> w < 15"
  by (simp add: word_less_nat_alt)

lemma parse_mp3_frame_no_panic: "parse_mp3_frame buf info \<noteq> Panic"
proof -
  have "mp3_sample_rates v = Some rates \<Longrightarrow> length rates = 4" for v rates
    by (auto simp: mp3_sample_rates_def split: if_splits)
  then show ?thesis
    by (auto simp: parse_mp3_frame_def Let_def obind_Panic_iff read_simps RATES_V1_L3_def RATES_V2_L3_def
        word_less_nat_alt split: option.splits)
qed

lemma aiff_loop_no_panic: "aiff_loop buf pos info \<noteq> Panic"
proof (induction "length buf - pos" arbitrary: pos info rule: less_induct)
  case less
  show ?case by (subst aiff_loop.simps) (auto simp: obind_Panic_iff read_simps Let_def u32_div_def less)
qed

lemma sniff_ogg_no_panic: "35 \<le> length buf \<Longrightarrow> sniff_ogg buf \<noteq> Panic"
  by (auto simp: sniff_ogg_def Let_def obind_Panic_iff read_simps)
lemma sniff_flac_no_panic: "42 \<le> length buf \<Longrightarrow> sniff_flac buf \<noteq> Panic"
  by (auto simp: sniff_flac_def Let_def obind_Panic_iff read_simps)

lemma sniff_mp3_no_panic: "10 \<le> length buf \<Longrightarrow> sniff_mp3_with_id3 buf \<noteq> Panic"
  by (auto simp: sniff_mp3_with_id3_def Let_def obind_Panic_iff read_simps parse_mp3_frame_no_panic)

lemma audio_sniff_panic:
  "audio_sniff checks buf = Panic \<Longrightarrow> starts_with (bstr ''RIFF'') buf \<and> has_at 8 (bstr ''WAVE'') buf"
  by (auto simp: audio_sniff_def obind_Panic_iff read_simps mp3_header_no_panic parse_mp3_frame_no_panic sniff_flac_no_panic
      sniff_mp3_no_panic sniff_aiff_def aiff_loop_no_panic sniff_ogg_no_panic split: if_splits)

lemma mp4_loop_no_panic: "mp4_loop buf pos info \<noteq> Panic"
proof (induction "length buf - pos" arbitrary: pos info rule: less_induct)
  case less
  show ?case by (subst mp4_loop.simps) (auto simp: obind_Panic_iff read_simps Let_def less)
qed

lemma avi_loop_no_panic: "avi_loop buf pos info \<noteq> Panic"
proof (induction "length buf - pos" arbitrary: pos info rule: less_induct)
  case less
  show ?case by (subst avi_loop.simps) (auto simp: obind_Panic_iff read_simps Let_def less)
qed

lemma video_sniff_no_panic: "video_sniff buf \<noteq> Panic"
  by (auto simp: video_sniff_def read_simps sniff_mp4_def sniff_avi_def sniff_mkv_def sniff_asf_def obind_Panic_iff
      mp4_loop_no_panic avi_loop_no_panic)

lemma zip_sniff_no_panic: "zip_sniff buf \<noteq> Panic"
  by (auto simp: zip_sniff_def Let_def obind_Panic_iff read_simps split: option.splits)

lemma shebang_no_panic:
  assumes "2 \<le> length buf" and "has_at 0 (bstr ''#!'') buf"
  shows "sniff_shebang buf \<noteq> Panic"
proof -
  have "2 \<le> length (takeWhile (\<lambda>b. b \<noteq> 0x0A) buf)"
    using assms by (cases buf; cases "tl buf") (auto simp: has_at_def bstr_def)
  with assms(1) show ?thesis
    by (auto simp: sniff_shebang_def Let_def obind_Panic_iff read_simps length_takeWhile_le)
qed

lemma text_sniff_no_panic: "text_sniff buf \<noteq> Panic"
  by (auto simp: text_sniff_def Let_def obind_Panic_iff shebang_no_panic)

lemma or_else_Panic: "or_else m rest = Panic \<longleftrightarrow> m = Panic \<or> (m = Ok None \<and> rest = Panic)"
  by (cases m) (auto simp: or_else_def split: option.splits)

lemma sniff_bytes_panic:
  "sniff_bytes_info checks buf = Panic \<Longrightarrow> starts_with (bstr ''RIFF'') buf \<and> has_at 8 (bstr ''WAVE'') buf"
  by (auto simp: sniff_bytes_info_def or_else_Panic exe_sniff_no_panic zip_sniff_no_panic image_sniff_no_panic
      video_sniff_no_panic text_sniff_no_panic dest: audio_sniff_panic split: if_splits)

section \<open>The rate of a WAV file\<close>

definition wav_format :: "u8 list \<Rightarrow> u32 \<Rightarrow> u8 \<Rightarrow> bool" where
  "wav_format buf sr ch \<longleftrightarrow> (\<exists>i c. sub_slice buf i (i + 4) = (Ok (bstr ''fmt '') :: (unit, u8 list) outcome) \<and>
     le16 buf (i + 10) = Ok c \<and> ch = ucast c \<and> le32 buf (i + 12) = Ok sr)"

lemma wav_duration_panic:
  assumes "wav_duration checks chunk_size info = Panic"
  obtains sr ch where "mi_sample_rate info = Some sr" "mi_channels info = Some ch" "2 ^ 32 \<le> 2 * unat ch * unat sr"
proof -
  from assms obtain sr ch where s: "mi_sample_rate info = Some sr" "mi_channels info = Some ch"
    by (auto simp: wav_duration_def split: option.splits)
  have "unat ch < 2 ^ LENGTH(8)" by (rule unsigned_less)
  then have ch: "unat (2 * ucast ch :: u32) = 2 * unat ch" by (simp add: unat_word_ariths unat_ucast_up)
  have pos: "0 < sr" "0 < (2 * ucast ch :: u32)"
    using assms s by (auto simp: wav_duration_def Let_def split: if_splits)
  then have nz: "0 < unat sr * (2 * unat ch)" using ch by (simp add: word_less_nat_alt)
  have "2 ^ 32 \<le> unat sr * (2 * unat ch)"
  proof (rule ccontr)
    assume small: "\<not> ?thesis"
    then have "unat (sr * (2 * ucast ch)) = unat sr * (2 * unat ch)"
      using unat_mult_no_overflow [of sr "2 * ucast ch"] ch by simp
    with nz have "sr * (2 * ucast ch) \<noteq> 0" by (metis unsigned_0 less_numeral_extra(3))
    with assms s small ch show False
      by (auto simp: wav_duration_def Let_def u32_mul_def u32_div_def obind_Panic_iff split: if_splits)
  qed
  with s show ?thesis using that by (simp add: mult.commute mult.left_commute)
qed

lemma wav_loop_panic:
  assumes "wav_loop checks buf pos info = Panic"
    and "\<And>sr ch. mi_sample_rate info = Some sr \<Longrightarrow> mi_channels info = Some ch \<Longrightarrow> wav_format buf sr ch"
  shows "\<exists>sr ch. wav_format buf sr ch \<and> 2 ^ 32 \<le> 2 * unat ch * unat sr"
  using assms
proof (induction "length buf - pos" arbitrary: pos info rule: less_induct)
  case less
  from less.prems(1) obtain id4 chunk_size where in_range: "pos + 8 < length buf"
    and id4: "sub_slice buf pos (pos + 4) = (Ok id4 :: (unit, u8 list) outcome)" and size: "le32 buf (pos + 4) = Ok chunk_size"
    by (subst (asm) wav_loop.simps) (auto simp: obind_Panic_iff read_simps split: if_splits)
  let ?next = "pos + (8 + unat chunk_size + unat (chunk_size AND 1))"
  note run = less.prems(1) [unfolded wav_loop.simps [of checks buf pos info], simplified in_range id4 size]
  consider (fmt) "id4 = bstr ''fmt ''" "pos + 8 + 16 \<le> length buf"
    | (data) "\<not> (id4 = bstr ''fmt '' \<and> pos + 8 + 16 \<le> length buf)" "id4 = bstr ''data''"
    | (other) "\<not> (id4 = bstr ''fmt '' \<and> pos + 8 + 16 \<le> length buf)" "id4 \<noteq> bstr ''data''" by blast
  then show ?case
  proof cases
    case fmt
    with run obtain c r where c: "le16 buf (pos + 10) = Ok c" "le32 buf (pos + 12) = Ok r"
      and rec: "wav_loop checks buf ?next (info\<lparr>mi_channels := Some (ucast c), mi_sample_rate := Some r\<rparr>) = Panic"
      by (auto simp: obind_Panic_iff read_simps Let_def)
    have "wav_format buf r (ucast c)" using c id4 fmt(1) unfolding wav_format_def by blast
    then show ?thesis by (intro less.hyps [OF _ rec]) (use in_range in auto)
  next
    case data
    with run have "wav_duration checks chunk_size info = Panic" by (auto simp: obind_Panic_iff Let_def id4 size in_range)
    then show ?thesis using less.prems(2) by (elim wav_duration_panic) blast
  next
    case other
    with run have rec: "wav_loop checks buf ?next info = Panic" by (auto simp: obind_Panic_iff Let_def)
    show ?thesis by (rule less.hyps [OF _ rec less.prems(2)]) (use in_range in auto)
  qed
qed
lemma bstr_simps [simp]: "bstr [] = []" "bstr (c # s) = of_nat (of_char c) # bstr s"
  by (simp_all add: bstr_def)

lemma audio_sniff_panics_only_for_wav:
  assumes "audio_sniff checks buf = Panic"
  shows "starts_with (bstr ''RIFF'') buf \<and> has_at 8 (bstr ''WAVE'') buf \<and>
    (\<exists>sr ch. wav_format buf sr ch \<and> 2 ^ 32 \<le> 2 * unat ch * unat sr)"
proof -
  from assms have "sniff_wav checks buf = Panic"
    by (auto simp: audio_sniff_def obind_Panic_iff read_simps mp3_header_no_panic parse_mp3_frame_no_panic sniff_flac_no_panic
        sniff_mp3_no_panic sniff_aiff_def aiff_loop_no_panic sniff_ogg_no_panic split: if_splits)
  then have "\<exists>sr ch. wav_format buf sr ch \<and> 2 ^ 32 \<le> 2 * unat ch * unat sr"
    unfolding sniff_wav_def by (rule wav_loop_panic) (simp add: MagicInfo_new_def)
  with audio_sniff_panic [OF assms] show ?thesis by blast
qed

lemma sniff_bytes_audio_panic: "sniff_bytes_info checks buf = Panic \<Longrightarrow> audio_sniff checks buf = Panic"
  by (auto simp: sniff_bytes_info_def or_else_Panic exe_sniff_no_panic zip_sniff_no_panic image_sniff_no_panic
      video_sniff_no_panic text_sniff_no_panic split: if_splits)

section \<open>The second look\<close>

lemma walk_cd_loop_no_panic: "walk_cd_loop buf pos names \<noteq> Panic"
proof (induction "length buf - pos" arbitrary: pos names rule: less_induct)
  case less
  show ?case by (subst walk_cd_loop.simps) (auto simp: obind_Panic_iff read_simps Let_def less split: option.splits)
qed

lemma eocd_fields_no_panic:
  assumes "eocd_pos + 22 \<le> length tail_buf" shows "eocd_fields tail_buf eocd_pos \<noteq> Panic"
proof -
  have "eocd_pos + 12 \<le> length tail_buf" "eocd_pos + 16 \<le> length tail_buf" "eocd_pos + 20 \<le> length tail_buf" using assms by auto
  then show ?thesis
    by (simp add: eocd_fields_def Let_def obind_Panic_iff read_simps not_less split: option.split)
qed

lemma entry_names_no_panic:
  assumes "cd_end \<le> tail_start + length tail_buf"
  shows "entry_names_of read_at header_buf tail_buf tail_start cd_offset cd_end \<noteq> Panic"
  using assms by (auto simp: entry_names_of_def walk_central_directory_def obind_Panic_iff read_simps walk_cd_loop_no_panic
      split: option.splits)

lemma parse_central_directory_no_panic: "parse_central_directory read_at header_buf tail_buf file_size \<noteq> Panic"
  by (auto simp: parse_central_directory_def Let_def obind_Panic_iff eocd_fields_no_panic
      intro!: entry_names_no_panic split: option.splits)

lemma refine_zip_no_panic: "refine_with_central_directory read_at header_buf tail_buf file_size info \<noteq> Panic"
  by (auto simp: refine_with_central_directory_def Let_def obind_Panic_iff parse_central_directory_no_panic split: option.splits)

lemma chunks_exact_length: "c \<in> set (chunks_exact n xs) \<Longrightarrow> length c = n"
proof (induction n xs rule: chunks_exact.induct)
  case (1 n xs)
  then show ?case by (subst (asm) (2) chunks_exact.simps) (auto split: if_splits)
qed

lemma ole_loop_no_panic: "\<forall>e\<in>set entries. length e = 128 \<Longrightarrow> ole_loop entries scan \<noteq> Panic"
  by (induction entries arbitrary: scan) (auto simp: obind_Panic_iff read_simps)

lemma refine_ole_no_panic: "refine_with_directory read_at header_buf info \<noteq> Panic"
  by (auto simp: refine_with_directory_def Let_def obind_Panic_iff read_simps chunks_exact_length intro!: ole_loop_no_panic
      split: option.splits if_splits)

text \<open>
  A WAV file with a plain header: a format chunk of 16 bytes, then the data chunk.  (The four letters are the
  mark of a tracker module at the same place, which the code looks for first.)
\<close>

definition plain_wav :: "u8 list \<Rightarrow> bool" where
  "plain_wav buf \<longleftrightarrow> 44 < length buf \<and> starts_with (bstr ''RIFF'') buf \<and> has_at 8 (bstr ''WAVE'') buf \<and> has_at 12 (bstr ''fmt '') buf \<and>
     has_at 16 [16, 0, 0, 0] buf \<and> has_at 36 (bstr ''data'') buf \<and> \<not> has_at 44 (bstr ''SCRM'') buf"

definition wav_channels :: "u8 list \<Rightarrow> u8" where
  "wav_channels buf = ucast (le_word (take 2 (drop 22 buf)) :: u16)"

definition wav_rate :: "u8 list \<Rightarrow> u32" where
  "wav_rate buf = le_word (take 4 (drop 24 buf))"

lemma list_4: "length xs = 4 \<Longrightarrow> \<exists>a b c d. xs = [a, b, c, d]"
  by (auto simp: numeral_eq_Suc length_Suc_conv)

lemma list_2: "length xs = 2 \<Longrightarrow> \<exists>a b. xs = [a, b]"
  by (auto simp: numeral_eq_Suc length_Suc_conv)

lemma plain_wav_bytes:
  assumes "plain_wav buf"
  shows "\<exists>s0 s1 s2 s3 f0 f1 c0 c1 r0 r1 r2 r3 a0 a1 a2 a3 l0 l1 b0 b1 d0 d1 d2 d3 x rest.
    buf = [0x52, 0x49, 0x46, 0x46, s0, s1, s2, s3, 0x57, 0x41, 0x56, 0x45, 0x66, 0x6D, 0x74, 0x20, 16, 0, 0, 0, f0, f1, c0, c1, r0, r1, r2, r3,
      a0, a1, a2, a3, l0, l1, b0, b1, 0x64, 0x61, 0x74, 0x61, d0, d1, d2, d3] @ x # rest \<and> take 4 (x # rest) \<noteq> bstr ''SCRM''"
proof -
  have len: "44 < length buf" using assms by (simp add: plain_wav_def)
  have chop: "drop k buf = take n (drop k buf) @ drop (k + n) buf" for k n by (metis add.commute append_take_drop_id drop_drop)
  have split: "buf = take 4 buf @ take 4 (drop 4 buf) @ take 4 (drop 8 buf) @ take 4 (drop 12 buf) @ take 4 (drop 16 buf) @ take 2 (drop 20 buf) @
      take 2 (drop 22 buf) @ take 4 (drop 24 buf) @ take 4 (drop 28 buf) @ take 2 (drop 32 buf) @ take 2 (drop 34 buf) @
      take 4 (drop 36 buf) @ take 4 (drop 40 buf) @ drop 44 buf"
    using chop [of 0 4] chop [of 4 4] chop [of 8 4] chop [of 12 4] chop [of 16 4] chop [of 20 2] chop [of 22 2] chop [of 24 4] chop [of 28 4]
      chop [of 32 2] chop [of 34 2] chop [of 36 4] chop [of 40 4] by (simp only: drop_0 arith_simps)
  have four: "Suc (Suc (Suc (Suc 0))) = (4 :: nat)" by simp
  have marks: "take 4 buf = [0x52, 0x49, 0x46, 0x46]" "take 4 (drop 8 buf) = [0x57, 0x41, 0x56, 0x45]" "take 4 (drop 12 buf) = [0x66, 0x6D, 0x74, 0x20]"
    "take 4 (drop 16 buf) = [16, 0, 0, 0]" "take 4 (drop 36 buf) = [0x64, 0x61, 0x74, 0x61]"
    using assms by (simp_all add: plain_wav_def starts_with_def has_at_def four)
  have no: "take 4 (drop 44 buf) \<noteq> bstr ''SCRM''" using assms by (simp add: plain_wav_def has_at_def four)
  obtain s0 s1 s2 s3 where s: "take 4 (drop 4 buf) = [s0, s1, s2, s3]" using list_4 [of "take 4 (drop 4 buf)"] len by auto
  obtain r0 r1 r2 r3 where r: "take 4 (drop 24 buf) = [r0, r1, r2, r3]" using list_4 [of "take 4 (drop 24 buf)"] len by auto
  obtain a0 a1 a2 a3 where a: "take 4 (drop 28 buf) = [a0, a1, a2, a3]" using list_4 [of "take 4 (drop 28 buf)"] len by auto
  obtain d0 d1 d2 d3 where d: "take 4 (drop 40 buf) = [d0, d1, d2, d3]" using list_4 [of "take 4 (drop 40 buf)"] len by auto
  obtain f0 f1 where f: "take 2 (drop 20 buf) = [f0, f1]" using list_2 [of "take 2 (drop 20 buf)"] len by auto
  obtain c0 c1 where c: "take 2 (drop 22 buf) = [c0, c1]" using list_2 [of "take 2 (drop 22 buf)"] len by auto
  obtain l0 l1 where l: "take 2 (drop 32 buf) = [l0, l1]" using list_2 [of "take 2 (drop 32 buf)"] len by auto
  obtain b0 b1 where b: "take 2 (drop 34 buf) = [b0, b1]" using list_2 [of "take 2 (drop 34 buf)"] len by auto
  obtain x rest where x: "drop 44 buf = x # rest" using len by (cases "drop 44 buf") auto
  have "buf = [0x52, 0x49, 0x46, 0x46, s0, s1, s2, s3, 0x57, 0x41, 0x56, 0x45, 0x66, 0x6D, 0x74, 0x20, 16, 0, 0, 0, f0, f1, c0, c1, r0, r1, r2, r3,
      a0, a1, a2, a3, l0, l1, b0, b1, 0x64, 0x61, 0x74, 0x61, d0, d1, d2, d3] @ x # rest"
    by (rule trans [OF split]) (simp only: marks s r a d f c l b x append_Cons append_Nil)
  moreover have "take 4 (x # rest) \<noteq> bstr ''SCRM''" using no x by simp
  ultimately show ?thesis by (intro exI conjI)
qed

lemma plain_wav_sniffed:
  assumes "plain_wav buf"
  shows "sniff_bytes_info checks buf = sniff_wav checks buf"
    and "\<exists>len info. sniff_wav checks buf = wav_duration checks len (info\<lparr>mi_channels := Some (wav_channels buf), mi_sample_rate := Some (wav_rate buf)\<rparr>)
      \<and> mi_type info = MtWav"
proof -
  from plain_wav_bytes [OF assms] obtain s0 s1 s2 s3 f0 f1 c0 c1 r0 r1 r2 r3 a0 a1 a2 a3 l0 l1 b0 b1 d0 d1 d2 d3 x rest where
    buf: "buf = [0x52, 0x49, 0x46, 0x46, s0, s1, s2, s3, 0x57, 0x41, 0x56, 0x45, 0x66, 0x6D, 0x74, 0x20, 16, 0, 0, 0, f0, f1, c0, c1, r0, r1, r2, r3,
      a0, a1, a2, a3, l0, l1, b0, b1, 0x64, 0x61, 0x74, 0x61, d0, d1, d2, d3] @ x # rest" and no: "take 4 (x # rest) \<noteq> bstr ''SCRM''"
    by (elim exE conjE) (rule that)
  note eval = buf starts_with_def has_at_def slice_def sub_slice_def idx_def le16_def le32_def
  have "exe_sniff buf = Ok None" by (simp add: eval exe_sniff_def macho_magics_def)
  moreover have "amiga_sniff buf = None"
  proof -
    have "slice buf 44 48 \<noteq> Some (bstr ''SCRM'')" using no by (simp add: slice_def buf)
    moreover have "\<not> title_plausible buf" by (simp add: title_plausible_def eval)
    ultimately have "sniff_tracker buf = None"
      by (simp add: sniff_tracker_def filter_option_def split: option.split) (simp add: eval)
    moreover have "sniff_hunk buf = None" "sniff_icon buf = None" "sniff_iff buf = None" "sniff_misc buf = None"
      by (simp_all add: eval sniff_hunk_def sniff_icon_def sniff_iff_def sniff_misc_def be_u32_def be_u16_def hunk_type_def get_at_def)
    ultimately show ?thesis by (simp add: amiga_sniff_def)
  qed
  moreover have "zip_sniff buf = Ok None" "ole_sniff buf = None"
    by (simp_all add: eval zip_sniff_def ole_sniff_def CFBF_MAGIC_def)
  moreover have "image_sniff buf = Ok None" by (simp add: eval image_sniff_def heic_brands_def)
  moreover have "audio_sniff checks buf = found (sniff_wav checks buf)"
    by (simp add: eval audio_sniff_def is_utf16_bom_def is_valid_mp3_frame_header_def)
  ultimately show "sniff_bytes_info checks buf = sniff_wav checks buf"
    by (cases "sniff_wav checks buf") (simp_all add: sniff_bytes_info_def or_else_def found_def, simp_all add: buf)
  have data: "wav_loop checks buf 36 info = wav_duration checks (le_word [d0, d1, d2, d3]) info" for info
    by (subst wav_loop.simps) (simp add: eval)
  show "\<exists>len info. sniff_wav checks buf = wav_duration checks len (info\<lparr>mi_channels := Some (wav_channels buf), mi_sample_rate := Some (wav_rate buf)\<rparr>)
      \<and> mi_type info = MtWav"
  proof (intro exI conjI)
    show "sniff_wav checks buf = wav_duration checks (le_word [d0, d1, d2, d3])
        ((MagicInfo_new MtWav)\<lparr>mi_channels := Some (wav_channels buf), mi_sample_rate := Some (wav_rate buf)\<rparr>)"
      unfolding sniff_wav_def data [symmetric] by (subst wav_loop.simps) (simp add: eval wav_channels_def wav_rate_def)
    show "mi_type (MagicInfo_new MtWav) = MtWav" by (simp add: MagicInfo_new_def)
  qed
qed

lemma wav_duration_Ok: "wav_duration checks len info = Ok info' \<Longrightarrow> mi_type info' = mi_type info"
  by (auto simp: wav_duration_def Let_def outcome_simps split: option.splits if_splits)

lemma wav_duration_panics:
  "wav_duration checks len (info\<lparr>mi_channels := Some ch, mi_sample_rate := Some sr\<rparr>) = Panic \<longleftrightarrow>
    sr \<noteq> 0 \<and> ch \<noteq> 0 \<and> (if checks then 2 ^ 32 \<le> 2 * unat ch * unat sr else 2 ^ 32 dvd 2 * unat ch * unat sr)"
proof -
  let ?b = "2 * ucast ch :: u32"
  have "unat ch < 2 ^ LENGTH(8)" by (rule unsigned_less)
  then have ch: "unat ?b = 2 * unat ch" by (simp add: unat_word_ariths unat_ucast_up)
  have pos: "0 < ?b \<longleftrightarrow> ch \<noteq> 0" "0 < sr \<longleftrightarrow> sr \<noteq> 0" using ch by (simp_all add: word_less_nat_alt unat_gt_0)
  have zero: "sr * ?b = 0 \<longleftrightarrow> 2 ^ 32 dvd 2 * unat ch * unat sr"
  proof -
    have "unat (sr * ?b) = (2 * unat ch * unat sr) mod 2 ^ 32"
      unfolding unat_word_ariths(2) [of sr ?b] ch by (simp only: len_bit0 len_num1 mult.commute mult.left_commute) simp
    then show ?thesis by (simp only: unat_eq_0 [symmetric] mod_eq_0_iff_dvd)
  qed
  have small: "\<not> 2 ^ 32 dvd 2 * unat ch * unat sr" if "sr \<noteq> 0" "ch \<noteq> 0" "2 * unat ch * unat sr < 2 ^ 32"
    using that nat_dvd_not_less [of "2 * unat ch * unat sr" "2 ^ 32"] by (simp add: unat_gt_0)
  show ?thesis
    using small zero pos ch
    by (cases checks) (auto simp: wav_duration_def Let_def u32_mul_def u32_div_def obind_Panic_iff mult.commute mult.left_commute not_le)
qed

section \<open>Detection\<close>

definition wav_file :: "u8 list \<Rightarrow> file_reads" where
  "wav_file header = \<lparr>fr_is_dir = False, fr_header = Some header, fr_tail = None, fr_read_at = (\<lambda>_ _. None), fr_summary = None\<rparr>"

text \<open>A mono file of 2 GHz: the bytes per second wrap to 0.\<close>

definition crafted_wav :: "u8 list" where
  "crafted_wav = bstr ''RIFF'' @ [0x26, 0, 0, 0] @ bstr ''WAVE'' @ bstr ''fmt '' @ [16, 0, 0, 0, 1, 0, 1, 0, 0, 0, 0, 0x80, 0, 0, 0, 0,
     2, 0, 16, 0] @ bstr ''data'' @ [2, 0, 0, 0, 0, 0]"

lemma crafted_wav_plain: "plain_wav crafted_wav" "wav_channels crafted_wav = 1" "wav_rate crafted_wav = 0x80000000"
  by (simp_all add: plain_wav_def crafted_wav_def wav_channels_def wav_rate_def starts_with_def has_at_def)

lemma plain_wav_detected:
  assumes "plain_wav buf" and "\<not> (checks \<and> is_ui_thread thread g)" and "\<not> fr_is_dir file" and "fr_header file = Some buf"
  shows "detect_magic checks thread g file = Panic \<longleftrightarrow> wav_rate buf \<noteq> 0 \<and> wav_channels buf \<noteq> 0 \<and>
    (if checks then 2 ^ 32 \<le> 2 * unat (wav_channels buf) * unat (wav_rate buf)
     else 2 ^ 32 dvd 2 * unat (wav_channels buf) * unat (wav_rate buf))"
proof -
  from plain_wav_sniffed(2) [OF assms(1), of checks] obtain len info where
    sniff: "sniff_wav checks buf = wav_duration checks len (info\<lparr>mi_channels := Some (wav_channels buf), mi_sample_rate := Some (wav_rate buf)\<rparr>)"
    and wav: "mi_type info = MtWav" by blast
  have guard: "assert_off_ui_thread checks thread g = Ok ()" using assms(2) by (simp add: assert_off_ui_thread_def)
  have "detect_magic checks thread g file = Panic \<longleftrightarrow> sniff_wav checks buf = Panic"
  proof (cases "sniff_wav checks buf")
    case (Ok info')
    with wav_duration_Ok [of checks len _ info'] sniff wav have "mi_type info' = MtWav" by simp
    with Ok show ?thesis
      using assms(3,4) plain_wav_sniffed(1) [OF assms(1), of checks]
      by (simp add: detect_magic_def detect_magic_info_def guard is_zip_family_def Let_def)
  qed (use assms(3,4) plain_wav_sniffed(1) [OF assms(1), of checks] in \<open>simp_all add: detect_magic_def detect_magic_info_def guard\<close>)
  then show ?thesis unfolding sniff wav_duration_panics .
qed

lemma crafted_wav_detected:
  "\<not> (checks \<and> is_ui_thread thread g) \<Longrightarrow> detect_magic checks thread g (wav_file crafted_wav) = Panic"
  using plain_wav_detected [OF crafted_wav_plain(1), of checks thread g "wav_file crafted_wav"] crafted_wav_plain by (simp add: wav_file_def)

text \<open>C39. Detecting the type of a file panics on the thread of the user interface of a checked build, where the guard at
  its start fires whatever the file is.  Anywhere else it panics only for a file whose header is that of a WAV file with a format chunk that
  declares a rate and a channel count with \<open>2 * channels * rate\<close> out of the \<open>u32\<close> range: no other contents
  do, whatever the second reads of the file return, with or without overflow checks.\<close>

theorem detect_magic_panics_only_for_wav:
  assumes "detect_magic checks thread g file = Panic"
  shows "(checks \<and> is_ui_thread thread g) \<or>
    (\<exists>buf sr ch. fr_header file = Some buf \<and> starts_with (bstr ''RIFF'') buf \<and> has_at 8 (bstr ''WAVE'') buf \<and>
      wav_format buf sr ch \<and> 2 ^ 32 \<le> 2 * unat ch * unat sr)"
proof (cases "checks \<and> is_ui_thread thread g")
  case False
  then have "assert_off_ui_thread checks thread g = Ok ()" by (simp add: assert_off_ui_thread_def)
  with assms obtain buf where "fr_header file = Some buf" "sniff_bytes_info checks buf = Panic"
    by (auto simp: detect_magic_def detect_magic_info_def obind_Panic_iff refine_zip_no_panic refine_ole_no_panic
        split: option.splits if_splits)
  then show ?thesis using audio_sniff_panics_only_for_wav [OF sniff_bytes_audio_panic] by blast
qed simp

theorem detect_magic_panics_only_for_wav_witness:
  "\<exists>sr ch. wav_format crafted_wav sr ch \<and> 2 ^ 32 \<le> 2 * unat ch * unat sr"
  using detect_magic_panics_only_for_wav [OF crafted_wav_detected [of False 0 "\<lparr>pg_render_depth = \<lambda>_. 0, pg_ui_thread = Some 1\<rparr>"]]
  by (simp add: wav_file_def)

text \<open>C40. Which WAV files make the detection panic.  For a file whose header is plain (a format chunk of 16 bytes, then the data chunk, and
  not the mark of a tracker module after it), off the thread of the user interface or in a build without checks, the detection panics exactly when
  rate and channel count are not zero and their product with the two bytes of a sample leaves the \<open>u32\<close> range, in a checked build, or
  is a multiple of \<open>2^32\<close>, in a build without checks, where it wraps to zero and the division panics.\<close>

theorem plain_wav_panics:
  assumes "plain_wav buf" and "\<not> (checks \<and> is_ui_thread thread g)" and "\<not> fr_is_dir file" and "fr_header file = Some buf"
  shows "detect_magic checks thread g file = Panic \<longleftrightarrow> wav_rate buf \<noteq> 0 \<and> wav_channels buf \<noteq> 0 \<and>
    (if checks then 2 ^ 32 \<le> 2 * unat (wav_channels buf) * unat (wav_rate buf)
     else 2 ^ 32 dvd 2 * unat (wav_channels buf) * unat (wav_rate buf))"
  using assms by (rule plain_wav_detected)

theorem plain_wav_panics_witness:
  "detect_magic False 0 \<lparr>pg_render_depth = \<lambda>_. 0, pg_ui_thread = Some 0\<rparr> (wav_file crafted_wav) = Panic"
  using plain_wav_panics [OF crafted_wav_plain(1), of False 0 "\<lparr>pg_render_depth = \<lambda>_. 0, pg_ui_thread = Some 0\<rparr>" "wav_file crafted_wav"] crafted_wav_plain
  by (simp add: wav_file_def)

end
