(* ===== verification/MagicFlags.thy ===== *)
theory MagicFlags
  imports MagicProps EntryLabels
begin

text \<open>
  The sniffer and the Format column together: the label of a detected type, judged by
  \<open>classify_format\<close> of \<open>ferail-core\<close>, is an alert exactly when the content is more dangerous than the extension.
\<close>

section \<open>What the Format column flags\<close>

definition runs :: "magic_type \<Rightarrow> bool" where
  "runs mt \<longleftrightarrow> mt \<in> {MtExeWindows, MtDllWindows, MtExeWindowsNet, MtExeLinux, MtSoLinux, MtExeMac, MtDylibMac, MtMachOFat, MtExeAmiga,
     MtAppJar, MtAppApk, MtLnk, MtUrl}"

definition interpreted :: "magic_type \<Rightarrow> bool" where
  "interpreted mt \<longleftrightarrow> mt \<in> {MtScriptBash, MtScriptPython, MtScriptPerl, MtScriptRuby, MtScriptNode, MtScriptOther}"

definition packed :: "magic_type \<Rightarrow> bool" where
  "packed mt \<longleftrightarrow> mt \<in> {MtZip, MtZipEncrypted, MtRar, MtSevenZip, MtTar, MtLha, MtLzx, MtGzip, MtXz, MtBzip2, MtZstd, MtBinary}"

text \<open>Searching for a keyword, on the codes of the characters.\<close>

fun code_contains :: "nat list \<Rightarrow> nat list \<Rightarrow> bool" where
  "code_contains [] needle \<longleftrightarrow> needle = []"
| "code_contains (c # s) needle \<longleftrightarrow> take (length needle) (c # s) = needle \<or> code_contains s needle"

definition code_lower :: "nat \<Rightarrow> nat" where
  "code_lower n = (if 65 \<le> n \<and> n \<le> 90 then n + 32 else n)"

lemma code_contains_step:
  "code_contains (c # s) (d # needle) =
     (if c = d then (if take (length needle) s = needle then True else code_contains s (d # needle)) else code_contains s (d # needle))"
  by auto

lemma codes_eq:
  assumes "\<forall>n\<in>set a. n < 256" "\<forall>n\<in>set b. n < 256" shows "map of_nat a = (map of_nat b :: rust_string) \<longleftrightarrow> a = b"
proof -
  have "inj_on (of_nat :: nat \<Rightarrow> u32) (set a \<union> set b)"
  proof (rule inj_onI)
    fix x y assume xy: "x \<in> set a \<union> set b" "y \<in> set a \<union> set b" and eq: "(of_nat x :: u32) = of_nat y"
    then have "x < 256" "y < 256" using assms by auto
    with arg_cong [OF eq, of unat] show "x = y" by (simp add: unat_of_nat)
  qed
  then show ?thesis by (rule inj_on_map_eq_map)
qed

lemma contains_codes:
  assumes "\<forall>n\<in>set s. n < 256" "\<forall>n\<in>set t. n < 256"
  shows "contains (map of_nat s) (map of_nat t) = code_contains s t"
  using assms(1)
proof (induction s)
  case (Cons c s)
  have "\<forall>n\<in>set (take (length t) (c # s)). n < 256" using Cons.prems by (meson in_set_takeD)
  from codes_eq [OF this assms(2)] Cons show ?case by (simp add: take_map [symmetric] del: take_Suc_Cons)
qed simp

lemma label_codes: "ascii_lower (ascii s) = map of_nat (map (\<lambda>c. code_lower (of_char c)) s)"
proof -
  have "to_ascii_lowercase (of_nat (of_char c)) = of_nat (code_lower (of_char c))" for c :: char
  proof -
    have "(of_char c :: nat) < 256" by simp
    then have "(of_char c :: nat) < 2 ^ LENGTH(32)" by (rule order.strict_trans) simp
    then have "(of_char c :: nat) mod 2 ^ LENGTH(32) = of_char c" by (rule mod_less)
    then have "unat (of_nat (of_char c) :: u32) = of_char c" by (simp only: unat_of_nat)
    then show ?thesis by (simp add: to_ascii_lowercase_def is_ascii_uppercase_def code_lower_def word_le_nat_alt)
  qed
  then show ?thesis by (simp add: ascii_lower_def ascii_def)
qed

lemma code_ranges: "\<forall>n\<in>set (map (\<lambda>c. code_lower (of_char c)) s). n < 256" "\<forall>n\<in>set (map of_char s). n < (256 :: nat)"
  by (auto simp: code_lower_def)

lemma ascii_codes: "ascii t = map of_nat (map of_char t)"
  by (simp add: ascii_def)

lemma label_contains:
  "contains (ascii_lower (ascii s)) (ascii t) = code_contains (map (\<lambda>c. code_lower (of_char c)) s) (map of_char t)"
  unfolding label_codes ascii_codes [of t] by (rule contains_codes [OF code_ranges])

lemma label_is: "ascii_lower (ascii s) = ascii t \<longleftrightarrow> map (\<lambda>c. code_lower (of_char c)) s = map of_char t"
  unfolding label_codes ascii_codes [of t] by (rule codes_eq [OF code_ranges])

lemma label_risk:
  "content_risk_of (ascii (display_name mt)) desc =
     (if contains (ascii_lower desc) (ascii ''macro-enabled'') then RiskMacro
      else if runs mt then RiskExecutable else if interpreted mt then RiskScript else if packed mt then RiskArchiveOrBinary
      else RiskPassive)"
  by (cases mt) (simp_all add: content_risk_of_def runs_def interpreted_def packed_def has_any_def Let_def label_contains label_is
      code_lower_def code_contains_step del: code_contains.simps(2))


definition macro_text :: "rust_string \<Rightarrow> bool" where
  "macro_text desc \<longleftrightarrow> contains (ascii_lower desc) (ascii ''macro-enabled'')"

text \<open>The flag of a detected type follows its danger: content that runs is an alert under every extension
  that does not announce code, an archive or blob is one under a passive extension it does not fit, and passive
  content without a macro text is never an alert.\<close>

theorem classify_detected:
  "classify_format kind (ascii (display_name mt)) desc = FlagAlert \<longleftrightarrow>
     ext_class_of kind \<noteq> ExtPlaceholder \<and>
     (if macro_text desc then ext_class_of kind \<noteq> ExtOfficeMacro
      else if runs mt \<or> interpreted mt then ext_class_of kind \<noteq> ExtCode
      else packed mt \<and> ext_class_of kind \<in> {ExtMedia, ExtDocument, ExtText} \<and> \<not> formats_compatible kind (ascii (display_name mt)))"
  unfolding classify_format_def label_risk macro_text_def by (auto simp: Let_def)

lemma macro_text_ascii: "macro_text (ascii s) = code_contains (map (\<lambda>c. code_lower (of_char c)) s) (map of_char ''macro-enabled'')"
  unfolding macro_text_def by (rule label_contains)

lemma ascii_append: "ascii s @ ascii t = ascii (s @ t)" "ascii s @ 0x20 # 0xB7 # 0x20 # ascii t = ascii (s @ [CHR '' '', CHR 0xB7, CHR '' ''] @ t)"
  by (simp_all add: ascii_def)

lemma office_macro_text:
  assumes "name \<in> {''Word document'', ''Excel spreadsheet'', ''PowerPoint presentation''}"
  shows "macro_text (join_parts (office_part info name ole)) \<longleftrightarrow> mi_has_macros info"
  using assms by (auto simp: office_part_def flag_part_def ascii_append macro_text_ascii code_lower_def code_contains_step
      simp del: code_contains.simps(2))

lemma docx_document: "ext_class_of (ascii ''DOCX'') = ExtDocument"
  by (simp add: ext_class_of_def Let_def trim_def trim_def ascii_def ascii_lower_def to_ascii_lowercase_def is_ascii_uppercase_def
      one_of_def OFFICE_MACRO_def CODE_def MEDIA_def DOCUMENT_def is_whitespace_def)

text \<open>An Office document with macros is an alert unless its extension announces macros, and a document
  without macros is none.\<close>

theorem office_macros_flagged:
  assumes "mi_type info \<in> {MtDocWord, MtDocWordMacro, MtDocWordOle, MtDocExcel, MtDocExcelMacro, MtDocExcelOle,
    MtDocPowerPoint, MtDocPowerPointMacro, MtDocPowerPointOle}" and "ext_class_of kind \<noteq> ExtPlaceholder"
  shows "classify_format kind (ascii (display_name (mi_type info))) (description khz info) = FlagAlert \<longleftrightarrow>
    mi_has_macros info \<and> ext_class_of kind \<noteq> ExtOfficeMacro"
proof -
  have macro: "macro_text (description khz info) \<longleftrightarrow> mi_has_macros info"
    using assms(1) unfolding description_def
    by (elim insertE emptyE) (simp_all add: description_parts_def plain_types_def office_macro_text)
  have "\<not> runs (mi_type info)" "\<not> interpreted (mi_type info)" "\<not> packed (mi_type info)"
    using assms(1) by (auto simp: runs_def interpreted_def packed_def)
  then show ?thesis using assms(2) macro unfolding classify_format_def label_risk macro_text_def by (auto simp: Let_def)
qed

theorem office_macros_flagged_witness:
  "classify_format (ascii ''DOCX'') (ascii ''Word document'')
     (description (\<lambda>_. []) ((MagicInfo_new MtDocWordMacro)\<lparr>mi_has_macros := True\<rparr>)) = FlagAlert"
  using office_macros_flagged [of "(MagicInfo_new MtDocWordMacro)\<lparr>mi_has_macros := True\<rparr>" "ascii ''DOCX''" "\<lambda>_. []"]
  by (simp add: docx_document MagicInfo_new_def)

text \<open>Two labels the rules misjudge: an honest \<open>.war\<close>, and a Word extension on plain text.\<close>

lemmas kind_eval = ext_class_of_def Let_def trim_def ascii_def ascii_lower_def to_ascii_lowercase_def is_ascii_uppercase_def
  one_of_def OFFICE_MACRO_def CODE_def MEDIA_def DOCUMENT_def TEXT_def ARCHIVE_def is_whitespace_def

lemma war_archive: "ext_class_of (ascii ''WAR'') = ExtArchive"
  by (simp add: kind_eval)

lemma war_flagged: "classify_format (ascii ''WAR'') (ascii (display_name MtAppJar)) desc = FlagAlert"
  unfolding classify_format_def label_risk by (simp add: war_archive runs_def Let_def)

lemma docx_as_plain_text: "formats_compatible (ascii ''DOCX'') (ascii ''Plain text'')"
proof -
  have "normalize_format (ascii ''DOCX'') = ascii ''docx''" "normalize_format (ascii ''Plain text'') = ascii ''plain text''"
    by (simp_all add: normalize_format_def kind_eval)
  then show ?thesis by (simp add: formats_compatible_def Let_def has_any_def textual_def one_of_def ascii_def)
qed

end
