(* ===== verification/NameHazards.thy ===== *)
theory NameHazards
  imports RustText
begin

text \<open>
  \<open>ferail-core\<close>: \<open>name_hazards.rs\<close>, which splits a file name into runs of ordinary text and single
  suspicious characters.  Parameters: \<open>char::is_alphabetic\<close> of the Unicode tables, and the translator
  that \<open>tr!\<close> and \<open>tr_raw\<close> call, with the arguments of a message as texts.
\<close>

section \<open>Segments\<close>

datatype hazard_kind = HzLeadingSpace | HzTrailingSpace | HzUnusualWhitespace | HzZeroWidth | HzControl | HzBidi | HzHomoglyph
  | HzCombiningMark

fun hazard_summary :: "hazard_kind \<Rightarrow> string" where
  "hazard_summary HzLeadingSpace = ''Leading whitespace''"
| "hazard_summary HzTrailingSpace = ''Trailing whitespace''"
| "hazard_summary HzUnusualWhitespace = ''Unusual whitespace''"
| "hazard_summary HzZeroWidth = ''Zero-width character''"
| "hazard_summary HzControl = ''Control character''"
| "hazard_summary HzBidi = ''Bidirectional override''"
| "hazard_summary HzHomoglyph = ''Look-alike character''"
| "hazard_summary HzCombiningMark = ''Combining mark''"

record name_segment =
  sg_text :: rust_string
  sg_hazard :: "hazard_kind option"
  sg_label :: "rust_string option"
  sg_render :: "rust_string option"

definition segment_plain :: "rust_string \<Rightarrow> name_segment" where
  "segment_plain s = \<lparr>sg_text = s, sg_hazard = None, sg_label = None, sg_render = None\<rparr>"

definition hazard_segment :: "u32 \<Rightarrow> hazard_kind \<Rightarrow> rust_string \<Rightarrow> rust_string option \<Rightarrow> name_segment" where
  "hazard_segment c kind label render = \<lparr>sg_text = [c], sg_hazard = Some kind, sg_label = Some label, sg_render = render\<rparr>"

section \<open>Texts\<close>

text \<open>\<open>{:04X}\<close>.\<close>

definition hex_digit :: "nat \<Rightarrow> u32" where
  "hex_digit d = of_nat (if d < 10 then 0x30 + d else 0x37 + d)"

fun hex_digits :: "nat \<Rightarrow> rust_string" where
  "hex_digits n = (if n < 16 then [hex_digit n] else hex_digits (n div 16) @ [hex_digit (n mod 16)])"

declare hex_digits.simps [simp del]

definition hex4 :: "u32 \<Rightarrow> rust_string" where
  "hex4 cp = (let ds = hex_digits (unat cp) in replicate (4 - length ds) 0x30 @ ds)"

record message_translator =
  msg_tr :: "string \<Rightarrow> (string \<times> rust_string) list \<Rightarrow> rust_string"
  msg_raw :: "string \<Rightarrow> rust_string"

text \<open>The brackets of a visible stand-in, U+27E8 and U+27E9.\<close>

definition bracketed :: "rust_string \<Rightarrow> rust_string" where
  "bracketed s = 0x27E8 # s @ [0x27E9]"

definition visible_codepoint :: "u32 \<Rightarrow> rust_string" where
  "visible_codepoint cp = bracketed (ascii ''U+'' @ hex4 cp)"

definition ws_glyph :: "u32 \<Rightarrow> rust_string" where
  "ws_glyph c =
     (if c = 0x09 then [0x21E5] else if c = 0x0A \<or> c = 0x0D then [0x23CE] else if c = 0x20 then [0x2423]
      else bracketed (ascii ''U+'' @ hex4 c))"

definition which_name :: "message_translator \<Rightarrow> string \<Rightarrow> u32 \<Rightarrow> rust_string" where
  "which_name t which cp = msg_tr t ''{which} (U+{code})'' [(''which'', msg_raw t which), (''code'', hex4 cp)]"

definition whitespace_which :: "u32 \<Rightarrow> string" where
  "whitespace_which cp =
     (if cp = 0x20 then ''space'' else if cp = 0x09 then ''tab'' else if cp = 0x0A then ''newline''
      else if cp = 0x0D then ''carriage return'' else if cp = 0xA0 then ''no-break space''
      else if cp = 0x2007 then ''figure space'' else if cp = 0x202F then ''narrow no-break space''
      else if cp = 0x3000 then ''ideographic space'' else if 0x2000 \<le> cp \<and> cp \<le> 0x200A then ''Unicode space''
      else ''whitespace'')"

definition whitespace_name :: "message_translator \<Rightarrow> u32 \<Rightarrow> rust_string" where
  "whitespace_name t cp = which_name t (whitespace_which cp) cp"

definition zero_width_name :: "message_translator \<Rightarrow> u32 \<Rightarrow> rust_string" where
  "zero_width_name t cp = which_name t
     (if cp = 0x200B then ''zero-width space'' else if cp = 0x200C then ''zero-width non-joiner''
      else if cp = 0x200D then ''zero-width joiner'' else if cp = 0x2060 then ''word joiner''
      else if cp = 0xFEFF then ''byte-order mark'' else ''zero-width character'') cp"

definition bidi_names :: "(u32 \<times> string) list" where
  "bidi_names = [(0x202A, ''left-to-right embedding''), (0x202B, ''right-to-left embedding''),
     (0x202C, ''pop directional formatting''), (0x202D, ''left-to-right override''), (0x202E, ''right-to-left override''),
     (0x2066, ''left-to-right isolate''), (0x2067, ''right-to-left isolate''), (0x2068, ''first strong isolate''),
     (0x2069, ''pop directional isolate''), (0x200E, ''left-to-right mark''), (0x200F, ''right-to-left mark'')]"

definition bidi_name :: "message_translator \<Rightarrow> u32 \<Rightarrow> rust_string" where
  "bidi_name t cp = which_name t (case map_of bidi_names cp of Some which \<Rightarrow> which | None \<Rightarrow> ''bidirectional control'') cp"

section \<open>Character classes\<close>

definition is_bidi_control :: "u32 \<Rightarrow> bool" where
  "is_bidi_control cp \<longleftrightarrow> (0x202A \<le> cp \<and> cp \<le> 0x202E) \<or> (0x2066 \<le> cp \<and> cp \<le> 0x2069) \<or> cp = 0x200E \<or> cp = 0x200F"

definition is_zero_width :: "u32 \<Rightarrow> bool" where
  "is_zero_width cp \<longleftrightarrow> cp \<in> {0x200B, 0x200C, 0x200D, 0x2060, 0xFEFF}"

definition is_control_hazard :: "u32 \<Rightarrow> bool" where
  "is_control_hazard cp \<longleftrightarrow> (cp < 0x20 \<and> \<not> is_whitespace cp) \<or> cp = 0x7F \<or> (0x80 \<le> cp \<and> cp \<le> 0x9F)"

definition is_combining_mark :: "u32 \<Rightarrow> bool" where
  "is_combining_mark cp \<longleftrightarrow> (0x0300 \<le> cp \<and> cp \<le> 0x036F) \<or> (0x1AB0 \<le> cp \<and> cp \<le> 0x1AFF) \<or> (0x1DC0 \<le> cp \<and> cp \<le> 0x1DFF) \<or>
     (0x20D0 \<le> cp \<and> cp \<le> 0x20FF) \<or> (0xFE20 \<le> cp \<and> cp \<le> 0xFE2F)"

text \<open>The curated look-alikes: the character, the ASCII letter it mimics and its script.\<close>

definition confusables :: "(u32 \<times> char \<times> string) list" where
  "confusables = [
     (0x430, CHR ''a'', ''Cyrillic''), (0x435, CHR ''e'', ''Cyrillic''), (0x43E, CHR ''o'', ''Cyrillic''),
     (0x440, CHR ''p'', ''Cyrillic''), (0x441, CHR ''c'', ''Cyrillic''), (0x443, CHR ''y'', ''Cyrillic''),
     (0x445, CHR ''x'', ''Cyrillic''), (0x456, CHR ''i'', ''Cyrillic''), (0x458, CHR ''j'', ''Cyrillic''),
     (0x455, CHR ''s'', ''Cyrillic''), (0x501, CHR ''d'', ''Cyrillic''), (0x4BB, CHR ''h'', ''Cyrillic''),
     (0x578, CHR ''n'', ''Armenian''),
     (0x410, CHR ''A'', ''Cyrillic''), (0x412, CHR ''B'', ''Cyrillic''), (0x415, CHR ''E'', ''Cyrillic''),
     (0x41A, CHR ''K'', ''Cyrillic''), (0x41C, CHR ''M'', ''Cyrillic''), (0x41D, CHR ''H'', ''Cyrillic''),
     (0x41E, CHR ''O'', ''Cyrillic''), (0x420, CHR ''P'', ''Cyrillic''), (0x421, CHR ''C'', ''Cyrillic''),
     (0x422, CHR ''T'', ''Cyrillic''), (0x425, CHR ''X'', ''Cyrillic''),
     (0x3BF, CHR ''o'', ''Greek''), (0x3B1, CHR ''a'', ''Greek''), (0x3BD, CHR ''v'', ''Greek''), (0x3C1, CHR ''p'', ''Greek''),
     (0x3C4, CHR ''t'', ''Greek''), (0x3B9, CHR ''i'', ''Greek''), (0x3BA, CHR ''k'', ''Greek''), (0x391, CHR ''A'', ''Greek''),
     (0x392, CHR ''B'', ''Greek''), (0x395, CHR ''E'', ''Greek''), (0x39F, CHR ''O'', ''Greek''), (0x3A1, CHR ''P'', ''Greek''),
     (0x3A4, CHR ''T'', ''Greek'')]"

definition confusable :: "u32 \<Rightarrow> (u32 \<times> string) option" where
  "confusable c =
     (if 0xFF21 \<le> c \<and> c \<le> 0xFF3A then Some (c - 0xFF21 + 0x41, ''Fullwidth'')
      else if 0xFF41 \<le> c \<and> c \<le> 0xFF5A then Some (c - 0xFF41 + 0x61, ''Fullwidth'')
      else map_option (\<lambda>(a, script). (of_nat (of_char a), script)) (map_of confusables c))"

section \<open>Mixed scripts\<close>

text \<open>The flags of the characters: those of a maximal alphabetic token are its mixture.\<close>

definition token_mixed :: "rust_string \<Rightarrow> bool" where
  "token_mixed token \<longleftrightarrow> list_ex is_ascii_alphabetic token \<and> list_ex (\<lambda>c. confusable c \<noteq> None) token"

function mixed_script_flags :: "(u32 \<Rightarrow> bool) \<Rightarrow> rust_string \<Rightarrow> bool list" where
  "mixed_script_flags alphabetic [] = []"
| "mixed_script_flags alphabetic (c # s) =
     (if \<not> alphabetic c then False # mixed_script_flags alphabetic s
      else
      let token = takeWhile alphabetic (c # s) in
      replicate (length token) (token_mixed token) @ mixed_script_flags alphabetic (dropWhile alphabetic (c # s)))"
  by pat_completeness auto
termination
  by (relation "measure (\<lambda>(alphabetic, s). length s)") (auto simp: less_Suc_eq_le length_dropWhile_le)

declare mixed_script_flags.simps (2) [simp del]

section \<open>Classification\<close>

definition classify_char :: "message_translator \<Rightarrow> u32 \<Rightarrow> bool \<Rightarrow> bool \<Rightarrow> bool \<Rightarrow> bool \<Rightarrow> name_segment option" where
  "classify_char t c in_lead in_trail in_mixed_token mark_anchored =
     (if is_bidi_control c then Some (hazard_segment c HzBidi (bidi_name t c) (Some (visible_codepoint c)))
      else if is_zero_width c then Some (hazard_segment c HzZeroWidth (zero_width_name t c) (Some (visible_codepoint c)))
      else if is_control_hazard c then
        Some (hazard_segment c HzControl (msg_tr t ''Control character (U+{code})'' [(''code'', hex4 c)]) (Some (bracketed (hex4 c))))
      else if is_whitespace c then
        (if in_lead then Some (hazard_segment c HzLeadingSpace (whitespace_name t c) (Some (ws_glyph c)))
         else if in_trail then Some (hazard_segment c HzTrailingSpace (whitespace_name t c) (Some (ws_glyph c)))
         else if c \<noteq> 0x20 then Some (hazard_segment c HzUnusualWhitespace (whitespace_name t c) (Some (ws_glyph c)))
         else None)
      else if is_combining_mark c then
        (if mark_anchored then None
         else Some (hazard_segment c HzCombiningMark (msg_tr t ''Stray combining mark (U+{code})'' [(''code'', hex4 c)])
                (Some (visible_codepoint c))))
      else if in_mixed_token then
        (case confusable c of
           Some (looks, script) \<Rightarrow>
             Some (hazard_segment c HzHomoglyph
               (msg_tr t ''{script} '{c}' (U+{code}): looks like '{ascii}''
                  [(''script'', msg_raw t script), (''c'', [c]), (''code'', hex4 c), (''ascii'', [looks])]) None)
         | None \<Rightarrow> None)
      else None)"

text \<open>
  What the loop of \<open>analyze\<close> carries: the mark context, the run of plain text and the segments so far.
\<close>

record name_scan =
  ns_base_is_letter :: bool
  ns_stacked_marks :: nat
  ns_plain :: rust_string
  ns_out :: "name_segment list"

definition flush_plain :: "name_scan \<Rightarrow> name_scan" where
  "flush_plain st = (if ns_plain st = [] then st else st\<lparr>ns_out := ns_out st @ [segment_plain (ns_plain st)], ns_plain := []\<rparr>)"

definition scan_char :: "message_translator \<Rightarrow> (u32 \<Rightarrow> bool) \<Rightarrow> nat \<Rightarrow> nat \<Rightarrow> nat \<Rightarrow> nat \<times> u32 \<times> bool \<Rightarrow> name_scan \<Rightarrow> name_scan" where
  "scan_char t alphabetic lead_end trail_start n = (\<lambda>(i, c, mixed) st.
     (let in_lead = i < lead_end; in_trail = (trail_start \<le> i \<and> trail_start < n);
          (st, mark_anchored) =
            (if is_combining_mark c
             then (st\<lparr>ns_stacked_marks := ns_stacked_marks st + 1\<rparr>, ns_base_is_letter st \<and> ns_stacked_marks st + 1 \<le> 2)
             else (st\<lparr>ns_base_is_letter := alphabetic c, ns_stacked_marks := 0\<rparr>, False)) in
      case classify_char t c in_lead in_trail mixed mark_anchored of
        Some seg \<Rightarrow> (let st = flush_plain st in st\<lparr>ns_out := ns_out st @ [seg]\<rparr>)
      | None \<Rightarrow> st\<lparr>ns_plain := ns_plain st @ [c]\<rparr>))"

definition lead_end :: "rust_string \<Rightarrow> nat" where
  "lead_end chars = length (takeWhile is_whitespace chars)"

definition trail_start :: "rust_string \<Rightarrow> nat" where
  "trail_start chars = length chars - length (takeWhile is_whitespace (rev chars))"

definition analyze :: "message_translator \<Rightarrow> (u32 \<Rightarrow> bool) \<Rightarrow> rust_string \<Rightarrow> name_segment list" where
  "analyze t alphabetic chars =
     ns_out (flush_plain (fold (scan_char t alphabetic (lead_end chars) (trail_start chars) (length chars))
       (zip [0..<length chars] (zip chars (mixed_script_flags alphabetic chars)))
       \<lparr>ns_base_is_letter = False, ns_stacked_marks = 0, ns_plain = [], ns_out = []\<rparr>))"

definition has_hazards :: "message_translator \<Rightarrow> (u32 \<Rightarrow> bool) \<Rightarrow> rust_string \<Rightarrow> bool" where
  "has_hazards t alphabetic name \<longleftrightarrow> list_ex (\<lambda>s. sg_hazard s \<noteq> None) (analyze t alphabetic name)"

end
