(* ===== verification/NameHazardsProps.thy ===== *)
theory NameHazardsProps
  imports NameHazards
begin

text \<open>
  What \<open>name_hazards.rs\<close> promises: the segments spell the name, every character is flagged exactly as a
  reference over explicit code points demands of its place, and what is shown replaces the flagged
  characters and no other.
\<close>

section \<open>A reference classification\<close>

text \<open>The classes as code points, written out from the Unicode charts and the doc comments.\<close>

definition bidi_points :: "nat set" where
  "bidi_points = {0x200E, 0x200F} \<union> {0x202A .. 0x202E} \<union> {0x2066 .. 0x2069}"

definition zero_width_points :: "nat set" where
  "zero_width_points = {0x200B, 0x200C, 0x200D, 0x2060, 0xFEFF}"

definition white_space_points :: "nat set" where
  "white_space_points = {0x09 .. 0x0D} \<union> {0x20, 0x85, 0xA0, 0x1680} \<union> {0x2000 .. 0x200A} \<union> {0x2028, 0x2029, 0x202F, 0x205F, 0x3000}"

text \<open>The control codes below the space without the white space, DEL and those above it.\<close>

definition control_points :: "nat set" where
  "control_points = {0x00 .. 0x08} \<union> {0x0E .. 0x1F} \<union> {0x7F .. 0x9F}"

definition mark_points :: "nat set" where
  "mark_points = {0x300 .. 0x36F} \<union> {0x1AB0 .. 0x1AFF} \<union> {0x1DC0 .. 0x1DFF} \<union> {0x20D0 .. 0x20FF} \<union> {0xFE20 .. 0xFE2F}"

definition latin_points :: "nat set" where
  "latin_points = {0x41 .. 0x5A} \<union> {0x61 .. 0x7A}"

text \<open>The Greek, Cyrillic and Armenian letters of the curated list, and fullwidth Latin.\<close>

definition lookalike_letters :: "nat set" where
  "lookalike_letters =
     {0x391, 0x392, 0x395, 0x39F, 0x3A1, 0x3A4, 0x3B1, 0x3B9, 0x3BA, 0x3BD, 0x3BF, 0x3C1, 0x3C4} \<union>
     {0x410, 0x412, 0x415, 0x41A, 0x41C, 0x41D, 0x41E, 0x420, 0x421, 0x422, 0x425, 0x430, 0x435, 0x43E, 0x440, 0x441, 0x443, 0x445,
      0x455, 0x456, 0x458, 0x4BB, 0x501} \<union> {0x578}"

definition lookalike_points :: "nat set" where
  "lookalike_points = {0xFF21 .. 0xFF3A} \<union> {0xFF41 .. 0xFF5A} \<union> lookalike_letters"

text \<open>Two places are in one word when every character from one to the other is a letter.\<close>

definition same_word :: "(u32 \<Rightarrow> bool) \<Rightarrow> rust_string \<Rightarrow> nat \<Rightarrow> nat \<Rightarrow> bool" where
  "same_word alphabetic name i j \<longleftrightarrow> (\<forall>k. min i j \<le> k \<and> k \<le> max i j \<longrightarrow> alphabetic (name ! k))"

text \<open>An accent: the first mark on a letter or the second.\<close>

definition accent :: "(u32 \<Rightarrow> bool) \<Rightarrow> rust_string \<Rightarrow> nat \<Rightarrow> bool" where
  "accent alphabetic name i \<longleftrightarrow>
     (1 \<le> i \<and> unat (name ! (i - 1)) \<notin> mark_points \<and> alphabetic (name ! (i - 1))) \<or>
     (2 \<le> i \<and> unat (name ! (i - 1)) \<in> mark_points \<and> unat (name ! (i - 2)) \<notin> mark_points \<and> alphabetic (name ! (i - 2)))"

definition hazard_at :: "(u32 \<Rightarrow> bool) \<Rightarrow> rust_string \<Rightarrow> nat \<Rightarrow> hazard_kind option" where
  "hazard_at alphabetic name i =
     (let c = unat (name ! i) in
      if c \<in> bidi_points then Some HzBidi
      else if c \<in> zero_width_points then Some HzZeroWidth
      else if c \<in> control_points then Some HzControl
      else if c \<in> white_space_points then
        (if \<forall>j<i. unat (name ! j) \<in> white_space_points then Some HzLeadingSpace
         else if \<forall>j<length name. i \<le> j \<longrightarrow> unat (name ! j) \<in> white_space_points then Some HzTrailingSpace
         else if c \<noteq> 0x20 then Some HzUnusualWhitespace else None)
      else if c \<in> mark_points then (if accent alphabetic name i then None else Some HzCombiningMark)
      else if c \<in> lookalike_points \<and> (\<exists>j<length name. same_word alphabetic name i j \<and> unat (name ! j) \<in> latin_points)
        then Some HzHomoglyph
      else None)"

section \<open>The classification of the code\<close>

text \<open>The letter a combining mark rides on, and the marks already there.\<close>

definition base_letter :: "(u32 \<Rightarrow> bool) \<Rightarrow> rust_string \<Rightarrow> bool" where
  "base_letter alphabetic before = (case dropWhile is_combining_mark (rev before) of [] \<Rightarrow> False | b # _ \<Rightarrow> alphabetic b)"

definition marks_before :: "rust_string \<Rightarrow> nat" where
  "marks_before before = length (takeWhile is_combining_mark (rev before))"

definition classified_at :: "(u32 \<Rightarrow> bool) \<Rightarrow> rust_string \<Rightarrow> nat \<Rightarrow> hazard_kind option" where
  "classified_at alphabetic name i =
     (let c = name ! i in
      if is_bidi_control c then Some HzBidi
      else if is_zero_width c then Some HzZeroWidth
      else if is_control_hazard c then Some HzControl
      else if is_whitespace c then
        (if list_all is_whitespace (take i name) then Some HzLeadingSpace
         else if list_all is_whitespace (drop i name) then Some HzTrailingSpace
         else if c \<noteq> 0x20 then Some HzUnusualWhitespace else None)
      else if is_combining_mark c then
        (if base_letter alphabetic (take i name) \<and> marks_before (take i name) \<le> 1 then None else Some HzCombiningMark)
      else if mixed_script_flags alphabetic name ! i \<and> confusable c \<noteq> None then Some HzHomoglyph
      else None)"

definition flat :: "name_segment list \<Rightarrow> (u32 \<times> hazard_kind option) list" where
  "flat segs = concat (map (\<lambda>s. map (\<lambda>c. (c, sg_hazard s)) (sg_text s)) segs)"

lemma flat_simps [simp]:
  "flat [] = []" "flat (s # segs) = map (\<lambda>c. (c, sg_hazard s)) (sg_text s) @ flat segs" "flat (segs @ segs') = flat segs @ flat segs'"
  by (simp_all add: flat_def)

section \<open>The scan\<close>

lemma length_flags [simp]: "length (mixed_script_flags alphabetic s) = length s"
proof (induction alphabetic s rule: mixed_script_flags.induct)
  case (2 alphabetic c s)
  have "length (takeWhile alphabetic (c # s)) + length (dropWhile alphabetic (c # s)) = Suc (length s)"
    by (metis length_Cons length_append takeWhile_dropWhile_id)
  with 2 show ?case by (subst mixed_script_flags.simps) (auto simp: Let_def)
qed simp

lemma classify_kind:
  "map_option sg_hazard (classify_char t c in_lead in_trail mixed anchored) = map_option Some
    (if is_bidi_control c then Some HzBidi
      else if is_zero_width c then Some HzZeroWidth
      else if is_control_hazard c then Some HzControl
      else if is_whitespace c then
        (if in_lead then Some HzLeadingSpace else if in_trail then Some HzTrailingSpace
         else if c \<noteq> 0x20 then Some HzUnusualWhitespace else None)
      else if is_combining_mark c then (if anchored then None else Some HzCombiningMark)
      else if mixed \<and> confusable c \<noteq> None then Some HzHomoglyph else None)"
  unfolding classify_char_def by (simp add: hazard_segment_def split: option.split)

lemma classify_text: "classify_char t c in_lead in_trail mixed anchored = Some seg \<Longrightarrow> sg_text seg = [c]"
  unfolding classify_char_def by (auto simp: hazard_segment_def split: if_splits option.splits)

lemma takeWhile_prefix: "i < length xs \<Longrightarrow> i < length (takeWhile P xs) \<longleftrightarrow> list_all P (take (Suc i) xs)"
proof (induction xs arbitrary: i)
  case (Cons x xs)
  then show ?case by (cases i) auto
qed simp

lemma lead_iff:
  assumes "i < length name" "is_whitespace (name ! i)" shows "i < lead_end name \<longleftrightarrow> list_all is_whitespace (take i name)"
  using assms takeWhile_prefix [OF assms(1), of is_whitespace] by (simp add: lead_end_def take_Suc_conv_app_nth)

lemma trail_iff:
  assumes "i < length name" "is_whitespace (name ! i)"
  shows "trail_start name \<le> i \<and> trail_start name < length name \<longleftrightarrow> list_all is_whitespace (drop i name)"
proof -
  have rev: "length name - Suc i < length (rev name)" "is_whitespace (rev name ! (length name - Suc i))" using assms by (simp_all add: rev_nth)
  have "length name - Suc i < lead_end (rev name) \<longleftrightarrow> list_all is_whitespace (take (length name - Suc i) (rev name))"
    by (rule lead_iff [OF rev])
  moreover have "take (length name - Suc i) (rev name) = rev (drop (Suc i) name)" using assms(1) by (simp add: take_rev)
  moreover have "length name - Suc i < lead_end (rev name) \<longleftrightarrow> trail_start name \<le> i \<and> trail_start name < length name"
    using assms(1) length_takeWhile_le [of is_whitespace "rev name"] by (auto simp: lead_end_def trail_start_def)
  moreover have "drop i name = name ! i # drop (Suc i) name" using assms(1) by (rule Cons_nth_drop_Suc [symmetric])
  ultimately show ?thesis using assms(2) by (simp add: list_all_iff)
qed

lemma hazard_classify:
  assumes "i < length name"
  shows "map_option sg_hazard (classify_char t (name ! i) (i < lead_end name) (trail_start name \<le> i \<and> trail_start name < length name)
      (mixed_script_flags alphabetic name ! i) (base_letter alphabetic (take i name) \<and> marks_before (take i name) \<le> 1)) =
    map_option Some (classified_at alphabetic name i)"
  unfolding classify_kind classified_at_def Let_def using lead_iff [OF assms] trail_iff [OF assms] by simp

definition scan_ok :: "(u32 \<Rightarrow> bool) \<Rightarrow> rust_string \<Rightarrow> nat \<Rightarrow> name_scan \<Rightarrow> bool" where
  "scan_ok alphabetic name k st \<longleftrightarrow>
     flat (ns_out st) @ map (\<lambda>c. (c, None)) (ns_plain st) = map (\<lambda>i. (name ! i, classified_at alphabetic name i)) [0..<k] \<and>
     ns_base_is_letter st = base_letter alphabetic (take k name) \<and> ns_stacked_marks st = marks_before (take k name)"

lemma flush_flat: "flat (ns_out (flush_plain st)) = flat (ns_out st) @ map (\<lambda>c. (c, None)) (ns_plain st)"
  by (simp add: flush_plain_def segment_plain_def)

lemma flush_fields [simp]:
  "ns_plain (flush_plain st) = []" "ns_base_is_letter (flush_plain st) = ns_base_is_letter st"
  "ns_stacked_marks (flush_plain st) = ns_stacked_marks st"
  by (simp_all add: flush_plain_def)

lemma take_step: "k < length name \<Longrightarrow> take (Suc k) name = take k name @ [name ! k]"
  by (rule take_Suc_conv_app_nth)

lemma marks_step:
  "marks_before (s @ [c]) = (if is_combining_mark c then marks_before s + 1 else 0)"
  "base_letter alphabetic (s @ [c]) = (if is_combining_mark c then base_letter alphabetic s else alphabetic c)"
  by (simp_all add: marks_before_def base_letter_def)

lemma scan_step:
  assumes "scan_ok alphabetic name k st" and k: "k < length name"
  shows "scan_ok alphabetic name (Suc k)
    (scan_char t alphabetic (lead_end name) (trail_start name) (length name) (k, name ! k, mixed_script_flags alphabetic name ! k) st)"
proof -
  let ?c = "name ! k" and ?anchored = "base_letter alphabetic (take k name) \<and> marks_before (take k name) \<le> 1"
  let ?seg = "\<lambda>anchored. classify_char t ?c (k < lead_end name) (trail_start name \<le> k \<and> trail_start name < length name)
     (mixed_script_flags alphabetic name ! k) anchored"
  note ok = assms(1) [unfolded scan_ok_def]
  have anchor: "?seg False = ?seg ?anchored" if "\<not> is_combining_mark ?c" using that by (simp add: classify_char_def)
  note kind = hazard_classify [OF k, of t alphabetic]
  have seg: "sg_text seg = [?c] \<and> sg_hazard seg = classified_at alphabetic name k" if "?seg ?anchored = Some seg" for seg
    using kind classify_text [OF that] unfolding that by (auto simp: map_option_case split: option.splits)
  have none: "classified_at alphabetic name k = None" if "?seg ?anchored = None"
    using kind unfolding that by (simp split: option.splits)
  define st1 where "st1 = (if is_combining_mark ?c then st\<lparr>ns_stacked_marks := Suc (ns_stacked_marks st)\<rparr>
    else st\<lparr>ns_base_is_letter := alphabetic ?c, ns_stacked_marks := 0\<rparr>)"
  have st1: "ns_out st1 = ns_out st" "ns_plain st1 = ns_plain st"
    "ns_base_is_letter st1 = base_letter alphabetic (take (Suc k) name)" "ns_stacked_marks st1 = marks_before (take (Suc k) name)"
    using ok k by (simp_all add: st1_def take_step marks_step)
  have step: "scan_char t alphabetic (lead_end name) (trail_start name) (length name) (k, ?c, mixed_script_flags alphabetic name ! k) st =
    (case ?seg ?anchored of Some seg \<Rightarrow> (let st = flush_plain st1 in st\<lparr>ns_out := ns_out st @ [seg]\<rparr>)
     | None \<Rightarrow> st1\<lparr>ns_plain := ns_plain st1 @ [?c]\<rparr>)"
    unfolding st1_def using ok anchor by (cases "is_combining_mark ?c") (simp_all add: scan_char_def)
  show ?thesis
  proof (cases "?seg ?anchored")
    case None
    show ?thesis unfolding step None using none [OF None] st1 ok k by (simp add: scan_ok_def)
  next
    case (Some seg)
    show ?thesis unfolding step Some using seg [OF Some] st1 ok k by (simp add: scan_ok_def Let_def flush_flat)
  qed
qed

lemma scan_all:
  "k \<le> length name \<Longrightarrow> scan_ok alphabetic name k
    (fold (scan_char t alphabetic (lead_end name) (trail_start name) (length name))
      (take k (zip [0..<length name] (zip name (mixed_script_flags alphabetic name))))
      \<lparr>ns_base_is_letter = False, ns_stacked_marks = 0, ns_plain = [], ns_out = []\<rparr>)"
proof (induction k)
  case 0
  show ?case by (simp add: scan_ok_def base_letter_def marks_before_def)
next
  case (Suc k)
  then have k: "k < length name" by simp
  from scan_step [OF Suc.IH k] k show ?case by (simp add: take_Suc_conv_app_nth)
qed

lemma analyze_flat: "flat (analyze t alphabetic name) = map (\<lambda>i. (name ! i, classified_at alphabetic name i)) [0..<length name]"
  using scan_all [of "length name" name alphabetic t] by (simp add: analyze_def flush_flat scan_ok_def)

section \<open>The classes agree with the reference\<close>

lemma word_points: "(w :: u32) = numeral n \<longleftrightarrow> unat w = unat (numeral n :: u32)"
  by (rule word_unat_eq_iff)

lemma class_points:
  "is_bidi_control c \<longleftrightarrow> unat c \<in> bidi_points" "is_zero_width c \<longleftrightarrow> unat c \<in> zero_width_points"
  "is_whitespace c \<longleftrightarrow> unat c \<in> white_space_points" "is_combining_mark c \<longleftrightarrow> unat c \<in> mark_points"
  "is_ascii_alphabetic c \<longleftrightarrow> unat c \<in> latin_points"
  by (auto simp: is_bidi_control_def bidi_points_def is_zero_width_def zero_width_points_def is_whitespace_def white_space_points_def
      is_combining_mark_def mark_points_def is_ascii_alphabetic_def is_ascii_uppercase_def latin_points_def word_le_nat_alt word_points)

lemma control_range: "(n < 0x20 \<and> \<not> (0x09 \<le> n \<and> n \<le> 0x0D)) \<or> n = 0x7F \<or> (0x80 \<le> n \<and> n \<le> 0x9F) \<longleftrightarrow> n \<in> control_points" for n :: nat
  unfolding control_points_def Un_iff atLeastAtMost_iff by presburger

lemma control_point: "is_control_hazard c \<longleftrightarrow> unat c \<in> control_points"
proof -
  have low: "n < 0x20 \<Longrightarrow> n \<in> white_space_points \<longleftrightarrow> 0x09 \<le> n \<and> n \<le> 0x0D" for n by (simp add: white_space_points_def)
  have points: "c < 0x20 \<longleftrightarrow> unat c < 0x20" "c = 0x7F \<longleftrightarrow> unat c = 0x7F" "0x80 \<le> c \<longleftrightarrow> 0x80 \<le> unat c" "c \<le> 0x9F \<longleftrightarrow> unat c \<le> 0x9F"
    by (simp_all add: word_le_nat_alt word_less_nat_alt word_points)
  have "is_control_hazard c \<longleftrightarrow> (unat c < 0x20 \<and> \<not> (0x09 \<le> unat c \<and> unat c \<le> 0x0D)) \<or> unat c = 0x7F \<or> (0x80 \<le> unat c \<and> unat c \<le> 0x9F)"
    unfolding is_control_hazard_def class_points points using low [of "unat c"] by blast
  then show ?thesis unfolding control_range .
qed

lemma of_nat_points: "(c :: u32) \<in> of_nat ` S \<longleftrightarrow> unat c \<in> S" if "\<And>n. n \<in> S \<Longrightarrow> n < 2 ^ 32"
proof
  assume "c \<in> of_nat ` S"
  then show "unat c \<in> S" using that by (auto simp: unat_of_nat)
next
  assume "unat c \<in> S"
  then show "c \<in> of_nat ` S" using imageI [of "unat c" S "of_nat :: nat \<Rightarrow> u32"] by simp
qed

lemma confusable_point: "confusable c \<noteq> None \<longleftrightarrow> unat c \<in> lookalike_points"
proof -
  have "confusable c \<noteq> None \<longleftrightarrow> (0xFF21 \<le> c \<and> c \<le> 0xFF3A) \<or> (0xFF41 \<le> c \<and> c \<le> 0xFF5A) \<or> c \<in> fst ` set confusables"
    using map_of_eq_None_iff [of confusables c] by (cases "map_of confusables c") (auto simp: confusable_def)
  moreover have "fst ` set confusables = of_nat ` lookalike_letters"
    unfolding confusables_def lookalike_letters_def by (simp add: insert_commute)
  moreover have "c \<in> of_nat ` lookalike_letters \<longleftrightarrow> unat c \<in> lookalike_letters"
    by (rule of_nat_points) (auto simp: lookalike_letters_def)
  ultimately show ?thesis unfolding lookalike_points_def by (simp add: word_le_nat_alt disj_assoc)
qed

section \<open>Words and accents\<close>

text \<open>A character of the word a place is in.\<close>

definition word_has :: "(u32 \<Rightarrow> bool) \<Rightarrow> (u32 \<Rightarrow> bool) \<Rightarrow> rust_string \<Rightarrow> nat \<Rightarrow> bool" where
  "word_has alphabetic P name i \<longleftrightarrow> (\<exists>j<length name. same_word alphabetic name i j \<and> P (name ! j))"

lemma same_word_append:
  "same_word alphabetic (xs @ ys) (length xs + i) (length xs + j) \<longleftrightarrow> same_word alphabetic ys i j"
proof
  assume a: "same_word alphabetic (xs @ ys) (length xs + i) (length xs + j)"
  show "same_word alphabetic ys i j"
    unfolding same_word_def
  proof (intro allI impI)
    fix k assume "min i j \<le> k \<and> k \<le> max i j"
    then show "alphabetic (ys ! k)"
      using a [unfolded same_word_def, rule_format, of "length xs + k"] by (simp add: min_le_iff_disj le_max_iff_disj)
  qed
next
  assume a: "same_word alphabetic ys i j"
  show "same_word alphabetic (xs @ ys) (length xs + i) (length xs + j)"
    unfolding same_word_def
  proof (intro allI impI)
    fix k assume k: "min (length xs + i) (length xs + j) \<le> k \<and> k \<le> max (length xs + i) (length xs + j)"
    then obtain m where "k = length xs + m" by (auto simp: min_le_iff_disj dest: le_Suc_ex)
    with k show "alphabetic ((xs @ ys) ! k)"
      using a [unfolded same_word_def, rule_format, of m] by (simp add: min_le_iff_disj le_max_iff_disj)
  qed
qed

lemma same_word_break:
  assumes "same_word alphabetic s i j" and "\<not> alphabetic (s ! k)" shows "\<not> (i \<le> k \<and> k \<le> j) \<and> \<not> (j \<le> k \<and> k \<le> i)"
  using assms unfolding same_word_def by (auto simp: min_le_iff_disj le_max_iff_disj)

lemma word_has_token:
  assumes tok: "list_all alphabetic xs" and stop: "ys = [] \<or> \<not> alphabetic (hd ys)" and i: "i < length (xs @ ys)"
  shows "word_has alphabetic P (xs @ ys) i \<longleftrightarrow>
    (if i < length xs then list_ex P xs else word_has alphabetic P ys (i - length xs))"
proof (cases "i < length xs")
  case True
  have "same_word alphabetic (xs @ ys) i j \<longleftrightarrow> j < length xs" if j: "j < length (xs @ ys)" for j
  proof
    assume w: "same_word alphabetic (xs @ ys) i j"
    show "j < length xs"
    proof (rule ccontr)
      assume "\<not> j < length xs"
      then have "\<not> alphabetic ((xs @ ys) ! length xs)" using j stop by (cases ys) auto
      from same_word_break [OF w this] True \<open>\<not> j < length xs\<close> show False by simp
    qed
  next
    assume "j < length xs"
    then show "same_word alphabetic (xs @ ys) i j" using True tok
      by (auto simp: same_word_def le_max_iff_disj nth_append list_all_length)
  qed
  then have "word_has alphabetic P (xs @ ys) i \<longleftrightarrow> (\<exists>j<length xs. P (xs ! j))"
    unfolding word_has_def by (metis length_append nth_append trans_less_add1)
  then show ?thesis using True by (simp add: list_ex_length)
next
  case False
  then obtain m where m: "i = length xs + m" "m < length ys" using i by (metis le_Suc_ex length_append linorder_not_less nat_add_left_cancel_less)
  then have head: "\<not> alphabetic ((xs @ ys) ! length xs)" using stop by (cases ys) auto
  have "word_has alphabetic P (xs @ ys) i \<longleftrightarrow> word_has alphabetic P ys m"
  proof
    assume "word_has alphabetic P (xs @ ys) i"
    then obtain j where j: "j < length (xs @ ys)" "same_word alphabetic (xs @ ys) i j" "P ((xs @ ys) ! j)" by (auto simp: word_has_def)
    have "length xs \<le> j" using same_word_break [OF j(2) head] m by simp
    then obtain n where "j = length xs + n" by (auto dest: le_Suc_ex)
    with j m show "word_has alphabetic P ys m" by (auto simp: word_has_def same_word_append)
  next
    assume "word_has alphabetic P ys m"
    then obtain n where "n < length ys" "same_word alphabetic ys m n" "P (ys ! n)" by (auto simp: word_has_def)
    then show "word_has alphabetic P (xs @ ys) i"
      unfolding word_has_def m by (intro exI [of _ "length xs + n"]) (simp add: same_word_append)
  qed
  with False m show ?thesis by simp
qed

lemma word_has_other: "\<not> alphabetic c \<Longrightarrow> i \<le> length s \<Longrightarrow>
    word_has alphabetic P (c # s) i \<longleftrightarrow> i \<noteq> 0 \<and> word_has alphabetic P s (i - 1)"
proof (cases i)
  case 0
  assume "\<not> alphabetic c"
  with 0 same_word_break [of alphabetic "c # s" 0 _ 0] show ?thesis by (auto simp: word_has_def)
next
  case (Suc m)
  assume c: "\<not> alphabetic c" and "i \<le> length s"
  have "word_has alphabetic P (c # s) i \<longleftrightarrow> word_has alphabetic P s m"
  proof
    assume "word_has alphabetic P (c # s) i"
    then obtain j where j: "j < length (c # s)" "same_word alphabetic (c # s) i j" "P ((c # s) ! j)" by (auto simp: word_has_def)
    have "j \<noteq> 0" using same_word_break [OF j(2), of 0] c by auto
    then obtain n where "j = Suc n" by (cases j) auto
    with j Suc same_word_append [of alphabetic "[c]" s m n] show "word_has alphabetic P s m" by (auto simp: word_has_def)
  next
    assume "word_has alphabetic P s m"
    then obtain n where "n < length s" "same_word alphabetic s m n" "P (s ! n)" by (auto simp: word_has_def)
    then show "word_has alphabetic P (c # s) i"
      using same_word_append [of alphabetic "[c]" s m n] Suc unfolding word_has_def by (intro exI [of _ "Suc n"]) simp
  qed
  with Suc show ?thesis by simp
qed

lemma flags_word:
  "i < length s \<Longrightarrow> mixed_script_flags alphabetic s ! i \<longleftrightarrow>
    word_has alphabetic is_ascii_alphabetic s i \<and> word_has alphabetic (\<lambda>c. confusable c \<noteq> None) s i"
proof (induction alphabetic s arbitrary: i rule: mixed_script_flags.induct)
  case (2 alphabetic c s)
  show ?case
  proof (cases "alphabetic c")
    case False
    then show ?thesis using 2 word_has_other [where alphabetic = alphabetic and c = c and s = s and i = i, OF False] by (subst mixed_script_flags.simps) (cases i; simp)
  next
    case True
    let ?xs = "takeWhile alphabetic (c # s)" and ?ys = "dropWhile alphabetic (c # s)"
    have split: "?xs @ ?ys = c # s" by (rule takeWhile_dropWhile_id)
    have tok: "list_all alphabetic ?xs" "?ys = [] \<or> \<not> alphabetic (hd ?ys)"
      using hd_dropWhile [of alphabetic "c # s"] set_takeWhileD [of _ alphabetic "c # s"] unfolding list_all_iff by blast+
    have i: "i < length (?xs @ ?ys)" using 2(3) unfolding split .
    have flags: "mixed_script_flags alphabetic (c # s) = replicate (length ?xs) (token_mixed ?xs) @ mixed_script_flags alphabetic ?ys"
      using True by (subst mixed_script_flags.simps) (simp add: Let_def)
    show ?thesis
    proof (cases "i < length ?xs")
      case inside: True
      have "mixed_script_flags alphabetic (c # s) ! i = token_mixed ?xs" unfolding flags using inside by (simp only: nth_append length_replicate if_True nth_replicate)
      with word_has_token [OF tok i] inside show ?thesis unfolding split token_mixed_def by simp
    next
      case False
      have "mixed_script_flags alphabetic (c # s) ! i = mixed_script_flags alphabetic ?ys ! (i - length ?xs)"
        unfolding flags using False by (simp only: nth_append length_replicate if_False)
      moreover have "i - length ?xs < length ?ys" using i False by simp
      ultimately show ?thesis using word_has_token [OF tok i] False 2(2) [of ?xs "i - length ?xs"] True unfolding split by simp
    qed
  qed
qed simp

lemma homoglyph_point:
  assumes "i < length name"
  shows "mixed_script_flags alphabetic name ! i \<and> confusable (name ! i) \<noteq> None \<longleftrightarrow>
    unat (name ! i) \<in> lookalike_points \<and> (\<exists>j<length name. same_word alphabetic name i j \<and> unat (name ! j) \<in> latin_points)"
proof -
  have "word_has alphabetic (\<lambda>c. confusable c \<noteq> None) name i"
    if "same_word alphabetic name i j" "confusable (name ! i) \<noteq> None" for j
  proof -
    have "same_word alphabetic name i i" using that(1) unfolding same_word_def by (metis max.cobounded1 max.idem min.cobounded1 min.idem order.antisym)
    with that(2) assms show ?thesis by (auto simp: word_has_def)
  qed
  then show ?thesis
    unfolding flags_word [OF assms] word_has_def [of alphabetic is_ascii_alphabetic] class_points confusable_point by auto
qed

lemma accent_point:
  assumes "i < length name"
  shows "base_letter alphabetic (take i name) \<and> marks_before (take i name) \<le> 1 \<longleftrightarrow> accent alphabetic name i"
proof (cases i)
  case 0
  then show ?thesis by (simp add: base_letter_def accent_def)
next
  case (Suc m)
  have m: "take i name = take m name @ [name ! m]" using assms Suc by (simp add: take_Suc_conv_app_nth)
  show ?thesis
  proof (cases m)
    case 0
    then have "take i name = [] @ [name ! 0]" using m by simp
    then show ?thesis using 0 by (simp only: marks_step) (simp add: accent_def Suc class_points base_letter_def marks_before_def)
  next
    case (Suc p)
    have p: "take m name = take p name @ [name ! p]" using assms \<open>i = Suc m\<close> Suc by (simp add: take_Suc_conv_app_nth)
    show ?thesis unfolding m p by (simp only: marks_step) (simp add: accent_def \<open>i = Suc m\<close> Suc class_points)
  qed
qed

lemma white_points:
  assumes "i < length name"
  shows "list_all is_whitespace (take i name) \<longleftrightarrow> (\<forall>j<i. unat (name ! j) \<in> white_space_points)"
    and "list_all is_whitespace (drop i name) \<longleftrightarrow> (\<forall>j<length name. i \<le> j \<longrightarrow> unat (name ! j) \<in> white_space_points)"
proof -
  show "list_all is_whitespace (take i name) \<longleftrightarrow> (\<forall>j<i. unat (name ! j) \<in> white_space_points)"
    using assms by (simp add: list_all_length class_points)
  have "(\<forall>k<length name - i. unat (name ! (i + k)) \<in> white_space_points) \<longleftrightarrow>
      (\<forall>j<length name. i \<le> j \<longrightarrow> unat (name ! j) \<in> white_space_points)"
    by (metis add.commute le_add_diff_inverse2 less_diff_conv le_add1)
  then show "list_all is_whitespace (drop i name) \<longleftrightarrow> (\<forall>j<length name. i \<le> j \<longrightarrow> unat (name ! j) \<in> white_space_points)"
    using assms by (simp add: list_all_length class_points)
qed

lemma classified_hazard:
  assumes "i < length name" shows "classified_at alphabetic name i = hazard_at alphabetic name i"
proof -
  have space: "name ! i = 0x20 \<longleftrightarrow> unat (name ! i) = 0x20" by (simp add: word_points)
  show ?thesis
    by (simp only: classified_at_def hazard_at_def Let_def homoglyph_point [OF assms] accent_point [OF assms] white_points [OF assms]
      control_point class_points space)
qed

lemma analyze_hazards: "flat (analyze t alphabetic name) = map (\<lambda>i. (name ! i, hazard_at alphabetic name i)) [0..<length name]"
  unfolding analyze_flat by (rule map_cong) (simp_all add: classified_hazard)

section \<open>The segments\<close>

text \<open>Every segment is a plain run or what the classification of a character returned.\<close>

definition from_classify :: "message_translator \<Rightarrow> name_segment \<Rightarrow> bool" where
  "from_classify t seg \<longleftrightarrow> (\<exists>c in_lead in_trail mixed anchored. classify_char t c in_lead in_trail mixed anchored = Some seg)"

definition segment_ok :: "message_translator \<Rightarrow> name_segment \<Rightarrow> bool" where
  "segment_ok t seg \<longleftrightarrow> (\<exists>s. s \<noteq> [] \<and> seg = segment_plain s) \<or> from_classify t seg"

lemma flush_ok: "list_all (segment_ok t) (ns_out st) \<Longrightarrow> list_all (segment_ok t) (ns_out (flush_plain st))"
  by (auto simp: flush_plain_def segment_ok_def)

lemma scan_char_segments:
  assumes "list_all (segment_ok t) (ns_out st)"
  shows "list_all (segment_ok t) (ns_out (scan_char t alphabetic a b n p st))"
proof -
  obtain i c mixed where p: "p = (i, c, mixed)" by (cases p)
  have push: "list_all (segment_ok t) (ns_out (case classify_char t c x y mixed z of
      Some seg \<Rightarrow> (let st = flush_plain st' in st\<lparr>ns_out := ns_out st @ [seg]\<rparr>) | None \<Rightarrow> st'\<lparr>ns_plain := ns_plain st' @ [c]\<rparr>))"
    if "ns_out st' = ns_out st" for st' x y z
  proof (cases "classify_char t c x y mixed z")
    case None
    then show ?thesis using assms that by simp
  next
    case (Some seg)
    then have "segment_ok t seg" by (auto simp: segment_ok_def from_classify_def)
    with flush_ok [of t st'] show ?thesis using assms that Some by (simp add: Let_def)
  qed
  show ?thesis by (simp add: p scan_char_def push)
qed

lemma analyze_segments: "list_all (segment_ok t) (analyze t alphabetic name)"
proof -
  have "list_all (segment_ok t) (ns_out (fold (scan_char t alphabetic a b n) ps st))" if "list_all (segment_ok t) (ns_out st)" for a b n ps st
    using that by (induction ps arbitrary: st) (simp_all add: scan_char_segments)
  then show ?thesis unfolding analyze_def by (intro flush_ok) simp
qed

lemma has_hazards_flat: "has_hazards t alphabetic name \<longleftrightarrow> (\<exists>p\<in>set (flat (analyze t alphabetic name)). snd p \<noteq> None)"
proof -
  have nonempty: "sg_text s \<noteq> []" if "s \<in> set (analyze t alphabetic name)" for s
    using analyze_segments [of t alphabetic name] that
    by (auto simp: list_all_iff segment_ok_def segment_plain_def from_classify_def dest!: classify_text bspec)
  have "\<exists>p\<in>set (flat (analyze t alphabetic name)). snd p \<noteq> None"
    if "s \<in> set (analyze t alphabetic name)" "sg_hazard s \<noteq> None" for s
  proof
    show "(hd (sg_text s), sg_hazard s) \<in> set (flat (analyze t alphabetic name))"
      unfolding flat_def using that(1) nonempty [OF that(1)] by force
  qed (use that in simp)
  moreover have "\<exists>s\<in>set (analyze t alphabetic name). sg_hazard s \<noteq> None" if "p \<in> set (flat (analyze t alphabetic name))" "snd p \<noteq> None" for p
    using that by (fastforce simp: flat_def)
  ultimately show ?thesis unfolding has_hazards_def list_ex_iff by blast
qed

text \<open>C33. The segments of a name spell it, and every character carries exactly the hazard that the reference gives
  its place, and a name has hazards exactly when one of its places has one.  The reference is written over explicit code points:
  eleven bidirectional and five zero-width characters, the control codes, DEL among them, white space at the start, at the end, or other
  than the plain space, a combining mark that is not the first or second one on a letter, and a curated look-alike letter in a word
  of letters with an ASCII one.  Characters outside these lists carry no hazard.\<close>

theorem analyze_exact:
  "concat (map (\<lambda>s. map (\<lambda>c. (c, sg_hazard s)) (sg_text s)) (analyze t alphabetic name)) =
     map (\<lambda>i. (name ! i, hazard_at alphabetic name i)) [0..<length name] \<and>
   (has_hazards t alphabetic name \<longleftrightarrow> (\<exists>i<length name. hazard_at alphabetic name i \<noteq> None))"
  using analyze_hazards [of t alphabetic name] has_hazards_flat [of t alphabetic name] by (auto simp: flat_def)

section \<open>What is shown\<close>

definition shown :: "name_segment \<Rightarrow> rust_string" where
  "shown s = (case sg_render s of Some r \<Rightarrow> r | None \<Rightarrow> sg_text s)"

text \<open>What stands for a character: brackets around its code point, a glyph for the common white space, or itself.\<close>

definition shown_char :: "u32 \<Rightarrow> hazard_kind option \<Rightarrow> rust_string" where
  "shown_char c hazard =
     (case hazard of
        None \<Rightarrow> [c]
      | Some HzHomoglyph \<Rightarrow> [c]
      | Some HzControl \<Rightarrow> 0x27E8 # hex4 c @ [0x27E9]
      | Some HzBidi \<Rightarrow> 0x27E8 # 0x55 # 0x2B # hex4 c @ [0x27E9]
      | Some HzZeroWidth \<Rightarrow> 0x27E8 # 0x55 # 0x2B # hex4 c @ [0x27E9]
      | Some HzCombiningMark \<Rightarrow> 0x27E8 # 0x55 # 0x2B # hex4 c @ [0x27E9]
      | Some space \<Rightarrow>
          if unat c = 0x09 then [0x21E5] else if unat c \<in> {0x0A, 0x0D} then [0x23CE] else if unat c = 0x20 then [0x2423]
          else 0x27E8 # 0x55 # 0x2B # hex4 c @ [0x27E9])"

lemma classified_shown:
  "classify_char t c x y mixed z = Some seg \<Longrightarrow> shown seg = shown_char c (sg_hazard seg)"
  unfolding classify_char_def
  by (auto simp: shown_def hazard_segment_def shown_char_def visible_codepoint_def bracketed_def ws_glyph_def ascii_def word_points
      split: if_splits option.splits)

lemma segment_shown: "segment_ok t seg \<Longrightarrow> shown seg = concat (map (\<lambda>(c, h). shown_char c h) (flat [seg]))"
proof (cases "from_classify t seg")
  case True
  then show ?thesis using classified_shown classify_text unfolding from_classify_def by fastforce
next
  case False
  assume "segment_ok t seg"
  with False obtain u where "seg = segment_plain u" unfolding segment_ok_def by blast
  then show ?thesis by (simp add: segment_plain_def shown_def shown_char_def comp_def)
qed

lemma segments_shown:
  "list_all (segment_ok t) segs \<Longrightarrow> concat (map shown segs) = concat (map (\<lambda>(c, h). shown_char c h) (flat segs))"
  using segment_shown [of t] by (induction segs) (simp_all del: flat_simps(2) add: flat_def)

lemma analyze_shown:
  "concat (map shown (analyze t alphabetic name)) = concat (map (\<lambda>i. shown_char (name ! i) (hazard_at alphabetic name i)) [0..<length name])"
  unfolding segments_shown [OF analyze_segments] analyze_hazards by (simp add: comp_def)

text \<open>The characters that are never shown as they are.\<close>

definition hidden_points :: "nat set" where
  "hidden_points = bidi_points \<union> zero_width_points \<union> control_points \<union> (white_space_points - {0x20})"

lemma hex_digit_points:
  assumes "d < 16" shows "unat (hex_digit d) \<in> {0x30 .. 0x46}"
  using assms by (auto simp: hex_digit_def unat_of_nat)

lemma hex_digits_points: "c \<in> set (hex_digits n) \<Longrightarrow> unat c \<in> {0x30 .. 0x46}"
proof (induction n rule: hex_digits.induct)
  case (1 n)
  then show ?case using hex_digit_points [of n] hex_digit_points [of "n mod 16"] by (subst (asm) hex_digits.simps) (auto split: if_splits)
qed

lemma hex4_points: "c \<in> set (hex4 d) \<Longrightarrow> unat c \<in> {0x30 .. 0x46}"
  using hex_digits_points [of c "unat d"] by (auto simp: hex4_def Let_def)

lemma stand_in_points:
  "c \<in> set (0x27E8 # 0x55 # 0x2B # hex4 d @ [0x27E9]) \<Longrightarrow> unat c \<notin> hidden_points"
  "c \<in> set (0x27E8 # hex4 d @ [0x27E9]) \<Longrightarrow> unat c \<notin> hidden_points"
  using hex4_points [of c d]
  by (auto simp: hidden_points_def bidi_points_def zero_width_points_def control_points_def white_space_points_def)

lemma plain_points:
  "hazard_at alphabetic name i = None \<or> hazard_at alphabetic name i = Some HzHomoglyph \<Longrightarrow> unat (name ! i) \<notin> hidden_points"
  by (auto simp: hazard_at_def hidden_points_def Let_def split: if_splits)

lemma glyph_points: "unat (0x21E5 :: u32) \<notin> hidden_points" "unat (0x23CE :: u32) \<notin> hidden_points" "unat (0x2423 :: u32) \<notin> hidden_points"
  by (simp_all add: hidden_points_def bidi_points_def zero_width_points_def control_points_def white_space_points_def)

lemma shown_char_points:
  assumes "c \<in> set (shown_char (name ! i) (hazard_at alphabetic name i))" shows "unat c \<notin> hidden_points"
proof (cases "hazard_at alphabetic name i = None \<or> hazard_at alphabetic name i = Some HzHomoglyph")
  case True
  then have "c = name ! i" using assms by (auto simp: shown_char_def)
  with plain_points [OF True] show ?thesis by simp
next
  case False
  then obtain h where h: "hazard_at alphabetic name i = Some h" "h \<noteq> HzHomoglyph" by auto
  then show ?thesis
    using assms stand_in_points [of c "name ! i"] glyph_points unfolding h(1) shown_char_def
    by (cases h) (simp_all del: One_nat_def set_append set_simps split: if_splits, auto)
qed

lemma raw_shown: "concat (map shown (analyze t alphabetic [0x61, 0x061C, 0x2061])) = [0x61, 0x061C, 0x2061]"
proof -
  have "hazard_at alphabetic [0x61, 0x061C, 0x2061] i = None" if "i < 3" for i
  proof -
    from that consider "i = 0" | "i = 1" | "i = 2" by linarith
    then show ?thesis
      by cases (simp_all add: hazard_at_def bidi_points_def zero_width_points_def control_points_def white_space_points_def mark_points_def
          lookalike_points_def lookalike_letters_def)
  qed
  then show ?thesis unfolding analyze_shown by (simp add: upt_rec shown_char_def)
qed

text \<open>C34. What the view shows for a name is the concatenation of what stands for each character: a flagged
  one is replaced by its code point in brackets or, for white space, by a glyph, and a look-alike and every unflagged character stand for
  themselves.  So the eleven bidirectional and five zero-width characters of the reference, the control codes, DEL among them, and all
  white space but the plain space are never shown as they are.  Other characters that are invisible or reorder text are not in
  these lists and are shown raw, such as U+061C and U+2061.\<close>

theorem shown_name_safe:
  "concat (map shown (analyze t alphabetic name)) = concat (map (\<lambda>i. shown_char (name ! i) (hazard_at alphabetic name i)) [0..<length name]) \<and>
   unat ` set (concat (map shown (analyze t alphabetic name))) \<inter> hidden_points = {} \<and>
   concat (map shown (analyze t alphabetic [0x61, 0x061C, 0x2061])) = [0x61, 0x061C, 0x2061]"
proof (intro conjI)
  have "unat c \<notin> hidden_points" if s: "s \<in> set (analyze t alphabetic name)" and c: "c \<in> set (shown s)" for s c
  proof -
    have "segment_ok t s" using analyze_segments [of t alphabetic name] s by (simp add: list_all_iff)
    with c obtain d h where d: "(d, h) \<in> set (flat [s])" "c \<in> set (shown_char d h)" by (auto simp: segment_shown)
    have "(d, h) \<in> set (flat (analyze t alphabetic name))" using d(1) s by (auto simp: flat_def)
    then obtain i where "d = name ! i" "h = hazard_at alphabetic name i" unfolding analyze_hazards by auto
    with d(2) shown_char_points show ?thesis by blast
  qed
  then show "unat ` set (concat (map shown (analyze t alphabetic name))) \<inter> hidden_points = {}" by auto
qed (rule analyze_shown, rule raw_shown)

text \<open>
  A combining mark splits a token, so a look-alike with an accent is not seen to be mixed with the
  letters after it.
\<close>

lemma accented_lookalike_missed:
  assumes "\<And>c. alphabetic c \<longleftrightarrow> is_ascii_alphabetic c \<or> (0x400 \<le> c \<and> c \<le> 0x4FF)"
  shows "hazard_at alphabetic (0x430 # 0x301 # ascii ''dmin'') 0 = None" and "hazard_at alphabetic (0x430 # ascii ''dmin'') 0 = Some HzHomoglyph"
proof -
  have "classified_at alphabetic (0x430 # 0x301 # ascii ''dmin'') 0 = None" "classified_at alphabetic (0x430 # ascii ''dmin'') 0 = Some HzHomoglyph"
    using assms by (simp_all add: classified_at_def Let_def is_bidi_control_def is_zero_width_def is_control_hazard_def is_whitespace_def
      is_combining_mark_def mixed_script_flags.simps token_mixed_def confusable_def confusables_def is_ascii_alphabetic_def is_ascii_uppercase_def ascii_def)
  then show "hazard_at alphabetic (0x430 # 0x301 # ascii ''dmin'') 0 = None" "hazard_at alphabetic (0x430 # ascii ''dmin'') 0 = Some HzHomoglyph"
    by (simp_all add: classified_hazard)
qed

end
