(* ===== verification/NodeStoreProps.thy ===== *)
theory NodeStoreProps
  imports NodeStore
begin

text \<open>
  What \<open>node_store.rs\<close> promises: in every reachable store the index and the nodes agree, a path has
  one id however it is spelled, an id keeps standing for its path, and the ancestors of a path are those
  its directory had when the path was registered, if the directory was registered then.  A backend's id
  that collides with another path's leaves the new path unregistered.
\<close>

section \<open>Paths\<close>

definition name_ok :: "rust_string \<Rightarrow> bool" where
  "name_ok s \<longleftrightarrow> s \<noteq> [] \<and> s \<noteq> [0x2E] \<and> s \<noteq> [0x2E, 0x2E] \<and> 0x2F \<notin> set s"

definition tail_ok :: "path_component \<Rightarrow> bool" where
  "tail_ok c \<longleftrightarrow> (case c of PcParent \<Rightarrow> True | PcNormal s \<Rightarrow> name_ok s | _ \<Rightarrow> False)"

text \<open>A key: the components of a path without \<open>.\<close>.\<close>

definition key_ok :: "path_component list \<Rightarrow> bool" where
  "key_ok comps \<longleftrightarrow> list_all tail_ok (case comps of PcRoot # rest \<Rightarrow> rest | _ \<Rightarrow> comps)"

lemma component_of_ok: "p \<noteq> [] \<Longrightarrow> p \<noteq> [0x2E] \<Longrightarrow> 0x2F \<notin> set p \<Longrightarrow> tail_ok (component_of p)"
  by (simp add: component_of_def tail_ok_def name_ok_def)

lemma components_key: "key_ok (filter (\<lambda>c. c \<noteq> PcCur) (path_components s))"
proof -
  let ?kept = "map component_of (filter (\<lambda>p. p \<noteq> [] \<and> p \<noteq> [0x2E]) (split_on 0x2F s))"
  have kept: "list_all tail_ok ?kept"
    using split_on_pieces [of _ "0x2F" s] component_of_ok by (auto simp: list_all_iff)
  then have "filter (\<lambda>c. c \<noteq> PcCur) ?kept = ?kept" by (intro filter_True) (auto simp: list_all_iff tail_ok_def)
  moreover have "key_ok ?kept" "key_ok (PcRoot # ?kept)"
    using kept by (auto simp: key_ok_def tail_ok_def split: list.split path_component.split)
  ultimately show ?thesis by (simp add: path_components_def Let_def)
qed

text \<open>The spelling that pushing the components of a key gives.\<close>

lemma tail_str: "tail_ok c \<Longrightarrow> component_str c \<noteq> [] \<and> component_str c \<noteq> [0x2E] \<and> 0x2F \<notin> set (component_str c) \<and> component_of (component_str c) = c"
  by (cases c) (auto simp: tail_ok_def name_ok_def component_of_def)

lemma push_tail:
  assumes "tail_ok c" shows "path_push out c = (if out = [] \<or> last out = 0x2F then out @ component_str c else out @ 0x2F # component_str c)"
  using tail_str [OF assms] by (cases "component_str c") (auto simp: path_push_def Let_def)

lemma last_tail: "tail_ok c \<Longrightarrow> last (out @ component_str c) \<noteq> 0x2F"
  using tail_str [of c] by (metis last_appendR last_in_set)

lemma foldl_push_join:
  "list_all tail_ok cs \<Longrightarrow> cs \<noteq> [] \<Longrightarrow> out = [] \<or> last out = 0x2F \<Longrightarrow>
    foldl path_push out cs = out @ join_with 0x2F (map component_str cs)"
proof (induction cs arbitrary: out rule: rev_induct)
  case (snoc c cs)
  show ?case
  proof (cases "cs = []")
    case True
    with snoc show ?thesis by (simp add: push_tail)
  next
    case False
    let ?s = "join_with 0x2F (map component_str cs)"
    have "foldl path_push out cs = out @ ?s" using snoc False by simp
    moreover have "?s \<noteq> [] \<and> last ?s \<noteq> 0x2F" using False snoc.prems(1)
    proof (induction cs)
      case (Cons a cs)
      then show ?case using tail_str [of a] last_tail [of a "[]"] by (cases cs) auto
    qed simp
    moreover have "join_with 0x2F (map component_str (cs @ [c])) = ?s @ 0x2F # component_str c" using False
    proof (induction cs)
      case (Cons a cs)
      then show ?case by (cases cs) auto
    qed simp
    ultimately show ?thesis using snoc.prems by (simp add: push_tail)
  qed
qed simp

lemma components_of_tail:
  assumes "list_all tail_ok cs" "cs \<noteq> []"
  shows "split_on 0x2F (join_with 0x2F (map component_str cs)) = map component_str cs"
    and "map component_of (filter (\<lambda>p. p \<noteq> [] \<and> p \<noteq> [0x2E]) (map component_str cs)) = cs"
proof -
  show "split_on 0x2F (join_with 0x2F (map component_str cs)) = map component_str cs"
    using assms tail_str by (intro split_join) (auto simp: list_all_iff)
  show "map component_of (filter (\<lambda>p. p \<noteq> [] \<and> p \<noteq> [0x2E]) (map component_str cs)) = cs"
    using assms(1) tail_str by (induction cs) auto
qed

lemma components_push:
  assumes "key_ok cs" shows "path_components (foldl path_push [] cs) = cs"
proof (cases cs)
  case Nil
  then show ?thesis by (simp add: path_components_def)
next
  case (Cons c rest)
  show ?thesis
  proof (cases "c = PcRoot")
    case True
    then have rest: "list_all tail_ok rest" using assms Cons by (simp add: key_ok_def)
    show ?thesis
    proof (cases "rest = []")
      case True
      then show ?thesis using Cons \<open>c = PcRoot\<close> by (simp add: path_push_def path_components_def)
    next
      case False
      then have "foldl path_push [] cs = 0x2F # join_with 0x2F (map component_str rest)"
        using Cons \<open>c = PcRoot\<close> foldl_push_join [OF rest False, of "[0x2F]"] by (simp add: path_push_def)
      then show ?thesis using components_of_tail [OF rest False] Cons \<open>c = PcRoot\<close>
        by (simp add: path_components_def Let_def)
    qed
  next
    case False
    then have ok: "list_all tail_ok cs" using assms Cons by (auto simp: key_ok_def split: path_component.splits)
    have "cs \<noteq> []" using Cons by simp
    note parts = components_of_tail [OF ok this]
    have "foldl path_push [] cs = join_with 0x2F (map component_str cs)"
      using foldl_push_join [OF ok \<open>cs \<noteq> []\<close>, of "[]"] by simp
    moreover have "hd (map component_str cs) \<noteq> []" "hd (map component_str cs) \<noteq> [0x2E]"
      using ok Cons tail_str [of c] by simp_all
    ultimately show ?thesis using parts by (simp add: path_components_def Let_def)
  qed
qed

text \<open>The key of a path.\<close>

definition path_key :: "rust_string \<Rightarrow> path_component list" where
  "path_key path = filter (\<lambda>c. c \<noteq> PcCur) (path_components path)"

lemma components_normalize: "path_components (normalize_path_key path) = path_key path"
  unfolding normalize_path_key_def path_key_def by (rule components_push [OF components_key])

lemma key_no_cur: "key_ok cs \<Longrightarrow> filter (\<lambda>c. c \<noteq> PcCur) cs = cs"
  by (intro filter_True) (auto simp: key_ok_def tail_ok_def list_all_iff split: list.splits path_component.splits)

text \<open>The spelling of a key; the normal form of a path is the spelling of its key.\<close>

definition spell :: "path_component list \<Rightarrow> rust_string" where
  "spell key = foldl path_push [] key"

lemma normalize_spell: "normalize_path_key path = spell (path_key path)"
  by (simp add: normalize_path_key_def path_key_def spell_def)

lemma path_key_ok: "key_ok (path_key path)"
  unfolding path_key_def by (rule components_key)

lemma components_spell: "key_ok key \<Longrightarrow> path_components (spell key) = key"
  unfolding spell_def by (rule components_push)

section \<open>The invariant\<close>

text \<open>
  The index and the path nodes are the same relation, every path is spelled in normal form, and the
  parent of a path node is the id of its directory.
\<close>

definition parent_ok :: "'h node_store \<Rightarrow> node_id \<Rightarrow> 'h node \<Rightarrow> bool" where
  "parent_ok store nid node \<longleftrightarrow> (\<forall>p. nd_parent node = Some p \<longrightarrow>
     (case nd_kind node of
        NkPath path \<Rightarrow> Option.bind (path_parent (path_components path)) (st_path_index store) = Some p
      | NkVirtual _ \<Rightarrow> nid = NodeId 2 \<and> p = NodeId 1))"

definition node_ok :: "'h node_store \<Rightarrow> node_id \<Rightarrow> 'h node \<Rightarrow> bool" where
  "node_ok store nid node \<longleftrightarrow> nd_id node = nid \<and> parent_ok store nid node \<and>
     (\<forall>path. nd_kind node = NkPath path \<longrightarrow> st_path_index store (path_components path) = Some nid)"

definition has_path :: "'h node_store \<Rightarrow> node_id \<Rightarrow> rust_string \<Rightarrow> bool" where
  "has_path store nid path \<longleftrightarrow> (\<exists>node. st_nodes store nid = Some node \<and> nd_kind node = NkPath path)"

definition store_ok :: "'h node_store \<Rightarrow> bool" where
  "store_ok store \<longleftrightarrow>
     (\<forall>nid node. st_nodes store nid = Some node \<longrightarrow> node_ok store nid node) \<and>
     (\<forall>key nid. st_path_index store key = Some nid \<longrightarrow> key_ok key \<and> has_path store nid (spell key))"

lemma store_ok_node: "store_ok store \<Longrightarrow> st_nodes store nid = Some node \<Longrightarrow> node_ok store nid node"
  by (simp add: store_ok_def)

lemma store_ok_index:
  assumes "store_ok store" "st_path_index store key = Some nid" shows "key_ok key" and "has_path store nid (spell key)"
  using assms by (simp_all add: store_ok_def)

lemma has_path_index:
  "store_ok store \<Longrightarrow> has_path store nid path \<Longrightarrow> st_path_index store (path_components path) = Some nid"
  unfolding has_path_def using store_ok_node by (fastforce simp: node_ok_def)

lemma has_path_unique: "has_path store nid p \<Longrightarrow> has_path store nid q \<Longrightarrow> p = q"
  by (auto simp: has_path_def)

lemma index_inj:
  assumes "store_ok store" "st_path_index store key = Some nid" "st_path_index store key' = Some nid" shows "key = key'"
proof -
  have "spell key = spell key'" using has_path_unique store_ok_index(2) [OF assms(1)] assms(2,3) by blast
  then show ?thesis using components_spell store_ok_index(1) [OF assms(1)] assms(2,3) by metis
qed

lemma new_ok: "store_ok (NodeStore_new cold)"
  by (auto simp: store_ok_def NodeStore_new_def register_virtual_def node_ok_def parent_ok_def)

lemma store_ok_cong:
  assumes "store_ok store" "st_nodes store' = st_nodes store" "st_path_index store' = st_path_index store"
  shows "store_ok store'"
  using assms(1) unfolding store_ok_def node_ok_def parent_ok_def has_path_def assms(2,3) .

section \<open>Inserting a path\<close>

definition index_extends :: "'h node_store \<Rightarrow> 'h node_store \<Rightarrow> bool" where
  "index_extends store store' \<longleftrightarrow>
     (\<forall>key nid. st_path_index store key = Some nid \<longrightarrow> st_path_index store' key = Some nid) \<and>
     (\<forall>nid path. has_path store nid path \<longrightarrow> has_path store' nid path \<and> node_parent nid store' = node_parent nid store)"

lemma index_extends_refl [simp]: "index_extends store store"
  by (simp add: index_extends_def)

lemma index_extends_trans: "index_extends a b \<Longrightarrow> index_extends b c \<Longrightarrow> index_extends a c"
  unfolding index_extends_def by metis

lemma insert_index:
  "st_path_index (insert_path cold nid path store) = (st_path_index store)(path_components path \<mapsto> nid)"
  by (simp add: insert_path_def Let_def)

lemma insert_nodes:
  "st_nodes (insert_path cold nid path store) = (st_nodes store)(nid \<mapsto>
     \<lparr>nd_id = nid, nd_parent = Option.bind (path_parent (path_components path)) (st_path_index store), nd_kind = NkPath path,
       nd_display_name = (case path_file_name (path_components path) of Some n \<Rightarrow> n | None \<Rightarrow> path), nd_heat = cold\<rparr>)"
  by (simp add: insert_path_def Let_def)

lemma insert_extends:
  assumes "st_path_index store (path_components path) = None" "\<And>p. \<not> has_path store nid p"
  shows "index_extends store (insert_path cold nid path store)"
  using assms by (auto simp: index_extends_def insert_index insert_nodes has_path_def node_parent_def)

lemma parent_extends:
  assumes "parent_ok store nid node" "index_extends store store'" shows "parent_ok store' nid node"
  using assms by (auto simp: parent_ok_def index_extends_def bind_eq_Some_conv split: store_node_kind.splits)

lemma insert_path_has: "has_path (insert_path cold nid path store) nid path"
  by (simp add: has_path_def insert_nodes)

lemma insert_ok:
  assumes ok: "store_ok store" and free: "\<And>p. \<not> has_path store nid p"
    and key: "key_ok key" and new: "st_path_index store key = None"
  shows "store_ok (insert_path cold nid (spell key) store)"
proof -
  let ?s = "insert_path cold nid (spell key) store"
  note comps = components_spell [OF key]
  have ext: "index_extends store ?s" using new free by (intro insert_extends) (simp_all add: comps)
  have "node_ok ?s other node" if node: "st_nodes ?s other = Some node" for other node
  proof (cases "other = nid")
    case True
    then have "parent_ok store other node" using node by (auto simp: insert_nodes parent_ok_def)
    from parent_extends [OF this ext] have "parent_ok ?s other node" .
    moreover have "nd_id node = nid" "nd_kind node = NkPath (spell key)" using node True by (auto simp: insert_nodes)
    ultimately show ?thesis using True by (simp add: node_ok_def insert_index comps)
  next
    case False
    then have "st_nodes store other = Some node" using node by (simp add: insert_nodes)
    from store_ok_node [OF ok this] show ?thesis
      using parent_extends [OF _ ext] ext by (auto simp: node_ok_def index_extends_def)
  qed
  moreover have "key_ok k \<and> has_path ?s other (spell k)" if "st_path_index ?s k = Some other" for k other
  proof (cases "k = key")
    case True
    then show ?thesis using that key insert_path_has by (simp add: insert_index comps)
  next
    case False
    then have "st_path_index store k = Some other" using that by (simp add: insert_index comps)
    from store_ok_index [OF ok this] show ?thesis using ext by (simp add: index_extends_def)
  qed
  ultimately show ?thesis unfolding store_ok_def by blast
qed

section \<open>Allocation\<close>

lemma allocate_loop_unfold:
  "allocate_loop taken n = (if \<not> taken (NodeId (max n 1)) then Some (NodeId (max n 1), sat_succ (max n 1)) else allocate_loop taken (sat_succ (max n 1)))"
  by (subst allocate_loop.simps) (simp add: Let_def)

definition least_free :: "(node_id \<Rightarrow> bool) \<Rightarrow> u64 \<Rightarrow> u64 \<Rightarrow> bool" where
  "least_free taken n raw \<longleftrightarrow> max n 1 \<le> raw \<and> \<not> taken (NodeId raw) \<and> (\<forall>w. max n 1 \<le> w \<and> w < raw \<longrightarrow> taken (NodeId w))"

lemma unat_sat_succ: "unat (sat_succ w) = (if w = - 1 then unat w else Suc (unat w))"
proof (cases "w = - 1")
  case False
  then have "1 + w \<noteq> 0" by (metis add.commute eq_neg_iff_add_eq_0)
  then show ?thesis using False unatSuc [of w] by (simp add: sat_succ_def add.commute)
qed (simp add: sat_succ_def)

lemma sat_succ_le: "w \<le> sat_succ w"
  by (simp add: word_le_nat_alt unat_sat_succ)

lemma max_sat_succ: "max (sat_succ (max n 1)) 1 = sat_succ (max n 1)"
  using order_trans [OF _ sat_succ_le, of 1 "max n 1"] by (simp add: max_absorb1)

lemma between_succ: "w \<le> v \<Longrightarrow> v < sat_succ w \<Longrightarrow> v = w"
  by (auto simp: word_le_nat_alt word_less_nat_alt unat_sat_succ word_unat_eq_iff split: if_splits)

lemma allocate_loop_Some:
  assumes "allocate_loop taken n = Some r"
  shows "\<exists>raw. r = (NodeId raw, sat_succ raw) \<and> least_free taken n raw"
proof (rule allocate_loop.raw_induct [where P = "\<lambda>taken n r. \<exists>raw. r = (NodeId raw, sat_succ raw) \<and> least_free taken n raw", OF _ assms])
  fix run :: "(node_id \<Rightarrow> bool) \<Rightarrow> u64 \<Rightarrow> (node_id \<times> u64) option" and taken n r
  assume IH: "\<And>taken n r. run taken n = Some r \<Longrightarrow> \<exists>raw. r = (NodeId raw, sat_succ raw) \<and> least_free taken n raw"
    and body: "(let raw = max n 1; next_dynamic = sat_succ raw in
      if \<not> taken (NodeId raw) then Some (NodeId raw, next_dynamic) else run taken next_dynamic) = Some r"
  show "\<exists>raw. r = (NodeId raw, sat_succ raw) \<and> least_free taken n raw"
  proof (cases "taken (NodeId (max n 1))")
    case False
    then show ?thesis using body by (auto simp: Let_def least_free_def max_def split: if_splits)
  next
    case True
    then have "run taken (sat_succ (max n 1)) = Some r" using body by (simp add: Let_def)
    from IH [OF this] obtain raw where raw: "r = (NodeId raw, sat_succ raw)" "least_free taken (sat_succ (max n 1)) raw" by blast
    have one: "max (sat_succ (max n 1)) 1 = sat_succ (max n 1)" using max_sat_succ by simp
    have "max n 1 \<le> raw" using raw(2) sat_succ_le [of "max n 1"] unfolding least_free_def one by (blast intro: order_trans)
    moreover have "taken (NodeId w)" if "max n 1 \<le> w" "w < raw" for w
      using raw(2) True between_succ [OF that(1)] that(2) unfolding least_free_def one by (metis linorder_not_le)
    ultimately show ?thesis using raw unfolding least_free_def one by blast
  qed
qed

lemma allocate_loop_returns:
  assumes "\<not> taken (NodeId raw)" "max n 1 \<le> raw" shows "allocate_loop taken n \<noteq> None"
  using assms
proof (induction "unat raw - unat (max n 1)" arbitrary: n rule: less_induct)
  case less
  show ?case
  proof (cases "taken (NodeId (max n 1))")
    case True
    let ?m = "max n 1"
    have lt: "?m < raw" using True less.prems by (metis order_le_less)
    have "?m \<noteq> - 1" using lt word_order.extremum [of raw] by (metis leD)
    then have succ: "unat (sat_succ ?m) = Suc (unat ?m)" by (simp add: unat_sat_succ)
    note one = max_sat_succ [of n]
    have "unat ?m < unat raw" using lt by (simp only: word_less_nat_alt)
    with succ have "sat_succ ?m \<le> raw" "unat raw - unat (sat_succ ?m) < unat raw - unat ?m" by (simp_all add: word_le_nat_alt)
    then have "allocate_loop taken (sat_succ ?m) \<noteq> None" using less.prems one by (intro less.hyps) simp_all
    then show ?thesis using True by (subst allocate_loop_unfold) simp
  qed (subst allocate_loop_unfold, simp)
qed

lemma allocate_id_cases:
  assumes "allocate_id store = Some (nid, store')"
  obtains raw where "nid = NodeId raw" "least_free (\<lambda>nid. st_nodes store nid \<noteq> None) (st_next_dynamic store) raw"
    "store' = store\<lparr>st_next_dynamic := sat_succ raw\<rparr>"
  using assms allocate_loop_Some unfolding allocate_id_def by fastforce

lemma allocate_id_None:
  "allocate_id store = None \<longleftrightarrow> (\<forall>raw. max (st_next_dynamic store) 1 \<le> raw \<longrightarrow> st_nodes store (NodeId raw) \<noteq> None)"
proof
  assume "allocate_id store = None"
  then have "allocate_loop (\<lambda>nid. st_nodes store nid \<noteq> None) (st_next_dynamic store) = None" by (simp add: allocate_id_def)
  then show "\<forall>raw. max (st_next_dynamic store) 1 \<le> raw \<longrightarrow> st_nodes store (NodeId raw) \<noteq> None"
    using allocate_loop_returns [of "\<lambda>nid. st_nodes store nid \<noteq> None"] by blast
next
  assume taken: "\<forall>raw. max (st_next_dynamic store) 1 \<le> raw \<longrightarrow> st_nodes store (NodeId raw) \<noteq> None"
  show "allocate_id store = None"
  proof (rule ccontr)
    assume "allocate_id store \<noteq> None"
    then obtain nid store' where "allocate_id store = Some (nid, store')" by auto
    then show False by (rule allocate_id_cases) (use taken in \<open>auto simp: least_free_def\<close>)
  qed
qed

section \<open>The operations\<close>

lemma get_known: "st_path_index store (path_key path) = Some nid \<Longrightarrow> get_or_create_path cold path store = Some (nid, store)"
  by (simp add: get_or_create_path_def components_normalize)

lemma get_new:
  "st_path_index store (path_key path) = None \<Longrightarrow> get_or_create_path cold path store =
     map_option (\<lambda>(nid, store). (nid, insert_path cold nid (spell (path_key path)) store)) (allocate_id store)"
  by (simp add: get_or_create_path_def components_normalize normalize_spell [symmetric])

lemma get_spec:
  assumes ok: "store_ok store" and get: "get_or_create_path cold path store = Some (nid, store')"
  shows "store_ok store' \<and> index_extends store store' \<and> st_path_index store' (path_key path) = Some nid \<and>
    (st_path_index store (path_key path) = None \<longrightarrow> st_nodes store nid = None)"
proof (cases "st_path_index store (path_key path)")
  case (Some old)
  then show ?thesis using get_known [OF Some] get ok by simp
next
  case None
  from get obtain mid where alloc: "allocate_id store = Some (nid, mid)"
    and store': "store' = insert_path cold nid (spell (path_key path)) mid"
    unfolding get_new [OF None] by auto
  from alloc have mid: "st_nodes mid = st_nodes store" "st_path_index mid = st_path_index store" "st_nodes store nid = None"
    by (auto elim!: allocate_id_cases simp: least_free_def)
  have free: "\<not> has_path mid nid p" for p using mid by (simp add: has_path_def)
  have "index_extends store mid" using mid by (simp add: index_extends_def has_path_def node_parent_def)
  moreover have "index_extends mid store'" unfolding store'
    using free None by (intro insert_extends) (simp_all add: mid components_spell path_key_ok)
  moreover have "store_ok store'" unfolding store'
    using free None by (intro insert_ok store_ok_cong [OF ok] path_key_ok) (simp_all add: mid)
  ultimately show ?thesis using mid(3) index_extends_trans
    by (auto simp: store' insert_index components_spell path_key_ok)
qed

lemma with_id_known:
  "st_path_index store (path_key path) = Some old \<Longrightarrow> get_or_create_path_with_id cold path nid store = (old, store)"
  by (simp add: get_or_create_path_with_id_def components_normalize)

lemma with_id_taken:
  "st_path_index store (path_key path) = None \<Longrightarrow> has_path store nid p \<Longrightarrow> get_or_create_path_with_id cold path nid store = (nid, store)"
  by (auto simp: get_or_create_path_with_id_def components_normalize has_path_def)

lemma with_id_new:
  assumes "st_path_index store (path_key path) = None" "\<And>p. \<not> has_path store nid p"
  shows "get_or_create_path_with_id cold path nid store = (nid,
    (insert_path cold nid (spell (path_key path)) store)\<lparr>st_next_dynamic := max (st_next_dynamic store) (sat_succ (as_raw nid))\<rparr>)"
  using assms unfolding get_or_create_path_with_id_def has_path_def
  by (auto simp: components_normalize normalize_spell [symmetric] Let_def insert_path_def split: option.splits store_node_kind.splits)

lemma with_id_spec:
  assumes ok: "store_ok store" and get: "get_or_create_path_with_id cold path nid store = (got, store')"
  shows "store_ok store' \<and> index_extends store store' \<and>
    (st_path_index store' (path_key path) = Some got \<or> (store' = store \<and> got = nid \<and> (\<exists>p. has_path store nid p)))"
proof (cases "st_path_index store (path_key path)")
  case (Some old)
  then show ?thesis using with_id_known [OF Some] get ok by simp
next
  case None
  show ?thesis
  proof (cases "\<exists>p. has_path store nid p")
    case True
    then show ?thesis using with_id_taken [OF None] get ok by auto
  next
    case False
    let ?mid = "insert_path cold nid (spell (path_key path)) store"
    have got: "got = nid" and store': "store' = ?mid\<lparr>st_next_dynamic := max (st_next_dynamic store) (sat_succ (as_raw nid))\<rparr>"
      using with_id_new [OF None] False get by auto
    have mid: "store_ok ?mid" "index_extends store ?mid"
      using None False by (auto intro!: insert_ok insert_extends ok path_key_ok simp: components_spell path_key_ok)
    moreover have "index_extends ?mid store'" by (simp add: store' index_extends_def has_path_def node_parent_def)
    moreover have "store_ok store'" by (rule store_ok_cong [OF mid(1)]) (simp_all add: store')
    ultimately show ?thesis using index_extends_trans got by (auto simp: store' insert_index components_spell path_key_ok)
  qed
qed

lemma heat_spec:
  assumes ok: "store_ok store"
  shows "store_ok (set_heat clamp nid heat store) \<and> index_extends store (set_heat clamp nid heat store)"
proof (cases "st_nodes store nid")
  case (Some node)
  let ?s = "set_heat clamp nid heat store"
  have nodes: "st_nodes ?s = (st_nodes store)(nid \<mapsto> node\<lparr>nd_heat := clamp heat\<rparr>)" and index: "st_path_index ?s = st_path_index store"
    using Some by (simp_all add: set_heat_def)
  have path: "has_path ?s i p \<longleftrightarrow> has_path store i p" for i p using Some by (simp add: has_path_def nodes)
  moreover have "node_parent i ?s = node_parent i store" for i using Some by (simp add: node_parent_def nodes)
  ultimately have ext: "index_extends store ?s" by (simp add: index_extends_def index)
  have "node_ok ?s i n" if n: "st_nodes ?s i = Some n" for i n
  proof -
    obtain n' where n': "st_nodes store i = Some n'" "nd_id n = nd_id n'" "nd_parent n = nd_parent n'" "nd_kind n = nd_kind n'"
      using n Some by (cases "i = nid") (auto simp: nodes)
    have "parent_ok ?s i n'" using store_ok_node [OF ok n'(1)] parent_extends [OF _ ext] by (simp add: node_ok_def)
    then show ?thesis using store_ok_node [OF ok n'(1)] n' by (simp add: node_ok_def parent_ok_def index)
  qed
  then show ?thesis using ext store_ok_index [OF ok] by (simp add: store_ok_def index path)
qed (simp add: set_heat_def ok)

section \<open>Reachable stores\<close>

inductive store_step :: "'h \<Rightarrow> ('h \<Rightarrow> 'h) \<Rightarrow> 'h node_store \<Rightarrow> 'h node_store \<Rightarrow> bool" for cold clamp where
  step_get: "get_or_create_path cold path store = Some (nid, store') \<Longrightarrow> store_step cold clamp store store'"
| step_with_id: "get_or_create_path_with_id cold path nid store = (got, store') \<Longrightarrow> store_step cold clamp store store'"
| step_heat: "store_step cold clamp store (set_heat clamp nid heat store)"

abbreviation store_steps :: "'h \<Rightarrow> ('h \<Rightarrow> 'h) \<Rightarrow> 'h node_store \<Rightarrow> 'h node_store \<Rightarrow> bool" where
  "store_steps cold clamp \<equiv> (store_step cold clamp)\<^sup>*\<^sup>*"

lemma step_ok:
  assumes "store_step cold clamp store store'" "store_ok store" shows "store_ok store' \<and> index_extends store store'"
  using assms(1)
proof cases
  case step_get
  from get_spec [OF assms(2) this] show ?thesis by simp
next
  case step_with_id
  from with_id_spec [OF assms(2) this] show ?thesis by simp
next
  case step_heat
  then show ?thesis using heat_spec [OF assms(2)] by simp
qed

lemma steps_ok:
  assumes "store_steps cold clamp store store'" "store_ok store" shows "store_ok store' \<and> index_extends store store'"
  using assms(1)
proof induction
  case base
  then show ?case using assms(2) by simp
next
  case (step y z)
  then show ?case using step_ok [OF step.hyps(2)] index_extends_trans by blast
qed

lemma reachable_ok: "store_steps cold clamp (NodeStore_new cold) store \<Longrightarrow> store_ok store"
  by (rule steps_ok [OF _ new_ok, THEN conjunct1])

lemma has_path_action:
  "has_path store nid path \<Longrightarrow> path_for_action thread g nid store = (if is_rendering thread g then Panic else Ok (Some path))"
  by (auto simp: path_for_action_def path_of_node_def assert_path_resolution_allowed_def is_rendering_def has_path_def)

lemmas path_eval = path_key_def path_components_def component_of_def ascii_def

lemma key_a: "path_key (ascii ''/a'') = [PcRoot, PcNormal (ascii ''a'')]" "path_key (ascii ''/./a/'') = [PcRoot, PcNormal (ascii ''a'')]"
  by (simp_all add: path_eval)

lemma key_b: "path_key (ascii ''/b'') = [PcRoot, PcNormal (ascii ''b'')]" "ascii ''b'' \<noteq> ascii ''a''"
  by (simp_all add: path_eval)

lemma new_fields: "st_path_index (NodeStore_new cold) = Map.empty" "st_next_dynamic (NodeStore_new cold) = 1000000"
  "st_nodes (NodeStore_new cold) nid = None \<longleftrightarrow> nid \<noteq> NodeId 1 \<and> nid \<noteq> NodeId 2"
  by (auto simp: NodeStore_new_def register_virtual_def)

lemma allocate_new: "allocate_id (NodeStore_new cold) \<noteq> None"
  unfolding allocate_id_None by (auto simp: new_fields intro!: exI [of _ 1000000])

section \<open>Registrations\<close>

text \<open>
  A path is registered with an id of the store's own choice or with one a backend gives.  A given id
  collides when the path is unknown and the id already stands for a path.
\<close>

definition register_as :: "'h \<Rightarrow> node_id option \<Rightarrow> rust_string \<Rightarrow> 'h node_store \<Rightarrow> (node_id \<times> 'h node_store) option" where
  "register_as cold given path store =
     (case given of
        None \<Rightarrow> get_or_create_path cold path store
      | Some nid \<Rightarrow> Some (get_or_create_path_with_id cold path nid store))"

definition id_collision :: "node_id option \<Rightarrow> rust_string \<Rightarrow> 'h node_store \<Rightarrow> bool" where
  "id_collision given path store \<longleftrightarrow> st_path_index store (path_key path) = None \<and>
     (\<exists>nid other. given = Some nid \<and> path_of_node nid store = Some other)"

lemma path_of_node_has: "path_of_node nid store = Some path \<longleftrightarrow> has_path store nid path"
  by (cases "st_nodes store nid") (auto simp: path_of_node_def has_path_def split: store_node_kind.splits)

lemma register_spec:
  assumes ok: "store_ok store" and get: "register_as cold given path store = Some (nid, store')"
  shows "store_ok store' \<and> index_extends store store' \<and> (\<not> id_collision given path store \<longrightarrow> st_path_index store' (path_key path) = Some nid)"
proof (cases given)
  case None
  with get_spec [OF ok] get show ?thesis by (simp add: register_as_def)
next
  case (Some backend)
  then have w: "get_or_create_path_with_id cold path backend store = (nid, store')" using get by (simp add: register_as_def)
  have "st_path_index store' (path_key path) = Some nid" if free: "\<not> id_collision given path store"
  proof (cases "st_path_index store (path_key path)")
    case (Some old)
    with with_id_known [OF Some] w show ?thesis by simp
  next
    case none: None
    have "\<not> has_path store backend p" for p using free none Some by (simp add: id_collision_def path_of_node_has)
    from with_id_new [OF none this] w show ?thesis by (auto simp: insert_index components_spell path_key_ok)
  qed
  with with_id_spec [OF ok w] show ?thesis by blast
qed

lemma register_collides:
  assumes "store_ok store" "id_collision given path store" "register_as cold given path store = Some (nid, store')"
  shows "store' = store \<and> given = Some nid \<and> (\<exists>other. has_path store nid other \<and> path_key other \<noteq> path_key path \<and> normalize_path_key other = other)"
proof -
  from assms(2) obtain backend other where c: "st_path_index store (path_key path) = None" "given = Some backend" "has_path store backend other"
    by (auto simp: id_collision_def path_of_node_has)
  from with_id_taken [OF c(1,3)] assms(3) c(2) have r: "nid = backend" "store' = store" by (simp_all add: register_as_def)
  have index: "st_path_index store (path_components other) = Some backend" by (rule has_path_index [OF assms(1) c(3)])
  note key = store_ok_index [OF assms(1) index]
  have "spell (path_components other) = other" by (rule has_path_unique [OF key(2) c(3)])
  moreover have "path_key other = path_components other" using key_no_cur [OF key(1)] by (simp add: path_key_def)
  ultimately show ?thesis using r c index by (intro conjI exI [of _ other]) (auto simp: normalize_spell)
qed

text \<open>C29. An id is an identity, except where a backend's id collides.  Take a store used in any way, a registration of \<open>p\<close>
  that does not collide, any use of the store, and a registration of \<open>q\<close>, each with an id of the store's own or one a backend
  gives.  The id of \<open>p\<close> keeps resolving to the normal form of \<open>p\<close>, and resolving it panics on a thread that is rendering.  If the
  id given for \<open>q\<close> does not collide, the two ids are equal exactly when the spellings denote the same sequence of
  components, and the id of \<open>q\<close> resolves to the normal form of \<open>q\<close>.  If it collides, the store stays as it is, the given id is
  returned although it resolves to another path, and \<open>q\<close> stays unknown.\<close>

theorem path_identity:
  assumes "store_steps cold clamp (NodeStore_new cold) s" "register_as cold a p s = Some (i, s1)" "\<not> id_collision a p s"
    and "store_steps cold clamp s1 s2" "register_as cold b q s2 = Some (j, s3)"
  shows "path_for_action thread g i s3 = (if is_rendering thread g then Panic else Ok (Some (normalize_path_key p))) \<and>
    (\<not> id_collision b q s2 \<longrightarrow> (i = j \<longleftrightarrow> path_key p = path_key q) \<and>
      path_for_action thread g j s3 = (if is_rendering thread g then Panic else Ok (Some (normalize_path_key q)))) \<and>
    (id_collision b q s2 \<longrightarrow> s3 = s2 \<and> b = Some j \<and> cached_id_for_path (normalize_path_key q) s3 = None \<and>
      (\<exists>other. path_key other \<noteq> path_key q \<and>
        path_for_action thread g j s3 = (if is_rendering thread g then Panic else Ok (Some (normalize_path_key other)))))"
proof -
  have s1: "store_ok s1" "st_path_index s1 (path_key p) = Some i"
    using register_spec [OF reachable_ok [OF assms(1)] assms(2)] assms(3) by simp_all
  have s2: "store_ok s2" "st_path_index s2 (path_key p) = Some i"
    using steps_ok [OF assms(4) s1(1)] s1(2) by (simp_all add: index_extends_def)
  have s3: "store_ok s3" "st_path_index s3 (path_key p) = Some i"
    and j: "\<not> id_collision b q s2 \<Longrightarrow> st_path_index s3 (path_key q) = Some j"
    using register_spec [OF s2(1) assms(5)] s2(2) by (simp_all add: index_extends_def)
  have resolves: "path_for_action thread g nid s3 = (if is_rendering thread g then Panic else Ok (Some (normalize_path_key path)))"
    if "st_path_index s3 (path_key path) = Some nid" for nid path
    using store_ok_index(2) [OF s3(1) that] by (simp only: has_path_action normalize_spell)
  have "\<not> id_collision b q s2 \<Longrightarrow> i = j \<longleftrightarrow> path_key p = path_key q" using s3(2) j index_inj [OF s3(1)] by auto
  moreover have "s3 = s2 \<and> b = Some j \<and> cached_id_for_path (normalize_path_key q) s3 = None \<and>
      (\<exists>other. path_key other \<noteq> path_key q \<and>
        path_for_action thread g j s3 = (if is_rendering thread g then Panic else Ok (Some (normalize_path_key other))))"
    if c: "id_collision b q s2"
  proof -
    from register_collides [OF s2(1) c assms(5)] obtain other where r: "s3 = s2" "b = Some j" "has_path s2 j other"
      "path_key other \<noteq> path_key q" "normalize_path_key other = other" by blast
    moreover have "cached_id_for_path (normalize_path_key q) s3 = None"
      using c r(1) by (simp add: id_collision_def cached_id_for_path_def components_normalize)
    ultimately show ?thesis using has_path_action [of s2 j other thread g] by (intro conjI exI [of _ other]) simp_all
  qed
  ultimately show ?thesis using resolves [OF s3(2)] resolves [OF j] by blast
qed

text \<open>A backend that gives the id of \<open>/a\<close> for \<open>/b\<close> as well.\<close>

lemma path_identity_witness:
  "\<exists>i s1 other. get_or_create_path () (ascii ''/a'') (NodeStore_new ()) = Some (i, s1) \<and>
     get_or_create_path_with_id () (ascii ''/b'') i s1 = (i, s1) \<and> path_key other \<noteq> path_key (ascii ''/b'') \<and>
     path_for_action 0 \<lparr>pg_render_depth = \<lambda>_. 0, pg_ui_thread = None\<rparr> i s1 = Ok (Some (normalize_path_key other))"
proof -
  obtain i s1 where s1: "get_or_create_path () (ascii ''/a'') (NodeStore_new ()) = Some (i, s1)"
    using allocate_new [of "()"] by (auto simp: get_new new_fields)
  have i: "store_ok s1" "st_path_index s1 (path_key (ascii ''/a'')) = Some i" using get_spec [OF new_ok s1] by simp_all
  obtain m where "allocate_id (NodeStore_new ()) = Some (i, m)" "s1 = insert_path () i (spell (path_key (ascii ''/a''))) m"
    using s1 by (auto simp: get_new new_fields)
  then have "st_path_index s1 = [path_key (ascii ''/a'') \<mapsto> i]"
    by (auto simp: insert_index components_spell path_key_ok new_fields elim!: allocate_id_cases)
  then have fresh: "st_path_index s1 (path_key (ascii ''/b'')) = None" by (simp add: key_a key_b)
  have "has_path s1 i (spell (path_key (ascii ''/a'')))" by (rule store_ok_index(2) [OF i])
  then have c: "id_collision (Some i) (ascii ''/b'') s1" and w: "get_or_create_path_with_id () (ascii ''/b'') i s1 = (i, s1)"
    using fresh with_id_taken [OF fresh] by (auto simp: id_collision_def path_of_node_has)
  have a: "register_as () None (ascii ''/a'') (NodeStore_new ()) = Some (i, s1)" "\<not> id_collision None (ascii ''/a'') (NodeStore_new ())"
    "register_as () (Some i) (ascii ''/b'') s1 = Some (i, s1)" using s1 w by (simp_all add: register_as_def id_collision_def)
  note identity = path_identity [where clamp = "\<lambda>h. h", OF rtranclp.rtrancl_refl a(1,2) rtranclp.rtrancl_refl a(3),
      of 0 "\<lparr>pg_render_depth = \<lambda>_. 0, pg_ui_thread = None\<rparr>"]
  obtain other where "path_key other \<noteq> path_key (ascii ''/b'')"
      "path_for_action 0 \<lparr>pg_render_depth = \<lambda>_. 0, pg_ui_thread = None\<rparr> i s1 = Ok (Some (normalize_path_key other))"
    using identity c by (auto simp: is_rendering_def)
  with s1 w show ?thesis by blast
qed

section \<open>Ancestors\<close>

lemma ancestors_loop_unfold:
  "ancestors_loop store None out = Some out" "ancestors_loop store (Some nid) out = ancestors_loop store (node_parent nid store) (out @ [nid])"
  by (subst ancestors_loop.simps, simp)+

definition chain_of :: "'h node_store \<Rightarrow> path_component list \<Rightarrow> node_id list \<Rightarrow> bool" where
  "chain_of store key ids \<longleftrightarrow> (\<forall>i<length ids. st_path_index store (take (length key - i) key) = Some (ids ! i))"

lemma chain_Cons:
  assumes chain: "chain_of store (butlast key) ids" and nid: "st_path_index store key = Some nid" and "key \<noteq> []"
  shows "chain_of store key (nid # ids)"
  unfolding chain_of_def
proof (intro allI impI)
  fix i assume i: "i < length (nid # ids)"
  show "st_path_index store (take (length key - i) key) = Some ((nid # ids) ! i)"
  proof (cases i)
    case (Suc j)
    have "take (length (butlast key) - j) (butlast key) = take (length key - i) key"
      unfolding butlast_conv_take take_take using Suc by simp
    then show ?thesis using chain i Suc unfolding chain_of_def by (metis length_Cons nth_Cons_Suc Suc_less_eq)
  qed (simp add: nid)
qed

lemma path_node_parent:
  assumes ok: "store_ok store" and nid: "st_path_index store key = Some nid" and p: "node_parent nid store = Some p"
  shows "st_path_index store (butlast key) = Some p \<and> key \<noteq> []"
proof -
  from store_ok_index [OF ok nid] obtain node where node: "st_nodes store nid = Some node" "nd_kind node = NkPath (spell key)" "key_ok key"
    by (auto simp: has_path_def)
  with store_ok_node [OF ok node(1)] p have "Option.bind (path_parent key) (st_path_index store) = Some p"
    by (simp add: node_ok_def parent_ok_def node_parent_def components_spell)
  then show ?thesis by (auto simp: path_parent_def bind_eq_Some_conv split: if_splits)
qed

lemma path_chain:
  assumes "store_ok store" "st_path_index store key = Some nid"
  shows "\<exists>ids. (\<forall>out. ancestors_loop store (Some nid) out = Some (out @ ids)) \<and> ids \<noteq> [] \<and> hd ids = nid \<and> chain_of store key ids"
  using assms(2)
proof (induction "length key" arbitrary: key nid rule: less_induct)
  case less
  show ?case
  proof (cases "node_parent nid store")
    case None
    then have "ancestors_loop store (Some nid) out = Some (out @ [nid])" for out by (simp add: ancestors_loop_unfold)
    then show ?thesis using less.prems by (intro exI [of _ "[nid]"]) (simp add: chain_of_def)
  next
    case (Some p)
    have up: "st_path_index store (butlast key) = Some p" "key \<noteq> []" using path_node_parent [OF assms(1) less.prems Some] by simp_all
    from less.hyps [OF _ up(1)] up(2) obtain ids where
      "\<forall>out. ancestors_loop store (Some p) out = Some (out @ ids)" "ids \<noteq> []" "chain_of store (butlast key) ids" by auto
    then show ?thesis using Some chain_Cons [OF _ less.prems up(2)]
      by (intro exI [of _ "nid # ids"]) (simp add: ancestors_loop_unfold(2) [of store nid])
  qed
qed

text \<open>The parents of a registered path, and so its ancestors, never change.\<close>

lemma ancestors_stable:
  assumes "store_ok store" "store_ok store'" "index_extends store store'" "st_path_index store key = Some nid"
  shows "ancestors_loop store' (Some nid) out = ancestors_loop store (Some nid) out"
  using assms(4)
proof (induction "length key" arbitrary: key nid out rule: less_induct)
  case less
  have parent: "node_parent nid store' = node_parent nid store"
    using store_ok_index(2) [OF assms(1) less.prems] assms(3) by (auto simp: index_extends_def)
  show ?case
  proof (cases "node_parent nid store")
    case None
    then show ?thesis by (simp add: ancestors_loop_unfold parent)
  next
    case (Some p)
    have up: "st_path_index store (butlast key) = Some p" "key \<noteq> []" using path_node_parent [OF assms(1) less.prems Some] by simp_all
    then show ?thesis using less.hyps [OF _ up(1)] Some by (simp add: ancestors_loop_unfold(2) [of _ nid] parent)
  qed
qed

lemma ancestors_extend:
  assumes "store_ok store" "st_path_index store key = Some nid"
  shows "\<exists>ids. ancestors nid store = Some ids \<and> ids \<noteq> [] \<and> List.last ids = nid \<and>
    (\<forall>i<length ids. st_path_index store (take (length key - i) key) = Some (rev ids ! i)) \<and>
    ancestors nid store = (case node_parent nid store of None \<Rightarrow> Some [nid] | Some p \<Rightarrow> map_option (\<lambda>ids. ids @ [nid]) (ancestors p store))"
proof -
  from path_chain [OF assms] obtain ids where
    ids: "\<forall>out. ancestors_loop store (Some nid) out = Some (out @ ids)" "ids \<noteq> []" "hd ids = nid" "chain_of store key ids" by auto
  have "ancestors nid store = (case node_parent nid store of None \<Rightarrow> Some [nid] | Some p \<Rightarrow> map_option (\<lambda>ids. ids @ [nid]) (ancestors p store))"
  proof (cases "node_parent nid store")
    case None
    then show ?thesis by (simp add: ancestors_def ancestors_loop_unfold)
  next
    case (Some p)
    have "st_path_index store (butlast key) = Some p" using path_node_parent [OF assms Some] by simp
    from path_chain [OF assms(1) this] obtain rest where "\<forall>out. ancestors_loop store (Some p) out = Some (out @ rest)" by auto
    then show ?thesis using Some by (simp add: ancestors_def ancestors_loop_unfold(2) [of store nid])
  qed
  then show ?thesis using ids by (intro exI [of _ "rev ids"]) (simp add: ancestors_def last_rev chain_of_def)
qed

lemma register_parent_link:
  assumes ok: "store_ok store" and get: "register_as cold given path store = Some (nid, store')"
    and new: "st_path_index store (path_key path) = None" and free: "\<not> id_collision given path store"
  shows "node_parent nid store' = Option.bind (path_parent (path_key path)) (st_path_index store)"
proof (cases given)
  case None
  then have "get_or_create_path cold path store = Some (nid, store')" using get by (simp add: register_as_def)
  then show ?thesis unfolding get_new [OF new]
    by (auto simp: node_parent_def insert_nodes components_spell path_key_ok elim!: allocate_id_cases)
next
  case (Some backend)
  have "\<not> has_path store backend p" for p using free new Some by (simp add: id_collision_def path_of_node_has)
  from with_id_new [OF new this] get Some show ?thesis
    by (auto simp: register_as_def node_parent_def insert_nodes components_spell path_key_ok)
qed

text \<open>C30. The ancestors of a path are decided when it is registered: a path registered for the first time, with an id of the
  store's own or one of a backend that does not collide, has as ancestors itself after the ancestors of its
  directory, when the directory was registered at that time, and itself alone otherwise; no later use of the store
  changes them.  They are found in finitely many steps, and each is the id of the directory, registered, of the one after it.\<close>

theorem ancestors_chain:
  assumes "store_steps cold clamp (NodeStore_new cold) s" "register_as cold given path s = Some (nid, s1)"
    and "st_path_index s (path_key path) = None" "\<not> id_collision given path s" "store_steps cold clamp s1 s2"
  shows "ancestors nid s2 = (case Option.bind (path_parent (path_key path)) (st_path_index s) of
      None \<Rightarrow> Some [nid] | Some dir \<Rightarrow> map_option (\<lambda>ids. ids @ [nid]) (ancestors dir s)) \<and>
    (\<exists>ids. ancestors nid s2 = Some ids \<and>
      (\<forall>i<length ids. st_path_index s2 (take (length (path_key path) - i) (path_key path)) = Some (rev ids ! i)))"
proof -
  have s: "store_ok s" by (rule reachable_ok [OF assms(1)])
  have s1: "store_ok s1" "index_extends s s1" "st_path_index s1 (path_key path) = Some nid"
    using register_spec [OF s assms(2)] assms(4) by simp_all
  have s2: "store_ok s2" "index_extends s1 s2" "st_path_index s2 (path_key path) = Some nid"
    using steps_ok [OF assms(5) s1(1)] s1(3) by (simp_all add: index_extends_def)
  have later: "ancestors nid s2 = ancestors nid s1"
    using ancestors_stable [OF s1(1) s2(1,2) s1(3)] by (simp add: ancestors_def)
  have "ancestors dir s1 = ancestors dir s" if "Option.bind (path_parent (path_key path)) (st_path_index s) = Some dir" for dir
  proof -
    from that obtain key where "st_path_index s key = Some dir" by (auto simp: bind_eq_Some_conv)
    from ancestors_stable [OF s s1(1,2) this] show ?thesis by (simp add: ancestors_def)
  qed
  then have "ancestors nid s2 = (case Option.bind (path_parent (path_key path)) (st_path_index s) of
      None \<Rightarrow> Some [nid] | Some dir \<Rightarrow> map_option (\<lambda>ids. ids @ [nid]) (ancestors dir s))"
    using ancestors_extend [OF s1(1,3)] later by (auto simp: register_parent_link [OF s assms(2-4)] split: option.splits)
  with ancestors_extend [OF s2(1,3)] show ?thesis by blast
qed

lemma allocate_first:
  assumes "allocate_id store = Some (nid, store')" "st_nodes store (NodeId raw) = None" "max (st_next_dynamic store) 1 = raw"
  shows "nid = NodeId raw \<and> store' = store\<lparr>st_next_dynamic := sat_succ raw\<rparr>"
  using assms(1)
proof (rule allocate_id_cases)
  fix found
  assume r: "nid = NodeId found" "least_free (\<lambda>nid. st_nodes store nid \<noteq> None) (st_next_dynamic store) found"
    "store' = store\<lparr>st_next_dynamic := sat_succ found\<rparr>"
  then have "raw \<le> found" "\<not> raw < found" using assms(2,3) by (auto simp: least_free_def)
  then show ?thesis using r by simp
qed

lemma ancestors_chain_witness:
  "\<exists>i s1 j s2. get_or_create_path () (ascii ''/a'') (NodeStore_new ()) = Some (i, s1) \<and>
     get_or_create_path () (ascii ''/a/b'') s1 = Some (j, s2) \<and> ancestors j s2 = Some [i, j]"
proof -
  have ab: "path_key (ascii ''/a/b'') = [PcRoot, PcNormal (ascii ''a''), PcNormal (ascii ''b'')]" by (simp add: path_eval)
  obtain i m where m: "allocate_id (NodeStore_new ()) = Some (i, m)" using allocate_new [of "()"] by auto
  from allocate_first [OF this, of 1000000] have i: "i = NodeId 1000000" "m = (NodeStore_new ())\<lparr>st_next_dynamic := 1000001\<rparr>"
    by (simp_all add: new_fields sat_succ_def)
  define s1 where "s1 = insert_path () i (spell (path_key (ascii ''/a''))) m"
  have s1: "get_or_create_path () (ascii ''/a'') (NodeStore_new ()) = Some (i, s1)" by (simp add: get_new new_fields m s1_def)
  have index: "st_path_index s1 = [path_key (ascii ''/a'') \<mapsto> i]" "st_nodes s1 (NodeId 1000001) = None" "st_next_dynamic s1 = 1000001"
    by (simp_all add: s1_def insert_index insert_nodes components_spell path_key_ok i new_fields) (simp add: insert_path_def Let_def)
  have "allocate_id s1 \<noteq> None" unfolding allocate_id_None index(3) using index(2) by (auto intro!: exI [of _ 1000001])
  then obtain j s2 where s2: "get_or_create_path () (ascii ''/a/b'') s1 = Some (j, s2)" by (auto simp: get_new index ab key_a)
  have step: "store_steps () (\<lambda>h. h) (NodeStore_new ()) s1" using step_get [OF s1] by (rule r_into_rtranclp)
  have free: "\<not> id_collision None (ascii ''/a'') (NodeStore_new ())" "\<not> id_collision None (ascii ''/a/b'') s1" by (simp_all add: id_collision_def)
  have r: "register_as () None (ascii ''/a'') (NodeStore_new ()) = Some (i, s1)" "register_as () None (ascii ''/a/b'') s1 = Some (j, s2)"
    using s1 s2 by (simp_all add: register_as_def)
  have "ancestors i s1 = Some [i]"
    using ancestors_chain [where clamp = "\<lambda>h. h", OF rtranclp.rtrancl_refl r(1) _ free(1) rtranclp.rtrancl_refl]
    by (simp add: new_fields bind_eq_Some_conv split: option.splits)
  moreover have "Option.bind (path_parent (path_key (ascii ''/a/b''))) (st_path_index s1) = Some i"
    by (simp add: index ab key_a path_parent_def)
  ultimately have "ancestors j s2 = Some [i, j]"
    using ancestors_chain [OF step r(2) _ free(2) rtranclp.rtrancl_refl] by (simp add: index ab key_a)
  with s1 s2 show ?thesis by blast
qed

section \<open>The render guard\<close>

text \<open>While a guard is alive only its own thread is rendering, and dropping it restores the state before.\<close>

lemma render_guard:
  assumes "enter_render thread g = Ok g'"
  shows "is_rendering thread g'" and "other \<noteq> thread \<Longrightarrow> is_rendering other g' = is_rendering other g"
    and "drop_render_guard checks thread g' = Ok g"
  using assms by (auto simp: enter_render_def drop_render_guard_def is_rendering_def usize_checked_add_def split: if_splits)

section \<open>Exhaustion\<close>

lemma get_None:
  "get_or_create_path cold path store = None \<longleftrightarrow> st_path_index store (path_key path) = None \<and> allocate_id store = None"
proof (cases "st_path_index store (path_key path)")
  case None
  then show ?thesis by (simp add: get_new)
next
  case (Some nid)
  then show ?thesis by (simp add: get_known [OF Some])
qed

text \<open>C31. Registering a path fails to return exactly when the path is unknown and no id from the counter on is
  free.  The counter saturates, so one backend id of 2^64-1 is enough: no new path is ever registered again.\<close>

theorem registration_returns:
  "(get_or_create_path cold path store = None \<longleftrightarrow>
     st_path_index store (path_key path) = None \<and> {max (st_next_dynamic store) 1 ..} \<subseteq> {raw. st_nodes store (NodeId raw) \<noteq> None}) \<and>
   get_or_create_path cold (ascii ''/b'') (snd (get_or_create_path_with_id cold (ascii ''/a'') (NodeId (- 1)) (NodeStore_new cold))) = None"
proof -
  let ?new = "NodeStore_new cold"
  have "\<not> has_path ?new (NodeId (- 1)) p" for p using new_fields(3) [of cold "NodeId (- 1)"] by (auto simp: has_path_def)
  then have s: "snd (get_or_create_path_with_id cold (ascii ''/a'') (NodeId (- 1)) ?new) =
      (insert_path cold (NodeId (- 1)) (spell (path_key (ascii ''/a''))) ?new)\<lparr>st_next_dynamic := - 1\<rparr>"
    by (subst with_id_new) (simp_all add: new_fields sat_succ_def max_def)
  have "st_path_index (insert_path cold (NodeId (- 1)) (spell (path_key (ascii ''/a''))) ?new) (path_key (ascii ''/b'')) = None"
    unfolding insert_index components_spell [OF path_key_ok] using key_a key_b by (simp add: new_fields)
  moreover have "raw = - 1" if "max (- 1) 1 \<le> raw" for raw :: u64
    using that by (metis max.boundedE word_order.extremum_unique)
  ultimately have "get_or_create_path cold (ascii ''/b'') (snd (get_or_create_path_with_id cold (ascii ''/a'') (NodeId (- 1)) ?new)) = None"
    unfolding s get_None allocate_id_None by (auto simp: insert_nodes)
  then show ?thesis unfolding get_None allocate_id_None by auto
qed
end
