(* ===== verification/PrivatePresentation.thy ===== *)
theory PrivatePresentation
  imports NodeStore Utf8
begin

text \<open>
  \<open>ferail-core\<close>: \<open>private_presentation.rs\<close>, the stand-ins that Private Mode shows for names, paths,
  digests, sizes, times and dimensions.  The key of a session is its list of bytes; a path is read by the
  rules of Unix, where it has no prefix component.  The pixels of a stand-in thumbnail are computed with
  floating-point numbers and are not modelled.
\<close>

definition ADJECTIVES :: "string list" where
  "ADJECTIVES =
     [''amber'', ''brisk'', ''calm'', ''cobalt'', ''coral'', ''crisp'', ''gentle'', ''golden'', ''lunar'', ''misty'',
      ''quiet'', ''rapid'', ''silver'', ''solar'', ''velvet'', ''vivid'']"

definition NOUNS :: "string list" where
  "NOUNS =
     [''atlas'', ''beacon'', ''cedar'', ''delta'', ''falcon'', ''harbor'', ''island'', ''maple'', ''meadow'', ''orbit'',
      ''river'', ''signal'', ''summit'', ''timber'', ''valley'', ''willow'']"

definition COMPOUND_EXTENSIONS :: "string list" where
  "COMPOUND_EXTENSIONS = [''tar.gz'', ''tar.bz2'', ''tar.xz'', ''tar.zst'']"

section \<open>The keyed hash\<close>

definition hash_byte :: "u8 \<Rightarrow> u64 \<Rightarrow> u64" where
  "hash_byte b h = (let h = (h XOR ucast b) * 0x100000001B3 in h XOR drop_bit 32 h)"

definition private_hash :: "u8 list \<Rightarrow> u64 \<Rightarrow> u8 list \<Rightarrow> u64" where
  "private_hash key domain bytes = fold hash_byte (key @ bytes) (0xCBF29CE484222325 XOR domain)"

section \<open>Names\<close>

definition is_ascii_alphanumeric :: "u32 \<Rightarrow> bool" where
  "is_ascii_alphanumeric c \<longleftrightarrow> is_ascii_alphabetic c \<or> is_digit c"

definition ends_with :: "'a list \<Rightarrow> 'a list \<Rightarrow> bool" where
  "ends_with s suffix \<longleftrightarrow> length suffix \<le> length s \<and> drop (length s - length suffix) s = suffix"

text \<open>
  A suffix that is compared or cut off is ASCII, so its length in bytes is its length in characters.
  The bound of twelve bytes is read in characters: an extension with others is refused anyway.
\<close>

definition compound_of :: "rust_string \<Rightarrow> string \<Rightarrow> bool" where
  "compound_of name compound =
     (let lower = map to_ascii_lowercase name in
      ends_with lower (ascii compound) \<and> ends_with (take (length lower - length compound) lower) [0x2E])"

definition safe_extension :: "rust_string \<Rightarrow> rust_string option" where
  "safe_extension name =
     (case find (compound_of name) COMPOUND_EXTENSIONS of
        Some compound \<Rightarrow> Some (drop (length name - length compound) name)
      | None \<Rightarrow>
          (case rsplit_once_dot name of
             None \<Rightarrow> None
           | Some (stem, ext) \<Rightarrow>
               if stem = [] \<or> ext = [] \<or> 12 < length ext \<or> \<not> list_all is_ascii_alphanumeric ext then None
               else Some ext))"

definition word_pair :: "u64 \<Rightarrow> rust_string" where
  "word_pair h =
     ascii (ADJECTIVES ! (unat h mod length ADJECTIVES)) @ 0x2D #
     ascii (NOUNS ! (unat (drop_bit 8 h) mod length NOUNS))"

definition private_leaf :: "u8 list \<Rightarrow> rust_string \<Rightarrow> bool \<Rightarrow> rust_string" where
  "private_leaf key raw is_dir =
     (let hidden = take 1 raw = [0x2E] \<and> raw \<noteq> [0x2E] \<and> raw \<noteq> [0x2E, 0x2E];
          visible = (case strip_prefix [0x2E] raw of Some rest \<Rightarrow> rest | None \<Rightarrow> raw);
          extension = (if \<not> is_dir then safe_extension visible else None);
          stem = (case extension of Some ext \<Rightarrow> take (length visible - (length ext + 1)) visible | None \<Rightarrow> visible);
          h = private_hash key 0x4C454146 (utf8_encode raw);
          alias = word_pair h;
          alias = (if 24 < length stem then alias @ 0x2D # zero_padded 2 (int (unat (drop_bit 16 h) mod 100)) else alias);
          alias = (if hidden then 0x2E # alias else alias) in
      case extension of Some ext \<Rightarrow> alias @ 0x2E # ext | None \<Rightarrow> alias)"

section \<open>Paths\<close>

definition push_separator :: "rust_string \<Rightarrow> rust_string" where
  "push_separator out = (if out \<noteq> [] \<and> \<not> ends_with out [0x2F] then out @ [0x2F] else out)"

fun present_component :: "u8 list \<Rightarrow> path_component \<Rightarrow> rust_string \<times> nat \<Rightarrow> rust_string \<times> nat" where
  "present_component key PcRoot (out, normal_ix) = (if \<not> ends_with out [0x2F] then out @ [0x2F] else out, normal_ix)"
| "present_component key PcCur (out, normal_ix) = (push_separator out @ [0x2E], normal_ix)"
| "present_component key PcParent (out, normal_ix) = (push_separator out @ [0x2E, 0x2E], normal_ix)"
| "present_component key (PcNormal part) (out, normal_ix) =
     (push_separator out @ word_pair (private_hash key (of_nat normal_ix) (utf8_encode part)), Suc normal_ix)"

definition private_path :: "u8 list \<Rightarrow> rust_string \<Rightarrow> rust_string" where
  "private_path key raw =
     (let out = fst (fold (present_component key) (path_components raw) ([], 0)) in
      if out = [] then ascii ''private'' else out)"

section \<open>Digests\<close>

text \<open>\<open>{:016x}\<close> of a \<open>u64\<close>.\<close>

definition hex_digit :: "u64 \<Rightarrow> u32" where
  "hex_digit d = (if d < 10 then 0x30 + ucast d else 0x57 + ucast d)"

definition hex16 :: "u64 \<Rightarrow> rust_string" where
  "hex16 w = map (\<lambda>i. hex_digit (drop_bit (4 * i) w AND 0xF)) (rev [0..<16])"

lemma length_hex16 [simp]: "length (hex16 w) = 16"
  by (simp add: hex16_def)

function digest_loop :: "u8 list \<Rightarrow> u8 list \<Rightarrow> nat \<Rightarrow> rust_string \<Rightarrow> u64 \<Rightarrow> rust_string" where
  "digest_loop key raw width result counter =
     (if length result < width then digest_loop key raw width (result @ hex16 (private_hash key counter raw)) (counter + 1)
      else result)"
  by pat_completeness auto
termination by (relation "measure (\<lambda>(key, raw, width, result, counter). width - length result)") auto

declare digest_loop.simps [simp del]

definition private_digest :: "u8 list \<Rightarrow> rust_string \<Rightarrow> nat \<Rightarrow> rust_string" where
  "private_digest key raw width = take width (digest_loop key (utf8_encode raw) width [] 0)"

section \<open>Numbers\<close>

fun ilog10 :: "nat \<Rightarrow> nat" where
  "ilog10 n = (if n < 10 then 0 else Suc (ilog10 (n div 10)))"

declare ilog10.simps [simp del]

text \<open>\<open>u64::saturating_mul\<close> and \<open>u64::saturating_pow\<close>.\<close>

definition u64_cap :: "nat \<Rightarrow> u64" where
  "u64_cap n = (if n < 2 ^ 64 then of_nat n else - 1)"

definition private_bytes :: "u8 list \<Rightarrow> u64 \<Rightarrow> u64 \<Rightarrow> u64" where
  "private_bytes key identity raw =
     (if raw = 0 then 0
      else
        let magnitude = u64_cap (10 ^ ilog10 (unat raw));
            factor = 10 + private_hash key identity (le_bytes 8 raw) mod 90 in
        u64_cap (unat magnitude * unat factor) div 10)"

definition i64_saturating_sub :: "int \<Rightarrow> int \<Rightarrow> int" where
  "i64_saturating_sub a b = max (- (2 ^ 63)) (min (2 ^ 63 - 1) (a - b))"

definition private_timestamp :: "u8 list \<Rightarrow> u64 \<Rightarrow> int \<Rightarrow> int \<Rightarrow> int" where
  "private_timestamp key identity raw now =
     (if raw \<le> 0 then raw
      else
        let h = private_hash key (identity XOR 0x54494D45) (le_bytes 8 (word_of_int raw :: u64));
            seconds = 3600 + h mod (540 * 24 * 3600) in
        i64_saturating_sub now (sint seconds))"

definition LONG_EDGES :: "u32 list" where
  "LONG_EDGES = [1024, 1280, 1600, 1920, 2048, 2560, 3024, 4032]"

definition private_dimensions :: "u8 list \<Rightarrow> u64 \<Rightarrow> u32 \<times> u32 \<Rightarrow> u32 \<times> u32" where
  "private_dimensions key identity raw =
     (if fst raw = 0 \<or> snd raw = 0 then raw
      else
        let h = private_hash key (identity XOR 0x44494D53) (le_bytes 4 (fst raw));
            long = LONG_EDGES ! (unat h mod length LONG_EDGES);
            short = ucast ((ucast long * (55 + drop_bit 8 h mod 31) :: u64) div 100) in
        if snd raw \<le> fst raw then (long, short) else (short, long))"

section \<open>The interface of the controls\<close>

datatype private_value =
    PvLeaf rust_string bool | PvPath rust_string | PvLabel rust_string | PvDigest rust_string nat

fun private_present :: "u8 list \<Rightarrow> private_value \<Rightarrow> rust_string" where
  "private_present key (PvLeaf raw is_dir) = private_leaf key raw is_dir"
| "private_present key (PvPath path) = private_path key path"
| "private_present key (PvLabel raw) = private_leaf key raw True"
| "private_present key (PvDigest raw width) = private_digest key raw width"

end
