(* ===== verification/PrivatePresentationProps.thy ===== *)
theory PrivatePresentationProps
  imports PrivatePresentation NodeStoreProps
begin

text \<open>
  What \<open>private_presentation.rs\<close> promises: stand-ins have the shape of what they stand for, and nothing
  of it but a hidden dot and an extension.
\<close>

section \<open>Words\<close>

lemma words_alphabetic:
  "\<forall>w\<in>set ADJECTIVES. ascii w \<noteq> [] \<and> list_all is_ascii_alphabetic (ascii w)"
  "\<forall>w\<in>set NOUNS. list_all is_ascii_alphabetic (ascii w)"
  by (simp_all add: ADJECTIVES_def NOUNS_def ascii_def is_ascii_alphabetic_def is_ascii_uppercase_def)

lemma word_pair_shape:
  obtains a n where "a \<in> set ADJECTIVES" "n \<in> set NOUNS" "word_pair h = ascii a @ 0x2D # ascii n"
proof -
  have "ADJECTIVES ! (unat h mod length ADJECTIVES) \<in> set ADJECTIVES" by (rule nth_mem) (simp add: ADJECTIVES_def)
  moreover have "NOUNS ! (unat (drop_bit 8 h) mod length NOUNS) \<in> set NOUNS" by (rule nth_mem) (simp add: NOUNS_def)
  ultimately show ?thesis by (rule that) (simp add: word_pair_def)
qed

lemma word_pair_letters: "c \<in> set (word_pair h) \<Longrightarrow> is_ascii_alphabetic c \<or> c = 0x2D"
  by (rule word_pair_shape [of h]) (use words_alphabetic in \<open>auto simp: list_all_iff\<close>)

lemma word_pair_ok: "tail_ok (PcNormal (word_pair h))"
proof -
  have "0x2D \<in> set (word_pair h)" by (simp add: word_pair_def)
  moreover have "0x2F \<notin> set (word_pair h)"
    using word_pair_letters [of "0x2F" h] by (auto simp: is_ascii_alphabetic_def is_ascii_uppercase_def)
  ultimately show ?thesis by (auto simp: tail_ok_def name_ok_def)
qed

section \<open>Paths\<close>

text \<open>The components of a path: an anchor at most, then names and parents.\<close>

lemma components_shape:
  obtains lead rest where "path_components s = lead @ rest" "lead \<in> {[], [PcRoot], [PcCur]}" "list_all tail_ok rest"
proof -
  have "list_all tail_ok (map component_of (filter (\<lambda>p. p \<noteq> [] \<and> p \<noteq> [0x2E]) (split_on 0x2F s)))"
    using split_on_pieces [of _ "0x2F" s] component_of_ok by (auto simp: list_all_iff)
  from that [OF _ _ this, of "if hd (split_on 0x2F s) = [] \<and> s \<noteq> [] then [PcRoot] else if hd (split_on 0x2F s) = [0x2E] then [PcCur] else []"]
  show ?thesis by (simp add: path_components_def Let_def split: if_splits)
qed

lemma push_slash:
  assumes "list_all tail_ok cs" "cs \<noteq> []" "out \<noteq> []" "last out \<noteq> 0x2F"
  shows "foldl path_push out cs = foldl path_push (out @ [0x2F]) cs"
  using assms by (cases cs) (simp_all add: push_tail)

lemma components_push_cur:
  assumes ok: "list_all tail_ok cs" shows "path_components (foldl path_push [] (PcCur # cs)) = PcCur # cs"
proof (cases "cs = []")
  case False
  then have "foldl path_push [] (PcCur # cs) = 0x2E # 0x2F # join_with 0x2F (map component_str cs)"
    using push_slash [OF ok False, of "[0x2E]"] foldl_push_join [OF ok False, of "[0x2E, 0x2F]"] by (simp add: path_push_def)
  then show ?thesis using components_of_tail [OF ok False] by (simp add: path_components_def Let_def)
qed (simp add: path_push_def path_components_def)

lemma components_push_shape:
  assumes "lead \<in> {[], [PcRoot], [PcCur]}" "list_all tail_ok cs"
  shows "path_components (foldl path_push [] (lead @ cs)) = lead @ cs"
proof -
  have "key_ok cs" using assms(2) by (auto simp: key_ok_def tail_ok_def split: list.split path_component.split)
  moreover have "key_ok (PcRoot # cs)" using assms(2) by (simp add: key_ok_def)
  ultimately show ?thesis using assms components_push [of cs] components_push [of "PcRoot # cs"] components_push_cur [of cs] by auto
qed

text \<open>The stand-in of the \<open>k\<close>-th name of a path.\<close>

fun alias_components :: "u8 list \<Rightarrow> nat \<Rightarrow> path_component list \<Rightarrow> path_component list" where
  "alias_components key k [] = []"
| "alias_components key k (PcNormal part # cs) =
     PcNormal (word_pair (private_hash key (of_nat k) (utf8_encode part))) # alias_components key (Suc k) cs"
| "alias_components key k (PcParent # cs) = PcParent # alias_components key k cs"
| "alias_components key k (PcRoot # cs) = PcRoot # alias_components key k cs"
| "alias_components key k (PcCur # cs) = PcCur # alias_components key k cs"

lemma alias_tail: "list_all tail_ok cs \<Longrightarrow> list_all tail_ok (alias_components key k cs)"
  by (induction key k cs rule: alias_components.induct) (simp_all add: word_pair_ok)

lemma ends_slash: "ends_with out [a] \<longleftrightarrow> out \<noteq> [] \<and> last out = a"
  by (cases out rule: rev_cases) (auto simp: ends_with_def)

lemma push_separator_push:
  "take 1 (component_str c) \<noteq> [0x2F] \<Longrightarrow> push_separator out @ component_str c = path_push out c"
  by (auto simp: push_separator_def path_push_def ends_slash Let_def)

lemma present_tail:
  "list_all tail_ok cs \<Longrightarrow> fst (fold (present_component key) cs (out, k)) = foldl path_push out (alias_components key k cs)"
proof (induction key k cs arbitrary: out rule: alias_components.induct)
  case (2 key k part cs)
  have "take 1 (word_pair h) \<noteq> [0x2F]" for h
    using word_pair_ok [of h] by (cases "word_pair h") (auto simp: tail_ok_def name_ok_def)
  with 2 push_separator_push [of "PcNormal _" out] show ?case by simp
next
  case (3 key k cs)
  then show ?case using push_separator_push [of PcParent out] by simp
qed (simp_all add: tail_ok_def)

text \<open>C32. The stand-in of a path has the same shape: the same anchor, the same parents and as many names, each
  replaced by a pair of words drawn from its text, its position and the key; the stand-in of a path without components is
  the one name \<open>private\<close>.\<close>

theorem private_path_shape:
  "path_components (private_path key raw) =
     (if path_components raw = [] then [PcNormal (ascii ''private'')] else alias_components key 0 (path_components raw))"
proof -
  obtain lead rest where comps: "path_components raw = lead @ rest" "lead \<in> {[], [PcRoot], [PcCur]}" "list_all tail_ok rest"
    by (rule components_shape)
  let ?out = "fst (fold (present_component key) (path_components raw) ([], 0))"
  have keep: "alias_components key 0 (lead @ rest) = lead @ alias_components key 0 rest" using comps(2) by auto
  have "?out = foldl path_push [] (lead @ alias_components key 0 rest)"
    using comps(2) present_tail [OF comps(3)] by (auto simp: comps(1) path_push_def ends_slash push_separator_def)
  then have out: "path_components ?out = alias_components key 0 (path_components raw)"
    using components_push_shape [OF comps(2) alias_tail [OF comps(3)]] comps(1) keep by simp
  have "path_components (ascii ''private'') = [PcNormal (ascii ''private'')]" by (simp add: path_eval)
  moreover have "?out = [] \<longleftrightarrow> path_components raw = []"
  proof
    assume "?out = []"
    with out have "alias_components key 0 (path_components raw) = []" by (simp add: path_components_def)
    then show "path_components raw = []" by (cases "path_components raw" rule: alias_components.cases [of "(key, 0, _)"]) auto
  qed simp
  ultimately show ?thesis using out by (simp add: private_path_def Let_def)
qed

section \<open>Names\<close>

text \<open>The stand-in of a name is two words of the tables, two digits at most, a dot if the name is hidden and
  the extension of a file; it holds nothing else of the name.\<close>

theorem private_leaf_shape:
  "\<exists>hidden a n digits ext. private_leaf key raw is_dir = hidden @ ascii a @ 0x2D # ascii n @ digits @ ext \<and>
     a \<in> set ADJECTIVES \<and> n \<in> set NOUNS \<and>
     hidden = (if take 1 raw = [0x2E] \<and> raw \<noteq> [0x2E] \<and> raw \<noteq> [0x2E, 0x2E] then [0x2E] else []) \<and>
     (digits = [] \<or> (\<exists>d<100. digits = 0x2D # zero_padded 2 d)) \<and>
     ext = (if is_dir then [] else
       case safe_extension (case strip_prefix [0x2E] raw of Some rest \<Rightarrow> rest | None \<Rightarrow> raw) of Some e \<Rightarrow> 0x2E # e | None \<Rightarrow> [])"
proof -
  let ?h = "private_hash key 0x4C454146 (utf8_encode raw)"
  let ?hidden = "if take 1 raw = [0x2E] \<and> raw \<noteq> [0x2E] \<and> raw \<noteq> [0x2E, 0x2E] then [0x2E] else []"
  define visible where "visible = (case strip_prefix [0x2E] raw of Some rest \<Rightarrow> rest | None \<Rightarrow> raw)"
  define extension where "extension = (if \<not> is_dir then safe_extension visible else None)"
  define stem where "stem = (case extension of Some ext \<Rightarrow> take (length visible - (length ext + 1)) visible | None \<Rightarrow> visible)"
  define digits where "digits = (if 24 < length stem then 0x2D # zero_padded 2 (int (unat (drop_bit 16 ?h) mod 100)) else [])"
  define ext where "ext = (case extension of Some e \<Rightarrow> 0x2E # e | None \<Rightarrow> [])"
  obtain a n where w: "a \<in> set ADJECTIVES" "n \<in> set NOUNS" "word_pair ?h = ascii a @ 0x2D # ascii n" by (rule word_pair_shape)
  note fold_defs = visible_def [symmetric] extension_def [symmetric] stem_def [symmetric]
  have "private_leaf key raw is_dir = ?hidden @ word_pair ?h @ digits @ ext"
    unfolding private_leaf_def Let_def fold_defs digits_def ext_def by (cases extension) (simp_all del: One_nat_def take_Suc)
  moreover have "digits = [] \<or> (\<exists>d<100. digits = 0x2D # zero_padded 2 d)" unfolding digits_def by (auto intro!: exI [of _ "int _"])
  moreover have "ext = (if is_dir then [] else case safe_extension visible of Some e \<Rightarrow> 0x2E # e | None \<Rightarrow> [])"
    by (simp add: ext_def extension_def)
  ultimately show ?thesis unfolding w(3) visible_def using w(1,2)
    by (intro exI [of _ ?hidden] exI [of _ a] exI [of _ n] exI [of _ digits] exI [of _ ext]) simp
qed

text \<open>What follows the last dot need not be a known extension.\<close>

lemma surname_kept: "safe_extension (ascii ''invoice.JohnSmith'') = Some (ascii ''JohnSmith'')"
  by (simp add: safe_extension_def COMPOUND_EXTENSIONS_def compound_of_def ends_with_def rsplit_once_dot_def ascii_def
      to_ascii_lowercase_def is_ascii_alphanumeric_def is_ascii_alphabetic_def is_ascii_uppercase_def is_digit_def)

section \<open>Digests\<close>

definition is_hex :: "u32 \<Rightarrow> bool" where
  "is_hex c \<longleftrightarrow> (0x30 \<le> c \<and> c \<le> 0x39) \<or> (0x61 \<le> c \<and> c \<le> 0x66)"

lemma unat_of_nat_u32: "n < 2 ^ 32 \<Longrightarrow> unat (of_nat n :: u32) = n"
  by (simp add: unsigned_of_nat take_bit_nat_eq_self)

lemma hex_digit_hex: "is_hex (hex_digit (w AND 0xF))"
proof -
  define d where "d = w AND 0xF"
  have "d \<le> 0xF" unfolding d_def by (rule word_and_le1)
  then have "unat d \<le> 15" by (simp add: word_le_nat_alt)
  moreover have cast: "0x30 + ucast d = (of_nat (0x30 + unat d) :: u32)" "0x57 + ucast d = (of_nat (0x57 + unat d) :: u32)" by simp_all
  moreover have "d < 10 \<longleftrightarrow> unat d < 10" by (simp add: word_less_nat_alt)
  ultimately have "unat (hex_digit d) = (if unat d < 10 then 0x30 + unat d else 0x57 + unat d)"
    unfolding hex_digit_def cast by (auto simp only: intro!: unat_of_nat_u32 split: if_splits) simp_all
  then show ?thesis using \<open>unat d \<le> 15\<close> by (simp add: is_hex_def word_le_nat_alt d_def split: if_splits)
qed

lemma hex16_hex: "list_all is_hex (hex16 w)"
  by (simp add: hex16_def list_all_iff hex_digit_hex)

lemma digest_loop_spec:
  "list_all is_hex result \<Longrightarrow> width \<le> length (digest_loop key raw width result counter) \<and>
    list_all is_hex (digest_loop key raw width result counter)"
proof (induction key raw width result counter rule: digest_loop.induct)
  case (1 key raw width result counter)
  then show ?case by (subst (1 2) digest_loop.simps) (simp add: hex16_hex)
qed

text \<open>The stand-in of a digest has exactly the asked width and consists of hexadecimal digits.\<close>

theorem private_digest_width: "length (private_digest key raw width) = width \<and> list_all is_hex (private_digest key raw width)"
  using digest_loop_spec [of "[]" width key "utf8_encode raw" 0] by (auto simp: private_digest_def list_all_iff dest: in_set_takeD)

section \<open>Numbers\<close>

lemma ilog10_bounds: "0 < n \<Longrightarrow> 10 ^ ilog10 n \<le> n \<and> n < 10 * 10 ^ ilog10 n"
proof (induction n rule: ilog10.induct)
  case (1 n)
  show ?case
  proof (cases "n < 10")
    case True
    then show ?thesis using 1 by (subst (1 2) ilog10.simps) simp
  next
    case False
    then have "10 ^ ilog10 (n div 10) \<le> n div 10 \<and> n div 10 < 10 * 10 ^ ilog10 (n div 10)" using 1 by simp
    then show ?thesis using False by (subst (1 2) ilog10.simps) (simp, linarith)
  qed
qed

lemma ilog10_unique: "10 ^ k \<le> n \<Longrightarrow> n < 10 * 10 ^ k \<Longrightarrow> ilog10 n = k"
proof (induction k arbitrary: n)
  case 0
  then show ?case by (subst ilog10.simps) simp
next
  case (Suc k)
  then have "n div 10 < 10 * 10 ^ k" "10 ^ k \<le> n div 10" by simp_all
  from Suc.IH [OF this(2,1)] have "ilog10 (n div 10) = k" .
  moreover have "(1::nat) \<le> 10 ^ k" by simp
  then have "10 \<le> n" using Suc.prems(1) unfolding power_Suc by linarith
  ultimately show ?case by (subst ilog10.simps) simp
qed

lemma unat_cap: "unat (u64_cap n) = min n (2 ^ 64 - 1)"
  by (auto simp: u64_cap_def unsigned_minus_1_eq_mask mask_eq_exp_minus_1 unsigned_of_nat take_bit_nat_eq_self)

lemma scaled_small:
  assumes "k \<le> 17" "10 \<le> f" "f \<le> 99" shows "ilog10 (min (10 ^ k * f) (2 ^ 64 - 1) div 10) = k"
proof -
  have "10 ^ k * f \<le> 10 ^ 17 * 99" using assms by (intro mult_mono power_increasing) simp_all
  then have eq: "min (10 ^ k * f) (2 ^ 64 - 1) = 10 ^ k * f" by simp
  have "(0::nat) < 10 ^ k" "10 ^ k * 10 \<le> 10 ^ k * f" "10 ^ k * f \<le> 10 ^ k * 99" using assms by simp_all
  then have "10 ^ k \<le> 10 ^ k * f div 10" "10 ^ k * f div 10 < 10 * 10 ^ k" by linarith+
  then show ?thesis unfolding eq by (rule ilog10_unique)
qed

lemma scaled_large:
  assumes "18 \<le> k" "10 \<le> f" shows "ilog10 (min (10 ^ k * f) (2 ^ 64 - 1) div 10) = 18"
proof -
  have "(10::nat) ^ 18 * 10 \<le> 10 ^ k * f" using assms by (intro mult_mono power_increasing) simp_all
  then have "(10::nat) ^ 18 * 10 \<le> min (10 ^ k * f) (2 ^ 64 - 1)" by simp
  moreover define p where "p = min (10 ^ k * f) (2 ^ 64 - 1)"
  moreover have "p \<le> 18446744073709551615" by (simp add: p_def)
  ultimately have "10 ^ 18 \<le> p div 10" "p div 10 < 10 * 10 ^ 18" by simp_all
  then show ?thesis unfolding p_def by (rule ilog10_unique)
qed

lemma private_bytes_product:
  assumes "raw \<noteq> 0"
  obtains f where "10 \<le> f" "f \<le> 99"
    "unat (private_bytes key identity raw) = min (10 ^ ilog10 (unat raw) * f) (2 ^ 64 - 1) div 10"
proof -
  let ?k = "ilog10 (unat raw)" and ?h = "private_hash key identity (le_bytes 8 raw)"
  define f where "f = unat (10 + ?h mod 90)"
  have mod: "unat (?h mod 90) < 90" by (simp add: unat_mod)
  then have "f = 10 + unat (?h mod 90)" unfolding f_def by (subst unat_add_lem [THEN iffD1]) simp_all
  with mod have f: "10 \<le> f" "f \<le> 99" by simp_all
  have "0 < unat raw" using assms by (simp add: unat_gt_0)
  moreover have "unat raw < 2 ^ 64" using unsigned_less [of raw] by (simp only: len_of_numeral_defs) simp
  ultimately have "10 ^ ?k < (2::nat) ^ 64" using ilog10_bounds [of "unat raw"] by linarith
  then have "unat (private_bytes key identity raw) = min (10 ^ ?k * f) (2 ^ 64 - 1) div 10"
    using assms by (simp add: private_bytes_def Let_def unat_div unat_cap f_def)
  with f show ?thesis by (rule that)
qed

text \<open>The stand-in of a size is zero only for zero and has as many decimal digits as the size, up to 19: the
  sizes from 10^19 on are shown one digit short, since the product saturates.\<close>

theorem private_bytes_magnitude:
  "ilog10 (unat (private_bytes key identity raw)) = min 18 (ilog10 (unat raw)) \<and> (private_bytes key identity raw = 0 \<longleftrightarrow> raw = 0)"
proof (cases "raw = 0")
  case True
  then show ?thesis by (simp add: private_bytes_def) (simp add: ilog10.simps)
next
  case False
  let ?k = "ilog10 (unat raw)"
  obtain f where f: "10 \<le> f" "f \<le> 99" and bytes: "unat (private_bytes key identity raw) = min (10 ^ ?k * f) (2 ^ 64 - 1) div 10"
    using private_bytes_product [OF False] .
  have "ilog10 (unat (private_bytes key identity raw)) = min 18 ?k"
    unfolding bytes using scaled_small [OF _ f] scaled_large [OF _ f(1)] by (cases "?k \<le> 17") simp_all
  moreover have "private_bytes key identity raw \<noteq> 0"
  proof -
    have "(1::nat) * 10 \<le> 10 ^ ?k * f" using f by (intro mult_mono) simp_all
    then have "1 \<le> min (10 ^ ?k * f) (2 ^ 64 - 1) div 10" by simp
    then have "unat (private_bytes key identity raw) \<noteq> 0" unfolding bytes by linarith
    then show ?thesis by auto
  qed
  ultimately show ?thesis using False by simp
qed

text \<open>A stand-in time lies between an hour and 540 days and an hour before now, and a time before 1970 is shown as it is.\<close>

lemma private_timestamp_range:
  assumes "0 < raw" "- (2 ^ 62) \<le> now" "now < 2 ^ 63"
  shows "now - (540 * 86400 + 3600) < private_timestamp key identity raw now" "private_timestamp key identity raw now \<le> now - 3600"
proof -
  define h where "h = private_hash key (identity XOR 0x54494D45) (le_bytes 8 (word_of_int raw :: u64))"
  have mod: "uint (h mod 46656000) = uint h mod 46656000" by (simp add: uint_mod)
  then have "uint (3600 + h mod 46656000) = 3600 + uint h mod 46656000" by (subst uint_add_lem [THEN iffD1]) simp_all
  moreover from this have "sint (3600 + h mod 46656000) = uint (3600 + h mod 46656000)"
    unfolding sint_uint by (intro signed_take_bit_int_eq_self) simp_all
  moreover have "0 \<le> uint h mod 46656000" "uint h mod 46656000 < 46656000" by simp_all
  moreover have "private_timestamp key identity raw now = i64_saturating_sub now (sint (3600 + h mod 46656000))"
    using assms(1) by (simp add: private_timestamp_def h_def Let_def)
  ultimately show "now - (540 * 86400 + 3600) < private_timestamp key identity raw now" "private_timestamp key identity raw now \<le> now - 3600"
    using assms(2,3) by (simp_all add: i64_saturating_sub_def)
qed

end
