(* ===== verification/ChecksumManifest.thy ===== *)
theory ChecksumManifest
  imports MagicText NodeStore
begin

text \<open>
  \<open>ferail-fs-native\<close>: \<open>verify.rs\<close>, the checksum manifests (SFV, GNU and BSD lines), the paths they may
  name, verification and generation.  The digests, the opening of a file below a folder, the check that a
  path still names the open file and the cancellation flag are parameters; the paths are those of Unix.
\<close>

section \<open>Algorithms and entries\<close>

datatype digest_algorithm = DaCrc32 | DaMd5 | DaSha1 | DaSha224 | DaSha256 | DaSha384 | DaSha512

fun digest_label :: "digest_algorithm \<Rightarrow> string" where
  "digest_label DaCrc32 = ''CRC32''"
| "digest_label DaMd5 = ''MD5''"
| "digest_label DaSha1 = ''SHA-1''"
| "digest_label DaSha224 = ''SHA-224''"
| "digest_label DaSha256 = ''SHA-256''"
| "digest_label DaSha384 = ''SHA-384''"
| "digest_label DaSha512 = ''SHA-512''"

definition digest_is_legacy :: "digest_algorithm \<Rightarrow> bool" where
  "digest_is_legacy a \<longleftrightarrow> a \<in> {DaCrc32, DaMd5, DaSha1}"

definition from_hex_len :: "nat \<Rightarrow> digest_algorithm option" where
  "from_hex_len n =
     (if n = 8 then Some DaCrc32 else if n = 32 then Some DaMd5 else if n = 40 then Some DaSha1
      else if n = 56 then Some DaSha224 else if n = 64 then Some DaSha256 else if n = 96 then Some DaSha384
      else if n = 128 then Some DaSha512 else None)"

datatype manifest_format = MfSfv | MfGnu | MfBsd

record manifest_entry =
  me_name :: rust_string
  me_expected :: rust_string
  me_algorithm :: digest_algorithm
  me_line :: nat

record manifest =
  mf_source :: rust_string
  mf_format :: manifest_format
  mf_entries :: "manifest_entry list"

datatype manifest_error = MeNotText | MeEmpty | MeMalformed nat string | MeMixedAlgorithms

definition manifest_error_text :: "manifest_error \<Rightarrow> rust_string" where
  "manifest_error_text e =
     (case e of
        MeNotText \<Rightarrow> ascii ''manifest is not decodable text''
      | MeEmpty \<Rightarrow> ascii ''manifest has no checksum entries''
      | MeMalformed line reason \<Rightarrow> ascii ''line '' @ decimal line @ ascii '': '' @ ascii reason
      | MeMixedAlgorithms \<Rightarrow> ascii ''manifest mixes checksum algorithms'')"

text \<open>\<open>Path::extension\<close>: what follows the last dot of the file name, unless the name starts there.\<close>

definition path_extension :: "rust_string \<Rightarrow> rust_string option" where
  "path_extension path =
     (case path_file_name (path_components path) of
        None \<Rightarrow> None
      | Some name \<Rightarrow>
          (case rsplit_once_dot name of
             None \<Rightarrow> None
           | Some (stem, ext) \<Rightarrow> if stem = [] then None else Some ext))"

definition manifest_extensions :: "string list" where
  "manifest_extensions = [''sfv'', ''md5'', ''sha1'', ''sha224'', ''sha256'', ''sha384'', ''sha512'']"

definition manifest_whole_names :: "string list" where
  "manifest_whole_names = [''md5sums'', ''sha1sums'', ''sha224sums'', ''sha256sums'', ''sha384sums'', ''sha512sums'']"

definition is_manifest_file_name :: "rust_string \<Rightarrow> bool" where
  "is_manifest_file_name name \<longleftrightarrow>
     (case path_extension name of
        Some ext \<Rightarrow> list_ex (\<lambda>known. eq_ignore_ascii_case ext (ascii known)) manifest_extensions
      | None \<Rightarrow> False) \<or>
     list_ex (\<lambda>known. eq_ignore_ascii_case name (ascii known)) manifest_whole_names"

section \<open>Lines\<close>

text \<open>Lengths are those of the bytes; positions count characters, since they are only compared.\<close>

definition parse_sfv_entry :: "nat \<Rightarrow> rust_string \<Rightarrow> (manifest_error, manifest_entry) outcome" where
  "parse_sfv_entry line text =
     (let text = trim_end_by is_whitespace text; last_word = rev (takeWhile (\<lambda>c. \<not> is_whitespace c) (rev text)) in
      if length last_word = length text then Err (MeMalformed line ''expected filename and CRC32'')
      else
        let split = length text - length last_word - 1;
            name = trim_end_by is_whitespace (take split text);
            expected = trim (drop split text) in
        if name = [] \<or> utf8_length expected \<noteq> 8 \<or> \<not> list_all is_ascii_hexdigit expected
        then Err (MeMalformed line ''expected filename followed by eight hexadecimal CRC32 digits'')
        else Ok \<lparr>me_name = name, me_expected = ascii_lower expected, me_algorithm = DaCrc32, me_line = line\<rparr>)"

fun unescape_gnu_name :: "rust_string \<Rightarrow> nat \<Rightarrow> (manifest_error, rust_string) outcome" where
  "unescape_gnu_name [] line = Ok []"
| "unescape_gnu_name (c # s) line =
     (if c \<noteq> 0x5C then obind (unescape_gnu_name s line) (\<lambda>out. Ok (c # out))
      else
        (case s of
           [] \<Rightarrow> Err (MeMalformed line ''invalid GNU filename escape'')
         | d # s \<Rightarrow>
             if d = 0x5C then obind (unescape_gnu_name s line) (\<lambda>out. Ok (0x5C # out))
             else if d = 0x6E then obind (unescape_gnu_name s line) (\<lambda>out. Ok (0x0A # out))
             else if d = 0x72 then obind (unescape_gnu_name s line) (\<lambda>out. Ok (0x0D # out))
             else Err (MeMalformed line ''invalid GNU filename escape'')))"

definition parse_gnu_entry :: "nat \<Rightarrow> rust_string \<Rightarrow> (manifest_error, manifest_entry) outcome" where
  "parse_gnu_entry line text =
     (let escaped = (strip_prefix [0x5C] text \<noteq> None); text = (if escaped then tl text else text) in
      case str_find [0x20] text of
        None \<Rightarrow> Err (MeMalformed line ''expected digest, mode marker and filename'')
      | Some digest_end \<Rightarrow>
          (let expected = take digest_end text in
           case from_hex_len (utf8_length expected) of
             None \<Rightarrow> Err (MeMalformed line ''unsupported digest length'')
           | Some algorithm \<Rightarrow>
               if \<not> list_all is_ascii_hexdigit expected then Err (MeMalformed line ''digest contains a non-hexadecimal character'')
               else
                 (case drop (digest_end + 1) text of
                    [] \<Rightarrow> Err (MeMalformed line ''missing mode marker and filename'')
                  | mode # raw_name \<Rightarrow>
                      if (mode \<noteq> 0x20 \<and> mode \<noteq> 0x2A) \<or> raw_name = []
                      then Err (MeMalformed line ''mode marker must be a space or an asterisk'')
                      else
                        obind (if escaped then unescape_gnu_name raw_name line else Ok raw_name) (\<lambda>name.
                        Ok \<lparr>me_name = name, me_expected = ascii_lower expected, me_algorithm = algorithm, me_line = line\<rparr>))))"

definition without_dashes :: "rust_string \<Rightarrow> rust_string" where
  "without_dashes s = ascii_upper (filter (\<lambda>c. c \<noteq> 0x2D) s)"

definition parse_bsd_entry :: "nat \<Rightarrow> rust_string \<Rightarrow> (manifest_error, manifest_entry) outcome" where
  "parse_bsd_entry line text =
     (case (str_find (ascii '' ('') text, str_rfind (ascii '') = '') text) of
        (Some opening, Some closing) \<Rightarrow>
          if closing \<le> opening + 2 then Err (MeMalformed line ''filename is empty'')
          else
            (let expected = trim (drop (closing + 4) text) in
             case from_hex_len (utf8_length expected) of
               None \<Rightarrow> Err (MeMalformed line ''unsupported digest length'')
             | Some algorithm \<Rightarrow>
                 if without_dashes (trim (take opening text)) \<noteq> without_dashes (ascii (digest_label algorithm)) \<or>
                    \<not> list_all is_ascii_hexdigit expected
                 then Err (MeMalformed line ''algorithm and digest do not agree'')
                 else Ok \<lparr>me_name = drop (opening + 2) (take closing text), me_expected = ascii_lower expected,
                   me_algorithm = algorithm, me_line = line\<rparr>)
      | _ \<Rightarrow> Err (MeMalformed line ''expected ALGORITHM (filename) = digest''))"

section \<open>The manifest\<close>

definition numbered_lines :: "rust_string \<Rightarrow> (nat \<times> rust_string) list" where
  "numbered_lines text =
     map (\<lambda>(i, line). (i + 1, trim_end_by (\<lambda>c. c = 0x0D) line)) (enumerate 0 (text_lines text))"

definition is_comment :: "u32 list \<Rightarrow> rust_string \<Rightarrow> bool" where
  "is_comment marks line \<longleftrightarrow> (case trim_start line of [] \<Rightarrow> False | c # _ \<Rightarrow> c \<in> set marks)"

definition detect_manifest_format :: "rust_string \<Rightarrow> (manifest_error, manifest_format) outcome" where
  "detect_manifest_format text =
     (case find (\<lambda>(_, line). trim line \<noteq> [] \<and> \<not> is_comment [0x3B, 0x23] line) (numbered_lines text) of
        None \<Rightarrow> Err MeEmpty
      | Some (i, line) \<Rightarrow>
          if is_ok (parse_sfv_entry i line) then Ok MfSfv
          else if contains line (ascii '') = '') then Ok MfBsd
          else Ok MfGnu)"

definition parse_entry :: "manifest_format \<Rightarrow> nat \<Rightarrow> rust_string \<Rightarrow> (manifest_error, manifest_entry) outcome" where
  "parse_entry format line text =
     (case format of
        MfSfv \<Rightarrow> parse_sfv_entry line text
      | MfGnu \<Rightarrow> parse_gnu_entry line text
      | MfBsd \<Rightarrow> parse_bsd_entry line text)"

fun parse_entries :: "manifest_format \<Rightarrow> (nat \<times> rust_string) list \<Rightarrow> (manifest_error, manifest_entry list) outcome" where
  "parse_entries format [] = Ok []"
| "parse_entries format ((i, line) # rest) =
     (if is_comment (if format = MfSfv then [0x3B] else [0x23]) line then parse_entries format rest
      else
        obind (parse_entry format i line) (\<lambda>entry.
        obind (parse_entries format rest) (\<lambda>entries. Ok (entry # entries))))"

definition parse_manifest :: "rust_string \<Rightarrow> u8 list \<Rightarrow> (manifest_error, manifest) outcome" where
  "parse_manifest source bytes =
     obind (ok_or (decode_text bytes) MeNotText) (\<lambda>decoded.
     obind (detect_manifest_format (dt_text decoded)) (\<lambda>format.
     let text = (if format = MfSfv \<and> dt_encoding decoded = EncLatin1 \<and> from_utf8 bytes = None
                 then decode_cp437 bytes else dt_text decoded) in
     obind (parse_entries format (filter (\<lambda>(_, line). trim line \<noteq> []) (numbered_lines text))) (\<lambda>entries.
     if entries = [] then Err MeEmpty
     else if list_ex (\<lambda>entry. me_algorithm entry \<noteq> me_algorithm (hd entries)) entries then Err MeMixedAlgorithms
     else Ok \<lparr>mf_source = source, mf_format = format, mf_entries = entries\<rparr>)))"

section \<open>Safe paths\<close>

fun safe_components :: "path_component list \<Rightarrow> string + rust_string list" where
  "safe_components [] = Inr []"
| "safe_components (PcNormal part # cs) = (case safe_components cs of Inl e \<Rightarrow> Inl e | Inr out \<Rightarrow> Inr (part # out))"
| "safe_components (PcCur # cs) = safe_components cs"
| "safe_components (PcParent # cs) = Inl ''parent traversal''"
| "safe_components (PcRoot # cs) = Inl ''absolute path''"

definition normalized_name :: "rust_string \<Rightarrow> manifest_format \<Rightarrow> rust_string" where
  "normalized_name name format = (if format = MfSfv then map (\<lambda>c. if c = 0x5C then 0x2F else c) name else name)"

text \<open>The result is the list of the pushed names.\<close>

definition safe_manifest_path :: "rust_string \<Rightarrow> manifest_format \<Rightarrow> string + rust_string list" where
  "safe_manifest_path name format =
     (if name = [] \<or> list_ex (\<lambda>c. c = 0 \<or> c = 0x0D \<or> c = 0x0A) name then Inl ''empty or control-character filename''
      else
        let normalized = normalized_name name format in
        if take 1 normalized = [0x2F] \<or> get_at (utf8_encode normalized) 1 = Some 0x3A then Inl ''absolute, UNC or drive path''
        else
          (case safe_components (path_components normalized) of
             Inl e \<Rightarrow> Inl e
           | Inr parts \<Rightarrow> if parts = [] then Inl ''empty filename'' else Inr parts))"

section \<open>Verification\<close>

datatype open_error = OeMissing | OeUnsafe string | OeIo rust_string

datatype entry_outcome =
    EoOk | EoMismatch rust_string | EoMissing | EoUnreadable rust_string | EoUnsafePath string | EoUnavailablePlaceholder
  | EoChangedWhileReading | EoCancelled

record verify_report =
  vr_outcomes :: "(manifest_entry \<times> entry_outcome) list"
  vr_cancelled :: bool
  vr_format :: "manifest_format option"

text \<open>
  What the code asks of the system: the canonical folder of the manifest, whether a file is a cloud placeholder,
  opening a file below the folder, its digest (\<open>None\<close> when cancelled), whether the path still names the open
  file, and the cancellation flag at each poll of the loop.
\<close>

record 'f verify_env =
  ve_root :: "rust_string + rust_string"
  ve_placeholder :: "rust_string list \<Rightarrow> bool"
  ve_open :: "rust_string list \<Rightarrow> open_error + 'f"
  ve_hash :: "'f \<Rightarrow> digest_algorithm \<Rightarrow> rust_string + rust_string option"
  ve_unchanged :: "rust_string list \<Rightarrow> 'f \<Rightarrow> bool"
  ve_cancel :: "nat \<Rightarrow> bool"

definition verify_entry :: "'f verify_env \<Rightarrow> manifest_format \<Rightarrow> manifest_entry \<Rightarrow> entry_outcome" where
  "verify_entry env format entry =
     (case safe_manifest_path (me_name entry) format of
        Inl reason \<Rightarrow> EoUnsafePath reason
      | Inr relative \<Rightarrow>
          if ve_placeholder env relative then EoUnavailablePlaceholder
          else
            (case ve_open env relative of
               Inl OeMissing \<Rightarrow> EoMissing
             | Inl (OeUnsafe reason) \<Rightarrow> EoUnsafePath reason
             | Inl (OeIo error) \<Rightarrow> EoUnreadable error
             | Inr file \<Rightarrow>
                 (case ve_hash env file (me_algorithm entry) of
                    Inr None \<Rightarrow> EoCancelled
                  | Inl error \<Rightarrow> EoUnreadable error
                  | Inr (Some actual) \<Rightarrow>
                      if \<not> ve_unchanged env relative file then EoChangedWhileReading
                      else if eq_ignore_ascii_case actual (me_expected entry) then EoOk
                      else EoMismatch actual)))"

fun verify_loop :: "'f verify_env \<Rightarrow> manifest_format \<Rightarrow> nat \<Rightarrow> manifest_entry list \<Rightarrow> (manifest_entry \<times> entry_outcome) list \<times> bool" where
  "verify_loop env format k [] = ([], False)"
| "verify_loop env format k (entry # entries) =
     (if ve_cancel env k then ([], True)
      else
        let result = verify_entry env format entry in
        if result = EoCancelled then ([(entry, result)], True)
        else case verify_loop env format (Suc k) entries of (outcomes, cancelled) \<Rightarrow> ((entry, result) # outcomes, cancelled))"

definition verify_manifest :: "'f verify_env \<Rightarrow> manifest \<Rightarrow> verify_report" where
  "verify_manifest env m =
     (if ve_cancel env 0 then \<lparr>vr_outcomes = [], vr_cancelled = True, vr_format = Some (mf_format m)\<rparr>
      else
        (case ve_root env of
           Inr root \<Rightarrow>
             (case verify_loop env (mf_format m) 1 (mf_entries m) of (outcomes, cancelled) \<Rightarrow>
                \<lparr>vr_outcomes = outcomes, vr_cancelled = cancelled, vr_format = Some (mf_format m)\<rparr>)
         | Inl error \<Rightarrow>
             \<lparr>vr_outcomes = map (\<lambda>entry. (entry, EoUnreadable error)) (mf_entries m), vr_cancelled = False,
               vr_format = Some (mf_format m)\<rparr>))"

section \<open>Generation\<close>

datatype generate_format = GfSfv | GfSha256Sums

datatype generate_error = GeInvalidInput string | GeOpen open_error | GeIo rust_string

definition escape_gnu_name :: "rust_string \<Rightarrow> rust_string \<times> rust_string" where
  "escape_gnu_name name =
     (if \<not> list_ex (\<lambda>c. c \<in> {0x5C, 0x0D, 0x0A}) name then ([], name)
      else ([0x5C], concat (map (\<lambda>c.
        if c = 0x5C then [0x5C, 0x5C] else if c = 0x0D then [0x5C, 0x72] else if c = 0x0A then [0x5C, 0x6E] else [c]) name)))"

definition generated_line :: "generate_format \<Rightarrow> rust_string \<Rightarrow> rust_string \<Rightarrow> rust_string" where
  "generated_line format name actual =
     (case format of
        GfSfv \<Rightarrow> map (\<lambda>c. if c = 0x2F then 0x5C else c) name @ 0x20 # ascii_upper actual @ [0x0D, 0x0A]
      | GfSha256Sums \<Rightarrow> (case escape_gnu_name name of (marker, encoded) \<Rightarrow> marker @ actual @ ascii '' *'' @ encoded @ [0x0A]))"

text \<open>The loop of \<open>generate_manifest\<close>: the text written so far, the number of entries and whether it was cancelled;
  its writes are taken to succeed.\<close>

fun generate_loop :: "'f verify_env \<Rightarrow> generate_format \<Rightarrow> nat \<Rightarrow> rust_string list \<Rightarrow> rust_string \<Rightarrow> nat \<Rightarrow>
    generate_error + rust_string \<times> nat \<times> bool" where
  "generate_loop env format k [] out written = Inr (out, written, False)"
| "generate_loop env format k (name # names) out written =
     (if ve_cancel env k then Inr (out, written, True)
      else
        (case safe_manifest_path name (if format = GfSfv then MfSfv else MfGnu) of
           Inl reason \<Rightarrow> Inl (GeInvalidInput reason)
         | Inr safe \<Rightarrow>
             if format = GfSfv \<and> list_ex (\<lambda>c. c = 0x0D \<or> c = 0x0A) name
             then Inl (GeInvalidInput ''SFV cannot represent a filename containing CR or LF'')
             else
               (case ve_open env safe of
                  Inl e \<Rightarrow> Inl (GeOpen e)
                | Inr file \<Rightarrow>
                    (case ve_hash env file (case format of GfSfv \<Rightarrow> DaCrc32 | GfSha256Sums \<Rightarrow> DaSha256) of
                       Inl e \<Rightarrow> Inl (GeIo e)
                     | Inr None \<Rightarrow> Inr (out, written, True)
                     | Inr (Some actual) \<Rightarrow>
                         generate_loop env format (Suc k) names (out @ generated_line format name actual) (Suc written)))))"

end
