(* ===== verification/ChecksumManifestProps.thy ===== *)
theory ChecksumManifestProps
  imports ChecksumManifest TextEncodingProps NodeStoreProps
begin

text \<open>
  What \<open>verify.rs\<close> promises: a manifest names only files below its folder, the lines that are written are read
  back, and the files a manifest was generated from are verified by it.
\<close>

section \<open>Safe paths\<close>

lemma safe_components_Inr:
  "safe_components cs = Inr parts \<longleftrightarrow> filter (\<lambda>c. c \<noteq> PcCur) cs = map PcNormal parts"
proof (induction cs arbitrary: parts)
  case (Cons c cs)
  show ?case
  proof (cases c)
    case (PcNormal part)
    have "safe_components (c # cs) = Inr parts \<longleftrightarrow> (\<exists>out. safe_components cs = Inr out \<and> parts = part # out)"
      using PcNormal by (auto split: sum.splits)
    then show ?thesis using PcNormal by (auto simp: Cons.IH Cons_eq_map_conv)
  qed (use Cons.IH in \<open>auto simp: Cons_eq_map_conv\<close>)
qed auto

definition forbidden_char :: "u32 \<Rightarrow> bool" where
  "forbidden_char c \<longleftrightarrow> c = 0 \<or> c = 0x0D \<or> c = 0x0A"

lemma safe_path_Inr:
  "safe_manifest_path name format = Inr parts \<longleftrightarrow>
     name \<noteq> [] \<and> \<not> list_ex forbidden_char name \<and> take 1 (normalized_name name format) \<noteq> [0x2F] \<and>
     get_at (utf8_encode (normalized_name name format)) 1 \<noteq> Some 0x3A \<and>
     parts \<noteq> [] \<and> path_key (normalized_name name format) = map PcNormal parts"
  unfolding safe_manifest_path_def Let_def path_key_def safe_components_Inr [symmetric] forbidden_char_def
  by (auto split: sum.splits if_splits)

lemma key_names:
  assumes "path_key s = map PcNormal parts" shows "\<forall>p\<in>set parts. name_ok p \<and> set p \<subseteq> set s"
proof -
  have "key_ok (map PcNormal parts)" using path_key_ok [of s] assms by simp
  then have "list_all tail_ok (map PcNormal parts)" by (cases parts) (auto simp: key_ok_def)
  moreover have "set p \<subseteq> set s" if "p \<in> set parts" for p
  proof -
    have "PcNormal p \<in> set (path_key s)" using that by (simp add: assms)
    then have "PcNormal p \<in> set (path_components s)" by (simp add: path_key_def)
    then have "p \<in> set (split_on 0x2F s)"
      by (auto simp: path_components_def component_of_def Let_def split: if_splits)
    then show ?thesis using split_on_pieces by fastforce
  qed
  ultimately show ?thesis by (auto simp: list_all_iff tail_ok_def)
qed

text \<open>C36. A path is accepted exactly when it is relative, has no drive, no parent and no NUL, CR or LF and names
  something; what is opened is then its list of plain names, none of them empty, \<open>.\<close>, \<open>..\<close> or with a slash.\<close>

theorem safe_manifest_path_exact:
  "safe_manifest_path name format = Inr parts \<longleftrightarrow>
     name \<noteq> [] \<and> \<not> list_ex forbidden_char name \<and> take 1 (normalized_name name format) \<noteq> [0x2F] \<and>
     get_at (utf8_encode (normalized_name name format)) 1 \<noteq> Some 0x3A \<and> parts \<noteq> [] \<and>
     path_key (normalized_name name format) = map PcNormal parts \<and> list_all name_ok parts"
  using safe_path_Inr [of name format parts] key_names [of "normalized_name name format" parts] by (auto simp: list_all_iff)

section \<open>GNU lines\<close>

definition escape_char :: "u32 \<Rightarrow> rust_string" where
  "escape_char c = (if c = 0x5C then [0x5C, 0x5C] else if c = 0x0D then [0x5C, 0x72] else if c = 0x0A then [0x5C, 0x6E] else [c])"

lemma unescape_escape: "unescape_gnu_name (concat (map escape_char name)) line = Ok name"
  by (induction name) (auto simp: escape_char_def)

lemma escape_eq: "escape_gnu_name name = (if list_ex (\<lambda>c. c = 0x5C \<or> c = 0x0D \<or> c = 0x0A) name then ([0x5C], concat (map escape_char name)) else ([], name))"
  unfolding escape_gnu_name_def escape_char_def by (simp add: list_ex_iff)

definition lower_hex :: "u32 \<Rightarrow> bool" where
  "lower_hex c \<longleftrightarrow> is_digit c \<or> (0x61 \<le> c \<and> c \<le> 0x66)"

lemma lower_hex_facts:
  assumes "lower_hex c"
  shows "is_ascii_hexdigit c" "to_ascii_lowercase c = c" "len_utf8 c = 1" "\<not> is_whitespace c" "c \<notin> {0x20, 0x5C, 0x3B, 0x23, 0x0A, 0x0D, 0x29, 0}"
    "scalar_value c"
  using assms unfolding lower_hex_def is_digit_def is_ascii_hexdigit_def to_ascii_lowercase_def is_ascii_uppercase_def len_utf8_def is_whitespace_def scalar_value_def
  by (auto simp: word_le_nat_alt word_less_nat_alt)

lemma lower_hex_digest:
  assumes "list_all lower_hex d"
  shows "list_all is_ascii_hexdigit d" "ascii_lower d = d" "utf8_length d = length d" "0x20 \<notin> set d"
proof -
  show "list_all is_ascii_hexdigit d" using assms lower_hex_facts(1) by (simp add: list_all_iff)
  show "ascii_lower d = d" using assms lower_hex_facts(2) by (simp add: ascii_lower_def list_all_iff map_idI)
  show "utf8_length d = length d" using assms by (induction d) (simp_all add: lower_hex_facts)
  show "0x20 \<notin> set d" using assms lower_hex_facts(5) [of "0x20"] by (auto simp: list_all_iff)
qed

lemma find_append: "find P (xs @ ys) = (case find P xs of None \<Rightarrow> find P ys | Some x \<Rightarrow> Some x)"
  by (induction xs) simp_all

lemma str_find_char: "a \<notin> set d \<Longrightarrow> str_find [a] (d @ a # s) = Some (length d)"
proof -
  assume a: "a \<notin> set d"
  have "[0..<length (d @ a # s) + 1 - length [a]] = [0..<length d] @ [length d..<length (d @ a # s)]"
    using upt_add_eq_append [of 0 "length d" "Suc (length s)"] by (simp del: upt_Suc)
  also have "[length d..<length (d @ a # s)] = length d # [Suc (length d)..<length (d @ a # s)]" by (rule upt_conv_Cons) simp
  finally have "str_find [a] (d @ a # s) = find (\<lambda>i. take 1 (drop i (d @ a # s)) = [a]) ([0..<length d] @ length d # [Suc (length d)..<length (d @ a # s)])"
    by (simp add: str_find_def)
  moreover have "find (\<lambda>i. take 1 (drop i (d @ a # s)) = [a]) [0..<length d] = None"
  proof -
    have "take 1 (drop i (d @ a # s)) \<noteq> [a]" if "i < length d" for i
      using that a nth_mem [OF that] by (auto simp: take_Suc hd_drop_conv_nth nth_append)
    then show ?thesis by (auto simp: find_None_iff)
  qed
  ultimately show ?thesis by (simp add: find_append)
qed

text \<open>A line that was written for a name is read back.\<close>

lemma gnu_body:
  assumes "str_find [0x20] b = Some 64" "take 64 b = d" "drop (64 + 1) b = 0x2A # raw" "raw \<noteq> []"
    and d: "list_all lower_hex d" "length d = 64" and b: "take 1 b \<noteq> [0x5C]"
  shows "parse_gnu_entry line (if escaped then 0x5C # b else b) =
    obind (if escaped then unescape_gnu_name raw line else Ok raw) (\<lambda>name.
    Ok \<lparr>me_name = name, me_expected = d, me_algorithm = DaSha256, me_line = line\<rparr>)"
proof -
  note d' = lower_hex_digest [OF d(1)]
  have "from_hex_len (utf8_length d) = Some DaSha256" by (simp add: d' d(2) from_hex_len_def)
  moreover have "strip_prefix [0x5C] b = None" "strip_prefix [0x5C] (0x5C # b) = Some b" using b by (simp_all add: strip_prefix_def)
  ultimately show ?thesis using assms(1-4) d' by (cases escaped) (simp_all add: parse_gnu_entry_def)
qed

lemma gnu_line:
  assumes d: "list_all lower_hex d" "length d = 64" and "name \<noteq> []"
  shows "parse_gnu_entry line (fst (escape_gnu_name name) @ d @ ascii '' *'' @ snd (escape_gnu_name name)) =
    Ok \<lparr>me_name = name, me_expected = d, me_algorithm = DaSha256, me_line = line\<rparr>"
proof -
  let ?escaped = "list_ex (\<lambda>c. c = 0x5C \<or> c = 0x0D \<or> c = 0x0A) name"
  let ?raw = "if ?escaped then concat (map escape_char name) else name"
  let ?b = "d @ 0x20 # 0x2A # ?raw"
  obtain c ds where cd: "d = c # ds" using d(2) by (cases d) auto
  have "c \<noteq> 0x5C" using d(1) cd lower_hex_facts(5) [of c] by simp
  then have head: "take 1 ?b \<noteq> [0x5C]" by (simp add: cd)
  have find: "str_find [0x20] ?b = Some 64" using str_find_char [OF lower_hex_digest(4) [OF d(1)], of "0x2A # ?raw"] d(2) by (simp only:)
  have raw: "?raw \<noteq> []" using \<open>name \<noteq> []\<close> by (cases name) (auto simp: escape_char_def)
  have "take 64 ?b = d" "drop (64 + 1) ?b = 0x2A # ?raw" using d(2) by simp_all
  from gnu_body [OF find this raw d head, of line ?escaped]
  show ?thesis by (cases ?escaped) (simp_all add: escape_eq unescape_escape ascii_def)
qed

section \<open>The text of a manifest\<close>

definition gnu_text_line :: "rust_string \<Rightarrow> rust_string \<Rightarrow> rust_string" where
  "gnu_text_line name d = fst (escape_gnu_name name) @ d @ ascii '' *'' @ snd (escape_gnu_name name)"

lemma generated_gnu: "generated_line GfSha256Sums name d = gnu_text_line name d @ [0x0A]"
  by (simp add: generated_line_def gnu_text_line_def split: prod.split)

text \<open>The digests of the files of a run that wrote all of them.\<close>

definition hashed :: "'f verify_env \<Rightarrow> rust_string \<Rightarrow> rust_string \<Rightarrow> bool" where
  "hashed env name d \<longleftrightarrow> (\<exists>safe fl. safe_manifest_path name MfGnu = Inr safe \<and> ve_open env safe = Inr fl \<and>
     ve_hash env fl DaSha256 = Inr (Some d))"

lemma generate_sha256:
  assumes "generate_loop env GfSha256Sums k names out written = Inr (text, n, False)"
  shows "\<exists>ds. list_all2 (hashed env) names ds \<and> text = out @ concat (map2 (\<lambda>name d. gnu_text_line name d @ [0x0A]) names ds) \<and> n = written + length names"
  using assms
proof (induction names arbitrary: k out written)
  case (Cons name names)
  from Cons.prems obtain safe fl d where step: "safe_manifest_path name MfGnu = Inr safe" "ve_open env safe = Inr fl"
    "ve_hash env fl DaSha256 = Inr (Some d)"
    "generate_loop env GfSha256Sums (Suc k) names (out @ generated_line GfSha256Sums name d) (Suc written) = Inr (text, n, False)"
    by (auto split: if_splits sum.splits option.splits)
  from Cons.IH [OF step(4)] obtain ds where "list_all2 (hashed env) names ds"
    "text = (out @ gnu_text_line name d @ [0x0A]) @ concat (map2 (\<lambda>name d. gnu_text_line name d @ [0x0A]) names ds)"
    "n = Suc written + length names" by (auto simp: generated_gnu)
  moreover have "hashed env name d" using step by (auto simp: hashed_def)
  ultimately show ?case by (intro exI [of _ "d # ds"]) simp
qed simp

text \<open>\<open>str::lines\<close> of terminated lines.\<close>

lemma text_lines_terminated:
  assumes "\<forall>l\<in>set ls. 0x0A \<notin> set l \<and> (l = [] \<or> last l \<noteq> 0x0D)"
  shows "text_lines (concat (map (\<lambda>l. l @ [0x0A]) ls)) = ls"
proof -
  have "split_on 0x0A (concat (map (\<lambda>l. l @ [0x0A]) ls)) = ls @ [[]]" using assms
    by (induction ls) (simp_all add: split_on_append)
  moreover have "map strip_cr ls = ls" using assms by (intro map_idI) (auto simp: strip_cr_def)
  ultimately show ?thesis by (simp add: text_lines_def)
qed

lemma escaped_chars: "c \<in> set (snd (escape_gnu_name name)) \<Longrightarrow> c \<in> set name - {0x0D, 0x0A} \<or> c \<in> {0x5C, 0x72, 0x6E}"
  by (auto simp: escape_eq escape_char_def list_ex_iff split: if_splits)

lemma escape_marker: "fst (escape_gnu_name name) = [] \<or> fst (escape_gnu_name name) = [0x5C]"
  by (simp add: escape_eq)

lemma gnu_text_chars:
  assumes "list_all lower_hex d" "c \<in> set (gnu_text_line name d)"
  shows "lower_hex c \<or> c \<in> {0x20, 0x2A, 0x5C, 0x72, 0x6E} \<or> c \<in> set name - {0x0D, 0x0A}"
  using assms escaped_chars [of c name] escape_marker [of name] by (auto simp: gnu_text_line_def ascii_def list_all_iff)

lemma gnu_text_head:
  assumes "list_all lower_hex d" "d \<noteq> []" shows "gnu_text_line name d \<noteq> []" "lower_hex (hd (gnu_text_line name d)) \<or> hd (gnu_text_line name d) = 0x5C"
proof -
  show "gnu_text_line name d \<noteq> []" using assms by (simp add: gnu_text_line_def)
  show "lower_hex (hd (gnu_text_line name d)) \<or> hd (gnu_text_line name d) = 0x5C"
    using assms escape_marker [of name] by (cases d) (auto simp: gnu_text_line_def)
qed

lemma hex_not: "lower_hex c \<Longrightarrow> c \<noteq> 0x0A \<and> c \<noteq> 0x0D \<and> c \<noteq> 0x20 \<and> c \<noteq> 0x3B \<and> c \<noteq> 0x23 \<and> c \<noteq> 0x29 \<and> c \<noteq> 0"
  using lower_hex_facts(5) [of c] by auto

definition digest_ok :: "rust_string \<Rightarrow> bool" where
  "digest_ok d \<longleftrightarrow> length d = 64 \<and> list_all lower_hex d"

lemma gnu_text_facts:
  assumes "digest_ok d"
  shows "0x0A \<notin> set (gnu_text_line name d)" "0x0D \<notin> set (gnu_text_line name d)" "gnu_text_line name d \<noteq> []"
    "trim (gnu_text_line name d) \<noteq> []" "\<not> is_comment [0x3B, 0x23] (gnu_text_line name d)" "\<not> is_comment [0x23] (gnu_text_line name d)"
proof -
  have d: "list_all lower_hex d" "d \<noteq> []" using assms by (auto simp: digest_ok_def)
  show "0x0A \<notin> set (gnu_text_line name d)" "0x0D \<notin> set (gnu_text_line name d)"
    using gnu_text_chars [OF d(1), of _ name] hex_not by fastforce+
  obtain c l where l: "gnu_text_line name d = c # l" "lower_hex c \<or> c = 0x5C"
    using gnu_text_head [OF d, of name] by (cases "gnu_text_line name d") auto
  then have c: "\<not> is_whitespace c" "c \<notin> {0x3B, 0x23}" using lower_hex_facts(4) [of c] hex_not [of c] by (auto simp: is_whitespace_def)
  show "gnu_text_line name d \<noteq> []" using l by simp
  show "trim (gnu_text_line name d) \<noteq> []" using trim_chars [of c "gnu_text_line name d"] c l by auto
  show "\<not> is_comment [0x3B, 0x23] (gnu_text_line name d)" "\<not> is_comment [0x23] (gnu_text_line name d)"
    using c by (simp_all add: is_comment_def trim_start_def l(1))
qed

lemma trim_end_no: "a \<notin> set l \<Longrightarrow> trim_end_by (\<lambda>c. c = a) l = l"
  by (cases "rev l") (auto simp: trim_end_by_def)

definition entry_of :: "nat \<times> rust_string \<times> rust_string \<Rightarrow> manifest_entry" where
  "entry_of x = (case x of (i, name, d) \<Rightarrow> \<lparr>me_name = name, me_expected = d, me_algorithm = DaSha256, me_line = i + 1\<rparr>)"

lemma enumerate_mem: "(i, x) \<in> set (enumerate k xs) \<Longrightarrow> x \<in> set xs"
  by (auto simp: enumerate_eq_zip dest: set_zip_rightD)

lemma enumerate_map: "enumerate k (map f xs) = map (\<lambda>(i, x). (i, f x)) (enumerate k xs)"
  by (induction xs arbitrary: k) simp_all

lemma numbered_gnu:
  assumes "\<forall>(name, d)\<in>set ps. digest_ok d"
  shows "numbered_lines (concat (map (\<lambda>(name, d). gnu_text_line name d @ [0x0A]) ps)) =
    map (\<lambda>(i, name, d). (i + 1, gnu_text_line name d)) (enumerate 0 ps)"
proof -
  define ls where "ls = map (\<lambda>(name, d). gnu_text_line name d) ps"
  have no: "\<forall>l\<in>set ls. 0x0A \<notin> set l \<and> 0x0D \<notin> set l" using assms gnu_text_facts(1,2) by (auto simp: ls_def)
  have "\<forall>l\<in>set ls. 0x0A \<notin> set l \<and> (l = [] \<or> last l \<noteq> 0x0D)"
  proof
    fix l assume "l \<in> set ls"
    from bspec [OF no this] have "0x0A \<notin> set l" "0x0D \<notin> set l" by simp_all
    then show "0x0A \<notin> set l \<and> (l = [] \<or> last l \<noteq> 0x0D)" using last_in_set [of l] by metis
  qed
  from text_lines_terminated [OF this] have lines: "text_lines (concat (map (\<lambda>l. l @ [0x0A]) ls)) = ls" .
  have kept: "trim_end_by (\<lambda>c. c = 0x0D) l = l" if "l \<in> set ls" for l using bspec [OF no that] by (intro trim_end_no) simp
  have joined: "concat (map (\<lambda>(name, d). gnu_text_line name d @ [0x0A]) ps) = concat (map (\<lambda>l. l @ [0x0A]) ls)"
    unfolding ls_def by (induct ps) auto
  have trimmed: "map (\<lambda>(i, line). (i + 1, trim_end_by (\<lambda>c. c = 0x0D) line)) (enumerate 0 ls) = map (\<lambda>(i, line). (i + 1, line)) (enumerate 0 ls)"
  proof (intro map_cong refl)
    fix x assume "x \<in> set (enumerate 0 ls)"
    then have "snd x \<in> set ls" using enumerate_mem [of "fst x" "snd x" 0 ls] by simp
    then show "(case x of (i, line) \<Rightarrow> (i + 1, trim_end_by (\<lambda>c. c = 0x0D) line)) = (case x of (i, line) \<Rightarrow> (i + 1, line))"
      by (simp add: case_prod_beta kept)
  qed
  have "map (\<lambda>(i, line). (i + 1, line)) (enumerate 0 ls) = map (\<lambda>(i, name, d). (i + 1, gnu_text_line name d)) (enumerate 0 ps)"
    unfolding ls_def enumerate_map by (auto split: prod.split)
  then show ?thesis unfolding numbered_lines_def joined lines trimmed .
qed

lemma parse_entries_gnu:
  assumes "\<forall>(name, d)\<in>set ps. digest_ok d \<and> name \<noteq> []"
  shows "parse_entries MfGnu (map (\<lambda>(i, name, d). (i + 1, gnu_text_line name d)) (enumerate k ps)) = Ok (map entry_of (enumerate k ps))"
  using assms
proof (induction ps arbitrary: k)
  case (Cons p ps)
  obtain name d where p: "p = (name, d)" by (cases p)
  with Cons.prems have d: "digest_ok d" "name \<noteq> []" by auto
  then have "parse_entry MfGnu (k + 1) (gnu_text_line name d) = Ok (entry_of (k, name, d))"
    using gnu_line [of d name "k + 1"] by (simp add: parse_entry_def gnu_text_line_def entry_of_def digest_ok_def)
  then show ?case using Cons gnu_text_facts(6) [OF d(1)] by (simp add: p)
qed simp

section \<open>The format is recognized\<close>

text \<open>A line whose name has no white space is neither an SFV line nor a BSD line.\<close>

lemma gnu_split_line:
  assumes "digest_ok d" "list_all (\<lambda>c. \<not> is_whitespace c) name"
  obtains pre rest where "gnu_text_line name d = pre @ 0x20 # 0x2A # rest" "pre \<noteq> []" "lower_hex (last pre)" "0x20 \<notin> set pre"
    "\<forall>c\<in>set rest. \<not> is_whitespace c"
proof
  let ?pre = "fst (escape_gnu_name name) @ d"
  have d: "list_all lower_hex d" "d \<noteq> []" using assms by (auto simp: digest_ok_def)
  show "gnu_text_line name d = ?pre @ 0x20 # 0x2A # snd (escape_gnu_name name)" by (simp add: gnu_text_line_def ascii_def)
  show "?pre \<noteq> []" "lower_hex (last ?pre)" using d by (auto simp: list_all_iff)
  show "0x20 \<notin> set ?pre" using lower_hex_digest(4) [OF d(1)] escape_marker [of name] by auto
  show "\<forall>c\<in>set (snd (escape_gnu_name name)). \<not> is_whitespace c"
  proof
    fix c assume "c \<in> set (snd (escape_gnu_name name))"
    then have "c \<in> set name \<or> c \<in> {0x5C, 0x72, 0x6E}" using escaped_chars by blast
    moreover have "\<not> is_whitespace 0x5C" "\<not> is_whitespace 0x72" "\<not> is_whitespace 0x6E" by (simp_all add: is_whitespace_def)
    ultimately show "\<not> is_whitespace c" using assms(2) by (auto simp: list_all_iff)
  qed
qed

lemma not_sfv:
  assumes "digest_ok d" "list_all (\<lambda>c. \<not> is_whitespace c) name" shows "\<not> is_ok (parse_sfv_entry line (gnu_text_line name d))"
proof -
  obtain pre rest where l: "gnu_text_line name d = pre @ 0x20 # 0x2A # rest" "\<forall>c\<in>set rest. \<not> is_whitespace c"
    using gnu_split_line [OF assms] by metis
  have ws: "is_whitespace 0x20" "\<not> is_whitespace 0x2A" by (simp_all add: is_whitespace_def)
  have "takeWhile (\<lambda>c. \<not> is_whitespace c) (rev (gnu_text_line name d)) = rev (0x2A # rest)"
    using l(2) ws by (simp add: l(1)) (subst takeWhile_append2; simp)
  moreover have "trim_end_by is_whitespace (gnu_text_line name d) = gnu_text_line name d"
    using l(2) ws unfolding l(1) by (cases "rev rest") (auto simp: trim_end_by_def)
  moreover have "0x2A \<in> set (trim (0x20 # 0x2A # rest))" using trim_chars [of "0x2A" "0x20 # 0x2A # rest"] ws by auto
  then have "\<not> list_all is_ascii_hexdigit (trim (0x20 # 0x2A # rest))"
    by (force simp: list_all_iff is_ascii_hexdigit_def is_digit_def)
  ultimately show ?thesis by (simp add: parse_sfv_entry_def l(1) Let_def)
qed

lemma not_bsd:
  assumes "digest_ok d" "list_all (\<lambda>c. \<not> is_whitespace c) name" shows "\<not> contains (gnu_text_line name d) (ascii '') = '')"
proof
  assume "contains (gnu_text_line name d) (ascii '') = '')"
  then obtain a b where ab: "gnu_text_line name d = (a @ [0x29]) @ 0x20 # 0x3D # 0x20 # b" by (auto simp: contains_iff ascii_def)
  obtain pre rest where l: "gnu_text_line name d = pre @ 0x20 # 0x2A # rest" "lower_hex (last pre)" "0x20 \<notin> set pre"
      "\<forall>c\<in>set rest. \<not> is_whitespace c"
    using gnu_split_line [OF assms] by metis
  have "0x20 \<notin> set (0x2A # rest)" using l(4) by (auto simp: is_whitespace_def)
  then have "a @ [0x29] = pre" using ab unfolding l(1) append_Cons_eq_iff [OF l(3)] by (metis append_Cons_eq_iff l(3))
  then show False using l(2) hex_not [of "0x29"] by auto
qed

section \<open>A generated manifest\<close>

lemma parse_generated:
  assumes ps: "\<forall>(name, d)\<in>set ps. digest_ok d \<and> name \<noteq> [] \<and> list_all scalar_value name \<and> 0 \<notin> set name" and "ps \<noteq> []"
    and first: "list_all (\<lambda>c. \<not> is_whitespace c) (fst (hd ps))"
  shows "parse_manifest source (utf8_encode (concat (map (\<lambda>(name, d). gnu_text_line name d @ [0x0A]) ps))) =
    Ok \<lparr>mf_source = source, mf_format = MfGnu, mf_entries = map entry_of (enumerate 0 ps)\<rparr>"
proof -
  let ?text = "concat (map (\<lambda>(name, d). gnu_text_line name d @ [0x0A]) ps)"
  obtain name d rest where p: "ps = (name, d) # rest" using \<open>ps \<noteq> []\<close> by (cases ps) auto
  have d: "digest_ok d" using ps p by simp
  note facts = gnu_text_facts [OF d, of name]
  have lines: "numbered_lines ?text = map (\<lambda>(i, name, d). (i + 1, gnu_text_line name d)) (enumerate 0 ps)"
    using ps by (intro numbered_gnu) auto
  have chars: "scalar_value c \<and> c \<noteq> 0" if "c \<in> set ?text" for c
  proof -
    from that obtain name d where nd: "(name, d) \<in> set ps" "c \<in> set (gnu_text_line name d) \<or> c = 0x0A" by auto
    then have ok: "digest_ok d" "list_all scalar_value name" "0 \<notin> set name" using ps by auto
    from nd(2) gnu_text_chars [of d c name] ok(1) have "lower_hex c \<or> c \<in> {0x20, 0x2A, 0x5C, 0x72, 0x6E, 0x0A} \<or> c \<in> set name"
      by (auto simp: digest_ok_def)
    then show ?thesis using lower_hex_facts(6) hex_not [of c] ok(2,3) by (auto simp: list_all_iff scalar_value_def)
  qed
  have head: "take 1 ?text \<noteq> [0xFEFF]"
  proof -
    have "lower_hex (hd (gnu_text_line name d)) \<or> hd (gnu_text_line name d) = 0x5C"
      using d by (intro gnu_text_head) (auto simp: digest_ok_def)
    moreover have "\<not> lower_hex 0xFEFF" by (simp add: lower_hex_def is_digit_def)
    ultimately show ?thesis using facts(3) by (cases "gnu_text_line name d") (auto simp: p)
  qed
  have decoded: "decode_text (utf8_encode ?text) = Some \<lparr>dt_text = ?text, dt_encoding = EncUtf8\<rparr>"
    using chars head by (intro decode_utf8(2)) (auto simp: list_all_iff)
  have "detect_manifest_format ?text = Ok MfGnu"
    unfolding detect_manifest_format_def lines using facts not_sfv [OF d, of name 1] not_bsd [OF d, of name] first by (simp add: p)
  moreover have "filter (\<lambda>(_, line). trim line \<noteq> []) (map (\<lambda>(i, name, d). (i + 1, gnu_text_line name d)) (enumerate 0 ps)) =
      map (\<lambda>(i, name, d). (i + 1, gnu_text_line name d)) (enumerate 0 ps)"
  proof (intro filter_True ballI)
    fix x assume "x \<in> set (map (\<lambda>(i, name, d). (i + 1, gnu_text_line name d)) (enumerate 0 ps))"
    then obtain i name d where "(i, name, d) \<in> set (enumerate 0 ps)" "x = (i + 1, gnu_text_line name d)" by auto
    moreover from enumerate_mem [OF this(1)] have "digest_ok d" using ps by auto
    ultimately show "case x of (_, line) \<Rightarrow> trim line \<noteq> []" using gnu_text_facts(4) by simp
  qed
  moreover have "parse_entries MfGnu (map (\<lambda>(i, name, d). (i + 1, gnu_text_line name d)) (enumerate 0 ps)) = Ok (map entry_of (enumerate 0 ps))"
    using ps by (intro parse_entries_gnu) auto
  moreover have "map entry_of (enumerate 0 ps) \<noteq> []" "\<not> list_ex (\<lambda>e. me_algorithm e \<noteq> me_algorithm (hd (map entry_of (enumerate 0 ps)))) (map entry_of (enumerate 0 ps))"
    by (auto simp: p entry_of_def list_ex_iff split: prod.splits)
  ultimately show ?thesis using decoded unfolding parse_manifest_def by (simp add: lines ok_or_def)
qed

lemma verify_loop_ok:
  assumes "ve_cancel env = (\<lambda>_. False)" "\<forall>e\<in>set es. verify_entry env format e = EoOk"
  shows "verify_loop env format k es = (map (\<lambda>e. (e, EoOk)) es, False)"
  using assms(2) by (induction es arbitrary: k) (simp_all add: assms(1))

lemma verify_hashed:
  assumes "hashed env name d" "ve_placeholder env = (\<lambda>_. False)" "\<forall>path fl. ve_unchanged env path fl"
  shows "verify_entry env MfGnu (entry_of (i, name, d)) = EoOk"
  using assms by (auto simp: hashed_def verify_entry_def entry_of_def eq_ignore_ascii_case_def)

lemma hashed_name: "hashed env name d \<Longrightarrow> name \<noteq> [] \<and> 0 \<notin> set name"
  by (auto simp: hashed_def safe_path_Inr forbidden_char_def list_ex_iff)

text \<open>C35. Generate, read back, verify: a SHA-256 manifest that was written for a list of files, the first of them
  without white space in its name, is read back with exactly these files in their order, and as long as no file
  changes every one of them is verified.\<close>

theorem generated_manifest_verifies:
  assumes gen: "generate_loop env GfSha256Sums k names [] 0 = Inr (text, n, False)" and "names \<noteq> []"
    and digests: "\<forall>fl d. ve_hash env fl DaSha256 = Inr (Some d) \<longrightarrow> digest_ok d"
    and scalars: "list_all (list_all scalar_value) names" and first: "list_all (\<lambda>c. \<not> is_whitespace c) (hd names)"
    and still: "ve_cancel env = (\<lambda>_. False)" "ve_placeholder env = (\<lambda>_. False)" "\<forall>path fl. ve_unchanged env path fl"
    and root: "ve_root env = Inr folder"
  shows "\<exists>m. parse_manifest source (utf8_encode text) = Ok m \<and> map me_name (mf_entries m) = names \<and>
    verify_manifest env m = \<lparr>vr_outcomes = map (\<lambda>e. (e, EoOk)) (mf_entries m), vr_cancelled = False, vr_format = Some MfGnu\<rparr>"
proof -
  from generate_sha256 [OF gen] obtain ds where ds: "list_all2 (hashed env) names ds"
    and written: "text = concat (map2 (\<lambda>name d. gnu_text_line name d @ [0x0A]) names ds)" by auto
  let ?ps = "zip names ds"
  have len: "length names = length ds" using ds by (rule list_all2_lengthD)
  have hashed: "hashed env name d" if "(name, d) \<in> set ?ps" for name d using ds that by (auto simp: list_all2_iff)
  have ps: "\<forall>(name, d)\<in>set ?ps. digest_ok d \<and> name \<noteq> [] \<and> list_all scalar_value name \<and> 0 \<notin> set name"
  proof (clarify)
    fix name d assume nd: "(name, d) \<in> set ?ps"
    from hashed [OF this] have "digest_ok d" using digests by (auto simp: hashed_def)
    moreover have "list_all scalar_value name" using scalars set_zip_leftD [OF nd] by (simp add: list_all_iff)
    ultimately show "digest_ok d \<and> name \<noteq> [] \<and> list_all scalar_value name \<and> 0 \<notin> set name" using hashed_name [OF hashed [OF nd]] by simp
  qed
  have ne: "?ps \<noteq> []" and hd: "fst (hd ?ps) = hd names" using \<open>names \<noteq> []\<close> len by (cases names; cases ds; simp)+
  let ?m = "\<lparr>mf_source = source, mf_format = MfGnu, mf_entries = map entry_of (enumerate 0 ?ps)\<rparr>"
  have "parse_manifest source (utf8_encode text) = Ok ?m"
    unfolding written using parse_generated [OF ps ne, of source] first hd by (simp add: case_prod_beta')
  moreover have "map me_name (mf_entries ?m) = names"
  proof -
    have "map me_name (map entry_of xs) = map fst (map snd xs)" for xs by (simp add: entry_of_def case_prod_beta)
    then show ?thesis using len by (simp del: map_map)
  qed
  moreover have "verify_manifest env ?m = \<lparr>vr_outcomes = map (\<lambda>e. (e, EoOk)) (mf_entries ?m), vr_cancelled = False, vr_format = Some MfGnu\<rparr>"
  proof -
    have "\<forall>e\<in>set (mf_entries ?m). verify_entry env MfGnu e = EoOk"
    proof
      fix e assume "e \<in> set (mf_entries ?m)"
      then obtain x where x: "x \<in> set (enumerate 0 ?ps)" "e = entry_of x" by auto
      obtain i name d where ind: "x = (i, name, d)" by (cases x)
      with x(1) have "(name, d) \<in> set ?ps" using enumerate_mem by simp
      from verify_hashed [OF hashed [OF this] still(2,3)] show "verify_entry env MfGnu e = EoOk" by (simp add: x ind)
    qed
    from verify_loop_ok [OF still(1) this] show ?thesis using still(1) root by (simp add: verify_manifest_def)
  qed
  ultimately show ?thesis by blast
qed

text \<open>A folder whose files are all digested to zeros.\<close>

definition zero_digest :: rust_string where
  "zero_digest = replicate 64 0x30"

definition zero_env :: "unit verify_env" where
  "zero_env = \<lparr>ve_root = Inr (ascii ''/d''), ve_placeholder = (\<lambda>_. False), ve_open = (\<lambda>_. Inr ()),
     ve_hash = (\<lambda>_ _. Inr (Some zero_digest)), ve_unchanged = (\<lambda>_ _. True), ve_cancel = (\<lambda>_. False)\<rparr>"

lemma zero_digest_ok: "digest_ok zero_digest"
  by (simp add: zero_digest_def digest_ok_def list_all_iff lower_hex_def is_digit_def)

lemma safe_plain: "safe_manifest_path (ascii ''a'') MfGnu = Inr [ascii ''a'']"
  by (simp add: safe_path_Inr normalized_name_def forbidden_char_def path_eval utf8_encode_def utf8_char_def utf8_codes_def get_at_def)

lemma generated_manifest_verifies_witness:
  "\<exists>out m. generate_loop zero_env GfSha256Sums 0 [ascii ''a''] [] 0 = Inr (out, 1, False) \<and>
     parse_manifest [] (utf8_encode out) = Ok m \<and> map me_name (mf_entries m) = [ascii ''a''] \<and> map snd (vr_outcomes (verify_manifest zero_env m)) = [EoOk]"
proof -
  obtain out where gen: "generate_loop zero_env GfSha256Sums 0 [ascii ''a''] [] 0 = Inr (out, 1, False)"
    by (simp add: zero_env_def safe_plain)
  have a: "ascii ''a'' = [0x61]" by (simp add: ascii_def)
  from generated_manifest_verifies [OF gen, of "ascii ''/d''" "[]"] obtain m where
    "parse_manifest [] (utf8_encode out) = Ok m" "map me_name (mf_entries m) = [ascii ''a'']"
    "vr_outcomes (verify_manifest zero_env m) = map (\<lambda>e. (e, EoOk)) (mf_entries m)"
    by (force simp: zero_env_def zero_digest_ok a scalar_value_def is_whitespace_def)
  moreover from this obtain e where "mf_entries m = [e]" by (auto simp: map_eq_Cons_conv)
  ultimately show ?thesis using gen by (intro exI [of _ out] exI [of _ m]) (simp del: generate_loop.simps)
qed

text \<open>
  White space in the first name is not harmless: a file whose name ends with eight hexadecimal digits after
  a space makes its own manifest an SFV file, which then names a file that does not exist.
\<close>

lemma hex_name_misread:
  "parse_sfv_entry 1 (gnu_text_line (ascii ''a deadbeef'') zero_digest) =
     Ok \<lparr>me_name = zero_digest @ ascii '' *a'', me_expected = ascii ''deadbeef'', me_algorithm = DaCrc32, me_line = 1\<rparr>"
proof -
  have line: "gnu_text_line (ascii ''a deadbeef'') zero_digest = zero_digest @ ascii '' *a'' @ 0x20 # ascii ''deadbeef''"
    by (simp add: gnu_text_line_def escape_eq ascii_def)
  have words: "takeWhile (\<lambda>c. \<not> is_whitespace c) (rev (ascii ''deadbeef'') @ 0x20 # r) = rev (ascii ''deadbeef'')"
    "trim_end_by is_whitespace (l @ ascii ''deadbeef'') = l @ ascii ''deadbeef''"
    "trim_end_by is_whitespace (l @ ascii '' *a'') = l @ ascii '' *a''" "trim (0x20 # ascii ''deadbeef'') = ascii ''deadbeef''" for r l
    by (simp_all add: ascii_def is_whitespace_def trim_end_by_def trim_def)
  have "utf8_length (ascii ''deadbeef'') = 8" "list_all is_ascii_hexdigit (ascii ''deadbeef'')" "ascii_lower (ascii ''deadbeef'') = ascii ''deadbeef''"
    by (simp_all add: ascii_def utf8_length_def len_utf8_def is_ascii_hexdigit_def is_digit_def ascii_lower_def to_ascii_lowercase_def is_ascii_uppercase_def)
  moreover have "trim_end_by is_whitespace (zero_digest @ ascii '' *a'' @ 0x20 # ascii ''deadbeef'') = zero_digest @ ascii '' *a'' @ 0x20 # ascii ''deadbeef''"
    using words(2) [of "zero_digest @ ascii '' *a'' @ [0x20]"] by simp
  ultimately show ?thesis
    using words(1) [of "rev (zero_digest @ ascii '' *a'')"] words(3) [of zero_digest] words(4)
    by (simp add: parse_sfv_entry_def line Let_def) (simp add: zero_digest_def)
qed

text \<open>An SFV manifest loses the files whose names start with a semicolon.\<close>

lemma semicolon_name_lost: "is_comment [0x3B] (generated_line GfSfv (0x3B # name) digest)"
  by (simp add: generated_line_def is_comment_def trim_start_def is_whitespace_def)

end
