(* ===== verification/BulkRename.thy ===== *)
theory BulkRename
  imports MagicText NodeStore EntryLabels
begin

text \<open>
  \<open>ferail-gpui\<close>: \<open>bulk_rename.rs\<close>, renaming a selection by rules: the plan of the new names, and the worker that
  applies it to the disk.  The patterns of the \<open>regex\<close> package, the Unicode case conversions and the translator are
  parameters; so are the failures of the operating system.  The builds are those for Unix.
\<close>

section \<open>Rules and plans\<close>

datatype case_transform = CtNone | CtLower | CtUpper | CtTitle

record rename_rule =
  rl_find :: rust_string
  rl_replace :: rust_string
  rl_use_regex :: bool
  rl_case :: case_transform
  rl_template :: rust_string
  rl_counter_start :: u32
  rl_counter_pad :: u8

definition RenameRule_default :: rename_rule where
  "RenameRule_default = \<lparr>rl_find = [], rl_replace = [], rl_use_regex = False, rl_case = CtNone, rl_template = [],
     rl_counter_start = 1, rl_counter_pad = 0\<rparr>"

datatype row_status = RsUnchanged | RsRenamed | RsConflict string

record rename_row =
  rw_before :: rust_string
  rw_after :: rust_string
  rw_status :: row_status

record rename_plan =
  rp_rows :: "rename_row list"
  rp_renamed :: nat
  rp_conflicts :: nat
  rp_error :: "rust_string option"

text \<open>
  The text functions from outside: the lower and upper case of a string and of a character, a compiled pattern (the
  replacement of all its matches, or the text of its error), and the translated message.
\<close>

record text_env =
  te_lower :: "rust_string \<Rightarrow> rust_string"
  te_upper :: "rust_string \<Rightarrow> rust_string"
  te_char_lower :: "u32 \<Rightarrow> rust_string"
  te_char_upper :: "u32 \<Rightarrow> rust_string"
  te_regex :: "rust_string \<Rightarrow> rust_string + (rust_string \<Rightarrow> rust_string \<Rightarrow> rust_string)"
  te_invalid :: "rust_string \<Rightarrow> rust_string"

section \<open>Dates\<close>

definition is_leap :: "int \<Rightarrow> bool" where
  "is_leap y \<longleftrightarrow> (y mod 4 = 0 \<and> y mod 100 \<noteq> 0) \<or> y mod 400 = 0"

text \<open>The two loops over the years.\<close>

function years_up :: "int \<Rightarrow> int \<Rightarrow> ('e, int \<times> int) outcome" where
  "years_up y d =
     (let y_days = (if is_leap y then 366 else 365) in
      if d < y_days then Ok (y, d)
      else obind (i32 (y + 1)) (\<lambda>y. years_up y (d - y_days)))"
  by pat_completeness auto
termination by (relation "measure (\<lambda>(y, d). nat d)") (auto split: if_splits)

declare years_up.simps [simp del]

function years_down :: "int \<Rightarrow> int \<Rightarrow> ('e, int \<times> int) outcome" where
  "years_down y d =
     (if 0 \<le> d then Ok (y, d)
      else obind (i32 (y - 1)) (\<lambda>y. years_down y (d + (if is_leap y then 366 else 365))))"
  by pat_completeness auto
termination by (relation "measure (\<lambda>(y, d). nat (- d))") (auto split: if_splits)

declare years_down.simps [simp del]

fun months_up :: "int list \<Rightarrow> int \<Rightarrow> int \<Rightarrow> int \<times> int" where
  "months_up [] mo d = (mo, d)"
| "months_up (md # months) mo d = (if d < md then (mo, d) else months_up months (mo + 1) (d - md))"

definition epoch_days_to_ymd :: "int \<Rightarrow> ('e, int \<times> int \<times> int) outcome" where
  "epoch_days_to_ymd days =
     obind (years_up 1970 days) (\<lambda>(y, d).
     obind (years_down y d) (\<lambda>(y, d).
     case months_up [31, if is_leap y then 29 else 28, 31, 30, 31, 30, 31, 31, 30, 31, 30, 31] 1 d of
       (mo, d) \<Rightarrow> Ok (y, mo, d + 1)))"

definition rename_date :: "int \<Rightarrow> ('e, rust_string) outcome" where
  "rename_date mtime_unix =
     obind (epoch_days_to_ymd (mtime_unix div 86400)) (\<lambda>(y, m, d).
     Ok (zero_padded 4 y @ [0x2D] @ zero_padded 2 m @ [0x2D] @ zero_padded 2 d))"

section \<open>The plan\<close>

text \<open>\<open>str::replace\<close>; an empty pattern matches between the characters.\<close>

function replace_from :: "rust_string \<Rightarrow> rust_string \<Rightarrow> rust_string \<Rightarrow> rust_string" where
  "replace_from p r [] = []"
| "replace_from p r (c # s) =
     (if p \<noteq> [] \<and> take (length p) (c # s) = p then r @ replace_from p r (drop (length p) (c # s))
      else c # replace_from p r s)"
  by pat_completeness auto
termination by (relation "measure (\<lambda>(p, r, s). length s)") (auto simp: neq_Nil_conv)

definition str_replace :: "rust_string \<Rightarrow> rust_string \<Rightarrow> rust_string \<Rightarrow> rust_string" where
  "str_replace p r s = (if p = [] then r @ concat (map (\<lambda>c. c # r) s) else replace_from p r s)"

definition split_whitespace :: "rust_string \<Rightarrow> rust_string list" where
  "split_whitespace s = filter (\<lambda>w. w \<noteq> []) (split_on 0x20 (map (\<lambda>c. if is_whitespace c then 0x20 else c) s))"

definition split_stem_ext :: "rust_string \<Rightarrow> rust_string \<times> rust_string option" where
  "split_stem_ext name =
     (case rsplit_once_dot name of
        Some (stem, ext) \<Rightarrow> if stem \<noteq> [] then (stem, Some ext) else (name, None)
      | None \<Rightarrow> (name, None))"

fun title_loop :: "text_env \<Rightarrow> bool \<Rightarrow> rust_string \<Rightarrow> rust_string" where
  "title_loop env at_word_start [] = []"
| "title_loop env at_word_start (ch # s) =
     (if is_whitespace ch then ch # title_loop env True s
      else if at_word_start then te_char_upper env ch @ title_loop env False s
      else te_char_lower env ch @ title_loop env at_word_start s)"

definition apply_case :: "text_env \<Rightarrow> rust_string \<Rightarrow> case_transform \<Rightarrow> rust_string" where
  "apply_case env stem transform =
     (case transform of
        CtNone \<Rightarrow> stem
      | CtLower \<Rightarrow> te_lower env stem
      | CtUpper \<Rightarrow> te_upper env stem
      | CtTitle \<Rightarrow> title_loop env True stem)"

definition fill_template :: "rename_rule \<Rightarrow> rust_string \<Rightarrow> nat \<Rightarrow> int \<Rightarrow> rust_string \<Rightarrow> rust_string option \<Rightarrow>
    ('e, rust_string) outcome" where
  "fill_template rule template index mtime stem ext =
     (let n = unat (rl_counter_start rule) + index;
          counter = zero_padded (unat (rl_counter_pad rule)) (int n) in
      obind (rename_date mtime) (\<lambda>date.
      let out = str_replace (ascii ''{date}'') date (str_replace (ascii ''{n}'') counter
            (str_replace (ascii ''{ext}'') (case ext of Some e \<Rightarrow> e | None \<Rightarrow> []) (str_replace (ascii ''{name}'') stem template))) in
      Ok (if \<not> contains template (ascii ''{ext}'')
          then (case ext of Some e \<Rightarrow> if e \<noteq> [] then out @ 0x2E # e else out | None \<Rightarrow> out)
          else out)))"

definition new_name :: "text_env \<Rightarrow> rename_rule \<Rightarrow> (rust_string \<Rightarrow> rust_string \<Rightarrow> rust_string) option \<Rightarrow> nat \<Rightarrow> rust_string \<times> int \<Rightarrow>
    ('e, rust_string) outcome" where
  "new_name env rule regex index item =
     (case item of (name, mtime) \<Rightarrow>
      let replaced = (if rl_find rule = [] then name
            else case regex of Some re \<Rightarrow> re name (rl_replace rule) | None \<Rightarrow> str_replace (rl_find rule) (rl_replace rule) name);
          template = trim (rl_template rule) in
      case split_stem_ext replaced of (stem, ext) \<Rightarrow>
      let stem = apply_case env stem (rl_case rule) in
      if template = [] then Ok (case ext of Some e \<Rightarrow> stem @ 0x2E # e | None \<Rightarrow> stem)
      else fill_template rule template index mtime stem ext)"

fun new_names :: "text_env \<Rightarrow> rename_rule \<Rightarrow> (rust_string \<Rightarrow> rust_string \<Rightarrow> rust_string) option \<Rightarrow> nat \<Rightarrow> (rust_string \<times> int) list \<Rightarrow>
    ('e, rust_string list) outcome" where
  "new_names env rule regex index [] = Ok []"
| "new_names env rule regex index (item # items) =
     obind (new_name env rule regex index item) (\<lambda>after.
     obind (new_names env rule regex (Suc index) items) (\<lambda>afters. Ok (after # afters)))"

definition changed_targets :: "text_env \<Rightarrow> (rust_string \<times> rust_string) list \<Rightarrow> rust_string list" where
  "changed_targets env renames = map (\<lambda>(before, after). te_lower env after) (filter (\<lambda>(before, after). after \<noteq> before) renames)"

definition unchanged_lower :: "text_env \<Rightarrow> (rust_string \<times> rust_string) list \<Rightarrow> rust_string list" where
  "unchanged_lower env renames = map (\<lambda>(before, after). te_lower env before) (filter (\<lambda>(before, after). after = before) renames)"

definition row_status_of :: "text_env \<Rightarrow> (rust_string \<times> rust_string) list \<Rightarrow> rust_string \<times> rust_string \<Rightarrow> row_status" where
  "row_status_of env renames row =
     (case row of (before, after) \<Rightarrow>
      if after = before then RsUnchanged
      else if trim after = [] then RsConflict ''empty name''
      else if 1 < count_list (changed_targets env renames) (te_lower env after) then RsConflict ''duplicate target''
      else if te_lower env after \<in> set (unchanged_lower env renames) then RsConflict ''name already taken''
      else RsRenamed)"

definition plan_of_names :: "text_env \<Rightarrow> (rust_string \<times> rust_string) list \<Rightarrow> rename_plan" where
  "plan_of_names env renames =
     (let rows = map (\<lambda>(before, after). \<lparr>rw_before = before, rw_after = after, rw_status = row_status_of env renames (before, after)\<rparr>) renames in
      \<lparr>rp_rows = rows, rp_renamed = length (filter (\<lambda>row. rw_status row = RsRenamed) rows),
       rp_conflicts = length (filter (\<lambda>row. case rw_status row of RsConflict _ \<Rightarrow> True | _ \<Rightarrow> False) rows), rp_error = None\<rparr>)"

definition build_plan :: "text_env \<Rightarrow> rename_rule \<Rightarrow> (rust_string \<times> int) list \<Rightarrow> ('e, rename_plan) outcome" where
  "build_plan env rule items =
     (let plan = (\<lambda>regex. obind (new_names env rule regex 0 items) (\<lambda>afters. Ok (plan_of_names env (zip (map fst items) afters)))) in
      if rl_use_regex rule \<and> rl_find rule \<noteq> [] then
        (case te_regex env (rl_find rule) of
           Inr re \<Rightarrow> plan (Some re)
         | Inl e \<Rightarrow> Ok \<lparr>rp_rows = map (\<lambda>(name, _). \<lparr>rw_before = name, rw_after = name, rw_status = RsUnchanged\<rparr>) items,
             rp_renamed = 0, rp_conflicts = 0, rp_error = Some (te_invalid env (join_with 0x20 (split_whitespace e)))\<rparr>)
      else plan None)"

section \<open>The pairs of paths\<close>

text \<open>\<open>on_disk_leaf\<close> and \<open>display_to_os\<close> of \<open>paths.rs\<close>, for macOS and for other Unix systems, and \<open>Path::with_file_name\<close>
  (paths are compared by their components, so the result is spelled in its normal form).\<close>

definition on_disk_leaf :: "bool \<Rightarrow> rust_string \<Rightarrow> rust_string" where
  "on_disk_leaf macos typed = (if macos then map (\<lambda>c. if c = 0x2F then 0x3A else c) typed else typed)"

definition path_text :: "path_component list \<Rightarrow> rust_string" where
  "path_text comps = foldl path_push [] comps"

definition with_file_name :: "rust_string \<Rightarrow> rust_string \<Rightarrow> rust_string" where
  "with_file_name path leaf =
     (let comps = path_components path in
      path_push (path_text (if path_file_name comps \<noteq> None then butlast comps else comps)) (PcNormal leaf))"

definition rename_pairs :: "bool \<Rightarrow> (rust_string \<times> rust_string \<times> int) list \<Rightarrow> rename_plan \<Rightarrow> (rust_string \<times> rust_string) list" where
  "rename_pairs macos items plan =
     map (\<lambda>((path, _, _), row). (path, with_file_name path (on_disk_leaf macos (rw_after row))))
       (filter (\<lambda>(_, row). rw_status row = RsRenamed) (zip items (rp_rows plan)))"

definition leaf_str :: "rust_string \<Rightarrow> rust_string" where
  "leaf_str path = (case path_file_name (path_components path) of Some s \<Rightarrow> s | None \<Rightarrow> path)"

section \<open>The disk\<close>

text \<open>
  A disk maps the entries to the files they stand for (device and inode).  \<open>fs_canon\<close> says which entry a path names:
  the path itself, or its folded form where case is insignificant.  \<open>fs_fails\<close> are the failures of the system.  A
  renamed folder takes what is below it along; those entries are not followed.
\<close>

type_synonym 'i disk = "rust_string \<Rightarrow> 'i option"

record 'i rename_fs =
  fs_canon :: "rust_string \<Rightarrow> rust_string"
  fs_not_found :: rust_string
  fs_fails :: "'i disk \<Rightarrow> rust_string \<Rightarrow> rust_string \<Rightarrow> rust_string option"

text \<open>\<open>std::fs::rename\<close>: it replaces its destination, and does nothing when both names are the same file.\<close>

definition fs_rename :: "'i rename_fs \<Rightarrow> rust_string \<Rightarrow> rust_string \<Rightarrow> 'i disk \<Rightarrow> rust_string + 'i disk" where
  "fs_rename fs old new disk =
     (case disk (fs_canon fs old) of
        None \<Rightarrow> Inl (fs_not_found fs)
      | Some i \<Rightarrow>
          (case fs_fails fs disk old new of
             Some e \<Rightarrow> Inl e
           | None \<Rightarrow>
               if disk (fs_canon fs new) = Some i then Inr disk
               else Inr (disk(fs_canon fs old := None, fs_canon fs new := Some i))))"

datatype rename_error =
    RxIo rust_string rust_string | RxExists rust_string rust_string | RxPreserved rename_error rust_string | RxCycle rust_string

definition rename_guarded :: "'i rename_fs \<Rightarrow> rust_string \<Rightarrow> rust_string \<Rightarrow> 'i disk \<Rightarrow> rename_error + 'i disk" where
  "rename_guarded fs old new disk =
     (if disk (fs_canon fs new) \<noteq> None \<and> disk (fs_canon fs old) \<noteq> disk (fs_canon fs new)
      then Inl (RxExists (leaf_str old) (leaf_str new))
      else (case fs_rename fs old new disk of Inl e \<Rightarrow> Inl (RxIo (leaf_str old) e) | Inr d \<Rightarrow> Inr d))"

section \<open>The worker\<close>

record 'i rename_run =
  rn_waiters :: "nat \<Rightarrow> nat list option"
  rn_ready :: "nat list"
  rn_cur_src :: "rust_string list"
  rn_done :: "bool list"
  rn_parked :: "bool list"
  rn_renamed :: "(rust_string \<times> rust_string) list"
  rn_errors :: "rename_error list"
  rn_remaining :: nat
  rn_tmp_seq :: nat
  rn_disk :: "'i disk"

definition source_index :: "(rust_string \<Rightarrow> rust_string) \<Rightarrow> (rust_string \<times> rust_string) list \<Rightarrow> rust_string \<Rightarrow> nat option" where
  "source_index lower pairs = foldl (\<lambda>m (i, (old, _)). m(lower old \<mapsto> i)) Map.empty (enumerate 0 pairs)"

definition place_pair :: "(rust_string \<Rightarrow> rust_string) \<Rightarrow> (rust_string \<Rightarrow> nat option) \<Rightarrow> (nat \<Rightarrow> nat list option) \<times> nat list \<Rightarrow>
    nat \<times> rust_string \<times> rust_string \<Rightarrow> (nat \<Rightarrow> nat list option) \<times> nat list" where
  "place_pair lower src_of acc pair =
     (case (acc, pair) of ((waiters, ready), (i, (_, new))) \<Rightarrow>
      case src_of (lower new) of
        Some j \<Rightarrow> if j \<noteq> i then (waiters(j \<mapsto> (case waiters j of Some ws \<Rightarrow> ws | None \<Rightarrow> []) @ [i]), ready) else (waiters, ready @ [i])
      | None \<Rightarrow> (waiters, ready @ [i]))"

definition run_start :: "(rust_string \<Rightarrow> rust_string) \<Rightarrow> (rust_string \<times> rust_string) list \<Rightarrow> 'i disk \<Rightarrow> 'i rename_run" where
  "run_start lower pairs disk =
     (case foldl (place_pair lower (source_index lower pairs)) (Map.empty, []) (enumerate 0 pairs) of (waiters, ready) \<Rightarrow>
      \<lparr>rn_waiters = waiters, rn_ready = ready, rn_cur_src = map fst pairs, rn_done = replicate (length pairs) False,
       rn_parked = replicate (length pairs) False, rn_renamed = [], rn_errors = [], rn_remaining = length pairs, rn_tmp_seq = 0,
       rn_disk = disk\<rparr>)"

text \<open>The pairs that wait for \<open>i\<close> are ready; the last one is tried first.\<close>

definition wake :: "nat \<Rightarrow> 'i rename_run \<Rightarrow> 'i rename_run" where
  "wake i r =
     (case rn_waiters r i of
        None \<Rightarrow> r
      | Some ws \<Rightarrow> r\<lparr>rn_waiters := (rn_waiters r)(i := None), rn_ready := rn_ready r @ filter (\<lambda>w. \<not> rn_done r ! w) ws\<rparr>)"

definition settle :: "nat \<Rightarrow> 'i rename_run \<Rightarrow> 'i rename_run" where
  "settle i r = wake i (r\<lparr>rn_done := (rn_done r)[i := True], rn_remaining := rn_remaining r - 1\<rparr>)"

definition move_ready :: "'i rename_fs \<Rightarrow> (rust_string \<times> rust_string) list \<Rightarrow> 'i rename_run \<Rightarrow> 'i rename_run" where
  "move_ready fs pairs r =
     (let i = last (rn_ready r); r = r\<lparr>rn_ready := butlast (rn_ready r)\<rparr>; src = rn_cur_src r ! i; dest = snd (pairs ! i) in
      settle i
        (case rename_guarded fs src dest (rn_disk r) of
           Inr disk \<Rightarrow> r\<lparr>rn_disk := disk, rn_renamed := rn_renamed r @ [(fst (pairs ! i), dest)]\<rparr>
         | Inl e \<Rightarrow> r\<lparr>rn_errors := rn_errors r @ [if rn_parked r ! i then RxPreserved e src else e]\<rparr>))"

definition temp_leaf :: "nat \<Rightarrow> nat \<Rightarrow> rust_string" where
  "temp_leaf pid seq = ascii ''.ferail-rename-'' @ decimal pid @ [0x2D] @ decimal seq @ ascii ''.tmp''"

definition park :: "'i rename_fs \<Rightarrow> nat \<Rightarrow> nat \<Rightarrow> 'i rename_run \<Rightarrow> 'i rename_run" where
  "park fs pid i r =
     (let r = r\<lparr>rn_tmp_seq := rn_tmp_seq r + 1\<rparr>; src = rn_cur_src r ! i; tmp = with_file_name src (temp_leaf pid (rn_tmp_seq r)) in
      case fs_rename fs src tmp (rn_disk r) of
        Inr disk \<Rightarrow> wake i (r\<lparr>rn_parked := (rn_parked r)[i := True], rn_cur_src := (rn_cur_src r)[i := tmp], rn_disk := disk\<rparr>)
      | Inl e \<Rightarrow> settle i (r\<lparr>rn_errors := rn_errors r @ [RxIo (leaf_str src) e]\<rparr>))"

definition free_to_park :: "'i rename_run \<Rightarrow> nat option" where
  "free_to_park r = find (\<lambda>i. \<not> rn_done r ! i \<and> \<not> rn_parked r ! i) [0..<length (rn_parked r)]"

definition give_up :: "(rust_string \<times> rust_string) list \<Rightarrow> 'i rename_run \<Rightarrow> 'i rename_run" where
  "give_up pairs r =
     r\<lparr>rn_errors := rn_errors r @ map (\<lambda>i. RxCycle (leaf_str (fst (pairs ! i)))) (filter (\<lambda>i. \<not> rn_done r ! i) [0..<length pairs])\<rparr>"

lemma settle_fields [simp]: "rn_remaining (settle i r) = rn_remaining r - 1" "rn_parked (settle i r) = rn_parked r"
  by (simp_all add: settle_def wake_def split: option.split)

lemma wake_fields [simp]: "rn_remaining (wake i r) = rn_remaining r" "rn_parked (wake i r) = rn_parked r"
  by (simp_all add: wake_def split: option.split)

lemma move_ready_fields: "rn_remaining (move_ready fs pairs r) = rn_remaining r - 1" "rn_parked (move_ready fs pairs r) = rn_parked r"
  by (simp_all add: move_ready_def Let_def split: sum.split)

definition unparked :: "'i rename_run \<Rightarrow> nat" where
  "unparked r = length (filter Not (rn_parked r))"

lemma unparked_update: "i < length bs \<Longrightarrow> \<not> bs ! i \<Longrightarrow> length (filter Not (bs[i := True])) < length (filter Not bs)"
proof (induction bs arbitrary: i)
  case (Cons b bs)
  then show ?case by (cases i) auto
qed simp

lemma free_to_park_Some: "free_to_park r = Some i \<Longrightarrow> i < length (rn_parked r) \<and> \<not> rn_done r ! i \<and> \<not> rn_parked r ! i"
  by (auto simp: free_to_park_def find_Some_iff)

lemma park_decreases:
  assumes "free_to_park r = Some i" and "0 < rn_remaining r"
  shows "rn_remaining (park fs pid i r) + unparked (park fs pid i r) < rn_remaining r + unparked r"
  using free_to_park_Some [OF assms(1)] unparked_update [of i "rn_parked r"] assms(2)
  by (auto simp: park_def unparked_def Let_def split: sum.split)

function run_loop :: "'i rename_fs \<Rightarrow> nat \<Rightarrow> (rust_string \<times> rust_string) list \<Rightarrow> 'i rename_run \<Rightarrow> 'i rename_run" where
  "run_loop fs pid pairs r =
     (if rn_remaining r = 0 then r
      else if rn_ready r \<noteq> [] then run_loop fs pid pairs (move_ready fs pairs r)
      else
        (case free_to_park r of
           None \<Rightarrow> give_up pairs r
         | Some i \<Rightarrow> run_loop fs pid pairs (park fs pid i r)))"
  by pat_completeness auto
termination
  by (relation "measure (\<lambda>(fs, pid, pairs, r). rn_remaining r + unparked r)")
    (simp_all add: move_ready_fields unparked_def [of "move_ready _ _ _"] unparked_def [symmetric] park_decreases)

declare run_loop.simps [simp del]

text \<open>
  \<open>run_renames\<close>: the renamed pairs, the errors, and the disk it leaves.  The debug assertion before it, that this is not
  the UI thread, is \<open>assert_off_ui_thread\<close> of \<open>NodeStore\<close>.
\<close>

definition run_renames :: "(rust_string \<Rightarrow> rust_string) \<Rightarrow> 'i rename_fs \<Rightarrow> nat \<Rightarrow> (rust_string \<times> rust_string) list \<Rightarrow> 'i disk \<Rightarrow>
    (rust_string \<times> rust_string) list \<times> rename_error list \<times> 'i disk" where
  "run_renames lower fs pid pairs disk =
     (let r = run_loop fs pid pairs (run_start lower pairs disk) in (rn_renamed r, rn_errors r, rn_disk r))"

end
