(* ===== verification/BulkRenameProps.thy ===== *)
theory BulkRenameProps
  imports BulkRename "HOL-Library.Multiset" EntryLabelsProps NodeStoreProps
begin

text \<open>
  What \<open>bulk_rename.rs\<close> promises: the worker settles every pair and meets no cycle it cannot break, loses no file, and
  without failures carries out the simultaneous renaming; a plan without conflicts has targets that do not collide; its
  dates are those of the Modified column.
\<close>

section \<open>Scheduling\<close>

definition blocker :: "(rust_string \<Rightarrow> rust_string) \<Rightarrow> (rust_string \<times> rust_string) list \<Rightarrow> nat \<Rightarrow> nat option" where
  "blocker lower pairs i =
     (case source_index lower pairs (lower (snd (pairs ! i))) of Some j \<Rightarrow> if j \<noteq> i then Some j else None | None \<Rightarrow> None)"

definition waiting :: "(rust_string \<Rightarrow> rust_string) \<Rightarrow> (rust_string \<times> rust_string) list \<Rightarrow> nat \<Rightarrow> nat list" where
  "waiting lower pairs j = filter (\<lambda>w. blocker lower pairs w = Some j) [0..<length pairs]"

text \<open>The queues when the sources of \<open>V\<close> are vacated.\<close>

definition queues_ok :: "(rust_string \<Rightarrow> rust_string) \<Rightarrow> (rust_string \<times> rust_string) list \<Rightarrow> nat set \<Rightarrow> 'i rename_run \<Rightarrow> bool" where
  "queues_ok lower pairs V r \<longleftrightarrow>
     rn_waiters r = (\<lambda>j. if j \<in> V \<or> waiting lower pairs j = [] then None else Some (waiting lower pairs j)) \<and>
     distinct (rn_ready r) \<and>
     set (rn_ready r) = {w. w < length pairs \<and> \<not> rn_done r ! w \<and> (\<forall>j. blocker lower pairs w = Some j \<longrightarrow> j \<in> V)}"

definition vacated :: "'i rename_run \<Rightarrow> nat set" where
  "vacated r = {i. i < length (rn_parked r) \<and> (rn_done r ! i \<or> rn_parked r ! i)}"

definition is_cycle_error :: "rename_error \<Rightarrow> bool" where
  "is_cycle_error e \<longleftrightarrow> (case e of RxCycle _ \<Rightarrow> True | _ \<Rightarrow> False)"

definition settled_ok :: "(rust_string \<times> rust_string) list \<Rightarrow> 'i rename_run \<Rightarrow> bool" where
  "settled_ok pairs r \<longleftrightarrow>
     length (rn_done r) = length pairs \<and> length (rn_parked r) = length pairs \<and> length (rn_cur_src r) = length pairs \<and>
     rn_remaining r = length (filter Not (rn_done r)) \<and>
     \<not> list_ex is_cycle_error (rn_errors r) \<and>
     (\<exists>ks. distinct ks \<and> (\<forall>k\<in>set ks. k < length pairs \<and> rn_done r ! k) \<and> rn_renamed r = map ((!) pairs) ks) \<and>
     length (rn_renamed r) + length (rn_errors r) + rn_remaining r = length pairs"

definition sched_ok :: "(rust_string \<Rightarrow> rust_string) \<Rightarrow> (rust_string \<times> rust_string) list \<Rightarrow> 'i rename_run \<Rightarrow> bool" where
  "sched_ok lower pairs r \<longleftrightarrow> settled_ok pairs r \<and> queues_ok lower pairs (vacated r) r"

subsection \<open>The start\<close>

lemma index_fold:
  "foldl (\<lambda>m (i, (old, new)). m(lower old \<mapsto> i)) m (enumerate k pairs) key = Some j \<Longrightarrow>
     m key = Some j \<or> (k \<le> j \<and> j < k + length pairs \<and> lower (fst (pairs ! (j - k))) = key)"
proof (induction pairs arbitrary: m k)
  case (Cons p pairs)
  have nth: "Suc k \<le> j \<Longrightarrow> (p # pairs) ! (j - k) = pairs ! (j - Suc k)" by (simp add: Suc_diff_Suc [symmetric] Suc_le_eq)
  from Cons.IH [of "m(lower (fst p) \<mapsto> k)" "Suc k"] Cons.prems show ?case
    by (cases p) (auto simp: nth simp del: nth_Cons_Suc split: if_splits)
qed simp

lemma index_fold_dom:
  "m key \<noteq> None \<or> key \<in> lower ` fst ` set pairs \<Longrightarrow> foldl (\<lambda>m (i, (old, new)). m(lower old \<mapsto> i)) m (enumerate k pairs) key \<noteq> None"
proof (induction pairs arbitrary: m k)
  case (Cons p pairs)
  from Cons.prems Cons.IH [of "m(lower (fst p) \<mapsto> k)" "Suc k"] show ?case by (cases p) auto
qed simp

lemma source_index_Some: "source_index lower pairs key = Some j \<Longrightarrow> j < length pairs \<and> lower (fst (pairs ! j)) = key"
  using index_fold [of lower Map.empty 0 pairs key j] by (simp add: source_index_def)

lemma source_index_found: "i < length pairs \<Longrightarrow> source_index lower pairs (lower (fst (pairs ! i))) \<noteq> None"
  unfolding source_index_def by (rule index_fold_dom) simp

lemma blocker_Some: "blocker lower pairs i = Some j \<Longrightarrow> j < length pairs \<and> j \<noteq> i \<and> lower (fst (pairs ! j)) = lower (snd (pairs ! i))"
  by (auto simp: blocker_def dest: source_index_Some split: option.splits if_splits)

definition queue_list :: "(nat \<Rightarrow> nat option) \<Rightarrow> nat list \<Rightarrow> nat \<Rightarrow> nat list option" where
  "queue_list b is j = (let ws = filter (\<lambda>w. b w = Some j) is in if ws = [] then None else Some ws)"

lemma place_one:
  fixes lower pairs
  defines "b \<equiv> blocker lower pairs"
  shows "place_pair lower (source_index lower pairs) (queue_list b [0..<k], filter (\<lambda>w. b w = None) [0..<k]) (k, pairs ! k) =
     (queue_list b [0..<Suc k], filter (\<lambda>w. b w = None) [0..<Suc k])"
proof (cases "b k")
  case None
  then have "place_pair lower (source_index lower pairs) acc (k, pairs ! k) = (fst acc, snd acc @ [k])" for acc
    by (auto simp: b_def blocker_def place_pair_def split: option.splits prod.splits if_splits)
  with None show ?thesis by (simp add: queue_list_def fun_eq_iff)
next
  case (Some j)
  then have "place_pair lower (source_index lower pairs) acc (k, pairs ! k) =
      ((fst acc)(j \<mapsto> (case fst acc j of Some ws \<Rightarrow> ws | None \<Rightarrow> []) @ [k]), snd acc)" for acc
    by (auto simp: b_def blocker_def place_pair_def split: option.splits prod.splits if_splits)
  with Some show ?thesis by (auto simp: queue_list_def fun_eq_iff Let_def)
qed

lemma place_fold:
  "foldl (place_pair lower (source_index lower pairs)) (queue_list (blocker lower pairs) [], []) (map (\<lambda>i. (i, pairs ! i)) [0..<k]) =
     (queue_list (blocker lower pairs) [0..<k], filter (\<lambda>w. blocker lower pairs w = None) [0..<k])"
proof (induction k)
  case (Suc k)
  have "map (\<lambda>i. (i, pairs ! i)) [0..<Suc k] = map (\<lambda>i. (i, pairs ! i)) [0..<k] @ [(k, pairs ! k)]" by simp
  then show ?case by (simp only: foldl_append foldl.simps Suc.IH place_one)
qed simp

lemma enumerate_positions: "enumerate 0 xs = map (\<lambda>i. (i, xs ! i)) [0..<length xs]"
  by (rule nth_equalityI) (simp_all add: nth_enumerate_eq)

lemma queue_list_Nil: "queue_list b [] = Map.empty"
  by (simp add: queue_list_def fun_eq_iff)

lemma start_queues:
  "rn_waiters (run_start lower pairs disk) = queue_list (blocker lower pairs) [0..<length pairs]"
  "rn_ready (run_start lower pairs disk) = filter (\<lambda>w. blocker lower pairs w = None) [0..<length pairs]"
  using place_fold [of lower pairs "length pairs"] by (simp_all add: run_start_def queue_list_Nil enumerate_positions)

lemma start_fields:
  "rn_cur_src (run_start lower pairs disk) = map fst pairs" "rn_done (run_start lower pairs disk) = replicate (length pairs) False"
  "rn_parked (run_start lower pairs disk) = replicate (length pairs) False" "rn_renamed (run_start lower pairs disk) = []"
  "rn_errors (run_start lower pairs disk) = []" "rn_remaining (run_start lower pairs disk) = length pairs"
  "rn_tmp_seq (run_start lower pairs disk) = 0" "rn_disk (run_start lower pairs disk) = disk"
  by (simp_all add: run_start_def split: prod.split)

lemma start_ok: "sched_ok lower pairs (run_start lower pairs disk)"
  using blocker_Some [of lower pairs]
  by (auto simp: sched_ok_def settled_ok_def queues_ok_def vacated_def start_fields start_queues queue_list_def waiting_def Let_def fun_eq_iff)

subsection \<open>The steps\<close>

lemma wake_unchanged [simp]: "rn_cur_src (wake i r) = rn_cur_src r" "rn_done (wake i r) = rn_done r" "rn_renamed (wake i r) = rn_renamed r"
  "rn_errors (wake i r) = rn_errors r" "rn_tmp_seq (wake i r) = rn_tmp_seq r" "rn_disk (wake i r) = rn_disk r"
  by (simp_all add: wake_def split: option.split)

lemma settle_unchanged [simp]: "rn_cur_src (settle i r) = rn_cur_src r" "rn_done (settle i r) = (rn_done r)[i := True]"
  "rn_renamed (settle i r) = rn_renamed r" "rn_errors (settle i r) = rn_errors r" "rn_tmp_seq (settle i r) = rn_tmp_seq r"
  "rn_disk (settle i r) = rn_disk r"
  by (simp_all add: settle_def)

lemma waiting_iff: "w \<in> set (waiting lower pairs j) \<longleftrightarrow> w < length pairs \<and> blocker lower pairs w = Some j"
  by (auto simp: waiting_def)

lemma wake_queues:
  assumes "queues_ok lower pairs V r"
  shows "queues_ok lower pairs (insert i V) (wake i r)"
proof (cases "i \<in> V \<or> waiting lower pairs i = []")
  case True
  then have "\<not> (w < length pairs \<and> blocker lower pairs w = Some i)" if "i \<notin> V" for w using waiting_iff [of w lower pairs i] that by auto
  with True assms show ?thesis unfolding queues_ok_def wake_def by (auto simp: fun_eq_iff insert_absorb)
next
  case False
  then have wait: "rn_waiters r i = Some (waiting lower pairs i)" using assms by (simp add: queues_ok_def)
  have "set (rn_ready r) \<inter> set (waiting lower pairs i) = {}" using assms False by (auto simp: queues_ok_def waiting_iff)
  moreover have "distinct (waiting lower pairs i)" by (simp add: waiting_def)
  ultimately show ?thesis using assms False unfolding queues_ok_def wake_def wait by (auto simp: fun_eq_iff waiting_iff)
qed

lemma queues_cong:
  "queues_ok lower pairs V r \<Longrightarrow> rn_waiters r' = rn_waiters r \<Longrightarrow> rn_ready r' = rn_ready r \<Longrightarrow> rn_done r' = rn_done r \<Longrightarrow>
     queues_ok lower pairs V r'"
  by (simp add: queues_ok_def)

lemma done_update: "length ds = n \<Longrightarrow> x < n \<Longrightarrow> ds[i := True] ! x \<longleftrightarrow> x = i \<or> ds ! x"
  by (cases "x = i") simp_all

lemma settle_queues:
  assumes "queues_ok lower pairs V r" "rn_waiters r' = rn_waiters r" "rn_done r' = rn_done r" "length (rn_done r) = length pairs"
    and "distinct (rn_ready r')" "set (rn_ready r') = set (rn_ready r) - {i}"
  shows "queues_ok lower pairs (insert i V) (settle i r')"
  unfolding settle_def
  by (rule wake_queues) (use assms in \<open>auto simp: queues_ok_def done_update\<close>)

lemma pending_update: "i < length ds \<Longrightarrow> \<not> ds ! i \<Longrightarrow> length (filter Not ds) = Suc (length (filter Not (ds[i := True])))"
proof (induction ds arbitrary: i)
  case (Cons d ds)
  then show ?case by (cases i) auto
qed simp

lemma vacated_settle: "i < length (rn_parked r) \<Longrightarrow> length (rn_done r) = length (rn_parked r) \<Longrightarrow> vacated (settle i r) = insert i (vacated r)"
  by (auto simp: vacated_def nth_list_update)

lemma vacated_cong: "rn_parked r' = rn_parked r \<Longrightarrow> rn_done r' = rn_done r \<Longrightarrow> vacated r' = vacated r"
  by (simp add: vacated_def)

lemma ready_member:
  assumes "sched_ok lower pairs r" "i \<in> set (rn_ready r)"
  shows "i < length pairs" "\<not> rn_done r ! i" "blocker lower pairs i = Some j \<Longrightarrow> j \<in> vacated r"
  using assms by (auto simp: sched_ok_def queues_ok_def)

text \<open>What \<open>rename_guarded\<close> reports is never an unresolved cycle.\<close>

lemma guarded_error: "rename_guarded fs old new disk = Inl e \<Longrightarrow> \<not> is_cycle_error e"
  by (auto simp: rename_guarded_def is_cycle_error_def split: if_splits sum.splits)

lemma preserved_error: "\<not> is_cycle_error (RxPreserved e path)" "\<not> is_cycle_error (RxIo leaf text)"
  by (simp_all add: is_cycle_error_def)

lemma settle_ok:
  assumes ok: "settled_ok pairs r" and i: "i < length pairs" "\<not> rn_done r ! i"
    and same: "rn_done r' = rn_done r" "rn_parked r' = rn_parked r" "rn_cur_src r' = rn_cur_src r" "rn_remaining r' = rn_remaining r"
    and moved: "rn_renamed r' = rn_renamed r @ [pairs ! i] \<and> rn_errors r' = rn_errors r \<or>
      rn_renamed r' = rn_renamed r \<and> (\<exists>e. rn_errors r' = rn_errors r @ [e] \<and> \<not> is_cycle_error e)"
  shows "settled_ok pairs (settle i r')"
proof -
  from ok obtain ks where ks: "distinct ks" "\<forall>k\<in>set ks. k < length pairs \<and> rn_done r ! k" "rn_renamed r = map ((!) pairs) ks"
    by (auto simp: settled_ok_def)
  have len: "length (rn_done r) = length pairs" using ok by (simp add: settled_ok_def)
  have "i \<notin> set ks" using ks(2) i(2) by auto
  with ks i len moved have "\<exists>ks. distinct ks \<and> (\<forall>k\<in>set ks. k < length pairs \<and> (rn_done r)[i := True] ! k) \<and> rn_renamed r' = map ((!) pairs) ks"
    by (elim disjE) (intro exI [of _ "ks @ [i]"] exI [of _ ks], auto simp: nth_list_update)+
  moreover have "\<not> list_ex is_cycle_error (rn_errors r')" using ok moved by (auto simp: settled_ok_def)
  moreover define p where "p = length (filter Not ((rn_done r)[i := True]))"
  moreover have "length (filter Not (rn_done r)) = Suc p" using i len pending_update [of i "rn_done r"] by (simp add: p_def)
  moreover have "length (rn_renamed r') + length (rn_errors r') = Suc (length (rn_renamed r) + length (rn_errors r))"
    using moved by auto
  ultimately show ?thesis using ok same by (simp add: settled_ok_def p_def [symmetric])
qed

lemma butlast_ready:
  assumes "xs = butlast xs @ [x]" "distinct xs"
  shows "distinct (butlast xs)" "set (butlast xs) = set xs - {x}"
proof -
  obtain ys where xs: "xs = ys @ [x]" using assms(1) by metis
  with assms(2) show "distinct (butlast xs)" "set (butlast xs) = set xs - {x}" by auto
qed

lemma move_ready_ok:
  assumes ok: "sched_ok lower pairs r" and ready: "rn_ready r \<noteq> []"
  shows "sched_ok lower pairs (move_ready fs pairs r)"
proof -
  let ?i = "last (rn_ready r)"
  from ready have mem: "?i \<in> set (rn_ready r)" by simp
  note i = ready_member(1,2) [OF ok mem]
  define r' where "r' = (let r0 = r\<lparr>rn_ready := butlast (rn_ready r)\<rparr> in
    case rename_guarded fs (rn_cur_src r ! ?i) (snd (pairs ! ?i)) (rn_disk r) of
      Inr disk \<Rightarrow> r0\<lparr>rn_disk := disk, rn_renamed := rn_renamed r @ [(fst (pairs ! ?i), snd (pairs ! ?i))]\<rparr>
    | Inl e \<Rightarrow> r0\<lparr>rn_errors := rn_errors r @ [if rn_parked r ! ?i then RxPreserved e (rn_cur_src r ! ?i) else e]\<rparr>)"
  have step: "move_ready fs pairs r = settle ?i r'"
    by (simp add: move_ready_def r'_def Let_def split: sum.split)
  have same: "rn_done r' = rn_done r" "rn_parked r' = rn_parked r" "rn_cur_src r' = rn_cur_src r" "rn_remaining r' = rn_remaining r"
    "rn_waiters r' = rn_waiters r" "rn_ready r' = butlast (rn_ready r)"
    by (simp_all add: r'_def Let_def split: sum.split)
  have "rn_ready r = butlast (rn_ready r) @ [?i]" "distinct (rn_ready r)" using ready ok by (simp_all add: sched_ok_def queues_ok_def)
  then have d: "distinct (butlast (rn_ready r))" "set (butlast (rn_ready r)) = set (rn_ready r) - {?i}"
    by (simp_all add: butlast_ready)
  have "settled_ok pairs (settle ?i r')"
    by (rule settle_ok [OF _ i]) (use ok in \<open>auto simp: sched_ok_def same r'_def Let_def preserved_error dest: guarded_error split: sum.split\<close>)
  moreover have "queues_ok lower pairs (insert ?i (vacated r')) (settle ?i r')"
    by (rule settle_queues [of lower pairs _ r])
      (use ok d in \<open>auto simp: sched_ok_def settled_ok_def same vacated_cong [of r' r]\<close>)
  moreover have "vacated (settle ?i r') = insert ?i (vacated r')"
    by (rule vacated_settle) (use ok i same in \<open>auto simp: sched_ok_def settled_ok_def\<close>)
  ultimately show ?thesis by (simp add: step sched_ok_def)
qed

lemma park_ok:
  assumes ok: "sched_ok lower pairs r" and free: "free_to_park r = Some i" and idle: "rn_ready r = []"
  shows "sched_ok lower pairs (park fs pid i r)"
proof -
  from free_to_park_Some [OF free] ok have i: "i < length pairs" "\<not> rn_done r ! i" "\<not> rn_parked r ! i"
    and len: "length (rn_done r) = length pairs" "length (rn_parked r) = length pairs" "length (rn_cur_src r) = length pairs"
    by (simp_all add: sched_ok_def settled_ok_def)
  define tmp where "tmp = with_file_name (rn_cur_src r ! i) (temp_leaf pid (rn_tmp_seq r + 1))"
  show ?thesis
  proof (cases "fs_rename fs (rn_cur_src r ! i) tmp (rn_disk r)")
    case (Inl e)
    define r' where "r' = r\<lparr>rn_tmp_seq := rn_tmp_seq r + 1, rn_errors := rn_errors r @ [RxIo (leaf_str (rn_cur_src r ! i)) e]\<rparr>"
    have step: "park fs pid i r = settle i r'" using Inl by (simp add: park_def tmp_def Let_def r'_def)
    have same: "rn_done r' = rn_done r" "rn_parked r' = rn_parked r" "rn_cur_src r' = rn_cur_src r" "rn_remaining r' = rn_remaining r"
      "rn_waiters r' = rn_waiters r" "rn_ready r' = []" "vacated r' = vacated r"
      using idle by (simp_all add: r'_def vacated_def)
    have "settled_ok pairs (settle i r')"
      by (rule settle_ok [OF _ i(1,2) same(1-4)]) (use ok in \<open>auto simp: sched_ok_def r'_def preserved_error\<close>)
    moreover have "queues_ok lower pairs (insert i (vacated r')) (settle i r')"
      by (rule settle_queues [of lower pairs _ r]) (use ok idle len same in \<open>simp_all add: sched_ok_def\<close>)
    moreover have "vacated (settle i r') = insert i (vacated r')"
      by (rule vacated_settle) (use i len in \<open>simp_all add: r'_def\<close>)
    ultimately show ?thesis by (simp add: step sched_ok_def)
  next
    case (Inr disk)
    define r' where "r' = r\<lparr>rn_tmp_seq := rn_tmp_seq r + 1, rn_parked := (rn_parked r)[i := True], rn_cur_src := (rn_cur_src r)[i := tmp],
      rn_disk := disk\<rparr>"
    have step: "park fs pid i r = wake i r'" using Inr by (simp add: park_def tmp_def Let_def r'_def)
    have "settled_ok pairs (wake i r')" using ok by (simp add: sched_ok_def settled_ok_def r'_def)
    moreover have "queues_ok lower pairs (insert i (vacated r)) (wake i r')"
      by (rule wake_queues, rule queues_cong) (use ok in \<open>auto simp: sched_ok_def r'_def\<close>)
    moreover have "vacated (wake i r') = insert i (vacated r)" using i len by (auto simp: vacated_def r'_def done_update)
    ultimately show ?thesis by (simp add: step sched_ok_def)
  qed
qed

text \<open>With nothing ready, a pair that is neither done nor parked can be parked.\<close>

lemma stuck_impossible:
  assumes ok: "sched_ok lower pairs r" and "rn_remaining r \<noteq> 0" and idle: "rn_ready r = []"
  shows "free_to_park r \<noteq> None"
proof
  assume none: "free_to_park r = None"
  have len: "length (rn_done r) = length pairs" "length (rn_parked r) = length pairs" using ok by (simp_all add: sched_ok_def settled_ok_def)
  have all: "j \<in> vacated r" if "j < length pairs" for j
    using none that len by (auto simp: free_to_park_def vacated_def find_None_iff)
  from assms(2) ok have "filter Not (rn_done r) \<noteq> []" by (auto simp: sched_ok_def settled_ok_def)
  then obtain i where i: "i < length pairs" "\<not> rn_done r ! i" using len by (auto simp: filter_empty_conv in_set_conv_nth)
  then have "\<not> (\<forall>j. blocker lower pairs i = Some j \<longrightarrow> j \<in> vacated r)" using ok idle by (auto simp: sched_ok_def queues_ok_def)
  with all show False using blocker_Some by blast
qed

lemma run_loop_induct:
  assumes "sched_ok lower pairs r" "P r"
    and "\<And>r. sched_ok lower pairs r \<Longrightarrow> P r \<Longrightarrow> rn_ready r \<noteq> [] \<Longrightarrow> P (move_ready fs pairs r)"
    and "\<And>r i. sched_ok lower pairs r \<Longrightarrow> P r \<Longrightarrow> rn_ready r = [] \<Longrightarrow> free_to_park r = Some i \<Longrightarrow> P (park fs pid i r)"
  shows "sched_ok lower pairs (run_loop fs pid pairs r) \<and> P (run_loop fs pid pairs r) \<and> rn_remaining (run_loop fs pid pairs r) = 0"
  using assms
proof (induction fs pid pairs r rule: run_loop.induct)
  case (1 fs pid pairs r)
  note IH = "1.IH" and prems = "1.prems"
  consider (finished) "rn_remaining r = 0" | (move) "rn_remaining r \<noteq> 0" "rn_ready r \<noteq> []"
    | (park) i where "rn_remaining r \<noteq> 0" "rn_ready r = []" "free_to_park r = Some i"
    using stuck_impossible [OF prems(1)] by blast
  then show ?case
  proof cases
    case finished
    with prems show ?thesis by (simp add: run_loop.simps [of fs pid pairs r])
  next
    case move
    then have step: "run_loop fs pid pairs r = run_loop fs pid pairs (move_ready fs pairs r)" by (simp add: run_loop.simps [of fs pid pairs r])
    show ?thesis unfolding step
      by (rule IH(1) [OF move move_ready_ok [OF prems(1) move(2)] prems(3) [OF prems(1,2) move(2)] prems(3,4)])
  next
    case (park i)
    then have step: "run_loop fs pid pairs r = run_loop fs pid pairs (park fs pid i r)" by (simp add: run_loop.simps [of fs pid pairs r])
    have idle: "\<not> rn_ready r \<noteq> []" using park(2) by simp
    show ?thesis unfolding step
      by (rule IH(2) [OF park(1) idle park(3) park_ok [OF prems(1) park(3,2)] prems(4) [OF prems(1,2) park(2,3)] prems(3,4)])
  qed
qed

text \<open>C20. The worker settles every pair exactly once, in any state of the disk and whatever fails: each pair is either
  renamed or has one error, and no batch ends with a cycle that was not resolved.\<close>

theorem renames_settle:
  "case run_renames lower fs pid pairs disk of (renamed, errors, disk') \<Rightarrow>
     length renamed + length errors = length pairs \<and> \<not> list_ex is_cycle_error errors \<and>
     (\<exists>ks. distinct ks \<and> set ks \<subseteq> {..<length pairs} \<and> renamed = map ((!) pairs) ks)"
proof -
  have "sched_ok lower pairs (run_loop fs pid pairs (run_start lower pairs disk)) \<and>
      rn_remaining (run_loop fs pid pairs (run_start lower pairs disk)) = 0"
    using run_loop_induct [OF start_ok, of "\<lambda>_. True"] by blast
  then show ?thesis by (auto simp: run_renames_def Let_def sched_ok_def settled_ok_def subset_eq)
qed

section \<open>No file is lost\<close>

text \<open>
  The names the worker parks files under are free, are nobody's destination, and differ for different numbers.
\<close>

definition temps_free :: "'i rename_fs \<Rightarrow> nat \<Rightarrow> (rust_string \<times> rust_string) list \<Rightarrow> 'i disk \<Rightarrow> bool" where
  "temps_free fs pid pairs disk \<longleftrightarrow>
     (\<forall>src\<in>fst ` set pairs. \<forall>k. let tmp = fs_canon fs (with_file_name src (temp_leaf pid k)) in
        disk tmp = None \<and> tmp \<notin> fs_canon fs ` fst ` set pairs \<and> tmp \<notin> fs_canon fs ` snd ` set pairs \<and>
        (\<forall>src'\<in>fst ` set pairs. \<forall>k'. fs_canon fs (with_file_name src' (temp_leaf pid k')) = tmp \<longrightarrow> k' = k))"

definition temp_unused :: "'i rename_fs \<Rightarrow> nat \<Rightarrow> (rust_string \<times> rust_string) list \<Rightarrow> 'i rename_run \<Rightarrow> bool" where
  "temp_unused fs pid pairs r \<longleftrightarrow>
     (\<forall>src\<in>fst ` set pairs. \<forall>k>rn_tmp_seq r. rn_disk r (fs_canon fs (with_file_name src (temp_leaf pid k))) = None) \<and>
     (\<forall>i<length pairs. \<not> rn_parked r ! i \<longrightarrow> rn_cur_src r ! i = fst (pairs ! i))"

lemma ran_moved:
  assumes "disk a = Some i" "disk b = None"
  shows "ran (disk(a := None, b := Some i)) = ran disk"
proof (intro set_eqI iffI)
  fix x
  assume "x \<in> ran (disk(a := None, b := Some i))"
  then obtain p where "(disk(a := None, b := Some i)) p = Some x" by (auto simp: ran_def)
  with assms show "x \<in> ran disk" by (auto intro: ranI split: if_splits)
next
  fix x
  assume "x \<in> ran disk"
  then obtain p where p: "disk p = Some x" by (auto simp: ran_def)
  show "x \<in> ran (disk(a := None, b := Some i))"
  proof (cases "p = a")
    case True
    with p assms show ?thesis by (intro ranI [of _ b]) simp
  next
    case False
    with p assms show ?thesis by (intro ranI [of _ p]) auto
  qed
qed

lemma fs_rename_ran:
  assumes "fs_rename fs old new disk = Inr disk'" and "disk (fs_canon fs new) = None \<or> disk (fs_canon fs new) = disk (fs_canon fs old)"
  shows "ran disk' = ran disk"
  using assms ran_moved [of disk "fs_canon fs old" _ "fs_canon fs new"]
  by (auto simp: fs_rename_def simp del: fun_upd_apply ran_map_upd split: option.splits if_splits)

lemma guarded_Inr:
  "rename_guarded fs old new disk = Inr disk' \<Longrightarrow>
     fs_rename fs old new disk = Inr disk' \<and> (disk (fs_canon fs new) = None \<or> disk (fs_canon fs new) = disk (fs_canon fs old))"
  by (auto simp: rename_guarded_def split: if_splits sum.splits)

lemma fs_rename_entry:
  "fs_rename fs old new disk = Inr disk' \<Longrightarrow> disk p = None \<Longrightarrow> p \<noteq> fs_canon fs new \<Longrightarrow> disk' p = None"
  by (auto simp: fs_rename_def split: option.splits if_splits)

lemma move_ready_disk:
  "rn_disk (move_ready fs pairs r) =
     (case rename_guarded fs (rn_cur_src r ! last (rn_ready r)) (snd (pairs ! last (rn_ready r))) (rn_disk r) of
        Inr disk \<Rightarrow> disk | Inl e \<Rightarrow> rn_disk r)"
  "rn_tmp_seq (move_ready fs pairs r) = rn_tmp_seq r" "rn_cur_src (move_ready fs pairs r) = rn_cur_src r"
  by (simp_all add: move_ready_def Let_def split: sum.split)

lemma park_disk:
  fixes fs pid i r
  defines "tmp \<equiv> with_file_name (rn_cur_src r ! i) (temp_leaf pid (Suc (rn_tmp_seq r)))"
  shows "rn_tmp_seq (park fs pid i r) = Suc (rn_tmp_seq r)"
    "fs_rename fs (rn_cur_src r ! i) tmp (rn_disk r) = Inl e \<Longrightarrow> rn_disk (park fs pid i r) = rn_disk r \<and>
       rn_parked (park fs pid i r) = rn_parked r \<and> rn_cur_src (park fs pid i r) = rn_cur_src r"
    "fs_rename fs (rn_cur_src r ! i) tmp (rn_disk r) = Inr disk \<Longrightarrow> rn_disk (park fs pid i r) = disk \<and>
       rn_parked (park fs pid i r) = (rn_parked r)[i := True] \<and> rn_cur_src (park fs pid i r) = (rn_cur_src r)[i := tmp]"
  by (simp_all add: park_def tmp_def Let_def split: sum.split)

lemma temp_unusedD:
  assumes "temp_unused fs pid pairs r" "src \<in> fst ` set pairs" "rn_tmp_seq r < k"
  shows "rn_disk r (fs_canon fs (with_file_name src (temp_leaf pid k))) = None"
  using bspec [OF conjunct1 [OF assms(1) [unfolded temp_unused_def]] assms(2)] assms(3) by simp

lemma temp_unused_move:
  assumes free: "temps_free fs pid pairs disk" and ok: "sched_ok lower pairs r"
    and inv: "ran (rn_disk r) = ran disk \<and> temp_unused fs pid pairs r" and ready: "rn_ready r \<noteq> []"
  shows "ran (rn_disk (move_ready fs pairs r)) = ran disk \<and> temp_unused fs pid pairs (move_ready fs pairs r)"
proof (cases "rename_guarded fs (rn_cur_src r ! last (rn_ready r)) (snd (pairs ! last (rn_ready r))) (rn_disk r)")
  case (Inl e)
  with inv show ?thesis by (simp add: temp_unused_def move_ready_disk move_ready_fields)
next
  case (Inr disk')
  have "last (rn_ready r) < length pairs" using ready_member(1) [OF ok] ready by simp
  then have dest: "snd (pairs ! last (rn_ready r)) \<in> snd ` set pairs" by simp
  from guarded_Inr [OF Inr] have "ran disk' = ran (rn_disk r)" using fs_rename_ran by blast
  moreover have "disk' (fs_canon fs (with_file_name src (temp_leaf pid k))) = None"
    if "src \<in> fst ` set pairs" "rn_tmp_seq r < k" for src k
    by (rule fs_rename_entry [OF conjunct1 [OF guarded_Inr [OF Inr]]])
      (use that inv free dest in \<open>auto simp: temp_unused_def temps_free_def Let_def\<close>)
  ultimately show ?thesis using inv Inr by (simp add: temp_unused_def move_ready_disk move_ready_fields)
qed

lemma temp_unused_park:
  assumes free: "temps_free fs pid pairs disk" and ok: "sched_ok lower pairs r"
    and inv: "ran (rn_disk r) = ran disk \<and> temp_unused fs pid pairs r" and park: "free_to_park r = Some i"
  shows "ran (rn_disk (park fs pid i r)) = ran disk \<and> temp_unused fs pid pairs (park fs pid i r)"
proof -
  from free_to_park_Some [OF park] ok have i: "i < length pairs" "\<not> rn_parked r ! i" and len: "length (rn_parked r) = length pairs"
    "length (rn_cur_src r) = length pairs"
    by (simp_all add: sched_ok_def settled_ok_def)
  with inv have src: "rn_cur_src r ! i = fst (pairs ! i)" by (simp add: temp_unused_def)
  have mem: "fst (pairs ! i) \<in> fst ` set pairs" using i(1) by simp
  define tmp where "tmp = with_file_name (rn_cur_src r ! i) (temp_leaf pid (Suc (rn_tmp_seq r)))"
  have unused: "rn_disk r (fs_canon fs tmp) = None" unfolding tmp_def src by (rule temp_unusedD [OF conjunct2 [OF inv] mem lessI])
  show ?thesis
  proof (cases "fs_rename fs (rn_cur_src r ! i) tmp (rn_disk r)")
    case (Inl e)
    with inv show ?thesis by (simp add: temp_unused_def park_disk(1) park_disk(2) [of fs r i pid, folded tmp_def])
  next
    case (Inr disk')
    have "ran disk' = ran (rn_disk r)" using fs_rename_ran [OF Inr] unused by simp
    moreover have "disk' (fs_canon fs (with_file_name src (temp_leaf pid k))) = None"
      if "src \<in> fst ` set pairs" "Suc (rn_tmp_seq r) < k" for src k
    proof (rule fs_rename_entry [OF Inr])
      show "rn_disk r (fs_canon fs (with_file_name src (temp_leaf pid k))) = None"
        by (rule temp_unusedD [OF conjunct2 [OF inv] that(1) Suc_lessD [OF that(2)]])
      show "fs_canon fs (with_file_name src (temp_leaf pid k)) \<noteq> fs_canon fs tmp"
        using free mem that unfolding temps_free_def Let_def tmp_def src by (metis nat_neq_iff)
    qed
    ultimately show ?thesis using inv i len
      by (simp add: temp_unused_def park_disk(1) park_disk(3) [of fs r i pid, folded tmp_def, OF Inr] nth_list_update)
  qed
qed

text \<open>C19. No file is lost: whatever fails and however the names collide, a batch whose temporary names are free leaves every
  file on the disk, and none appears.\<close>

theorem renames_keep_files:
  assumes free: "temps_free fs pid pairs disk" and run: "run_renames lower fs pid pairs disk = (renamed, errors, disk')"
  shows "ran disk' = ran disk"
proof -
  let ?r = "run_start lower pairs disk"
  have "temp_unused fs pid pairs ?r" using free by (auto simp: temp_unused_def temps_free_def Let_def start_fields)
  then have start: "ran (rn_disk ?r) = ran disk \<and> temp_unused fs pid pairs ?r" by (simp add: start_fields)
  have "sched_ok lower pairs (run_loop fs pid pairs ?r) \<and>
      (ran (rn_disk (run_loop fs pid pairs ?r)) = ran disk \<and> temp_unused fs pid pairs (run_loop fs pid pairs ?r)) \<and>
      rn_remaining (run_loop fs pid pairs ?r) = 0"
    by (rule run_loop_induct [where P = "\<lambda>r. ran (rn_disk r) = ran disk \<and> temp_unused fs pid pairs r", OF start_ok start])
      (erule temp_unused_move [OF free] temp_unused_park [OF free], assumption+)+
  with run show ?thesis by (simp add: run_renames_def Let_def)
qed

section \<open>The simultaneous renaming\<close>

text \<open>What a batch means: every file of a pair moves from the old to the new name at once.\<close>

definition simultaneous :: "'i rename_fs \<Rightarrow> (rust_string \<times> rust_string) list \<Rightarrow> 'i disk \<Rightarrow> 'i disk" where
  "simultaneous fs pairs disk p =
     (case find (\<lambda>(old, new). fs_canon fs new = p) pairs of
        Some (old, _) \<Rightarrow> disk (fs_canon fs old)
      | None \<Rightarrow> if p \<in> fs_canon fs ` fst ` set pairs then None else disk p)"

text \<open>
  The batches that can succeed: nothing fails, the names differ without regard to case, every source is a file of its
  own, and a destination is free unless it is itself a source.
\<close>

definition batch_ok :: "(rust_string \<Rightarrow> rust_string) \<Rightarrow> 'i rename_fs \<Rightarrow> (rust_string \<times> rust_string) list \<Rightarrow> 'i disk \<Rightarrow> bool" where
  "batch_ok lower fs pairs disk \<longleftrightarrow>
     fs_fails fs = (\<lambda>_ _ _. None) \<and> (\<forall>p q. fs_canon fs p = fs_canon fs q \<longrightarrow> lower p = lower q) \<and>
     distinct (map (\<lambda>p. lower (fst p)) pairs) \<and> distinct (map (\<lambda>p. lower (snd p)) pairs) \<and>
     distinct (map (\<lambda>p. disk (fs_canon fs (fst p))) pairs) \<and> (\<forall>p\<in>set pairs. disk (fs_canon fs (fst p)) \<noteq> None) \<and>
     (\<forall>p\<in>set pairs. disk (fs_canon fs (snd p)) = None \<or> fs_canon fs (snd p) \<in> fs_canon fs ` fst ` set pairs)"

definition place_of :: "'i rename_fs \<Rightarrow> (rust_string \<times> rust_string) list \<Rightarrow> 'i rename_run \<Rightarrow> nat \<Rightarrow> rust_string" where
  "place_of fs pairs r i = fs_canon fs (if rn_done r ! i then snd (pairs ! i) else rn_cur_src r ! i)"

text \<open>The files of the pairs are at the places \<open>loc\<close>, and everything else is untouched.\<close>

definition placed :: "nat \<Rightarrow> (nat \<Rightarrow> 'i option) \<Rightarrow> 'i disk \<Rightarrow> (nat \<Rightarrow> rust_string) \<Rightarrow> 'i disk \<Rightarrow> bool" where
  "placed n ino other loc disk \<longleftrightarrow> (\<forall>i<n. disk (loc i) = ino i) \<and> (\<forall>p. (\<forall>i<n. loc i \<noteq> p) \<longrightarrow> disk p = other p)"

lemma placed_move:
  assumes placed: "placed n ino other loc disk" and i: "i < n" and some: "\<forall>i<n. ino i \<noteq> None" and distinct: "inj_on ino {..<n}"
    and t: "disk t = None \<or> t = loc i" and gone: "other (loc i) = None"
  shows "placed n ino other (loc(i := t)) (if disk t = ino i then disk else disk(loc i := None, t := ino i))"
proof (cases "t = loc i")
  case True
  with placed i show ?thesis by (auto simp: placed_def)
next
  case False
  with t some i have free: "disk t = None" "disk t \<noteq> ino i" by auto
  have at: "disk (loc j) = ino j" if "j < n" for j using placed that by (simp add: placed_def)
  have "ino j \<noteq> ino i" if "j < n" "j \<noteq> i" for j using distinct i that by (auto simp: inj_on_def)
  then have apart: "loc j \<noteq> loc i" "loc j \<noteq> t" if "j < n" "j \<noteq> i" for j using at [OF that(1)] at [OF i] some that free(1) by metis+
  show ?thesis unfolding placed_def
  proof (intro conjI allI impI)
    fix j
    assume "j < n"
    then show "(if disk t = ino i then disk else disk(loc i := None, t := ino i)) ((loc(i := t)) j) = ino j"
      using apart [of j] placed free(2) by (auto simp: placed_def)
  next
    fix p
    assume p: "\<forall>j<n. (loc(i := t)) j \<noteq> p"
    then have "p \<noteq> t" using i by auto
    moreover have "p \<noteq> loc i \<Longrightarrow> \<forall>j<n. loc j \<noteq> p" using p by (metis fun_upd_other)
    ultimately show "(if disk t = ino i then disk else disk(loc i := None, t := ino i)) p = other p"
      using placed gone free(2) by (auto simp: placed_def)
  qed
qed

definition batch_inv :: "(rust_string \<Rightarrow> rust_string) \<Rightarrow> 'i rename_fs \<Rightarrow> nat \<Rightarrow> (rust_string \<times> rust_string) list \<Rightarrow> 'i disk \<Rightarrow>
    'i rename_run \<Rightarrow> bool" where
  "batch_inv lower fs pid pairs disk r \<longleftrightarrow>
     placed (length pairs) (\<lambda>i. disk (fs_canon fs (fst (pairs ! i)))) (\<lambda>p. if p \<in> fs_canon fs ` fst ` set pairs then None else disk p)
       (place_of fs pairs r) (rn_disk r) \<and>
     rn_errors r = [] \<and>
     (\<forall>i<length pairs. if rn_parked r ! i
        then \<exists>k\<le>rn_tmp_seq r. rn_cur_src r ! i = with_file_name (fst (pairs ! i)) (temp_leaf pid k)
        else rn_cur_src r ! i = fst (pairs ! i)) \<and>
     (\<forall>i<length pairs. rn_done r ! i \<longrightarrow> (\<forall>j. blocker lower pairs i = Some j \<longrightarrow> j \<in> vacated r))"

lemma batch_okD:
  assumes "batch_ok lower fs pairs disk"
  shows "fs_rename fs old new d = (case d (fs_canon fs old) of None \<Rightarrow> Inl (fs_not_found fs)
      | Some i \<Rightarrow> Inr (if d (fs_canon fs new) = Some i then d else d(fs_canon fs old := None, fs_canon fs new := Some i)))"
    and "fs_canon fs p = fs_canon fs q \<Longrightarrow> lower p = lower q"
    and "i < length pairs \<Longrightarrow> j < length pairs \<Longrightarrow> lower (fst (pairs ! i)) = lower (fst (pairs ! j)) \<Longrightarrow> i = j"
    and "i < length pairs \<Longrightarrow> j < length pairs \<Longrightarrow> lower (snd (pairs ! i)) = lower (snd (pairs ! j)) \<Longrightarrow> i = j"
    and "inj_on (\<lambda>i. disk (fs_canon fs (fst (pairs ! i)))) {..<length pairs}"
    and "\<forall>i<length pairs. disk (fs_canon fs (fst (pairs ! i))) \<noteq> None"
    and "i < length pairs \<Longrightarrow> disk (fs_canon fs (snd (pairs ! i))) = None \<or> fs_canon fs (snd (pairs ! i)) \<in> fs_canon fs ` fst ` set pairs"
proof -
  from assms have fails: "fs_fails fs = (\<lambda>_ _ _. None)" and canon: "\<forall>p q. fs_canon fs p = fs_canon fs q \<longrightarrow> lower p = lower q"
    and olds: "distinct (map (\<lambda>p. lower (fst p)) pairs)" and news: "distinct (map (\<lambda>p. lower (snd p)) pairs)"
    and files: "distinct (map (\<lambda>p. disk (fs_canon fs (fst p))) pairs)" and some: "\<forall>p\<in>set pairs. disk (fs_canon fs (fst p)) \<noteq> None"
    and taken: "\<forall>p\<in>set pairs. disk (fs_canon fs (snd p)) = None \<or> fs_canon fs (snd p) \<in> fs_canon fs ` fst ` set pairs"
    unfolding batch_ok_def by - (elim conjE, assumption)+
  show "fs_rename fs old new d = (case d (fs_canon fs old) of None \<Rightarrow> Inl (fs_not_found fs)
      | Some i \<Rightarrow> Inr (if d (fs_canon fs new) = Some i then d else d(fs_canon fs old := None, fs_canon fs new := Some i)))"
    unfolding fs_rename_def fails by (simp split: option.split)
  show "fs_canon fs p = fs_canon fs q \<Longrightarrow> lower p = lower q" by (rule canon [rule_format])
  show "i < length pairs \<Longrightarrow> j < length pairs \<Longrightarrow> lower (fst (pairs ! i)) = lower (fst (pairs ! j)) \<Longrightarrow> i = j"
    using nth_eq_iff_index_eq [OF olds, of i j] by simp
  show "i < length pairs \<Longrightarrow> j < length pairs \<Longrightarrow> lower (snd (pairs ! i)) = lower (snd (pairs ! j)) \<Longrightarrow> i = j"
    using nth_eq_iff_index_eq [OF news, of i j] by simp
  show "inj_on (\<lambda>i. disk (fs_canon fs (fst (pairs ! i)))) {..<length pairs}"
    using nth_eq_iff_index_eq [OF files] by (auto intro: inj_onI)
  show "\<forall>i<length pairs. disk (fs_canon fs (fst (pairs ! i))) \<noteq> None" by (intro allI impI bspec [OF some] nth_mem)
  show "i < length pairs \<Longrightarrow> disk (fs_canon fs (snd (pairs ! i))) = None \<or> fs_canon fs (snd (pairs ! i)) \<in> fs_canon fs ` fst ` set pairs"
    by (intro bspec [OF taken] nth_mem)
qed

lemma batch_blocker:
  assumes "batch_ok lower fs pairs disk" "j < length pairs" "j \<noteq> i" "lower (fst (pairs ! j)) = lower (snd (pairs ! i))"
  shows "blocker lower pairs i = Some j"
proof -
  obtain k where k: "source_index lower pairs (lower (fst (pairs ! j))) = Some k" using source_index_found [OF assms(2)] by auto
  with source_index_Some [OF k] assms(2) batch_okD(3) [OF assms(1)] have "k = j" by blast
  with k assms show ?thesis by (simp add: blocker_def)
qed

lemma temps_freeD:
  assumes "temps_free fs pid pairs disk" "i < length pairs"
  defines "tmp \<equiv> \<lambda>i k. fs_canon fs (with_file_name (fst (pairs ! i)) (temp_leaf pid k))"
  shows "disk (tmp i k) = None" "tmp i k \<notin> fs_canon fs ` fst ` set pairs" "tmp i k \<notin> fs_canon fs ` snd ` set pairs"
    and "j < length pairs \<Longrightarrow> tmp j l = tmp i k \<Longrightarrow> l = k"
proof -
  have mem: "\<And>i. i < length pairs \<Longrightarrow> fst (pairs ! i) \<in> fst ` set pairs" by simp
  from assms(1) mem [OF assms(2)] show "disk (tmp i k) = None" "tmp i k \<notin> fs_canon fs ` fst ` set pairs" "tmp i k \<notin> fs_canon fs ` snd ` set pairs"
    unfolding temps_free_def Let_def tmp_def by blast+
  show "j < length pairs \<Longrightarrow> tmp j l = tmp i k \<Longrightarrow> l = k"
    using assms(1) mem [OF assms(2)] mem [of j] unfolding temps_free_def Let_def tmp_def by blast
qed

lemma batch_src:
  assumes "batch_inv lower fs pid pairs disk r" "i < length pairs"
  shows "if rn_parked r ! i then \<exists>k\<le>rn_tmp_seq r. rn_cur_src r ! i = with_file_name (fst (pairs ! i)) (temp_leaf pid k)
    else rn_cur_src r ! i = fst (pairs ! i)"
  using assms by (simp add: batch_inv_def)

text \<open>A ready pair finds its destination free, or it is there already.\<close>

lemma ready_target:
  assumes batch: "batch_ok lower fs pairs disk" and free: "temps_free fs pid pairs disk" and ok: "sched_ok lower pairs r"
    and inv: "batch_inv lower fs pid pairs disk r" and i: "i \<in> set (rn_ready r)"
  defines "t \<equiv> fs_canon fs (snd (pairs ! i))"
  shows "rn_disk r t = None \<or> t = place_of fs pairs r i"
proof (cases "\<exists>j<length pairs. place_of fs pairs r j = t")
  case False
  note i = ready_member [OF ok i]
  from False inv have "rn_disk r t = (if t \<in> fs_canon fs ` fst ` set pairs then None else disk t)"
    by (simp add: batch_inv_def placed_def)
  with batch_okD(7) [OF batch i(1)] show ?thesis by (auto simp: t_def)
next
  case True
  then obtain j where j: "j < length pairs" "place_of fs pairs r j = t" by blast
  note i = ready_member [OF ok i]
  have "j = i"
  proof (rule ccontr)
    assume ji: "j \<noteq> i"
    consider "rn_done r ! j" | "\<not> rn_done r ! j" "rn_parked r ! j" | "\<not> rn_done r ! j" "\<not> rn_parked r ! j" by blast
    then show False
    proof cases
      case 1
      with j have "lower (snd (pairs ! j)) = lower (snd (pairs ! i))"
        unfolding t_def by (intro batch_okD(2) [OF batch]) (simp add: place_of_def)
      with batch_okD(4) [OF batch j(1) i(1)] ji show False by simp
    next
      case 2
      with batch_src [OF inv j(1)] obtain k where "rn_cur_src r ! j = with_file_name (fst (pairs ! j)) (temp_leaf pid k)" by auto
      with 2 j temps_freeD(3) [OF free j(1), of k] i(1) show False by (auto simp: place_of_def t_def)
    next
      case 3
      with batch_src [OF inv j(1)] have src: "rn_cur_src r ! j = fst (pairs ! j)" by simp
      with 3 j have "lower (fst (pairs ! j)) = lower (snd (pairs ! i))"
        unfolding t_def by (intro batch_okD(2) [OF batch]) (simp add: place_of_def)
      from i(3) [OF batch_blocker [OF batch j(1) ji this]] 3 show False by (simp add: vacated_def)
    qed
  qed
  with j show ?thesis by simp
qed


lemma place_gone:
  assumes free: "temps_free fs pid pairs disk" and inv: "batch_inv lower fs pid pairs disk r" and i: "i < length pairs" "\<not> rn_done r ! i"
  shows "(if place_of fs pairs r i \<in> fs_canon fs ` fst ` set pairs then None else disk (place_of fs pairs r i)) = None"
proof (cases "rn_parked r ! i")
  case True
  with batch_src [OF inv i(1)] obtain k where "rn_cur_src r ! i = with_file_name (fst (pairs ! i)) (temp_leaf pid k)" by auto
  with i temps_freeD(1) [OF free i(1), of k] show ?thesis by (simp add: place_of_def)
next
  case False
  with batch_src [OF inv i(1)] i show ?thesis by (simp add: place_of_def)
qed

lemma batch_move:
  assumes batch: "batch_ok lower fs pairs disk" and free: "temps_free fs pid pairs disk" and ok: "sched_ok lower pairs r"
    and inv: "batch_inv lower fs pid pairs disk r" and ready: "rn_ready r \<noteq> []"
  shows "batch_inv lower fs pid pairs disk (move_ready fs pairs r)"
proof -
  let ?i = "last (rn_ready r)" and ?r = "move_ready fs pairs r"
  from ready have mem: "?i \<in> set (rn_ready r)" by simp
  note i = ready_member [OF ok mem] and target = ready_target [OF batch free ok inv mem]
  let ?ino = "\<lambda>i. disk (fs_canon fs (fst (pairs ! i)))" and ?t = "fs_canon fs (snd (pairs ! ?i))"
  have src: "fs_canon fs (rn_cur_src r ! ?i) = place_of fs pairs r ?i" using i(2) by (simp add: place_of_def)
  have at: "rn_disk r (place_of fs pairs r ?i) = ?ino ?i" using inv i(1) by (simp add: batch_inv_def placed_def)
  obtain f where f: "?ino ?i = Some f" using batch_okD(6) [OF batch] i(1) by blast
  have "rename_guarded fs (rn_cur_src r ! ?i) (snd (pairs ! ?i)) (rn_disk r) =
      Inr (if rn_disk r ?t = ?ino ?i then rn_disk r else (rn_disk r)(place_of fs pairs r ?i := None, ?t := ?ino ?i))"
    using target at f by (auto simp: rename_guarded_def batch_okD(1) [OF batch] src)
  then have step: "rn_disk ?r = (if rn_disk r ?t = ?ino ?i then rn_disk r else (rn_disk r)(place_of fs pairs r ?i := None, ?t := ?ino ?i))"
    "rn_errors ?r = rn_errors r" "rn_done ?r = (rn_done r)[?i := True]" "rn_parked ?r = rn_parked r"
    "rn_cur_src ?r = rn_cur_src r" "rn_tmp_seq ?r = rn_tmp_seq r"
    by (simp_all add: move_ready_def Let_def)
  have len: "length (rn_done r) = length pairs" "length (rn_parked r) = length pairs" using ok by (simp_all add: sched_ok_def settled_ok_def)
  have "place_of fs pairs ?r = (place_of fs pairs r)(?i := ?t)"
    using i(1) len by (auto simp: place_of_def step fun_eq_iff nth_list_update)
  moreover have "placed (length pairs) ?ino (\<lambda>p. if p \<in> fs_canon fs ` fst ` set pairs then None else disk p)
      ((place_of fs pairs r)(?i := ?t)) (rn_disk ?r)" unfolding step
    by (rule placed_move [where loc = "place_of fs pairs r" and disk = "rn_disk r", OF _ i(1) batch_okD(6) [OF batch] batch_okD(5) [OF batch] target])
      (use inv place_gone [OF free inv i(1,2)] in \<open>simp_all add: batch_inv_def\<close>)
  moreover have "vacated r \<subseteq> vacated ?r" using len by (auto simp: vacated_def step done_update [OF len(1)])
  ultimately show ?thesis using inv i len
    by (auto simp: batch_inv_def step(2-) done_update [OF len(1)] dest: subsetD)
qed

lemma batch_park:
  assumes batch: "batch_ok lower fs pairs disk" and free: "temps_free fs pid pairs disk" and ok: "sched_ok lower pairs r"
    and inv: "batch_inv lower fs pid pairs disk r" and park: "free_to_park r = Some i"
  shows "batch_inv lower fs pid pairs disk (park fs pid i r)"
proof -
  let ?r = "park fs pid i r"
  from free_to_park_Some [OF park] ok have i: "i < length pairs" "\<not> rn_done r ! i" "\<not> rn_parked r ! i"
    and len: "length (rn_parked r) = length pairs" "length (rn_cur_src r) = length pairs" "length (rn_done r) = length pairs"
    by (simp_all add: sched_ok_def settled_ok_def)
  with batch_src [OF inv i(1)] have src: "rn_cur_src r ! i = fst (pairs ! i)" by simp
  let ?ino = "\<lambda>i. disk (fs_canon fs (fst (pairs ! i)))"
  define tmp where "tmp = with_file_name (rn_cur_src r ! i) (temp_leaf pid (Suc (rn_tmp_seq r)))"
  note temp = temps_freeD [OF free i(1), where k = "Suc (rn_tmp_seq r)", folded src, folded tmp_def]
  have apart: "place_of fs pairs r j \<noteq> fs_canon fs tmp" if j: "j < length pairs" for j
  proof -
    consider "rn_done r ! j" | k where "\<not> rn_done r ! j" "k \<le> rn_tmp_seq r" "rn_cur_src r ! j = with_file_name (fst (pairs ! j)) (temp_leaf pid k)"
      | "\<not> rn_done r ! j" "rn_cur_src r ! j = fst (pairs ! j)"
      using batch_src [OF inv j] by (cases "rn_parked r ! j") auto
    then show ?thesis
    proof cases
      case 1
      with j have "place_of fs pairs r j \<in> fs_canon fs ` snd ` set pairs" by (simp add: place_of_def)
      with temp(3) show ?thesis by metis
    next
      case (2 k)
      with temp(4) [OF j, of k] src show ?thesis by (auto simp: place_of_def)
    next
      case 3
      with j have "place_of fs pairs r j \<in> fs_canon fs ` fst ` set pairs" by (simp add: place_of_def)
      with temp(2) show ?thesis by metis
    qed
  qed
  then have unused: "rn_disk r (fs_canon fs tmp) = None"
    using inv temp(1,2) by (auto simp: batch_inv_def placed_def)
  have place: "fs_canon fs (rn_cur_src r ! i) = place_of fs pairs r i" using i(2) by (simp add: place_of_def)
  have at: "rn_disk r (place_of fs pairs r i) = ?ino i" using inv i(1) by (simp add: batch_inv_def placed_def)
  obtain f where f: "?ino i = Some f" using batch_okD(6) [OF batch] i(1) by blast
  have "fs_rename fs (rn_cur_src r ! i) tmp (rn_disk r) =
      Inr (if rn_disk r (fs_canon fs tmp) = ?ino i then rn_disk r else (rn_disk r)(place_of fs pairs r i := None, fs_canon fs tmp := ?ino i))"
    using at f unused by (simp add: batch_okD(1) [OF batch] place)
  note step = park_disk(1) [of fs pid i r] park_disk(3) [of fs r i pid, folded tmp_def, OF this]
  have same: "rn_errors ?r = rn_errors r" "rn_done ?r = rn_done r" using \<open>fs_rename _ _ _ _ = _\<close> by (simp_all add: park_def Let_def tmp_def)
  have "place_of fs pairs ?r = (place_of fs pairs r)(i := fs_canon fs tmp)"
    using i len by (auto simp: place_of_def step same fun_eq_iff nth_list_update)
  moreover have "placed (length pairs) ?ino (\<lambda>p. if p \<in> fs_canon fs ` fst ` set pairs then None else disk p)
      ((place_of fs pairs r)(i := fs_canon fs tmp)) (rn_disk ?r)" unfolding conjunct1 [OF step(2)]
    by (rule placed_move [where loc = "place_of fs pairs r" and disk = "rn_disk r", OF _ i(1) batch_okD(6) [OF batch] batch_okD(5) [OF batch]
        disjI1 [OF unused]])
      (use inv place_gone [OF free inv i(1,2)] in \<open>simp_all add: batch_inv_def\<close>)
  moreover have "vacated r \<subseteq> vacated ?r" using len by (auto simp: vacated_def step same done_update [OF len(1)])
  moreover have "if rn_parked ?r ! j then \<exists>k\<le>rn_tmp_seq ?r. rn_cur_src ?r ! j = with_file_name (fst (pairs ! j)) (temp_leaf pid k)
      else rn_cur_src ?r ! j = fst (pairs ! j)" if j: "j < length pairs" for j
    using batch_src [OF inv j] i len by (cases "j = i") (auto simp: step tmp_def src intro: le_SucI split: if_splits)
  ultimately show ?thesis using inv by (auto simp: batch_inv_def same dest: subsetD)
qed


lemma start_batch:
  assumes "batch_ok lower fs pairs disk"
  shows "batch_inv lower fs pid pairs disk (run_start lower pairs disk)"
proof -
  have at: "place_of fs pairs (run_start lower pairs disk) i = fs_canon fs (fst (pairs ! i))" if "i < length pairs" for i
    using that by (simp add: place_of_def start_fields)
  have other: "p \<notin> fs_canon fs ` fst ` set pairs" if "\<forall>i<length pairs. place_of fs pairs (run_start lower pairs disk) i \<noteq> p" for p
  proof
    assume "p \<in> fs_canon fs ` fst ` set pairs"
    then obtain q where "q \<in> set pairs" and p: "p = fs_canon fs (fst q)" by (elim imageE) simp
    then obtain i where i: "i < length pairs" "pairs ! i = q" by (auto simp: in_set_conv_nth)
    from at [OF i(1)] that i p show False by simp
  qed
  have "placed (length pairs) (\<lambda>i. disk (fs_canon fs (fst (pairs ! i)))) (\<lambda>p. if p \<in> fs_canon fs ` fst ` set pairs then None else disk p)
      (place_of fs pairs (run_start lower pairs disk)) (rn_disk (run_start lower pairs disk))"
    unfolding placed_def start_fields(8)
  proof (intro conjI allI impI)
    fix i
    assume "i < length pairs"
    from at [OF this] show "disk (place_of fs pairs (run_start lower pairs disk) i) = disk (fs_canon fs (fst (pairs ! i)))" by (rule arg_cong)
  next
    fix p
    assume "\<forall>i<length pairs. place_of fs pairs (run_start lower pairs disk) i \<noteq> p"
    from other [OF this] show "disk p = (if p \<in> fs_canon fs ` fst ` set pairs then None else disk p)" by (simp only: if_False)
  qed
  moreover have "rn_parked (run_start lower pairs disk) ! i = False" "rn_done (run_start lower pairs disk) ! i = False"
    "rn_cur_src (run_start lower pairs disk) ! i = fst (pairs ! i)" if "i < length pairs" for i
    using that by (simp_all add: start_fields)
  ultimately show ?thesis unfolding batch_inv_def by (simp add: start_fields(5))
qed

lemma all_done: "settled_ok pairs r \<Longrightarrow> rn_remaining r = 0 \<Longrightarrow> i < length pairs \<Longrightarrow> rn_done r ! i"
  by (auto simp: settled_ok_def filter_empty_conv)

lemma find_target:
  assumes batch: "batch_ok lower fs pairs disk" and i: "i < length pairs"
  shows "find (\<lambda>(old, new). fs_canon fs new = fs_canon fs (snd (pairs ! i))) pairs = Some (pairs ! i)"
proof -
  have "j = i" if "j < length pairs" "fs_canon fs (snd (pairs ! j)) = fs_canon fs (snd (pairs ! i))" for j
    using batch_okD(4) [OF batch that(1) i] batch_okD(2) [OF batch that(2)] by blast
  with i show ?thesis unfolding find_Some_iff by (intro exI [of _ i]) (auto simp: case_prod_beta dest: less_trans)
qed

lemma placed_simultaneous:
  assumes batch: "batch_ok lower fs pairs disk" and ok: "settled_ok pairs r" "rn_remaining r = 0"
    and inv: "batch_inv lower fs pid pairs disk r"
  shows "rn_disk r = simultaneous fs pairs disk"
proof
  fix p
  have at: "place_of fs pairs r i = fs_canon fs (snd (pairs ! i))" if "i < length pairs" for i
    using all_done [OF ok that] by (simp add: place_of_def)
  show "rn_disk r p = simultaneous fs pairs disk p"
  proof (cases "\<exists>i<length pairs. fs_canon fs (snd (pairs ! i)) = p")
    case True
    then obtain i where i: "i < length pairs" "fs_canon fs (snd (pairs ! i)) = p" by blast
    then have "rn_disk r p = disk (fs_canon fs (fst (pairs ! i)))" using inv at [OF i(1)] by (auto simp: batch_inv_def placed_def)
    with find_target [OF batch i(1)] i(2) show ?thesis by (simp add: simultaneous_def case_prod_beta)
  next
    case False
    then have "find (\<lambda>(old, new). fs_canon fs new = p) pairs = None" by (auto simp: find_None_iff in_set_conv_nth) 
    moreover have "rn_disk r p = (if p \<in> fs_canon fs ` fst ` set pairs then None else disk p)"
      using False inv at by (simp add: batch_inv_def placed_def)
    ultimately show ?thesis by (simp add: simultaneous_def)
  qed
qed

lemma all_indices: "distinct ks \<Longrightarrow> set ks \<subseteq> {..<length xs} \<Longrightarrow> length ks = length xs \<Longrightarrow> mset (map ((!) xs) ks) = mset xs"
proof -
  assume ks: "distinct ks" "set ks \<subseteq> {..<length xs}" "length ks = length xs"
  then have "set ks = {..<length xs}" by (metis card_subset_eq distinct_card finite_lessThan card_lessThan)
  with ks(1) have "mset ks = mset [0..<length xs]" by (intro set_eq_iff_mset_eq_distinct [THEN iffD1]) (auto simp: atLeast0LessThan)
  then have "mset (map ((!) xs) ks) = mset (map ((!) xs) [0..<length xs])" by (simp only: mset_map)
  then show ?thesis by (simp add: map_nth)
qed

text \<open>C18. A batch that can succeed does: every pair is renamed, whatever chains and cycles the names form, and the disk is that
  of the simultaneous renaming.\<close>

theorem renames_simultaneous:
  assumes batch: "batch_ok lower fs pairs disk" and free: "temps_free fs pid pairs disk"
    and run: "run_renames lower fs pid pairs disk = (renamed, errors, disk')"
  shows "errors = [] \<and> mset renamed = mset pairs \<and> disk' = simultaneous fs pairs disk"
proof -
  let ?r = "run_loop fs pid pairs (run_start lower pairs disk)"
  have end_state: "sched_ok lower pairs ?r \<and> batch_inv lower fs pid pairs disk ?r \<and> rn_remaining ?r = 0"
    by (rule run_loop_induct [where P = "batch_inv lower fs pid pairs disk", OF start_ok start_batch [OF batch]])
      (erule (1) batch_move [OF batch free] batch_park [OF batch free], assumption)+
  then have ok: "settled_ok pairs ?r" "rn_remaining ?r = 0" and errors: "rn_errors ?r = []"
    by (simp_all add: sched_ok_def batch_inv_def)
  then obtain ks where "distinct ks" "set ks \<subseteq> {..<length pairs}" "rn_renamed ?r = map ((!) pairs) ks" "length ks = length pairs"
    by (fastforce simp: settled_ok_def)
  with all_indices [of ks pairs] have "mset (rn_renamed ?r) = mset pairs" by simp
  moreover have "rn_disk ?r = simultaneous fs pairs disk"
    using placed_simultaneous [OF batch ok] end_state by blast
  ultimately show ?thesis using run errors by (simp add: run_renames_def Let_def)
qed

section \<open>Temporary names\<close>

lemma decimal_inject: "decimal a = decimal b \<Longrightarrow> a = b"
  by (metis decimal_value of_nat_eq_iff)

lemma temp_leaf_inject: "temp_leaf pid k = temp_leaf pid l \<Longrightarrow> k = l"
  by (simp add: temp_leaf_def decimal_inject)

lemma sibling_components:
  "path_components (ascii ''/d/a'') = [PcRoot, PcNormal (ascii ''d''), PcNormal (ascii ''a'')]"
  "path_components (ascii ''/d/b'') = [PcRoot, PcNormal (ascii ''d''), PcNormal (ascii ''b'')]"
  by (simp_all add: path_components_def component_of_def ascii_def)

lemma folder_text: "path_text [PcRoot, PcNormal (ascii ''d'')] = ascii ''/d''"
  by (simp add: path_text_def path_push_def Let_def ascii_def)

lemma sibling_name:
  assumes "take 1 leaf \<noteq> [0x2F]"
  shows "with_file_name (ascii ''/d/a'') leaf = ascii ''/d/'' @ leaf" "with_file_name (ascii ''/d/b'') leaf = ascii ''/d/'' @ leaf"
proof -
  have "path_push (ascii ''/d'') (PcNormal leaf) = ascii ''/d/'' @ leaf" using assms by (simp add: path_push_def ascii_def)
  then show "with_file_name (ascii ''/d/a'') leaf = ascii ''/d/'' @ leaf" "with_file_name (ascii ''/d/b'') leaf = ascii ''/d/'' @ leaf"
    by (simp_all add: with_file_name_def sibling_components path_file_name_def folder_text)
qed

lemma temp_leaf_sibling: "take 1 (temp_leaf pid k) \<noteq> [0x2F]" "4 < length (temp_leaf pid k)"
  by (simp_all add: temp_leaf_def ascii_def)

definition swap_pairs :: "(rust_string \<times> rust_string) list" where
  "swap_pairs = [(ascii ''/d/a'', ascii ''/d/b''), (ascii ''/d/b'', ascii ''/d/a'')]"

definition swap_disk :: "nat disk" where
  "swap_disk = [ascii ''/d/a'' \<mapsto> 1, ascii ''/d/b'' \<mapsto> 2]"

definition plain_fs :: "nat rename_fs" where
  "plain_fs = \<lparr>fs_canon = id, fs_not_found = [], fs_fails = (\<lambda>_ _ _. None)\<rparr>"

lemma swap_temps: "temps_free plain_fs 7 swap_pairs swap_disk"
proof -
  have other: "ascii ''/d/'' @ temp_leaf 7 k \<noteq> ascii ''/d/a''" "ascii ''/d/'' @ temp_leaf 7 k \<noteq> ascii ''/d/b''" for k
    using temp_leaf_sibling(2) [of 7 k] by (auto simp: ascii_def)
  note sib = sibling_name [OF temp_leaf_sibling(1)]
  show ?thesis
    unfolding temps_free_def swap_pairs_def Let_def
    by (simp add: plain_fs_def sib other swap_disk_def) (auto dest: temp_leaf_inject)
qed

lemma swap_ok: "batch_ok id plain_fs swap_pairs swap_disk"
  by (auto simp: batch_ok_def plain_fs_def swap_pairs_def swap_disk_def ascii_def)

lemma renames_simultaneous_witness:
  "case run_renames id plain_fs 7 swap_pairs swap_disk of (renamed, errors, disk') \<Rightarrow>
     errors = [] \<and> mset renamed = mset swap_pairs \<and> disk' = simultaneous plain_fs swap_pairs swap_disk"
  by (cases "run_renames id plain_fs 7 swap_pairs swap_disk") (use renames_simultaneous [OF swap_ok swap_temps] in simp)

lemma renames_keep_files_witness:
  "ran (snd (snd (run_renames id plain_fs 7 swap_pairs swap_disk))) = ran swap_disk"
  by (cases "run_renames id plain_fs 7 swap_pairs swap_disk") (use renames_keep_files [OF swap_temps] in simp)

text \<open>A file that already has the temporary name, as one preserved there by an earlier batch, is overwritten.\<close>

definition left_behind :: rust_string where
  "left_behind = ascii ''/d/.ferail-rename-7-1.tmp''"

lemma left_behind_temp: "ascii ''/d/'' @ temp_leaf 7 (Suc 0) = left_behind"
  by (simp add: left_behind_def temp_leaf_def decimal.simps ascii_def)

lemma swap_names: "ascii ''/d/a'' \<noteq> ascii ''/d/b''" "left_behind \<noteq> ascii ''/d/a''" "left_behind \<noteq> ascii ''/d/b''"
  by (simp_all add: left_behind_def ascii_def)

lemma parked_file_overwritten:
  "run_renames id plain_fs 7 swap_pairs (swap_disk(left_behind \<mapsto> 3)) = (rev swap_pairs, [], [ascii ''/d/a'' \<mapsto> 2, ascii ''/d/b'' \<mapsto> 1])"
proof -
  have names: "ascii ''/d/b'' \<noteq> ascii ''/d/a''" "ascii ''/d/a'' \<noteq> left_behind" "ascii ''/d/b'' \<noteq> left_behind" using swap_names by metis+
  note eval = run_start_def source_index_def place_pair_def wake_def settle_def move_ready_def park_def free_to_park_def rename_guarded_def
    fs_rename_def plain_fs_def swap_pairs_def swap_disk_def sibling_name [OF temp_leaf_sibling(1)] left_behind_temp
  define r0 :: "nat rename_run" where "r0 = \<lparr>rn_waiters = [Suc 0 \<mapsto> [0], 0 \<mapsto> [Suc 0]], rn_ready = [],
    rn_cur_src = [ascii ''/d/a'', ascii ''/d/b''], rn_done = [False, False], rn_parked = [False, False], rn_renamed = [],
    rn_errors = [], rn_remaining = 2, rn_tmp_seq = 0, rn_disk = [ascii ''/d/a'' \<mapsto> 1, ascii ''/d/b'' \<mapsto> 2, left_behind \<mapsto> 3]\<rparr>"
  define r1 where "r1 = park plain_fs 7 0 r0"
  define r2 where "r2 = move_ready plain_fs swap_pairs r1"
  define r3 where "r3 = move_ready plain_fs swap_pairs r2"
  have r0: "run_start id swap_pairs (swap_disk(left_behind \<mapsto> 3)) = r0" by (simp add: eval names swap_names Let_def r0_def)
  have r1: "r1 = \<lparr>rn_waiters = [Suc 0 \<mapsto> [0]], rn_ready = [Suc 0], rn_cur_src = [left_behind, ascii ''/d/b''],
      rn_done = [False, False], rn_parked = [True, False], rn_renamed = [], rn_errors = [], rn_remaining = 2, rn_tmp_seq = 1,
      rn_disk = [ascii ''/d/b'' \<mapsto> 2, left_behind \<mapsto> 1]\<rparr>"
    by (simp add: eval names swap_names Let_def r0_def r1_def)
  have r2: "r2 = \<lparr>rn_waiters = Map.empty, rn_ready = [0], rn_cur_src = [left_behind, ascii ''/d/b''], rn_done = [False, True],
      rn_parked = [True, False], rn_renamed = [(ascii ''/d/b'', ascii ''/d/a'')], rn_errors = [], rn_remaining = 1, rn_tmp_seq = 1,
      rn_disk = [left_behind \<mapsto> 1, ascii ''/d/a'' \<mapsto> 2]\<rparr>"
    by (simp add: eval names swap_names Let_def r1 r2_def)
  have r3: "rn_remaining r3 = 0" "rn_renamed r3 = rev swap_pairs" "rn_errors r3 = []" "rn_disk r3 = [ascii ''/d/a'' \<mapsto> 2, ascii ''/d/b'' \<mapsto> 1]"
    by (simp_all add: eval names swap_names Let_def r2 r3_def fun_upd_twist)
  have "free_to_park r0 = Some 0" by (simp add: r0_def free_to_park_def)
  then have "run_loop plain_fs 7 swap_pairs r0 = run_loop plain_fs 7 swap_pairs r1"
    by (subst run_loop.simps) (simp add: r0_def r1_def)
  also have "\<dots> = run_loop plain_fs 7 swap_pairs r2" by (subst run_loop.simps) (simp add: r1 r2_def)
  also have "\<dots> = run_loop plain_fs 7 swap_pairs r3" by (subst run_loop.simps) (simp add: r2 r3_def)
  also have "\<dots> = r3" by (subst run_loop.simps) (simp add: r3)
  finally show ?thesis by (simp add: run_renames_def r0 r3 Let_def)
qed

text \<open>Away from macOS a slash in a new name is kept, and an absolute name replaces the whole path.\<close>

lemma slash_escapes: "with_file_name path (on_disk_leaf False (0x2F # s)) = 0x2F # s"
  by (simp add: with_file_name_def on_disk_leaf_def path_push_def Let_def)

section \<open>The plan\<close>

definition changed_row :: "rename_row \<Rightarrow> bool" where
  "changed_row row \<longleftrightarrow> rw_after row \<noteq> rw_before row"

lemma new_names_length: "new_names env rule regex k items = Ok afters \<Longrightarrow> length afters = length items"
proof (induction items arbitrary: k afters)
  case (Cons item items)
  then show ?case by (auto simp: obind_Ok_iff)
qed simp

lemma count_one: "\<forall>x\<in>set xs. \<not> 1 < count_list xs x \<Longrightarrow> distinct xs"
proof (induction xs)
  case (Cons x xs)
  then have "\<not> 1 < count_list (x # xs) x" by (meson list.set_intros(1))
  then have "x \<notin> set xs" by (simp add: count_list_0_iff)
  moreover have "\<not> 1 < count_list xs y" if "y \<in> set xs" for y
  proof -
    have "\<not> 1 < count_list (x # xs) y" using Cons.prems that by (meson list.set_intros(2))
    then show ?thesis by (simp split: if_splits)
  qed
  ultimately show ?case using Cons.IH by simp
qed simp

lemma no_conflicts:
  assumes "rp_conflicts (plan_of_names env renames) = 0" and "(before, after) \<in> set renames" and "after \<noteq> before"
  shows "row_status_of env renames (before, after) = RsRenamed"
proof -
  have "\<forall>row\<in>set renames. \<not> (case row_status_of env renames row of RsConflict _ \<Rightarrow> True | _ \<Rightarrow> False)"
    using assms(1) by (auto simp: plan_of_names_def Let_def filter_empty_conv)
  with assms(2,3) show ?thesis by (cases "row_status_of env renames (before, after)") (auto simp: row_status_of_def split: if_splits)
qed

lemma renamed_row:
  "row_status_of env renames r = RsRenamed \<longleftrightarrow> snd r \<noteq> fst r \<and> trim (snd r) \<noteq> [] \<and>
     \<not> 1 < count_list (changed_targets env renames) (te_lower env (snd r)) \<and> te_lower env (snd r) \<notin> set (unchanged_lower env renames)"
  by (cases r) (simp add: row_status_of_def)

lemma build_plan_names:
  assumes "(build_plan env rule items :: ('e, rename_plan) outcome) = Ok plan" "rp_error plan = None"
  obtains renames where "plan = plan_of_names env renames" "map fst renames = map fst items"
proof -
  have zip: "map fst (zip (map fst items) afters) = map fst items"
    if "(new_names env rule regex k items :: ('e, rust_string list) outcome) = Ok afters" for regex k afters
    using new_names_length [OF that] by simp
  have "\<exists>regex afters. (new_names env rule regex 0 items :: ('e, rust_string list) outcome) = Ok afters \<and> plan = plan_of_names env (zip (map fst items) afters)"
    using assms by (auto simp: build_plan_def Let_def obind_Ok_iff split: if_splits sum.splits)
  then show thesis using that zip by blast
qed

text \<open>C21. A plan without conflicts is one the batch can carry out: its rows are the selected names in their order, the names it
  changes to are not blank, differ from each other without regard to case and from every name that stays, and it says how many
  change.\<close>

theorem conflict_free_plan:
  assumes "build_plan env rule items = Ok plan" and "rp_error plan = None" and "rp_conflicts plan = 0"
  shows "map rw_before (rp_rows plan) = map fst items \<and>
    distinct (map (\<lambda>row. te_lower env (rw_after row)) (filter changed_row (rp_rows plan))) \<and>
    (\<forall>row\<in>set (rp_rows plan). changed_row row \<longrightarrow> trim (rw_after row) \<noteq> [] \<and> rw_status row = RsRenamed \<and>
       (\<forall>other\<in>set (rp_rows plan). \<not> changed_row other \<longrightarrow> te_lower env (rw_before other) \<noteq> te_lower env (rw_after row))) \<and>
    rp_renamed plan = length (filter changed_row (rp_rows plan))"
proof -
  obtain renames where plan: "plan = plan_of_names env renames" "map fst renames = map fst items"
    using build_plan_names [OF assms(1,2)] .
  note renamed = no_conflicts [OF assms(3) [unfolded plan(1)]]
  define mk where "mk = (\<lambda>(before, after). \<lparr>rw_before = before, rw_after = after, rw_status = row_status_of env renames (before, after)\<rparr>)"
  have rows: "rp_rows plan = map mk renames" by (simp add: plan(1) plan_of_names_def Let_def mk_def)
  have mk: "rw_before (mk r) = fst r" "rw_after (mk r) = snd r" "rw_status (mk r) = row_status_of env renames r"
    "changed_row (mk r) \<longleftrightarrow> snd r \<noteq> fst r" for r
    by (simp_all add: mk_def changed_row_def split: prod.split)
  have targets: "map (\<lambda>row. te_lower env (rw_after row)) (filter changed_row (rp_rows plan)) = changed_targets env renames"
    by (simp add: rows filter_map comp_def mk changed_targets_def case_prod_beta')
  have status: "row_status_of env renames r = RsRenamed" if "r \<in> set renames" "snd r \<noteq> fst r" for r
    using renamed [of "fst r" "snd r"] that by simp
  have "distinct (changed_targets env renames)"
  proof (intro count_one ballI)
    fix x
    assume "x \<in> set (changed_targets env renames)"
    then obtain r where r: "r \<in> set renames" "snd r \<noteq> fst r" and x: "x = te_lower env (snd r)"
      by (auto simp: changed_targets_def)
    from status [OF r] show "\<not> 1 < count_list (changed_targets env renames) x" unfolding renamed_row x by blast
  qed
  moreover have "trim (snd r) \<noteq> [] \<and> row_status_of env renames r = RsRenamed \<and>
      (\<forall>other\<in>set renames. snd other = fst other \<longrightarrow> te_lower env (fst other) \<noteq> te_lower env (snd r))"
    if r: "r \<in> set renames" "snd r \<noteq> fst r" for r
  proof -
    have "te_lower env (fst other) \<in> set (unchanged_lower env renames)" if "other \<in> set renames" "snd other = fst other" for other
      using that by (force simp: unchanged_lower_def case_prod_beta')
    with status [OF r] show ?thesis unfolding renamed_row by metis
  qed
  moreover have "rp_renamed plan = length (filter changed_row (rp_rows plan))"
  proof -
    have "row_status_of env renames r = RsRenamed \<longleftrightarrow> snd r \<noteq> fst r" if "r \<in> set renames" for r
      using status [OF that] by (auto simp: renamed_row)
    then have "filter (\<lambda>r. row_status_of env renames r = RsRenamed) renames = filter (\<lambda>r. snd r \<noteq> fst r) renames" by (intro filter_cong) auto
    then show ?thesis by (simp add: rows filter_map comp_def mk) (simp add: plan(1) plan_of_names_def Let_def filter_map comp_def case_prod_beta)
  qed
  moreover have "map rw_before (rp_rows plan) = map fst items" by (simp add: rows comp_def mk plan(2))
  ultimately show ?thesis unfolding targets by (simp add: rows mk)
qed


definition sample_env :: text_env where
  "sample_env = \<lparr>te_lower = id, te_upper = id, te_char_lower = (\<lambda>c. [c]), te_char_upper = (\<lambda>c. [c]), te_regex = (\<lambda>_. Inl []),
     te_invalid = id\<rparr>"

definition sample_rule :: rename_rule where
  "sample_rule = RenameRule_default\<lparr>rl_find := ascii ''a'', rl_replace := ascii ''b''\<rparr>"

lemma sample_plan:
  "(build_plan sample_env sample_rule [(ascii ''a.x'', 0), (ascii ''c'', 0)] :: (unit, rename_plan) outcome) =
     Ok \<lparr>rp_rows = [\<lparr>rw_before = ascii ''a.x'', rw_after = ascii ''b.x'', rw_status = RsRenamed\<rparr>,
       \<lparr>rw_before = ascii ''c'', rw_after = ascii ''c'', rw_status = RsUnchanged\<rparr>], rp_renamed = 1, rp_conflicts = 0, rp_error = None\<rparr>"
proof -
  have replaced: "str_replace (ascii ''a'') (ascii ''b'') (ascii ''a.x'') = ascii ''b.x''" "str_replace (ascii ''a'') (ascii ''b'') (ascii ''c'') = ascii ''c''"
    by (simp_all add: str_replace_def ascii_def)
  have stems: "split_stem_ext (ascii ''b.x'') = (ascii ''b'', Some (ascii ''x''))" "split_stem_ext (ascii ''c'') = (ascii ''c'', None)"
    by (simp_all add: split_stem_ext_def rsplit_once_dot_def ascii_def)
  have names: "(new_names sample_env sample_rule None 0 [(ascii ''a.x'', 0), (ascii ''c'', 0)] :: (unit, rust_string list) outcome) =
      Ok [ascii ''b.x'', ascii ''c'']"
    by (simp add: new_name_def sample_rule_def RenameRule_default_def replaced stems apply_case_def trim_def) (simp add: ascii_def)
  have status: "row_status_of sample_env [(ascii ''a.x'', ascii ''b.x''), (ascii ''c'', ascii ''c'')] (ascii ''a.x'', ascii ''b.x'') = RsRenamed"
    "row_status_of sample_env [(ascii ''a.x'', ascii ''b.x''), (ascii ''c'', ascii ''c'')] (ascii ''c'', ascii ''c'') = RsUnchanged"
    by (simp_all add: row_status_of_def changed_targets_def unchanged_lower_def sample_env_def trim_def is_whitespace_def ascii_def)
  have "\<not> rl_use_regex sample_rule" by (simp add: sample_rule_def RenameRule_default_def)
  then show ?thesis by (simp add: build_plan_def names plan_of_names_def status Let_def del: new_names.simps)
qed

lemma conflict_free_plan_witness:
  "distinct [te_lower sample_env (ascii ''b.x'')] \<and> trim (ascii ''b.x'') \<noteq> []"
  using conflict_free_plan [OF sample_plan] by (simp add: changed_row_def split: if_splits) 

section \<open>Dates\<close>

lemma is_leap_year: "0 \<le> y \<Longrightarrow> is_leap y \<longleftrightarrow> leap_year (nat y)"
proof -
  assume "0 \<le> y"
  then obtain n where y: "y = int n" by (metis nonneg_int_cases)
  have dvd: "int n mod numeral k = 0 \<longleftrightarrow> numeral k dvd n" for k by (metis mod_0_imp_dvd dvd_imp_mod_0 of_nat_dvd_iff of_nat_numeral)
  have "400 dvd n \<Longrightarrow> 4 dvd n" by (rule dvd_trans [of 4 400]) simp_all
  then show ?thesis unfolding is_leap_def leap_year_def y nat_int dvd by blast
qed

definition year_length :: "int \<Rightarrow> int" where
  "year_length y = (if is_leap y then 366 else 365)"

lemma year_length_step: "0 \<le> y \<Longrightarrow> year_days y = year_days (y - 1) + year_length y"
  using year_days_step [of "nat y"] by (simp add: year_length_def is_leap_year)

lemma years_up_spec:
  assumes "0 \<le> y" "0 \<le> d" "y < 2 ^ 31" "year_days (y - 1) + d < 365 * (2 ^ 31 - 1)"
  shows "\<exists>y' d'. (years_up y d :: ('e, int \<times> int) outcome) = Ok (y', d') \<and> 0 \<le> y' \<and> 0 \<le> d' \<and> d' < year_length y' \<and>
    year_days (y' - 1) + d' = year_days (y - 1) + d"
  using assms
proof (induction "nat d" arbitrary: y d rule: less_induct)
  case less
  show ?case
  proof (cases "d < year_length y")
    case True
    then have "(years_up y d :: ('e, int \<times> int) outcome) = Ok (y, d)" by (simp add: years_up.simps [of y d] year_length_def Let_def)
    with True less.prems show ?thesis by blast
  next
    case False
    note step = year_length_step [OF less.prems(1)]
    have "365 * y \<le> year_days y" using less.prems(1) year_days_bounds [of y] by simp
    with False less.prems(4) step have y: "y + 1 < 2 ^ 31" by simp
    then have "i32 (y + 1) = (Ok (y + 1) :: ('e, int) outcome)" using less.prems(1) by (simp add: i32_def)
    with False have same: "(years_up y d :: ('e, int \<times> int) outcome) = years_up (y + 1) (d - year_length y)"
      by (subst years_up.simps) (simp add: year_length_def Let_def)
    have next_year: "0 \<le> d - year_length y" "year_days (y + 1 - 1) + (d - year_length y) = year_days (y - 1) + d" using False step by simp_all
    have "nat (d - year_length y) < nat d" using False less.prems(2) by (simp add: year_length_def split: if_splits)
    from less.hyps [OF this _ next_year(1) y] show ?thesis unfolding same next_year(2) using less.prems(1,4) by simp
  qed
qed

lemma years_down_spec:
  assumes "0 \<le> y" "d < year_length y" "- 366 \<le> year_days (y - 1) + d" "y < 2 ^ 31"
  shows "\<exists>y' d'. (years_down y d :: ('e, int \<times> int) outcome) = Ok (y', d') \<and> 0 \<le> y' \<and> 0 \<le> d' \<and> d' < year_length y' \<and>
    year_days (y' - 1) + d' = year_days (y - 1) + d"
  using assms
proof (induction "nat (- d)" arbitrary: y d rule: less_induct)
  case less
  show ?case
  proof (cases "0 \<le> d")
    case True
    then have "(years_down y d :: ('e, int \<times> int) outcome) = Ok (y, d)" by (simp add: years_down.simps [of y d])
    with True less.prems show ?thesis by blast
  next
    case False
    have "y \<noteq> 0"
    proof
      assume "y = 0"
      with less.prems(3) False show False by (simp add: year_days_def)
    qed
    with less.prems(1) have y: "0 \<le> y - 1" by simp
    note step = year_length_step [OF this]
    have "i32 (y - 1) = (Ok (y - 1) :: ('e, int) outcome)" using y less.prems(4) by (simp add: i32_def)
    with False have same: "(years_down y d :: ('e, int \<times> int) outcome) = years_down (y - 1) (d + year_length (y - 1))"
      by (subst years_down.simps) (simp add: year_length_def)
    have prev: "d + year_length (y - 1) < year_length (y - 1)" "year_days (y - 1 - 1) + (d + year_length (y - 1)) = year_days (y - 1) + d"
      using False step by simp_all
    have "nat (- (d + year_length (y - 1))) < nat (- d)" using False by (simp add: year_length_def)
    from less.hyps [OF this y prev(1)] show ?thesis unfolding same prev(2) using less.prems(3,4) by simp
  qed
qed

lemma months_up_spec:
  fixes d :: int
  assumes "0 \<le> d" "d < (if leap_year y then 366 else 365)"
  shows "case months_up [31, if leap_year y then 29 else 28, 31, 30, 31, 30, 31, 31, 30, 31, 30, 31] 1 d of (mo, e) \<Rightarrow>
    1 \<le> mo \<and> mo \<le> 12 \<and> 0 \<le> e \<and> e < days_in_month y (nat mo) \<and> d = (\<Sum>k\<leftarrow>[1..<nat mo]. days_in_month y k) + e"
  using assms by (cases "leap_year y") (simp_all add: days_in_month_def upt_rec split: if_split)

lemma rename_ymd_calendar:
  assumes "- 719528 \<le> days" "days < 7 * 10 ^ 11"
  shows "\<exists>y m d. (epoch_days_to_ymd days :: ('e, int \<times> int \<times> int) outcome) = Ok (y, m, d) \<and> 0 \<le> y \<and> 1 \<le> m \<and> m \<le> 12 \<and> 1 \<le> d \<and>
    d \<le> days_in_month (nat y) (nat m) \<and> day_number (nat y) (nat m) d = days"
proof -
  have "\<exists>y d. (years_up 1970 days :: ('e, int \<times> int) outcome) = Ok (y, d) \<and> 0 \<le> y \<and> d < year_length y \<and>
      year_days (y - 1) + d = days + 719162 \<and> y < 2 ^ 31"
  proof (cases "0 \<le> days")
    case True
    obtain y d where *: "(years_up 1970 days :: ('e, int \<times> int) outcome) = Ok (y, d)" "0 \<le> y" "0 \<le> d" "d < year_length y"
      "year_days (y - 1) + d = days + 719162"
      using years_up_spec [of 1970 days, where 'e = 'e] True assms(2) by (auto simp: year_1969 add.commute)
    have "365 * (y - 1) \<le> year_days (y - 1)" if "1 \<le> y" using that year_days_bounds [of "y - 1"] by simp
    with *(3,5) assms(2) have "y < 2 ^ 31" by (cases "1 \<le> y") simp_all
    with * show ?thesis by blast
  next
    case False
    then have "days < year_length 1970" by (simp add: year_length_def)
    moreover from this have "(years_up 1970 days :: ('e, int \<times> int) outcome) = Ok (1970, days)"
      by (subst years_up.simps) (simp add: year_length_def Let_def)
    ultimately show ?thesis by (intro exI [of _ 1970] exI [of _ days]) (simp add: year_1969)
  qed
  then obtain y0 d0 where up: "(years_up 1970 days :: ('e, int \<times> int) outcome) = Ok (y0, d0)" "0 \<le> y0" "d0 < year_length y0"
    "year_days (y0 - 1) + d0 = days + 719162" "y0 < 2 ^ 31" by blast
  have "- 366 \<le> year_days (y0 - 1) + d0" using up(4) assms(1) by simp
  from years_down_spec [OF up(2,3) this up(5), where 'e = 'e] obtain y r where
    down: "(years_down y0 d0 :: ('e, int \<times> int) outcome) = Ok (y, r)" "0 \<le> y" "0 \<le> r" "r < year_length y"
    "year_days (y - 1) + r = days + 719162" unfolding up(4) by blast
  have r: "r < (if leap_year (nat y) then 366 else 365)" using down(2,4) by (simp add: year_length_def is_leap_year)
  obtain mo e where m: "months_up [31, if leap_year (nat y) then 29 else 28, 31, 30, 31, 30, 31, 31, 30, 31, 30, 31] 1 r = (mo, e)"
    by (rule prod.exhaust)
  note month = months_up_spec [OF down(3) r, unfolded m prod.case]
  have "day_number (nat y) (nat mo) (e + 1) = days"
    using down(2,5) month by (simp add: day_number_def years_before epoch_year year_1969)
  moreover have "(epoch_days_to_ymd days :: ('e, int \<times> int \<times> int) outcome) = Ok (y, mo, e + 1)"
    by (simp add: epoch_days_to_ymd_def up(1) down(1) is_leap_year [OF down(2)] m del: months_up.simps)
  ultimately show ?thesis using month down(2) by (intro exI [of _ y] exI [of _ mo] exI [of _ "e + 1"]) simp
qed

lemma month_sum_mono: "1 \<le> m \<Longrightarrow> m < k \<Longrightarrow> (\<Sum>i\<leftarrow>[1..<m]. days_in_month y i) + days_in_month y m \<le> (\<Sum>i\<leftarrow>[1..<k]. days_in_month y i)"
proof -
  assume m: "1 \<le> m" "m < k"
  then have "[1..<k] = [1..<m] @ [m] @ [Suc m..<k]" by (metis append_Cons append_Nil less_imp_le_nat upt_add_eq_append upt_conv_Cons le_add_diff_inverse)
  moreover have "0 \<le> (\<Sum>i\<leftarrow>[Suc m..<k]. days_in_month y i)" by (rule sum_list_nonneg) (auto simp: days_in_month_def)
  ultimately show ?thesis by simp
qed

lemma date_unique:
  assumes "1 \<le> m" "m \<le> 12" "1 \<le> d" "d \<le> days_in_month y m" and "1 \<le> m'" "m' \<le> 12" "1 \<le> d'" "d' \<le> days_in_month y' m'"
    and same: "day_number y m d = day_number y' m' d'"
  shows "y = y' \<and> m = m' \<and> d = d'"
proof -
  have year: "(\<Sum>i\<leftarrow>[1..<m]. days_in_month y i) + d \<le> year_days (int y) - year_days (int y - 1)" if "1 \<le> m" "m \<le> 12" "d \<le> days_in_month y m" for y m d
    using month_sum_mono [of m 13 y] that year_days_step [of y] days_in_year_eq [of y] by (simp add: days_in_year_def)
  have pos: "0 \<le> (\<Sum>i\<leftarrow>[1..<m]. days_in_month y i)" for y m by (rule sum_list_nonneg) (auto simp: days_in_month_def)
  have "\<not> y < y'" if "day_number y m d = day_number y' m' d'" "1 \<le> m" "m \<le> 12" "d \<le> days_in_month y m" "1 \<le> d'" for y m d y' m' d'
  proof
    assume "y < y'"
    then have "year_days (int y) \<le> year_days (int y' - 1)" by (intro year_days_mono) simp_all
    with year [OF that(2-4)] pos [of y' m'] that(1,5) show False by (simp add: day_number_def years_before)
  qed
  with assms have y: "y = y'" by (metis linorder_neqE_nat)
  have "\<not> m < m'" if "day_number y m d = day_number y m' d'" "1 \<le> m" "d \<le> days_in_month y m" "1 \<le> d'" for m d m' d'
    using month_sum_mono [OF that(2), of m' y] that by (auto simp: day_number_def)
  with assms y have "m = m'" by (metis linorder_neqE_nat)
  with y same show ?thesis by (simp add: day_number_def)
qed

text \<open>The \<open>{date}\<close> of a new name is the date the Modified column shows: the loops over the years and the closed form of
  \<open>lib.rs\<close> agree, from the year 0 on for times below 6 * 10^16.\<close>

theorem rename_date_agrees:
  assumes "- 62167219200 \<le> unix" and "unix < 6 * 10 ^ 16"
  shows "(rename_date unix :: ('e, rust_string) outcome) = format_date unix"
proof -
  obtain y m d where column: "(ymd unix :: ('e, int \<times> int \<times> int) outcome) = Ok (y, m, d)" "0 \<le> y" "1 \<le> m" "m \<le> 12" "1 \<le> d"
    "d \<le> days_in_month (nat y) (nat m)" "day_number (nat y) (nat m) d = unix div 86400"
    using ymd_calendar [OF assms] by blast
  have "- 719528 \<le> unix div 86400" "unix div 86400 < 7 * 10 ^ 11" using assms by simp_all
  then obtain y' m' d' where name: "(epoch_days_to_ymd (unix div 86400) :: ('e, int \<times> int \<times> int) outcome) = Ok (y', m', d')" "0 \<le> y'"
    "1 \<le> m'" "m' \<le> 12" "1 \<le> d'" "d' \<le> days_in_month (nat y') (nat m')" "day_number (nat y') (nat m') d' = unix div 86400"
    using rename_ymd_calendar by blast
  have "nat y = nat y' \<and> nat m = nat m' \<and> d = d'" using column name by (intro date_unique) (simp_all add: le_nat_iff nat_le_iff)
  with column name have "y = y'" "m = m'" "d = d'" by (auto simp: nat_eq_iff2)
  then show ?thesis using column name by (simp add: rename_date_def format_date_def)
qed

lemma rename_date_agrees_witness: "(rename_date 951782400 :: (unit, rust_string) outcome) = format_date 951782400"
  by (rule rename_date_agrees) simp_all

text \<open>A time far enough in the future overflows the year; without overflow checks the loop would run on through the years.\<close>

lemma years_up_overflow:
  assumes "0 \<le> y" "y < 2 ^ 31" "366 * (2 ^ 31 - y) \<le> d"
  shows "(years_up y d :: ('e, int \<times> int) outcome) = Panic"
  using assms
proof (induction "nat d" arbitrary: y d rule: less_induct)
  case less
  have late: "year_length y \<le> d" "year_length y \<le> 366" "0 < year_length y" using less.prems by (simp_all add: year_length_def)
  then have same: "(years_up y d :: ('e, int \<times> int) outcome) = obind (i32 (y + 1)) (\<lambda>y'. years_up y' (d - year_length y))"
    by (subst years_up.simps) (simp add: year_length_def Let_def)
  show ?case
  proof (cases "y + 1 < 2 ^ 31")
    case True
    then have "i32 (y + 1) = (Ok (y + 1) :: ('e, int) outcome)" using less.prems(1) by (simp add: i32_def)
    moreover have "(years_up (y + 1) (d - year_length y) :: ('e, int \<times> int) outcome) = Panic"
      by (rule less.hyps) (use less.prems late True in simp_all)
    ultimately show ?thesis by (simp add: same)
  next
    case False
    then have "i32 (y + 1) = (Panic :: ('e, int) outcome)" by (simp add: i32_def)
    then show ?thesis by (simp add: same)
  qed
qed


end
