(* ===== verification/Spec2Isabelle.thy ===== *)
theory Spec2Isabelle
  imports NtfsStream NtfsWalkProps NtfsWireProps DiskUsageLayout AssetWorkProps Navigation RevisionCache ArchiveTreeProps EntryLabelsProps FilterExprProps Counts TextEncodingProps MagicFlags NameHazardsProps NodeStoreProps PrivatePresentationProps
    ChecksumManifestProps BulkRenameProps
begin

text \<open>
  Ferail is a file manager: a GPUI front end (\<open>ferail-gpui\<close>) over platform shells, with its logic
  in small crates that do no I/O.  This development models those crates, under \<open>src/crates/\<close>, and
  proves what makes them correct.  Names follow the source; a type or function that would clash with
  a name of the library carries the prefix of its crate or type.

  \<^bold>\<open>How the parts interact.\<close>  \<open>ferail-ntfs\<close> reads a volume: the boot sector gives the geometry,
  the mapping pairs give the extents of a stream, a mapped stream reads the MFT, the MFT gives FILE
  records, the compact index collects them, and a walk of the index emits rows with the bytes each is
  charged.  An elevated helper process sends the rows over a pipe in the frames of \<open>wire.rs\<close>.  The
  scanner turns them into facts; \<open>ferail-disk-usage\<close> applies the facts to a tree with incremental
  totals and lays the tree out for a treemap.  \<open>ferail-archive\<close> detects archives, keeps their tables
  of contents and decides where entries may be extracted.  \<open>ferail-core\<close> holds the state the views
  share: the history of a tab, the scheduler of icon and thumbnail work and the cache of its results.

  \<^bold>\<open>Conventions.\<close>  A machine word is a \<open>word\<close> of its width, \<open>usize\<close> a \<open>nat\<close> with its checks
  against \<open>2 ^ 64\<close>, an \<open>i64\<close> an \<open>int\<close> with its range; plain arithmetic that can overflow or
  underflow panics, as in a checked build.  A fallible function returns an \<open>outcome\<close> (\<open>Ok\<close>, \<open>Err\<close> or
  \<open>Panic\<close>) or an option.  A string is its list of Unicode scalar values.  A loop that may run
  forever is a partial function whose \<open>None\<close> means that it does not return, and a recursion over
  links takes fuel whose \<open>None\<close> is running out; for both there are theorems that they return.

  \<^bold>\<open>Theories.\<close>
  \<^item> \<open>Prelude\<close>: outcomes, checked and saturating arithmetic, slices, little-endian integers, strings,
    and the collections of rules the component proofs use.
  \<^item> \<open>NtfsBytes\<close>: \<open>error.rs\<close>, \<open>reader.rs\<close>; the locales \<open>byte_source\<close> and \<open>total_source\<close> are the contract
    of a reader, interpreted on the slice reader.
  \<^item> \<open>NtfsBoot\<close>: \<open>boot.rs\<close>; a geometry that is accepted is consistent.
  \<^item> \<open>NtfsRunlist\<close>: \<open>runlist.rs\<close>; the mapping pairs decode to the extents they encode, the extents
    are contiguous in VCNs, and nothing panics.
  \<^item> \<open>NtfsRecord\<close>, \<open>NtfsRecordProps\<close>: \<open>record.rs\<close>; the update-sequence fixups undo the protection of
    a multi-sector record, a parsed record is well formed (a run list is empty or covers its declared range), no bytes make the parser panic.
  \<^item> \<open>NtfsStream\<close>: \<open>stream.rs\<close>; a mapped stream reads exactly the bytes its runs name, and the
    bootstrap of the MFT collects all its extents.
  \<^item> \<open>NtfsIndex\<close>, \<open>NtfsIndexProps\<close>, \<open>NtfsWalk\<close>, \<open>NtfsWalkProps\<close>: \<open>index.rs\<close>; lookups are exact, the
    children of a directory are its links in order, and a walk charges every reachable file once,
    emits one row per visit and ends (a measure over the files that are not ancestors).
  \<^item> \<open>NtfsWire\<close>, \<open>NtfsWireProps\<close>: \<open>wire.rs\<close>; frames round trip, every decodable frame is the canonical
    encoding, and no bytes make the decoder panic.  The locale \<open>field_codec\<close> is the contract of one
    field, interpreted for every field type.
  \<^item> \<open>DiskUsage\<close>, \<open>DiskUsageTree\<close>, \<open>DiskUsageProps\<close>: \<open>file_category.rs\<close>, \<open>model.rs\<close>, \<open>facts.rs\<close>; the
    loops along the parents (locale \<open>ancestor_loop\<close>), the totals (locale \<open>size_field\<close>, interpreted for
    the apparent, allocated and effective sizes), the invariant \<open>du_inv\<close> every fact keeps, removal, and a stream of facts on which
    the propagation runs forever.
  \<^item> \<open>DiskUsageLayout\<close>: \<open>aggregate.rs\<close>; layouts show the right totals at every depth, filtered or not.
    The fuel of the filtered walk is the number of nodes, since no node is visited twice.
  \<^item> \<open>AssetWork\<close>, \<open>AssetWorkProps\<close>: \<open>asset_work.rs\<close>; the lanes as a transition system (\<open>co_step\<close>,
    \<open>co_reach\<close>) with the locale \<open>lane_operation\<close> for what each call keeps, and what each call promises.
  \<^item> \<open>Simulation\<close>: the locale \<open>simulation\<close>, refinement of a component by an abstract machine;
    \<open>Navigation\<close> (\<open>navigation.rs\<close>) and \<open>RevisionCache\<close> (\<open>revision_cache.rs\<close>) interpret it.
  \<^item> \<open>RustText\<close>, \<open>Calendar\<close>: the string operations of the standard library, and a reference Gregorian
    calendar counted day by day.  \<open>EntryLabels\<close>, \<open>EntryLabelsProps\<close>: the rows of \<open>lib.rs\<close>, their
    Format flag, dates and ages; \<open>FilterExpr\<close>, \<open>FilterExprProps\<close>: \<open>filter_expr.rs\<close>.  Date terms
    (comparisons, ranges, words) select calendar days, size terms sizes, and a printed date can be typed back.  \<open>Counts\<close>: \<open>counts.rs\<close>.
  \<^item> \<open>Utf8\<close>: the UTF-8 and UTF-16 of the standard library.  \<open>TextEncoding\<close>, \<open>TextEncodingProps\<close>:
    \<open>text_encoding.rs\<close>; encoded text is decoded again, and a rendered ANSI text fits its screen, shows no
    control character and has the styles of its canvas.
  \<^item> \<open>NodeStore\<close>, \<open>NodeStoreProps\<close>: \<open>node_store.rs\<close>, \<open>path_guard.rs\<close>; the paths of the standard library on
    Unix as lists of components, the store as a transition system (\<open>store_step\<close>) with the invariant
    \<open>store_ok\<close>; an id is an identity unless a backend's id collides, the ancestors are those of the directory
    followed by the path itself, and when the allocation of ids returns.
  \<^item> \<open>NameHazards\<close>, \<open>NameHazardsProps\<close>: \<open>name_hazards.rs\<close>; the segments spell the name, each character is
    flagged as a reference over explicit code points (\<open>hazard_at\<close>) demands of its place, and what is shown
    replaces the flagged characters and no other, so invisible characters the code does not list stay raw.
  \<^item> \<open>PrivatePresentation\<close>, \<open>PrivatePresentationProps\<close>: \<open>private_presentation.rs\<close>; stand-ins have the shape of
    what they stand for.
  \<^item> \<open>ChecksumManifest\<close>, \<open>ChecksumManifestProps\<close>: \<open>verify.rs\<close> of \<open>ferail-fs-native\<close>; a manifest only opens plain
    names below its folder, and what is generated is read back and verifies.
  \<^item> \<open>BulkRename\<close>, \<open>BulkRenameProps\<close>: \<open>bulk_rename.rs\<close> of \<open>ferail-gpui\<close>; the worker as steps on its queues and a
    disk (a map from entries to files), with the invariant \<open>sched_ok\<close> of its schedule; a batch is the simultaneous
    renaming (\<open>simultaneous\<close>), a failing one loses nothing, a plan without conflicts has distinct targets, and the
    dates of the template are those of \<open>lib.rs\<close>.
  \<^item> \<open>MagicTypes\<close>, \<open>MagicBinary\<close>, \<open>MagicAmiga\<close>, \<open>MagicZip\<close>, \<open>MagicText\<close>, \<open>Magic\<close>: the content sniffer of
    \<open>ferail-fs-native\<close>, \<open>magic.rs\<close> and \<open>magic/\<close>.  \<open>MagicProps\<close>: off the UI thread no file makes it panic, except
    a WAV file with an overflowing rate, and for plain WAV headers exactly which; the flag \<open>checks\<close> is whether the
    build checks overflows and debug assertions.  \<open>MagicFlags\<close>: what the
    Format column of \<open>lib.rs\<close> makes of a detected type.
  \<^item> \<open>ArchivePath\<close>: \<open>safety.rs\<close>; accepted entry paths stay below the destination, with the hole the
    drive check leaves.  \<open>ArchiveToc\<close>: \<open>format.rs\<close>, \<open>capability.rs\<close>, \<open>entry.rs\<close>.
    \<open>ArchiveTree\<close>, \<open>ArchiveTreeProps\<close>: \<open>tree.rs\<close>; the rows of a view are exactly the paths below open
    directories.  The fuel is above the longest path, since a child is longer than its parent.

  \<^bold>\<open>Parameters.\<close>  The bytes of a volume (a reader), the Unicode lower case, the filter predicate and
  the cancellation poll of a layout, the target system of a build, what the reads of a file return, the
  label of a sample rate, the alphabetic characters of Unicode, the translations,
  the digests of a file and its opening below a folder,
  the patterns of the \<open>regex\<close> package, the failures of renames.

  \<^bold>\<open>Not modelled.\<close>  The user interface, the platform shells and the file operations of
  \<open>ferail-fs-native\<close> are I/O and framework calls; the treemap geometry computes with floating-point
  numbers; \<open>ferail-meta\<close> and the codecs wrap third-party packages.
\<close>

end
